(* ===== verification/Prelude.thy ===== *)
theory Prelude
  imports Main "HOL-Library.Multiset"
begin

text \<open>
  Shared vocabulary of the development: the error-passing composition the models use for C++
  statements that may throw, collections of simplification rules, and generic facts on lists and
  multisets (sorted queues, counting of events, merging two sorted queues) the components share.
\<close>

named_theorems kernel_simps \<open>what the calls into the simulation kernel change\<close>
named_theorems model_defs \<open>definitions of the modelled operations\<close>
named_theorems view_simps \<open>views of the system state after an operation\<close>

section \<open>Statements that may throw\<close>

text \<open>
  A statement that may throw returns \<open>Inl\<close> of the error or \<open>Inr\<close> of its result. Sequencing
  \<open>s1; s2\<close> is \<open>ebind\<close>: the second part runs only when the first one did not throw.
\<close>

fun ebind :: "'e + 'a \<Rightarrow> ('a \<Rightarrow> 'e + 'b) \<Rightarrow> 'e + 'b" where
  "ebind (Inl e) f = Inl e"
| "ebind (Inr x) f = f x"

lemma ebind_eq_Inr: "ebind m f = Inr y \<longleftrightarrow> (\<exists>x. m = Inr x \<and> f x = Inr y)"
  by (cases m) auto

lemma ebind_eq_Inl: "ebind m f = Inl e \<longleftrightarrow> m = Inl e \<or> (\<exists>x. m = Inr x \<and> f x = Inl e)"
  by (cases m) auto

lemma ebind_assoc: "ebind (ebind m f) g = ebind m (\<lambda>x. ebind (f x) g)"
  by (cases m) auto

section \<open>Lists and multisets\<close>

lemma sorted_snoc_le: "sorted (xs @ [x]) \<longleftrightarrow> sorted xs \<and> (\<forall>y\<in>set xs. y \<le> x)"
  by (auto simp: sorted_append)

lemma size_filter_remove:
  assumes "e \<in># M"
  shows "size (filter_mset P (M - {#e#})) + (if P e then 1 else 0) = size (filter_mset P M)"
proof -
  from assms obtain N where "M = add_mset e N" by (blast dest: multi_member_split)
  then show ?thesis by simp
qed

lemma filter_mset_size_1E:
  assumes "size (filter_mset P M) = 1" and "e \<in># M" and "P e" and "e' \<in># M" and "P e'"
  shows "e = e'"
proof -
  from assms(1) obtain x where "filter_mset P M = {#x#}"
    by (blast dest: size_1_singleton_mset)
  moreover from assms have "e \<in># filter_mset P M" and "e' \<in># filter_mset P M" by auto
  ultimately show ?thesis by simp
qed

lemma mset_set_upto_Suc [simp]: "mset_set {0..<Suc n} = add_mset n (mset_set {0..<n})"
  by (simp add: atLeastLessThanSuc)

lemma filter_mset_empty_conv: "filter_mset P M = {#} \<longleftrightarrow> (\<forall>x\<in>#M. \<not> P x)"
  by (induction M) auto

lemma remove_only:
  assumes "size (filter_mset P M) = 1" and "e \<in># M" and "P e"
  shows "\<forall>x\<in># M - {#e#}. \<not> P x"
proof -
  from assms(2) obtain N where "M = add_mset e N" by (blast dest: multi_member_split)
  with assms show ?thesis by (auto simp: filter_mset_empty_conv)
qed

lemma Bex_mset_size: "(\<exists>x\<in>#M. P x) \<longleftrightarrow> size (filter_mset P M) \<noteq> 0"
  by (induction M) auto

lemma ex_minimal_mset:
  fixes f :: "'a \<Rightarrow> int"
  assumes "M \<noteq> {#}"
  shows "\<exists>x\<in>#M. \<forall>y\<in>#M. f x \<le> f y"
proof -
  from assms have "Min (f ` set_mset M) \<in> f ` set_mset M" by (intro Min_in) auto
  then obtain x where "x \<in># M" "f x = Min (f ` set_mset M)" by auto
  then show ?thesis by (intro bexI [of _ x]) simp_all
qed

end
