(* ===== verification/Omnet.thy ===== *)
theory Omnet
  imports Prelude Complex_Main
begin

text \<open>
  The interface between the modelled modules and the OMNeT++ library, whose sources are not part
  of the repository. Library functions whose results the modules compute with (the FIFO container
  \<open>cQueue\<close>, the random number generators, the conversion of a \<open>double\<close> to simulation time) are
  the fields of the parameter record \<open>omnet\<close>; the locale \<open>omnetpp\<close> states what their
  documentation promises. Calls that return nothing (\<open>scheduleAt\<close>, \<open>sendDelayed\<close>, \<open>emit\<close>,
  \<open>endSimulation\<close> and the like) are effects: the record \<open>kernel\<close> keeps the messages handed to the
  simulation kernel and not yet delivered, and the log of all calls made.
\<close>

section \<open>Times, messages, calls\<close>

text \<open>
  \<open>simtime_t\<close> is a fixed point number: an integer count of the configured resolution. A \<open>double\<close>
  is read as a real number.
\<close>

type_synonym simtime = int
type_synonym double = real

datatype sample = Long int | Double double | Time simtime

text \<open>
  A message in flight: when it arrives, at which module, on which gate (name and index), and the
  message itself. A self-message arrives on no gate.
\<close>

record ('d, 'm) event =
  ev_time :: simtime
  ev_module :: 'd
  ev_gate :: "(string \<times> int) option"
  ev_msg :: 'm

definition isSelfMessage :: "('d, 'm) event \<Rightarrow> bool" where
  "isSelfMessage e \<longleftrightarrow> ev_gate e = None"

datatype ('d, 'm, 's) call =
    Scheduled "('d, 'm) event"
  | Sent "('d, 'm) event"
  | Emitted 's sample
  | Deleted 'm
  | WarmupPeriod double
  | Alerted 'd
  | EndedSimulation

datatype error =
    EmptyQueuePop        \<comment> \<open>\<open>cQueue::pop()\<close> on an empty queue\<close>
  | NullDereference      \<comment> \<open>use of the result of \<open>front()\<close> on an empty queue, or of an unset pointer\<close>
  | ScheduledInPast      \<comment> \<open>\<open>scheduleAt()\<close> before the current simulation time\<close>
  | NegativeDelay        \<comment> \<open>\<open>sendDelayed()\<close> with a negative delay\<close>
  | GateNotConnected     \<comment> \<open>\<open>send()\<close> on a gate that does not exist or is not connected\<close>
  | UnhandledMessage     \<comment> \<open>a message to a module without a handler\<close>
  | IndexOutOfRange      \<comment> \<open>access outside a C++ array\<close>
  | DivisionByZero
  | AssertionFailed      \<comment> \<open>a failed \<open>ASSERT()\<close>\<close>
  | RuntimeError         \<comment> \<open>an explicit \<open>throw cRuntimeError\<close>\<close>
  | SignedOverflow       \<comment> \<open>overflow of a signed integer, which C++ leaves undefined\<close>

record ('g, 'd, 'm, 's) kernel =
  simTime :: simtime
  fes :: "('d, 'm) event multiset"
  rng :: 'g
  calls :: "('d, 'm, 's) call list"
  halted :: bool

section \<open>The library as a parameter\<close>

record ('q, 'm, 'g) omnet =
  q_new :: 'q
  q_insert :: "'q \<Rightarrow> 'm \<Rightarrow> 'q"
  q_pop :: "'q \<Rightarrow> ('m \<times> 'q) option"
  q_front :: "'q \<Rightarrow> 'm option"
  q_isEmpty :: "'q \<Rightarrow> bool"
  q_getLength :: "'q \<Rightarrow> int"
  q_clear :: "'q \<Rightarrow> 'q"
  rng_exponential :: "'g \<Rightarrow> double \<Rightarrow> int \<Rightarrow> double \<times> 'g"
  rng_uniform :: "'g \<Rightarrow> double \<Rightarrow> double \<Rightarrow> double \<times> 'g"
  rng_normal :: "'g \<Rightarrow> double \<Rightarrow> double \<Rightarrow> double \<times> 'g"
  rng_intuniform :: "'g \<Rightarrow> int \<Rightarrow> int \<Rightarrow> int \<times> 'g"
  toSimtime :: "double \<Rightarrow> simtime"
  fromSimtime :: "simtime \<Rightarrow> double"

text \<open>The FIFO container: \<open>contents\<close> is the sequence of queued objects, front first.\<close>

locale cQueue =
  fixes K :: "('q, 'm, 'g) omnet"
    and contents :: "'q \<Rightarrow> 'm list"
  assumes contents_new: "contents (q_new K) = []"
    and contents_insert: "contents (q_insert K q m) = contents q @ [m]"
    and pop_empty: "contents q = [] \<Longrightarrow> q_pop K q = None"
    and pop_Cons: "contents q = m # ms \<Longrightarrow> \<exists>q'. q_pop K q = Some (m, q') \<and> contents q' = ms"
    and front_empty: "contents q = [] \<Longrightarrow> q_front K q = None"
    and front_Cons: "contents q = m # ms \<Longrightarrow> q_front K q = Some m"
    and isEmpty_contents: "q_isEmpty K q \<longleftrightarrow> contents q = []"
    and getLength_contents: "q_getLength K q = int (length (contents q))"
    and contents_clear: "contents (q_clear K q) = []"
begin

lemma pop_Some_iff:
  "q_pop K q = Some (m, q') \<Longrightarrow> contents q = m # contents q'"
  by (cases "contents q") (auto simp: pop_empty dest!: pop_Cons)

lemma pop_None_iff: "q_pop K q = None \<longleftrightarrow> contents q = []"
  by (cases "contents q") (auto simp: pop_empty dest!: pop_Cons)

lemma front_Some_iff: "q_front K q = Some m \<longleftrightarrow> (\<exists>ms. contents q = m # ms)"
  by (cases "contents q") (auto simp: front_empty front_Cons)

lemma pop_front: "q_pop K q = Some (m, q') \<Longrightarrow> q_front K q = Some m"
  by (auto simp: front_Some_iff dest: pop_Some_iff)

end

text \<open>The samplers return non-negative values, and the conversion keeps the sign.\<close>

locale omnetpp = cQueue +
  assumes exponential_nonneg: "0 \<le> mean \<Longrightarrow> 0 \<le> fst (rng_exponential K g mean i)"
    and uniform_range: "a \<le> b \<Longrightarrow> a \<le> fst (rng_uniform K g a b) \<and> fst (rng_uniform K g a b) \<le> b"
    and intuniform_range: "i \<le> j \<Longrightarrow> i \<le> fst (rng_intuniform K g i j) \<and> fst (rng_intuniform K g i j) \<le> j"
    and toSimtime_nonneg: "0 \<le> d \<Longrightarrow> 0 \<le> toSimtime K d"
    and toSimtime_minus_one: "toSimtime K (- 1) < 0"

text \<open>
  The contract can be met: lists as queues, the mean or the lower bound as the sample, rounding down
  to the resolution of one second.
\<close>

definition list_omnet :: "('m list, 'm, 'g) omnet" where
  "list_omnet = \<lparr>q_new = [], q_insert = (\<lambda>q m. q @ [m]),
     q_pop = (\<lambda>q. case q of [] \<Rightarrow> None | m # ms \<Rightarrow> Some (m, ms)),
     q_front = (\<lambda>q. case q of [] \<Rightarrow> None | m # ms \<Rightarrow> Some m),
     q_isEmpty = (\<lambda>q. q = []), q_getLength = (\<lambda>q. int (length q)), q_clear = (\<lambda>q. []),
     rng_exponential = (\<lambda>g mean i. (mean, g)), rng_uniform = (\<lambda>g a b. (a, g)),
     rng_normal = (\<lambda>g mean var. (mean, g)), rng_intuniform = (\<lambda>g a b. (a, g)),
     toSimtime = (\<lambda>d. \<lfloor>d\<rfloor>), fromSimtime = real_of_int\<rparr>"

interpretation list_library: omnetpp list_omnet "\<lambda>q. q"
  by unfold_locales (simp_all add: list_omnet_def split: list.splits)

section \<open>Calls into the kernel\<close>

definition kcall :: "('d, 'm, 's) call \<Rightarrow> ('g, 'd, 'm, 's) kernel \<Rightarrow> ('g, 'd, 'm, 's) kernel" where
  "kcall c k = k\<lparr>calls := calls k @ [c]\<rparr>"

definition emit :: "'s \<Rightarrow> sample \<Rightarrow> ('g, 'd, 'm, 's) kernel \<Rightarrow> ('g, 'd, 'm, 's) kernel" where
  "emit sig v k = kcall (Emitted sig v) k"

definition endSimulation :: "('g, 'd, 'm, 's) kernel \<Rightarrow> ('g, 'd, 'm, 's) kernel" where
  "endSimulation k = (kcall EndedSimulation k)\<lparr>halted := True\<rparr>"

definition scheduleAt ::
  "'d \<Rightarrow> simtime \<Rightarrow> 'm \<Rightarrow> ('g, 'd, 'm, 's) kernel \<Rightarrow> error + ('g, 'd, 'm, 's) kernel" where
  "scheduleAt self t m k =
     (if t < simTime k then Inl ScheduledInPast
      else let e = \<lparr>ev_time = t, ev_module = self, ev_gate = None, ev_msg = m\<rparr>
           in Inr ((kcall (Scheduled e) k)\<lparr>fes := add_mset e (fes k)\<rparr>))"

text \<open>
  \<open>sendDelayed\<close> follows the connection of the output gate; \<open>send\<close> is the same without a delay. The
  wiring also gives the propagation delay of the channel.
\<close>

type_synonym 'd wiring = "'d \<Rightarrow> string \<Rightarrow> int \<Rightarrow> ('d \<times> string \<times> int \<times> simtime) option"

definition sendDelayed ::
  "'d wiring \<Rightarrow> 'd \<Rightarrow> string \<Rightarrow> int \<Rightarrow> simtime \<Rightarrow> 'm \<Rightarrow> ('g, 'd, 'm, 's) kernel
    \<Rightarrow> error + ('g, 'd, 'm, 's) kernel" where
  "sendDelayed net self gate i d m k =
     (if d < 0 then Inl NegativeDelay
      else case net self gate i of
             None \<Rightarrow> Inl GateNotConnected
           | Some (dest, g, j, chan) \<Rightarrow>
               let e = \<lparr>ev_time = simTime k + d + chan, ev_module = dest,
                        ev_gate = Some (g, j), ev_msg = m\<rparr>
               in Inr ((kcall (Sent e) k)\<lparr>fes := add_mset e (fes k)\<rparr>))"

definition send ::
  "'d wiring \<Rightarrow> 'd \<Rightarrow> string \<Rightarrow> int \<Rightarrow> 'm \<Rightarrow> ('g, 'd, 'm, 's) kernel
    \<Rightarrow> error + ('g, 'd, 'm, 's) kernel" where
  "send net self gate i m k = sendDelayed net self gate i 0 m k"

text \<open>
  Delivery: the kernel removes the message from the pending ones and advances the time. Which
  message may be delivered is the documented rule of the kernel, the earliest first; the order of
  simultaneous messages is left open.
\<close>

definition earliest :: "('d, 'm) event \<Rightarrow> ('g, 'd, 'm, 's) kernel \<Rightarrow> bool" where
  "earliest e k \<longleftrightarrow> e \<in># fes k \<and> (\<forall>e'\<in>#fes k. ev_time e \<le> ev_time e')"

definition begin_event :: "('d, 'm) event \<Rightarrow> ('g, 'd, 'm, 's) kernel \<Rightarrow> ('g, 'd, 'm, 's) kernel" where
  "begin_event e k = k\<lparr>simTime := ev_time e, fes := fes k - {#e#}\<rparr>"

text \<open>The samples emitted so far for one signal, oldest first.\<close>

definition samples :: "'s \<Rightarrow> ('d, 'm, 's) call list \<Rightarrow> sample list" where
  "samples sig cs = List.map_filter
     (\<lambda>c. case c of Emitted s v \<Rightarrow> if s = sig then Some v else None | _ \<Rightarrow> None) cs"

lemma samples_Nil [simp]: "samples sig [] = []"
  by (simp add: samples_def)

lemma samples_append [simp]: "samples sig (cs @ ds) = samples sig cs @ samples sig ds"
  by (simp add: samples_def map_filter_def)

lemma samples_Cons [simp]:
  "samples sig (c # cs) =
     (case c of Emitted s v \<Rightarrow> if s = sig then v # samples sig cs else samples sig cs
      | _ \<Rightarrow> samples sig cs)"
  by (cases c) (simp_all add: samples_def map_filter_simps)

lemma kcall_simps [simp, kernel_simps]:
  "simTime (kcall c k) = simTime k" "fes (kcall c k) = fes k" "rng (kcall c k) = rng k"
  "calls (kcall c k) = calls k @ [c]" "halted (kcall c k) = halted k"
  by (simp_all add: kcall_def)

lemma emit_simps [simp, kernel_simps]:
  "simTime (emit sig v k) = simTime k" "fes (emit sig v k) = fes k" "rng (emit sig v k) = rng k"
  "calls (emit sig v k) = calls k @ [Emitted sig v]" "halted (emit sig v k) = halted k"
  by (simp_all add: emit_def)

lemma endSimulation_simps [simp, kernel_simps]:
  "simTime (endSimulation k) = simTime k" "fes (endSimulation k) = fes k"
  "rng (endSimulation k) = rng k" "calls (endSimulation k) = calls k @ [EndedSimulation]"
  "halted (endSimulation k)"
  by (simp_all add: endSimulation_def)

lemma begin_event_simps [simp, kernel_simps]:
  "simTime (begin_event e k) = ev_time e" "fes (begin_event e k) = fes k - {#e#}"
  "rng (begin_event e k) = rng k" "calls (begin_event e k) = calls k"
  "halted (begin_event e k) = halted k"
  by (simp_all add: begin_event_def)

end
