(* ===== verification/Airport.thy ===== *)
theory Airport
  imports Omnet
begin

text \<open>
  The state of the airport simulator: the \<open>Airplane\<close> message, the three simple modules
  \<open>Airspace\<close>, \<open>ParkingArea\<close> and \<open>ControlTower\<close>, their NED parameters and the gate connections of
  the network. Modules call each other directly, so an operation takes and returns the state of
  the whole system.
\<close>

section \<open>Airplanes\<close>

text \<open>
  An \<open>Airplane\<close> is a \<open>cMessage\<close> with one more field. Of the base class the simulator uses the
  timestamp; \<open>ident\<close> stands for the identity of the object (its address).
\<close>

record Airplane =
  ident :: nat
  timestamp :: simtime
  queueArrivalTime :: simtime

definition Airplane_new :: "nat \<Rightarrow> Airplane" where
  "Airplane_new i = \<lparr>ident = i, timestamp = 0, queueArrivalTime = 0\<rparr>"

definition getQueueArrivalTime :: "Airplane \<Rightarrow> simtime" where
  "getQueueArrivalTime a = queueArrivalTime a"

definition setQueueArrivalTime :: "simtime \<Rightarrow> Airplane \<Rightarrow> Airplane" where
  "setQueueArrivalTime t a = a\<lparr>queueArrivalTime := t\<rparr>"

section \<open>Modules\<close>

datatype airport_module = MAirspace | MParkingArea | MControlTower

datatype airport_signal =
    HoldingQueueSize | HoldingQueueWaitingTime | AirportResponseTime | TotalSimtime | RunwayUse
  | ParkedPlanes | DepartQueueSize | DepartQueueWaitingTime

text \<open>The NED parameters the modules read with \<open>par()\<close>.\<close>

record airspace_par =
  par_isInterArrivalTimeRandom :: bool
  par_isLandingTimeRandom :: bool
  par_interArrivalTime :: double
  par_landingTime :: double
  par_totalSamples :: int
  par_warmup :: double
  par_scaling :: double

record parkingArea_par =
  par_isParkingTimeRandom :: bool
  par_isTakeoffTimeRandom :: bool
  par_parkingTime :: double
  par_takeoffTime :: double

text \<open>The fields of the module classes. A module pointer is \<open>True\<close> once it has been resolved.\<close>

record 'q Airspace =
  isInterArrivalTimeRandom :: bool
  isLandingTimeRandom :: bool
  interArrivalTime :: double
  landingTime :: double
  totalSamples :: int
  departedPlanes :: int
  nextArrival :: simtime
  nextLandingTime :: simtime
  holdingQueue :: 'q
  airspace_controlTower :: bool

record 'q ParkingArea =
  isParkingTimeRandom :: bool
  isTakeoffTimeRandom :: bool
  parkingTime :: double
  takeoffTime :: double
  numParked :: int
  nextParkingTime :: simtime
  nextTakeoffTime :: simtime
  departQueue :: 'q
  parkingArea_controlTower :: bool

record ControlTower =
  landingStripOccupied :: bool
  tower_parkingArea :: bool
  tower_airspace :: bool

type_synonym 'g airport_kernel = "('g, airport_module, Airplane, airport_signal) kernel"

record ('q, 'g) sim =
  airspace :: "'q Airspace"
  parkingArea :: "'q ParkingArea"
  controlTower :: ControlTower
  nextIdent :: nat
  kern :: "'g airport_kernel"

section \<open>The network\<close>

text \<open>
  \<open>AirTrafficControl.ned\<close> and \<open>Airport.ned\<close>: the airspace's \<open>out\<close> gate leads through the airport's
  \<open>in\<close> gate to the parking area, and back. The connections have no channel delay.
\<close>

definition airport_net :: "airport_module wiring" where
  "airport_net m gate i =
     (if gate = ''out'' \<and> i = 0 then
        (case m of MAirspace \<Rightarrow> Some (MParkingArea, ''in'', 0, 0)
         | MParkingArea \<Rightarrow> Some (MAirspace, ''in'', 0, 0)
         | MControlTower \<Rightarrow> None)
      else None)"

text \<open>\<open>new Airplane()\<close> returns a new object.\<close>

definition new_Airplane :: "('q, 'g) sim \<Rightarrow> Airplane \<times> ('q, 'g) sim" where
  "new_Airplane s = (Airplane_new (nextIdent s), s\<lparr>nextIdent := Suc (nextIdent s)\<rparr>)"

text \<open>
  The duration of an activity: an exponential sample with the configured mean when the parameter
  is random, the configured constant otherwise; assigned to a \<open>simtime_t\<close>.
\<close>

definition duration ::
  "('q, Airplane, 'g) omnet \<Rightarrow> bool \<Rightarrow> double \<Rightarrow> int \<Rightarrow> 'g airport_kernel \<Rightarrow> simtime \<times> 'g airport_kernel"
  where
  "duration K isRandom mean i k =
     (if isRandom
      then (let (d, g) = rng_exponential K (rng k) mean i in (toSimtime K d, k\<lparr>rng := g\<rparr>))
      else (toSimtime K mean, k))"

end
