(* ===== verification/AirportModules.thy ===== *)
theory AirportModules
  imports Airport
begin

text \<open>
  The operations of the three simple modules. \<open>Airspace\<close> and \<open>ParkingArea\<close> each own one FIFO queue
  of airplanes waiting for the runway and offer the control tower \<open>getMaxQueueTime()\<close> and \<open>go()\<close>;
  their message handlers in turn call the tower's \<open>notify()\<close> and \<open>completed()\<close>.
\<close>

section \<open>Airspace\<close>

definition Airspace_getMaxQueueTime ::
  "('q, Airplane, 'g) omnet \<Rightarrow> ('q, 'g) sim \<Rightarrow> error + simtime" where
  "Airspace_getMaxQueueTime K s =
     (if q_isEmpty K (holdingQueue (airspace s)) then Inr (toSimtime K (- 1))
      else case q_front K (holdingQueue (airspace s)) of
             None \<Rightarrow> Inl NullDereference
           | Some a \<Rightarrow> Inr (getQueueArrivalTime a))"

definition Airspace_go :: "('q, Airplane, 'g) omnet \<Rightarrow> ('q, 'g) sim \<Rightarrow> error + ('q, 'g) sim" where
  "Airspace_go K s =
     (case q_pop K (holdingQueue (airspace s)) of
        None \<Rightarrow> Inl EmptyQueuePop
      | Some (airplane, q) \<Rightarrow>
          let k = kern s;
              k = emit HoldingQueueWaitingTime (Time (simTime k - getQueueArrivalTime airplane)) k;
              k = emit HoldingQueueSize (Long (q_getLength K q)) k;
              (t, k) = duration K (isLandingTimeRandom (airspace s)) (landingTime (airspace s)) 1 k
          in ebind (sendDelayed airport_net MAirspace ''out'' 0 t airplane k)
               (\<lambda>k. Inr (s\<lparr>airspace := (airspace s)\<lparr>holdingQueue := q, nextLandingTime := t\<rparr>,
                          kern := emit RunwayUse (Time t) k\<rparr>)))"

section \<open>Parking area\<close>

definition ParkingArea_getMaxQueueTime ::
  "('q, Airplane, 'g) omnet \<Rightarrow> ('q, 'g) sim \<Rightarrow> error + simtime" where
  "ParkingArea_getMaxQueueTime K s =
     (if q_isEmpty K (departQueue (parkingArea s)) then Inr (toSimtime K (- 1))
      else case q_front K (departQueue (parkingArea s)) of
             None \<Rightarrow> Inl NullDereference
           | Some a \<Rightarrow> Inr (getQueueArrivalTime a))"

definition ParkingArea_go :: "('q, Airplane, 'g) omnet \<Rightarrow> ('q, 'g) sim \<Rightarrow> error + ('q, 'g) sim" where
  "ParkingArea_go K s =
     (case q_pop K (departQueue (parkingArea s)) of
        None \<Rightarrow> Inl EmptyQueuePop
      | Some (airplane, q) \<Rightarrow>
          let k = kern s;
              k = emit DepartQueueWaitingTime (Time (simTime k - getQueueArrivalTime airplane)) k;
              k = emit DepartQueueSize (Long (q_getLength K q)) k;
              (t, k) = duration K (isTakeoffTimeRandom (parkingArea s)) (takeoffTime (parkingArea s)) 1 k
          in ebind (sendDelayed airport_net MParkingArea ''out'' 0 t airplane k)
               (\<lambda>k. Inr (s\<lparr>parkingArea := (parkingArea s)\<lparr>departQueue := q, nextTakeoffTime := t\<rparr>,
                          kern := emit RunwayUse (Time t) k\<rparr>)))"

section \<open>Control tower\<close>

text \<open>
  \<open>notify()\<close> grants the runway when it is free; the caller starts the landing or the take-off.
\<close>

definition ControlTower_notify :: "('q, 'g) sim \<Rightarrow> bool \<times> ('q, 'g) sim" where
  "ControlTower_notify s =
     (if \<not> landingStripOccupied (controlTower s)
      then (True, s\<lparr>controlTower := (controlTower s)\<lparr>landingStripOccupied := True\<rparr>\<rparr>)
      else (False, s))"

text \<open>\<open>completed()\<close> passes the runway on to the airplane waiting longest, or frees it.\<close>

definition ControlTower_completed ::
  "('q, Airplane, 'g) omnet \<Rightarrow> ('q, 'g) sim \<Rightarrow> error + ('q, 'g) sim" where
  "ControlTower_completed K s =
     (if \<not> tower_airspace (controlTower s) \<or> \<not> tower_parkingArea (controlTower s)
      then Inl NullDereference
      else ebind (Airspace_getMaxQueueTime K s) (\<lambda>holdingQueueMaxTime.
           ebind (ParkingArea_getMaxQueueTime K s) (\<lambda>departQueueMaxTime.
             if holdingQueueMaxTime < 0 \<and> departQueueMaxTime < 0
             then Inr (s\<lparr>controlTower := (controlTower s)\<lparr>landingStripOccupied := False\<rparr>\<rparr>)
             else if holdingQueueMaxTime < 0 then ParkingArea_go K s
             else if departQueueMaxTime < 0 then Airspace_go K s
             else if departQueueMaxTime < holdingQueueMaxTime then ParkingArea_go K s
             else Airspace_go K s)))"

section \<open>Initialization\<close>

definition Airspace_initialize ::
  "('q, Airplane, 'g) omnet \<Rightarrow> (string \<Rightarrow> airport_module option) \<Rightarrow> airspace_par
    \<Rightarrow> ('q, 'g) sim \<Rightarrow> error + ('q, 'g) sim" where
  "Airspace_initialize K getModuleByPath p s =
     (let a = (airspace s)\<lparr>isInterArrivalTimeRandom := par_isInterArrivalTimeRandom p,
                isLandingTimeRandom := par_isLandingTimeRandom p,
                interArrivalTime := par_interArrivalTime p,
                landingTime := par_landingTime p,
                totalSamples := par_totalSamples p,
                departedPlanes := 0,
                holdingQueue := q_new K\<rparr>;
          s = s\<lparr>airspace := a, kern := kcall (WarmupPeriod (par_scaling p * par_warmup p)) (kern s)\<rparr>
      in if getModuleByPath ''AirTrafficControl.airport.controltower'' \<noteq> Some MControlTower
         then Inr (s\<lparr>kern := kcall (Alerted MAirspace) (kern s)\<rparr>)
         else let (firstPlane, s) = new_Airplane s;
                  (t, k) = duration K (isInterArrivalTimeRandom a) (interArrivalTime a) 0 (kern s)
              in ebind (scheduleAt MAirspace t firstPlane k)
                   (\<lambda>k. Inr (s\<lparr>airspace := a\<lparr>airspace_controlTower := True, nextArrival := t\<rparr>,
                              kern := k\<rparr>)))"

definition ParkingArea_initialize ::
  "('q, Airplane, 'g) omnet \<Rightarrow> (string \<Rightarrow> airport_module option) \<Rightarrow> parkingArea_par
    \<Rightarrow> ('q, 'g) sim \<Rightarrow> ('q, 'g) sim" where
  "ParkingArea_initialize K getModuleByPath p s =
     (let b = (parkingArea s)\<lparr>isParkingTimeRandom := par_isParkingTimeRandom p,
                isTakeoffTimeRandom := par_isTakeoffTimeRandom p,
                parkingTime := par_parkingTime p,
                takeoffTime := par_takeoffTime p,
                numParked := 0,
                departQueue := q_new K\<rparr>
      in if getModuleByPath ''AirTrafficControl.airport.controltower'' \<noteq> Some MControlTower
         then s\<lparr>parkingArea := b, kern := kcall (Alerted MParkingArea) (kern s)\<rparr>
         else s\<lparr>parkingArea := b\<lparr>parkingArea_controlTower := True\<rparr>\<rparr>)"

definition ControlTower_initialize ::
  "(string \<Rightarrow> airport_module option) \<Rightarrow> ('q, 'g) sim \<Rightarrow> ('q, 'g) sim" where
  "ControlTower_initialize getModuleByPath s =
     (let c = (controlTower s)\<lparr>landingStripOccupied := False\<rparr>
      in if getModuleByPath ''AirTrafficControl.airspace'' \<noteq> Some MAirspace
         then s\<lparr>controlTower := c, kern := kcall (Alerted MControlTower) (kern s)\<rparr>
         else let c = c\<lparr>tower_airspace := True\<rparr>
              in if getModuleByPath ''AirTrafficControl.airport.parkingarea'' \<noteq> Some MParkingArea
                 then s\<lparr>controlTower := c, kern := kcall (Alerted MControlTower) (kern s)\<rparr>
                 else s\<lparr>controlTower := c\<lparr>tower_parkingArea := True\<rparr>\<rparr>)"

section \<open>Message handling\<close>

text \<open>
  \<open>Airspace::handleMessage()\<close>: a self-message is an airplane that enters the system, any other
  message one that has taken off. \<open>self\<close> is the result of \<open>isSelfMessage()\<close>.
\<close>

definition Airspace_nextArrival ::
  "('q, Airplane, 'g) omnet \<Rightarrow> ('q, 'g) sim \<Rightarrow> error + ('q, 'g) sim" where
  "Airspace_nextArrival K s =
     (let (nextPlane, s) = new_Airplane s;
          a = airspace s;
          (t, k) = duration K (isInterArrivalTimeRandom a) (interArrivalTime a) 0 (kern s)
      in ebind (scheduleAt MAirspace (simTime k + t) nextPlane k)
           (\<lambda>k. Inr (s\<lparr>airspace := a\<lparr>nextArrival := t\<rparr>, kern := k\<rparr>)))"

definition Airspace_arrival ::
  "('q, Airplane, 'g) omnet \<Rightarrow> Airplane \<Rightarrow> ('q, 'g) sim \<Rightarrow> error + ('q, 'g) sim" where
  "Airspace_arrival K airplane s =
     (if \<not> airspace_controlTower (airspace s) then Inl NullDereference else
      let airplane = airplane\<lparr>timestamp := simTime (kern s)\<rparr>;
          (granted, s) = ControlTower_notify s;
          a = airspace s
      in ebind
        (if granted then
           let k = emit HoldingQueueSize (Long 0) (kern s);
               k = emit HoldingQueueWaitingTime (Double 0) k;
               (t, k) = duration K (isLandingTimeRandom a) (landingTime a) 1 k
           in ebind (sendDelayed airport_net MAirspace ''out'' 0 t airplane k)
                (\<lambda>k. Inr (s\<lparr>airspace := a\<lparr>nextLandingTime := t\<rparr>,
                           kern := emit RunwayUse (Time t) k\<rparr>))
         else
           let airplane = setQueueArrivalTime (simTime (kern s)) airplane;
               q = q_insert K (holdingQueue a) airplane
           in Inr (s\<lparr>airspace := a\<lparr>holdingQueue := q\<rparr>,
                     kern := emit HoldingQueueSize (Long (q_getLength K q)) (kern s)\<rparr>))
        (\<lambda>s. Airspace_nextArrival K s))"

definition Airspace_departure ::
  "('q, Airplane, 'g) omnet \<Rightarrow> Airplane \<Rightarrow> ('q, 'g) sim \<Rightarrow> error + ('q, 'g) sim" where
  "Airspace_departure K airplane s =
     (let k = emit AirportResponseTime (Time (simTime (kern s) - timestamp airplane)) (kern s);
          k = kcall (Deleted airplane) k;
          a = (airspace s)\<lparr>departedPlanes := departedPlanes (airspace s) + 1\<rparr>;
          s = s\<lparr>airspace := a, kern := k\<rparr>
      in if departedPlanes a < totalSamples a
         then if \<not> airspace_controlTower a then Inl NullDereference else ControlTower_completed K s
         else Inr (s\<lparr>kern := endSimulation (emit TotalSimtime (Time (simTime k)) k)\<rparr>))"

definition Airspace_handleMessage ::
  "('q, Airplane, 'g) omnet \<Rightarrow> bool \<Rightarrow> Airplane \<Rightarrow> ('q, 'g) sim \<Rightarrow> error + ('q, 'g) sim" where
  "Airspace_handleMessage K self airplane s =
     (if self then Airspace_arrival K airplane s else Airspace_departure K airplane s)"

definition ParkingArea_parked ::
  "('q, Airplane, 'g) omnet \<Rightarrow> Airplane \<Rightarrow> ('q, 'g) sim \<Rightarrow> error + ('q, 'g) sim" where
  "ParkingArea_parked K airplane s =
     (let b = (parkingArea s)\<lparr>numParked := numParked (parkingArea s) - 1\<rparr>;
          s = s\<lparr>parkingArea := b, kern := emit ParkedPlanes (Long (numParked b)) (kern s)\<rparr>
      in if \<not> parkingArea_controlTower b then Inl NullDereference else
         let (granted, s) = ControlTower_notify s in
         if granted then
           let k = emit DepartQueueSize (Long 0) (kern s);
               k = emit DepartQueueWaitingTime (Double 0) k;
               (t, k) = duration K (isTakeoffTimeRandom b) (takeoffTime b) 1 k
           in ebind (sendDelayed airport_net MParkingArea ''out'' 0 t airplane k)
                (\<lambda>k. Inr (s\<lparr>parkingArea := b\<lparr>nextTakeoffTime := t\<rparr>,
                           kern := emit RunwayUse (Time t) k\<rparr>))
         else
           let airplane = setQueueArrivalTime (simTime (kern s)) airplane;
               q = q_insert K (departQueue b) airplane
           in Inr (s\<lparr>parkingArea := b\<lparr>departQueue := q\<rparr>,
                     kern := emit DepartQueueSize (Long (q_getLength K q)) (kern s)\<rparr>))"

definition ParkingArea_landed ::
  "('q, Airplane, 'g) omnet \<Rightarrow> Airplane \<Rightarrow> ('q, 'g) sim \<Rightarrow> error + ('q, 'g) sim" where
  "ParkingArea_landed K airplane s =
     (let b = (parkingArea s)\<lparr>numParked := numParked (parkingArea s) + 1\<rparr>;
          k = emit ParkedPlanes (Long (numParked b)) (kern s);
          (t, k) = duration K (isParkingTimeRandom b) (parkingTime b) 0 k
      in ebind (scheduleAt MParkingArea (simTime k + t) airplane k)
           (\<lambda>k. if \<not> parkingArea_controlTower b then Inl NullDereference
                else ControlTower_completed K
                  (s\<lparr>parkingArea := b\<lparr>nextParkingTime := t\<rparr>, kern := k\<rparr>)))"

definition ParkingArea_handleMessage ::
  "('q, Airplane, 'g) omnet \<Rightarrow> bool \<Rightarrow> Airplane \<Rightarrow> ('q, 'g) sim \<Rightarrow> error + ('q, 'g) sim" where
  "ParkingArea_handleMessage K self airplane s =
     (if self then ParkingArea_parked K airplane s else ParkingArea_landed K airplane s)"

section \<open>Destruction\<close>

definition Airspace_destroy :: "('q, Airplane, 'g) omnet \<Rightarrow> ('q, 'g) sim \<Rightarrow> ('q, 'g) sim" where
  "Airspace_destroy K s =
     s\<lparr>airspace := (airspace s)\<lparr>holdingQueue := q_clear K (holdingQueue (airspace s))\<rparr>\<rparr>"

definition ParkingArea_destroy :: "('q, Airplane, 'g) omnet \<Rightarrow> ('q, 'g) sim \<Rightarrow> ('q, 'g) sim" where
  "ParkingArea_destroy K s =
     s\<lparr>parkingArea := (parkingArea s)\<lparr>departQueue := q_clear K (departQueue (parkingArea s))\<rparr>\<rparr>"

end
