(* ===== verification/RunwayUse.thy ===== *)
theory RunwayUse
  imports AirportModules
begin

text \<open>
  The contract between the control tower and its two clients. The locale \<open>runway_client\<close> is the
  interface the tower relies on: \<open>getMaxQueueTime()\<close> reports when the first waiting airplane queued
  up, \<open>go()\<close> takes that airplane off the queue. \<open>Airspace\<close> and \<open>ParkingArea\<close> both provide it. The
  rest of the theory gives the exact effect of every module operation.
\<close>

section \<open>Views of the state\<close>

abbreviation holding :: "('q \<Rightarrow> Airplane list) \<Rightarrow> ('q, 'g) sim \<Rightarrow> Airplane list" where
  "holding contents s \<equiv> contents (holdingQueue (airspace s))"

abbreviation departing :: "('q \<Rightarrow> Airplane list) \<Rightarrow> ('q, 'g) sim \<Rightarrow> Airplane list" where
  "departing contents s \<equiv> contents (departQueue (parkingArea s))"

abbreviation occupied :: "('q, 'g) sim \<Rightarrow> bool" where
  "occupied s \<equiv> landingStripOccupied (controlTower s)"

type_synonym airport_event = "(airport_module, Airplane) event"

definition arrival_event :: "simtime \<Rightarrow> Airplane \<Rightarrow> airport_event" where
  "arrival_event t a = \<lparr>ev_time = t, ev_module = MAirspace, ev_gate = None, ev_msg = a\<rparr>"

definition landing_event :: "simtime \<Rightarrow> Airplane \<Rightarrow> airport_event" where
  "landing_event t a =
     \<lparr>ev_time = t, ev_module = MParkingArea, ev_gate = Some (''in'', 0), ev_msg = a\<rparr>"

definition parking_event :: "simtime \<Rightarrow> Airplane \<Rightarrow> airport_event" where
  "parking_event t a = \<lparr>ev_time = t, ev_module = MParkingArea, ev_gate = None, ev_msg = a\<rparr>"

definition takeoff_event :: "simtime \<Rightarrow> Airplane \<Rightarrow> airport_event" where
  "takeoff_event t a =
     \<lparr>ev_time = t, ev_module = MAirspace, ev_gate = Some (''in'', 0), ev_msg = a\<rparr>"

lemmas event_defs = arrival_event_def landing_event_def parking_event_def takeoff_event_def

lemma event_sel [simp]:
  "ev_time (arrival_event t a) = t" "ev_msg (arrival_event t a) = a"
  "ev_time (landing_event t a) = t" "ev_msg (landing_event t a) = a"
  "ev_time (parking_event t a) = t" "ev_msg (parking_event t a) = a"
  "ev_time (takeoff_event t a) = t" "ev_msg (takeoff_event t a) = a"
  "ev_module (arrival_event t a) = MAirspace" "ev_module (landing_event t a) = MParkingArea"
  "ev_module (parking_event t a) = MParkingArea" "ev_module (takeoff_event t a) = MAirspace"
  "ev_gate (arrival_event t a) = None" "ev_gate (landing_event t a) = Some (''in'', 0)"
  "ev_gate (parking_event t a) = None" "ev_gate (takeoff_event t a) = Some (''in'', 0)"
  by (simp_all add: event_defs)

definition nonneg_means :: "('q, 'g) sim \<Rightarrow> bool" where
  "nonneg_means s \<longleftrightarrow> 0 \<le> interArrivalTime (airspace s) \<and> 0 \<le> landingTime (airspace s) \<and>
     0 \<le> parkingTime (parkingArea s) \<and> 0 \<le> takeoffTime (parkingArea s)"

definition resolved :: "('q, 'g) sim \<Rightarrow> bool" where
  "resolved s \<longleftrightarrow> airspace_controlTower (airspace s) \<and> parkingArea_controlTower (parkingArea s) \<and>
     tower_airspace (controlTower s) \<and> tower_parkingArea (controlTower s)"

section \<open>The contract of a runway client\<close>

locale runway_client =
  fixes getMax :: "'s \<Rightarrow> error + simtime"
    and go :: "'s \<Rightarrow> error + 's"
    and waiting :: "'s \<Rightarrow> Airplane list"
    and ready :: "'s \<Rightarrow> bool"
  assumes getMax_empty: "waiting s = [] \<Longrightarrow> \<exists>t<0. getMax s = Inr t"
    and getMax_Cons: "waiting s = a # as \<Longrightarrow> getMax s = Inr (queueArrivalTime a)"
    and go_empty: "waiting s = [] \<Longrightarrow> go s = Inl EmptyQueuePop"
    and go_Cons: "ready s \<Longrightarrow> waiting s = a # as \<Longrightarrow> \<exists>s'. go s = Inr s' \<and> waiting s' = as"
begin

lemma getMax_total: "\<exists>t. getMax s = Inr t"
  by (cases "waiting s") (auto dest: getMax_empty getMax_Cons)

lemma getMax_neg_iff:
  assumes "getMax s = Inr t" and "\<forall>a\<in>set (waiting s). 0 \<le> queueArrivalTime a"
  shows "t < 0 \<longleftrightarrow> waiting s = []"
proof (cases "waiting s")
  case Nil
  with assms(1) show ?thesis by (auto dest: getMax_empty)
next
  case (Cons a as)
  with assms show ?thesis by (auto dest: getMax_Cons)
qed

lemma go_ok_iff: "ready s \<Longrightarrow> (\<exists>s'. go s = Inr s') \<longleftrightarrow> waiting s \<noteq> []"
  by (cases "waiting s") (auto simp: go_empty dest: go_Cons)

lemma go_serves_front:
  "ready s \<Longrightarrow> go s = Inr s' \<Longrightarrow> \<exists>a. waiting s = a # waiting s' \<and> getMax s = Inr (queueArrivalTime a)"
  by (cases "waiting s") (auto simp: go_empty getMax_Cons dest: go_Cons)

end

section \<open>Exact effects\<close>

text \<open>The library, used with airplanes as the queued objects.\<close>

locale airport_library = omnetpp K contents
  for K :: "('q, Airplane, 'g) omnet" and contents :: "'q \<Rightarrow> Airplane list"
begin

lemma duration_result:
  assumes "0 \<le> mean"
  obtains t g where "duration K r mean i k = (t, k\<lparr>rng := g\<rparr>)" and "0 \<le> t"
proof (cases r)
  case True
  obtain d g where d: "rng_exponential K (rng k) mean i = (d, g)" by fastforce
  with exponential_nonneg [OF assms, of "rng k" i] have "0 \<le> toSimtime K d"
    by (simp add: toSimtime_nonneg)
  with that [where t = "toSimtime K d" and g = g] show thesis by (simp add: duration_def True d)
next
  case False
  with that [where t = "toSimtime K mean" and g = "rng k"] assms show thesis
    by (simp add: duration_def toSimtime_nonneg)
qed

lemma Airspace_go_result:
  assumes "0 \<le> landingTime (airspace s)" and "holding contents s = a # as"
  obtains q t g where
    "Airspace_go K s = Inr (s\<lparr>airspace := (airspace s)\<lparr>holdingQueue := q, nextLandingTime := t\<rparr>,
       kern := (kern s)\<lparr>rng := g,
         fes := add_mset (landing_event (simTime (kern s) + t) a) (fes (kern s)),
         calls := calls (kern s) @
           [Emitted HoldingQueueWaitingTime (Time (simTime (kern s) - queueArrivalTime a)),
            Emitted HoldingQueueSize (Long (int (length as))),
            Sent (landing_event (simTime (kern s) + t) a),
            Emitted RunwayUse (Time t)]\<rparr>\<rparr>)"
    and "contents q = as" and "0 \<le> t"
proof -
  from pop_Cons [OF assms(2)] obtain q where
    q: "q_pop K (holdingQueue (airspace s)) = Some (a, q)" "contents q = as" by blast
  let ?k = "emit HoldingQueueSize (Long (q_getLength K q))
     (emit HoldingQueueWaitingTime (Time (simTime (kern s) - queueArrivalTime a)) (kern s))"
  obtain t g where t:
    "duration K (isLandingTimeRandom (airspace s)) (landingTime (airspace s)) 1 ?k = (t, ?k\<lparr>rng := g\<rparr>)"
    "0 \<le> t" by (rule duration_result [OF assms(1)])
  show thesis
    by (rule that [where q = q and t = t and g = g])
      (use q t in \<open>simp_all add: Airspace_go_def getQueueArrivalTime_def sendDelayed_def
         airport_net_def landing_event_def getLength_contents emit_def kcall_def Let_def\<close>)
qed

lemma ParkingArea_go_result:
  assumes "0 \<le> takeoffTime (parkingArea s)" and "departing contents s = a # as"
  obtains q t g where
    "ParkingArea_go K s = Inr (s\<lparr>parkingArea := (parkingArea s)\<lparr>departQueue := q, nextTakeoffTime := t\<rparr>,
       kern := (kern s)\<lparr>rng := g,
         fes := add_mset (takeoff_event (simTime (kern s) + t) a) (fes (kern s)),
         calls := calls (kern s) @
           [Emitted DepartQueueWaitingTime (Time (simTime (kern s) - queueArrivalTime a)),
            Emitted DepartQueueSize (Long (int (length as))),
            Sent (takeoff_event (simTime (kern s) + t) a),
            Emitted RunwayUse (Time t)]\<rparr>\<rparr>)"
    and "contents q = as" and "0 \<le> t"
proof -
  from pop_Cons [OF assms(2)] obtain q where
    q: "q_pop K (departQueue (parkingArea s)) = Some (a, q)" "contents q = as" by blast
  let ?k = "emit DepartQueueSize (Long (q_getLength K q))
     (emit DepartQueueWaitingTime (Time (simTime (kern s) - queueArrivalTime a)) (kern s))"
  obtain t g where t:
    "duration K (isTakeoffTimeRandom (parkingArea s)) (takeoffTime (parkingArea s)) 1 ?k = (t, ?k\<lparr>rng := g\<rparr>)"
    "0 \<le> t" by (rule duration_result [OF assms(1)])
  show thesis
    by (rule that [where q = q and t = t and g = g])
      (use q t in \<open>simp_all add: ParkingArea_go_def getQueueArrivalTime_def sendDelayed_def
         airport_net_def takeoff_event_def getLength_contents emit_def kcall_def Let_def\<close>)
qed

end

sublocale airport_library \<subseteq> airspace_client: runway_client "Airspace_getMaxQueueTime K" "Airspace_go K"
    "holding contents" "\<lambda>s. 0 \<le> landingTime (airspace s)"
proof
  fix s :: "('q, 'g) sim" and a as
  show "holding contents s = [] \<Longrightarrow> \<exists>t<0. Airspace_getMaxQueueTime K s = Inr t"
    by (simp add: Airspace_getMaxQueueTime_def isEmpty_contents toSimtime_minus_one)
  show "holding contents s = a # as \<Longrightarrow> Airspace_getMaxQueueTime K s = Inr (queueArrivalTime a)"
    by (simp add: Airspace_getMaxQueueTime_def isEmpty_contents front_Cons getQueueArrivalTime_def)
  show "holding contents s = [] \<Longrightarrow> Airspace_go K s = Inl EmptyQueuePop"
    by (simp add: Airspace_go_def pop_empty)
  show "0 \<le> landingTime (airspace s) \<Longrightarrow> holding contents s = a # as \<Longrightarrow>
      \<exists>s'. Airspace_go K s = Inr s' \<and> holding contents s' = as"
    by (erule (1) Airspace_go_result) auto
qed

sublocale airport_library \<subseteq> parking_client: runway_client "ParkingArea_getMaxQueueTime K" "ParkingArea_go K"
    "departing contents" "\<lambda>s. 0 \<le> takeoffTime (parkingArea s)"
proof
  fix s :: "('q, 'g) sim" and a as
  show "departing contents s = [] \<Longrightarrow> \<exists>t<0. ParkingArea_getMaxQueueTime K s = Inr t"
    by (simp add: ParkingArea_getMaxQueueTime_def isEmpty_contents toSimtime_minus_one)
  show "departing contents s = a # as \<Longrightarrow> ParkingArea_getMaxQueueTime K s = Inr (queueArrivalTime a)"
    by (simp add: ParkingArea_getMaxQueueTime_def isEmpty_contents front_Cons getQueueArrivalTime_def)
  show "departing contents s = [] \<Longrightarrow> ParkingArea_go K s = Inl EmptyQueuePop"
    by (simp add: ParkingArea_go_def pop_empty)
  show "0 \<le> takeoffTime (parkingArea s) \<Longrightarrow> departing contents s = a # as \<Longrightarrow>
      \<exists>s'. ParkingArea_go K s = Inr s' \<and> departing contents s' = as"
    by (erule (1) ParkingArea_go_result) auto
qed

end
