(* ===== verification/AirportInvariant.thy ===== *)
theory AirportInvariant
  imports RunwayUse
begin

text \<open>
  The invariant of the airport simulator and its preservation by every module operation. The
  predicate \<open>airport_wf\<close> is parameterised by the number of pending runway operations and pending arrivals and
  by the airplane currently handed to a message handler, so that it also describes the state in the
  middle of a handler, between the delivery of a message and the tower's decision.
\<close>

section \<open>The invariant\<close>

definition on_runway :: "airport_event \<Rightarrow> bool" where
  "on_runway e \<longleftrightarrow> ev_gate e \<noteq> None"

definition is_arrival :: "airport_event \<Rightarrow> bool" where
  "is_arrival e \<longleftrightarrow> ev_gate e = None \<and> ev_module e = MAirspace"

definition is_parked :: "airport_event \<Rightarrow> bool" where
  "is_parked e \<longleftrightarrow> ev_gate e = None \<and> ev_module e = MParkingArea"

lemma event_kind [simp]:
  "on_runway (landing_event t a)" "on_runway (takeoff_event t a)"
  "\<not> on_runway (arrival_event t a)" "\<not> on_runway (parking_event t a)"
  "is_arrival (arrival_event t a)" "\<not> is_arrival (parking_event t a)"
  "\<not> is_arrival (landing_event t a)" "\<not> is_arrival (takeoff_event t a)"
  "is_parked (parking_event t a)" "\<not> is_parked (arrival_event t a)"
  "\<not> is_parked (landing_event t a)" "\<not> is_parked (takeoff_event t a)"
  by (simp_all add: on_runway_def is_arrival_def is_parked_def event_defs)

text \<open>Identities of the deleted airplanes, in order of deletion.\<close>

definition deleted :: "(airport_module, Airplane, airport_signal) call list \<Rightarrow> nat list" where
  "deleted cs = concat (map (\<lambda>c. case c of Deleted a \<Rightarrow> [ident a] | _ \<Rightarrow> []) cs)"

lemma deleted_simps [simp]:
  "deleted [] = []" "deleted (cs @ ds) = deleted cs @ deleted ds"
  "deleted (c # cs) = (case c of Deleted a \<Rightarrow> [ident a] | _ \<Rightarrow> []) @ deleted cs"
  by (simp_all add: deleted_def)

definition live :: "('q \<Rightarrow> Airplane list) \<Rightarrow> ('q, 'g) sim \<Rightarrow> nat multiset" where
  "live contents s = image_mset (\<lambda>e. ident (ev_msg e)) (fes (kern s)) +
     mset (map ident (holding contents s)) + mset (map ident (departing contents s))"

definition queue_ok :: "simtime \<Rightarrow> Airplane list \<Rightarrow> bool" where
  "queue_ok now as \<longleftrightarrow> sorted (map queueArrivalTime as) \<and>
     (\<forall>a\<in>set as. 0 \<le> queueArrivalTime a \<and> queueArrivalTime a \<le> now)"

definition events_ok :: "('q, 'g) sim \<Rightarrow> bool" where
  "events_ok s \<longleftrightarrow> (\<forall>e\<in>#fes (kern s). simTime (kern s) \<le> ev_time e \<and> ev_module e \<noteq> MControlTower)"

definition accounted :: "('q \<Rightarrow> Airplane list) \<Rightarrow> nat multiset \<Rightarrow> ('q, 'g) sim \<Rightarrow> bool" where
  "accounted contents hand s \<longleftrightarrow>
     live contents s + mset (deleted (calls (kern s))) + hand = mset_set {0..<nextIdent s}"

definition airport_wf :: "('q \<Rightarrow> Airplane list) \<Rightarrow> nat \<Rightarrow> nat \<Rightarrow> nat multiset \<Rightarrow> ('q, 'g) sim \<Rightarrow> bool" where
  "airport_wf contents r a hand s \<longleftrightarrow>
     resolved s \<and> nonneg_means s \<and> 0 \<le> simTime (kern s) \<and> events_ok s \<and>
     size (filter_mset on_runway (fes (kern s))) = r \<and>
     size (filter_mset is_arrival (fes (kern s))) = a \<and>
     int (size (filter_mset is_parked (fes (kern s)))) = numParked (parkingArea s) \<and>
     queue_ok (simTime (kern s)) (holding contents s) \<and>
     queue_ok (simTime (kern s)) (departing contents s) \<and>
     accounted contents hand s \<and>
     int (length (deleted (calls (kern s)))) = departedPlanes (airspace s)"

text \<open>
  While the simulation runs, the runway is occupied exactly when one landing or take-off is
  pending, nobody waits for a free runway, one arrival is pending, and fewer than the requested
  number of airplanes have left.
\<close>

definition running :: "('q \<Rightarrow> Airplane list) \<Rightarrow> ('q, 'g) sim \<Rightarrow> bool" where
  "running contents s \<longleftrightarrow>
     airport_wf contents (if occupied s then 1 else 0) 1 {#} s \<and>
     (\<not> occupied s \<longrightarrow> holding contents s = [] \<and> departing contents s = []) \<and>
     departedPlanes (airspace s) < max 1 (totalSamples (airspace s)) \<and> \<not> halted (kern s)"

definition finished :: "('q \<Rightarrow> Airplane list) \<Rightarrow> ('q, 'g) sim \<Rightarrow> bool" where
  "finished contents s \<longleftrightarrow>
     airport_wf contents 0 1 {#} s \<and> occupied s \<and>
     departedPlanes (airspace s) = max 1 (totalSamples (airspace s)) \<and> halted (kern s)"

section \<open>Shared steps of the preservation proofs\<close>

lemma wf_runway: "airport_wf contents r a hand s \<Longrightarrow> size (filter_mset on_runway (fes (kern s))) = r"
  by (simp only: airport_wf_def)

lemma queue_ok_Nil [simp]: "queue_ok now []"
  by (simp add: queue_ok_def)

lemma queue_ok_Cons:
  "queue_ok now (a # as) \<longleftrightarrow> queue_ok now as \<and> 0 \<le> queueArrivalTime a \<and> queueArrivalTime a \<le> now \<and>
     (\<forall>b\<in>set as. queueArrivalTime a \<le> queueArrivalTime b)"
  by (auto simp: queue_ok_def)

lemma queue_ok_tl: "queue_ok now (a # as) \<Longrightarrow> queue_ok now as"
  by (simp add: queue_ok_Cons)

lemma queue_ok_snoc:
  "queue_ok now as \<Longrightarrow> 0 \<le> now \<Longrightarrow> queueArrivalTime a = now \<Longrightarrow> queue_ok now (as @ [a])"
  by (auto simp: queue_ok_def sorted_append)

lemma queue_ok_mono: "queue_ok now as \<Longrightarrow> now \<le> later \<Longrightarrow> queue_ok later as"
  by (force simp: queue_ok_def)

lemma wf_begin_event:
  assumes wf: "airport_wf contents r a {#} s" and e: "earliest e (kern s)"
  shows "airport_wf contents (r - (if on_runway e then 1 else 0)) (a - (if is_arrival e then 1 else 0))
           {#ident (ev_msg e)#}
           (s\<lparr>kern := begin_event e (kern s),
              parkingArea := (parkingArea s)
                \<lparr>numParked := numParked (parkingArea s) - (if is_parked e then 1 else 0)\<rparr>\<rparr>)"
proof -
  from e have mem: "e \<in># fes (kern s)" and le: "\<forall>e'\<in>#fes (kern s). ev_time e \<le> ev_time e'"
    by (auto simp: earliest_def)
  from mem obtain M where M: "fes (kern s) = add_mset e M" by (blast dest: multi_member_split)
  from wf mem have now: "simTime (kern s) \<le> ev_time e" by (auto simp: airport_wf_def events_ok_def)
  have "queue_ok (ev_time e) (holding contents s)" "queue_ok (ev_time e) (departing contents s)"
    using wf now by (auto simp: airport_wf_def intro: queue_ok_mono)
  moreover have "accounted contents {#ident (ev_msg e)#} (s\<lparr>kern := begin_event e (kern s)\<rparr>)"
    using wf M by (auto simp: airport_wf_def accounted_def live_def)
  ultimately show ?thesis
    using wf M le now
    by (auto simp: airport_wf_def accounted_def live_def events_ok_def resolved_def nonneg_means_def)
qed

section \<open>The tower's decision\<close>

context airport_library
begin

lemma ControlTower_completed_cases:
  assumes "resolved s" and "queue_ok now (holding contents s)" and "queue_ok now' (departing contents s)"
  obtains
    (free) "holding contents s = []" and "departing contents s = []" and
      "ControlTower_completed K s = Inr (s\<lparr>controlTower := (controlTower s)\<lparr>landingStripOccupied := False\<rparr>\<rparr>)"
  | (takeoff) a as where "departing contents s = a # as" and
      "\<forall>b\<in>set (holding contents s). queueArrivalTime a < queueArrivalTime b" and
      "ControlTower_completed K s = ParkingArea_go K s"
  | (landing) a as where "holding contents s = a # as" and
      "\<forall>b\<in>set (departing contents s). queueArrivalTime a \<le> queueArrivalTime b" and
      "ControlTower_completed K s = Airspace_go K s"
proof -
  obtain h where h: "Airspace_getMaxQueueTime K s = Inr h"
    using airspace_client.getMax_total by blast
  obtain d where d: "ParkingArea_getMaxQueueTime K s = Inr d"
    using parking_client.getMax_total by blast
  have hneg: "h < 0 \<longleftrightarrow> holding contents s = []"
    using airspace_client.getMax_neg_iff [OF h] assms(2) by (simp add: queue_ok_def)
  have dneg: "d < 0 \<longleftrightarrow> departing contents s = []"
    using parking_client.getMax_neg_iff [OF d] assms(3) by (simp add: queue_ok_def)
  note eq = ControlTower_completed_def [of K s] and ptr = assms(1)[unfolded resolved_def]
  show thesis
  proof (cases "holding contents s"; cases "departing contents s")
    assume "holding contents s = []" "departing contents s = []"
    with hneg dneg ptr show thesis by (intro free) (simp_all add: eq h d)
  next
    fix a as assume "holding contents s = []" "departing contents s = a # as"
    with hneg dneg ptr show thesis by (intro takeoff) (simp_all add: eq h d)
  next
    fix a as assume "holding contents s = a # as" "departing contents s = []"
    with hneg dneg ptr show thesis by (intro landing) (simp_all add: eq h d)
  next
    fix a as b bs assume ne: "holding contents s = a # as" "departing contents s = b # bs"
    then have "h = queueArrivalTime a" "d = queueArrivalTime b"
      using h d airspace_client.getMax_Cons parking_client.getMax_Cons by fastforce+
    moreover have "\<forall>x\<in>set as. queueArrivalTime a \<le> queueArrivalTime x"
      and "\<forall>x\<in>set bs. queueArrivalTime b \<le> queueArrivalTime x"
      using assms(2,3) ne by (simp_all add: queue_ok_Cons)
    ultimately show thesis using ne hneg dneg ptr
      by (cases "d < h") (fastforce intro: takeoff landing simp: eq h d)+
  qed
qed

lemmas wf_expand = airport_wf_def accounted_def live_def events_ok_def resolved_def nonneg_means_def

text \<open>
  What \<open>go()\<close> and \<open>completed()\<close> leave alone: everything but the runway flag, the queues and the
  pending events.
\<close>

definition same_frame :: "('q, 'g) sim \<Rightarrow> ('q, 'g) sim \<Rightarrow> bool" where
  "same_frame s s' \<longleftrightarrow>
     departedPlanes (airspace s') = departedPlanes (airspace s) \<and>
     totalSamples (airspace s') = totalSamples (airspace s) \<and>
     numParked (parkingArea s') = numParked (parkingArea s) \<and>
     nextIdent s' = nextIdent s \<and> simTime (kern s') = simTime (kern s) \<and>
     halted (kern s') = halted (kern s)"

lemma Airspace_go_wf:
  assumes "airport_wf contents 0 n hand s" and "holding contents s \<noteq> []"
  shows "\<exists>s'. Airspace_go K s = Inr s' \<and> airport_wf contents 1 n hand s' \<and> same_frame s s' \<and>
           occupied s' = occupied s"
proof -
  from assms(2) obtain a as where q: "holding contents s = a # as" by (cases "holding contents s") auto
  from assms(1) have "0 \<le> landingTime (airspace s)" by (simp add: airport_wf_def nonneg_means_def)
  from this q show ?thesis
    by (rule Airspace_go_result)
      (use assms q in \<open>auto simp: wf_expand same_frame_def queue_ok_Cons\<close>)
qed

lemma ParkingArea_go_wf:
  assumes "airport_wf contents 0 n hand s" and "departing contents s \<noteq> []"
  shows "\<exists>s'. ParkingArea_go K s = Inr s' \<and> airport_wf contents 1 n hand s' \<and> same_frame s s' \<and>
           occupied s' = occupied s"
proof -
  from assms(2) obtain a as where q: "departing contents s = a # as" by (cases "departing contents s") auto
  from assms(1) have "0 \<le> takeoffTime (parkingArea s)" by (simp add: airport_wf_def nonneg_means_def)
  from this q show ?thesis
    by (rule ParkingArea_go_result)
      (use assms q in \<open>auto simp: wf_expand same_frame_def queue_ok_Cons\<close>)
qed

lemma ControlTower_completed_wf:
  assumes wf: "airport_wf contents 0 n hand s" and "occupied s"
  shows "\<exists>s'. ControlTower_completed K s = Inr s' \<and> same_frame s s' \<and>
           airport_wf contents (if occupied s' then 1 else 0) n hand s' \<and>
           (\<not> occupied s' \<longrightarrow> holding contents s' = [] \<and> departing contents s' = [])"
proof -
  from wf have "resolved s" "queue_ok (simTime (kern s)) (holding contents s)"
    "queue_ok (simTime (kern s)) (departing contents s)" by (simp_all add: airport_wf_def)
  then show ?thesis
  proof (cases rule: ControlTower_completed_cases)
    case free
    with wf show ?thesis by (auto simp: wf_expand same_frame_def)
  next
    case (takeoff a as)
    with ParkingArea_go_wf [OF wf] assms(2) show ?thesis by auto
  next
    case (landing a as)
    with Airspace_go_wf [OF wf] assms(2) show ?thesis by auto
  qed
qed

section \<open>The message handlers\<close>

lemma Airspace_nextArrival_wf:
  assumes wf: "airport_wf contents r 0 {#} s"
  shows "\<exists>s'. Airspace_nextArrival K s = Inr s' \<and>
           airport_wf contents r 1 {#} s' \<and> occupied s' = occupied s \<and>
           holding contents s' = holding contents s \<and> departing contents s' = departing contents s \<and>
           departedPlanes (airspace s') = departedPlanes (airspace s) \<and>
           totalSamples (airspace s') = totalSamples (airspace s) \<and> halted (kern s') = halted (kern s)"
proof -
  from wf have "0 \<le> interArrivalTime (airspace s)" by (simp add: airport_wf_def nonneg_means_def)
  then obtain t g where t: "duration K (isInterArrivalTimeRandom (airspace s))
      (interArrivalTime (airspace s)) 0 (kern s) = (t, (kern s)\<lparr>rng := g\<rparr>)" "0 \<le> t"
    by (rule duration_result)
  with wf show ?thesis
    by (auto simp: Airspace_nextArrival_def wf_expand new_Airplane_def Airplane_new_def scheduleAt_def Let_def kcall_def
        is_arrival_def is_parked_def on_runway_def)
qed

lemma ParkingArea_landed_wf:
  assumes wf: "airport_wf contents 0 1 {#ident a#} s" and occ: "occupied s"
  shows "\<exists>s'. ParkingArea_landed K a s = Inr s' \<and>
           airport_wf contents (if occupied s' then 1 else 0) 1 {#} s' \<and>
           (\<not> occupied s' \<longrightarrow> holding contents s' = [] \<and> departing contents s' = []) \<and>
           departedPlanes (airspace s') = departedPlanes (airspace s) \<and>
           totalSamples (airspace s') = totalSamples (airspace s) \<and> halted (kern s') = halted (kern s)"
proof -
  let ?k = "emit ParkedPlanes (Long (numParked (parkingArea s) + 1)) (kern s)"
  from wf have "0 \<le> parkingTime (parkingArea s)" by (simp add: airport_wf_def nonneg_means_def)
  then obtain t g where t: "duration K (isParkingTimeRandom (parkingArea s))
      (parkingTime (parkingArea s)) 0 ?k = (t, ?k\<lparr>rng := g\<rparr>)" "0 \<le> t"
    by (rule duration_result)
  let ?s = "s\<lparr>parkingArea := (parkingArea s)\<lparr>numParked := numParked (parkingArea s) + 1, nextParkingTime := t\<rparr>,
      kern := (kcall (Scheduled (parking_event (simTime (kern s) + t) a)) (?k\<lparr>rng := g\<rparr>))
         \<lparr>fes := add_mset (parking_event (simTime (kern s) + t) a) (fes (kern s))\<rparr>\<rparr>"
  have "airport_wf contents 0 1 {#} ?s" and "occupied ?s" using wf t(2) occ by (auto simp: wf_expand)
  moreover have "ParkingArea_landed K a s = ControlTower_completed K ?s"
    using wf t by (simp add: ParkingArea_landed_def scheduleAt_def Let_def airport_wf_def resolved_def
        parking_event_def)
  ultimately show ?thesis
    using ControlTower_completed_wf [of 1 "{#}" ?s] by (auto simp: same_frame_def)
qed

lemma Airspace_departure_wf:
  assumes wf: "airport_wf contents 0 1 {#ident a#} s" and occ: "occupied s"
    and run: "departedPlanes (airspace s) < max 1 (totalSamples (airspace s))" "\<not> halted (kern s)"
  shows "\<exists>s'. Airspace_departure K a s = Inr s' \<and> (running contents s' \<or> finished contents s')"
proof -
  let ?n = "departedPlanes (airspace s) + 1"
  let ?s = "s\<lparr>airspace := (airspace s)\<lparr>departedPlanes := ?n\<rparr>,
      kern := kcall (Deleted a) (emit AirportResponseTime (Time (simTime (kern s) - timestamp a)) (kern s))\<rparr>"
  have wf': "airport_wf contents 0 1 {#} ?s" using wf by (auto simp: wf_expand)
  show ?thesis
  proof (cases "?n < totalSamples (airspace s)")
    case True
    with wf have "Airspace_departure K a s = ControlTower_completed K ?s"
      by (simp add: Airspace_departure_def Let_def airport_wf_def resolved_def)
    with ControlTower_completed_wf [OF wf'] occ True run show ?thesis
      by (auto simp: running_def same_frame_def)
  next
    case False
    let ?s' = "?s\<lparr>kern := endSimulation (emit TotalSimtime (Time (simTime (kern ?s))) (kern ?s))\<rparr>"
    have "0 \<le> departedPlanes (airspace s)" using wf by (simp add: airport_wf_def)
    with False run have "?n = max 1 (totalSamples (airspace s))" by linarith
    with wf' occ have "finished contents ?s'" by (auto simp: finished_def wf_expand)
    moreover have "Airspace_departure K a s = Inr ?s'"
      using False by (simp add: Airspace_departure_def Let_def)
    ultimately show ?thesis by blast
  qed
qed

lemma ParkingArea_parked_wf:
  assumes wf: "airport_wf contents (if occupied s then 1 else 0) 1 {#ident a#}
      (s\<lparr>parkingArea := (parkingArea s)\<lparr>numParked := numParked (parkingArea s) - 1\<rparr>\<rparr>)"
    and idle: "\<not> occupied s \<longrightarrow> holding contents s = [] \<and> departing contents s = []"
  shows "\<exists>s'. ParkingArea_parked K a s = Inr s' \<and> occupied s' \<and> airport_wf contents 1 1 {#} s' \<and>
           departedPlanes (airspace s') = departedPlanes (airspace s) \<and>
           totalSamples (airspace s') = totalSamples (airspace s) \<and> halted (kern s') = halted (kern s)"
proof (cases "occupied s")
  case True
  with wf show ?thesis
    by (auto simp: ParkingArea_parked_def ControlTower_notify_def Let_def setQueueArrivalTime_def
        wf_expand contents_insert queue_ok_snoc)
next
  case False
  let ?k = "emit DepartQueueWaitingTime (Double 0) (emit DepartQueueSize (Long 0)
     (emit ParkedPlanes (Long (numParked (parkingArea s) - 1)) (kern s)))"
  from wf have "0 \<le> takeoffTime (parkingArea s)" by (simp add: airport_wf_def nonneg_means_def)
  then obtain t g where t: "duration K (isTakeoffTimeRandom (parkingArea s))
      (takeoffTime (parkingArea s)) 1 ?k = (t, ?k\<lparr>rng := g\<rparr>)" "0 \<le> t"
    by (rule duration_result)
  with wf False show ?thesis
    by (auto simp: ParkingArea_parked_def ControlTower_notify_def Let_def sendDelayed_def
        airport_net_def wf_expand on_runway_def is_arrival_def is_parked_def)
qed

lemma Airspace_arrival_wf:
  assumes wf: "airport_wf contents (if occupied s then 1 else 0) 0 {#ident a#} s"
    and idle: "\<not> occupied s \<longrightarrow> holding contents s = [] \<and> departing contents s = []"
  shows "\<exists>s'. Airspace_arrival K a s = Inr s' \<and> occupied s' \<and> airport_wf contents 1 1 {#} s' \<and>
           departedPlanes (airspace s') = departedPlanes (airspace s) \<and>
           totalSamples (airspace s') = totalSamples (airspace s) \<and> halted (kern s') = halted (kern s)"
proof (cases "occupied s")
  case True
  let ?a = "a\<lparr>timestamp := simTime (kern s), queueArrivalTime := simTime (kern s)\<rparr>"
  let ?q = "q_insert K (holdingQueue (airspace s)) ?a"
  let ?s = "s\<lparr>airspace := (airspace s)\<lparr>holdingQueue := ?q\<rparr>,
              kern := emit HoldingQueueSize (Long (q_getLength K ?q)) (kern s)\<rparr>"
  have wf': "airport_wf contents 1 0 {#} ?s" using wf True
    by (auto simp: wf_expand contents_insert queue_ok_snoc)
  have "Airspace_arrival K a s = Airspace_nextArrival K ?s" using True wf
    by (simp add: Airspace_arrival_def ControlTower_notify_def setQueueArrivalTime_def Let_def
        airport_wf_def resolved_def)
  with Airspace_nextArrival_wf [OF wf'] True show ?thesis by auto
next
  case False
  let ?k = "emit HoldingQueueWaitingTime (Double 0) (emit HoldingQueueSize (Long 0) (kern s))"
  from wf have "0 \<le> landingTime (airspace s)" by (simp add: airport_wf_def nonneg_means_def)
  then obtain t g where t: "duration K (isLandingTimeRandom (airspace s))
      (landingTime (airspace s)) 1 ?k = (t, ?k\<lparr>rng := g\<rparr>)" "0 \<le> t"
    by (rule duration_result)
  let ?e = "landing_event (simTime (kern s) + t) (a\<lparr>timestamp := simTime (kern s)\<rparr>)"
  let ?s = "s\<lparr>controlTower := (controlTower s)\<lparr>landingStripOccupied := True\<rparr>,
      airspace := (airspace s)\<lparr>nextLandingTime := t\<rparr>,
      kern := emit RunwayUse (Time t) ((kcall (Sent ?e) (?k\<lparr>rng := g\<rparr>))\<lparr>fes := add_mset ?e (fes (kern s))\<rparr>)\<rparr>"
  have wf': "airport_wf contents 1 0 {#} ?s" using wf False t by (auto simp: wf_expand)
  have "Airspace_arrival K a s = Airspace_nextArrival K ?s" using False wf t
    by (simp add: Airspace_arrival_def ControlTower_notify_def Let_def sendDelayed_def
        airport_net_def landing_event_def airport_wf_def resolved_def)
  with Airspace_nextArrival_wf [OF wf'] show ?thesis by auto
qed

end

end
