(* ===== verification/AirportSystem.thy ===== *)
theory AirportSystem
  imports AirportInvariant
begin

text \<open>
  The whole simulator: initialization of the modules in the order of the network description, and
  runs as sequences of delivered messages. Every reachable state satisfies the invariant, and the
  delivery of a message never fails.
\<close>

section \<open>Start and runs\<close>

definition airport_start ::
  "('q, Airplane, 'g) omnet \<Rightarrow> (string \<Rightarrow> airport_module option) \<Rightarrow> airspace_par \<Rightarrow> parkingArea_par
    \<Rightarrow> ('q, 'g) sim \<Rightarrow> error + ('q, 'g) sim" where
  "airport_start K G pa pp s =
     ebind (Airspace_initialize K G pa s) (\<lambda>s.
       Inr (ControlTower_initialize G (ParkingArea_initialize K G pp s)))"

definition deliver ::
  "('q, Airplane, 'g) omnet \<Rightarrow> airport_event \<Rightarrow> ('q, 'g) sim \<Rightarrow> error + ('q, 'g) sim" where
  "deliver K e s =
     (let s = s\<lparr>kern := begin_event e (kern s)\<rparr>
      in case ev_module e of
           MAirspace \<Rightarrow> Airspace_handleMessage K (isSelfMessage e) (ev_msg e) s
         | MParkingArea \<Rightarrow> ParkingArea_handleMessage K (isSelfMessage e) (ev_msg e) s
         | MControlTower \<Rightarrow> Inl UnhandledMessage)"

inductive airport_step ::
  "('q, Airplane, 'g) omnet \<Rightarrow> ('q, 'g) sim \<Rightarrow> airport_event \<Rightarrow> ('q, 'g) sim \<Rightarrow> bool" for K where
  step: "\<not> halted (kern s) \<Longrightarrow> earliest e (kern s) \<Longrightarrow> deliver K e s = Inr s' \<Longrightarrow> airport_step K s e s'"

inductive airport_run ::
  "('q, Airplane, 'g) omnet \<Rightarrow> ('q, 'g) sim \<Rightarrow> airport_event list \<Rightarrow> ('q, 'g) sim \<Rightarrow> bool" for K s0 where
  start: "airport_run K s0 [] s0"
| extend: "airport_run K s0 es s \<Longrightarrow> airport_step K s e s' \<Longrightarrow> airport_run K s0 (es @ [e]) s'"

inductive_simps airport_step_iff: "airport_step K s e s'"
inductive_cases airport_run_snocE: "airport_run K s0 (es @ [e]) s"

text \<open>
  A simulation of the network \<open>AirTrafficControl\<close>: the paths resolve to the modules, the mean times
  are not negative, and the kernel starts at time 0 with no pending message.
\<close>

definition airport_config :: "(string \<Rightarrow> airport_module option) \<Rightarrow> airspace_par \<Rightarrow> parkingArea_par \<Rightarrow> bool" where
  "airport_config G pa pp \<longleftrightarrow>
     G ''AirTrafficControl.airport.controltower'' = Some MControlTower \<and>
     G ''AirTrafficControl.airspace'' = Some MAirspace \<and>
     G ''AirTrafficControl.airport.parkingarea'' = Some MParkingArea \<and>
     0 \<le> par_interArrivalTime pa \<and> 0 \<le> par_landingTime pa \<and>
     0 \<le> par_parkingTime pp \<and> 0 \<le> par_takeoffTime pp"

definition fresh :: "('q, 'g) sim \<Rightarrow> bool" where
  "fresh s \<longleftrightarrow> simTime (kern s) = 0 \<and> fes (kern s) = {#} \<and> calls (kern s) = [] \<and>
     \<not> halted (kern s) \<and> nextIdent s = 0"

definition airport_reach ::
  "('q, Airplane, 'g) omnet \<Rightarrow> airspace_par \<Rightarrow> airport_event list \<Rightarrow> ('q, 'g) sim \<Rightarrow> bool" where
  "airport_reach K pa es s \<longleftrightarrow> (\<exists>G pp s0 s1. airport_config G pa pp \<and> fresh s0 \<and>
     airport_start K G pa pp s0 = Inr s1 \<and> airport_run K s1 es s)"

section \<open>The invariant holds in every reachable state\<close>

lemma event_cases:
  obtains (arrival) "ev_module e = MAirspace" "isSelfMessage e" "is_arrival e" "\<not> is_parked e" "\<not> on_runway e"
  | (departure) "ev_module e = MAirspace" "\<not> isSelfMessage e" "\<not> is_arrival e" "\<not> is_parked e" "on_runway e"
  | (parked) "ev_module e = MParkingArea" "isSelfMessage e" "\<not> is_arrival e" "is_parked e" "\<not> on_runway e"
  | (landed) "ev_module e = MParkingArea" "\<not> isSelfMessage e" "\<not> is_arrival e" "\<not> is_parked e" "on_runway e"
  | (tower) "ev_module e = MControlTower"
  by (cases "ev_module e"; cases "isSelfMessage e")
    (auto simp: isSelfMessage_def is_arrival_def is_parked_def on_runway_def)

context airport_library
begin

lemma airport_start_running:
  assumes "airport_config G pa pp" and "fresh s"
  shows "\<exists>s'. airport_start K G pa pp s = Inr s' \<and> running contents s' \<and>
           totalSamples (airspace s') = par_totalSamples pa \<and> \<not> occupied s' \<and>
           nextIdent s' = 1 \<and>
           (\<exists>t\<ge>0. fes (kern s') = {#arrival_event t (Airplane_new 0)#} \<and> simTime (kern s') = 0 \<and>
              calls (kern s') = [WarmupPeriod (par_scaling pa * par_warmup pa),
                                 Scheduled (arrival_event t (Airplane_new 0))])"
proof -
  let ?k = "kcall (WarmupPeriod (par_scaling pa * par_warmup pa)) (kern s)"
  from assms have "0 \<le> par_interArrivalTime pa" by (simp add: airport_config_def)
  then obtain t g where t: "duration K (par_isInterArrivalTimeRandom pa) (par_interArrivalTime pa) 0
      ?k = (t, ?k\<lparr>rng := g\<rparr>)" "0 \<le> t" by (rule duration_result)
  with assms show ?thesis
    by (auto simp: airport_start_def Airspace_initialize_def ParkingArea_initialize_def
        ControlTower_initialize_def Let_def airport_config_def fresh_def new_Airplane_def
        scheduleAt_def running_def wf_expand contents_new arrival_event_def Airplane_new_def
        is_arrival_def is_parked_def on_runway_def)
qed

lemma deliver_running:
  assumes run: "running contents s" and e: "earliest e (kern s)"
  shows "\<exists>s'. deliver K e s = Inr s' \<and> (running contents s' \<or> finished contents s')"
proof -
  let ?s = "s\<lparr>kern := begin_event e (kern s)\<rparr>"
  from run have wf: "airport_wf contents (if occupied s then 1 else 0) 1 {#} s"
    and idle: "\<not> occupied s \<longrightarrow> holding contents s = [] \<and> departing contents s = []"
    and dep: "departedPlanes (airspace s) < max 1 (totalSamples (airspace s))" "\<not> halted (kern s)"
    by (auto simp: running_def)
  note wf' = wf_begin_event [OF wf e]
  from e have mem: "e \<in># fes (kern s)" by (simp add: earliest_def)
  have occ: "occupied s" if "on_runway e" using that wf mem
    by (auto simp: airport_wf_def split: if_splits)
  have upd: "s\<lparr>kern := k, parkingArea := (parkingArea s)\<lparr>numParked := numParked (parkingArea s)\<rparr>\<rparr> = s\<lparr>kern := k\<rparr>" for k
    by simp
  show ?thesis
  proof (cases rule: event_cases [of e])
    case arrival
    with wf' upd have "airport_wf contents (if occupied ?s then 1 else 0) 0 {#ident (ev_msg e)#} ?s" by simp
    from Airspace_arrival_wf [OF this] idle dep arrival show ?thesis
      by (auto simp: deliver_def Airspace_handleMessage_def running_def)
  next
    case departure
    with wf' upd occ have "airport_wf contents 0 1 {#ident (ev_msg e)#} ?s" by simp
    from Airspace_departure_wf [OF this] occ dep departure show ?thesis
      by (auto simp: deliver_def Airspace_handleMessage_def)
  next
    case parked
    with wf' have "airport_wf contents (if occupied ?s then 1 else 0) 1 {#ident (ev_msg e)#}
      (?s\<lparr>parkingArea := (parkingArea ?s)\<lparr>numParked := numParked (parkingArea ?s) - 1\<rparr>\<rparr>)" by simp
    from ParkingArea_parked_wf [OF this] idle dep parked show ?thesis
      by (auto simp: deliver_def ParkingArea_handleMessage_def running_def)
  next
    case landed
    with wf' upd occ have "airport_wf contents 0 1 {#ident (ev_msg e)#} ?s" by simp
    from ParkingArea_landed_wf [OF this] occ dep landed show ?thesis
      by (auto simp: deliver_def ParkingArea_handleMessage_def running_def)
  next
    case tower
    with wf mem show ?thesis by (auto simp: airport_wf_def events_ok_def)
  qed
qed

lemma airport_run_inv:
  assumes "airport_run K s es s'" and "running contents s"
  shows "running contents s' \<or> finished contents s'"
  using assms
proof (induction rule: airport_run.induct)
  case start
  then show ?case by simp
next
  case (extend es s' e s'')
  from extend.hyps(2) have step: "\<not> halted (kern s')" "earliest e (kern s')" "deliver K e s' = Inr s''"
    by (simp_all add: airport_step_iff)
  with extend.IH extend.prems have "running contents s'" by (auto simp: finished_def)
  from deliver_running [OF this step(2)] step(3) show ?case by simp
qed

lemma airport_reach_inv:
  "airport_reach K pa es s \<Longrightarrow> running contents s \<or> finished contents s"
  unfolding airport_reach_def using airport_start_running airport_run_inv
  by (metis sum.inject(2))

end

end
