(* ===== verification/AirportSpec.thy ===== *)
theory AirportSpec
  imports AirportSystem
begin

text \<open>
  The abstract airport: one runway, two waiting lines, and a rule that hands the free runway to the
  airplane that has waited longest. Durations are arbitrary non-negative times. The simulator
  refines it: every delivered message is one step of the abstract airport, with the same samples
  recorded.
\<close>

section \<open>The abstract airport\<close>

record tower_state =
  now :: simtime
  pending :: "airport_event multiset"
  hold :: "Airplane list"
  dep :: "Airplane list"
  busy :: bool
  ndeparted :: int
  limit :: int
  nparked :: int
  created :: nat
  log :: "(airport_module, Airplane, airport_signal) call list"
  stopped :: bool

text \<open>Passing the runway on, after a landing or a take-off.\<close>

inductive handover :: "tower_state \<Rightarrow> tower_state \<Rightarrow> bool" where
  nobody: "hold v = [] \<Longrightarrow> dep v = [] \<Longrightarrow> handover v (v\<lparr>busy := False\<rparr>)"
| next_landing: "hold v = a # as \<Longrightarrow> \<forall>b\<in>set (dep v). queueArrivalTime a \<le> queueArrivalTime b \<Longrightarrow> 0 \<le> t \<Longrightarrow>
     handover v (v\<lparr>hold := as, pending := add_mset (landing_event (now v + t) a) (pending v),
       log := log v @ [Emitted HoldingQueueWaitingTime (Time (now v - queueArrivalTime a)),
                       Emitted HoldingQueueSize (Long (int (length as))),
                       Sent (landing_event (now v + t) a), Emitted RunwayUse (Time t)]\<rparr>)"
| next_takeoff: "dep v = a # as \<Longrightarrow> \<forall>b\<in>set (hold v). queueArrivalTime a < queueArrivalTime b \<Longrightarrow> 0 \<le> t \<Longrightarrow>
     handover v (v\<lparr>dep := as, pending := add_mset (takeoff_event (now v + t) a) (pending v),
       log := log v @ [Emitted DepartQueueWaitingTime (Time (now v - queueArrivalTime a)),
                       Emitted DepartQueueSize (Long (int (length as))),
                       Sent (takeoff_event (now v + t) a), Emitted RunwayUse (Time t)]\<rparr>)"

text \<open>The next airplane is announced, \<open>u\<close> after the current one.\<close>

definition announce :: "simtime \<Rightarrow> tower_state \<Rightarrow> tower_state" where
  "announce u v = v\<lparr>created := Suc (created v),
     pending := add_mset (arrival_event (now v + u) (Airplane_new (created v))) (pending v),
     log := log v @ [Scheduled (arrival_event (now v + u) (Airplane_new (created v)))]\<rparr>"

inductive spec_handle :: "tower_state \<Rightarrow> airport_event \<Rightarrow> tower_state \<Rightarrow> bool" where
  arrival_free: "is_arrival e \<Longrightarrow> \<not> busy v \<Longrightarrow> 0 \<le> t \<Longrightarrow> 0 \<le> u \<Longrightarrow>
     a = (ev_msg e)\<lparr>timestamp := now v\<rparr> \<Longrightarrow>
     spec_handle v e (announce u (v\<lparr>busy := True,
       pending := add_mset (landing_event (now v + t) a) (pending v),
       log := log v @ [Emitted HoldingQueueSize (Long 0), Emitted HoldingQueueWaitingTime (Double 0),
                       Sent (landing_event (now v + t) a), Emitted RunwayUse (Time t)]\<rparr>))"
| arrival_busy: "is_arrival e \<Longrightarrow> busy v \<Longrightarrow> 0 \<le> u \<Longrightarrow>
     a = (ev_msg e)\<lparr>timestamp := now v, queueArrivalTime := now v\<rparr> \<Longrightarrow>
     spec_handle v e (announce u (v\<lparr>hold := hold v @ [a],
       log := log v @ [Emitted HoldingQueueSize (Long (int (length (hold v)) + 1))]\<rparr>))"
| landed: "on_runway e \<Longrightarrow> ev_module e = MParkingArea \<Longrightarrow> 0 \<le> t \<Longrightarrow>
     handover (v\<lparr>nparked := nparked v + 1,
       pending := add_mset (parking_event (now v + t) (ev_msg e)) (pending v),
       log := log v @ [Emitted ParkedPlanes (Long (nparked v + 1)),
                       Scheduled (parking_event (now v + t) (ev_msg e))]\<rparr>) v' \<Longrightarrow>
     spec_handle v e v'"
| parked_free: "is_parked e \<Longrightarrow> \<not> busy v \<Longrightarrow> 0 \<le> t \<Longrightarrow>
     spec_handle v e (v\<lparr>busy := True, nparked := nparked v - 1,
       pending := add_mset (takeoff_event (now v + t) (ev_msg e)) (pending v),
       log := log v @ [Emitted ParkedPlanes (Long (nparked v - 1)), Emitted DepartQueueSize (Long 0),
                       Emitted DepartQueueWaitingTime (Double 0),
                       Sent (takeoff_event (now v + t) (ev_msg e)), Emitted RunwayUse (Time t)]\<rparr>)"
| parked_busy: "is_parked e \<Longrightarrow> busy v \<Longrightarrow> a = (ev_msg e)\<lparr>queueArrivalTime := now v\<rparr> \<Longrightarrow>
     spec_handle v e (v\<lparr>nparked := nparked v - 1, dep := dep v @ [a],
       log := log v @ [Emitted ParkedPlanes (Long (nparked v - 1)),
                       Emitted DepartQueueSize (Long (int (length (dep v)) + 1))]\<rparr>)"
| departed: "on_runway e \<Longrightarrow> ev_module e = MAirspace \<Longrightarrow> ndeparted v + 1 < limit v \<Longrightarrow>
     handover (v\<lparr>ndeparted := ndeparted v + 1,
       log := log v @ [Emitted AirportResponseTime (Time (now v - timestamp (ev_msg e))),
                       Deleted (ev_msg e)]\<rparr>) v' \<Longrightarrow>
     spec_handle v e v'"
| ended: "on_runway e \<Longrightarrow> ev_module e = MAirspace \<Longrightarrow> limit v \<le> ndeparted v + 1 \<Longrightarrow>
     spec_handle v e (v\<lparr>ndeparted := ndeparted v + 1, stopped := True,
       log := log v @ [Emitted AirportResponseTime (Time (now v - timestamp (ev_msg e))),
                       Deleted (ev_msg e), Emitted TotalSimtime (Time (now v)), EndedSimulation]\<rparr>)"

text \<open>A step delivers one of the earliest pending messages.\<close>

inductive spec_step :: "tower_state \<Rightarrow> airport_event \<Rightarrow> tower_state \<Rightarrow> bool" where
  "\<not> stopped v \<Longrightarrow> e \<in># pending v \<Longrightarrow> \<forall>e'\<in>#pending v. ev_time e \<le> ev_time e' \<Longrightarrow>
   spec_handle (v\<lparr>now := ev_time e, pending := pending v - {#e#}\<rparr>) e v' \<Longrightarrow> spec_step v e v'"

inductive_simps spec_step_iff: "spec_step v e v'"

section \<open>Refinement\<close>

definition abs_sim :: "('q \<Rightarrow> Airplane list) \<Rightarrow> ('q, 'g) sim \<Rightarrow> tower_state" where
  "abs_sim contents s = \<lparr>now = simTime (kern s), pending = fes (kern s), hold = holding contents s,
     dep = departing contents s, busy = occupied s, ndeparted = departedPlanes (airspace s),
     limit = totalSamples (airspace s), nparked = numParked (parkingArea s), created = nextIdent s,
     log = calls (kern s), stopped = halted (kern s)\<rparr>"

context airport_library
begin

lemma completed_refines:
  assumes wf: "airport_wf contents 0 n hand s" and s': "ControlTower_completed K s = Inr s'"
  shows "handover (abs_sim contents s) (abs_sim contents s')"
proof -
  from wf have inv: "resolved s" "queue_ok (simTime (kern s)) (holding contents s)"
    "queue_ok (simTime (kern s)) (departing contents s)"
    and means: "0 \<le> landingTime (airspace s)" "0 \<le> takeoffTime (parkingArea s)"
    by (simp_all add: airport_wf_def nonneg_means_def)
  from inv show ?thesis
  proof (cases rule: ControlTower_completed_cases)
    case free
    with s' handover.nobody [of "abs_sim contents s"] show ?thesis by (auto simp: abs_sim_def)
  next
    case (takeoff a as)
    from means(2) takeoff(1) show ?thesis
    proof (rule ParkingArea_go_result, goal_cases)
      case (1 q t g)
      with takeoff s' handover.next_takeoff [of "abs_sim contents s" a as t]
      show ?case by (auto simp: abs_sim_def)
    qed
  next
    case (landing a as)
    from means(1) landing(1) show ?thesis
    proof (rule Airspace_go_result, goal_cases)
      case (1 q t g)
      with landing s' handover.next_landing [of "abs_sim contents s" a as t]
      show ?case by (auto simp: abs_sim_def)
    qed
  qed
qed

lemma nextArrival_refines:
  assumes "0 \<le> interArrivalTime (airspace s)" and "Airspace_nextArrival K s = Inr s'"
  shows "\<exists>u\<ge>0. abs_sim contents s' = announce u (abs_sim contents s)"
proof -
  from assms(1) obtain t g where t: "duration K (isInterArrivalTimeRandom (airspace s))
      (interArrivalTime (airspace s)) 0 (kern s) = (t, (kern s)\<lparr>rng := g\<rparr>)" "0 \<le> t"
    by (rule duration_result)
  with assms(2) show ?thesis
    by (intro exI [of _ t]) (auto simp: Airspace_nextArrival_def new_Airplane_def scheduleAt_def
        Let_def abs_sim_def announce_def arrival_event_def)
qed

lemma arrival_refines:
  assumes inv: "resolved s" "nonneg_means s" and e: "is_arrival e"
    and s': "Airspace_arrival K (ev_msg e) s = Inr s'"
  shows "spec_handle (abs_sim contents s) e (abs_sim contents s')"
proof -
  let ?now = "simTime (kern s)"
  from inv have means: "0 \<le> landingTime (airspace s)" "0 \<le> interArrivalTime (airspace s)"
    and ptr: "airspace_controlTower (airspace s)" by (simp_all add: nonneg_means_def resolved_def)
  show ?thesis
  proof (cases "occupied s")
    case True
    let ?a = "(ev_msg e)\<lparr>timestamp := ?now, queueArrivalTime := ?now\<rparr>"
    let ?q = "q_insert K (holdingQueue (airspace s)) ?a"
    let ?s = "s\<lparr>airspace := (airspace s)\<lparr>holdingQueue := ?q\<rparr>,
                kern := emit HoldingQueueSize (Long (q_getLength K ?q)) (kern s)\<rparr>"
    have "Airspace_nextArrival K ?s = Inr s'" using s' True ptr
      by (simp add: Airspace_arrival_def ControlTower_notify_def setQueueArrivalTime_def Let_def)
    with nextArrival_refines [of ?s] means obtain u where
      "0 \<le> u" "abs_sim contents s' = announce u (abs_sim contents ?s)" by auto
    with spec_handle.arrival_busy [OF e, of "abs_sim contents s" u ?a] True show ?thesis
      by (simp add: abs_sim_def contents_insert getLength_contents add.commute)
  next
    case False
    let ?k = "emit HoldingQueueWaitingTime (Double 0) (emit HoldingQueueSize (Long 0) (kern s))"
    from means(1) obtain t g where t: "duration K (isLandingTimeRandom (airspace s))
        (landingTime (airspace s)) 1 ?k = (t, ?k\<lparr>rng := g\<rparr>)" "0 \<le> t" by (rule duration_result)
    let ?a = "(ev_msg e)\<lparr>timestamp := ?now\<rparr>"
    let ?e = "landing_event (?now + t) ?a"
    let ?s = "s\<lparr>controlTower := (controlTower s)\<lparr>landingStripOccupied := True\<rparr>,
        airspace := (airspace s)\<lparr>nextLandingTime := t\<rparr>,
        kern := emit RunwayUse (Time t) ((kcall (Sent ?e) (?k\<lparr>rng := g\<rparr>))\<lparr>fes := add_mset ?e (fes (kern s))\<rparr>)\<rparr>"
    have "Airspace_nextArrival K ?s = Inr s'" using s' False ptr t
      by (simp add: Airspace_arrival_def ControlTower_notify_def Let_def sendDelayed_def
          airport_net_def landing_event_def)
    with nextArrival_refines [of ?s] means obtain u where
      "0 \<le> u" "abs_sim contents s' = announce u (abs_sim contents ?s)" by auto
    with spec_handle.arrival_free [OF e, of "abs_sim contents s" t u ?a] False t(2) show ?thesis
      by (simp add: abs_sim_def)
  qed
qed

lemma landed_refines:
  assumes wf: "airport_wf contents 0 1 {#ident (ev_msg e)#} s" and e: "on_runway e" "ev_module e = MParkingArea"
    and s': "ParkingArea_landed K (ev_msg e) s = Inr s'"
  shows "spec_handle (abs_sim contents s) e (abs_sim contents s')"
proof -
  let ?k = "emit ParkedPlanes (Long (numParked (parkingArea s) + 1)) (kern s)"
  from wf have "0 \<le> parkingTime (parkingArea s)" by (simp add: airport_wf_def nonneg_means_def)
  then obtain t g where t: "duration K (isParkingTimeRandom (parkingArea s))
      (parkingTime (parkingArea s)) 0 ?k = (t, ?k\<lparr>rng := g\<rparr>)" "0 \<le> t"
    by (rule duration_result)
  let ?e = "parking_event (simTime (kern s) + t) (ev_msg e)"
  let ?s = "s\<lparr>parkingArea := (parkingArea s)\<lparr>numParked := numParked (parkingArea s) + 1, nextParkingTime := t\<rparr>,
      kern := (kcall (Scheduled ?e) (?k\<lparr>rng := g\<rparr>))\<lparr>fes := add_mset ?e (fes (kern s))\<rparr>\<rparr>"
  have "airport_wf contents 0 1 {#} ?s" using wf t(2) by (auto simp: wf_expand)
  moreover have "ControlTower_completed K ?s = Inr s'" using s' wf t
    by (simp add: ParkingArea_landed_def scheduleAt_def Let_def airport_wf_def resolved_def parking_event_def)
  ultimately have "handover (abs_sim contents ?s) (abs_sim contents s')" by (rule completed_refines)
  with spec_handle.landed [OF e, of t "abs_sim contents s" "abs_sim contents s'"] t(2) show ?thesis
    by (simp add: abs_sim_def)
qed

lemma parked_refines:
  assumes inv: "resolved s" "nonneg_means s" and e: "is_parked e"
    and s': "ParkingArea_parked K (ev_msg e) s = Inr s'"
  shows "spec_handle (abs_sim contents s) e (abs_sim contents s')"
proof (cases "occupied s")
  case True
  with spec_handle.parked_busy [OF e, of "abs_sim contents s"] inv s' show ?thesis
    by (auto simp: ParkingArea_parked_def ControlTower_notify_def Let_def setQueueArrivalTime_def
        resolved_def abs_sim_def contents_insert getLength_contents add.commute)
next
  case False
  let ?k = "emit DepartQueueWaitingTime (Double 0) (emit DepartQueueSize (Long 0)
     (emit ParkedPlanes (Long (numParked (parkingArea s) - 1)) (kern s)))"
  from inv have "0 \<le> takeoffTime (parkingArea s)" by (simp add: nonneg_means_def)
  then obtain t g where t: "duration K (isTakeoffTimeRandom (parkingArea s))
      (takeoffTime (parkingArea s)) 1 ?k = (t, ?k\<lparr>rng := g\<rparr>)" "0 \<le> t"
    by (rule duration_result)
  with spec_handle.parked_free [OF e, of "abs_sim contents s" t] False inv s' show ?thesis
    by (auto simp: ParkingArea_parked_def ControlTower_notify_def Let_def sendDelayed_def
        airport_net_def resolved_def abs_sim_def takeoff_event_def)
qed

lemma departure_refines:
  assumes wf: "airport_wf contents 0 1 {#ident (ev_msg e)#} s" and e: "on_runway e" "ev_module e = MAirspace"
    and s': "Airspace_departure K (ev_msg e) s = Inr s'"
  shows "spec_handle (abs_sim contents s) e (abs_sim contents s')"
proof -
  let ?n = "departedPlanes (airspace s) + 1"
  let ?s = "s\<lparr>airspace := (airspace s)\<lparr>departedPlanes := ?n\<rparr>,
      kern := kcall (Deleted (ev_msg e))
        (emit AirportResponseTime (Time (simTime (kern s) - timestamp (ev_msg e))) (kern s))\<rparr>"
  show ?thesis
  proof (cases "?n < totalSamples (airspace s)")
    case True
    have "airport_wf contents 0 1 {#} ?s" using wf by (auto simp: wf_expand)
    moreover have "ControlTower_completed K ?s = Inr s'" using s' wf True
      by (simp add: Airspace_departure_def Let_def airport_wf_def resolved_def)
    ultimately have "handover (abs_sim contents ?s) (abs_sim contents s')" by (rule completed_refines)
    with spec_handle.departed [OF e, of "abs_sim contents s" "abs_sim contents s'"] True show ?thesis
      by (simp add: abs_sim_def)
  next
    case False
    with spec_handle.ended [OF e, of "abs_sim contents s"] s' show ?thesis
      by (auto simp: Airspace_departure_def Let_def abs_sim_def)
  qed
qed

lemma deliver_refines:
  assumes run: "running contents s" and e: "earliest e (kern s)" and s': "deliver K e s = Inr s'"
  shows "spec_step (abs_sim contents s) e (abs_sim contents s')"
proof -
  let ?s = "s\<lparr>kern := begin_event e (kern s)\<rparr>"
  from run have wf: "airport_wf contents (if occupied s then 1 else 0) 1 {#} s" and "\<not> halted (kern s)"
    by (auto simp: running_def)
  from e have mem: "e \<in># fes (kern s)" by (simp add: earliest_def)
  have inv: "resolved ?s" "nonneg_means ?s" using wf by (simp_all add: airport_wf_def resolved_def nonneg_means_def)
  have wf': "airport_wf contents 0 1 {#ident (ev_msg e)#} ?s" if "on_runway e" "\<not> is_arrival e" "\<not> is_parked e"
    using wf_begin_event [OF wf e] that wf mem by (auto simp: airport_wf_def split: if_splits)
  have "spec_handle (abs_sim contents ?s) e (abs_sim contents s')"
  proof (cases rule: event_cases [of e])
    case arrival
    with arrival_refines [OF inv, of e s'] s' show ?thesis
      by (simp add: deliver_def Airspace_handleMessage_def)
  next
    case departure
    with departure_refines [OF wf', of s'] s' show ?thesis
      by (simp add: deliver_def Airspace_handleMessage_def)
  next
    case parked
    with parked_refines [OF inv, of e s'] s' show ?thesis
      by (simp add: deliver_def ParkingArea_handleMessage_def)
  next
    case landed
    with landed_refines [OF wf', of s'] s' show ?thesis
      by (simp add: deliver_def ParkingArea_handleMessage_def)
  next
    case tower
    with s' show ?thesis by (simp add: deliver_def)
  qed
  with \<open>\<not> halted (kern s)\<close> e show ?thesis
    by (simp add: spec_step_iff earliest_def abs_sim_def)
qed

end

end
