(* ===== verification/AirportHistory.thy ===== *)
theory AirportHistory
  imports AirportSpec
begin

text \<open>
  Properties of whole simulations, proved on the abstract airport and carried over by the
  refinement: the order of landings and take-offs, the statistics that are recorded, the time the
  runway is used.
\<close>

section \<open>What the log of a run records\<close>

type_synonym airport_call = "(airport_module, Airplane, airport_signal) call"

definition sent_to :: "airport_module \<Rightarrow> airport_call list \<Rightarrow> nat list" where
  "sent_to m cs = concat (map (\<lambda>c. case c of Sent e \<Rightarrow> if ev_module e = m then [ident (ev_msg e)] else []
                                  | _ \<Rightarrow> []) cs)"

text \<open>Identities of the airplanes that started to land, and to take off, in that order.\<close>

abbreviation landings :: "airport_call list \<Rightarrow> nat list" where
  "landings \<equiv> sent_to MParkingArea"

abbreviation takeoffs :: "airport_call list \<Rightarrow> nat list" where
  "takeoffs \<equiv> sent_to MAirspace"

fun use_time :: "airport_call \<Rightarrow> simtime" where
  "use_time (Emitted RunwayUse (Time t)) = t"
| "use_time _ = 0"

text \<open>The sum of the \<open>RunwayUse\<close> samples, as the statistic \<open>sum(RunwayUse)\<close> computes it.\<close>

definition runway_use :: "airport_call list \<Rightarrow> simtime" where
  "runway_use cs = sum_list (map use_time cs)"

lemma sent_to_simps [simp]:
  "sent_to m [] = []" "sent_to m (cs @ ds) = sent_to m cs @ sent_to m ds"
  "sent_to m (c # cs) = (case c of Sent e \<Rightarrow> if ev_module e = m then [ident (ev_msg e)] else [] | _ \<Rightarrow> [])
     @ sent_to m cs"
  by (simp_all add: sent_to_def)

lemma runway_use_simps [simp]:
  "runway_use [] = 0" "runway_use (cs @ ds) = runway_use cs + runway_use ds"
  "runway_use (c # cs) = use_time c + runway_use cs"
  by (simp_all add: runway_use_def)

fun nonneg_sample :: "sample \<Rightarrow> bool" where
  "nonneg_sample (Time t) = (0 \<le> t)"
| "nonneg_sample (Long n) = (0 \<le> n)"
| "nonneg_sample (Double d) = (0 \<le> d)"

section \<open>Invariants of abstract runs\<close>

text \<open>What the invariant of the simulator says of its abstraction while it runs.\<close>

definition spec_ok :: "tower_state \<Rightarrow> bool" where
  "spec_ok v \<longleftrightarrow> \<not> stopped v \<and> 0 \<le> now v \<and>
     size (filter_mset on_runway (pending v)) = (if busy v then 1 else 0) \<and>
     size (filter_mset is_arrival (pending v)) = 1 \<and>
     int (size (filter_mset is_parked (pending v))) = nparked v \<and>
     (\<not> busy v \<longrightarrow> hold v = [] \<and> dep v = []) \<and>
     queue_ok (now v) (hold v) \<and> queue_ok (now v) (dep v) \<and>
     (\<forall>e\<in>#pending v. now v \<le> ev_time e)"

lemma running_spec_ok: "running contents s \<Longrightarrow> spec_ok (abs_sim contents s)"
  by (auto simp: running_def spec_ok_def abs_sim_def airport_wf_def events_ok_def)

text \<open>Airplanes land in the order in which they entered the airspace.\<close>

definition order_inv :: "tower_state \<Rightarrow> bool" where
  "order_inv v \<longleftrightarrow> 0 < created v \<and> landings (log v) @ map ident (hold v) = [0..<created v - 1] \<and>
     (\<forall>e\<in>#pending v. is_arrival e \<longrightarrow> ident (ev_msg e) = created v - 1)"

lemma handover_order: "handover v v' \<Longrightarrow> order_inv v \<Longrightarrow> order_inv v'"
  by (induction rule: handover.induct) (auto simp: order_inv_def)

lemma upt_snoc_pred: "0 < n \<Longrightarrow> [0..<n - Suc 0] @ [n - Suc 0] = [0..<n]"
  by (cases n) auto

lemma order_inv_step:
  assumes ok: "spec_ok v" and step: "spec_step v e v'" and inv: "order_inv v"
  shows "order_inv v'"
proof -
  let ?v = "v\<lparr>now := ev_time e, pending := pending v - {#e#}\<rparr>"
  from step have e: "e \<in># pending v" and h: "spec_handle ?v e v'" by (auto simp: spec_step_iff)
  have inv': "order_inv ?v" using inv by (auto simp: order_inv_def dest: in_diffD)
  have alone: "\<forall>x\<in># pending v - {#e#}. \<not> is_arrival x" if "is_arrival e"
    using ok e that by (intro remove_only) (auto simp: spec_ok_def)
  have idle: "hold v = []" if "\<not> busy v" using ok that by (simp add: spec_ok_def)
  from h show ?thesis
  proof (cases rule: spec_handle.cases)
    case (arrival_free t u a)
    have "ident (ev_msg e) = created v - 1" using inv e arrival_free(2) by (simp add: order_inv_def)
    then show ?thesis using inv arrival_free alone idle upt_snoc_pred [of "created v"]
      by (auto simp: order_inv_def announce_def Airplane_new_def)
  next
    case (arrival_busy u a)
    have "ident (ev_msg e) = created v - 1" using inv e arrival_busy(2) by (simp add: order_inv_def)
    moreover have "landings (log v) @ map ident (hold v) @ [created v - Suc 0] = [0..<created v]"
      using inv upt_snoc_pred [of "created v"] by (metis One_nat_def append.assoc order_inv_def)
    ultimately show ?thesis using inv arrival_busy alone
      by (auto simp: order_inv_def announce_def Airplane_new_def)
  next
    case (landed t)
    from landed(4) inv' show ?thesis by (rule_tac handover_order) (auto simp: order_inv_def)
  next
    case (departed)
    from departed(4) inv' show ?thesis by (rule_tac handover_order) (auto simp: order_inv_def)
  qed (use inv' in \<open>auto simp: order_inv_def\<close>)
qed

text \<open>Airplanes take off in the order in which their parking time expired.\<close>

definition takeoff_inv :: "airport_event list \<Rightarrow> tower_state \<Rightarrow> bool" where
  "takeoff_inv es v \<longleftrightarrow>
     takeoffs (log v) @ map ident (dep v) = map (\<lambda>e. ident (ev_msg e)) (filter is_parked es)"

lemma handover_takeoff: "handover v v' \<Longrightarrow> takeoff_inv es v \<Longrightarrow> takeoff_inv es v'"
  by (induction rule: handover.induct) (auto simp: takeoff_inv_def)

lemma kinds_disjoint:
  "is_parked e \<Longrightarrow> \<not> is_arrival e" "is_parked e \<Longrightarrow> \<not> on_runway e" "is_arrival e \<Longrightarrow> \<not> is_parked e"
  "is_arrival e \<Longrightarrow> \<not> on_runway e" "on_runway e \<Longrightarrow> \<not> is_parked e" "on_runway e \<Longrightarrow> \<not> is_arrival e"
  by (auto simp: is_parked_def is_arrival_def on_runway_def)

lemma takeoff_inv_step:
  assumes ok: "spec_ok v" and step: "spec_step v e v'" and inv: "takeoff_inv es v"
  shows "takeoff_inv (es @ [e]) v'"
proof -
  let ?v = "v\<lparr>now := ev_time e, pending := pending v - {#e#}\<rparr>"
  from step have h: "spec_handle ?v e v'" by (auto simp: spec_step_iff)
  have idle: "dep v = []" if "\<not> busy v" using ok that by (simp add: spec_ok_def)
  have skip: "takeoff_inv (es @ [e]) v" if "\<not> is_parked e" using inv that by (simp add: takeoff_inv_def)
  from h show ?thesis
  proof (cases rule: spec_handle.cases)
    case (landed t)
    with skip kinds_disjoint [of e] show ?thesis
      by (intro handover_takeoff [OF landed(4)]) (auto simp: takeoff_inv_def)
  next
    case departed
    with skip kinds_disjoint [of e] show ?thesis
      by (intro handover_takeoff [OF departed(4)]) (auto simp: takeoff_inv_def)
  next
    case (arrival_free t u a)
    with skip kinds_disjoint [of e] show ?thesis by (auto simp: takeoff_inv_def announce_def)
  next
    case (arrival_busy u a)
    with skip kinds_disjoint [of e] show ?thesis by (auto simp: takeoff_inv_def announce_def)
  next
    case ended
    with skip kinds_disjoint [of e] show ?thesis by (auto simp: takeoff_inv_def)
  next
    case (parked_free t)
    with inv idle show ?thesis by (auto simp: takeoff_inv_def)
  next
    case (parked_busy a)
    then show ?thesis using inv [unfolded takeoff_inv_def] by (simp add: takeoff_inv_def flip: append_assoc)
  qed
qed

text \<open>
  The runway is never used for longer than the time that has passed: the recorded use ends with the
  operation that is under way.
\<close>

definition use_inv :: "tower_state \<Rightarrow> bool" where
  "use_inv v \<longleftrightarrow> 0 \<le> runway_use (log v) \<and>
     (\<forall>e\<in>#pending v. on_runway e \<longrightarrow> runway_use (log v) \<le> ev_time e) \<and>
     ((\<forall>e\<in>#pending v. \<not> on_runway e) \<longrightarrow> runway_use (log v) \<le> now v)"

lemma handover_use:
  "handover v v' \<Longrightarrow> use_inv v \<Longrightarrow> \<forall>e\<in>#pending v. \<not> on_runway e \<Longrightarrow> use_inv v'"
  by (induction rule: handover.induct) (auto simp: use_inv_def)

lemma use_inv_deliver:
  assumes ok: "spec_ok v" and e: "e \<in># pending v" and inv: "use_inv v"
  shows "use_inv (v\<lparr>now := ev_time e, pending := pending v - {#e#}\<rparr>)"
    and "on_runway e \<or> \<not> busy v \<Longrightarrow> \<forall>x\<in>#pending v - {#e#}. \<not> on_runway x"
proof -
  have le: "now v \<le> ev_time e" using ok e by (simp add: spec_ok_def)
  show "\<forall>x\<in>#pending v - {#e#}. \<not> on_runway x" if "on_runway e \<or> \<not> busy v"
  proof (cases "on_runway e")
    case True
    with ok e show ?thesis
      by (intro remove_only) (auto simp: spec_ok_def split: if_splits)
  next
    case False
    with that ok show ?thesis by (auto simp: spec_ok_def dest: in_diffD)
  qed
  show "use_inv (v\<lparr>now := ev_time e, pending := pending v - {#e#}\<rparr>)"
  proof (cases "on_runway e")
    case True
    with inv e have "runway_use (log v) \<le> ev_time e" by (simp add: use_inv_def)
    with inv show ?thesis by (auto simp: use_inv_def dest: in_diffD)
  next
    case False
    from e obtain N where "pending v = add_mset e N" by (blast dest: multi_member_split)
    with False inv le show ?thesis by (auto simp: use_inv_def)
  qed
qed

lemma use_inv_step:
  assumes ok: "spec_ok v" and step: "spec_step v e v'" and inv: "use_inv v"
  shows "use_inv v'"
proof -
  let ?v = "v\<lparr>now := ev_time e, pending := pending v - {#e#}\<rparr>"
  from step have e: "e \<in># pending v" and h: "spec_handle ?v e v'" by (auto simp: spec_step_iff)
  note inv' = use_inv_deliver(1) [OF ok e inv] and clear = use_inv_deliver(2) [OF ok e inv]
  from h show ?thesis
  proof (cases rule: spec_handle.cases)
    case (landed t)
    with clear inv' show ?thesis
      by (intro handover_use [OF landed(4)]) (auto simp: use_inv_def)
  next
    case departed
    with clear inv' show ?thesis
      by (intro handover_use [OF departed(4)]) (auto simp: use_inv_def)
  next
    case (arrival_free t u a)
    with clear inv' show ?thesis by (auto simp: use_inv_def announce_def)
  next
    case (parked_free t)
    with clear inv' show ?thesis by (auto simp: use_inv_def)
  qed (use inv' in \<open>auto simp: use_inv_def announce_def\<close>)
qed

text \<open>
  Recorded samples: none is negative; one response time per departed airplane, one waiting time per
  landing and per take-off, one \<open>RunwayUse\<close> sample per runway operation; the total time once, at the end.
\<close>

definition sample_inv :: "tower_state \<Rightarrow> bool" where
  "sample_inv v \<longleftrightarrow>
     (\<forall>e\<in>#pending v. \<not> is_arrival e \<longrightarrow> timestamp (ev_msg e) \<le> now v) \<and>
     (\<forall>a\<in>set (hold v) \<union> set (dep v). timestamp a \<le> now v) \<and>
     (\<forall>sig x. Emitted sig x \<in> set (log v) \<longrightarrow> nonneg_sample x)"

definition count_inv :: "tower_state \<Rightarrow> bool" where
  "count_inv v \<longleftrightarrow>
     int (length (samples AirportResponseTime (log v))) = ndeparted v \<and>
     length (samples HoldingQueueWaitingTime (log v)) = length (landings (log v)) \<and>
     length (samples DepartQueueWaitingTime (log v)) = length (takeoffs (log v)) \<and>
     length (samples RunwayUse (log v)) = length (landings (log v)) + length (takeoffs (log v)) \<and>
     samples TotalSimtime (log v) = (if stopped v then [Time (now v)] else [])"

lemma handover_sample:
  "handover v v' \<Longrightarrow> sample_inv v \<Longrightarrow> queue_ok (now v) (hold v) \<Longrightarrow> queue_ok (now v) (dep v) \<Longrightarrow> sample_inv v'"
  by (induction rule: handover.induct) (auto simp: sample_inv_def queue_ok_Cons)

lemma handover_count: "handover v v' \<Longrightarrow> count_inv v \<Longrightarrow> count_inv v'"
  by (induction rule: handover.induct) (auto simp: count_inv_def)

lemma sample_inv_step:
  assumes ok: "spec_ok v" and step: "spec_step v e v'" and inv: "sample_inv v"
  shows "sample_inv v'"
proof -
  let ?v = "v\<lparr>now := ev_time e, pending := pending v - {#e#}\<rparr>"
  from step have e: "e \<in># pending v" and h: "spec_handle ?v e v'" by (auto simp: spec_step_iff)
  have le: "now v \<le> ev_time e" and q: "queue_ok (ev_time e) (hold v)" "queue_ok (ev_time e) (dep v)"
    using ok e by (auto simp: spec_ok_def intro: queue_ok_mono)
  have "timestamp a \<le> ev_time e" if "a \<in> set (hold v) \<union> set (dep v)" for a
    using inv le that by (force simp: sample_inv_def)
  moreover have "timestamp (ev_msg x) \<le> ev_time e" if "x \<in># pending v" "\<not> is_arrival x" for x
    using inv le that by (force simp: sample_inv_def)
  ultimately have inv': "sample_inv ?v" and ts: "\<not> is_arrival e \<Longrightarrow> timestamp (ev_msg e) \<le> ev_time e"
    using inv e by (auto simp: sample_inv_def dest: in_diffD)
  have pk: "0 < nparked v" if "is_parked e"
    using size_filter_remove [OF e, of is_parked] ok that by (simp add: spec_ok_def)
  have pk0: "0 \<le> nparked v" using ok by (auto simp: spec_ok_def)
  from h show ?thesis
  proof (cases rule: spec_handle.cases)
    case (landed t)
    with inv' q ts pk0 kinds_disjoint [of e] show ?thesis
      by (intro handover_sample [OF landed(4)]) (auto simp: sample_inv_def)
  next
    case departed
    with inv' q ts kinds_disjoint [of e] show ?thesis
      by (intro handover_sample [OF departed(4)]) (auto simp: sample_inv_def)
  next
    case ended
    with inv' ts ok le kinds_disjoint [of e] show ?thesis by (auto simp: sample_inv_def spec_ok_def)
  next
    case (arrival_free t u a)
    with inv' show ?thesis by (auto simp: sample_inv_def announce_def)
  next
    case (arrival_busy u a)
    with inv' show ?thesis by (auto simp: sample_inv_def announce_def)
  next
    case (parked_free t)
    with inv' ts pk kinds_disjoint(1) [of e] show ?thesis by (auto simp: sample_inv_def)
  next
    case (parked_busy a)
    with inv' ts pk kinds_disjoint(1) [of e] show ?thesis by (auto simp: sample_inv_def)
  qed
qed

lemma count_inv_step:
  assumes ok: "spec_ok v" and step: "spec_step v e v'" and inv: "count_inv v"
  shows "count_inv v'"
proof -
  let ?v = "v\<lparr>now := ev_time e, pending := pending v - {#e#}\<rparr>"
  from step have h: "spec_handle ?v e v'" by (auto simp: spec_step_iff)
  have inv': "count_inv ?v" using inv ok by (auto simp: count_inv_def spec_ok_def)
  from h show ?thesis
  proof (cases rule: spec_handle.cases)
    case (landed t)
    with inv' show ?thesis by (intro handover_count [OF landed(4)]) (auto simp: count_inv_def)
  next
    case departed
    with inv' show ?thesis by (intro handover_count [OF departed(4)]) (auto simp: count_inv_def)
  qed (use inv' ok in \<open>auto simp: count_inv_def announce_def spec_ok_def\<close>)
qed

section \<open>From the abstract airport to the simulator\<close>

definition spec_initial :: "int \<Rightarrow> tower_state \<Rightarrow> bool" where
  "spec_initial n v \<longleftrightarrow> (\<exists>t w. 0 \<le> t \<and>
     v = \<lparr>now = 0, pending = {#arrival_event t (Airplane_new 0)#}, hold = [], dep = [], busy = False,
          ndeparted = 0, limit = n, nparked = 0, created = 1,
          log = [WarmupPeriod w, Scheduled (arrival_event t (Airplane_new 0))], stopped = False\<rparr>)"

lemma spec_initial_inv:
  assumes "spec_initial n v"
  shows "order_inv v" "takeoff_inv [] v" "use_inv v" "sample_inv v" "count_inv v"
  using assms
  by (auto simp: spec_initial_def order_inv_def takeoff_inv_def use_inv_def sample_inv_def count_inv_def
      Airplane_new_def)

context airport_library
begin

lemma start_initial:
  assumes "airport_config G pa pp" and "fresh s" and "airport_start K G pa pp s = Inr s'"
  shows "spec_initial (par_totalSamples pa) (abs_sim contents s')"
proof -
  from airport_start_running [OF assms(1,2)] assms(3) obtain t where
    run: "running contents s'" "totalSamples (airspace s') = par_totalSamples pa" "\<not> occupied s'"
      "nextIdent s' = 1" and t: "0 \<le> t" "fes (kern s') = {#arrival_event t (Airplane_new 0)#}"
      "simTime (kern s') = 0" "calls (kern s') = [WarmupPeriod (par_scaling pa * par_warmup pa),
         Scheduled (arrival_event t (Airplane_new 0))]"
    by auto
  from run(1) run(3) t(2) have "holding contents s' = []" "departing contents s' = []"
    "departedPlanes (airspace s') = 0" "numParked (parkingArea s') = 0" "\<not> halted (kern s')"
    by (auto simp: running_def airport_wf_def t(4))
  with run t show ?thesis unfolding spec_initial_def by (auto simp: abs_sim_def)
qed

lemma run_history:
  assumes "airport_run K s es s'" and "running contents s"
    and init: "P [] (abs_sim contents s)"
    and step: "\<And>es v e v'. spec_ok v \<Longrightarrow> spec_step v e v' \<Longrightarrow> P es v \<Longrightarrow> P (es @ [e]) v'"
  shows "P es (abs_sim contents s')"
  using assms(1)
proof (induction rule: airport_run.induct)
  case start
  show ?case by (rule init)
next
  case (extend es s1 e s2)
  from extend.hyps(2) have d: "\<not> halted (kern s1)" "earliest e (kern s1)" "deliver K e s1 = Inr s2"
    by (simp_all add: airport_step_iff)
  with airport_run_inv [OF extend.hyps(1) assms(2)] have run: "running contents s1"
    by (auto simp: finished_def)
  from running_spec_ok [OF run] deliver_refines [OF run d(2,3)] extend.IH show ?case by (rule step)
qed

lemma reach_history:
  assumes reach: "airport_reach K pa es s"
    and init: "\<And>v. spec_initial (par_totalSamples pa) v \<Longrightarrow> P [] v"
    and step: "\<And>es v e v'. spec_ok v \<Longrightarrow> spec_step v e v' \<Longrightarrow> P es v \<Longrightarrow> P (es @ [e]) v'"
  shows "P es (abs_sim contents s)"
proof -
  from reach obtain G pp s0 s1 where r: "airport_config G pa pp" "fresh s0"
    "airport_start K G pa pp s0 = Inr s1" "airport_run K s1 es s"
    by (auto simp: airport_reach_def)
  then have "running contents s1" using airport_start_running [OF r(1,2)] by auto
  with r(4) show ?thesis
    using init [OF start_initial [OF r(1-3)]] step by (rule run_history)
qed

lemmas reach_order = reach_history [where P = "\<lambda>es. order_inv", OF _ spec_initial_inv(1) order_inv_step]
lemmas reach_takeoff = reach_history [where P = takeoff_inv, OF _ spec_initial_inv(2) takeoff_inv_step]
lemmas reach_use = reach_history [where P = "\<lambda>es. use_inv", OF _ spec_initial_inv(3) use_inv_step]
lemmas reach_sample = reach_history [where P = "\<lambda>es. sample_inv", OF _ spec_initial_inv(4) sample_inv_step]
lemmas reach_count = reach_history [where P = "\<lambda>es. count_inv", OF _ spec_initial_inv(5) count_inv_step]

end

end
