(* ===== verification/AirportFairness.thy ===== *)
theory AirportFairness
  imports AirportHistory
begin

text \<open>
  The two queues as one waiting line. Merging the holding queue and the departing queue by the time
  of queueing, landings first among equals, gives the order in which the tower serves: the tower's
  decision takes the head of the merged line, a new airplane joins it at the end or just before the
  airplanes that asked for take-off at the very same time.
\<close>

fun merge_line :: "Airplane list \<Rightarrow> Airplane list \<Rightarrow> (bool \<times> Airplane) list" where
  "merge_line [] ds = map (Pair False) ds"
| "merge_line (h # hs) [] = map (Pair True) (h # hs)"
| "merge_line (h # hs) (d # ds) =
     (if queueArrivalTime d < queueArrivalTime h then (False, d) # merge_line (h # hs) ds
      else (True, h) # merge_line hs (d # ds))"

lemma merge_line_Nil_right [simp]: "merge_line hs [] = map (Pair True) hs"
  by (cases hs) auto

lemma set_merge_line: "set (merge_line hs ds) = Pair True ` set hs \<union> Pair False ` set ds"
  by (induction hs ds rule: merge_line.induct) auto

lemma length_merge_line: "length (merge_line hs ds) = length hs + length ds"
  by (induction hs ds rule: merge_line.induct) auto

lemma merge_line_landing_first:
  "\<forall>d\<in>set ds. queueArrivalTime h \<le> queueArrivalTime d \<Longrightarrow>
   merge_line (h # hs) ds = (True, h) # merge_line hs ds"
  by (cases ds) (auto simp: not_less)

lemma merge_line_takeoff_first:
  "\<forall>h\<in>set hs. queueArrivalTime d < queueArrivalTime h \<Longrightarrow>
   merge_line hs (d # ds) = (False, d) # merge_line hs ds"
  by (cases hs) auto

lemma sorted_merge_line:
  "sorted (map queueArrivalTime hs) \<Longrightarrow> sorted (map queueArrivalTime ds) \<Longrightarrow>
   sorted (map (queueArrivalTime \<circ> snd) (merge_line hs ds))"
  by (induction hs ds rule: merge_line.induct) (auto simp: set_merge_line comp_def)

text \<open>A departing airplane that queues up now joins the end of the line.\<close>

lemma merge_line_join_takeoff:
  "\<forall>x\<in>set hs \<union> set ds. queueArrivalTime x \<le> queueArrivalTime a \<Longrightarrow>
   merge_line hs (ds @ [a]) = merge_line hs ds @ [(False, a)]"
proof (induction hs ds rule: merge_line.induct)
  case (2 h hs)
  then show ?case
    by (induction hs arbitrary: h) (auto simp: not_less)
qed auto

text \<open>
  An arriving airplane joins the end of the line, or passes only those that asked for take-off at
  the same time.
\<close>

lemma merge_line_join_empty:
  assumes "\<forall>x\<in>set ds. queueArrivalTime x \<le> queueArrivalTime a" and "sorted (map queueArrivalTime ds)"
  shows "\<exists>xs ys. map (Pair False) ds = xs @ ys \<and> merge_line [a] ds = xs @ (True, a) # ys \<and>
           (\<forall>y\<in>set ys. \<not> fst y \<and> queueArrivalTime (snd y) = queueArrivalTime a)"
  using assms
proof (induction ds)
  case Nil
  then show ?case by auto
next
  case (Cons d ds)
  show ?case
  proof (cases "queueArrivalTime d < queueArrivalTime a")
    case True
    from Cons obtain xs ys where "map (Pair False) ds = xs @ ys" "merge_line [a] ds = xs @ (True, a) # ys"
      "\<forall>y\<in>set ys. \<not> fst y \<and> queueArrivalTime (snd y) = queueArrivalTime a" by auto
    with True show ?thesis by (intro exI [of _ "(False, d) # xs"] exI [of _ ys]) auto
  next
    case False
    with Cons.prems have "\<forall>x\<in>set (d # ds). queueArrivalTime x = queueArrivalTime a" by force
    with False show ?thesis
      by (intro exI [of _ "[]"] exI [of _ "map (Pair False) (d # ds)"]) auto
  qed
qed

lemma merge_line_join_landing:
  assumes "\<forall>x\<in>set hs \<union> set ds. queueArrivalTime x \<le> queueArrivalTime a"
    and "sorted (map queueArrivalTime ds)"
  shows "\<exists>xs ys. merge_line hs ds = xs @ ys \<and> merge_line (hs @ [a]) ds = xs @ (True, a) # ys \<and>
           (\<forall>y\<in>set ys. \<not> fst y \<and> queueArrivalTime (snd y) = queueArrivalTime a)"
  using assms
proof (induction hs ds rule: merge_line.induct)
  case (1 ds)
  then show ?case using merge_line_join_empty [of ds a] by simp
next
  case (2 h hs)
  show ?case by (intro exI [of _ "map (Pair True) (h # hs)"] exI [of _ "[]"]) simp
next
  case (3 h hs d ds)
  show ?case
  proof (cases "queueArrivalTime d < queueArrivalTime h")
    case True
    with "3.IH"(1) "3.prems" obtain xs ys where "merge_line (h # hs) ds = xs @ ys"
      "merge_line ((h # hs) @ [a]) ds = xs @ (True, a) # ys"
      "\<forall>y\<in>set ys. \<not> fst y \<and> queueArrivalTime (snd y) = queueArrivalTime a" by auto
    with True show ?thesis by (intro exI [of _ "(False, d) # xs"] exI [of _ ys]) auto
  next
    case False
    with "3.IH"(2) "3.prems" obtain xs ys where "merge_line hs (d # ds) = xs @ ys"
      "merge_line (hs @ [a]) (d # ds) = xs @ (True, a) # ys"
      "\<forall>y\<in>set ys. \<not> fst y \<and> queueArrivalTime (snd y) = queueArrivalTime a" by auto
    with False show ?thesis by (intro exI [of _ "(True, h) # xs"] exI [of _ ys]) auto
  qed
qed

section \<open>Steps of the airport on the waiting line\<close>

abbreviation line :: "tower_state \<Rightarrow> (bool \<times> Airplane) list" where
  "line v \<equiv> merge_line (hold v) (dep v)"

lemma handover_line:
  assumes "handover v v'"
  shows "line v = [] \<and> \<not> busy v' \<and> pending v' = pending v \<or>
         (\<exists>k a t. line v = (k, a) # line v' \<and> busy v' = busy v \<and> 0 \<le> t \<and>
            pending v' = add_mset ((if k then landing_event else takeoff_event) (now v + t) a) (pending v))"
  using assms
proof (cases rule: handover.cases)
  case nobody
  then show ?thesis by simp
next
  case (next_landing a as t)
  then show ?thesis using merge_line_landing_first [of "dep v" a as] by (intro disjI2 exI [of _ True]) auto
next
  case (next_takeoff a as t)
  then show ?thesis using merge_line_takeoff_first [of "hold v" a as] by (intro disjI2 exI [of _ False]) auto
qed

end
