(* ===== verification/AirportProperties.thy ===== *)
theory AirportProperties
  imports AirportFairness
begin

text \<open>
  The properties of the airport simulator, stated for every implementation \<open>K\<close> of the OMNeT++
  library that meets its documentation (\<open>airport_library\<close>) and for every reachable state
  (\<open>airport_reach\<close>). A small deterministic simulation of four deliveries serves as witness.
\<close>

section \<open>A concrete simulation\<close>

interpretation list_airport: airport_library list_omnet "\<lambda>q. q"
  by (intro airport_library.intro) (rule list_library.omnetpp_axioms)

fun airport_exec ::
  "('q, Airplane, 'g) omnet \<Rightarrow> airport_event list \<Rightarrow> ('q, 'g) sim \<Rightarrow> ('q, 'g) sim option" where
  "airport_exec K [] s = Some s"
| "airport_exec K (e # es) s =
     (if \<not> halted (kern s) \<and> earliest e (kern s)
      then case deliver K e s of Inl _ \<Rightarrow> None | Inr s' \<Rightarrow> airport_exec K es s'
      else None)"

lemma airport_run_trans:
  "airport_run K s1 es2 s2 \<Longrightarrow> airport_run K s0 es1 s1 \<Longrightarrow> airport_run K s0 (es1 @ es2) s2"
  by (induction rule: airport_run.induct) (auto intro: airport_run.extend simp flip: append_assoc)

lemma airport_exec_run: "airport_exec K es s = Some s' \<Longrightarrow> airport_run K s es s'"
proof (induction es arbitrary: s)
  case Nil
  then show ?case by (auto intro: airport_run.start)
next
  case (Cons e es)
  then obtain s1 where s1: "deliver K e s = Inr s1" "airport_exec K es s1 = Some s'"
    and g: "\<not> halted (kern s)" "earliest e (kern s)"
    by (auto split: if_splits sum.splits)
  then have "airport_run K s ([] @ [e]) s1" by (intro airport_run.extend) (auto intro: airport_run.intros airport_step.intros)
  with Cons.IH [OF s1(2)] show ?case by (auto dest: airport_run_trans)
qed

definition demo_blank :: "(Airplane list, unit) sim" where
  "demo_blank = \<lparr>airspace = \<lparr>isInterArrivalTimeRandom = False, isLandingTimeRandom = False,
       interArrivalTime = 0, landingTime = 0, totalSamples = 0, departedPlanes = 0, nextArrival = 0,
       nextLandingTime = 0, holdingQueue = [], airspace_controlTower = False\<rparr>,
     parkingArea = \<lparr>isParkingTimeRandom = False, isTakeoffTimeRandom = False, parkingTime = 0,
       takeoffTime = 0, numParked = 0, nextParkingTime = 0, nextTakeoffTime = 0, departQueue = [],
       parkingArea_controlTower = False\<rparr>,
     controlTower = \<lparr>landingStripOccupied = False, tower_parkingArea = False, tower_airspace = False\<rparr>,
     nextIdent = 0,
     kern = \<lparr>simTime = 0, fes = {#}, rng = (), calls = [], halted = False\<rparr>\<rparr>"

definition demo_paths :: "string \<Rightarrow> airport_module option" where
  "demo_paths p = (if p = ''AirTrafficControl.airport.controltower'' then Some MControlTower
     else if p = ''AirTrafficControl.airspace'' then Some MAirspace
     else if p = ''AirTrafficControl.airport.parkingarea'' then Some MParkingArea else None)"

definition demo_pa :: airspace_par where
  "demo_pa = \<lparr>par_isInterArrivalTimeRandom = False, par_isLandingTimeRandom = False,
     par_interArrivalTime = 10, par_landingTime = 12, par_totalSamples = 1, par_warmup = 0,
     par_scaling = 1\<rparr>"

definition demo_pp :: parkingArea_par where
  "demo_pp = \<lparr>par_isParkingTimeRandom = False, par_isTakeoffTimeRandom = False,
     par_parkingTime = 3, par_takeoffTime = 5\<rparr>"

definition plane :: "nat \<Rightarrow> simtime \<Rightarrow> simtime \<Rightarrow> Airplane" where
  "plane i ts q = \<lparr>ident = i, timestamp = ts, queueArrivalTime = q\<rparr>"

text \<open>
  Airplane 0 arrives at 10 and lands until 22, airplane 1 arrives at 20 and waits; at 22 it is given
  the runway, and airplane 0, parked until 25, waits for its take-off.
\<close>

definition demo_events :: "airport_event list" where
  "demo_events = [arrival_event 10 (plane 0 0 0), arrival_event 20 (plane 1 0 0),
     landing_event 22 (plane 0 10 0), parking_event 25 (plane 0 10 0)]"

lemmas demo_defs = demo_blank_def demo_paths_def demo_pa_def demo_pp_def plane_def

lemma demo_config: "airport_config demo_paths demo_pa demo_pp" and demo_fresh: "fresh demo_blank"
  by (simp_all add: demo_defs airport_config_def fresh_def)

lemmas exec_defs = airport_start_def Airspace_initialize_def ParkingArea_initialize_def
  ControlTower_initialize_def Let_def new_Airplane_def Airplane_new_def duration_def scheduleAt_def
  deliver_def Airspace_handleMessage_def ParkingArea_handleMessage_def isSelfMessage_def
  Airspace_arrival_def Airspace_departure_def ParkingArea_parked_def ParkingArea_landed_def
  Airspace_nextArrival_def ControlTower_notify_def ControlTower_completed_def
  Airspace_getMaxQueueTime_def ParkingArea_getMaxQueueTime_def Airspace_go_def ParkingArea_go_def
  getQueueArrivalTime_def setQueueArrivalTime_def sendDelayed_def airport_net_def
  list_omnet_def begin_event_def emit_def kcall_def endSimulation_def earliest_def event_defs

definition demo_start :: "(Airplane list, unit) sim" where
  "demo_start = projr (airport_start list_omnet demo_paths demo_pa demo_pp demo_blank)"

lemma demo_start: "airport_start list_omnet demo_paths demo_pa demo_pp demo_blank = Inr demo_start"
  unfolding demo_start_def by (simp add: demo_defs exec_defs)

definition demo_state :: "(Airplane list, unit) sim" where
  "demo_state = the (airport_exec list_omnet demo_events demo_start)"

lemma demo_exec: "airport_exec list_omnet demo_events demo_start = Some demo_state"
  unfolding demo_state_def demo_start_def by (simp add: demo_defs exec_defs demo_events_def)

lemma demo_reach: "airport_reach list_omnet demo_pa demo_events demo_state"
  unfolding airport_reach_def
  using demo_config demo_fresh demo_start airport_exec_run [OF demo_exec] by blast

lemma demo_values:
  "\<not> halted (kern demo_state)" "occupied demo_state" "simTime (kern demo_state) = 25"
  "map ident (holdingQueue (airspace demo_state)) = []"
  "map ident (departQueue (parkingArea demo_state)) = [0]"
  "landings (calls (kern demo_state)) = [0, 1]"
  "fes (kern demo_state) = {#arrival_event 30 (plane (Suc (Suc 0)) 0 0), landing_event 34 (plane 1 20 20)#}"
  unfolding demo_state_def demo_start_def
  by (simp_all add: demo_defs exec_defs demo_events_def)

text \<open>The simulation ends when airplane 0 has taken off.\<close>

definition demo_rest :: "airport_event list" where
  "demo_rest = [arrival_event 30 (plane (Suc (Suc 0)) 0 0), landing_event 34 (plane 1 20 20),
     parking_event 37 (plane 1 20 20), takeoff_event 39 (plane 0 10 25)]"

definition demo_final :: "(Airplane list, unit) sim" where
  "demo_final = the (airport_exec list_omnet (demo_events @ demo_rest) demo_start)"

lemma demo_final_exec: "airport_exec list_omnet (demo_events @ demo_rest) demo_start = Some demo_final"
  unfolding demo_final_def demo_start_def by (simp add: demo_defs exec_defs demo_events_def demo_rest_def)

lemma demo_final_reach: "airport_reach list_omnet demo_pa (demo_events @ demo_rest) demo_final"
  unfolding airport_reach_def
  using demo_config demo_fresh demo_start airport_exec_run [OF demo_final_exec] by blast

lemma demo_final_values:
  "halted (kern demo_final)" "simTime (kern demo_final) = 39"
  unfolding demo_final_def demo_start_def
  by (simp_all add: demo_defs exec_defs demo_events_def demo_rest_def)

section \<open>Safety of the runway\<close>

text \<open>
  (C1) At most one airplane uses the runway: at any time at most one landing or take-off is under
  way, and while the simulation runs the tower's flag \<open>landingStripOccupied\<close> says so exactly.
\<close>

theorem runway_exclusive:
  assumes "airport_library K contents" and "airport_reach K pa es s"
  shows "size (filter_mset on_runway (fes (kern s))) \<le> 1 \<and>
         (halted (kern s) \<or> (occupied s \<longleftrightarrow> (\<exists>e\<in>#fes (kern s). on_runway e)))"
proof -
  from airport_library.airport_reach_inv [OF assms] show ?thesis
  proof
    assume "running contents s"
    then have n: "size (filter_mset on_runway (fes (kern s))) = (if occupied s then 1 else 0)"
      by (auto simp only: running_def dest: wf_runway)
    show ?thesis unfolding Bex_mset_size n by simp
  next
    assume "finished contents s"
    then have n: "size (filter_mset on_runway (fes (kern s))) = 0" and "halted (kern s)"
      by (auto simp only: finished_def dest: wf_runway)
    then show ?thesis unfolding n by simp
  qed
qed

theorem runway_exclusive_witness:
  "airport_reach list_omnet demo_pa demo_events demo_state \<and>
   size (filter_mset on_runway (fes (kern demo_state))) \<le> 1"
  using runway_exclusive [OF list_airport.airport_library_axioms demo_reach] demo_reach by blast

text \<open>
  (C4) No delivered message ever fails: in every reachable state of a running simulation the
  handler of any deliverable message returns without popping an empty queue, following an unset
  pointer, scheduling in the past or sending with a negative delay, and the state it leaves is
  again reachable.
\<close>

theorem delivery_never_fails:
  assumes "airport_library K contents" and "airport_reach K pa es s"
    and "\<not> halted (kern s)" and "earliest e (kern s)"
  shows "\<exists>s'. deliver K e s = Inr s' \<and> airport_reach K pa (es @ [e]) s'"
proof -
  from airport_library.airport_reach_inv [OF assms(1,2)] assms(3) have "running contents s"
    by (auto simp: finished_def)
  from airport_library.deliver_running [OF assms(1) this assms(4)] obtain s' where
    s': "deliver K e s = Inr s'" by blast
  with assms(3,4) have "airport_step K s e s'" by (simp add: airport_step_iff)
  with assms(2) s' show ?thesis unfolding airport_reach_def by (blast intro: airport_run.extend)
qed

theorem delivery_never_fails_witness:
  "\<exists>s'. deliver list_omnet (arrival_event 30 (plane (Suc (Suc 0)) 0 0)) demo_state = Inr s'"
  using delivery_never_fails [OF list_airport.airport_library_axioms demo_reach demo_values(1),
      of "arrival_event 30 (plane (Suc (Suc 0)) 0 0)"]
  by (auto simp: earliest_def demo_values(7))

text \<open>
  (C10) The simulator never runs dry: until \<open>endSimulation()\<close> is called a message is pending, so
  the simulation can only end by collecting the requested number of samples.
\<close>

theorem simulation_progress:
  assumes "airport_library K contents" and "airport_reach K pa es s" and "\<not> halted (kern s)"
  shows "\<exists>e. earliest e (kern s)"
proof -
  from airport_library.airport_reach_inv [OF assms(1,2)] assms(3)
  have "size (filter_mset is_arrival (fes (kern s))) = 1" by (auto simp: finished_def running_def airport_wf_def)
  then have "fes (kern s) \<noteq> {#}" by auto
  from ex_minimal_mset [OF this, of ev_time] show ?thesis by (auto simp: earliest_def)
qed

theorem simulation_progress_witness: "\<exists>e. earliest e (kern demo_state)"
  by (rule simulation_progress [OF list_airport.airport_library_axioms demo_reach demo_values(1)])

text \<open>
  (C5) Every airplane ever created is in exactly one place: the pending events (announced, landing,
  parked or taking off), the holding queue, the departing queue, or among the deleted ones. None is
  lost and none is duplicated.
\<close>

theorem airplanes_accounted:
  assumes "airport_library K contents" and "airport_reach K pa es s"
  shows "image_mset (\<lambda>e. ident (ev_msg e)) (fes (kern s)) + mset (map ident (holding contents s)) +
         mset (map ident (departing contents s)) + mset (deleted (calls (kern s))) =
         mset_set {0..<nextIdent s}"
  using airport_library.airport_reach_inv [OF assms]
  by (auto simp: running_def finished_def airport_wf_def accounted_def live_def)

theorem airplanes_accounted_witness:
  "image_mset (\<lambda>e. ident (ev_msg e)) (fes (kern demo_state)) +
   mset (map ident (holdingQueue (airspace demo_state))) +
   mset (map ident (departQueue (parkingArea demo_state))) + mset (deleted (calls (kern demo_state))) =
   mset_set {0..<nextIdent demo_state}"
  by (rule airplanes_accounted [OF list_airport.airport_library_axioms demo_reach])

text \<open>
  The runway never idles while somebody waits: as long as the simulation runs and the runway is
  free, both queues are empty.
\<close>

theorem runway_work_conserving:
  assumes "airport_library K contents" and "airport_reach K pa es s"
    and "\<not> halted (kern s)" and "\<not> occupied s"
  shows "holding contents s = [] \<and> departing contents s = []"
  using airport_library.airport_reach_inv [OF assms(1,2)] assms(3,4)
  by (auto simp: running_def finished_def)

lemma demo_start_reach: "airport_reach list_omnet demo_pa [] demo_start"
  unfolding airport_reach_def
  using demo_config demo_fresh demo_start airport_run.start by blast

theorem runway_work_conserving_witness:
  "\<not> occupied demo_start \<and> holdingQueue (airspace demo_start) = [] \<and>
   departQueue (parkingArea demo_start) = []"
proof -
  have "\<not> occupied demo_start" "\<not> halted (kern demo_start)"
    by (simp_all add: demo_start_def demo_defs exec_defs)
  with runway_work_conserving [OF list_airport.airport_library_axioms demo_start_reach] show ?thesis by simp
qed

text \<open>
  (C11) The counter \<open>numParked\<close> is exact: in every reachable state it equals the number of airplanes
  whose parking time has not expired (and so is never negative).
\<close>

theorem numParked_exact:
  assumes "airport_library K contents" and "airport_reach K pa es s"
  shows "numParked (parkingArea s) = int (size (filter_mset is_parked (fes (kern s))))"
  using airport_library.airport_reach_inv [OF assms] by (auto simp: running_def finished_def airport_wf_def)

theorem numParked_exact_witness:
  "numParked (parkingArea demo_state) = int (size (filter_mset is_parked (fes (kern demo_state))))"
  by (rule numParked_exact [OF list_airport.airport_library_axioms demo_reach])

section \<open>Service order\<close>

text \<open>
  (C2) The tower serves the longest waiting airplane: when both queues hold airplanes in the order
  in which they queued up, \<open>completed()\<close> either frees the runway because nobody waits, or starts the
  operation of the airplane at the head of the two queues merged by waiting time (landings first
  among equals); no waiting airplane queued up earlier, and the rest of the merged line is unchanged.
\<close>

theorem tower_serves_longest_waiting:
  assumes "airport_library K contents" and "resolved s" and "nonneg_means s"
    and "queue_ok t0 (holding contents s)" and "queue_ok t0 (departing contents s)"
  shows "\<exists>s'. ControlTower_completed K s = Inr s' \<and>
    ((holding contents s = [] \<and> departing contents s = [] \<and> \<not> occupied s' \<and>
      fes (kern s') = fes (kern s)) \<or>
     (\<exists>landing a t. merge_line (holding contents s) (departing contents s) =
          (landing, a) # merge_line (holding contents s') (departing contents s') \<and>
        (\<forall>b\<in>set (holding contents s) \<union> set (departing contents s).
           queueArrivalTime a \<le> queueArrivalTime b) \<and> 0 \<le> t \<and> occupied s' = occupied s \<and>
        fes (kern s') = add_mset ((if landing then landing_event else takeoff_event)
          (simTime (kern s) + t) a) (fes (kern s))))"
proof -
  from assms(3) have means: "0 \<le> landingTime (airspace s)" "0 \<le> takeoffTime (parkingArea s)"
    by (simp_all add: nonneg_means_def)
  show ?thesis
  proof (cases rule: airport_library.ControlTower_completed_cases
      [OF assms(1,2,4,5), case_names free takeoff landing])
    case free
    then show ?thesis by simp
  next
    case (takeoff a as)
    from assms(1) means(2) takeoff(1) show ?thesis
    proof (rule airport_library.ParkingArea_go_result, goal_cases)
      case (1 q t g)
      with takeoff assms(5) merge_line_takeoff_first [OF takeoff(2), of as] show ?case
        by (auto simp: queue_ok_Cons less_imp_le intro!: exI [of _ False] exI [of _ a] exI [of _ t])
    qed
  next
    case (landing a as)
    from assms(1) means(1) landing(1) show ?thesis
    proof (rule airport_library.Airspace_go_result, goal_cases)
      case (1 q t g)
      with landing assms(4) merge_line_landing_first [OF landing(2), of as] show ?case
        by (auto simp: queue_ok_Cons intro!: exI [of _ True] exI [of _ a] exI [of _ t])
    qed
  qed
qed

theorem tower_serves_longest_waiting_witness:
  "\<exists>s'. ControlTower_completed list_omnet demo_state = Inr s' \<and>
     (\<exists>landing a. merge_line (holdingQueue (airspace demo_state)) (departQueue (parkingArea demo_state)) =
        (landing, a) # merge_line (holdingQueue (airspace s')) (departQueue (parkingArea s')))"
proof -
  have "airport_wf (\<lambda>q. q) 1 1 {#} demo_state"
    using list_airport.airport_reach_inv [OF demo_reach] demo_values
    by (auto simp: running_def finished_def)
  then have "resolved demo_state" "nonneg_means demo_state"
    "queue_ok 25 (holdingQueue (airspace demo_state))" "queue_ok 25 (departQueue (parkingArea demo_state))"
    using demo_values(3) by (simp_all add: airport_wf_def)
  from tower_serves_longest_waiting [OF list_airport.airport_library_axioms this] demo_values(5)
  show ?thesis by auto
qed

text \<open>
  (C7) Airplanes land in the order of their arrival: the airplanes that were given the runway for
  landing, followed by those in the holding queue, are the airplanes in the order in which they
  were created (the last one created is announced and has not arrived yet).
\<close>

theorem landings_in_arrival_order:
  assumes "airport_library K contents" and "airport_reach K pa es s"
  shows "landings (calls (kern s)) @ map ident (holding contents s) = [0..<nextIdent s - 1]"
  using airport_library.reach_order [OF assms] by (simp add: order_inv_def abs_sim_def)

theorem landings_in_arrival_order_witness:
  "landings (calls (kern demo_state)) @ map ident (holdingQueue (airspace demo_state)) =
   [0..<nextIdent demo_state - 1]"
  by (rule landings_in_arrival_order [OF list_airport.airport_library_axioms demo_reach])

text \<open>
  (C8) Airplanes take off in the order in which their parking times expired: the take-offs started
  so far, followed by the departing queue, are the expired airplanes in the order of the delivered
  messages.
\<close>

theorem takeoffs_in_expiry_order:
  assumes "airport_library K contents" and "airport_reach K pa es s"
  shows "takeoffs (calls (kern s)) @ map ident (departing contents s) =
         map (\<lambda>e. ident (ev_msg e)) (filter is_parked es)"
  using airport_library.reach_takeoff [OF assms] by (simp add: takeoff_inv_def abs_sim_def)

theorem takeoffs_in_expiry_order_witness:
  "takeoffs (calls (kern demo_state)) @ map ident (departQueue (parkingArea demo_state)) =
   map (\<lambda>e. ident (ev_msg e)) (filter is_parked demo_events)"
  by (rule takeoffs_in_expiry_order [OF list_airport.airport_library_axioms demo_reach])

text \<open>
  No overtaking by later airplanes: an airplane that arrives while the runway is occupied joins
  the merged waiting line at its end, or directly before airplanes that asked for take-off at the
  very same simulation time (the rounding ties the tower resolves in favour of landings).
\<close>

theorem arrival_joins_line:
  assumes "airport_library K contents" and "airport_reach K pa es s" and "airport_step K s e s'"
    and "is_arrival e" and "occupied s"
  shows "\<exists>xs ys a. merge_line (holding contents s) (departing contents s) = xs @ ys \<and>
           merge_line (holding contents s') (departing contents s') = xs @ (True, a) # ys \<and>
           ident a = ident (ev_msg e) \<and> queueArrivalTime a = ev_time e \<and>
           (\<forall>y\<in>set ys. \<not> fst y \<and> queueArrivalTime (snd y) = ev_time e)"
proof -
  from assms(3) have d: "\<not> halted (kern s)" "earliest e (kern s)" "deliver K e s = Inr s'"
    by (simp_all add: airport_step_iff)
  with airport_library.airport_reach_inv [OF assms(1,2)] have run: "running contents s"
    by (auto simp: finished_def)
  let ?v = "(abs_sim contents s)\<lparr>now := ev_time e, pending := fes (kern s) - {#e#}\<rparr>"
  from airport_library.deliver_refines [OF assms(1) run d(2,3)]
  have h: "spec_handle ?v e (abs_sim contents s')" by (auto simp: spec_step_iff abs_sim_def)
  from run d(2) have q: "queue_ok (ev_time e) (holding contents s)" "queue_ok (ev_time e) (departing contents s)"
    by (auto simp: running_def airport_wf_def events_ok_def earliest_def intro: queue_ok_mono)
  let ?a = "(ev_msg e)\<lparr>timestamp := ev_time e, queueArrivalTime := ev_time e\<rparr>"
  from h assms(4,5) have "holding contents s' = holding contents s @ [?a]"
    "departing contents s' = departing contents s"
    by (auto simp: abs_sim_def announce_def elim!: spec_handle.cases dest: kinds_disjoint)
  moreover have "\<forall>x\<in>set (holding contents s) \<union> set (departing contents s).
      queueArrivalTime x \<le> queueArrivalTime ?a" "sorted (map queueArrivalTime (departing contents s))"
    using q by (auto simp: queue_ok_def)
  from merge_line_join_landing [OF this] obtain xs ys where
    "merge_line (holding contents s) (departing contents s) = xs @ ys"
    "merge_line (holding contents s @ [?a]) (departing contents s) = xs @ (True, ?a) # ys"
    "\<forall>y\<in>set ys. \<not> fst y \<and> queueArrivalTime (snd y) = queueArrivalTime ?a" by blast
  ultimately show ?thesis by (intro exI [of _ xs] exI [of _ ys] exI [of _ ?a]) auto
qed

theorem arrival_joins_line_witness:
  "\<exists>s' xs ys a. airport_step list_omnet demo_state (arrival_event 30 (plane (Suc (Suc 0)) 0 0)) s' \<and>
     merge_line (holdingQueue (airspace s')) (departQueue (parkingArea s')) = xs @ (True, a) # ys"
proof -
  let ?e = "arrival_event 30 (plane (Suc (Suc 0)) 0 0)"
  have e: "earliest ?e (kern demo_state)" by (simp add: earliest_def demo_values(7))
  from demo_values(1) list_airport.airport_reach_inv [OF demo_reach]
  have "running (\<lambda>q. q) demo_state" by (auto simp: finished_def)
  from list_airport.deliver_running [OF this e] obtain s' where "deliver list_omnet ?e demo_state = Inr s'"
    by blast
  with e demo_values(1) have st: "airport_step list_omnet demo_state ?e s'" by (simp add: airport_step_iff)
  from arrival_joins_line [OF list_airport.airport_library_axioms demo_reach st] demo_values(2) st
  show ?thesis by auto
qed

section \<open>Statistics and end of the simulation\<close>

text \<open>
  (C9) The simulation stops exactly at the requested number of departures: in a running simulation
  fewer than \<open>totalSamples\<close> airplanes (at least one) have left; it halts when the count reaches that
  number, having recorded the total time exactly once, and the count never exceeds it.
\<close>

theorem stops_at_total_samples:
  assumes "airport_library K contents" and "airport_reach K pa es s"
  shows "(halted (kern s) \<longleftrightarrow> departedPlanes (airspace s) = max 1 (totalSamples (airspace s))) \<and>
         0 \<le> departedPlanes (airspace s) \<and>
         departedPlanes (airspace s) \<le> max 1 (totalSamples (airspace s)) \<and>
         samples TotalSimtime (calls (kern s)) =
           (if halted (kern s) then [Time (simTime (kern s))] else [])"
  using airport_library.airport_reach_inv [OF assms] airport_library.reach_count [OF assms]
  by (auto simp: running_def finished_def airport_wf_def count_inv_def abs_sim_def)

theorem stops_at_total_samples_witness:
  "halted (kern demo_final) \<and> samples TotalSimtime (calls (kern demo_final)) = [Time 39]"
  using stops_at_total_samples [OF list_airport.airport_library_axioms demo_final_reach]
    demo_final_values by simp

text \<open>
  Every statistic gets the right number of samples: one response time per departed airplane, one
  waiting time per started landing and per started take-off, one runway use per runway operation.
\<close>

theorem one_sample_per_operation:
  assumes "airport_library K contents" and "airport_reach K pa es s"
  shows "int (length (samples AirportResponseTime (calls (kern s)))) = departedPlanes (airspace s) \<and>
         length (samples HoldingQueueWaitingTime (calls (kern s))) = length (landings (calls (kern s))) \<and>
         length (samples DepartQueueWaitingTime (calls (kern s))) = length (takeoffs (calls (kern s))) \<and>
         length (samples RunwayUse (calls (kern s))) =
           length (landings (calls (kern s))) + length (takeoffs (calls (kern s)))"
  using airport_library.reach_count [OF assms] by (simp add: count_inv_def abs_sim_def)

theorem one_sample_per_operation_witness:
  "length (samples HoldingQueueWaitingTime (calls (kern demo_state))) = 2"
  using one_sample_per_operation [OF list_airport.airport_library_axioms demo_reach]
  by (simp add: demo_values(6))

text \<open>
  No recorded sample is negative: queue sizes, numbers of parked airplanes, waiting times,
  response times, runway uses and the total time.
\<close>

theorem samples_nonnegative:
  assumes "airport_library K contents" and "airport_reach K pa es s"
    and "Emitted sig x \<in> set (calls (kern s))"
  shows "nonneg_sample x"
  using airport_library.reach_sample [OF assms(1,2)] assms(3) by (auto simp: sample_inv_def abs_sim_def)

theorem samples_nonnegative_witness:
  "\<exists>x. Emitted TotalSimtime x \<in> set (calls (kern demo_final)) \<and> nonneg_sample x"
proof -
  have "Emitted TotalSimtime (Time 39) \<in> set (calls (kern demo_final))"
    by (simp add: demo_final_def demo_start_def demo_defs exec_defs demo_events_def demo_rest_def)
  with samples_nonnegative [OF list_airport.airport_library_axioms demo_final_reach this]
  show ?thesis by blast
qed

text \<open>
  (C6) The runway utilization is at most one: when the simulation has ended, the sum of the
  \<open>RunwayUse\<close> samples is between 0 and the recorded total simulation time.
\<close>

theorem utilization_at_most_one:
  assumes "airport_library K contents" and "airport_reach K pa es s" and "halted (kern s)"
  shows "0 \<le> runway_use (calls (kern s)) \<and> runway_use (calls (kern s)) \<le> simTime (kern s)"
proof -
  from airport_library.airport_reach_inv [OF assms(1,2)] assms(3)
  have "\<forall>e\<in>#fes (kern s). \<not> on_runway e" by (auto simp: running_def finished_def airport_wf_def)
  with airport_library.reach_use [OF assms(1,2)] show ?thesis by (simp add: use_inv_def abs_sim_def)
qed

theorem utilization_at_most_one_witness:
  "runway_use (calls (kern demo_final)) \<le> 39"
  using utilization_at_most_one [OF list_airport.airport_library_axioms demo_final_reach]
    demo_final_values by simp

section \<open>Refinement and initialization\<close>

text \<open>
  (C3) The simulator implements the abstract airport: every message delivered in a reachable state is
  one step of the specification \<open>spec_step\<close>, with the same pending events, queues, counters and
  recorded samples.
\<close>

theorem simulator_refines_spec:
  assumes "airport_library K contents" and "airport_reach K pa es s" and "airport_step K s e s'"
  shows "spec_step (abs_sim contents s) e (abs_sim contents s')"
proof -
  from assms(3) have d: "\<not> halted (kern s)" "earliest e (kern s)" "deliver K e s = Inr s'"
    by (simp_all add: airport_step_iff)
  with airport_library.airport_reach_inv [OF assms(1,2)] have "running contents s"
    by (auto simp: finished_def)
  from airport_library.deliver_refines [OF assms(1) this d(2,3)] show ?thesis .
qed

theorem simulator_refines_spec_witness:
  "\<exists>s' :: (Airplane list, unit) sim.
     spec_step (abs_sim (\<lambda>q. q) demo_start) (arrival_event 10 (plane 0 0 0)) (abs_sim (\<lambda>q. q) s')"
proof -
  let ?e = "arrival_event 10 (plane 0 0 0)"
  have e: "earliest ?e (kern demo_start)" and "\<not> halted (kern demo_start)"
    by (simp_all add: demo_start_def demo_defs exec_defs)
  with list_airport.airport_reach_inv [OF demo_start_reach] have "running (\<lambda>q. q) demo_start"
    by (auto simp: finished_def)
  from list_airport.deliver_running [OF this e] obtain s' where "deliver list_omnet ?e demo_start = Inr s'"
    by blast
  with e \<open>\<not> halted (kern demo_start)\<close> have "airport_step list_omnet demo_start ?e s'"
    by (simp add: airport_step_iff)
  from simulator_refines_spec [OF list_airport.airport_library_axioms demo_start_reach this]
  show ?thesis by blast
qed

text \<open>
  When the airspace cannot find the control tower it only alerts: no airplane is created and no
  message is scheduled, so the simulation ends for lack of events instead of following an unset
  pointer.
\<close>

theorem initialize_without_tower:
  assumes "G ''AirTrafficControl.airport.controltower'' \<noteq> Some MControlTower"
  shows "\<exists>s'. Airspace_initialize K G p s = Inr s' \<and> fes (kern s') = fes (kern s) \<and>
           nextIdent s' = nextIdent s \<and>
           calls (kern s') = calls (kern s) @ [WarmupPeriod (par_scaling p * par_warmup p), Alerted MAirspace]"
  using assms by (simp add: Airspace_initialize_def Let_def)

theorem initialize_without_tower_witness:
  "\<exists>s'. Airspace_initialize list_omnet (\<lambda>_. None) demo_pa demo_blank = Inr s' \<and> fes (kern s') = {#}"
proof -
  have "fes (kern demo_blank) = {#}" by (simp add: demo_blank_def)
  with initialize_without_tower [of "\<lambda>_. None" list_omnet demo_pa demo_blank] show ?thesis by auto
qed

end
