(* ===== verification/Decimal.thy ===== *)
theory Decimal
  imports Prelude
begin

text \<open>
  Decimal conversion as \<open>sprintf\<close> does it for \<open>%u\<close>, \<open>%i\<close> and \<open>%li\<close>, and as the stream operators do it
  for unsigned integers, with bounds on the length of the text.
\<close>

section \<open>Decimal conversion\<close>

definition digit_char :: "nat \<Rightarrow> char" where
  "digit_char d = char_of (48 + d)"

fun digits :: "nat \<Rightarrow> string" where
  "digits n = (if n < 10 then [digit_char n] else digits (n div 10) @ [digit_char (n mod 10)])"

declare digits.simps [simp del]

lemma length_digits: "n < 10 ^ Suc k \<Longrightarrow> length (digits n) \<le> Suc k"
proof (induction k arbitrary: n)
  case 0
  then show ?case by (simp add: digits.simps)
next
  case (Suc k)
  show ?case
  proof (cases "n < 10")
    case True
    then show ?thesis by (simp add: digits.simps)
  next
    case False
    from Suc.prems have "n div 10 < 10 ^ Suc k" by (simp add: less_mult_imp_div_less)
    from Suc.IH [OF this] False show ?thesis by (simp add: digits.simps [of n])
  qed
qed

lemma length_digits_pos: "0 < length (digits n)"
  by (simp add: digits.simps [of n])

text \<open>\<open>%u\<close> prints the value as an unsigned 32-bit integer, \<open>%i\<close> and \<open>%li\<close> with a sign.\<close>

definition format_u :: "int \<Rightarrow> string" where
  "format_u n = digits (nat (n mod 2 ^ 32))"

definition format_i :: "int \<Rightarrow> string" where
  "format_i n = (if n < 0 then CHR ''-'' # digits (nat (- n)) else digits (nat n))"

definition int32 :: "int \<Rightarrow> bool" where
  "int32 n \<longleftrightarrow> - (2 ^ 31) \<le> n \<and> n < 2 ^ 31"

definition int64 :: "int \<Rightarrow> bool" where
  "int64 n \<longleftrightarrow> - (2 ^ 63) \<le> n \<and> n < 2 ^ 63"

lemma length_format_u: "length (format_u n) \<le> 10"
proof -
  have "n mod 2 ^ 32 < 10 ^ 10" using pos_mod_bound [of "2 ^ 32" n] by simp
  then have "nat (n mod 2 ^ 32) < 10 ^ Suc 9" by (simp add: nat_less_iff)
  from length_digits [OF this] show ?thesis by (simp add: format_u_def)
qed

lemma length_format_int32:
  assumes "int32 n" shows "length (format_i n) \<le> 11"
proof -
  from assms have "nat \<bar>n\<bar> < 10 ^ Suc 9" by (auto simp: int32_def nat_less_iff)
  from length_digits [OF this] show ?thesis
    by (cases "n < 0") (auto simp: format_i_def)
qed

lemma length_format_int64:
  assumes "int64 n" shows "length (format_i n) \<le> 20"
proof -
  from assms have "nat \<bar>n\<bar> < 10 ^ Suc 18" by (auto simp: int64_def nat_less_iff)
  from length_digits [OF this] show ?thesis
    by (cases "n < 0") (auto simp: format_i_def)
qed

lemma length_format_nonneg64:
  assumes "int64 n" and "0 \<le> n" shows "length (format_i n) \<le> 19"
proof -
  from assms have "nat n < 10 ^ Suc 18" by (auto simp: int64_def nat_less_iff)
  from length_digits [OF this] assms show ?thesis by (simp add: format_i_def)
qed

end
