(* ===== verification/Display.thy ===== *)
theory Display
  imports AirportModules Decimal
begin

text \<open>
  The text each module shows in the graphical environment (\<open>refreshDisplay()\<close>): the fixed-size buffers
  \<open>sprintf\<close> writes to, and the bound on the length of the text.
\<close>

section \<open>Buffers\<close>

text \<open>\<open>sprintf\<close> into \<open>char buf[n]\<close>: the text and its terminating zero must fit.\<close>

definition sprintf_buf :: "nat \<Rightarrow> string \<Rightarrow> error + string" where
  "sprintf_buf n str = (if length str < n then Inr str else Inl IndexOutOfRange)"

section \<open>The airport modules\<close>

definition Airspace_refreshDisplay ::
  "('q, Airplane, 'g) omnet \<Rightarrow> ('q, 'g) sim \<Rightarrow> error + string" where
  "Airspace_refreshDisplay K s =
     sprintf_buf 25 (''Queued: '' @ format_u (q_getLength K (holdingQueue (airspace s))))"

definition ParkingArea_refreshDisplay ::
  "('q, Airplane, 'g) omnet \<Rightarrow> ('q, 'g) sim \<Rightarrow> error + string" where
  "ParkingArea_refreshDisplay K s =
     sprintf_buf 50 (''Parked: '' @ format_i (numParked (parkingArea s)) @
                     '' Queued: '' @ format_i (q_getLength K (departQueue (parkingArea s))))"

text \<open>
  (C15) The display text never overruns its buffer: the airspace's text fits its 25 characters
  whatever the queue length, the parking area's fits its 50 characters for every \<open>long\<close> counter and
  \<open>int\<close> queue length.
\<close>

theorem airport_display_fits:
  assumes "int64 (numParked (parkingArea s))" and "int32 (q_getLength K (departQueue (parkingArea s)))"
  shows "(\<exists>t. Airspace_refreshDisplay K s = Inr t) \<and> (\<exists>t. ParkingArea_refreshDisplay K s = Inr t)"
  using length_format_u [of "q_getLength K (holdingQueue (airspace s))"]
    length_format_int64 [OF assms(1)] length_format_int32 [OF assms(2)]
  by (simp add: Airspace_refreshDisplay_def ParkingArea_refreshDisplay_def sprintf_buf_def)

theorem airport_display_fits_witness:
  "let s = undefined\<lparr>parkingArea := undefined\<lparr>numParked := 3, departQueue := []\<rparr>,
                     airspace := undefined\<lparr>holdingQueue := []\<rparr>\<rparr>
   in \<exists>t. ParkingArea_refreshDisplay (list_omnet :: (Airplane list, Airplane, unit) omnet) s = Inr t"
  unfolding Let_def
  by (rule conjunct2, rule airport_display_fits) (simp_all add: int64_def int32_def list_omnet_def)

end
