(* ===== verification/MessageClass.thy ===== *)
theory MessageClass
  imports Display
begin

text \<open>
  The message class \<open>Airplane\<close> as the message compiler generates it (\<open>Airplane_m.cc\<close>): copying, the
  packing and unpacking of messages and standard containers for parallel simulation, printing of
  vectors, and the class descriptor through which the environment inspects and edits the fields.
  The communication buffer and the routines of the element types and of the base class are
  parameters.
\<close>

section \<open>Packing and unpacking\<close>

text \<open>
  A routine pair for one type: \<open>enc\<close> is what packing a value appends to the buffer, \<open>dec\<close> what
  unpacking takes from the front of the buffer (\<open>None\<close>: it throws).
\<close>

record ('a, 'u) codec =
  enc :: "'a \<Rightarrow> 'u list"
  dec :: "'u list \<Rightarrow> ('a \<times> 'u list) option"

text \<open>Conversion of a container's size to \<open>int\<close>.\<close>

definition to_int :: "nat \<Rightarrow> int" where
  "to_int n = (int n + 2 ^ 31) mod 2 ^ 32 - 2 ^ 31"

lemma to_int_small: "n < 2 ^ 31 \<Longrightarrow> to_int n = int n"
  by (simp add: to_int_def)

subsection \<open>\<open>std::vector\<close>\<close>

function pack_index :: "('a, 'u) codec \<Rightarrow> 'a list \<Rightarrow> int \<Rightarrow> int \<Rightarrow> 'u list \<Rightarrow> 'u list" where
  "pack_index C v i n buf = (if i < n then pack_index C v (i + 1) n (buf @ enc C (v ! nat i)) else buf)"
  by pat_completeness auto
termination
  by (relation "measure (\<lambda>(C, v, i, n, buf). nat (n - i))") auto

declare pack_index.simps [simp del]

definition doParsimPacking_vector ::
  "(int, 'u) codec \<Rightarrow> ('a, 'u) codec \<Rightarrow> 'u list \<Rightarrow> 'a list \<Rightarrow> 'u list" where
  "doParsimPacking_vector I C buf v =
     (let n = to_int (length v) in pack_index C v 0 n (buf @ enc I n))"

text \<open>Reading \<open>n\<close> elements, one after the other.\<close>

fun unpack_n :: "('a, 'u) codec \<Rightarrow> nat \<Rightarrow> 'u list \<Rightarrow> ('a list \<times> 'u list) option" where
  "unpack_n C 0 buf = Some ([], buf)"
| "unpack_n C (Suc n) buf =
     (case dec C buf of None \<Rightarrow> None
      | Some (x, buf) \<Rightarrow>
          (case unpack_n C n buf of None \<Rightarrow> None | Some (xs, buf) \<Rightarrow> Some (x # xs, buf)))"

text \<open>\<open>v.resize(n)\<close> throws for a negative count (it is converted to a huge size); every element is
  overwritten.\<close>

definition doParsimUnpacking_vector ::
  "(int, 'u) codec \<Rightarrow> ('a, 'u) codec \<Rightarrow> 'u list \<Rightarrow> 'a list \<Rightarrow> ('a list \<times> 'u list) option" where
  "doParsimUnpacking_vector I C buf v =
     (case dec I buf of None \<Rightarrow> None
      | Some (n, buf) \<Rightarrow> if n < 0 then None else unpack_n C (nat n) buf)"

subsection \<open>\<open>std::list\<close>\<close>

fun pack_all :: "('a, 'u) codec \<Rightarrow> 'u list \<Rightarrow> 'a list \<Rightarrow> 'u list" where
  "pack_all C buf [] = buf"
| "pack_all C buf (x # xs) = pack_all C (buf @ enc C x) xs"

definition doParsimPacking_list ::
  "(int, 'u) codec \<Rightarrow> ('a, 'u) codec \<Rightarrow> 'u list \<Rightarrow> 'a list \<Rightarrow> 'u list" where
  "doParsimPacking_list I C buf l = pack_all C (buf @ enc I (to_int (length l))) l"

text \<open>Unpacking appends to the list passed in, it does not clear it.\<close>

definition doParsimUnpacking_list ::
  "(int, 'u) codec \<Rightarrow> ('a, 'u) codec \<Rightarrow> 'u list \<Rightarrow> 'a list \<Rightarrow> ('a list \<times> 'u list) option" where
  "doParsimUnpacking_list I C buf l =
     (case dec I buf of None \<Rightarrow> None
      | Some (n, buf) \<Rightarrow>
          (case unpack_n C (nat n) buf of None \<Rightarrow> None | Some (xs, buf) \<Rightarrow> Some (l @ xs, buf)))"

subsection \<open>\<open>std::set\<close> and \<open>std::map\<close>\<close>








subsection \<open>Arrays, and types without a routine\<close>

definition doParsimArrayPacking :: "('a, 'u) codec \<Rightarrow> 'u list \<Rightarrow> 'a list \<Rightarrow> int \<Rightarrow> 'u list" where
  "doParsimArrayPacking C b t n = pack_index C t 0 n b"

definition doParsimArrayUnpacking ::
  "('a, 'u) codec \<Rightarrow> 'u list \<Rightarrow> int \<Rightarrow> ('a list \<times> 'u list) option" where
  "doParsimArrayUnpacking C b n = unpack_n C (nat n) b"

section \<open>The class\<close>

definition Airplane_copy :: "Airplane \<Rightarrow> Airplane \<Rightarrow> Airplane" where
  "Airplane_copy this other = this\<lparr>queueArrivalTime := queueArrivalTime other\<rparr>"

text \<open>The copy constructor makes a new object; the base class copies its own fields.\<close>

definition Airplane_copy_new :: "(Airplane \<Rightarrow> simtime) \<Rightarrow> nat \<Rightarrow> Airplane \<Rightarrow> Airplane" where
  "Airplane_copy_new base_copy i other =
     Airplane_copy \<lparr>ident = i, timestamp = base_copy other, queueArrivalTime = 0\<rparr> other"

definition Airplane_assign :: "(Airplane \<Rightarrow> simtime) \<Rightarrow> Airplane \<Rightarrow> Airplane \<Rightarrow> Airplane" where
  "Airplane_assign base_copy this other =
     (if ident this = ident other then this
      else Airplane_copy (this\<lparr>timestamp := base_copy other\<rparr>) other)"

definition Airplane_parsimPack ::
  "(simtime, 'u) codec \<Rightarrow> (simtime, 'u) codec \<Rightarrow> 'u list \<Rightarrow> Airplane \<Rightarrow> 'u list" where
  "Airplane_parsimPack B T b a = (b @ enc B (timestamp a)) @ enc T (queueArrivalTime a)"

definition Airplane_parsimUnpack ::
  "(simtime, 'u) codec \<Rightarrow> (simtime, 'u) codec \<Rightarrow> 'u list \<Rightarrow> Airplane \<Rightarrow> (Airplane \<times> 'u list) option" where
  "Airplane_parsimUnpack B T b a =
     (case dec B b of None \<Rightarrow> None
      | Some (ts, b) \<Rightarrow>
          (case dec T b of None \<Rightarrow> None
           | Some (q, b) \<Rightarrow> Some (a\<lparr>timestamp := ts, queueArrivalTime := q\<rparr>, b)))"

section \<open>Printing of vectors\<close>

fun print_items :: "('a \<Rightarrow> string) \<Rightarrow> bool \<Rightarrow> 'a list \<Rightarrow> string" where
  "print_items show_item first [] = []"
| "print_items show_item first (x # xs) =
     (if first then [] else '', '') @ show_item x @ print_items show_item False xs"

definition print_vector :: "('a \<Rightarrow> string) \<Rightarrow> 'a list \<Rightarrow> error + string" where
  "print_vector show_item vec =
     ebind (sprintf_buf 32 ('' (size='' @ format_u (int (length vec)) @ '')''))
       (\<lambda>buf. Inr (''{'' @ print_items show_item True vec @ ''}'' @ buf))"

section \<open>Round trips\<close>

text \<open>What the code relies on of a pair of routines: unpacking gives back what was packed.\<close>

locale codec_law =
  fixes C :: "('a, 'u) codec"
  assumes dec_enc: "dec C (enc C x @ rest) = Some (x, rest)"
begin

lemma unpack_n_enc: "unpack_n C (length xs) (concat (map (enc C) xs) @ rest) = Some (xs, rest)"
  by (induction xs) (simp_all add: dec_enc)

end

lemma pack_all_eq: "pack_all C buf xs = buf @ concat (map (enc C) xs)"
  by (induction xs arbitrary: buf) auto

lemma pack_index_eq:
  "0 \<le> i \<Longrightarrow> n \<le> int (length v) \<Longrightarrow>
   pack_index C v i n buf = buf @ concat (map (enc C) (drop (nat i) (take (nat n) v)))"
proof (induction C v i n buf rule: pack_index.induct)
  case (1 C v i n buf)
  show ?case
  proof (cases "i < n")
    case True
    with 1 have "nat i < length (take (nat n) v)" by auto
    then have "drop (nat i) (take (nat n) v) = take (nat n) v ! nat i # drop (Suc (nat i)) (take (nat n) v)"
      by (rule Cons_nth_drop_Suc [symmetric])
    moreover have "Suc (nat i) = nat (i + 1)" "take (nat n) v ! nat i = v ! nat i"
      using 1 True by auto
    ultimately show ?thesis using 1 True by (simp add: pack_index.simps [of C v i n buf])
  next
    case False
    then show ?thesis by (simp add: pack_index.simps [of C v i n buf])
  qed
qed


text \<open>A codec of \<open>int\<close> need only be exact on the 32-bit range.\<close>

locale parsim = codec_law C for C :: "('a, 'u) codec" +
  fixes I :: "(int, 'u) codec"
  assumes dec_int: "int32 n \<Longrightarrow> dec I (enc I n @ rest) = Some (n, rest)"
begin

lemma dec_size:
  "length xs < 2 ^ 31 \<Longrightarrow> dec I (enc I (to_int (length xs)) @ rest) = Some (int (length xs), rest)"
  using dec_int [of "int (length xs)"] by (simp add: to_int_small int32_def)

lemma vector_roundtrip:
  assumes "length v < 2 ^ 31"
  shows "doParsimUnpacking_vector I C (doParsimPacking_vector I C [] v @ rest) w = Some (v, rest)"
  using assms dec_size [OF assms]
  by (simp add: doParsimPacking_vector_def doParsimUnpacking_vector_def pack_index_eq to_int_small
      unpack_n_enc Let_def)

lemma list_roundtrip:
  assumes "length l < 2 ^ 31"
  shows "doParsimUnpacking_list I C (doParsimPacking_list I C [] l @ rest) k = Some (k @ l, rest)"
  using assms dec_size [OF assms]
  by (simp add: doParsimPacking_list_def doParsimUnpacking_list_def pack_all_eq to_int_small unpack_n_enc)

end





text \<open>The contract can be met: one buffer unit per integer.\<close>

definition unit_codec :: "('a, 'a) codec" where
  "unit_codec = \<lparr>enc = (\<lambda>n. [n]), dec = (\<lambda>b. case b of [] \<Rightarrow> None | n # r \<Rightarrow> Some (n, r))\<rparr>"

interpretation int_parsim: parsim unit_codec unit_codec
  by unfold_locales (simp_all add: unit_codec_def)



text \<open>
  Packing an airplane and unpacking it into another one transfers its fields: the receiver keeps
  its identity and takes over the timestamp and the queue arrival time, and the rest of the buffer
  is untouched.
\<close>

theorem airplane_parsim_roundtrip:
  assumes "codec_law B" and "codec_law T"
  shows "Airplane_parsimUnpack B T (Airplane_parsimPack B T [] a @ rest) b =
           Some (a\<lparr>ident := ident b\<rparr>, rest)"
  using codec_law.dec_enc [OF assms(1)] codec_law.dec_enc [OF assms(2)]
  by (simp add: Airplane_parsimPack_def Airplane_parsimUnpack_def)

theorem airplane_parsim_roundtrip_witness:
  "Airplane_parsimUnpack unit_codec unit_codec
     (Airplane_parsimPack unit_codec unit_codec [] \<lparr>ident = 1, timestamp = 10, queueArrivalTime = 20\<rparr> @ [3])
     (Airplane_new 4) = Some (\<lparr>ident = 4, timestamp = 10, queueArrivalTime = 20\<rparr>, [3])"
  using airplane_parsim_roundtrip [of unit_codec unit_codec] int_parsim.codec_law_axioms
  by (simp add: Airplane_new_def)

section \<open>The class descriptor\<close>

text \<open>
  The descriptor of the base class, which may be missing; \<open>getBaseClassDescriptor()\<close> returns it.
\<close>

record 'o classdesc =
  cd_propertyNames :: "string list"
  cd_property :: "string \<Rightarrow> string option"
  cd_fieldCount :: int
  cd_fieldTypeFlags :: "int \<Rightarrow> nat"
  cd_fieldName :: "int \<Rightarrow> string option"
  cd_findField :: "string \<Rightarrow> int"
  cd_fieldTypeString :: "int \<Rightarrow> string option"
  cd_fieldPropertyNames :: "int \<Rightarrow> string list option"
  cd_fieldProperty :: "int \<Rightarrow> string \<Rightarrow> string option"
  cd_fieldArraySize :: "'o \<Rightarrow> int \<Rightarrow> int"
  cd_fieldDynamicTypeString :: "'o \<Rightarrow> int \<Rightarrow> int \<Rightarrow> string option"
  cd_getValue :: "'o \<Rightarrow> int \<Rightarrow> int \<Rightarrow> string"
  cd_setValue :: "'o \<Rightarrow> int \<Rightarrow> int \<Rightarrow> string \<Rightarrow> bool \<times> 'o"
  cd_fieldStructName :: "int \<Rightarrow> string option"
  cd_fieldStructPointer :: "'o \<Rightarrow> int \<Rightarrow> int \<Rightarrow> nat option"

type_synonym airplane_base = "Airplane classdesc option"

text \<open>
  Every accessor first offers the field to the base class and then counts from the base class's
  last field.
\<close>

definition own_field :: "airplane_base \<Rightarrow> (Airplane classdesc \<Rightarrow> int \<Rightarrow> 'r) \<Rightarrow> (int \<Rightarrow> 'r) \<Rightarrow> int \<Rightarrow> 'r" where
  "own_field basedesc inherited own field =
     (case basedesc of
        Some d \<Rightarrow> if field < cd_fieldCount d then inherited d field else own (field - cd_fieldCount d)
      | None \<Rightarrow> own field)"

definition AirplaneDescriptor_getPropertyNames ::
  "(string list \<Rightarrow> string list \<Rightarrow> string list) \<Rightarrow> airplane_base \<Rightarrow> string list option
    \<Rightarrow> string list \<times> string list option" where
  "AirplaneDescriptor_getPropertyNames mergeLists basedesc propertynames =
     (case propertynames of
        Some ns \<Rightarrow> (ns, propertynames)
      | None \<Rightarrow>
          let basenames = (case basedesc of Some d \<Rightarrow> cd_propertyNames d | None \<Rightarrow> []);
              ns = mergeLists basenames []
          in (ns, Some ns))"

definition AirplaneDescriptor_getProperty :: "airplane_base \<Rightarrow> string \<Rightarrow> string option" where
  "AirplaneDescriptor_getProperty basedesc p =
     (case basedesc of Some d \<Rightarrow> cd_property d p | None \<Rightarrow> None)"

definition AirplaneDescriptor_getFieldCount :: "airplane_base \<Rightarrow> int" where
  "AirplaneDescriptor_getFieldCount basedesc =
     (case basedesc of Some d \<Rightarrow> 1 + cd_fieldCount d | None \<Rightarrow> 1)"

definition AirplaneDescriptor_getFieldTypeFlags :: "nat \<Rightarrow> airplane_base \<Rightarrow> int \<Rightarrow> nat" where
  "AirplaneDescriptor_getFieldTypeFlags editable basedesc =
     own_field basedesc cd_fieldTypeFlags (\<lambda>field. if 0 \<le> field \<and> field < 1 then editable else 0)"

definition AirplaneDescriptor_getFieldName :: "airplane_base \<Rightarrow> int \<Rightarrow> string option" where
  "AirplaneDescriptor_getFieldName basedesc =
     own_field basedesc cd_fieldName
       (\<lambda>field. if 0 \<le> field \<and> field < 1 then Some ''queueArrivalTime'' else None)"

definition AirplaneDescriptor_findField :: "airplane_base \<Rightarrow> string \<Rightarrow> int" where
  "AirplaneDescriptor_findField basedesc fieldName =
     (let base = (case basedesc of Some d \<Rightarrow> cd_fieldCount d | None \<Rightarrow> 0)
      in if (case fieldName of [] \<Rightarrow> False | c # _ \<Rightarrow> c = CHR ''q'') \<and> fieldName = ''queueArrivalTime''
         then base + 0
         else case basedesc of Some d \<Rightarrow> cd_findField d fieldName | None \<Rightarrow> - 1)"

definition AirplaneDescriptor_getFieldTypeString :: "airplane_base \<Rightarrow> int \<Rightarrow> string option" where
  "AirplaneDescriptor_getFieldTypeString basedesc =
     own_field basedesc cd_fieldTypeString
       (\<lambda>field. if 0 \<le> field \<and> field < 1 then Some ''simtime_t'' else None)"

definition AirplaneDescriptor_getFieldPropertyNames :: "airplane_base \<Rightarrow> int \<Rightarrow> string list option" where
  "AirplaneDescriptor_getFieldPropertyNames basedesc =
     own_field basedesc cd_fieldPropertyNames (\<lambda>field. None)"

definition AirplaneDescriptor_getFieldProperty :: "airplane_base \<Rightarrow> int \<Rightarrow> string \<Rightarrow> string option" where
  "AirplaneDescriptor_getFieldProperty basedesc field p =
     own_field basedesc (\<lambda>d field. cd_fieldProperty d field p) (\<lambda>field. None) field"

definition AirplaneDescriptor_getFieldArraySize :: "airplane_base \<Rightarrow> Airplane \<Rightarrow> int \<Rightarrow> int" where
  "AirplaneDescriptor_getFieldArraySize basedesc pp =
     own_field basedesc (\<lambda>d. cd_fieldArraySize d pp) (\<lambda>field. 0)"

definition AirplaneDescriptor_getFieldDynamicTypeString ::
  "airplane_base \<Rightarrow> Airplane \<Rightarrow> int \<Rightarrow> int \<Rightarrow> string option" where
  "AirplaneDescriptor_getFieldDynamicTypeString basedesc pp field i =
     own_field basedesc (\<lambda>d field. cd_fieldDynamicTypeString d pp field i) (\<lambda>field. None) field"

definition AirplaneDescriptor_getFieldValueAsString ::
  "(simtime \<Rightarrow> string) \<Rightarrow> airplane_base \<Rightarrow> Airplane \<Rightarrow> int \<Rightarrow> int \<Rightarrow> string" where
  "AirplaneDescriptor_getFieldValueAsString simtime2string basedesc pp field i =
     own_field basedesc (\<lambda>d field. cd_getValue d pp field i)
       (\<lambda>field. if field = 0 then simtime2string (getQueueArrivalTime pp) else []) field"

definition AirplaneDescriptor_setFieldValueAsString ::
  "(string \<Rightarrow> simtime) \<Rightarrow> airplane_base \<Rightarrow> Airplane \<Rightarrow> int \<Rightarrow> int \<Rightarrow> string \<Rightarrow> bool \<times> Airplane" where
  "AirplaneDescriptor_setFieldValueAsString string2simtime basedesc pp field i val =
     own_field basedesc (\<lambda>d field. cd_setValue d pp field i val)
       (\<lambda>field. if field = 0 then (True, setQueueArrivalTime (string2simtime val) pp) else (False, pp)) field"

definition AirplaneDescriptor_getFieldStructName :: "airplane_base \<Rightarrow> int \<Rightarrow> string option" where
  "AirplaneDescriptor_getFieldStructName basedesc =
     own_field basedesc cd_fieldStructName (\<lambda>field. None)"

definition AirplaneDescriptor_getFieldStructValuePointer ::
  "airplane_base \<Rightarrow> Airplane \<Rightarrow> int \<Rightarrow> int \<Rightarrow> nat option" where
  "AirplaneDescriptor_getFieldStructValuePointer basedesc pp field i =
     own_field basedesc (\<lambda>d field. cd_fieldStructPointer d pp field i) (\<lambda>field. None) field"

text \<open>
  The descriptor is coherent for every base class: exactly the last of its fields is the one the
  class adds, the field is found under the name it reports, setting it as text succeeds and changes
  nothing but that field, and reading it then gives the text of the value that was set.
\<close>

theorem descriptor_coherent:
  fixes basedesc :: airplane_base
  defines "f \<equiv> AirplaneDescriptor_getFieldCount basedesc - 1"
  shows "AirplaneDescriptor_getFieldName basedesc f = Some ''queueArrivalTime'' \<and>
    AirplaneDescriptor_getFieldName basedesc (f + 1) = None \<and>
    AirplaneDescriptor_findField basedesc ''queueArrivalTime'' = f \<and>
    AirplaneDescriptor_getFieldTypeString basedesc f = Some ''simtime_t'' \<and>
    AirplaneDescriptor_setFieldValueAsString parse basedesc a f i txt =
      (True, a\<lparr>queueArrivalTime := parse txt\<rparr>) \<and>
    AirplaneDescriptor_getFieldValueAsString print basedesc
      (snd (AirplaneDescriptor_setFieldValueAsString parse basedesc a f i txt)) f i = print (parse txt)"
  by (cases basedesc)
    (simp_all add: f_def own_field_def AirplaneDescriptor_getFieldCount_def
      AirplaneDescriptor_getFieldName_def AirplaneDescriptor_findField_def
      AirplaneDescriptor_getFieldTypeString_def AirplaneDescriptor_setFieldValueAsString_def
      AirplaneDescriptor_getFieldValueAsString_def setQueueArrivalTime_def getQueueArrivalTime_def)

end
