(* ===== verification/BarKitchen.thy ===== *)
theory BarKitchen
  imports Display
begin

text \<open>
  The bar exercises: a waitress sends orders to the kitchen, the owner hands each order to one of two
  chefs. There are five versions of the program: \<open>Esercizi/Luigi/Bar\<close> and
  \<open>Esercizi/Riccardo/BarKitchen1\<close> to \<open>BarKitchen4\<close>. The definitions carry the version as a suffix
  (\<open>L\<close>, \<open>1\<close> to \<open>4\<close>). The two chefs with a queue (\<open>L\<close> and \<open>4\<close>) keep the order being cooked in
  different places; they are shown to behave alike.
\<close>

section \<open>Messages, modules, signals\<close>

text \<open>
  \<open>Order\<close> extends \<open>cMessage\<close>, which keeps a creation time of its own, set by its constructor. Version 4
  adds a second attribute of that name to \<open>Order\<close>; the chef reads the one of \<open>cMessage\<close>, the static
  type of its argument.
\<close>

record order =
  order_id :: nat
  cMessage_creationTime :: simtime
  order_index :: double
  order_creationTime :: double

datatype bar_msg = Plain | Ord order

datatype bar_module = Waitress | Owner | Chef nat

datatype bar_signal =
    ArrivalSig | InterArrivalTime | OrderArrival | OrderTime | RemainingTime | NewProcessing | OrderCount

type_synonym 'g bar_kernel = "('g, bar_module, bar_msg, bar_signal) kernel"

text \<open>A message is cast to \<open>Order*\<close> before its index is read.\<close>

fun as_order :: "bar_msg \<Rightarrow> error + order" where
  "as_order (Ord ord) = Inr ord"
| "as_order Plain = Inl NullDereference"

definition bar_net :: "bar_module wiring" where
  "bar_net m gate i =
     (case m of
        Waitress \<Rightarrow> if gate = ''out'' \<and> i = 0 then Some (Owner, ''in'', 0, 0) else None
      | Owner \<Rightarrow> if gate = ''out'' \<and> i = 0 then Some (Chef 0, ''in'', 0, 0)
                 else if gate = ''out'' \<and> i = 1 then Some (Chef 1, ''in'', 0, 0) else None
      | Chef _ \<Rightarrow> None)"

section \<open>Waitresses\<close>

definition Waitress1_initialize ::
  "('q, bar_msg, 'g) omnet \<Rightarrow> 'g bar_kernel \<Rightarrow> error + 'g bar_kernel" where
  "Waitress1_initialize K k =
     (let (d, g) = rng_uniform K (rng k) 0 3 in scheduleAt Waitress (toSimtime K d) Plain (k\<lparr>rng := g\<rparr>))"

definition Waitress1_handleMessage ::
  "('q, bar_msg, 'g) omnet \<Rightarrow> bar_msg \<Rightarrow> 'g bar_kernel \<Rightarrow> error + 'g bar_kernel" where
  "Waitress1_handleMessage K ord k =
     ebind (send bar_net Waitress ''out'' 0 ord k) (\<lambda>k.
       let (d, g) = rng_uniform K (rng k) 0 3
       in scheduleAt Waitress (simTime k + toSimtime K d) Plain (k\<lparr>rng := g\<rparr>))"

text \<open>Versions 3 and 4 prepare the order when its departure is scheduled; \<open>i\<close> is the new object.\<close>

definition Waitress3_initialize ::
  "('q, bar_msg, 'g) omnet \<Rightarrow> nat \<Rightarrow> 'g bar_kernel \<Rightarrow> error + 'g bar_kernel" where
  "Waitress3_initialize K i k =
     (let (x, g) = rng_uniform K (rng k) 0 3;
          (d, g) = rng_uniform K g 0 3
      in scheduleAt Waitress (toSimtime K d)
           (Ord \<lparr>order_id = i, cMessage_creationTime = simTime k, order_index = x, order_creationTime = 0\<rparr>) (k\<lparr>rng := g\<rparr>))"

definition Waitress3_handleMessage ::
  "('q, bar_msg, 'g) omnet \<Rightarrow> nat \<Rightarrow> bar_msg \<Rightarrow> 'g bar_kernel \<Rightarrow> error + 'g bar_kernel" where
  "Waitress3_handleMessage K i ord k =
     ebind (send bar_net Waitress ''out'' 0 ord k) (\<lambda>k.
       let (x, g) = rng_uniform K (rng k) 0 3;
           (d, g) = rng_uniform K g 0 3
       in scheduleAt Waitress (simTime k + toSimtime K d)
            (Ord \<lparr>order_id = i, cMessage_creationTime = simTime k, order_index = x, order_creationTime = 0\<rparr>) (k\<lparr>rng := g\<rparr>))"

definition Waitress4_initialize ::
  "('q, bar_msg, 'g) omnet \<Rightarrow> nat \<Rightarrow> 'g bar_kernel \<Rightarrow> error + 'g bar_kernel" where
  "Waitress4_initialize K i k =
     (let (x, g) = rng_uniform K (rng k) 0 3;
          ord = \<lparr>order_id = i, cMessage_creationTime = simTime k, order_index = x, order_creationTime = 0\<rparr>;
          (d, g) = rng_uniform K g 0 3
      in scheduleAt Waitress (toSimtime K d) (Ord (ord\<lparr>order_creationTime := 0\<rparr>)) (k\<lparr>rng := g\<rparr>))"

definition Waitress4_handleMessage ::
  "('q, bar_msg, 'g) omnet \<Rightarrow> nat \<Rightarrow> bar_msg \<Rightarrow> 'g bar_kernel \<Rightarrow> error + 'g bar_kernel" where
  "Waitress4_handleMessage K i ord k =
     ebind (send bar_net Waitress ''out'' 0 ord k) (\<lambda>k.
       let (x, g) = rng_uniform K (rng k) 0 3;
           newOrd = \<lparr>order_id = i, cMessage_creationTime = simTime k, order_index = x, order_creationTime = 0\<rparr>;
           newOrd = newOrd\<lparr>order_creationTime := fromSimtime K (simTime k)\<rparr>;
           (d, g) = rng_uniform K g 0 3
       in scheduleAt Waitress (simTime k + toSimtime K d) (Ord newOrd) (k\<lparr>rng := g\<rparr>))"

definition WaitressL_initialize ::
  "('q, bar_msg, 'g) omnet \<Rightarrow> 'g bar_kernel \<Rightarrow> error + 'g bar_kernel" where
  "WaitressL_initialize K k =
     (let (d, g) = rng_uniform K (rng k) 0 3
      in scheduleAt Waitress (simTime k + toSimtime K d) Plain (k\<lparr>rng := g\<rparr>))"

definition WaitressL_handleMessage ::
  "('q, bar_msg, 'g) omnet \<Rightarrow> nat \<Rightarrow> 'g bar_kernel \<Rightarrow> error + 'g bar_kernel" where
  "WaitressL_handleMessage K i k =
     (let (d, g) = rng_uniform K (rng k) 0 3
      in ebind (scheduleAt Waitress (simTime k + toSimtime K d) Plain (k\<lparr>rng := g\<rparr>)) (\<lambda>k.
           let (x, g) = rng_uniform K (rng k) 0 3
           in send bar_net Waitress ''out'' 0
                (Ord \<lparr>order_id = i, cMessage_creationTime = simTime k, order_index = x, order_creationTime = 0\<rparr>) (k\<lparr>rng := g\<rparr>)))"

section \<open>Owners\<close>

record owner =
  lastOrderTime :: double
  ownerT :: double

definition Owner1_initialize :: "owner \<Rightarrow> owner" where
  "Owner1_initialize w = w\<lparr>lastOrderTime := 0\<rparr>"

definition Owner1_handleMessage ::
  "('q, bar_msg, 'g) omnet \<Rightarrow> bar_msg \<Rightarrow> owner \<times> 'g bar_kernel \<Rightarrow> owner \<times> 'g bar_kernel" where
  "Owner1_handleMessage K ord = (\<lambda>(w, k).
     let k = emit ArrivalSig (Double (fromSimtime K (simTime k) - lastOrderTime w)) k;
         w = w\<lparr>lastOrderTime := fromSimtime K (simTime k)\<rparr>
     in (w, kcall (Deleted ord) k))"

definition Owner2_initialize :: "double \<Rightarrow> owner \<Rightarrow> owner" where
  "Owner2_initialize T w = w\<lparr>lastOrderTime := 0, ownerT := T\<rparr>"

definition Owner2_handleMessage ::
  "('q, bar_msg, 'g) omnet \<Rightarrow> bar_msg \<Rightarrow> owner \<times> 'g bar_kernel \<Rightarrow> error + owner \<times> 'g bar_kernel" where
  "Owner2_handleMessage K ord = (\<lambda>(w, k).
     let k = emit ArrivalSig (Double (fromSimtime K (simTime k) - lastOrderTime w)) k;
         w = w\<lparr>lastOrderTime := fromSimtime K (simTime k)\<rparr>;
         (v, g) = rng_uniform K (rng k) 0 3;
         k = k\<lparr>rng := g\<rparr>
     in ebind (if v \<le> ownerT w then send bar_net Owner ''out'' 0 ord k else send bar_net Owner ''out'' 1 ord k)
          (\<lambda>k. Inr (w, k)))"

definition Owner3_handleMessage ::
  "('q, bar_msg, 'g) omnet \<Rightarrow> bar_msg \<Rightarrow> owner \<times> 'g bar_kernel \<Rightarrow> error + owner \<times> 'g bar_kernel" where
  "Owner3_handleMessage K msg = (\<lambda>(w, k).
     let k = emit ArrivalSig (Double (fromSimtime K (simTime k) - lastOrderTime w)) k;
         w = w\<lparr>lastOrderTime := fromSimtime K (simTime k)\<rparr>
     in ebind (as_order msg) (\<lambda>ord.
        let v = order_index ord in
        ebind (if v \<le> ownerT w then send bar_net Owner ''out'' 0 msg k else send bar_net Owner ''out'' 1 msg k)
          (\<lambda>k. Inr (w, k))))"

definition OwnerL_initialize :: "('q, bar_msg, 'g) omnet \<Rightarrow> double \<Rightarrow> owner \<times> 'g bar_kernel \<Rightarrow> owner \<times> 'g bar_kernel" where
  "OwnerL_initialize K T = (\<lambda>(w, k). (w\<lparr>ownerT := T, lastOrderTime := fromSimtime K (simTime k)\<rparr>, k))"

definition OwnerL_handleMessage ::
  "('q, bar_msg, 'g) omnet \<Rightarrow> bar_msg \<Rightarrow> owner \<times> 'g bar_kernel \<Rightarrow> error + owner \<times> 'g bar_kernel" where
  "OwnerL_handleMessage K msg = (\<lambda>(w, k).
     let k = emit InterArrivalTime (Double (fromSimtime K (simTime k) - lastOrderTime w)) k;
         w = w\<lparr>lastOrderTime := fromSimtime K (simTime k)\<rparr>
     in ebind (as_order msg) (\<lambda>ord.
        ebind (if order_index ord > ownerT w then send bar_net Owner ''out'' 1 msg k
               else send bar_net Owner ''out'' 0 msg k)
          (\<lambda>k. Inr (w, k))))"

section \<open>Chefs\<close>

record 'q chef =
  chef_no :: nat
  utilizationTime :: double
  serving :: bool
  requestQueue :: 'q

definition Chef2_handleMessage :: "bar_msg \<Rightarrow> 'g bar_kernel \<Rightarrow> 'g bar_kernel" where
  "Chef2_handleMessage msg k = kcall (Deleted msg) (emit OrderArrival (Time (simTime k)) k)"

definition Chef3_initialize :: "'q chef \<Rightarrow> 'q chef" where
  "Chef3_initialize c = c\<lparr>utilizationTime := 0\<rparr>"

definition Chef3_finish :: "'q chef \<Rightarrow> 'g bar_kernel \<Rightarrow> 'g bar_kernel" where
  "Chef3_finish c k = emit RemainingTime (Double (utilizationTime c)) k"

definition Chef3_handleMessage ::
  "bar_msg \<Rightarrow> 'q chef \<times> 'g bar_kernel \<Rightarrow> error + 'q chef \<times> 'g bar_kernel" where
  "Chef3_handleMessage msg = (\<lambda>(c, k).
     let k = emit OrderArrival (Time (simTime k)) k in
     ebind (as_order msg) (\<lambda>ord.
       Inr (c\<lparr>utilizationTime := utilizationTime c + order_index ord\<rparr>, kcall (Deleted msg) k)))"

definition Chef4_initialize :: "('q, bar_msg, 'g) omnet \<Rightarrow> 'q chef \<Rightarrow> 'q chef" where
  "Chef4_initialize K c = c\<lparr>utilizationTime := 0, serving := False, requestQueue := q_new K\<rparr>"

definition Chef4_finish :: "'q chef \<Rightarrow> 'g bar_kernel \<Rightarrow> 'g bar_kernel" where
  "Chef4_finish c k = emit RemainingTime (Double (utilizationTime c)) k"

definition Chef4_handleMessage ::
  "('q, bar_msg, 'g) omnet \<Rightarrow> bool \<Rightarrow> bar_msg \<Rightarrow> 'q chef \<times> 'g bar_kernel
    \<Rightarrow> error + 'q chef \<times> 'g bar_kernel" where
  "Chef4_handleMessage K self msg = (\<lambda>(c, k).
     if self then
       ebind (as_order msg) (\<lambda>ord.
         let k = emit OrderTime (Time (simTime k - cMessage_creationTime ord)) k;
             k = kcall (Deleted msg) k
         in if \<not> q_isEmpty K (requestQueue c) then
              (case q_pop K (requestQueue c) of
                 None \<Rightarrow> Inl EmptyQueuePop
               | Some (m, q) \<Rightarrow>
                   ebind (as_order m) (\<lambda>nextOrd.
                   ebind (scheduleAt (Chef (chef_no c)) (simTime k + toSimtime K (order_index nextOrd)) m k)
                     (\<lambda>k. Inr (c\<lparr>requestQueue := q\<rparr>, k))))
            else Inr (c\<lparr>serving := False\<rparr>, k))
     else
       ebind (as_order msg) (\<lambda>ord.
         let k = emit OrderArrival (Time (simTime k)) k;
             c = c\<lparr>utilizationTime := utilizationTime c + order_index ord\<rparr>
         in ebind
              (if \<not> serving c then
                 ebind (scheduleAt (Chef (chef_no c)) (simTime k + toSimtime K (order_index ord)) msg k)
                   (\<lambda>k. Inr (c\<lparr>serving := True\<rparr>, k))
               else Inr (c\<lparr>requestQueue := q_insert K (requestQueue c) msg\<rparr>, k))
              (\<lambda>(c, k). Inr (c, emit NewProcessing (Long (q_getLength K (requestQueue c))) k))))"

definition ChefL_initialize :: "('q, bar_msg, 'g) omnet \<Rightarrow> 'q chef \<Rightarrow> 'q chef" where
  "ChefL_initialize K c = c\<lparr>requestQueue := q_new K\<rparr>"

definition ChefL_handleMessage ::
  "('q, bar_msg, 'g) omnet \<Rightarrow> bool \<Rightarrow> bar_msg \<Rightarrow> 'q chef \<times> 'g bar_kernel
    \<Rightarrow> error + 'q chef \<times> 'g bar_kernel" where
  "ChefL_handleMessage K self msg = (\<lambda>(c, k).
     if self then
       (case q_pop K (requestQueue c) of
          None \<Rightarrow> Inl EmptyQueuePop
        | Some (m, q) \<Rightarrow>
            let k = emit OrderCount (Long 1) k in
            if \<not> q_isEmpty K q then
              (case q_front K q of
                 None \<Rightarrow> Inl NullDereference
               | Some m' \<Rightarrow>
                   ebind (as_order m') (\<lambda>ord.
                   ebind (scheduleAt (Chef (chef_no c)) (simTime k + toSimtime K (order_index ord)) Plain k)
                     (\<lambda>k. Inr (c\<lparr>requestQueue := q\<rparr>, k))))
            else Inr (c\<lparr>requestQueue := q\<rparr>, k))
     else
       let isEmpty = q_isEmpty K (requestQueue c);
           c = c\<lparr>requestQueue := q_insert K (requestQueue c) msg\<rparr>
       in if isEmpty then
            ebind (as_order msg) (\<lambda>ord.
            ebind (scheduleAt (Chef (chef_no c)) (simTime k + toSimtime K (order_index ord)) Plain k)
              (\<lambda>k. Inr (c, k)))
          else Inr (c, k))"

definition ChefL_finish :: "('q, bar_msg, 'g) omnet \<Rightarrow> 'q chef \<times> 'g bar_kernel \<Rightarrow> 'q chef \<times> 'g bar_kernel" where
  "ChefL_finish K = (\<lambda>(c, k).
     (c\<lparr>requestQueue := q_clear K (requestQueue c)\<rparr>,
      k\<lparr>fes := filter_mset (\<lambda>e. \<not> (isSelfMessage e \<and> ev_module e = Chef (chef_no c))) (fes k)\<rparr>))"

section \<open>The chef as a single server\<close>

locale bar_library = omnetpp K contents
  for K :: "('q, bar_msg, 'g) omnet" and contents :: "'q \<Rightarrow> bar_msg list"

interpretation list_bar: bar_library list_omnet "\<lambda>q. q"
  by (intro bar_library.intro) (rule list_library.omnetpp_axioms)

abbreviation cook_event :: "nat \<Rightarrow> simtime \<Rightarrow> bar_msg \<Rightarrow> (bar_module, bar_msg) event" where
  "cook_event i t m \<equiv> \<lparr>ev_time = t, ev_module = Chef i, ev_gate = None, ev_msg = m\<rparr>"

text \<open>The orders a chef has started to cook, in that order.\<close>

definition cooked :: "(bar_module, bar_msg, bar_signal) call list \<Rightarrow> bar_msg list" where
  "cooked cs = concat (map (\<lambda>c. case c of Scheduled e \<Rightarrow> [ev_msg e] | _ \<Rightarrow> []) cs)"

lemma cooked_simps [simp]:
  "cooked [] = []" "cooked (cs @ ds) = cooked cs @ cooked ds"
  "cooked (c # cs) = (case c of Scheduled e \<Rightarrow> [ev_msg e] | _ \<Rightarrow> []) @ cooked cs"
  by (simp_all add: cooked_def)

text \<open>
  A run of one chef of version 4: orders with a non-negative index arrive at any time, finished
  dishes are delivered when their time has come. The list holds the orders that arrived.
\<close>

inductive chef_run ::
  "('q, bar_msg, 'g) omnet \<Rightarrow> 'q chef \<times> 'g bar_kernel \<Rightarrow> order list \<Rightarrow> 'q chef \<times> 'g bar_kernel \<Rightarrow> bool"
  for K s0 where
  begin_shift: "chef_run K s0 [] s0"
| arriving: "chef_run K s0 os (c, k) \<Longrightarrow> simTime k \<le> t \<Longrightarrow> \<forall>e\<in>#fes k. t \<le> ev_time e \<Longrightarrow>
    0 \<le> order_index ord \<Longrightarrow> Chef4_handleMessage K False (Ord ord) (c, k\<lparr>simTime := t\<rparr>) = Inr s' \<Longrightarrow>
    chef_run K s0 (os @ [ord]) s'"
| finishing: "chef_run K s0 os (c, k) \<Longrightarrow> earliest e k \<Longrightarrow>
    Chef4_handleMessage K True (ev_msg e) (c, begin_event e k) = Inr s' \<Longrightarrow> chef_run K s0 os s'"

definition chef_inv :: "('q \<Rightarrow> bar_msg list) \<Rightarrow> order list \<Rightarrow> 'q chef \<times> 'g bar_kernel \<Rightarrow> bool" where
  "chef_inv contents os = (\<lambda>(c, k).
     cooked (calls k) @ contents (requestQueue c) = map Ord os \<and>
     utilizationTime c = sum_list (map order_index os) \<and> (\<forall>ord\<in>set os. 0 \<le> order_index ord) \<and>
     (\<not> serving c \<longrightarrow> contents (requestQueue c) = []) \<and>
     (if serving c then \<exists>t ord. fes k = {#cook_event (chef_no c) t (Ord ord)#} \<and> simTime k \<le> t
      else fes k = {#}))"

context bar_library
begin

lemma chef_arrival_ok:
  assumes inv: "chef_inv contents os (c, k)" and t: "simTime k \<le> t" "\<forall>e\<in>#fes k. t \<le> ev_time e"
    and ix: "0 \<le> order_index ord"
  shows "\<exists>s'. Chef4_handleMessage K False (Ord ord) (c, k\<lparr>simTime := t\<rparr>) = Inr s' \<and>
           chef_inv contents (os @ [ord]) s'"
  using assms toSimtime_nonneg [OF ix]
  by (cases "serving c")
    (auto simp: Chef4_handleMessage_def chef_inv_def Let_def scheduleAt_def contents_insert)

lemma chef_finish_ok:
  assumes inv: "chef_inv contents os (c, k)" and e: "earliest e k"
  shows "\<exists>s'. Chef4_handleMessage K True (ev_msg e) (c, begin_event e k) = Inr s' \<and> chef_inv contents os s'"
proof -
  from e have "e \<in># fes k" by (simp add: earliest_def)
  with inv obtain t ord where sv: "serving c" and ev: "e = cook_event (chef_no c) t (Ord ord)"
    and fes: "fes k = {#e#}" by (auto simp: chef_inv_def split: if_splits)
  show ?thesis
  proof (cases "contents (requestQueue c)")
    case Nil
    with inv sv ev fes show ?thesis
      by (auto simp: Chef4_handleMessage_def chef_inv_def Let_def isEmpty_contents)
  next
    case (Cons m ms)
    from pop_Cons [OF this] obtain q where q: "q_pop K (requestQueue c) = Some (m, q)" "contents q = ms"
      by blast
    from inv Cons have "m \<in> set (map Ord os)" by (auto simp: chef_inv_def simp flip: set_map)
        (metis in_set_conv_decomp)
    then obtain ord' where m: "m = Ord ord'" and "0 \<le> order_index ord'"
      using inv by (auto simp: chef_inv_def)
    then have "0 \<le> toSimtime K (order_index ord')" by (simp add: toSimtime_nonneg)
    with inv sv ev fes q Cons m show ?thesis
      by (auto simp: Chef4_handleMessage_def chef_inv_def Let_def isEmpty_contents scheduleAt_def)
  qed
qed

lemma chef_run_inv: "chef_run K s os s' \<Longrightarrow> chef_inv contents [] s \<Longrightarrow> chef_inv contents os s'"
proof (induction rule: chef_run.induct)
  case begin_shift
  then show ?case .
next
  case (arriving os c k t ord s')
  from chef_arrival_ok [OF arriving.IH [OF arriving.prems] arriving.hyps(2-4)] arriving.hyps(5)
  show ?case by simp
next
  case (finishing os c k e s')
  from chef_finish_ok [OF finishing.IH [OF finishing.prems] finishing.hyps(2)] finishing.hyps(3)
  show ?case by simp
qed

end

text \<open>
  (C12) A chef of version 4 cooks one dish at a time, in the order of arrival: in every reachable
  state of a chef that opened with an empty kitchen, the orders started so far followed by the
  queue are the orders that arrived, one dish is under way exactly while \<open>serving\<close> is set, nobody
  waits for an idle chef, and \<open>utilizationTime\<close> is the sum of the indices of all orders received.
\<close>

theorem chef_single_server:
  assumes "bar_library K contents" and "chef_run K s os (c, k)" and "chef_inv contents [] s"
  shows "cooked (calls k) @ contents (requestQueue c) = map Ord os \<and>
         size (fes k) = (if serving c then 1 else 0) \<and>
         (serving c \<or> contents (requestQueue c) = []) \<and>
         utilizationTime c = sum_list (map order_index os)"
  using bar_library.chef_run_inv [OF assms] by (auto simp: chef_inv_def split: if_splits)

definition chef_blank :: "bar_msg list chef" where
  "chef_blank = Chef4_initialize (list_omnet :: (bar_msg list, bar_msg, unit) omnet)
     \<lparr>chef_no = 0, utilizationTime = 9, serving = True, requestQueue = []\<rparr>"

definition bar_blank :: "unit bar_kernel" where
  "bar_blank = \<lparr>simTime = 0, fes = {#}, rng = (), calls = [], halted = False\<rparr>"

definition some_order :: "nat \<Rightarrow> order" where
  "some_order i = \<lparr>order_id = i, cMessage_creationTime = 0, order_index = 2, order_creationTime = 0\<rparr>"

lemma chef_blank_inv: "chef_inv (\<lambda>q. q) [] (chef_blank, bar_blank)"
  by (simp add: chef_inv_def chef_blank_def bar_blank_def Chef4_initialize_def list_omnet_def)

theorem chef_single_server_witness:
  "\<exists>c k. chef_run list_omnet (chef_blank, bar_blank) [some_order 7] (c, k) \<and>
     cooked (calls k) @ requestQueue c = [Ord (some_order 7)]"
proof -
  from list_bar.chef_arrival_ok [OF chef_blank_inv, of 5 "some_order 7"] obtain c k where
    h: "Chef4_handleMessage list_omnet False (Ord (some_order 7)) (chef_blank, bar_blank\<lparr>simTime := 5\<rparr>) = Inr (c, k)"
    by (fastforce simp: bar_blank_def some_order_def)
  have "chef_run list_omnet (chef_blank, bar_blank) ([] @ [some_order 7]) (c, k)"
    by (rule chef_run.arriving [OF chef_run.begin_shift _ _ _ h]) (simp_all add: bar_blank_def some_order_def)
  with chef_single_server [OF list_bar.bar_library_axioms this chef_blank_inv] show ?thesis by auto
qed

section \<open>The two chefs with a queue\<close>

text \<open>
  Version \<open>L\<close> leaves the order being cooked at the front of its queue and rings a bell; version 4
  takes it out of the queue and schedules it as a message to itself.
\<close>

definition chef_rel ::
  "('q \<Rightarrow> bar_msg list) \<Rightarrow> 'q chef \<times> 'g bar_kernel \<Rightarrow> 'q chef \<times> 'g bar_kernel \<Rightarrow> bool" where
  "chef_rel contents = (\<lambda>(cl, kl) (c4, k4).
     chef_no cl = chef_no c4 \<and> simTime kl = simTime k4 \<and>
     (\<forall>m\<in>set (contents (requestQueue cl)). \<exists>ord. m = Ord ord \<and> 0 \<le> order_index ord) \<and>
     (if serving c4 then
        \<exists>ord t. contents (requestQueue cl) = Ord ord # contents (requestQueue c4) \<and> simTime k4 \<le> t \<and>
          fes kl = {#cook_event (chef_no cl) t Plain#} \<and> fes k4 = {#cook_event (chef_no cl) t (Ord ord)#}
      else contents (requestQueue cl) = [] \<and> contents (requestQueue c4) = [] \<and> fes kl = {#} \<and> fes k4 = {#}))"

context bar_library
begin

lemma chef_rel_arrival:
  assumes rel: "chef_rel contents (cl, kl) (c4, k4)" and t: "simTime k4 \<le> t" "\<forall>e\<in>#fes k4. t \<le> ev_time e"
    and ix: "0 \<le> order_index ord"
  shows "\<exists>sl s4. ChefL_handleMessage K False (Ord ord) (cl, kl\<lparr>simTime := t\<rparr>) = Inr sl \<and>
           Chef4_handleMessage K False (Ord ord) (c4, k4\<lparr>simTime := t\<rparr>) = Inr s4 \<and> chef_rel contents sl s4"
  using assms toSimtime_nonneg [OF ix]
  by (cases "serving c4")
    (auto simp: chef_rel_def ChefL_handleMessage_def Chef4_handleMessage_def Let_def scheduleAt_def
      isEmpty_contents contents_insert)

lemma chef_rel_finish:
  assumes rel: "chef_rel contents (cl, kl) (c4, k4)" and e: "e \<in># fes kl" and e4: "e4 \<in># fes k4"
  shows "ev_time e = ev_time e4 \<and>
         (\<exists>sl s4. ChefL_handleMessage K True (ev_msg e) (cl, begin_event e kl) = Inr sl \<and>
           Chef4_handleMessage K True (ev_msg e4) (c4, begin_event e4 k4) = Inr s4 \<and> chef_rel contents sl s4)"
proof -
  from rel e obtain ord t where sv: "serving c4"
    and q: "contents (requestQueue cl) = Ord ord # contents (requestQueue c4)"
    and f: "fes kl = {#cook_event (chef_no cl) t Plain#}" "fes k4 = {#cook_event (chef_no cl) t (Ord ord)#}"
    by (auto simp: chef_rel_def split: if_splits)
  from f e e4 have ev: "e = cook_event (chef_no cl) t Plain" "e4 = cook_event (chef_no cl) t (Ord ord)" by auto
  from pop_Cons [OF q] obtain ql where
    ql: "q_pop K (requestQueue cl) = Some (Ord ord, ql)" "contents ql = contents (requestQueue c4)" by blast
  show ?thesis
  proof (cases "contents (requestQueue c4)")
    case Nil
    with rel sv q f ev ql show ?thesis
      by (auto simp: chef_rel_def ChefL_handleMessage_def Chef4_handleMessage_def Let_def isEmpty_contents)
  next
    case (Cons m ms)
    from pop_Cons [OF this] obtain q4 where
      q4: "q_pop K (requestQueue c4) = Some (m, q4)" "contents q4 = ms" by blast
    from rel q Cons obtain ord' where m: "m = Ord ord'" "0 \<le> order_index ord'"
      by (auto simp: chef_rel_def)
    with toSimtime_nonneg have "0 \<le> toSimtime K (order_index ord')" by simp
    moreover have "q_front K ql = Some m" using ql(2) Cons by (simp add: front_Cons)
    ultimately show ?thesis using rel sv q f ev ql q4 Cons m
      by (auto simp: chef_rel_def ChefL_handleMessage_def Chef4_handleMessage_def Let_def isEmpty_contents
          scheduleAt_def)
  qed
qed

end

text \<open>
  The two chefs behave alike: from corresponding states, an order that arrives at the same time
  and the completion of the dish under way lead to corresponding states, with dishes finishing at
  the same times; neither version fails.
\<close>

theorem chefs_equivalent:
  assumes "bar_library K contents" and "chef_rel contents (cl, kl) (c4, k4)"
  shows "(\<forall>t ord. simTime k4 \<le> t \<and> (\<forall>e\<in>#fes k4. t \<le> ev_time e) \<and> 0 \<le> order_index ord \<longrightarrow>
       (\<exists>sl s4. ChefL_handleMessage K False (Ord ord) (cl, kl\<lparr>simTime := t\<rparr>) = Inr sl \<and>
          Chef4_handleMessage K False (Ord ord) (c4, k4\<lparr>simTime := t\<rparr>) = Inr s4 \<and> chef_rel contents sl s4)) \<and>
    (\<forall>e e4. e \<in># fes kl \<and> e4 \<in># fes k4 \<longrightarrow> ev_time e = ev_time e4 \<and>
       (\<exists>sl s4. ChefL_handleMessage K True (ev_msg e) (cl, begin_event e kl) = Inr sl \<and>
          Chef4_handleMessage K True (ev_msg e4) (c4, begin_event e4 k4) = Inr s4 \<and> chef_rel contents sl s4))"
  using bar_library.chef_rel_arrival [OF assms] bar_library.chef_rel_finish [OF assms] by blast

theorem chefs_equivalent_witness:
  "\<exists>sl s4. ChefL_handleMessage list_omnet False (Ord (some_order 1)) (chef_blank, bar_blank) = Inr sl \<and>
     Chef4_handleMessage list_omnet False (Ord (some_order 1)) (chef_blank, bar_blank) = Inr s4 \<and>
     chef_rel (\<lambda>q. q) sl s4"
proof -
  have "chef_rel (\<lambda>q. q) (chef_blank, bar_blank) (chef_blank, bar_blank)"
    by (simp add: chef_rel_def chef_blank_def bar_blank_def Chef4_initialize_def list_omnet_def)
  from chefs_equivalent [OF list_bar.bar_library_axioms this, THEN conjunct1, rule_format, of 0 "some_order 1"]
  show ?thesis by (simp add: bar_blank_def some_order_def)
qed

section \<open>The owners\<close>

text \<open>
  (C23) The owners of versions \<open>L\<close>, 3 and 4 agree and route by the threshold: an order with an index of
  at most \<open>T\<close> goes to the first chef, any other to the second, at once and unchanged; the recorded
  inter-arrival time is the time since the last order.
\<close>

theorem owner_routes_by_threshold:
  "\<exists>kl k3. OwnerL_handleMessage K (Ord ord) (w, k) = Inr (w\<lparr>lastOrderTime := fromSimtime K (simTime k)\<rparr>, kl) \<and>
     Owner3_handleMessage K (Ord ord) (w, k) = Inr (w\<lparr>lastOrderTime := fromSimtime K (simTime k)\<rparr>, k3) \<and>
     fes kl = fes k3 \<and>
     fes k3 = add_mset \<lparr>ev_time = simTime k, ev_module = Chef (if order_index ord \<le> ownerT w then 0 else 1),
                        ev_gate = Some (''in'', 0), ev_msg = Ord ord\<rparr> (fes k) \<and>
     samples InterArrivalTime (calls kl) =
       samples InterArrivalTime (calls k) @ [Double (fromSimtime K (simTime k) - lastOrderTime w)] \<and>
     samples ArrivalSig (calls k3) =
       samples ArrivalSig (calls k) @ [Double (fromSimtime K (simTime k) - lastOrderTime w)]"
  by (simp add: OwnerL_handleMessage_def Owner3_handleMessage_def Let_def send_def sendDelayed_def
      bar_net_def)

end
