(* ===== verification/Network.thy ===== *)
theory Network
  imports Omnet
begin

text \<open>
  Runs of a network of modules under the simulation kernel, for any delivery function, and the proof
  rule for invariants of such runs. The exercise networks use it.
\<close>

section \<open>Runs\<close>

text \<open>
  The state is the states of all modules together with the kernel. A step delivers one of the
  earliest pending messages; \<open>deliver\<close> runs the handler of the module it is addressed to.
\<close>

inductive net_run ::
  "(('d, 'm) event \<Rightarrow> 'st \<times> ('g, 'd, 'm, 's) kernel \<Rightarrow> error + 'st \<times> ('g, 'd, 'm, 's) kernel)
    \<Rightarrow> 'st \<times> ('g, 'd, 'm, 's) kernel \<Rightarrow> 'st \<times> ('g, 'd, 'm, 's) kernel \<Rightarrow> bool"
  for deliver s0 where
  net_start: "net_run deliver s0 s0"
| net_step: "net_run deliver s0 (s, k) \<Longrightarrow> \<not> halted k \<Longrightarrow> earliest e k \<Longrightarrow>
    deliver e (s, begin_event e k) = Inr s' \<Longrightarrow> net_run deliver s0 s'"

text \<open>
  A predicate that every delivery keeps, where no delivery throws, holds throughout every run, and
  no run ends in an exception.
\<close>

locale network_invariant =
  fixes deliver :: "('d, 'm) event \<Rightarrow> 'st \<times> ('g, 'd, 'm, 's) kernel \<Rightarrow> error + 'st \<times> ('g, 'd, 'm, 's) kernel"
    and Inv :: "'st \<times> ('g, 'd, 'm, 's) kernel \<Rightarrow> bool"
  assumes step_ok: "Inv (s, k) \<Longrightarrow> earliest e k \<Longrightarrow>
    \<exists>s'. deliver e (s, begin_event e k) = Inr s' \<and> Inv s'"
begin

lemma run_inv: "net_run deliver s0 s \<Longrightarrow> Inv s0 \<Longrightarrow> Inv s"
proof (induction rule: net_run.induct)
  case (net_step s k e s')
  with step_ok [of s k e] show ?case by auto
qed

lemma run_never_fails:
  assumes "net_run deliver s0 (s, k)" and "Inv s0" and "earliest e k"
  shows "\<exists>s'. deliver e (s, begin_event e k) = Inr s'"
  using step_ok [OF run_inv [OF assms(1,2)] assms(3)] by blast

end

section \<open>The remainder of C++\<close>

text \<open>\<open>a % b\<close> has the sign of \<open>a\<close>.\<close>

definition c_rem :: "int \<Rightarrow> int \<Rightarrow> int" where
  "c_rem a b = sgn a * (\<bar>a\<bar> mod \<bar>b\<bar>)"

lemma c_rem_nonneg: "0 \<le> a \<Longrightarrow> 0 < b \<Longrightarrow> c_rem a b = a mod b"
  by (cases "a = 0") (simp_all add: c_rem_def)

section \<open>Counting pending messages\<close>

definition pending :: "(('d, 'm) event \<Rightarrow> bool) \<Rightarrow> ('d, 'm) event multiset \<Rightarrow> int" where
  "pending P M = int (size (filter_mset P M))"

lemma pending_simps [simp]:
  "pending P {#} = 0" "pending P (add_mset e M) = (if P e then 1 else 0) + pending P M"
  by (simp_all add: pending_def)

lemma pending_remove: "e \<in># M \<Longrightarrow> pending P (M - {#e#}) = pending P M - (if P e then 1 else 0)"
  using size_filter_remove [of e M P] by (auto simp: pending_def split: if_splits)

lemma pending_nonneg: "0 \<le> pending P M"
  by (simp add: pending_def)

lemma pending_pos: "e \<in># M \<Longrightarrow> P e \<Longrightarrow> 1 \<le> pending P M"
  using pending_remove [of e M P] pending_nonneg [of P "M - {#e#}"] by simp

definition on_gate :: "'d \<Rightarrow> ('d, 'm) event \<Rightarrow> bool" where
  "on_gate m e \<longleftrightarrow> ev_module e = m \<and> ev_gate e \<noteq> None"

definition self_of :: "'d \<Rightarrow> ('d, 'm) event \<Rightarrow> bool" where
  "self_of m e \<longleftrightarrow> ev_module e = m \<and> ev_gate e = None"

text \<open>The time samples of a signal, added up.\<close>

fun time_of :: "sample \<Rightarrow> simtime" where
  "time_of (Time t) = t"
| "time_of v = 0"

definition total_time :: "sample list \<Rightarrow> simtime" where
  "total_time vs = sum_list (map time_of vs)"

lemma total_time_simps [simp]:
  "total_time [] = 0" "total_time (vs @ ws) = total_time vs + total_time ws"
  "total_time (v # vs) = time_of v + total_time vs"
  by (simp_all add: total_time_def)

text \<open>Pending messages never lie in the past.\<close>

definition timely :: "('g, 'd, 'm, 's) kernel \<Rightarrow> bool" where
  "timely k \<longleftrightarrow> (\<forall>e\<in>#fes k. simTime k \<le> ev_time e)"

lemma Ball_remove: "\<forall>x\<in>#M. P x \<Longrightarrow> \<forall>x\<in>#M - {#e#}. P x"
  by (auto dest: in_diffD)

lemma earliestD: "earliest e k \<Longrightarrow> e \<in># fes k"
  by (simp add: earliest_def)

lemma timely_begin: "earliest e k \<Longrightarrow> timely (begin_event e k)"
  by (auto simp: timely_def earliest_def dest: in_diffD)

lemma send_ok:
  assumes "net m gate i = Some (dest, g, j, chan)"
  shows "send net m gate i msg k =
    Inr ((kcall (Sent \<lparr>ev_time = simTime k + chan, ev_module = dest, ev_gate = Some (g, j), ev_msg = msg\<rparr>) k)
      \<lparr>fes := add_mset \<lparr>ev_time = simTime k + chan, ev_module = dest, ev_gate = Some (g, j), ev_msg = msg\<rparr> (fes k)\<rparr>)"
  using assms by (simp add: send_def sendDelayed_def Let_def)

lemma scheduleAt_ok:
  assumes "simTime k \<le> t"
  shows "scheduleAt m t msg k =
    Inr ((kcall (Scheduled \<lparr>ev_time = t, ev_module = m, ev_gate = None, ev_msg = msg\<rparr>) k)
      \<lparr>fes := add_mset \<lparr>ev_time = t, ev_module = m, ev_gate = None, ev_msg = msg\<rparr> (fes k)\<rparr>)"
  using assms by (simp add: scheduleAt_def Let_def)

end
