(* ===== verification/TicToc.thy ===== *)
theory TicToc
  imports Network Display
begin

text \<open>
  The tic-toc exercises: two modules bounce messages, directly (\<open>Esercizi/Riccardo/tictoc\<close>) or through
  a hub (\<open>Esercizi/Riccardo/tichubtoc\<close>, \<open>Esercizi/Luigi/mytictoc\<close>). The definitions carry \<open>R\<close>, \<open>H\<close> and
  \<open>L\<close> as a suffix for the three programs. Counters are read as integers without bound.
\<close>

datatype tt_module = Tic | Toc | TheHub

datatype tt_signal = MsgArrived tt_module | MsgCount tt_module | InterProcTime tt_module

type_synonym 'g tt_kernel = "('g, tt_module, string, tt_signal) kernel"

abbreviation tictocMsg :: string where
  "tictocMsg \<equiv> ''tictocMsg''"

section \<open>Tic and toc, directly connected\<close>

definition tictoc_net :: "simtime \<Rightarrow> tt_module wiring" where
  "tictoc_net delay m gate i =
     (if gate = ''out'' \<and> i = 0 then
        (case m of Tic \<Rightarrow> Some (Toc, ''in'', 0, delay) | Toc \<Rightarrow> Some (Tic, ''in'', 0, delay) | TheHub \<Rightarrow> None)
      else None)"

text \<open>
  The parameters of a module; \<open>counter\<close> is a parameter that the module itself updates and is kept in
  its state.
\<close>

record txcR_par =
  sendInitialMessage :: bool
  process :: bool
  processTime :: double

record txcR =
  counter :: int

definition TxcR_initialize ::
  "tt_module wiring \<Rightarrow> txcR_par \<Rightarrow> tt_module \<Rightarrow> 'g tt_kernel \<Rightarrow> error + 'g tt_kernel" where
  "TxcR_initialize net p m k =
     (if sendInitialMessage p then send net m ''out'' 0 tictocMsg k else Inr k)"

definition TxcR_handleMessage ::
  "('q, string, 'g) omnet \<Rightarrow> tt_module wiring \<Rightarrow> txcR_par \<Rightarrow> tt_module \<Rightarrow> bool \<Rightarrow> string
    \<Rightarrow> txcR \<times> 'g tt_kernel \<Rightarrow> error + txcR \<times> 'g tt_kernel" where
  "TxcR_handleMessage K net p m self msg = (\<lambda>(x, k).
     if self then
       ebind (send net m ''out'' 0 msg k) (\<lambda>k. Inr (x, k))
     else
       let count = counter x;
           count = count + 1;
           x = x\<lparr>counter := count\<rparr>
       in if process p then
            let (d, g) = (if m = Tic then rng_exponential K (rng k) 2 0 else (processTime p, rng k));
                k = k\<lparr>rng := g\<rparr>
            in ebind (scheduleAt m (simTime k + toSimtime K d) msg k) (\<lambda>k. Inr (x, k))
          else
            ebind (send net m ''out'' 0 msg k) (\<lambda>k. Inr (x, k)))"

text \<open>The network: both modules are initialized in order, then messages are delivered.\<close>

definition tictocR_start ::
  "simtime \<Rightarrow> (tt_module \<Rightarrow> txcR_par) \<Rightarrow> 'g tt_kernel \<Rightarrow> error + (tt_module \<Rightarrow> txcR) \<times> 'g tt_kernel" where
  "tictocR_start delay P k =
     ebind (TxcR_initialize (tictoc_net delay) (P Tic) Tic k) (\<lambda>k.
     ebind (TxcR_initialize (tictoc_net delay) (P Toc) Toc k) (\<lambda>k.
       Inr (\<lambda>_. \<lparr>counter = 0\<rparr>, k)))"

definition tictocR_deliver ::
  "('q, string, 'g) omnet \<Rightarrow> simtime \<Rightarrow> (tt_module \<Rightarrow> txcR_par) \<Rightarrow> (tt_module, string) event
    \<Rightarrow> (tt_module \<Rightarrow> txcR) \<times> 'g tt_kernel \<Rightarrow> error + (tt_module \<Rightarrow> txcR) \<times> 'g tt_kernel" where
  "tictocR_deliver K delay P e = (\<lambda>(X, k).
     let m = ev_module e in
     ebind (TxcR_handleMessage K (tictoc_net delay) (P m) m (isSelfMessage e) (ev_msg e) (X m, k))
       (\<lambda>(x, k). Inr (X(m := x), k)))"

text \<open>
  The books of the two modules: what one has received and what is flying to it or still being
  processed by the other is what the other has received, plus its initial message.
\<close>

definition initial :: "(tt_module \<Rightarrow> txcR_par) \<Rightarrow> tt_module \<Rightarrow> int" where
  "initial P m = (if sendInitialMessage (P m) then 1 else 0)"

definition tictocR_inv :: "(tt_module \<Rightarrow> txcR_par) \<Rightarrow> (tt_module \<Rightarrow> txcR) \<times> 'g tt_kernel \<Rightarrow> bool" where
  "tictocR_inv P = (\<lambda>(X, k).
     timely k \<and> (\<forall>e\<in>#fes k. ev_module e \<noteq> TheHub) \<and>
     counter (X Toc) + pending (on_gate Toc) (fes k) + pending (self_of Tic) (fes k)
       = counter (X Tic) + initial P Tic \<and>
     counter (X Tic) + pending (on_gate Tic) (fes k) + pending (self_of Toc) (fes k)
       = counter (X Toc) + initial P Toc)"

locale tictoc_library = omnetpp K contents
  for K :: "('q, string, 'g) omnet" and contents :: "'q \<Rightarrow> string list" +
  fixes delay :: simtime and P :: "tt_module \<Rightarrow> txcR_par"
  assumes delay_nonneg: "0 \<le> delay" and processTime_nonneg: "0 \<le> processTime (P m)"
begin

lemma process_nonneg:
  "(if m = Tic then rng_exponential K g 2 0 else (processTime (P m), g)) = (d, g') \<Longrightarrow> 0 \<le> toSimtime K d"
  using exponential_nonneg [of 2 g 0] processTime_nonneg [of m]
  by (auto intro!: toSimtime_nonneg split: if_splits)

lemma tictocR_step:
  assumes inv: "tictocR_inv P (X, k)" and e: "earliest e k"
  shows "\<exists>s'. tictocR_deliver K delay P e (X, begin_event e k) = Inr s' \<and> tictocR_inv P s'"
proof -
  from e have in_fes: "e \<in># fes k" by (rule earliestD)
  from inv in_fes have m: "ev_module e = Tic \<or> ev_module e = Toc"
    by (cases "ev_module e") (auto simp: tictocR_inv_def)
  obtain d g where dg: "(if ev_module e = Tic then rng_exponential K (rng k) 2 0
      else (processTime (P (ev_module e)), rng k)) = (d, g)" by fastforce
  note nonneg = process_nonneg [OF dg]
  have others: "\<forall>x\<in>#fes k - {#e#}. ev_module x \<noteq> TheHub"
    using inv by (intro Ball_remove) (simp add: tictocR_inv_def)
  show ?thesis
    using inv m dg nonneg delay_nonneg timely_begin [OF e] in_fes others
    by (auto simp: tictocR_deliver_def TxcR_handleMessage_def Let_def isSelfMessage_def send_ok
        tictoc_net_def scheduleAt_ok tictocR_inv_def timely_def pending_remove on_gate_def self_of_def
        split: prod.splits)
qed

lemma tictocR_start_inv:
  assumes "fes k0 = {#}" and "tictocR_start delay P k0 = Inr s"
  shows "tictocR_inv P s"
  using assms delay_nonneg
  by (auto simp: tictocR_start_def TxcR_initialize_def send_ok tictoc_net_def tictocR_inv_def timely_def
      initial_def on_gate_def self_of_def split: if_splits)

end

sublocale tictoc_library \<subseteq> balls: network_invariant "tictocR_deliver K delay P" "tictocR_inv P"
  by unfold_locales (rule tictocR_step)

context tictoc_library
begin

lemmas tictocR_run = balls.run_inv [OF _ tictocR_start_inv] balls.run_never_fails [OF _ tictocR_start_inv]

end

definition plain_txc :: "tt_module \<Rightarrow> txcR_par" where
  "plain_txc m = \<lparr>sendInitialMessage = (m = Tic), process = True, processTime = 2\<rparr>"

interpretation list_tictoc: tictoc_library list_omnet "\<lambda>q. q" 1 plain_txc
  by (intro tictoc_library.intro tictoc_library_axioms.intro)
    (auto simp: plain_txc_def intro: list_library.omnetpp_axioms)

lemma size_directions:
  "\<forall>e\<in>#M. ev_module e \<noteq> TheHub \<Longrightarrow>
   int (size M) = pending (on_gate Tic) M + pending (self_of Tic) M + pending (on_gate Toc) M + pending (self_of Toc) M"
proof (induction M)
  case (add e M)
  then show ?case by (cases "ev_module e") (auto simp: on_gate_def self_of_def)
qed simp

text \<open>
  In every run of the directly connected network the number of messages in flight or in
  processing stays the number of initial messages, the two counters never drift apart by more than
  the initial messages, and no handler throws.
\<close>

theorem tictoc_counters:
  assumes "tictoc_library K contents delay P" and "fes k0 = {#}"
    and "tictocR_start delay P k0 = Inr s0" and "net_run (tictocR_deliver K delay P) s0 (X, k)"
  shows "int (size (fes k)) = initial P Tic + initial P Toc \<and>
         - initial P Toc \<le> counter (X Toc) - counter (X Tic) \<and>
         counter (X Toc) - counter (X Tic) \<le> initial P Tic \<and>
         (\<forall>e. earliest e k \<longrightarrow> (\<exists>s'. tictocR_deliver K delay P e (X, begin_event e k) = Inr s'))"
proof -
  note run = tictoc_library.tictocR_run [OF assms(1,4,2,3)]
  from run(1) size_directions [of "fes k"]
    pending_nonneg [of "on_gate Tic" "fes k"] pending_nonneg [of "self_of Tic" "fes k"]
    pending_nonneg [of "on_gate Toc" "fes k"] pending_nonneg [of "self_of Toc" "fes k"]
  have "int (size (fes k)) = initial P Tic + initial P Toc \<and>
    - initial P Toc \<le> counter (X Toc) - counter (X Tic) \<and> counter (X Toc) - counter (X Tic) \<le> initial P Tic"
    by (auto simp: tictocR_inv_def)
  with run(2) show ?thesis by blast
qed

definition tt_blank :: "unit tt_kernel" where
  "tt_blank = \<lparr>simTime = 0, fes = {#}, rng = (), calls = [], halted = False\<rparr>"

theorem tictoc_counters_witness:
  "\<exists>X k. tictocR_start 1 plain_txc tt_blank = Inr (X, k) \<and> size (fes k) = 1 \<and>
     (\<exists>X' k'. net_run (tictocR_deliver list_omnet 1 plain_txc) (X, k) (X', k') \<and> counter (X' Toc) = 1 \<and>
        int (size (fes k')) = initial plain_txc Tic + initial plain_txc Toc)"
proof -
  obtain X k where st: "tictocR_start 1 plain_txc tt_blank = Inr (X, k)"
    and k: "fes k = {#\<lparr>ev_time = 1, ev_module = Toc, ev_gate = Some (''in'', 0), ev_msg = tictocMsg\<rparr>#}"
      "\<not> halted k" "counter (X Toc) = 0" "simTime k = 0"
    by (simp add: tictocR_start_def TxcR_initialize_def plain_txc_def tt_blank_def send_ok tictoc_net_def)
  let ?e = "\<lparr>ev_time = 1, ev_module = Toc, ev_gate = Some (''in'', 0), ev_msg = tictocMsg\<rparr> :: (tt_module, string) event"
  from k have e: "earliest ?e k" by (simp add: earliest_def)
  obtain X' k' where h: "tictocR_deliver list_omnet 1 plain_txc ?e (X, begin_event ?e k) = Inr (X', k')"
    and c: "counter (X' Toc) = 1"
    using k by (simp add: tictocR_deliver_def TxcR_handleMessage_def plain_txc_def isSelfMessage_def Let_def
        scheduleAt_ok list_omnet_def)
  note run = net_step [OF net_start [of "tictocR_deliver list_omnet 1 plain_txc"] k(2) e h]
  from tictoc_counters [OF list_tictoc.tictoc_library_axioms _ st run] st k run c show ?thesis
    by (auto simp: tt_blank_def)
qed

section \<open>Tic and toc with a hub\<close>

definition tichub_net :: "simtime \<Rightarrow> tt_module wiring" where
  "tichub_net delay m gate i =
     (if gate \<noteq> ''out'' then None
      else case m of
             Tic \<Rightarrow> if i = 0 then Some (TheHub, ''in'', 0, delay) else None
           | Toc \<Rightarrow> if i = 0 then Some (TheHub, ''in'', 1, delay) else None
           | TheHub \<Rightarrow> if i = 0 then Some (Tic, ''in'', 0, delay)
                       else if i = 1 then Some (Toc, ''in'', 0, delay) else None)"

record txcH =
  txcH_received :: int
  txcH_sent :: int
  lastSent :: simtime

record hubH =
  hubH_sent :: int
  hubH_received :: int

definition TxcH_initialize ::
  "tt_module wiring \<Rightarrow> bool \<Rightarrow> tt_module \<Rightarrow> txcH \<times> 'g tt_kernel \<Rightarrow> error + txcH \<times> 'g tt_kernel" where
  "TxcH_initialize net sendInitial m = (\<lambda>(x, k).
     let x = x\<lparr>txcH_sent := 0, txcH_received := 0, lastSent := 0\<rparr> in
     if sendInitial then ebind (send net m ''out'' 0 tictocMsg k) (\<lambda>k. Inr (x, k)) else Inr (x, k))"

definition TxcH_refreshDisplay :: "txcH \<Rightarrow> error + string" where
  "TxcH_refreshDisplay x =
     sprintf_buf 40 (''received: '' @ format_i (txcH_received x) @ '' sent: '' @ format_i (txcH_sent x))"

definition TxcH_handleMessage ::
  "tt_module wiring \<Rightarrow> tt_module \<Rightarrow> string \<Rightarrow> txcH \<times> 'g tt_kernel \<Rightarrow> error + txcH \<times> 'g tt_kernel" where
  "TxcH_handleMessage net m msg = (\<lambda>(x, k).
     let x = x\<lparr>txcH_received := txcH_received x + 1\<rparr>;
         k = emit (MsgArrived m) (Time (simTime k - lastSent x)) k;
         x = x\<lparr>lastSent := simTime k\<rparr>
     in ebind (send net m ''out'' 0 msg k) (\<lambda>k. Inr (x\<lparr>txcH_sent := txcH_sent x + 1\<rparr>, k)))"

definition HubH_initialize :: "hubH \<Rightarrow> hubH" where
  "HubH_initialize h = h\<lparr>hubH_sent := 0, hubH_received := 0\<rparr>"

definition HubH_refreshDisplay :: "hubH \<Rightarrow> error + string" where
  "HubH_refreshDisplay h =
     sprintf_buf 40 (''rec: '' @ format_i (hubH_received h) @ '' sent: '' @ format_i (hubH_sent h))"

definition HubH_handleMessage ::
  "('q, string, 'g) omnet \<Rightarrow> tt_module wiring \<Rightarrow> bool \<Rightarrow> int \<Rightarrow> string
    \<Rightarrow> hubH \<times> 'g tt_kernel \<Rightarrow> error + hubH \<times> 'g tt_kernel" where
  "HubH_handleMessage K net randHub arrived msg = (\<lambda>(h, k).
     let h = h\<lparr>hubH_received := hubH_received h + 1\<rparr>;
         (toSend, g) = (if randHub then rng_intuniform K (rng k) 0 1 else ((arrived + 1) mod 2, rng k));
         k = k\<lparr>rng := g\<rparr>
     in ebind (send net TheHub ''out'' toSend msg k) (\<lambda>k. Inr (h\<lparr>hubH_sent := hubH_sent h + 1\<rparr>, k)))"

definition tichub_start ::
  "simtime \<Rightarrow> (tt_module \<Rightarrow> bool) \<Rightarrow> ((tt_module \<Rightarrow> txcH) \<times> hubH) \<times> 'g tt_kernel
    \<Rightarrow> error + ((tt_module \<Rightarrow> txcH) \<times> hubH) \<times> 'g tt_kernel" where
  "tichub_start delay ini = (\<lambda>((X, h), k).
     ebind (TxcH_initialize (tichub_net delay) (ini Tic) Tic (X Tic, k)) (\<lambda>(tic, k).
     ebind (TxcH_initialize (tichub_net delay) (ini Toc) Toc (X Toc, k)) (\<lambda>(toc, k).
       Inr ((X(Tic := tic, Toc := toc), HubH_initialize h), k))))"

definition tichub_deliver ::
  "('q, string, 'g) omnet \<Rightarrow> simtime \<Rightarrow> bool \<Rightarrow> (tt_module, string) event
    \<Rightarrow> ((tt_module \<Rightarrow> txcH) \<times> hubH) \<times> 'g tt_kernel \<Rightarrow> error + ((tt_module \<Rightarrow> txcH) \<times> hubH) \<times> 'g tt_kernel" where
  "tichub_deliver K delay randHub e = (\<lambda>((X, h), k).
     if ev_module e = TheHub then
       (case ev_gate e of
          None \<Rightarrow> Inl NullDereference
        | Some (_, i) \<Rightarrow> ebind (HubH_handleMessage K (tichub_net delay) randHub i (ev_msg e) (h, k))
                          (\<lambda>(h, k). Inr ((X, h), k)))
     else
       ebind (TxcH_handleMessage (tichub_net delay) (ev_module e) (ev_msg e) (X (ev_module e), k))
         (\<lambda>(x, k). Inr ((X(ev_module e := x), h), k)))"

text \<open>
  The books of the three modules. A message waits at port 0 or 1 of the hub; a hub that is not
  random passes what arrived from one side to the other side.
\<close>

definition at_port :: "int \<Rightarrow> (tt_module, string) event \<Rightarrow> bool" where
  "at_port i e \<longleftrightarrow> ev_module e = TheHub \<and> ev_gate e = Some (''in'', i)"

definition tt_one :: "bool \<Rightarrow> int" where
  "tt_one b = (if b then 1 else 0)"

definition txcH_ok :: "simtime \<Rightarrow> tt_signal \<Rightarrow> (tt_module, string, tt_signal) call list \<Rightarrow> txcH \<Rightarrow> bool" where
  "txcH_ok now sig cs x \<longleftrightarrow>
     txcH_received x = txcH_sent x \<and> lastSent x \<le> now \<and> total_time (samples sig cs) = lastSent x"

definition tichub_inv ::
  "(tt_module \<Rightarrow> bool) \<Rightarrow> bool \<Rightarrow> ((tt_module \<Rightarrow> txcH) \<times> hubH) \<times> 'g tt_kernel \<Rightarrow> bool" where
  "tichub_inv ini randHub = (\<lambda>((X, h), k).
     timely k \<and>
     (\<forall>e\<in>#fes k. at_port 0 e \<or> at_port 1 e \<or> on_gate Tic e \<or> on_gate Toc e) \<and>
     txcH_ok (simTime k) (MsgArrived Tic) (calls k) (X Tic) \<and>
     txcH_ok (simTime k) (MsgArrived Toc) (calls k) (X Toc) \<and>
     hubH_received h = hubH_sent h \<and>
     hubH_received h + pending (at_port 0) (fes k) + pending (at_port 1) (fes k)
       = txcH_sent (X Tic) + txcH_sent (X Toc) + tt_one (ini Tic) + tt_one (ini Toc) \<and>
     hubH_sent h = txcH_received (X Tic) + txcH_received (X Toc) +
       pending (on_gate Tic) (fes k) + pending (on_gate Toc) (fes k) \<and>
     (\<not> randHub \<longrightarrow>
       txcH_received (X Toc) + pending (on_gate Toc) (fes k) + pending (at_port 0) (fes k)
         = txcH_sent (X Tic) + tt_one (ini Tic)))"

lemma size_ports:
  "\<forall>e\<in>#M. at_port 0 e \<or> at_port 1 e \<or> on_gate Tic e \<or> on_gate Toc e \<Longrightarrow>
   int (size M) = pending (at_port 0) M + pending (at_port 1) M + pending (on_gate Tic) M + pending (on_gate Toc) M"
  by (induction M) (auto simp: on_gate_def at_port_def)

locale tichub_library = omnetpp K contents
  for K :: "('q, string, 'g) omnet" and contents :: "'q \<Rightarrow> string list" +
  fixes delay :: simtime and ini :: "tt_module \<Rightarrow> bool" and randHub :: bool
  assumes delay_nonneg: "0 \<le> delay"
begin

lemma hub_port:
  assumes "(if randHub then rng_intuniform K g 0 1 else ((i + 1) mod 2, g)) = (toSend, g')"
  shows "toSend = 0 \<or> toSend = 1"
  using assms intuniform_range [of 0 1 g] by (auto split: if_splits)

lemma hub_step:
  assumes inv: "tichub_inv ini randHub ((X, h), k)" and e: "earliest e k" and m: "ev_module e = TheHub"
  shows "\<exists>s'. tichub_deliver K delay randHub e ((X, h), begin_event e k) = Inr s' \<and> tichub_inv ini randHub s'"
proof -
  from e have in_fes: "e \<in># fes k" by (rule earliestD)
  with inv m obtain i where i: "ev_gate e = Some (''in'', i)" "i = 0 \<or> i = 1"
    by (auto simp: tichub_inv_def at_port_def on_gate_def)
  have others: "\<forall>x\<in>#fes k - {#e#}. at_port 0 x \<or> at_port 1 x \<or> on_gate Tic x \<or> on_gate Toc x"
    using inv by (intro Ball_remove) (simp add: tichub_inv_def)
  have now: "simTime k \<le> ev_time e" using inv in_fes by (auto simp: tichub_inv_def timely_def)
  obtain j g where j: "(if randHub then rng_intuniform K (rng k) 0 1 else ((i + 1) mod 2, rng k)) = (j, g)"
    by fastforce
  from hub_port [OF j] consider "j = 0" | "j = 1" by blast
  then show ?thesis
    using inv m i j delay_nonneg timely_begin [OF e] in_fes others now
    by cases (auto simp: tichub_deliver_def HubH_handleMessage_def send_ok tichub_net_def tichub_inv_def
        timely_def txcH_ok_def pending_remove on_gate_def at_port_def)
qed

lemma txc_step:
  assumes inv: "tichub_inv ini randHub ((X, h), k)" and e: "earliest e k" and m: "ev_module e \<noteq> TheHub"
  shows "\<exists>s'. tichub_deliver K delay randHub e ((X, h), begin_event e k) = Inr s' \<and> tichub_inv ini randHub s'"
proof -
  from e have in_fes: "e \<in># fes k" by (rule earliestD)
  have others: "\<forall>x\<in>#fes k - {#e#}. at_port 0 x \<or> at_port 1 x \<or> on_gate Tic x \<or> on_gate Toc x"
    using inv by (intro Ball_remove) (simp add: tichub_inv_def)
  have now: "simTime k \<le> ev_time e" using inv in_fes by (auto simp: tichub_inv_def timely_def)
  from inv in_fes m obtain g where "ev_gate e = Some g" and "ev_module e = Tic \<or> ev_module e = Toc"
    by (auto simp: tichub_inv_def at_port_def on_gate_def)
  with inv m delay_nonneg timely_begin [OF e] in_fes others now show ?thesis
    by (auto simp: tichub_deliver_def TxcH_handleMessage_def send_ok tichub_net_def tichub_inv_def Let_def
        timely_def txcH_ok_def pending_remove on_gate_def at_port_def)
qed

lemma tichub_start_inv:
  assumes "fes k0 = {#}" and "calls k0 = []" and "0 \<le> simTime k0" and "tichub_start delay ini (s, k0) = Inr s0"
  shows "tichub_inv ini randHub s0"
  using assms delay_nonneg
  by (cases s) (auto simp: tichub_start_def TxcH_initialize_def HubH_initialize_def send_ok tichub_net_def
      tichub_inv_def timely_def txcH_ok_def on_gate_def at_port_def tt_one_def split: if_splits)

end

sublocale tichub_library \<subseteq> hub: network_invariant "tichub_deliver K delay randHub" "tichub_inv ini randHub"
  by unfold_locales (use hub_step txc_step in fastforce)

context tichub_library
begin

lemmas tichub_run = hub.run_inv [OF _ tichub_start_inv] hub.run_never_fails [OF _ tichub_start_inv]

end

interpretation list_tichub: tichub_library list_omnet "\<lambda>q. q" 1 "\<lambda>m. m = Tic" False
  by (intro tichub_library.intro tichub_library_axioms.intro) (auto intro: list_library.omnetpp_axioms)

text \<open>
  (C14) In every run of the network with a hub no handler throws, the number of messages stays the
  number of initial messages, every module has sent what it received, the hub is ahead of tic and toc
  by the messages on their way to them, the response times recorded at a module add up to the time
  of its last message, and a hub that is not random keeps tic and toc as close together as a direct
  connection does.
\<close>

theorem tichub_books:
  assumes "tichub_library K contents delay" and "fes k0 = {#}" and "calls k0 = []" and "0 \<le> simTime k0"
    and "tichub_start delay ini (s, k0) = Inr s0"
    and "net_run (tichub_deliver K delay randHub) s0 ((X, h), k)"
  shows "(\<forall>e. earliest e k \<longrightarrow> (\<exists>s'. tichub_deliver K delay randHub e ((X, h), begin_event e k) = Inr s')) \<and>
    int (size (fes k)) = tt_one (ini Tic) + tt_one (ini Toc) \<and>
    hubH_received h = hubH_sent h \<and> (\<forall>m\<in>{Tic, Toc}. txcH_received (X m) = txcH_sent (X m) \<and>
      total_time (samples (MsgArrived m) (calls k)) = lastSent (X m) \<and> lastSent (X m) \<le> simTime k) \<and>
    txcH_received (X Tic) + txcH_received (X Toc) \<le> hubH_sent h \<and>
    hubH_sent h \<le> txcH_received (X Tic) + txcH_received (X Toc) + tt_one (ini Tic) + tt_one (ini Toc) \<and>
    (\<not> randHub \<longrightarrow> - tt_one (ini Toc) \<le> txcH_received (X Toc) - txcH_received (X Tic) \<and>
       txcH_received (X Toc) - txcH_received (X Tic) \<le> tt_one (ini Tic))"
proof -
  note run = tichub_library.tichub_run [OF assms(1,6,2-5)]
  note nonneg = pending_nonneg [of "on_gate Tic" "fes k"] pending_nonneg [of "on_gate Toc" "fes k"]
    pending_nonneg [of "at_port 0" "fes k"] pending_nonneg [of "at_port 1" "fes k"]
  from run(1) size_ports [of "fes k"] nonneg show ?thesis using run(2)
    by (cases randHub) (simp_all add: tichub_inv_def txcH_ok_def)
qed

definition tichub_blank :: "((tt_module \<Rightarrow> txcH) \<times> hubH) \<times> unit tt_kernel" where
  "tichub_blank = (((\<lambda>_. \<lparr>txcH_received = 7, txcH_sent = 7, lastSent = 7\<rparr>), \<lparr>hubH_sent = 7, hubH_received = 7\<rparr>), tt_blank)"

theorem tichub_books_witness:
  "\<exists>X h k X' h' k'. tichub_start 1 (\<lambda>m. m = Tic) tichub_blank = Inr ((X, h), k) \<and>
     net_run (tichub_deliver (list_omnet :: (string list, string, unit) omnet) 1 False) ((X, h), k) ((X', h'), k') \<and>
     hubH_received h' = 1 \<and> hubH_sent h' = 1 \<and> size (fes k') = 1"
proof -
  obtain X h k where st: "tichub_start 1 (\<lambda>m. m = Tic) tichub_blank = Inr ((X, h), k)"
    and k: "fes k = {#\<lparr>ev_time = 1, ev_module = TheHub, ev_gate = Some (''in'', 0), ev_msg = tictocMsg\<rparr>#}"
      "\<not> halted k" "simTime k = 0" "hubH_received h = 0"
    by (simp add: tichub_start_def tichub_blank_def TxcH_initialize_def HubH_initialize_def tt_blank_def send_ok
        tichub_net_def)
  let ?e = "\<lparr>ev_time = 1, ev_module = TheHub, ev_gate = Some (''in'', 0), ev_msg = tictocMsg\<rparr> :: (tt_module, string) event"
  let ?D = "tichub_deliver (list_omnet :: (string list, string, unit) omnet) 1 False"
  from k have e: "earliest ?e k" by (simp add: earliest_def)
  obtain h' k' where d: "?D ?e ((X, h), begin_event ?e k) = Inr ((X, h'), k')" and r: "hubH_received h' = 1"
    using k by (simp add: tichub_deliver_def HubH_handleMessage_def send_ok tichub_net_def)
  note run = net_step [OF net_start [of ?D] k(2) e d]
  have b: "fes tt_blank = {#}" "calls tt_blank = []" "0 \<le> simTime tt_blank" by (simp_all add: tt_blank_def)
  from tichub_books [OF list_tichub.tichub_library_axioms b st [unfolded tichub_blank_def] run]
  have "int (size (fes k')) = 1" "hubH_received h' = hubH_sent h'" by (simp_all add: tt_one_def)
  with st run r show ?thesis by (metis of_nat_1_eq_iff)
qed

section \<open>The version with a configurable hub\<close>

record txcL_par =
  sendInitialL :: bool
  procTime :: double
  enable :: bool

record txcL =
  countL :: int
  interProcTime :: double

definition TxcL_initialize ::
  "tt_module wiring \<Rightarrow> txcL_par \<Rightarrow> tt_module \<Rightarrow> txcL \<times> 'g tt_kernel \<Rightarrow> error + txcL \<times> 'g tt_kernel" where
  "TxcL_initialize net p m = (\<lambda>(x, k).
     let x = x\<lparr>countL := 0, interProcTime := 0\<rparr> in
     if sendInitialL p then ebind (send net m ''out'' 0 tictocMsg k) (\<lambda>k. Inr (x, k)) else Inr (x, k))"

definition TxcL_handleMessage ::
  "('q, string, 'g) omnet \<Rightarrow> tt_module wiring \<Rightarrow> txcL_par \<Rightarrow> tt_module \<Rightarrow> bool \<Rightarrow> string
    \<Rightarrow> txcL \<times> 'g tt_kernel \<Rightarrow> error + txcL \<times> 'g tt_kernel" where
  "TxcL_handleMessage K net p m self msg = (\<lambda>(x, k).
     if self \<or> enable p then
       let x = x\<lparr>countL := countL x + 1\<rparr>;
           k = (if enable p then emit (MsgCount m) (Long (countL x)) k else k)
       in ebind (send net m ''out'' 0 msg k) (\<lambda>k. Inr (x, k))
     else
       let (d, g) = (if m \<noteq> Tic then rng_uniform K (rng k) 0 5 else (procTime p, rng k));
           k = k\<lparr>rng := g\<rparr>
       in ebind (scheduleAt m (simTime k + toSimtime K d) msg k) (\<lambda>k.
            let x = x\<lparr>countL := countL x + 1\<rparr>;
                k = emit (MsgCount m) (Long (countL x)) k;
                k = emit (InterProcTime m) (Time (simTime k - toSimtime K (interProcTime x))) k
            in Inr (x\<lparr>interProcTime := fromSimtime K (simTime k)\<rparr>, k)))"

text \<open>
  The hub draws \<open>n\<close> with \<open>rand()\<close>, whose result is \<open>r\<close>; \<open>port\<close> is a volatile parameter, evaluated at
  each use.
\<close>

record hubL =
  hub_n :: int

definition HubL_initialize :: "int \<Rightarrow> int \<Rightarrow> hubL \<Rightarrow> error + hubL" where
  "HubL_initialize r n h = (if n = 0 then Inl DivisionByZero else Inr (h\<lparr>hub_n := c_rem r n\<rparr>))"

definition HubL_handleMessage ::
  "tt_module wiring \<Rightarrow> bool \<Rightarrow> ('g \<Rightarrow> int \<times> 'g) \<Rightarrow> int \<Rightarrow> string
    \<Rightarrow> hubL \<times> 'g tt_kernel \<Rightarrow> error + hubL \<times> 'g tt_kernel" where
  "HubL_handleMessage net randHub port arrived msg = (\<lambda>(h, k).
     if randHub then
       let (randomPort, g) = port (rng k); k = k\<lparr>rng := g\<rparr>
       in ebind (send net TheHub ''out'' randomPort msg k) (\<lambda>k. Inr (h, k))
     else if hub_n h = 0 then Inl DivisionByZero
     else
       let fixedPort = c_rem (arrived + 1) (hub_n h)
       in ebind (send net TheHub ''out'' fixedPort msg k) (\<lambda>k. Inr (h, k)))"

text \<open>
  (C26) With two ports the hub of this version never forwards a message from port 0 to port 1:
  \<open>initialize()\<close> keeps \<open>rand() % n\<close> in place of the number of ports. When the draw is even every
  message that is not routed at random divides by zero, when it is odd every message goes to port 0.
\<close>

theorem hubL_ignores_ports:
  assumes "0 \<le> r"
  shows "\<exists>h'. HubL_initialize r 2 h = Inr h' \<and>
    (\<forall>i\<ge>0. HubL_handleMessage net False port i msg (h', k) =
       (if even r then Inl DivisionByZero
        else ebind (send net TheHub ''out'' 0 msg k) (\<lambda>k. Inr (h', k))))"
  using assms by (auto simp: HubL_initialize_def HubL_handleMessage_def c_rem_nonneg even_iff_mod_2_eq_zero
      odd_iff_mod_2_eq_one)

theorem hubL_ignores_ports_witness:
  "\<exists>h'. HubL_initialize 4 2 \<lparr>hub_n = 0\<rparr> = Inr h' \<and>
     HubL_handleMessage (tichub_net 0) False (\<lambda>g. (0, g)) 0 tictocMsg (h', tt_blank) = Inl DivisionByZero"
  using hubL_ignores_ports [of 4 "\<lparr>hub_n = 0\<rparr>" "tichub_net 0" "\<lambda>g. (0, g)" tictocMsg tt_blank] by auto

text \<open>
  A module of this version that is not enabled counts every message twice, when it arrives and
  when its processing ends, and only reports the count at the arrival: the reported counts of
  messages handled one after the other are the odd numbers.
\<close>

theorem txcL_counts_twice:
  assumes "omnetpp K contents" and "\<not> enable p" and "0 \<le> procTime p" and "net m ''out'' 0 = Some c"
  shows "\<exists>x' k'. ebind (TxcL_handleMessage K net p m False msg (x, k)) (TxcL_handleMessage K net p m True msg)
           = Inr (x', k') \<and> countL x' = countL x + 2 \<and>
         samples (MsgCount m) (calls k') = samples (MsgCount m) (calls k) @ [Long (countL x + 1)]"
proof -
  obtain d g where dg: "(if m \<noteq> Tic then rng_uniform K (rng k) 0 5 else (procTime p, rng k)) = (d, g)"
    by fastforce
  with omnetpp.uniform_range [OF assms(1), of 0 5 "rng k"] assms(3) have "0 \<le> d" by (auto split: if_splits)
  with omnetpp.toSimtime_nonneg [OF assms(1)] have "0 \<le> toSimtime K d" by simp
  with assms(2,4) dg show ?thesis
    by (cases c) (simp add: TxcL_handleMessage_def scheduleAt_ok send_ok Let_def)
qed

theorem txcL_counts_twice_witness:
  "\<exists>x' k'. ebind (TxcL_handleMessage list_omnet (tichub_net 0) \<lparr>sendInitialL = False, procTime = 1, enable = False\<rparr>
        Tic False tictocMsg (\<lparr>countL = 0, interProcTime = 0\<rparr>, tt_blank))
      (TxcL_handleMessage list_omnet (tichub_net 0) \<lparr>sendInitialL = False, procTime = 1, enable = False\<rparr>
        Tic True tictocMsg) = Inr (x', k') \<and> countL x' = 2 \<and> samples (MsgCount Tic) (calls k') = [Long 1]"
  using txcL_counts_twice [OF list_library.omnetpp_axioms, of "\<lparr>sendInitialL = False, procTime = 1, enable = False\<rparr>"
      "tichub_net 0" Tic "(TheHub, ''in'', 0, 0)" tictocMsg "\<lparr>countL = 0, interProcTime = 0\<rparr>" tt_blank]
  by (simp add: tichub_net_def tt_blank_def)

section \<open>Displays\<close>

text \<open>
  (C0) The displays of the modules with a hub fit their buffers of 40 characters while the counters
  are below a hundred billion. The bound is sharp: the two \<open>long\<close> counters of tic or toc overrun the
  buffer as soon as both have reached it.
\<close>

theorem tichub_display_fits:
  assumes "0 \<le> a" and "a < 10 ^ 11" and "0 \<le> b" and "b < 10 ^ 11"
  shows "(\<exists>t. TxcH_refreshDisplay \<lparr>txcH_received = a, txcH_sent = b, lastSent = c\<rparr> = Inr t) \<and>
         (\<exists>t. HubH_refreshDisplay \<lparr>hubH_sent = a, hubH_received = b\<rparr> = Inr t) \<and>
         TxcH_refreshDisplay \<lparr>txcH_received = 10 ^ 11, txcH_sent = 10 ^ 11, lastSent = c\<rparr> = Inl IndexOutOfRange"
proof -
  have len: "length (format_i n) \<le> 11" if "0 \<le> n" "n < 10 ^ 11" for n
    using length_digits [of "nat n" 10] that by (simp add: format_i_def nat_less_iff)
  have "length (format_i (10 ^ 11)) = 12" by (simp add: format_i_def digits.simps)
  with len [OF assms(1,2)] len [OF assms(3,4)] show ?thesis
    by (simp add: TxcH_refreshDisplay_def HubH_refreshDisplay_def sprintf_buf_def)
qed

theorem tichub_display_fits_witness:
  "\<exists>t. TxcH_refreshDisplay \<lparr>txcH_received = 12, txcH_sent = 11, lastSent = 0\<rparr> = Inr t"
  using tichub_display_fits [of 12 11 0] by simp

end
