(* ===== verification/ProducerConsumer.thy ===== *)
theory ProducerConsumer
  imports Network Display
begin

text \<open>
  The producer-consumer exercise of \<open>Esercizi/Riccardo/ProducerConsumer\<close>: two consumers send requests
  to a central node that hands them to two producers in turn; the responses come back through a
  dispatcher that routes by the message kind. The vocabulary of messages and modules is shared with
  the second version of the exercise.
\<close>

section \<open>Messages and modules\<close>

datatype who = One | Two

fun idx :: "who \<Rightarrow> int" where
  "idx One = 0"
| "idx Two = 1"

datatype pc_module = Consumer who | Centre | Producer who | Dispatcher

datatype pc_signal = ResponseArrived who | NewRequest who

record pc_msg =
  msg_name :: string
  msg_kind :: int
  msg_timestamp :: simtime

type_synonym 'g pc_kernel = "('g, pc_module, pc_msg, pc_signal) kernel"

lemma parity_step:
  fixes n :: int
  shows "n mod 2 = 0 \<and> (n + 1) mod 2 = 1 \<and> (n + 2) div 2 = (n + 1) div 2 + 1 \<and> (n + 1) div 2 = n div 2 \<or>
    n mod 2 = 1 \<and> (n + 1) mod 2 = 0 \<and> (n + 2) div 2 = (n + 1) div 2 \<and> (n + 1) div 2 = n div 2 + 1"
  by presburger

lemma all_who: "(\<forall>i. P i) \<longleftrightarrow> P One \<and> P Two"
  by (metis who.exhaust)

lemma ex_who: "(\<exists>i. P i) \<longleftrightarrow> P One \<or> P Two"
  by (metis who.exhaust)

definition port :: "(who \<Rightarrow> pc_module) \<Rightarrow> int \<Rightarrow> simtime \<Rightarrow> (pc_module \<times> string \<times> int \<times> simtime) option" where
  "port dest i d = (if i = 0 then Some (dest One, ''in'', 0, d) else if i = 1 then Some (dest Two, ''in'', 0, d) else None)"

lemma port_idx: "port dest (idx i) d = Some (dest i, ''in'', 0, d)"
  by (cases i) (simp_all add: port_def)

definition pcR_net :: "simtime \<Rightarrow> pc_module wiring" where
  "pcR_net d m gate n =
     (if gate \<noteq> ''out'' then None
      else case m of
             Consumer i \<Rightarrow> if n = 0 then Some (Centre, ''in'', idx i, d) else None
           | Centre \<Rightarrow> port Producer n d
           | Producer j \<Rightarrow> if n = 0 then Some (Dispatcher, ''in'', idx j, d) else None
           | Dispatcher \<Rightarrow> port Consumer n d)"

section \<open>Consumers\<close>

definition MAX_REQUESTS :: int where
  "MAX_REQUESTS = 1000000"

record consumerR =
  requested :: int
  consumed :: int
  reqTime :: double
  reqMean :: double
  reqVariance :: double

text \<open>\<open>getId i\<close> is the module id of a consumer, \<open>mean\<close> and \<open>var\<close> are its parameters.\<close>

definition ConsumerR_initialize ::
  "('q, pc_msg, 'g) omnet \<Rightarrow> (who \<Rightarrow> int) \<Rightarrow> double \<Rightarrow> double \<Rightarrow> who \<Rightarrow> consumerR \<times> 'g pc_kernel
    \<Rightarrow> error + consumerR \<times> 'g pc_kernel" where
  "ConsumerR_initialize K getId mean var i = (\<lambda>(c, k).
     let c = c\<lparr>reqTime := 0, requested := 0, consumed := 0, reqMean := mean, reqVariance := var\<rparr>;
         msg = \<lparr>msg_name = ''Request Message'', msg_kind = getId i, msg_timestamp = simTime k\<rparr>;
         (v, g) = rng_normal K (rng k) (reqMean c) (reqVariance c)
     in ebind (scheduleAt (Consumer i) (toSimtime K (max 0 v)) msg (k\<lparr>rng := g\<rparr>)) (\<lambda>k. Inr (c, k)))"

definition ConsumerR_refreshDisplay :: "consumerR \<Rightarrow> error + string" where
  "ConsumerR_refreshDisplay c =
     sprintf_buf 50 (''Requested: '' @ format_i (requested c) @ '' Consumed: '' @ format_i (consumed c))"

definition ConsumerR_handleMessage ::
  "('q, pc_msg, 'g) omnet \<Rightarrow> pc_module wiring \<Rightarrow> (who \<Rightarrow> int) \<Rightarrow> who \<Rightarrow> bool \<Rightarrow> pc_msg
    \<Rightarrow> consumerR \<times> 'g pc_kernel \<Rightarrow> error + consumerR \<times> 'g pc_kernel" where
  "ConsumerR_handleMessage K net getId i self msg = (\<lambda>(c, k).
     if self then
       let c = c\<lparr>requested := requested c + 1\<rparr> in
       ebind (send net (Consumer i) ''out'' 0 msg k) (\<lambda>k.
         if requested c < MAX_REQUESTS then
           let newMsg = \<lparr>msg_name = ''Request Message'', msg_kind = getId i, msg_timestamp = simTime k\<rparr>;
               (v, g) = rng_normal K (rng k) (reqMean c) (reqVariance c);
               d = max 0 v
           in ebind (scheduleAt (Consumer i) (simTime k + toSimtime K d) newMsg (k\<lparr>rng := g\<rparr>)) (\<lambda>k. Inr (c, k))
         else Inr (c, k))
     else
       let k = emit (ResponseArrived i) (Time (simTime k - msg_timestamp msg)) k;
           c = c\<lparr>consumed := consumed c + 1\<rparr>
       in Inr (c, kcall (Deleted msg) k))"

section \<open>The central node and the dispatcher\<close>

record centralNode =
  routedC :: int
  nextProducer :: int

definition CentralNode_initialize :: "centralNode \<Rightarrow> centralNode" where
  "CentralNode_initialize c = c\<lparr>nextProducer := 0, routedC := 0\<rparr>"

definition CentralNode_refreshDisplay :: "centralNode \<Rightarrow> error + string" where
  "CentralNode_refreshDisplay c = sprintf_buf 30 (''Routed: '' @ format_i (routedC c))"

definition CentralNode_handleMessage ::
  "pc_module wiring \<Rightarrow> pc_msg \<Rightarrow> centralNode \<times> 'g pc_kernel \<Rightarrow> error + centralNode \<times> 'g pc_kernel" where
  "CentralNode_handleMessage net msg = (\<lambda>(c, k).
     ebind (send net Centre ''out'' (nextProducer c) msg k) (\<lambda>k.
       let c = c\<lparr>nextProducer := c_rem (nextProducer c + 1) 2\<rparr>
       in Inr (c\<lparr>routedC := routedC c + 1\<rparr>, k)))"

record dispatcherR =
  routedD :: int

definition DispatcherR_initialize :: "dispatcherR \<Rightarrow> dispatcherR" where
  "DispatcherR_initialize d = d\<lparr>routedD := 0\<rparr>"

definition DispatcherR_refreshDisplay :: "dispatcherR \<Rightarrow> error + string" where
  "DispatcherR_refreshDisplay d = sprintf_buf 30 (''Routed: '' @ format_i (routedD d))"

definition DispatcherR_handleMessage ::
  "pc_module wiring \<Rightarrow> pc_msg \<Rightarrow> dispatcherR \<times> 'g pc_kernel \<Rightarrow> error + dispatcherR \<times> 'g pc_kernel" where
  "DispatcherR_handleMessage net msg = (\<lambda>(d, k).
     let d = d\<lparr>routedD := routedD d + 1\<rparr>
     in ebind (send net Dispatcher ''out'' (msg_kind msg - 2) msg k) (\<lambda>k. Inr (d, k)))"

section \<open>Producers\<close>

record producerR =
  queued :: int
  produced :: int
  productionRate :: double

definition ProducerR_initialize :: "double \<Rightarrow> producerR \<Rightarrow> producerR" where
  "ProducerR_initialize r p = p\<lparr>queued := 0, produced := 0, productionRate := r\<rparr>"

definition ProducerR_refreshDisplay :: "producerR \<Rightarrow> error + string" where
  "ProducerR_refreshDisplay p =
     sprintf_buf 50 (''Produced: '' @ format_i (produced p) @ '' Queued: '' @ format_i (queued p))"

definition ProducerR_handleMessage ::
  "('q, pc_msg, 'g) omnet \<Rightarrow> pc_module wiring \<Rightarrow> who \<Rightarrow> bool \<Rightarrow> pc_msg
    \<Rightarrow> producerR \<times> 'g pc_kernel \<Rightarrow> error + producerR \<times> 'g pc_kernel" where
  "ProducerR_handleMessage K net j self msg = (\<lambda>(p, k).
     if self then
       let p = p\<lparr>produced := produced p + 1\<rparr>;
           p = p\<lparr>queued := queued p - 1\<rparr>
       in ebind (send net (Producer j) ''out'' 0 msg k) (\<lambda>k. Inr (p, k))
     else
       let respMsg = \<lparr>msg_name = ''Response Message'', msg_kind = msg_kind msg, msg_timestamp = msg_timestamp msg\<rparr>;
           p = p\<lparr>queued := queued p + 1\<rparr>;
           k = emit (NewRequest j) (Long (queued p)) k;
           (d, g) = rng_exponential K (rng k) (productionRate p) 0
       in ebind (scheduleAt (Producer j) (simTime k + toSimtime K d) respMsg (k\<lparr>rng := g\<rparr>))
            (\<lambda>k. Inr (p, kcall (Deleted msg) k)))"

section \<open>The network\<close>

record pcR =
  consumers :: "who \<Rightarrow> consumerR"
  centre :: centralNode
  producers :: "who \<Rightarrow> producerR"
  dispatcher :: dispatcherR

definition pcR_start ::
  "('q, pc_msg, 'g) omnet \<Rightarrow> (who \<Rightarrow> int) \<Rightarrow> double \<Rightarrow> double \<Rightarrow> double \<Rightarrow> pcR \<times> 'g pc_kernel
    \<Rightarrow> error + pcR \<times> 'g pc_kernel" where
  "pcR_start K getId mean var rate = (\<lambda>(s, k).
     ebind (ConsumerR_initialize K getId mean var One (consumers s One, k)) (\<lambda>(c1, k).
     ebind (ConsumerR_initialize K getId mean var Two (consumers s Two, k)) (\<lambda>(c2, k).
       Inr (s\<lparr>consumers := (consumers s)(One := c1, Two := c2),
              centre := CentralNode_initialize (centre s),
              producers := (\<lambda>j. ProducerR_initialize rate (producers s j)),
              dispatcher := DispatcherR_initialize (dispatcher s)\<rparr>, k))))"

definition pcR_deliver ::
  "('q, pc_msg, 'g) omnet \<Rightarrow> (who \<Rightarrow> int) \<Rightarrow> simtime \<Rightarrow> (pc_module, pc_msg) event
    \<Rightarrow> pcR \<times> 'g pc_kernel \<Rightarrow> error + pcR \<times> 'g pc_kernel" where
  "pcR_deliver K getId d e = (\<lambda>(s, k).
     case ev_module e of
       Consumer i \<Rightarrow>
         ebind (ConsumerR_handleMessage K (pcR_net d) getId i (isSelfMessage e) (ev_msg e) (consumers s i, k))
           (\<lambda>(c, k). Inr (s\<lparr>consumers := (consumers s)(i := c)\<rparr>, k))
     | Centre \<Rightarrow>
         ebind (CentralNode_handleMessage (pcR_net d) (ev_msg e) (centre s, k))
           (\<lambda>(c, k). Inr (s\<lparr>centre := c\<rparr>, k))
     | Producer j \<Rightarrow>
         ebind (ProducerR_handleMessage K (pcR_net d) j (isSelfMessage e) (ev_msg e) (producers s j, k))
           (\<lambda>(p, k). Inr (s\<lparr>producers := (producers s)(j := p)\<rparr>, k))
     | Dispatcher \<Rightarrow>
         ebind (DispatcherR_handleMessage (pcR_net d) (ev_msg e) (dispatcher s, k))
           (\<lambda>(d, k). Inr (s\<lparr>dispatcher := d\<rparr>, k)))"

section \<open>The books of the network\<close>

text \<open>A message of consumer \<open>i\<close> that has been sent and not yet come back.\<close>

definition travelling :: "who \<Rightarrow> (pc_module, pc_msg) event \<Rightarrow> bool" where
  "travelling i e \<longleftrightarrow> msg_kind (ev_msg e) = idx i + 2 \<and> \<not> self_of (Consumer i) e"

definition msg_ok :: "simtime \<Rightarrow> (pc_module, pc_msg) event \<Rightarrow> bool" where
  "msg_ok now e \<longleftrightarrow>
     (\<exists>i. msg_kind (ev_msg e) = idx i + 2 \<and> (\<forall>j. ev_module e = Consumer j \<longrightarrow> j = i)) \<and>
     msg_timestamp (ev_msg e) \<le> now \<and> (ev_module e \<in> {Centre, Dispatcher} \<longrightarrow> ev_gate e \<noteq> None)"

definition consumer_ok :: "(pc_module, pc_msg) event multiset \<Rightarrow> (pc_module, pc_msg, pc_signal) call list
    \<Rightarrow> who \<Rightarrow> consumerR \<Rightarrow> bool" where
  "consumer_ok M cs i c \<longleftrightarrow>
     pending (self_of (Consumer i)) M = (if requested c < MAX_REQUESTS then 1 else 0) \<and>
     requested c \<le> MAX_REQUESTS \<and> requested c = consumed c + pending (travelling i) M \<and>
     (\<forall>v\<in>set (samples (ResponseArrived i) cs). 0 \<le> time_of v)"

definition producer_ok :: "(pc_module, pc_msg) event multiset \<Rightarrow> int \<Rightarrow> double \<Rightarrow> who \<Rightarrow> producerR \<Rightarrow> bool" where
  "producer_ok M n rate j p \<longleftrightarrow>
     queued p = pending (self_of (Producer j)) M \<and> productionRate p = rate \<and>
     produced p + queued p + pending (on_gate (Producer j)) M = (n + 1 - idx j) div 2"

definition pcR_inv :: "double \<Rightarrow> pcR \<times> 'g pc_kernel \<Rightarrow> bool" where
  "pcR_inv rate = (\<lambda>(s, k).
     timely k \<and> (\<forall>e\<in>#fes k. msg_ok (simTime k) e) \<and>
     (\<forall>i. consumer_ok (fes k) (calls k) i (consumers s i)) \<and>
     (\<forall>j. producer_ok (fes k) (routedC (centre s)) rate j (producers s j)) \<and>
     nextProducer (centre s) = routedC (centre s) mod 2 \<and>
     produced (producers s One) + produced (producers s Two)
       = routedD (dispatcher s) + pending (on_gate Dispatcher) (fes k) \<and>
     routedD (dispatcher s) = consumed (consumers s One) + consumed (consumers s Two) +
       pending (on_gate (Consumer One)) (fes k) + pending (on_gate (Consumer Two)) (fes k))"

locale pcR_library = omnetpp K contents
  for K :: "('q, pc_msg, 'g) omnet" and contents :: "'q \<Rightarrow> pc_msg list" +
  fixes getId :: "who \<Rightarrow> int" and d :: simtime and rate :: double
  assumes getId: "getId i = idx i + 2" and d_nonneg: "0 \<le> d" and rate_nonneg: "0 \<le> rate"
begin

lemma later_ok:
  assumes inv: "pcR_inv rate (s, k)" and e: "earliest e k"
  shows "e \<in># fes k" "simTime k \<le> ev_time e" "msg_ok (ev_time e) e" "timely (begin_event e k)"
    "\<forall>x\<in>#fes k - {#e#}. msg_ok (ev_time e) x"
proof -
  show e': "e \<in># fes k" using e by (rule earliestD)
  with inv show le: "simTime k \<le> ev_time e" by (auto simp: pcR_inv_def timely_def)
  have "\<forall>x\<in>#fes k. msg_ok (ev_time e) x" using inv le by (fastforce simp: pcR_inv_def msg_ok_def)
  with e' show "msg_ok (ev_time e) e" "\<forall>x\<in>#fes k - {#e#}. msg_ok (ev_time e) x" by (auto dest: in_diffD)
  show "timely (begin_event e k)" using e by (rule timely_begin)
qed

lemmas step_defs = pcR_deliver_def pcR_inv_def consumer_ok_def producer_ok_def Let_def isSelfMessage_def
  pending_remove on_gate_def self_of_def travelling_def timely_def send_ok scheduleAt_ok pcR_net_def port_idx

lemma centre_step:
  assumes inv: "pcR_inv rate (s, k)" and e: "earliest e k" and m: "ev_module e = Centre"
  shows "\<exists>s'. pcR_deliver K getId d e (s, begin_event e k) = Inr s' \<and> pcR_inv rate s'"
proof -
  let ?n = "routedC (centre s)"
  have next_mod: "nextProducer (centre s) = ?n mod 2" using inv by (simp add: pcR_inv_def)
  from parity_step [of ?n] show ?thesis
  proof (elim disjE conjE)
    assume first: "?n mod 2 = 0" "(?n + 1) mod 2 = 1" "(?n + 2) div 2 = (?n + 1) div 2 + 1"
      "(?n + 1) div 2 = ?n div 2"
    with next_mod port_idx [of Producer One d] later_ok [OF inv e] inv m d_nonneg show ?thesis
      by (auto simp: step_defs CentralNode_handleMessage_def msg_ok_def all_who c_rem_nonneg)
  next
    assume second: "?n mod 2 = 1" "(?n + 1) mod 2 = 0" "(?n + 2) div 2 = (?n + 1) div 2"
      "(?n + 1) div 2 = ?n div 2 + 1"
    with next_mod port_idx [of Producer Two d] later_ok [OF inv e] inv m d_nonneg show ?thesis
      by (auto simp: step_defs CentralNode_handleMessage_def msg_ok_def all_who c_rem_nonneg)
  qed
qed

lemma dispatcher_step:
  assumes inv: "pcR_inv rate (s, k)" and e: "earliest e k" and m: "ev_module e = Dispatcher"
  shows "\<exists>s'. pcR_deliver K getId d e (s, begin_event e k) = Inr s' \<and> pcR_inv rate s'"
proof -
  from later_ok(3) [OF inv e] obtain i where "msg_kind (ev_msg e) = idx i + 2" by (auto simp: msg_ok_def)
  then show ?thesis using later_ok [OF inv e] inv m d_nonneg
    by (cases i) (auto simp: step_defs DispatcherR_handleMessage_def msg_ok_def all_who port_def)
qed

lemma producer_step:
  assumes inv: "pcR_inv rate (s, k)" and e: "earliest e k" and m: "ev_module e = Producer j"
  shows "\<exists>s'. pcR_deliver K getId d e (s, begin_event e k) = Inr s' \<and> pcR_inv rate s'"
proof -
  obtain t g where t: "rng_exponential K (rng k) rate 0 = (t, g)" by fastforce
  with exponential_nonneg [OF rate_nonneg, of "rng k" 0] have "0 \<le> toSimtime K t"
    by (simp add: toSimtime_nonneg)
  moreover from inv have "productionRate (producers s j) = rate" by (simp add: pcR_inv_def producer_ok_def)
  moreover obtain i where "msg_kind (ev_msg e) = idx i + 2" using later_ok(3) [OF inv e] by (auto simp: msg_ok_def)
  ultimately show ?thesis using t later_ok [OF inv e] inv m d_nonneg
    by (cases j; cases i) (auto simp: step_defs ProducerR_handleMessage_def msg_ok_def all_who)
qed

lemma response_step:
  assumes inv: "pcR_inv rate (s, k)" and e: "earliest e k" and m: "ev_module e = Consumer i" "ev_gate e = Some g"
  shows "\<exists>s'. pcR_deliver K getId d e (s, begin_event e k) = Inr s' \<and> pcR_inv rate s'"
proof -
  have "msg_kind (ev_msg e) = idx i + 2" using later_ok(3) [OF inv e] m by (auto simp: msg_ok_def)
  then show ?thesis using later_ok [OF inv e] inv m
    by (cases i) (simp_all add: step_defs ConsumerR_handleMessage_def msg_ok_def all_who)
qed

lemma request_step:
  assumes inv: "pcR_inv rate (s, k)" and e: "earliest e k" and m: "ev_module e = Consumer i" "ev_gate e = None"
  shows "\<exists>s'. pcR_deliver K getId d e (s, begin_event e k) = Inr s' \<and> pcR_inv rate s'"
proof -
  obtain t g where t: "rng_normal K (rng k) (reqMean (consumers s i)) (reqVariance (consumers s i)) = (t, g)"
    by fastforce
  have nonneg: "0 \<le> toSimtime K (max 0 t)" by (simp add: toSimtime_nonneg)
  have kind: "msg_kind (ev_msg e) = idx i + 2" using later_ok(3) [OF inv e] m by (auto simp: msg_ok_def)
  have "self_of (Consumer i) e" using m by (simp add: self_of_def)
  then have less: "requested (consumers s i) < MAX_REQUESTS"
    using inv pending_pos [OF later_ok(1) [OF inv e], of "self_of (Consumer i)"]
    by (auto simp: pcR_inv_def consumer_ok_def split: if_splits)
  show ?thesis
  proof (cases "requested (consumers s i) + 1 < MAX_REQUESTS")
    case True
    with t nonneg kind less later_ok [OF inv e] inv m d_nonneg getId show ?thesis
      by (cases i) (simp_all add: step_defs ConsumerR_handleMessage_def msg_ok_def all_who ex_who)
  next
    case False
    with kind less later_ok [OF inv e] inv m d_nonneg getId show ?thesis
      by (cases i) (simp_all add: step_defs ConsumerR_handleMessage_def msg_ok_def all_who ex_who)
  qed
qed

lemma pcR_step:
  assumes "pcR_inv rate (s, k)" and "earliest e k"
  shows "\<exists>s'. pcR_deliver K getId d e (s, begin_event e k) = Inr s' \<and> pcR_inv rate s'"
proof (cases "ev_module e")
  case (Consumer i)
  then show ?thesis using request_step [OF assms] response_step [OF assms] by (cases "ev_gate e") blast+
qed (use centre_step [OF assms] dispatcher_step [OF assms] producer_step [OF assms] in blast)+

lemma pcR_start_inv:
  assumes "fes k0 = {#}" and "calls k0 = []" and "simTime k0 = 0" and "pcR_start K getId mean var rate (s, k0) = Inr s0"
  shows "pcR_inv rate s0"
proof -
  obtain v1 g1 where v1: "rng_normal K (rng k0) mean var = (v1, g1)" by fastforce
  obtain v2 g2 where v2: "rng_normal K g1 mean var = (v2, g2)" by fastforce
  have "0 \<le> toSimtime K (max 0 v1)" "0 \<le> toSimtime K (max 0 v2)" by (simp_all add: toSimtime_nonneg)
  with assms v1 v2 getId show ?thesis
    by (auto simp: pcR_start_def ConsumerR_initialize_def CentralNode_initialize_def ProducerR_initialize_def
      DispatcherR_initialize_def step_defs msg_ok_def all_who ex_who MAX_REQUESTS_def)
qed

end

sublocale pcR_library \<subseteq> pc: network_invariant "pcR_deliver K getId d" "pcR_inv rate"
  by unfold_locales (rule pcR_step)

context pcR_library
begin

lemmas pcR_run = pc.run_inv [OF _ pcR_start_inv] pc.run_never_fails [OF _ pcR_start_inv]

end

interpretation list_pcR: pcR_library list_omnet "\<lambda>q. q" "\<lambda>i. idx i + 2" 1 20
  by (intro pcR_library.intro pcR_library_axioms.intro) (auto intro: list_library.omnetpp_axioms)

definition pcR_blank :: pcR where
  "pcR_blank = \<lparr>consumers = (\<lambda>_. \<lparr>requested = 5, consumed = 5, reqTime = 5, reqMean = 5, reqVariance = 5\<rparr>),
     centre = \<lparr>routedC = 5, nextProducer = 5\<rparr>,
     producers = (\<lambda>_. \<lparr>queued = 5, produced = 5, productionRate = 5\<rparr>), dispatcher = \<lparr>routedD = 5\<rparr>\<rparr>"

definition pc_blank :: "unit pc_kernel" where
  "pc_blank = \<lparr>simTime = 0, fes = {#}, rng = (), calls = [], halted = False\<rparr>"

abbreviation pcR_demo_deliver ::
  "(pc_module, pc_msg) event \<Rightarrow> pcR \<times> unit pc_kernel \<Rightarrow> error + pcR \<times> unit pc_kernel" where
  "pcR_demo_deliver \<equiv> pcR_deliver (list_omnet :: (pc_msg list, pc_msg, unit) omnet) (\<lambda>i. idx i + 2) 1"

abbreviation "pcR_demo_start \<equiv>
  pcR_start (list_omnet :: (pc_msg list, pc_msg, unit) omnet) (\<lambda>i. idx i + 2) 3 (1 / 4) 20 (pcR_blank, pc_blank)"

lemma pcR_demo:
  "\<exists>s0 s k. pcR_demo_start = Inr s0 \<and> net_run pcR_demo_deliver s0 (s, k) \<and> requested (consumers s One) = 1"
proof -
  obtain s0 k where st: "pcR_demo_start = Inr (s0, k)"
    and k: "\<not> halted k" "simTime k = 0" "requested (consumers s0 One) = 0"
      "fes k = {#\<lparr>ev_time = 3, ev_module = Consumer Two, ev_gate = None,
                  ev_msg = \<lparr>msg_name = ''Request Message'', msg_kind = 3, msg_timestamp = 0\<rparr>\<rparr>,
                \<lparr>ev_time = 3, ev_module = Consumer One, ev_gate = None,
                  ev_msg = \<lparr>msg_name = ''Request Message'', msg_kind = 2, msg_timestamp = 0\<rparr>\<rparr>#}"
      "reqMean (consumers s0 One) = 3"
    by (simp add: pcR_start_def ConsumerR_initialize_def pcR_blank_def pc_blank_def Let_def scheduleAt_ok list_omnet_def)
  let ?e = "\<lparr>ev_time = 3, ev_module = Consumer One, ev_gate = None,
              ev_msg = \<lparr>msg_name = ''Request Message'', msg_kind = 2, msg_timestamp = 0\<rparr>\<rparr>"
  from k have e: "earliest ?e k" by (auto simp: earliest_def)
  obtain s' k' where d: "pcR_demo_deliver ?e (s0, begin_event ?e k) = Inr (s', k')"
    and r: "requested (consumers s' One) = 1"
    using k by (simp add: pcR_deliver_def ConsumerR_handleMessage_def isSelfMessage_def Let_def scheduleAt_ok send_ok
        pcR_net_def list_omnet_def MAX_REQUESTS_def)
  from st r net_step [OF net_start [of pcR_demo_deliver] k(1) e d] show ?thesis by blast
qed

lemma pc_blank_simps: "fes pc_blank = {#}" "calls pc_blank = []" "simTime pc_blank = 0"
  by (simp_all add: pc_blank_def)

text \<open>
  (C19) In every run of the network of \<open>Riccardo/ProducerConsumer\<close> no handler throws, no consumer makes
  more than \<open>MAX_REQUESTS\<close> requests, every request a consumer made is either consumed or still
  travelling with its kind, and every response time recorded is non-negative.
\<close>

theorem requests_accounted:
  assumes "pcR_library K contents getId d rate" and "fes k0 = {#}" and "calls k0 = []" and "simTime k0 = 0"
    and "pcR_start K getId mean var rate (s00, k0) = Inr s0" and "net_run (pcR_deliver K getId d) s0 (s, k)"
  shows "(\<forall>e. earliest e k \<longrightarrow> (\<exists>s'. pcR_deliver K getId d e (s, begin_event e k) = Inr s')) \<and>
    (\<forall>i. requested (consumers s i) \<le> MAX_REQUESTS \<and>
       requested (consumers s i) = consumed (consumers s i) + pending (travelling i) (fes k) \<and>
       (\<forall>v\<in>set (samples (ResponseArrived i) (calls k)). 0 \<le> time_of v))"
proof -
  note run = pcR_library.pcR_run [OF assms(1,6,2-5)]
  from run(1) have "\<forall>i. consumer_ok (fes k) (calls k) i (consumers s i)" by (simp add: pcR_inv_def)
  with run(2) show ?thesis unfolding consumer_ok_def by blast
qed

theorem requests_accounted_witness:
  "\<exists>s0 s k. pcR_demo_start = Inr s0 \<and> net_run pcR_demo_deliver s0 (s, k) \<and> requested (consumers s One) = 1 \<and>
     1 = consumed (consumers s One) + pending (travelling One) (fes k)"
proof -
  from pcR_demo obtain s0 s k where r: "pcR_demo_start = Inr s0" "net_run pcR_demo_deliver s0 (s, k)"
    "requested (consumers s One) = 1" by blast
  with requests_accounted [OF list_pcR.pcR_library_axioms pc_blank_simps r(1,2)] show ?thesis by metis
qed

text \<open>
  (C15) The central node hands out the requests in turn: the loads of the two producers never differ by
  more than one request, \<open>queued\<close> is the number of requests in production (so it never goes negative),
  and the dispatcher has routed exactly the responses consumed or on their way to the consumers.
\<close>

theorem round_robin_balanced:
  assumes "pcR_library K contents getId d rate" and "fes k0 = {#}" and "calls k0 = []" and "simTime k0 = 0"
    and "pcR_start K getId mean var rate (s00, k0) = Inr s0" and "net_run (pcR_deliver K getId d) s0 (s, k)"
  defines "load \<equiv> \<lambda>j. produced (producers s j) + queued (producers s j) + pending (on_gate (Producer j)) (fes k)"
  shows "load One + load Two = routedC (centre s) \<and> 0 \<le> load One - load Two \<and> load One - load Two \<le> 1 \<and>
    (\<forall>j. queued (producers s j) = pending (self_of (Producer j)) (fes k)) \<and>
    routedD (dispatcher s) = consumed (consumers s One) + consumed (consumers s Two) +
       pending (on_gate (Consumer One)) (fes k) + pending (on_gate (Consumer Two)) (fes k)"
proof -
  note inv = pcR_library.pcR_run(1) [OF assms(1,6,2-5)]
  then have "load One = (routedC (centre s) + 1) div 2" "load Two = routedC (centre s) div 2"
    by (simp_all add: load_def pcR_inv_def producer_ok_def all_who)
  moreover have "(n + 1) div 2 + n div 2 = n \<and> 0 \<le> (n + 1) div 2 - n div 2 \<and> (n + 1) div 2 - n div 2 \<le> 1" for n :: int
    by presburger
  ultimately show ?thesis using inv by (simp add: pcR_inv_def producer_ok_def)
qed

theorem round_robin_balanced_witness:
  "\<exists>s0 s k. pcR_demo_start = Inr s0 \<and> net_run pcR_demo_deliver s0 (s, k) \<and> requested (consumers s One) = 1 \<and>
     (\<forall>j. queued (producers s j) = pending (self_of (Producer j)) (fes k))"
proof -
  from pcR_demo obtain s0 s k where r: "pcR_demo_start = Inr s0" "net_run pcR_demo_deliver s0 (s, k)"
    "requested (consumers s One) = 1" by blast
  with round_robin_balanced [OF list_pcR.pcR_library_axioms pc_blank_simps r(1,2)] show ?thesis by blast
qed

text \<open>
  (C0) The displays of the central node and the dispatcher fit their buffers whatever the \<open>long\<close>
  counter; those of consumers and producers fit while the counters, as in every run, are not
  negative and stay below ten million million.
\<close>

theorem pcR_displays_fit:
  assumes "int64 (routedC c)" and "int64 (routedD d)"
    and "0 \<le> requested a \<and> requested a < 10 ^ 13" and "0 \<le> consumed a \<and> consumed a < 10 ^ 13"
    and "0 \<le> queued p \<and> queued p < 10 ^ 13" and "0 \<le> produced p \<and> produced p < 10 ^ 13"
  shows "(\<exists>t. CentralNode_refreshDisplay c = Inr t) \<and> (\<exists>t. DispatcherR_refreshDisplay d = Inr t) \<and>
         (\<exists>t. ConsumerR_refreshDisplay a = Inr t) \<and> (\<exists>t. ProducerR_refreshDisplay p = Inr t)"
proof -
  have len: "length (format_i n) \<le> 13" if "0 \<le> n \<and> n < 10 ^ 13" for n
    using length_digits [of "nat n" 12] that by (simp add: format_i_def nat_less_iff)
  show ?thesis
    using length_format_int64 [OF assms(1)] length_format_int64 [OF assms(2)]
      len [OF assms(3)] len [OF assms(4)] len [OF assms(5)] len [OF assms(6)]
    by (simp add: CentralNode_refreshDisplay_def DispatcherR_refreshDisplay_def ConsumerR_refreshDisplay_def
        ProducerR_refreshDisplay_def sprintf_buf_def)
qed

theorem pcR_displays_fit_witness:
  "\<exists>t. ProducerR_refreshDisplay \<lparr>queued = 3, produced = 4, productionRate = 20\<rparr> = Inr t"
  using pcR_displays_fit [of "\<lparr>routedC = 7, nextProducer = 1\<rparr>" "\<lparr>routedD = 4\<rparr>"
      "\<lparr>requested = 4, consumed = 2, reqTime = 0, reqMean = 3, reqVariance = 1\<rparr>"
      "\<lparr>queued = 3, produced = 4, productionRate = 20\<rparr>"]
  by (simp add: int64_def)

end
