(* ===== verification/ProducerConsumerL.thy ===== *)
theory ProducerConsumerL
  imports ProducerConsumer
begin

text \<open>
  The producer-consumer exercise of \<open>Esercizi/Luigi/ProducerConsumer\<close>. Here the node between consumers
  and producers (\<open>Deliverer\<close>) gives a request to a producer only when that producer is free, keeps the
  other requests in a queue, and learns from a notification that a producer is free again. Messages
  and modules are those of the first version; the module \<open>Centre\<close> is the deliverer.
\<close>

definition pcL_net :: "pc_module wiring" where
  "pcL_net m gate n =
     (case m of
        Consumer i \<Rightarrow> if gate = ''out'' \<and> n = 0 then Some (Centre, ''in'', idx i, 0) else None
      | Centre \<Rightarrow> if gate = ''out'' then port Producer n 0 else None
      | Producer j \<Rightarrow>
          if gate = ''out'' \<and> n = 0 then Some (Dispatcher, ''in'', idx j, 0)
          else if gate = ''outNotification'' \<and> n = 0 then Some (Centre, ''freeNotification'', idx j, 0)
          else None
      | Dispatcher \<Rightarrow> if gate = ''out'' then port Consumer n 0 else None)"

definition new_msg :: "string \<Rightarrow> int \<Rightarrow> pc_msg" where
  "new_msg name kind = \<lparr>msg_name = name, msg_kind = kind, msg_timestamp = 0\<rparr>"

section \<open>Consumers\<close>

record consumerL =
  pendentRequest :: int
  consumer_id :: int
  consumptionTime :: double

text \<open>
  \<open>initialize(stage)\<close> acts in the second of two stages. The decrement of \<open>pendentRequest\<close> is an operand
  of a log statement, and log statements evaluate their operands only while logging is enabled.
\<close>

definition ConsumerL_numInitStages :: nat where
  "ConsumerL_numInitStages = 2"

definition ConsumerL_initialize ::
  "double \<Rightarrow> int \<Rightarrow> nat \<Rightarrow> who \<Rightarrow> consumerL \<times> 'g pc_kernel \<Rightarrow> error + consumerL \<times> 'g pc_kernel" where
  "ConsumerL_initialize t cid stages i = (\<lambda>(c, k).
     if stages = 1 then
       let c = c\<lparr>consumptionTime := t\<rparr> in
       ebind (scheduleAt (Consumer i) (simTime k) (new_msg ''beep'' 0) k) (\<lambda>k.
         Inr (c\<lparr>consumer_id := cid, pendentRequest := 0\<rparr>, k))
     else Inr (c, k))"

definition ConsumerL_handleMessage ::
  "('q, pc_msg, 'g) omnet \<Rightarrow> bool \<Rightarrow> pc_module wiring \<Rightarrow> who \<Rightarrow> bool \<Rightarrow> pc_msg
    \<Rightarrow> consumerL \<times> 'g pc_kernel \<Rightarrow> error + consumerL \<times> 'g pc_kernel" where
  "ConsumerL_handleMessage K logging net i self msg = (\<lambda>(c, k).
     if self then
       ebind (send net (Consumer i) ''out'' 0 (new_msg ''RequestMessage'' (consumer_id c - 1)) k) (\<lambda>k.
         let c = c\<lparr>pendentRequest := pendentRequest c + 1\<rparr> in
         ebind (scheduleAt (Consumer i) (simTime k + toSimtime K (consumptionTime c)) msg k) (\<lambda>k. Inr (c, k)))
     else Inr (if logging then c\<lparr>pendentRequest := pendentRequest c - 1\<rparr> else c, k))"

definition ConsumerL_finish :: "who \<Rightarrow> 'g pc_kernel \<Rightarrow> 'g pc_kernel" where
  "ConsumerL_finish i k = k\<lparr>fes := filter_mset (\<lambda>e. \<not> self_of (Consumer i) e) (fes k)\<rparr>"

section \<open>The deliverer\<close>

record 'q deliverer =
  n_producers :: int
  freeProducers :: "bool list"
  firstFreeProducer :: int
  waiting :: 'q

definition array_get :: "'a list \<Rightarrow> int \<Rightarrow> error + 'a" where
  "array_get xs i = (if 0 \<le> i \<and> i < int (length xs) then Inr (xs ! nat i) else Inl IndexOutOfRange)"

definition array_set :: "'a list \<Rightarrow> int \<Rightarrow> 'a \<Rightarrow> error + 'a list" where
  "array_set xs i x = (if 0 \<le> i \<and> i < int (length xs) then Inr (xs[nat i := x]) else Inl IndexOutOfRange)"

text \<open>\<open>new bool[n]\<close> throws for a negative \<open>n\<close>.\<close>

definition Deliverer_initialize ::
  "('q, pc_msg, 'g) omnet \<Rightarrow> int \<Rightarrow> 'q deliverer \<Rightarrow> error + 'q deliverer" where
  "Deliverer_initialize K n d =
     (if n < 0 then Inl IndexOutOfRange
      else Inr (d\<lparr>n_producers := n, freeProducers := replicate (nat n) True,
                  waiting := q_new K, firstFreeProducer := 0\<rparr>))"

text \<open>Giving a request to the first free producer and looking for the next one.\<close>

definition Deliverer_assign ::
  "pc_module wiring \<Rightarrow> pc_msg \<Rightarrow> 'q deliverer \<times> 'g pc_kernel \<Rightarrow> error + 'q deliverer \<times> 'g pc_kernel" where
  "Deliverer_assign net msg = (\<lambda>(d, k).
     ebind (send net Centre ''out'' (firstFreeProducer d) msg k) (\<lambda>k.
     ebind (array_set (freeProducers d) (firstFreeProducer d) False) (\<lambda>fp.
     let d = d\<lparr>freeProducers := fp\<rparr>; other = c_rem (firstFreeProducer d + 1) 2 in
     ebind (array_get (freeProducers d) other) (\<lambda>free.
       Inr (d\<lparr>firstFreeProducer := (if free then other else - 1)\<rparr>, k)))))"

definition Deliverer_handleMessage ::
  "('q, pc_msg, 'g) omnet \<Rightarrow> pc_module wiring \<Rightarrow> string \<times> int \<Rightarrow> pc_msg
    \<Rightarrow> 'q deliverer \<times> 'g pc_kernel \<Rightarrow> error + 'q deliverer \<times> 'g pc_kernel" where
  "Deliverer_handleMessage K net = (\<lambda>(gate, i) msg (d, k).
     if gate = ''freeNotification'' then
       ebind (array_set (freeProducers d) i True) (\<lambda>fp.
       let d = d\<lparr>freeProducers := fp\<rparr>;
           d = (if firstFreeProducer d = - 1 then d\<lparr>firstFreeProducer := i\<rparr> else d)
       in if \<not> q_isEmpty K (waiting d) then
            (case q_pop K (waiting d) of
               None \<Rightarrow> Inl EmptyQueuePop
             | Some (m, q) \<Rightarrow> Deliverer_assign net m (d\<lparr>waiting := q\<rparr>, k))
          else Inr (d, k))
     else if firstFreeProducer d \<noteq> - 1 then Deliverer_assign net msg (d, k)
     else Inr (d\<lparr>waiting := q_insert K (waiting d) msg\<rparr>, k))"

definition Deliverer_finish :: "('q, pc_msg, 'g) omnet \<Rightarrow> 'q deliverer \<Rightarrow> 'q deliverer" where
  "Deliverer_finish K d = d\<lparr>waiting := q_clear K (waiting d)\<rparr>"

section \<open>Producers and dispatcher\<close>

record producerL =
  responseTime :: double

definition ProducerL_initialize :: "double \<Rightarrow> producerL \<Rightarrow> producerL" where
  "ProducerL_initialize t p = p\<lparr>responseTime := t\<rparr>"

definition ProducerL_handleMessage ::
  "('q, pc_msg, 'g) omnet \<Rightarrow> pc_module wiring \<Rightarrow> who \<Rightarrow> bool \<Rightarrow> pc_msg
    \<Rightarrow> producerL \<times> 'g pc_kernel \<Rightarrow> error + 'g pc_kernel" where
  "ProducerL_handleMessage K net j self msg = (\<lambda>(p, k).
     if self then
       ebind (send net (Producer j) ''out'' 0 msg k) (\<lambda>k.
         send net (Producer j) ''outNotification'' 0 (new_msg ''free'' 0) k)
     else
       scheduleAt (Producer j) (simTime k + toSimtime K (responseTime p)) (new_msg ''ResponseMessage'' (msg_kind msg)) k)"

definition DispatcherL_handleMessage ::
  "pc_module wiring \<Rightarrow> pc_msg \<Rightarrow> 'g pc_kernel \<Rightarrow> error + 'g pc_kernel" where
  "DispatcherL_handleMessage net msg k = send net Dispatcher ''out'' (msg_kind msg) msg k"

section \<open>The network\<close>

record 'q pcL =
  consumersL :: "who \<Rightarrow> consumerL"
  deliverer_of :: "'q deliverer"
  producersL :: "who \<Rightarrow> producerL"

definition pcL_start ::
  "('q, pc_msg, 'g) omnet \<Rightarrow> (who \<Rightarrow> double) \<Rightarrow> (who \<Rightarrow> int) \<Rightarrow> (who \<Rightarrow> double) \<Rightarrow> int
    \<Rightarrow> 'q pcL \<times> 'g pc_kernel \<Rightarrow> error + 'q pcL \<times> 'g pc_kernel" where
  "pcL_start K ct cid rt n = (\<lambda>(s, k).
     ebind (Deliverer_initialize K n (deliverer_of s)) (\<lambda>d.
     ebind (ConsumerL_initialize (ct One) (cid One) 0 One (consumersL s One, k)) (\<lambda>(c1, k).
     ebind (ConsumerL_initialize (ct Two) (cid Two) 0 Two (consumersL s Two, k)) (\<lambda>(c2, k).
     ebind (ConsumerL_initialize (ct One) (cid One) 1 One (c1, k)) (\<lambda>(c1, k).
     ebind (ConsumerL_initialize (ct Two) (cid Two) 1 Two (c2, k)) (\<lambda>(c2, k).
       Inr (s\<lparr>consumersL := (consumersL s)(One := c1, Two := c2), deliverer_of := d,
              producersL := (\<lambda>j. ProducerL_initialize (rt j) (producersL s j))\<rparr>, k)))))))"

definition pcL_deliver ::
  "('q, pc_msg, 'g) omnet \<Rightarrow> bool \<Rightarrow> (pc_module, pc_msg) event
    \<Rightarrow> 'q pcL \<times> 'g pc_kernel \<Rightarrow> error + 'q pcL \<times> 'g pc_kernel" where
  "pcL_deliver K logging e = (\<lambda>(s, k).
     case ev_module e of
       Consumer i \<Rightarrow>
         ebind (ConsumerL_handleMessage K logging pcL_net i (isSelfMessage e) (ev_msg e) (consumersL s i, k))
           (\<lambda>(c, k). Inr (s\<lparr>consumersL := (consumersL s)(i := c)\<rparr>, k))
     | Centre \<Rightarrow>
         (case ev_gate e of
            None \<Rightarrow> Inl NullDereference
          | Some g \<Rightarrow> ebind (Deliverer_handleMessage K pcL_net g (ev_msg e) (deliverer_of s, k))
                        (\<lambda>(d, k). Inr (s\<lparr>deliverer_of := d\<rparr>, k)))
     | Producer j \<Rightarrow>
         ebind (ProducerL_handleMessage K pcL_net j (isSelfMessage e) (ev_msg e) (producersL s j, k))
           (\<lambda>k. Inr (s, k))
     | Dispatcher \<Rightarrow> ebind (DispatcherL_handleMessage pcL_net (ev_msg e) k) (\<lambda>k. Inr (s, k)))"

section \<open>One job per producer\<close>

text \<open>
  A producer's job is the request on its way to it, the response in production, or the notification
  on its way back.
\<close>

definition job_of :: "who \<Rightarrow> (pc_module, pc_msg) event \<Rightarrow> bool" where
  "job_of j e \<longleftrightarrow> ev_module e = Producer j \<or> ev_module e = Centre \<and> ev_gate e = Some (''freeNotification'', idx j)"

definition request_of :: "who \<Rightarrow> pc_msg \<Rightarrow> bool" where
  "request_of i m \<longleftrightarrow> msg_name m \<in> {''RequestMessage'', ''ResponseMessage''} \<and> msg_kind m = idx i"

lemma request_kind: "request_of i m \<Longrightarrow> msg_kind m = idx i"
  by (simp add: request_of_def)

lemma request_unique: "request_of i m \<Longrightarrow> request_of j m \<longleftrightarrow> i = j"
  by (cases i; cases j) (auto simp: request_of_def)

lemma request_new [simp]:
  "request_of i (new_msg ''RequestMessage'' n) \<longleftrightarrow> n = idx i"
  "request_of i (new_msg ''ResponseMessage'' n) \<longleftrightarrow> n = idx i"
  "\<not> request_of i (new_msg ''free'' n)" "\<not> request_of i (new_msg ''beep'' n)"
  "msg_name (new_msg nm n) = nm" "msg_kind (new_msg nm n) = n"
  by (simp_all add: request_of_def new_msg_def)

lemma idx_eq [simp]:
  "idx i = idx j \<longleftrightarrow> i = j" "idx i \<noteq> - 1" "- 1 \<noteq> idx i" "idx i = 0 \<longleftrightarrow> i = One" "idx i = 1 \<longleftrightarrow> i = Two"
  by (cases i; cases j; simp)+

definition event_okL :: "(pc_module, pc_msg) event \<Rightarrow> bool" where
  "event_okL e \<longleftrightarrow>
     (case ev_module e of
        Consumer i \<Rightarrow> if ev_gate e = None then \<not> request_of One (ev_msg e) \<and> \<not> request_of Two (ev_msg e)
                      else request_of i (ev_msg e)
      | Centre \<Rightarrow> (\<exists>i. ev_gate e = Some (''in'', idx i) \<and> request_of i (ev_msg e)) \<or>
                  (\<exists>j. ev_gate e = Some (''freeNotification'', idx j) \<and>
                     \<not> request_of One (ev_msg e) \<and> \<not> request_of Two (ev_msg e))
      | Producer j \<Rightarrow> (\<exists>i. request_of i (ev_msg e) \<and> (ev_gate e = None \<longrightarrow> msg_name (ev_msg e) = ''ResponseMessage''))
      | Dispatcher \<Rightarrow> (\<exists>i. request_of i (ev_msg e)))"

lemma event_okL_simps [simp]:
  "event_okL \<lparr>ev_time = t, ev_module = Consumer i, ev_gate = None, ev_msg = m\<rparr> \<longleftrightarrow>
     \<not> request_of One m \<and> \<not> request_of Two m"
  "event_okL \<lparr>ev_time = t, ev_module = Consumer i, ev_gate = Some g, ev_msg = m\<rparr> \<longleftrightarrow> request_of i m"
  "event_okL \<lparr>ev_time = t, ev_module = Dispatcher, ev_gate = og, ev_msg = m\<rparr> \<longleftrightarrow> (\<exists>i. request_of i m)"
  "event_okL \<lparr>ev_time = t, ev_module = Producer j, ev_gate = Some g, ev_msg = m\<rparr> \<longleftrightarrow> (\<exists>i. request_of i m)"
  "event_okL \<lparr>ev_time = t, ev_module = Producer j, ev_gate = None, ev_msg = m\<rparr> \<longleftrightarrow>
     (\<exists>i. request_of i m \<and> msg_name m = ''ResponseMessage'')"
  "event_okL \<lparr>ev_time = t, ev_module = Centre, ev_gate = Some (''in'', idx i), ev_msg = m\<rparr> \<longleftrightarrow> request_of i m"
  "event_okL \<lparr>ev_time = t, ev_module = Centre, ev_gate = Some (''freeNotification'', idx j), ev_msg = m\<rparr> \<longleftrightarrow>
     \<not> request_of One m \<and> \<not> request_of Two m"
  by (auto simp: event_okL_def)

lemma not_request: "\<not> request_of One m \<and> \<not> request_of Two m \<Longrightarrow> \<not> request_of i m"
  by (cases i) simp_all

definition deliverer_ok ::
  "('q \<Rightarrow> pc_msg list) \<Rightarrow> (pc_module, pc_msg) event multiset \<Rightarrow> 'q deliverer \<Rightarrow> bool" where
  "deliverer_ok contents M d \<longleftrightarrow>
     freeProducers d = [pending (job_of One) M = 0, pending (job_of Two) M = 0] \<and>
     (\<forall>j. pending (job_of j) M \<le> 1) \<and>
     (if firstFreeProducer d = - 1 then \<forall>j. pending (job_of j) M = 1
      else (\<exists>j. firstFreeProducer d = idx j \<and> pending (job_of j) M = 0) \<and> contents (waiting d) = []) \<and>
     (\<forall>m\<in>set (contents (waiting d)). \<exists>i. request_of i m)"

definition consumerL_ok ::
  "('q \<Rightarrow> pc_msg list) \<Rightarrow> bool \<Rightarrow> (pc_module, pc_msg) event multiset \<Rightarrow> 'q deliverer \<Rightarrow> who \<Rightarrow> consumerL \<Rightarrow> bool" where
  "consumerL_ok contents logging M d i c \<longleftrightarrow>
     consumer_id c = idx i + 1 \<and> 0 \<le> consumptionTime c \<and>
     (logging \<longrightarrow> pendentRequest c = pending (\<lambda>e. request_of i (ev_msg e)) M +
        int (length (filter (request_of i) (contents (waiting d)))))"

definition pcL_inv :: "('q \<Rightarrow> pc_msg list) \<Rightarrow> bool \<Rightarrow> 'q pcL \<times> 'g pc_kernel \<Rightarrow> bool" where
  "pcL_inv contents logging = (\<lambda>(s, k).
     timely k \<and> (\<forall>e\<in>#fes k. event_okL e) \<and> (\<forall>j. 0 \<le> responseTime (producersL s j)) \<and>
     deliverer_ok contents (fes k) (deliverer_of s) \<and>
     (\<forall>i. consumerL_ok contents logging (fes k) (deliverer_of s) i (consumersL s i)))"

locale pcL_library = omnetpp K contents
  for K :: "('q, pc_msg, 'g) omnet" and contents :: "'q \<Rightarrow> pc_msg list"
begin

lemma laterL_ok:
  assumes inv: "pcL_inv contents logging (s, k)" and e: "earliest e k"
  shows "e \<in># fes k" "event_okL e" "timely (begin_event e k)" "\<forall>x\<in>#fes k - {#e#}. event_okL x"
proof -
  show e': "e \<in># fes k" using e by (rule earliestD)
  have "\<forall>x\<in>#fes k. event_okL x" using inv by (simp add: pcL_inv_def)
  with e' show "event_okL e" "\<forall>x\<in>#fes k - {#e#}. event_okL x" by (auto dest: in_diffD)
  show "timely (begin_event e k)" using e by (rule timely_begin)
qed

lemmas stepL_defs = pcL_deliver_def pcL_inv_def deliverer_ok_def consumerL_ok_def Let_def isSelfMessage_def
  pending_remove timely_def send_ok scheduleAt_ok pcL_net_def port_idx job_of_def

lemma beep_step:
  assumes inv: "pcL_inv contents logging (s, k)" and e: "earliest e k" and m: "ev_module e = Consumer i" "ev_gate e = None"
  shows "\<exists>s'. pcL_deliver K logging e (s, begin_event e k) = Inr s' \<and> pcL_inv contents logging s'"
proof -
  have "0 \<le> toSimtime K (consumptionTime (consumersL s i))"
    using inv by (simp add: pcL_inv_def consumerL_ok_def toSimtime_nonneg)
  moreover from laterL_ok(2) [OF inv e] m have "\<not> request_of One (ev_msg e) \<and> \<not> request_of Two (ev_msg e)"
    by (simp add: event_okL_def)
  moreover from this have "\<not> request_of j (ev_msg e)" for j by (rule not_request)
  ultimately show ?thesis using laterL_ok [OF inv e] inv m
    by (simp add: stepL_defs ConsumerL_handleMessage_def)
qed

lemma answer_step:
  assumes inv: "pcL_inv contents logging (s, k)" and e: "earliest e k" and m: "ev_module e = Consumer i" "ev_gate e = Some g"
  shows "\<exists>s'. pcL_deliver K logging e (s, begin_event e k) = Inr s' \<and> pcL_inv contents logging s'"
proof -
  from laterL_ok(2) [OF inv e] m have "request_of i (ev_msg e)" by (simp add: event_okL_def)
  then show ?thesis using laterL_ok [OF inv e] inv m
    by (simp add: stepL_defs ConsumerL_handleMessage_def request_unique)
qed

lemma dispatcherL_step:
  assumes inv: "pcL_inv contents logging (s, k)" and e: "earliest e k" and m: "ev_module e = Dispatcher"
  shows "\<exists>s'. pcL_deliver K logging e (s, begin_event e k) = Inr s' \<and> pcL_inv contents logging s'"
proof -
  obtain i where i: "request_of i (ev_msg e)" using laterL_ok(2) [OF inv e] m by (auto simp: event_okL_def)
  then show ?thesis using laterL_ok [OF inv e] inv m port_idx [of Consumer i 0]
    by (simp add: stepL_defs DispatcherL_handleMessage_def request_kind [OF i] request_unique [OF i])
qed

lemma producerL_step:
  assumes inv: "pcL_inv contents logging (s, k)" and e: "earliest e k" and m: "ev_module e = Producer j"
  shows "\<exists>s'. pcL_deliver K logging e (s, begin_event e k) = Inr s' \<and> pcL_inv contents logging s'"
proof -
  obtain i where i: "request_of i (ev_msg e)" using laterL_ok(2) [OF inv e] m by (auto simp: event_okL_def)
  have "0 \<le> toSimtime K (responseTime (producersL s j))" using inv by (simp add: pcL_inv_def toSimtime_nonneg)
  then show ?thesis using laterL_ok [OF inv e] inv m i
    by (cases "ev_gate e") (auto simp: stepL_defs ProducerL_handleMessage_def request_kind [OF i] request_unique [OF i])
qed

lemma assign_ok:
  assumes "firstFreeProducer d = idx j" and "freeProducers d = [f1, f2]"
  shows "Deliverer_assign pcL_net m (d, k) =
    Inr (d\<lparr>freeProducers := (if j = One then [False, f2] else [f1, False]),
           firstFreeProducer := (if j = One then if f2 then 1 else - 1 else if f1 then 0 else - 1)\<rparr>,
         (kcall (Sent \<lparr>ev_time = simTime k, ev_module = Producer j, ev_gate = Some (''in'', 0), ev_msg = m\<rparr>) k)
           \<lparr>fes := add_mset \<lparr>ev_time = simTime k, ev_module = Producer j, ev_gate = Some (''in'', 0), ev_msg = m\<rparr> (fes k)\<rparr>)"
  using assms
  by (cases j) (simp_all add: Deliverer_assign_def send_ok pcL_net_def port_def array_set_def array_get_def Let_def
      c_rem_nonneg)

lemma newRequest_step:
  assumes inv: "pcL_inv contents logging (s, k)" and e: "earliest e k"
    and m: "ev_module e = Centre" "ev_gate e = Some (''in'', idx i)" and i: "request_of i (ev_msg e)"
  shows "\<exists>s'. pcL_deliver K logging e (s, begin_event e k) = Inr s' \<and> pcL_inv contents logging s'"
proof (cases "firstFreeProducer (deliverer_of s) = - 1")
  case True
  with laterL_ok [OF inv e] inv m i show ?thesis
    by (auto simp: stepL_defs Deliverer_handleMessage_def contents_insert request_unique [OF i])
next
  case False
  with inv obtain j where j: "firstFreeProducer (deliverer_of s) = idx j" "pending (job_of j) (fes k) = 0"
    "contents (waiting (deliverer_of s)) = []" by (auto simp: pcL_inv_def deliverer_ok_def)
  have at_most: "\<forall>j. 0 \<le> pending (job_of j) (fes k) \<and> pending (job_of j) (fes k) \<le> 1"
    using inv by (simp add: pcL_inv_def deliverer_ok_def pending_nonneg)
  have fp: "freeProducers (deliverer_of s) = [pending (job_of One) (fes k) = 0, pending (job_of Two) (fes k) = 0]"
    using inv by (simp add: pcL_inv_def deliverer_ok_def)
  let ?job = "\<lparr>ev_time = ev_time e, ev_module = Producer j, ev_gate = Some (''in'', 0), ev_msg = ev_msg e\<rparr>"
  obtain d k' where d: "Deliverer_assign pcL_net (ev_msg e) (deliverer_of s, begin_event e k) = Inr (d, k')"
    and d': "fes k' = add_mset ?job (fes k - {#e#})" "simTime k' = ev_time e" "waiting d = waiting (deliverer_of s)"
      "freeProducers d = (if j = One then [False, pending (job_of Two) (fes k) = 0]
         else [pending (job_of One) (fes k) = 0, False])"
      "firstFreeProducer d = (if j = One then if pending (job_of Two) (fes k) = 0 then 1 else - 1
         else if pending (job_of One) (fes k) = 0 then 0 else - 1)"
    using assign_ok [OF j(1) fp, of "ev_msg e" "begin_event e k"] by simp
  have "pcL_deliver K logging e (s, begin_event e k) = Inr (s\<lparr>deliverer_of := d\<rparr>, k')"
    using m d False by (simp add: pcL_deliver_def Deliverer_handleMessage_def)
  moreover have "deliverer_ok contents (fes k') d"
    using j d' m laterL_ok(1) [OF inv e] at_most
    by (cases j) (auto simp: deliverer_ok_def pending_remove job_of_def all_who ex_who)
  then have "pcL_inv contents logging (s\<lparr>deliverer_of := d\<rparr>, k')"
    using laterL_ok [OF inv e] inv i d'(1-3)
    by (auto simp: pcL_inv_def consumerL_ok_def timely_def pending_remove request_unique [OF i])
  ultimately show ?thesis by blast
qed

lemma freed_step:
  assumes inv: "pcL_inv contents logging (s, k)" and e: "earliest e k"
    and m: "ev_module e = Centre" "ev_gate e = Some (''freeNotification'', idx j)"
    and i: "\<not> request_of One (ev_msg e) \<and> \<not> request_of Two (ev_msg e)"
  shows "\<exists>s'. pcL_deliver K logging e (s, begin_event e k) = Inr s' \<and> pcL_inv contents logging s'"
proof -
  have job: "pending (job_of j) (fes k) = 1"
    using inv pending_pos [OF laterL_ok(1) [OF inv e], of "job_of j"] m
    by (auto simp: pcL_inv_def deliverer_ok_def job_of_def intro: antisym)
  note no_request = not_request [OF i]
  show ?thesis
  proof (cases "contents (waiting (deliverer_of s))")
    case Nil
    with job no_request laterL_ok [OF inv e] inv m show ?thesis
      by (cases j) (auto simp: stepL_defs Deliverer_handleMessage_def isEmpty_contents array_set_def all_who ex_who
          split: if_splits)
  next
    case (Cons r rs)
    from pop_Cons [OF this] obtain q where q: "q_pop K (waiting (deliverer_of s)) = Some (r, q)" "contents q = rs" by blast
    from inv Cons obtain i' where r: "request_of i' r" by (auto simp: pcL_inv_def deliverer_ok_def)
    from inv Cons have ff: "firstFreeProducer (deliverer_of s) = - 1" "\<forall>j. pending (job_of j) (fes k) = 1"
      by (auto simp: pcL_inv_def deliverer_ok_def split: if_splits)
    let ?job = "\<lparr>ev_time = ev_time e, ev_module = Producer j, ev_gate = Some (''in'', 0), ev_msg = r\<rparr>"
    let ?s = "s\<lparr>deliverer_of := (deliverer_of s)\<lparr>waiting := q, freeProducers := [False, False],
      firstFreeProducer := - 1\<rparr>\<rparr>"
    let ?k = "(kcall (Sent ?job) (begin_event e k))\<lparr>fes := add_mset ?job (fes k - {#e#})\<rparr>"
    have fp: "freeProducers (deliverer_of s) = [False, False]"
      using inv ff by (simp add: pcL_inv_def deliverer_ok_def)
    then have "pcL_deliver K logging e (s, begin_event e k) = Inr (?s, ?k)"
      using m q Cons ff(1)
      by (cases j) (simp_all add: pcL_deliver_def Deliverer_handleMessage_def isEmpty_contents array_set_def
          Deliverer_assign_def send_ok pcL_net_def port_def array_get_def Let_def c_rem_nonneg)
    moreover have "pcL_inv contents logging (?s, ?k)"
      using no_request laterL_ok [OF inv e] inv m q r Cons ff
      by (auto simp: pcL_inv_def deliverer_ok_def consumerL_ok_def timely_def pending_remove job_of_def
          request_unique [OF r])
    ultimately show ?thesis by blast
  qed
qed

lemma pcL_step:
  assumes inv: "pcL_inv contents logging (s, k)" and e: "earliest e k"
  shows "\<exists>s'. pcL_deliver K logging e (s, begin_event e k) = Inr s' \<and> pcL_inv contents logging s'"
proof (cases "ev_module e")
  case (Consumer i)
  then show ?thesis using beep_step [OF assms] answer_step [OF assms] by (cases "ev_gate e") blast+
next
  case Centre
  with laterL_ok(2) [OF assms] newRequest_step [OF assms] freed_step [OF assms] show ?thesis
    by (auto simp: event_okL_def)
qed (use dispatcherL_step [OF assms] producerL_step [OF assms] in blast)+

lemma pcL_start_inv:
  assumes "fes k0 = {#}" and "\<forall>i. 0 \<le> ct i" and "\<forall>i. cid i = idx i + 1" and "\<forall>j. 0 \<le> rt j"
    and "pcL_start K ct cid rt 2 (s, k0) = Inr s0"
  shows "pcL_inv contents logging s0"
  using assms by (auto simp: pcL_start_def Deliverer_initialize_def ConsumerL_initialize_def ProducerL_initialize_def
      stepL_defs contents_new numeral_2_eq_2 all_who ex_who)

end

sublocale pcL_library \<subseteq> pcl: network_invariant "pcL_deliver K logging" "pcL_inv contents logging" for logging
  by unfold_locales (rule pcL_step)

context pcL_library
begin

lemmas pcL_run = pcl.run_inv [OF _ pcL_start_inv] pcl.run_never_fails [OF _ pcL_start_inv]

end

interpretation list_pcL: pcL_library list_omnet "\<lambda>q. q"
  by (intro pcL_library.intro) (rule list_library.omnetpp_axioms)

text \<open>
  (C16) With two producers, the deliverer of \<open>Luigi/ProducerConsumer\<close> never overloads a producer and
  never leaves one idle while requests wait: in every run each producer has at most one job, is
  marked free exactly when it has none, requests wait only while both have one, and no handler
  throws.
\<close>

theorem producers_one_job:
  assumes "pcL_library K contents" and "fes k0 = {#}" and "\<forall>i. 0 \<le> ct i" and "\<forall>i. cid i = idx i + 1"
    and "\<forall>j. 0 \<le> rt j" and "pcL_start K ct cid rt 2 (s00, k0) = Inr s0"
    and "net_run (pcL_deliver K logging) s0 (s, k)"
  shows "(\<forall>e. earliest e k \<longrightarrow> (\<exists>s'. pcL_deliver K logging e (s, begin_event e k) = Inr s')) \<and>
    (\<forall>j. pending (job_of j) (fes k) \<le> 1) \<and>
    freeProducers (deliverer_of s) = [pending (job_of One) (fes k) = 0, pending (job_of Two) (fes k) = 0] \<and>
    (contents (waiting (deliverer_of s)) \<noteq> [] \<longrightarrow> (\<forall>j. pending (job_of j) (fes k) = 1))"
proof -
  note run = pcL_library.pcL_run [OF assms(1,7,2-6)]
  from run(1) have "deliverer_ok contents (fes k) (deliverer_of s)" by (simp add: pcL_inv_def)
  then show ?thesis using run(2) by (auto simp: deliverer_ok_def split: if_splits)
qed

text \<open>
  (C20) While logging is enabled, \<open>pendentRequest\<close> of a consumer is the number of its requests still in
  the network, waiting at the deliverer included; every response goes back to the consumer that
  asked.
\<close>

theorem pendentRequest_exact:
  assumes "pcL_library K contents" and "fes k0 = {#}" and "\<forall>i. 0 \<le> ct i" and "\<forall>i. cid i = idx i + 1"
    and "\<forall>j. 0 \<le> rt j" and "pcL_start K ct cid rt 2 (s00, k0) = Inr s0"
    and "net_run (pcL_deliver K True) s0 (s, k)"
  shows "(\<forall>i. pendentRequest (consumersL s i) = pending (\<lambda>e. request_of i (ev_msg e)) (fes k) +
           int (length (filter (request_of i) (contents (waiting (deliverer_of s)))))) \<and>
         (\<forall>e\<in>#fes k. \<forall>i. on_gate (Consumer i) e \<longrightarrow> request_of i (ev_msg e))"
proof -
  note inv = pcL_library.pcL_run(1) [OF assms(1,7,2-6)]
  then have "\<forall>i. consumerL_ok contents True (fes k) (deliverer_of s) i (consumersL s i)"
    and "\<forall>e\<in>#fes k. event_okL e" by (simp_all add: pcL_inv_def)
  then show ?thesis by (auto simp: consumerL_ok_def event_okL_def on_gate_def)
qed

definition pcL_blank :: "pc_msg list pcL" where
  "pcL_blank = \<lparr>consumersL = (\<lambda>_. \<lparr>pendentRequest = 5, consumer_id = 5, consumptionTime = 5\<rparr>),
     deliverer_of = \<lparr>n_producers = 5, freeProducers = [], firstFreeProducer = 5, waiting = []\<rparr>,
     producersL = (\<lambda>_. \<lparr>responseTime = 5\<rparr>)\<rparr>"

abbreviation "pcL_demo_start \<equiv>
  pcL_start (list_omnet :: (pc_msg list, pc_msg, unit) omnet) (\<lambda>_. 1) (\<lambda>i. idx i + 1) (\<lambda>_. 2) 2 (pcL_blank, pc_blank)"

abbreviation pcL_demo_deliver ::
  "(pc_module, pc_msg) event \<Rightarrow> pc_msg list pcL \<times> unit pc_kernel \<Rightarrow> error + pc_msg list pcL \<times> unit pc_kernel" where
  "pcL_demo_deliver \<equiv> pcL_deliver (list_omnet :: (pc_msg list, pc_msg, unit) omnet) True"

lemma pcL_demo:
  "\<exists>s0 s k. pcL_demo_start = Inr s0 \<and> net_run pcL_demo_deliver s0 (s, k) \<and> pendentRequest (consumersL s One) = 1"
proof -
  let ?e = "\<lparr>ev_time = 0, ev_module = Consumer One, ev_gate = None, ev_msg = new_msg ''beep'' 0\<rparr>"
  obtain s0 k where st: "pcL_demo_start = Inr (s0, k)"
    and k: "\<not> halted k" "simTime k = 0" "pendentRequest (consumersL s0 One) = 0" "consumptionTime (consumersL s0 One) = 1"
      "fes k = {#\<lparr>ev_time = 0, ev_module = Consumer Two, ev_gate = None, ev_msg = new_msg ''beep'' 0\<rparr>, ?e#}"
    by (simp add: pcL_start_def Deliverer_initialize_def ConsumerL_initialize_def pcL_blank_def pc_blank_def Let_def
        scheduleAt_ok)
  from k have e: "earliest ?e k" by (auto simp: earliest_def)
  obtain s' k' where d: "pcL_demo_deliver ?e (s0, begin_event ?e k) = Inr (s', k')"
    and r: "pendentRequest (consumersL s' One) = 1"
    using k by (simp add: pcL_deliver_def ConsumerL_handleMessage_def isSelfMessage_def Let_def scheduleAt_ok send_ok
        pcL_net_def list_omnet_def)
  from st r net_step [OF net_start [of pcL_demo_deliver] k(1) e d] show ?thesis by blast
qed

theorem producers_one_job_witness:
  "\<exists>s0 s k. pcL_demo_start = Inr s0 \<and> net_run pcL_demo_deliver s0 (s, k) \<and> pendentRequest (consumersL s One) = 1 \<and>
     (\<forall>j. pending (job_of j) (fes k) \<le> 1)"
proof -
  from pcL_demo obtain s0 s k where r: "pcL_demo_start = Inr s0" "net_run pcL_demo_deliver s0 (s, k)"
    "pendentRequest (consumersL s One) = 1" by blast
  with producers_one_job [OF list_pcL.pcL_library_axioms pc_blank_simps(1) _ _ _ r(1,2)] show ?thesis by auto
qed

theorem pendentRequest_exact_witness:
  "\<exists>s0 s k. pcL_demo_start = Inr s0 \<and> net_run pcL_demo_deliver s0 (s, k) \<and>
     pending (\<lambda>e. request_of One (ev_msg e)) (fes k) +
       int (length (filter (request_of One) (waiting (deliverer_of s)))) = 1"
proof -
  from pcL_demo obtain s0 s k where r: "pcL_demo_start = Inr s0" "net_run pcL_demo_deliver s0 (s, k)"
    "pendentRequest (consumersL s One) = 1" by blast
  with pendentRequest_exact [OF list_pcL.pcL_library_axioms pc_blank_simps(1) _ _ _ r(1,2)] show ?thesis by auto
qed

text \<open>
  (C23) The deliverer is written for two producers: with \<open>nProducers = 1\<close> the first request reads
  \<open>freeProducers[1]\<close>, past the end of the array.
\<close>

theorem deliverer_needs_two_producers:
  "\<exists>d'. Deliverer_initialize K 1 d = Inr d' \<and>
     Deliverer_handleMessage K pcL_net (''in'', i) msg (d', k) = Inl IndexOutOfRange"
  by (simp add: Deliverer_initialize_def Deliverer_handleMessage_def Deliverer_assign_def send_ok pcL_net_def port_def
      array_set_def array_get_def Let_def c_rem_nonneg)

end
