(* ===== verification/RunwayHandshake.thy ===== *)
theory RunwayHandshake
  imports Network
begin

text \<open>
  The airport of \<open>Other Projects/ControlTowrMaEl\<close>. It has no control tower: the sky owns the runway,
  the take-off area asks for it (\<open>runwayRequest\<close>), gets it (\<open>runwayAvailable\<close> from the sky), keeps it until
  its queue is empty and gives it back (\<open>runwayAvailable\<close> to the sky). The exchange is correct only
  because messages sent at the same time arrive in the order in which they were sent, so the pending
  messages are kept here as a list in the order of insertion, and the earliest message that was
  inserted first is delivered.
\<close>

section \<open>Messages and the event list\<close>

datatype me_module = TheSky | TheRunway | TheParking | TheTakeOff

text \<open>A message object: its name and its identity.\<close>

record me_msg =
  m_name :: string
  m_id :: nat

datatype me_signal = NumAirplanes me_module | WaitingTimeLanding | WaitingTimeTakeOff

record 'g me_kernel =
  now :: simtime
  pend :: "(me_module, me_msg) event list"
  me_rng :: 'g
  next_id :: nat
  log :: "(me_signal \<times> sample) list"

fun pick :: "('d, 'm) event list \<Rightarrow> (('d, 'm) event \<times> ('d, 'm) event list) option" where
  "pick [] = None"
| "pick (e # es) =
     (case pick es of
        None \<Rightarrow> Some (e, [])
      | Some (m, rest) \<Rightarrow> if ev_time e \<le> ev_time m then Some (e, es) else Some (m, e # rest))"

definition me_emit :: "me_signal \<Rightarrow> sample \<Rightarrow> 'g me_kernel \<Rightarrow> 'g me_kernel" where
  "me_emit sig v k = k\<lparr>log := log k @ [(sig, v)]\<rparr>"

definition new_cMessage :: "string \<Rightarrow> 'g me_kernel \<Rightarrow> me_msg \<times> 'g me_kernel" where
  "new_cMessage name k = (\<lparr>m_name = name, m_id = next_id k\<rparr>, k\<lparr>next_id := next_id k + 1\<rparr>)"

definition me_scheduleAt :: "me_module \<Rightarrow> simtime \<Rightarrow> me_msg \<Rightarrow> 'g me_kernel \<Rightarrow> error + 'g me_kernel" where
  "me_scheduleAt self t msg k =
     (if t < now k then Inl ScheduledInPast
      else Inr (k\<lparr>pend := pend k @ [\<lparr>ev_time = t, ev_module = self, ev_gate = None, ev_msg = msg\<rparr>]\<rparr>))"

definition me_net :: "me_module \<Rightarrow> string \<Rightarrow> (me_module \<times> string) option" where
  "me_net m gate =
     (case m of
        TheRunway \<Rightarrow> if gate = ''park'' then Some (TheParking, ''park'') else None
      | TheParking \<Rightarrow> if gate = ''takeOff'' then Some (TheTakeOff, ''park'') else None
      | TheTakeOff \<Rightarrow> if gate = ''takeOff'' then Some (TheRunway, ''takeOff'')
                      else if gate = ''outSky'' then Some (TheSky, ''inTakeoff'') else None
      | TheSky \<Rightarrow> if gate = ''runway'' then Some (TheRunway, ''sky'')
                  else if gate = ''outTakeoff'' then Some (TheTakeOff, ''inSky'') else None)"

definition me_send :: "me_module \<Rightarrow> string \<Rightarrow> me_msg \<Rightarrow> 'g me_kernel \<Rightarrow> error + 'g me_kernel" where
  "me_send self gate msg k =
     (case me_net self gate of
        None \<Rightarrow> Inl GateNotConnected
      | Some (dest, g) \<Rightarrow>
          Inr (k\<lparr>pend := pend k @ [\<lparr>ev_time = now k, ev_module = dest, ev_gate = Some (g, 0), ev_msg = msg\<rparr>]\<rparr>))"

text \<open>\<open>cancelEvent\<close> removes the message from the event list if it is scheduled.\<close>

definition cancelEvent :: "me_msg option \<Rightarrow> 'g me_kernel \<Rightarrow> error + 'g me_kernel" where
  "cancelEvent p k =
     (case p of
        None \<Rightarrow> Inl NullDereference
      | Some msg \<Rightarrow> Inr (k\<lparr>pend := filter (\<lambda>e. \<not> (isSelfMessage e \<and> m_id (ev_msg e) = m_id msg)) (pend k)\<rparr>))"

definition me_duration :: "('q, me_msg, 'g) omnet \<Rightarrow> bool \<Rightarrow> double \<Rightarrow> int \<Rightarrow> 'g \<Rightarrow> double \<times> 'g" where
  "me_duration K expo mean i g = (if expo then rng_exponential K g mean i else (mean, g))"

record me_par =
  expo :: bool
  lambda :: double
  tl_mean :: double
  tp_mean :: double
  to_mean :: double

section \<open>Sky\<close>

record 'q Sky =
  usingRunway :: bool
  sky_runwayAvailable :: bool
  nextL :: "me_msg option"
  nextLtime :: simtime
  sky_airplanes :: 'q
  sky_times :: "double list"

definition Sky_scheduleArrival ::
  "('q, me_msg, 'g) omnet \<Rightarrow> me_par \<Rightarrow> 'g me_kernel \<Rightarrow> error + 'g me_kernel" where
  "Sky_scheduleArrival K P k =
     (let (time, g) = me_duration K (expo P) (lambda P) 1 (me_rng k);
          (msg, k) = new_cMessage ''arrival'' (k\<lparr>me_rng := g\<rparr>)
      in me_scheduleAt TheSky (now k + toSimtime K time) msg k)"

definition Sky_initialize ::
  "('q, me_msg, 'g) omnet \<Rightarrow> me_par \<Rightarrow> 'g me_kernel \<Rightarrow> error + 'g me_kernel" where
  "Sky_initialize K P k = Sky_scheduleArrival K P k"

definition Sky_scheduleLanding ::
  "('q, me_msg, 'g) omnet \<Rightarrow> me_par \<Rightarrow> 'q Sky \<times> 'g me_kernel \<Rightarrow> error + 'q Sky \<times> 'g me_kernel" where
  "Sky_scheduleLanding K P = (\<lambda>(s, k).
     let s = s\<lparr>usingRunway := True\<rparr>;
         (time, g) = me_duration K (expo P) (tl_mean P) 2 (me_rng k);
         (msg, k) = new_cMessage ''landing'' (k\<lparr>me_rng := g\<rparr>);
         s = s\<lparr>nextL := Some msg, nextLtime := now k\<rparr>
     in ebind (me_scheduleAt TheSky (now k + toSimtime K time) msg k) (\<lambda>k. Inr (s, k)))"

definition Sky_handleArrival ::
  "('q, me_msg, 'g) omnet \<Rightarrow> me_par \<Rightarrow> 'q Sky \<times> 'g me_kernel \<Rightarrow> error + 'q Sky \<times> 'g me_kernel" where
  "Sky_handleArrival K P = (\<lambda>(s, k).
     let (plane, k) = new_cMessage '''' k;
         s = s\<lparr>sky_airplanes := q_insert K (sky_airplanes s) plane\<rparr>;
         s = s\<lparr>sky_times := sky_times s @ [fromSimtime K (now k)]\<rparr>
     in ebind (if q_getLength K (sky_airplanes s) = 1 \<and> sky_runwayAvailable s then Sky_scheduleLanding K P (s, k)
               else Inr (s, k)) (\<lambda>(s, k).
        let k = me_emit (NumAirplanes TheSky) (Long (q_getLength K (sky_airplanes s))) k
        in ebind (Sky_scheduleArrival K P k) (\<lambda>k. Inr (s, k))))"

definition Sky_handleLanding ::
  "('q, me_msg, 'g) omnet \<Rightarrow> me_par \<Rightarrow> 'q Sky \<times> 'g me_kernel \<Rightarrow> error + 'q Sky \<times> 'g me_kernel" where
  "Sky_handleLanding K P = (\<lambda>(s, k).
     let s = s\<lparr>usingRunway := False\<rparr> in
     case q_pop K (sky_airplanes s) of
       None \<Rightarrow> Inl EmptyQueuePop
     | Some (plane, q) \<Rightarrow>
         let s = s\<lparr>sky_airplanes := q\<rparr> in
         ebind (me_send TheSky ''runway'' plane k) (\<lambda>k.
           case sky_times s of
             [] \<Rightarrow> Inl NullDereference
           | t # ts \<Rightarrow>
               let waiting = fromSimtime K (now k) - t;
                   k = me_emit WaitingTimeLanding (Double waiting) k;
                   s = s\<lparr>sky_times := ts\<rparr>;
                   k = me_emit (NumAirplanes TheSky) (Long (q_getLength K (sky_airplanes s))) k
               in ebind (if \<not> sky_runwayAvailable s then
                           let (msg, k) = new_cMessage ''runwayAvailable'' k
                           in me_send TheSky ''outTakeoff'' msg k
                         else Inr k) (\<lambda>k.
                    if \<not> q_isEmpty K (sky_airplanes s) \<and> sky_runwayAvailable s then Sky_scheduleLanding K P (s, k)
                    else Inr (s, k))))"

definition Sky_handleStopFromTakeoff ::
  "'q Sky \<times> 'g me_kernel \<Rightarrow> error + 'q Sky \<times> 'g me_kernel" where
  "Sky_handleStopFromTakeoff = (\<lambda>(s, k).
     let s = s\<lparr>sky_runwayAvailable := False\<rparr> in
     ebind (if now k - nextLtime s = 0 then
              let s = s\<lparr>usingRunway := False\<rparr>
              in ebind (cancelEvent (nextL s) k) (\<lambda>k. Inr (s, k))
            else Inr (s, k)) (\<lambda>(s, k).
       if \<not> usingRunway s then
         let (msg, k) = new_cMessage ''runwayAvailable'' k
         in ebind (me_send TheSky ''outTakeoff'' msg k) (\<lambda>k. Inr (s, k))
       else Inr (s, k)))"

definition Sky_handleAvailableFromTakeoff ::
  "('q, me_msg, 'g) omnet \<Rightarrow> me_par \<Rightarrow> 'q Sky \<times> 'g me_kernel \<Rightarrow> error + 'q Sky \<times> 'g me_kernel" where
  "Sky_handleAvailableFromTakeoff K P = (\<lambda>(s, k).
     let s = s\<lparr>sky_runwayAvailable := True\<rparr>
     in if \<not> q_isEmpty K (sky_airplanes s) then Sky_scheduleLanding K P (s, k) else Inr (s, k))"

definition Sky_handleMessage ::
  "('q, me_msg, 'g) omnet \<Rightarrow> me_par \<Rightarrow> me_msg \<Rightarrow> 'q Sky \<times> 'g me_kernel \<Rightarrow> error + 'q Sky \<times> 'g me_kernel" where
  "Sky_handleMessage K P msg st =
     ebind (if m_name msg = ''arrival'' then Sky_handleArrival K P st else Inr st) (\<lambda>st.
     ebind (if m_name msg = ''landing'' then Sky_handleLanding K P st else Inr st) (\<lambda>st.
     ebind (if m_name msg = ''runwayRequest'' then Sky_handleStopFromTakeoff st else Inr st) (\<lambda>st.
       if m_name msg = ''runwayAvailable'' then Sky_handleAvailableFromTakeoff K P st else Inr st)))"

section \<open>Take-off area\<close>

record 'q TakeOff =
  to_runwayAvailable :: bool
  to_airplanes :: 'q
  to_times :: "double list"

definition TakeOff_scheduleTakeOff ::
  "('q, me_msg, 'g) omnet \<Rightarrow> me_par \<Rightarrow> 'g me_kernel \<Rightarrow> error + 'g me_kernel" where
  "TakeOff_scheduleTakeOff K P k =
     (let (time, g) = me_duration K (expo P) (to_mean P) 0 (me_rng k);
          (msg, k) = new_cMessage ''takeOff'' (k\<lparr>me_rng := g\<rparr>)
      in me_scheduleAt TheTakeOff (now k + toSimtime K time) msg k)"

definition TakeOff_handleAirplaneFromParking ::
  "('q, me_msg, 'g) omnet \<Rightarrow> me_par \<Rightarrow> me_msg \<Rightarrow> 'q TakeOff \<times> 'g me_kernel \<Rightarrow> error + 'q TakeOff \<times> 'g me_kernel" where
  "TakeOff_handleAirplaneFromParking K P msg = (\<lambda>(t, k).
     let t = t\<lparr>to_airplanes := q_insert K (to_airplanes t) msg\<rparr>;
         t = t\<lparr>to_times := to_times t @ [fromSimtime K (now k)]\<rparr>
     in ebind (if \<not> to_runwayAvailable t then
                 if q_getLength K (to_airplanes t) = 1 then
                   let (req, k) = new_cMessage ''runwayRequest'' k in me_send TheTakeOff ''outSky'' req k
                 else Inr k
               else if q_getLength K (to_airplanes t) = 1 then TakeOff_scheduleTakeOff K P k
               else Inr k) (\<lambda>k.
          Inr (t, me_emit (NumAirplanes TheTakeOff) (Long (q_getLength K (to_airplanes t))) k)))"

definition TakeOff_handleOkFromSky ::
  "('q, me_msg, 'g) omnet \<Rightarrow> me_par \<Rightarrow> 'q TakeOff \<times> 'g me_kernel \<Rightarrow> error + 'q TakeOff \<times> 'g me_kernel" where
  "TakeOff_handleOkFromSky K P = (\<lambda>(t, k).
     let t = t\<lparr>to_runwayAvailable := True\<rparr>
     in ebind (TakeOff_scheduleTakeOff K P k) (\<lambda>k. Inr (t, k)))"

definition TakeOff_handleTakeOff ::
  "('q, me_msg, 'g) omnet \<Rightarrow> me_par \<Rightarrow> 'q TakeOff \<times> 'g me_kernel \<Rightarrow> error + 'q TakeOff \<times> 'g me_kernel" where
  "TakeOff_handleTakeOff K P = (\<lambda>(t, k).
     case q_pop K (to_airplanes t) of
       None \<Rightarrow> Inl EmptyQueuePop
     | Some (plane, q) \<Rightarrow>
         let t = t\<lparr>to_airplanes := q\<rparr> in
         ebind (me_send TheTakeOff ''takeOff'' plane k) (\<lambda>k.
           let k = me_emit (NumAirplanes TheTakeOff) (Long (q_getLength K (to_airplanes t))) k in
           case to_times t of
             [] \<Rightarrow> Inl NullDereference
           | t0 # ts \<Rightarrow>
               let waiting = fromSimtime K (now k) - t0;
                   k = me_emit WaitingTimeTakeOff (Double waiting) k;
                   t = t\<lparr>to_times := ts\<rparr>
               in if \<not> q_isEmpty K (to_airplanes t) then
                    ebind (TakeOff_scheduleTakeOff K P k) (\<lambda>k. Inr (t, k))
                  else
                    let t = t\<lparr>to_runwayAvailable := False\<rparr>;
                        (msg, k) = new_cMessage ''runwayAvailable'' k
                    in ebind (me_send TheTakeOff ''outSky'' msg k) (\<lambda>k. Inr (t, k))))"

definition TakeOff_handleMessage ::
  "('q, me_msg, 'g) omnet \<Rightarrow> me_par \<Rightarrow> (me_module, me_msg) event
    \<Rightarrow> 'q TakeOff \<times> 'g me_kernel \<Rightarrow> error + 'q TakeOff \<times> 'g me_kernel" where
  "TakeOff_handleMessage K P e st =
     (if isSelfMessage e then TakeOff_handleTakeOff K P st
      else
        ebind (if ev_gate e = Some (''park'', 0) then TakeOff_handleAirplaneFromParking K P (ev_msg e) st else Inr st)
          (\<lambda>st. if ev_gate e = Some (''inSky'', 0) then TakeOff_handleOkFromSky K P st else Inr st))"

section \<open>Parking and runway\<close>

record Parking =
  numAirplanes :: int

definition Parking_handleMessage ::
  "('q, me_msg, 'g) omnet \<Rightarrow> me_par \<Rightarrow> bool \<Rightarrow> Parking \<times> 'g me_kernel \<Rightarrow> error + Parking \<times> 'g me_kernel" where
  "Parking_handleMessage K P self = (\<lambda>(p, k).
     if self then
       let p = p\<lparr>numAirplanes := numAirplanes p - 1\<rparr>;
           k = me_emit (NumAirplanes TheParking) (Long (numAirplanes p)) k;
           (plane, k) = new_cMessage '''' k
       in ebind (me_send TheParking ''takeOff'' plane k) (\<lambda>k. Inr (p, k))
     else
       let p = p\<lparr>numAirplanes := numAirplanes p + 1\<rparr>;
           k = me_emit (NumAirplanes TheParking) (Long (numAirplanes p)) k;
           (time, g) = me_duration K (expo P) (tp_mean P) 0 (me_rng k);
           (msg, k) = new_cMessage '''' (k\<lparr>me_rng := g\<rparr>)
       in ebind (me_scheduleAt TheParking (now k + toSimtime K time) msg k) (\<lambda>k. Inr (p, k)))"

definition Runway_handleMessage ::
  "(me_module, me_msg) event \<Rightarrow> 'g me_kernel \<Rightarrow> error + 'g me_kernel" where
  "Runway_handleMessage e k =
     (case ev_gate e of
        None \<Rightarrow> Inl NullDereference
      | Some (gate, _) \<Rightarrow> if gate = ''sky'' then me_send TheRunway ''park'' (ev_msg e) k else Inr k)"

section \<open>The network\<close>

record 'q me_state =
  the_sky :: "'q Sky"
  the_takeOff :: "'q TakeOff"
  the_parking :: Parking

text \<open>The attributes start with their default member initializers; \<open>nextL\<close> has none.\<close>

definition me_initial :: "('q, me_msg, 'g) omnet \<Rightarrow> 'q me_state" where
  "me_initial K =
     \<lparr>the_sky = \<lparr>usingRunway = False, sky_runwayAvailable = True, nextL = None, nextLtime = 0,
                 sky_airplanes = q_new K, sky_times = []\<rparr>,
      the_takeOff = \<lparr>to_runwayAvailable = False, to_airplanes = q_new K, to_times = []\<rparr>,
      the_parking = \<lparr>numAirplanes = 0\<rparr>\<rparr>"

definition me_start ::
  "('q, me_msg, 'g) omnet \<Rightarrow> me_par \<Rightarrow> 'g me_kernel \<Rightarrow> error + 'q me_state \<times> 'g me_kernel" where
  "me_start K P k = ebind (Sky_initialize K P k) (\<lambda>k. Inr (me_initial K, k))"

definition me_deliver ::
  "('q, me_msg, 'g) omnet \<Rightarrow> me_par \<Rightarrow> (me_module, me_msg) event
    \<Rightarrow> 'q me_state \<times> 'g me_kernel \<Rightarrow> error + 'q me_state \<times> 'g me_kernel" where
  "me_deliver K P e = (\<lambda>(s, k).
     case ev_module e of
       TheSky \<Rightarrow> ebind (Sky_handleMessage K P (ev_msg e) (the_sky s, k)) (\<lambda>(x, k). Inr (s\<lparr>the_sky := x\<rparr>, k))
     | TheTakeOff \<Rightarrow> ebind (TakeOff_handleMessage K P e (the_takeOff s, k)) (\<lambda>(x, k). Inr (s\<lparr>the_takeOff := x\<rparr>, k))
     | TheParking \<Rightarrow> ebind (Parking_handleMessage K P (isSelfMessage e) (the_parking s, k))
                      (\<lambda>(x, k). Inr (s\<lparr>the_parking := x\<rparr>, k))
     | TheRunway \<Rightarrow> ebind (Runway_handleMessage e k) (\<lambda>k. Inr (s, k)))"

inductive me_run ::
  "('q, me_msg, 'g) omnet \<Rightarrow> me_par \<Rightarrow> 'q me_state \<times> 'g me_kernel \<Rightarrow> 'q me_state \<times> 'g me_kernel \<Rightarrow> bool"
  for K P s0 where
  me_begin: "me_run K P s0 s0"
| me_next: "me_run K P s0 (s, k) \<Longrightarrow> pick (pend k) = Some (e, rest) \<Longrightarrow>
    me_deliver K P e (s, k\<lparr>now := ev_time e, pend := rest\<rparr>) = Inr s' \<Longrightarrow> me_run K P s0 s'"

section \<open>The protocol\<close>

text \<open>
  The phases of the exchange, over the two flags of the sky, the flag of the take-off area, the two
  queue lengths, the numbers of landings and take-offs under way and of grants on their way, and the
  messages on their way to the sky with their times: the sky owns the runway, with or without a
  request on its way; a landing has to end first; the grant is on its way; the take-off area owns the
  runway; the runway is on its way back, possibly with a new request behind it.
\<close>

datatype protocol = SkyOwns | Asked | LandingFirst | Granted | TakeOffOwns | Returned | ReturnedAsked

fun phase ::
  "protocol \<Rightarrow> simtime \<Rightarrow> bool \<Rightarrow> bool \<Rightarrow> bool \<Rightarrow> nat \<Rightarrow> nat \<Rightarrow> nat \<Rightarrow> nat \<Rightarrow> nat \<Rightarrow> (string \<times> simtime) list \<Rightarrow> bool" where
  "phase SkyOwns n sRA uR tRA qs qt L T A br \<longleftrightarrow>
     sRA \<and> \<not> tRA \<and> (uR \<longleftrightarrow> qs > 0) \<and> qt = 0 \<and> L = of_bool uR \<and> T = 0 \<and> A = 0 \<and> br = []"
| "phase Asked n sRA uR tRA qs qt L T A br \<longleftrightarrow>
     sRA \<and> \<not> tRA \<and> (uR \<longleftrightarrow> qs > 0) \<and> qt > 0 \<and> L = of_bool uR \<and> T = 0 \<and> A = 0 \<and> (\<exists>t. br = [(''runwayRequest'', t)])"
| "phase LandingFirst n sRA uR tRA qs qt L T A br \<longleftrightarrow>
     \<not> sRA \<and> \<not> tRA \<and> uR \<and> qs > 0 \<and> qt > 0 \<and> L = 1 \<and> T = 0 \<and> A = 0 \<and> br = []"
| "phase Granted n sRA uR tRA qs qt L T A br \<longleftrightarrow>
     \<not> sRA \<and> \<not> tRA \<and> \<not> uR \<and> qt > 0 \<and> L = 0 \<and> T = 0 \<and> A = 1 \<and> br = []"
| "phase TakeOffOwns n sRA uR tRA qs qt L T A br \<longleftrightarrow>
     \<not> sRA \<and> tRA \<and> \<not> uR \<and> qt > 0 \<and> L = 0 \<and> T = 1 \<and> A = 0 \<and> br = []"
| "phase Returned n sRA uR tRA qs qt L T A br \<longleftrightarrow>
     \<not> sRA \<and> \<not> tRA \<and> \<not> uR \<and> qt = 0 \<and> L = 0 \<and> T = 0 \<and> A = 0 \<and> (\<exists>t\<le>n. br = [(''runwayAvailable'', t)])"
| "phase ReturnedAsked n sRA uR tRA qs qt L T A br \<longleftrightarrow>
     \<not> sRA \<and> \<not> tRA \<and> \<not> uR \<and> qt > 0 \<and> L = 0 \<and> T = 0 \<and> A = 0 \<and>
     (\<exists>t\<le>n. \<exists>t'\<ge>t. br = [(''runwayAvailable'', t), (''runwayRequest'', t')])"

lemma phase_L: "phase p n sRA uR tRA qs qt L T A br \<Longrightarrow> L = of_bool uR"
  by (cases p) auto

lemma phase_mono: "phase p n sRA uR tRA qs qt L T A br \<Longrightarrow> n \<le> n' \<Longrightarrow> phase p n' sRA uR tRA qs qt L T A br"
  by (cases p) auto

lemma phase_arrive:
  assumes "phase p n sRA uR tRA qs qt L T A br"
  shows "qs = 0 \<and> sRA \<Longrightarrow> phase p n sRA True tRA 1 qt (L + 1) T A br"
    and "\<not> (qs = 0 \<and> sRA) \<Longrightarrow> phase p n sRA uR tRA (qs + 1) qt L T A br"
  using assms by (cases p; auto)+

lemma phase_land:
  assumes "phase p n sRA uR tRA qs qt (L + 1) T A br"
  shows "qs > 0" and "L = 0" and "sRA \<Longrightarrow> qs > 1 \<Longrightarrow> phase p n sRA True tRA (qs - 1) qt (L + 1) T A br"
    and "sRA \<Longrightarrow> qs \<le> 1 \<Longrightarrow> phase p n sRA False tRA (qs - 1) qt L T A br"
    and "\<not> sRA \<Longrightarrow> phase Granted n sRA False tRA (qs - 1) qt L T (A + 1) br"
  using assms by (cases p; auto)+

lemma phase_request:
  assumes "phase p n sRA uR tRA qs qt L T A (us @ (''runwayRequest'', t) # vs)" and "\<forall>u\<in>set us. t < snd u"
  shows "qt > 0" and "phase Granted n False False tRA qs qt 0 T (A + 1) (us @ vs)"
    and "uR \<Longrightarrow> phase LandingFirst n False True tRA qs qt L T A (us @ vs)"
  using assms by (cases p; auto simp: append_eq_Cons_conv)+

lemma phase_back:
  assumes "phase p n sRA uR tRA qs qt L T A (us @ (''runwayAvailable'', t) # vs)"
  shows "qs > 0 \<Longrightarrow> phase (if p = Returned then SkyOwns else Asked) n True True tRA qs qt (L + 1) T A (us @ vs)"
    and "qs = 0 \<Longrightarrow> phase (if p = Returned then SkyOwns else Asked) n True uR tRA qs qt L T A (us @ vs)"
  using assms by (cases p; auto simp: append_eq_Cons_conv)+

lemma phase_plane:
  assumes "phase p n sRA uR tRA qs qt L T A br"
  shows "tRA \<Longrightarrow> qt > 0"
    and "qt = 0 \<Longrightarrow> phase (if p = SkyOwns then Asked else ReturnedAsked) n sRA uR tRA qs 1 L T A (br @ [(''runwayRequest'', n)])"
    and "qt > 0 \<Longrightarrow> phase p n sRA uR tRA qs (qt + 1) L T A br"
  using assms by (cases p; auto)+

lemma phase_grant:
  assumes "phase p n sRA uR tRA qs qt L T (A + 1) br"
  shows "phase TakeOffOwns n sRA uR True qs qt L (T + 1) A br"
  using assms by (cases p) auto

lemma phase_takeoff:
  assumes "phase p n sRA uR tRA qs qt L (T + 1) A br"
  shows "qt > 0" and "qt > 1 \<Longrightarrow> phase p n sRA uR tRA qs (qt - 1) L (T + 1) A br"
    and "qt = 1 \<Longrightarrow> phase Returned n sRA uR False qs 0 L T A (br @ [(''runwayAvailable'', n)])"
  using assms by (cases p; auto)+

text \<open>No phase allows a landing and a take-off together.\<close>

lemma phase_exclusive: "phase p n sRA uR tRA qs qt L T A br \<Longrightarrow> L + T \<le> 1"
  by (cases p) auto

section \<open>Views of the event list\<close>

definition is_landing :: "(me_module, me_msg) event \<Rightarrow> bool" where
  "is_landing e \<longleftrightarrow> ev_module e = TheSky \<and> ev_gate e = None \<and> m_name (ev_msg e) = ''landing''"

definition is_arrival :: "(me_module, me_msg) event \<Rightarrow> bool" where
  "is_arrival e \<longleftrightarrow> ev_module e = TheSky \<and> ev_gate e = None \<and> m_name (ev_msg e) = ''arrival''"

definition is_takeoff :: "(me_module, me_msg) event \<Rightarrow> bool" where
  "is_takeoff e \<longleftrightarrow> ev_module e = TheTakeOff \<and> ev_gate e = None"

definition is_grant :: "(me_module, me_msg) event \<Rightarrow> bool" where
  "is_grant e \<longleftrightarrow> ev_module e = TheTakeOff \<and> ev_gate e = Some (''inSky'', 0)"

definition is_parked :: "(me_module, me_msg) event \<Rightarrow> bool" where
  "is_parked e \<longleftrightarrow> ev_module e = TheParking \<and> ev_gate e = None"

definition cnt :: "('a \<Rightarrow> bool) \<Rightarrow> 'a list \<Rightarrow> nat" where
  "cnt p es = length (filter p es)"

lemma cnt_simps [simp]:
  "cnt p [] = 0" "cnt p (e # es) = (if p e then 1 else 0) + cnt p es" "cnt p (es @ fs) = cnt p es + cnt p fs"
  by (simp_all add: cnt_def)

definition to_sky :: "(me_module, me_msg) event list \<Rightarrow> (string \<times> simtime) list" where
  "to_sky es = map (\<lambda>e. (m_name (ev_msg e), ev_time e)) (filter (\<lambda>e. ev_module e = TheSky \<and> ev_gate e \<noteq> None) es)"

lemma to_sky_simps [simp]:
  "to_sky [] = []" "to_sky (es @ fs) = to_sky es @ to_sky fs"
  "to_sky (e # es) = (if ev_module e = TheSky \<and> ev_gate e \<noteq> None then [(m_name (ev_msg e), ev_time e)] else []) @ to_sky es"
  by (simp_all add: to_sky_def)

definition event_me :: "(me_module, me_msg) event \<Rightarrow> bool" where
  "event_me e \<longleftrightarrow>
     (case ev_module e of
        TheSky \<Rightarrow> is_landing e \<or> is_arrival e \<or>
                  ev_gate e \<noteq> None \<and> m_name (ev_msg e) \<in> {''runwayRequest'', ''runwayAvailable''}
      | TheTakeOff \<Rightarrow> ev_gate e \<in> {None, Some (''park'', 0), Some (''inSky'', 0)}
      | TheParking \<Rightarrow> True
      | TheRunway \<Rightarrow> ev_gate e \<noteq> None)"

lemma pick_split:
  "pick es = Some (e, rest) \<Longrightarrow>
   \<exists>xs ys. es = xs @ e # ys \<and> rest = xs @ ys \<and> (\<forall>x\<in>set xs. ev_time e < ev_time x) \<and> (\<forall>y\<in>set ys. ev_time e \<le> ev_time y)"
proof (induction es arbitrary: e rest)
  case (Cons a es)
  show ?case
  proof (cases "pick es")
    case None
    then have "es = []" by (cases es) (auto split: option.splits prod.splits if_splits)
    with Cons.prems show ?thesis by auto
  next
    case (Some p)
    then obtain m r where p: "pick es = Some (m, r)" by (cases p) auto
    from Cons.IH [OF p] obtain xs ys where es: "es = xs @ m # ys" "r = xs @ ys"
      "\<forall>x\<in>set xs. ev_time m < ev_time x" "\<forall>y\<in>set ys. ev_time m \<le> ev_time y" by blast
    show ?thesis
    proof (cases "ev_time a \<le> ev_time m")
      case True
      with Cons.prems p have "e = a" "rest = es" by auto
      with True es show ?thesis by (intro exI [of _ "[]"] exI [of _ es]) fastforce
    next
      case False
      with Cons.prems p have "e = m" "rest = a # r" by auto
      with False es show ?thesis by (intro exI [of _ "a # xs"] exI [of _ ys]) auto
    qed
  qed
qed simp

section \<open>The invariant\<close>

definition pend_ok :: "simtime \<Rightarrow> nat \<Rightarrow> me_msg option \<Rightarrow> (me_module, me_msg) event list \<Rightarrow> bool" where
  "pend_ok n i nl es \<longleftrightarrow>
     (\<forall>e\<in>set es. n \<le> ev_time e \<and> event_me e \<and> (ev_gate e = None \<longrightarrow> m_id (ev_msg e) < i)) \<and>
     (case nl of
        None \<Rightarrow> (\<forall>e\<in>set es. is_arrival e)
      | Some m \<Rightarrow> m_id m < i \<and> (\<forall>e\<in>set es. ev_gate e = None \<longrightarrow> (m_id (ev_msg e) = m_id m \<longleftrightarrow> is_landing e)))"

definition me_inv :: "('q \<Rightarrow> me_msg list) \<Rightarrow> 'q me_state \<times> 'g me_kernel \<Rightarrow> bool" where
  "me_inv contents = (\<lambda>(s, k).
     pend_ok (now k) (next_id k) (nextL (the_sky s)) (pend k) \<and>
     length (sky_times (the_sky s)) = length (contents (sky_airplanes (the_sky s))) \<and>
     length (to_times (the_takeOff s)) = length (contents (to_airplanes (the_takeOff s))) \<and>
     (\<exists>p. phase p (now k) (sky_runwayAvailable (the_sky s)) (usingRunway (the_sky s)) (to_runwayAvailable (the_takeOff s))
        (length (contents (sky_airplanes (the_sky s)))) (length (contents (to_airplanes (the_takeOff s))))
        (cnt is_landing (pend k)) (cnt is_takeoff (pend k)) (cnt is_grant (pend k)) (to_sky (pend k))) \<and>
     cnt is_arrival (pend k) = 1 \<and>
     numAirplanes (the_parking s) = int (cnt is_parked (pend k)))"

text \<open>The state in which a handler is called: the delivered message has left the event list.\<close>

definition me_mid :: "('q \<Rightarrow> me_msg list) \<Rightarrow> (me_module, me_msg) event \<Rightarrow> (me_module, me_msg) event list \<Rightarrow> (me_module, me_msg) event list
    \<Rightarrow> protocol \<Rightarrow> 'q me_state \<Rightarrow> 'g me_kernel \<Rightarrow> bool" where
  "me_mid contents e xs ys p s k \<longleftrightarrow>
     pend k = xs @ ys \<and> now k = ev_time e \<and> (\<forall>x\<in>set xs. ev_time e < ev_time x) \<and>
     pend_ok (ev_time e) (next_id k) (nextL (the_sky s)) (xs @ e # ys) \<and>
     length (sky_times (the_sky s)) = length (contents (sky_airplanes (the_sky s))) \<and>
     length (to_times (the_takeOff s)) = length (contents (to_airplanes (the_takeOff s))) \<and>
     phase p (ev_time e) (sky_runwayAvailable (the_sky s)) (usingRunway (the_sky s)) (to_runwayAvailable (the_takeOff s))
        (length (contents (sky_airplanes (the_sky s)))) (length (contents (to_airplanes (the_takeOff s))))
        (cnt is_landing (xs @ e # ys)) (cnt is_takeoff (xs @ e # ys)) (cnt is_grant (xs @ e # ys)) (to_sky (xs @ e # ys)) \<and>
     cnt is_arrival (xs @ e # ys) = 1 \<and>
     numAirplanes (the_parking s) = int (cnt is_parked (xs @ e # ys))"

lemma cnt_filter_other: "(\<And>e. p e \<Longrightarrow> q e) \<Longrightarrow> cnt p (filter q es) = cnt p es"
  by (induction es) auto

lemma cnt_filter_same: "cnt p (filter (\<lambda>e. \<not> p e) es) = 0"
  by (induction es) auto

lemma cnt_not_landing:
  "cnt is_takeoff (filter (\<lambda>e. \<not> is_landing e) es) = cnt is_takeoff es"
  "cnt is_grant (filter (\<lambda>e. \<not> is_landing e) es) = cnt is_grant es"
  "cnt is_arrival (filter (\<lambda>e. \<not> is_landing e) es) = cnt is_arrival es"
  "cnt is_parked (filter (\<lambda>e. \<not> is_landing e) es) = cnt is_parked es"
  by (rule cnt_filter_other; auto simp: is_landing_def is_arrival_def is_takeoff_def is_grant_def is_parked_def)+

lemma to_sky_filter: "to_sky (filter (\<lambda>e. \<not> is_landing e) es) = to_sky es"
  by (induction es) (auto simp: is_landing_def)

lemma cancel_filter:
  assumes "pend_ok n i (Some m) es"
  shows "filter (\<lambda>e. \<not> (isSelfMessage e \<and> m_id (ev_msg e) = m_id m)) es = filter (\<lambda>e. \<not> is_landing e) es"
  using assms by (intro filter_cong) (auto simp: pend_ok_def isSelfMessage_def is_landing_def)

lemma pend_ok_filter: "pend_ok n i nl es \<Longrightarrow> pend_ok n i nl (filter q es)"
  by (auto simp: pend_ok_def split: option.splits)

lemma me_invI:
  assumes "pend_ok (now k) (next_id k) (nextL (the_sky s)) (pend k)"
    and "length (sky_times (the_sky s)) = length (contents (sky_airplanes (the_sky s)))"
    and "length (to_times (the_takeOff s)) = length (contents (to_airplanes (the_takeOff s)))"
    and "phase p (now k) (sky_runwayAvailable (the_sky s)) (usingRunway (the_sky s)) (to_runwayAvailable (the_takeOff s))
        (length (contents (sky_airplanes (the_sky s)))) (length (contents (to_airplanes (the_takeOff s))))
        (cnt is_landing (pend k)) (cnt is_takeoff (pend k)) (cnt is_grant (pend k)) (to_sky (pend k))"
    and "cnt is_arrival (pend k) = 1" and "numAirplanes (the_parking s) = int (cnt is_parked (pend k))"
  shows "me_inv contents (s, k)"
  using assms unfolding me_inv_def by blast

lemma pend_ok_remove: "pend_ok n i nl (xs @ e # ys) \<Longrightarrow> pend_ok n i nl (xs @ ys)"
  by (auto simp: pend_ok_def split: option.splits)

lemma pend_ok_mono: "pend_ok n i nl es \<Longrightarrow> i \<le> i' \<Longrightarrow> pend_ok n i' nl es"
  by (fastforce simp: pend_ok_def split: option.splits)

lemma pend_ok_gate:
  "pend_ok n i nl es \<Longrightarrow> nl \<noteq> None \<Longrightarrow> ev_gate x \<noteq> None \<Longrightarrow> n \<le> ev_time x \<Longrightarrow> event_me x \<Longrightarrow> pend_ok n i nl (es @ [x])"
  by (auto simp: pend_ok_def split: option.splits)

lemma pend_ok_self:
  "pend_ok n i nl es \<Longrightarrow> m_id (ev_msg x) = i \<Longrightarrow> n \<le> ev_time x \<Longrightarrow> event_me x \<Longrightarrow> \<not> is_landing x \<Longrightarrow>
   nl = None \<longrightarrow> is_arrival x \<Longrightarrow> pend_ok n (i + 1) nl (es @ [x])"
  by (fastforce simp: pend_ok_def split: option.splits)

lemma pend_ok_landing:
  assumes "pend_ok n i nl es" and "cnt is_landing es = 0" and "m_id m = i" and "n \<le> ev_time x"
    and "is_landing x" and "m_id (ev_msg x) = i"
  shows "pend_ok n (i + 1) (Some m) (es @ [x])"
proof -
  from assms(2) have "\<forall>e\<in>set es. \<not> is_landing e" by (simp add: cnt_def filter_empty_conv)
  with assms show ?thesis
    by (fastforce simp: pend_ok_def event_me_def is_landing_def split: option.splits)
qed

lemma pend_ok_nextL:
  assumes "pend_ok n i nl es" and "x \<in> set es" and "\<not> is_arrival x"
  shows "nl \<noteq> None"
  using assms by (auto simp: pend_ok_def split: option.splits)

lemmas kind_defs = is_landing_def is_arrival_def is_takeoff_def is_grant_def is_parked_def

locale me_library = omnetpp K contents
  for K :: "('q, me_msg, 'g) omnet" and contents :: "'q \<Rightarrow> me_msg list" +
  fixes P :: me_par
  assumes means: "0 \<le> lambda P" "0 \<le> tl_mean P" "0 \<le> tp_mean P" "0 \<le> to_mean P"
begin

lemma me_duration_ok: "0 \<le> mean \<Longrightarrow> \<exists>t g'. me_duration K b mean i g = (t, g') \<and> 0 \<le> toSimtime K t"
  using exponential_nonneg [of mean g i] toSimtime_nonneg
  by (cases "rng_exponential K g mean i") (auto simp: me_duration_def)

text \<open>What scheduling an arrival, a landing and a take-off adds.\<close>

lemma scheduleArrival_ok:
  "\<exists>k' t. 0 \<le> t \<and> Sky_scheduleArrival K P k = Inr k' \<and> now k' = now k \<and> next_id k' = next_id k + 1 \<and>
     pend k' = pend k @ [\<lparr>ev_time = now k + t, ev_module = TheSky, ev_gate = None,
                          ev_msg = \<lparr>m_name = ''arrival'', m_id = next_id k\<rparr>\<rparr>]"
  using me_duration_ok [OF means(1), of "expo P" 1 "me_rng k"]
  by (auto simp: Sky_scheduleArrival_def new_cMessage_def me_scheduleAt_def)

lemma scheduleLanding_ok:
  "\<exists>k' t. 0 \<le> t \<and> Sky_scheduleLanding K P (s, k) =
     Inr (s\<lparr>usingRunway := True, nextL := Some \<lparr>m_name = ''landing'', m_id = next_id k\<rparr>, nextLtime := now k\<rparr>, k') \<and>
     now k' = now k \<and> next_id k' = next_id k + 1 \<and>
     pend k' = pend k @ [\<lparr>ev_time = now k + t, ev_module = TheSky, ev_gate = None,
                          ev_msg = \<lparr>m_name = ''landing'', m_id = next_id k\<rparr>\<rparr>]"
  using me_duration_ok [OF means(2), of "expo P" 2 "me_rng k"]
  by (auto simp: Sky_scheduleLanding_def new_cMessage_def me_scheduleAt_def)

lemma scheduleTakeOff_ok:
  "\<exists>k' t. 0 \<le> t \<and> TakeOff_scheduleTakeOff K P k = Inr k' \<and> now k' = now k \<and> next_id k' = next_id k + 1 \<and>
     pend k' = pend k @ [\<lparr>ev_time = now k + t, ev_module = TheTakeOff, ev_gate = None,
                          ev_msg = \<lparr>m_name = ''takeOff'', m_id = next_id k\<rparr>\<rparr>]"
  using me_duration_ok [OF means(4), of "expo P" 0 "me_rng k"]
  by (auto simp: TakeOff_scheduleTakeOff_def new_cMessage_def me_scheduleAt_def)

lemma me_midI:
  assumes inv: "me_inv contents (s, k)" and p: "pick (pend k) = Some (e, rest)"
  shows "\<exists>xs ys p. me_mid contents e xs ys p s (k\<lparr>now := ev_time e, pend := rest\<rparr>)"
proof -
  from pick_split [OF p] obtain xs ys where es: "pend k = xs @ e # ys" "rest = xs @ ys"
    "\<forall>x\<in>set xs. ev_time e < ev_time x" "\<forall>y\<in>set ys. ev_time e \<le> ev_time y" by blast
  from inv es have n: "now k \<le> ev_time e" by (auto simp: me_inv_def pend_ok_def)
  from inv obtain p where "phase p (now k) (sky_runwayAvailable (the_sky s)) (usingRunway (the_sky s))
      (to_runwayAvailable (the_takeOff s)) (length (contents (sky_airplanes (the_sky s))))
      (length (contents (to_airplanes (the_takeOff s)))) (cnt is_landing (pend k)) (cnt is_takeoff (pend k))
      (cnt is_grant (pend k)) (to_sky (pend k))" by (auto simp: me_inv_def)
  note ph = phase_mono [OF this n]
  have "pend_ok (ev_time e) (next_id k) (nextL (the_sky s)) (xs @ e # ys)"
    using inv es unfolding me_inv_def pend_ok_def by (fastforce split: option.splits)
  with inv es ph have "me_mid contents e xs ys p s (k\<lparr>now := ev_time e, pend := rest\<rparr>)"
    by (simp add: me_mid_def me_inv_def)
  then show ?thesis by blast
qed

lemma ebind_Inr [simp]: "ebind m Inr = m"
  by (cases m) simp_all

lemmas step_simps = me_deliver_def Sky_handleMessage_def new_cMessage_def me_emit_def me_send_def me_net_def
  getLength_contents contents_insert isEmpty_contents

lemma arrival_step:
  assumes mid: "me_mid contents e xs ys p s k" and e: "is_arrival e"
  shows "\<exists>s'. me_deliver K P e (s, k) = Inr s' \<and> me_inv contents s'"
proof -
  let ?sk = "the_sky s"
  let ?qs = "length (contents (sky_airplanes ?sk))"
  from e have em: "ev_module e = TheSky" "ev_gate e = None" "m_name (ev_msg e) = ''arrival''"
    by (simp_all add: is_arrival_def)
  from mid em have ph: "phase p (ev_time e) (sky_runwayAvailable ?sk) (usingRunway ?sk) (to_runwayAvailable (the_takeOff s)) ?qs
      (length (contents (to_airplanes (the_takeOff s)))) (cnt is_landing (xs @ ys)) (cnt is_takeoff (xs @ ys))
      (cnt is_grant (xs @ ys)) (to_sky (xs @ ys))"
    by (simp add: me_mid_def kind_defs)
  from mid have rest: "pend_ok (ev_time e) (Suc (next_id k)) (nextL ?sk) (xs @ ys)" "now k = ev_time e" "pend k = xs @ ys"
    by (auto simp: me_mid_def intro: pend_ok_remove pend_ok_mono)
  define k1 where "k1 = k\<lparr>next_id := next_id k + 1\<rparr>"
  define sk where "sk = ?sk\<lparr>sky_airplanes := q_insert K (sky_airplanes ?sk) \<lparr>m_name = '''', m_id = next_id k\<rparr>,
    sky_times := sky_times ?sk @ [fromSimtime K (now k)]\<rparr>"
  from rest have ok1: "pend_ok (ev_time e) (next_id k1) (nextL ?sk) (pend k1)" by (simp add: k1_def)
  show ?thesis
  proof (cases "?qs = 0 \<and> sky_runwayAvailable ?sk")
    case True
    obtain k2 t where k2: "0 \<le> t" "Sky_scheduleLanding K P (sk, k1) =
        Inr (sk\<lparr>usingRunway := True, nextL := Some \<lparr>m_name = ''landing'', m_id = next_id k1\<rparr>, nextLtime := now k1\<rparr>, k2)"
      "now k2 = now k1" "next_id k2 = next_id k1 + 1"
      "pend k2 = pend k1 @ [\<lparr>ev_time = now k1 + t, ev_module = TheSky, ev_gate = None,
                          ev_msg = \<lparr>m_name = ''landing'', m_id = next_id k1\<rparr>\<rparr>]"
      using scheduleLanding_ok by blast
    obtain k3 t' where k3: "0 \<le> t'" "Sky_scheduleArrival K P (me_emit (NumAirplanes TheSky) (Long 1) k2) = Inr k3"
      "now k3 = now k2" "next_id k3 = next_id k2 + 1"
      "pend k3 = pend k2 @ [\<lparr>ev_time = now k2 + t', ev_module = TheSky, ev_gate = None,
                          ev_msg = \<lparr>m_name = ''arrival'', m_id = next_id k2\<rparr>\<rparr>]"
      using scheduleArrival_ok [of "me_emit (NumAirplanes TheSky) (Long 1) k2"] by (auto simp: me_emit_def)
    let ?s = "s\<lparr>the_sky := sk\<lparr>usingRunway := True,
        nextL := Some \<lparr>m_name = ''landing'', m_id = next_id k1\<rparr>, nextLtime := now k1\<rparr>\<rparr>"
    note ph' = phase_arrive(1) [OF ph True]
    have "pend_ok (ev_time e) (next_id k2) (Some \<lparr>m_name = ''landing'', m_id = next_id k1\<rparr>) (pend k2)"
      unfolding k2(4,5) using phase_exclusive [OF ph'] ok1 rest k2(1)
      by (intro pend_ok_landing) (simp_all add: k1_def is_landing_def [of "\<lparr>ev_time = _, ev_module = _, ev_gate = _, ev_msg = _\<rparr>"])
    then have "pend_ok (ev_time e) (next_id k3) (Some \<lparr>m_name = ''landing'', m_id = next_id k1\<rparr>) (pend k3)"
      unfolding k3(4,5) using rest k2(1,3) k3(1) by (intro pend_ok_self) (simp_all add: k1_def kind_defs event_me_def)
    then have "me_inv contents (?s, k3)"
      using ph' mid em True k2(1,3-5) k3(1,3-5)
      by (intro me_invI [where p = p]) (simp_all add: me_mid_def sk_def k1_def contents_insert kind_defs)
    moreover have "me_deliver K P e (s, k) = Inr (?s, k3)"
      using True em k2(2) k3(2) by (simp add: step_simps Sky_handleArrival_def sk_def k1_def)
    ultimately show ?thesis by blast
  next
    case False
    let ?k2 = "me_emit (NumAirplanes TheSky) (Long (q_getLength K (sky_airplanes sk))) k1"
    obtain k3 t' where k3: "0 \<le> t'" "Sky_scheduleArrival K P ?k2 = Inr k3"
      "now k3 = now k1" "next_id k3 = next_id k1 + 1"
      "pend k3 = pend k1 @ [\<lparr>ev_time = now k1 + t', ev_module = TheSky, ev_gate = None,
                          ev_msg = \<lparr>m_name = ''arrival'', m_id = next_id k1\<rparr>\<rparr>]"
      using scheduleArrival_ok [of ?k2] by (auto simp: me_emit_def)
    have "pend_ok (ev_time e) (next_id k3) (nextL ?sk) (pend k3)"
      unfolding k3(4,5) using ok1 rest k3(1) by (intro pend_ok_self) (simp_all add: k1_def kind_defs event_me_def)
    then have "me_inv contents (s\<lparr>the_sky := sk\<rparr>, k3)"
      using phase_arrive(2) [OF ph False] mid em k3(1,3-5)
      by (intro me_invI [where p = p]) (simp_all add: me_mid_def sk_def k1_def contents_insert kind_defs)
    moreover have "me_deliver K P e (s, k) = Inr (s\<lparr>the_sky := sk\<rparr>, k3)"
      using False em k3(2) by (auto simp: step_simps Sky_handleArrival_def sk_def k1_def)
    ultimately show ?thesis by blast
  qed
qed

lemma landing_step:
  assumes mid: "me_mid contents e xs ys p s k" and e: "is_landing e"
  shows "\<exists>s'. me_deliver K P e (s, k) = Inr s' \<and> me_inv contents s'"
proof -
  let ?sk = "the_sky s"
  let ?qs = "length (contents (sky_airplanes ?sk))"
  from e have em: "ev_module e = TheSky" "ev_gate e = None" "m_name (ev_msg e) = ''landing''"
    by (simp_all add: is_landing_def)
  from mid em have ph: "phase p (ev_time e) (sky_runwayAvailable ?sk) (usingRunway ?sk) (to_runwayAvailable (the_takeOff s)) ?qs
      (length (contents (to_airplanes (the_takeOff s)))) (cnt is_landing (xs @ ys) + 1) (cnt is_takeoff (xs @ ys))
      (cnt is_grant (xs @ ys)) (to_sky (xs @ ys))"
    by (simp add: me_mid_def kind_defs)
  note none = phase_land(2) [OF ph]
  from mid em have nl: "nextL ?sk \<noteq> None"
    by (intro pend_ok_nextL [where x = e and es = "xs @ e # ys"]) (auto simp: me_mid_def is_arrival_def)
  from mid have rest: "pend_ok (ev_time e) (next_id k) (nextL ?sk) (xs @ ys)" "now k = ev_time e" "pend k = xs @ ys"
    by (auto simp: me_mid_def intro: pend_ok_remove)
  from phase_land(1) [OF ph] obtain m ms where ms: "contents (sky_airplanes ?sk) = m # ms"
    by (cases "contents (sky_airplanes ?sk)") auto
  from pop_Cons [OF ms] obtain q where q: "q_pop K (sky_airplanes ?sk) = Some (m, q)" "contents q = ms" by blast
  from mid ms obtain t0 ts where ts: "sky_times ?sk = t0 # ts" "length ts = length ms"
    by (cases "sky_times ?sk") (auto simp: me_mid_def)
  define x where "x = \<lparr>ev_time = ev_time e, ev_module = TheRunway, ev_gate = Some (''sky'', 0::int), ev_msg = m\<rparr>"
  have xs: "\<not> is_landing x" "\<not> is_takeoff x" "\<not> is_grant x" "\<not> is_arrival x" "\<not> is_parked x" "event_me x"
    "ev_module x = TheRunway" "ev_time x = ev_time e" "ev_gate x \<noteq> None"
    by (simp_all add: x_def kind_defs event_me_def)
  define k1 where "k1 = me_emit (NumAirplanes TheSky) (Long (int (length ms)))
    (me_emit WaitingTimeLanding (Double (fromSimtime K (ev_time e) - t0)) (k\<lparr>pend := xs @ ys @ [x]\<rparr>))"
  define sk where "sk = ?sk\<lparr>usingRunway := False, sky_airplanes := q, sky_times := ts\<rparr>"
  have k1: "now k1 = ev_time e" "next_id k1 = next_id k" "pend k1 = (xs @ ys) @ [x]"
    using rest by (simp_all add: k1_def me_emit_def)
  have ok1: "pend_ok (ev_time e) (next_id k1) (nextL ?sk) (pend k1)"
    unfolding k1 using rest nl xs by (intro pend_ok_gate) simp_all
  have run: "me_deliver K P e (s, k) = ebind
      (ebind (if \<not> sky_runwayAvailable ?sk then
                me_send TheSky ''outTakeoff'' \<lparr>m_name = ''runwayAvailable'', m_id = next_id k1\<rparr> (k1\<lparr>next_id := next_id k1 + 1\<rparr>)
              else Inr k1) (\<lambda>k.
         if ms \<noteq> [] \<and> sky_runwayAvailable ?sk then Sky_scheduleLanding K P (sk, k) else Inr (sk, k)))
      (\<lambda>(x, k). Inr (s\<lparr>the_sky := x\<rparr>, k))"
    using em q ts rest by (simp add: step_simps Sky_handleLanding_def sk_def k1_def x_def Let_def)
  show ?thesis
  proof (cases "sky_runwayAvailable ?sk")
    case False
    define y where "y = \<lparr>ev_time = ev_time e, ev_module = TheTakeOff, ev_gate = Some (''inSky'', 0::int),
      ev_msg = \<lparr>m_name = ''runwayAvailable'', m_id = next_id k1\<rparr>\<rparr>"
    let ?k2 = "k1\<lparr>next_id := next_id k1 + 1, pend := pend k1 @ [y]\<rparr>"
    have "me_deliver K P e (s, k) = Inr (s\<lparr>the_sky := sk\<rparr>, ?k2)"
      using False run k1(1) by (simp add: me_send_def me_net_def y_def)
    moreover have "pend_ok (ev_time e) (next_id ?k2) (nextL ?sk) (pend k1 @ [y])"
      by (rule pend_ok_gate [OF pend_ok_mono [OF ok1]]) (use nl in \<open>simp_all add: y_def event_me_def\<close>)
    then have "me_inv contents (s\<lparr>the_sky := sk\<rparr>, ?k2)"
      using phase_land(5) [OF ph False] mid em k1 xs ms q ts none False
      by (intro me_invI [where p = Granted]) (simp_all add: me_mid_def sk_def y_def kind_defs)
    ultimately show ?thesis by blast
  next
    case True
    show ?thesis
    proof (cases "ms = []")
      case ms': True
      have "me_deliver K P e (s, k) = Inr (s\<lparr>the_sky := sk\<rparr>, k1)" using True run ms' by simp
      moreover have "me_inv contents (s\<lparr>the_sky := sk\<rparr>, k1)"
        using phase_land(4) [OF ph True] mid em k1 xs ms ms' q ts none True ok1
        by (intro me_invI [where p = p]) (simp_all add: me_mid_def sk_def kind_defs [of e])
      ultimately show ?thesis by blast
    next
      case ms': False
      obtain k2 t where k2: "0 \<le> t" "Sky_scheduleLanding K P (sk, k1) =
          Inr (sk\<lparr>usingRunway := True, nextL := Some \<lparr>m_name = ''landing'', m_id = next_id k1\<rparr>, nextLtime := now k1\<rparr>, k2)"
        "now k2 = now k1" "next_id k2 = next_id k1 + 1"
        "pend k2 = pend k1 @ [\<lparr>ev_time = now k1 + t, ev_module = TheSky, ev_gate = None,
                            ev_msg = \<lparr>m_name = ''landing'', m_id = next_id k1\<rparr>\<rparr>]"
        using scheduleLanding_ok by blast
      let ?s = "s\<lparr>the_sky := sk\<lparr>usingRunway := True,
          nextL := Some \<lparr>m_name = ''landing'', m_id = next_id k1\<rparr>, nextLtime := now k1\<rparr>\<rparr>"
      have "me_deliver K P e (s, k) = Inr (?s, k2)" using True run ms' k2(2) by simp
      moreover have "pend_ok (ev_time e) (next_id k2) (Some \<lparr>m_name = ''landing'', m_id = next_id k1\<rparr>) (pend k2)"
        unfolding k2(4,5) using none ok1 k2(1) k1 xs
        by (intro pend_ok_landing) (simp_all add: is_landing_def [of "\<lparr>ev_time = _, ev_module = _, ev_gate = _, ev_msg = _\<rparr>"])
      then have "me_inv contents (?s, k2)"
        using phase_land(3) [OF ph True] mid em k1 k2 xs ms ms' q ts none True
        by (intro me_invI [where p = p]) (simp_all add: me_mid_def sk_def kind_defs)
      ultimately show ?thesis by blast
    qed
  qed
qed

lemma request_step:
  assumes mid: "me_mid contents e xs ys p s k"
    and em: "ev_module e = TheSky" "ev_gate e \<noteq> None" "m_name (ev_msg e) = ''runwayRequest''"
  shows "\<exists>s'. me_deliver K P e (s, k) = Inr s' \<and> me_inv contents s'"
proof -
  let ?sk = "the_sky s"
  from mid em have ph: "phase p (ev_time e) (sky_runwayAvailable ?sk) (usingRunway ?sk) (to_runwayAvailable (the_takeOff s))
      (length (contents (sky_airplanes ?sk))) (length (contents (to_airplanes (the_takeOff s)))) (cnt is_landing (xs @ ys))
      (cnt is_takeoff (xs @ ys)) (cnt is_grant (xs @ ys)) (to_sky xs @ (''runwayRequest'', ev_time e) # to_sky ys)"
    by (simp add: me_mid_def kind_defs)
  from mid have "\<forall>u\<in>set (to_sky xs). ev_time e < snd u" by (auto simp: me_mid_def to_sky_def)
  note ph' = phase_request [OF ph this]
  from mid em obtain m where m: "nextL ?sk = Some m"
    using pend_ok_nextL [of "ev_time e" "next_id k" "nextL ?sk" "xs @ e # ys" e]
    by (auto simp: me_mid_def is_arrival_def)
  from mid have rest: "pend_ok (ev_time e) (next_id k) (nextL ?sk) (xs @ ys)" "now k = ev_time e" "pend k = xs @ ys"
    by (auto simp: me_mid_def intro: pend_ok_remove)
  define es where "es = (if ev_time e = nextLtime ?sk then filter (\<lambda>e. \<not> is_landing e) (xs @ ys) else xs @ ys)"
  define sk where "sk = ?sk\<lparr>sky_runwayAvailable := False, usingRunway := usingRunway ?sk \<and> ev_time e \<noteq> nextLtime ?sk\<rparr>"
  have es: "cnt is_takeoff es = cnt is_takeoff (xs @ ys)" "cnt is_grant es = cnt is_grant (xs @ ys)"
    "cnt is_arrival es = cnt is_arrival (xs @ ys)" "cnt is_parked es = cnt is_parked (xs @ ys)"
    "to_sky es = to_sky (xs @ ys)"
    unfolding es_def by (simp_all add: cnt_not_landing to_sky_filter del: filter_append)
  have ok: "pend_ok (ev_time e) (next_id k) (nextL ?sk) es"
    using pend_ok_filter [OF rest(1), of "\<lambda>e. \<not> is_landing e"] rest(1) by (simp only: es_def split: if_splits) simp
  have run: "me_deliver K P e (s, k) =
      (if usingRunway sk then Inr (s\<lparr>the_sky := sk\<rparr>, k\<lparr>pend := es\<rparr>)
       else Inr (s\<lparr>the_sky := sk\<rparr>, k\<lparr>next_id := next_id k + 1, pend := es @ [\<lparr>ev_time = ev_time e, ev_module = TheTakeOff,
         ev_gate = Some (''inSky'', 0), ev_msg = \<lparr>m_name = ''runwayAvailable'', m_id = next_id k\<rparr>\<rparr>]\<rparr>))"
    using em m rest cancel_filter [of "ev_time e" "next_id k" m "xs @ ys"]
    by (auto simp: step_simps Sky_handleStopFromTakeoff_def cancelEvent_def sk_def es_def simp del: filter_append)
  show ?thesis
  proof (cases "usingRunway sk")
    case True
    then have u: "usingRunway ?sk" "es = xs @ ys" by (auto simp: sk_def es_def)
    have "me_inv contents (s\<lparr>the_sky := sk\<rparr>, k\<lparr>pend := es\<rparr>)"
      using ph'(3) [OF u(1)] mid em True u rest es
      by (intro me_invI [where p = LandingFirst]) (simp_all add: me_mid_def sk_def kind_defs)
    with run True show ?thesis by auto
  next
    case False
    then have L: "cnt is_landing es = 0"
      using phase_L [OF ph] by (auto simp: sk_def es_def cnt_filter_same simp del: filter_append)
    define y where "y = \<lparr>ev_time = ev_time e, ev_module = TheTakeOff, ev_gate = Some (''inSky'', 0::int),
      ev_msg = \<lparr>m_name = ''runwayAvailable'', m_id = next_id k\<rparr>\<rparr>"
    have "pend_ok (ev_time e) (next_id k + 1) (nextL ?sk) (es @ [y])"
      by (rule pend_ok_gate [OF pend_ok_mono [OF ok]]) (use m in \<open>simp_all add: y_def event_me_def\<close>)
    then have "me_inv contents (s\<lparr>the_sky := sk\<rparr>, k\<lparr>next_id := next_id k + 1, pend := es @ [y]\<rparr>)"
      using ph'(2) mid em False rest es L
      by (intro me_invI [where p = Granted]) (simp_all add: me_mid_def sk_def y_def kind_defs)
    with run False show ?thesis by (auto simp: y_def)
  qed
qed

lemma back_step:
  assumes mid: "me_mid contents e xs ys p s k"
    and em: "ev_module e = TheSky" "ev_gate e \<noteq> None" "m_name (ev_msg e) = ''runwayAvailable''"
  shows "\<exists>s'. me_deliver K P e (s, k) = Inr s' \<and> me_inv contents s'"
proof -
  let ?sk = "the_sky s" and ?p = "if p = Returned then SkyOwns else Asked"
  from mid em have ph: "phase p (ev_time e) (sky_runwayAvailable ?sk) (usingRunway ?sk) (to_runwayAvailable (the_takeOff s))
      (length (contents (sky_airplanes ?sk))) (length (contents (to_airplanes (the_takeOff s)))) (cnt is_landing (xs @ ys))
      (cnt is_takeoff (xs @ ys)) (cnt is_grant (xs @ ys)) (to_sky xs @ (''runwayAvailable'', ev_time e) # to_sky ys)"
    by (simp add: me_mid_def kind_defs)
  note ph' = phase_back [OF ph]
  from mid have rest: "pend_ok (ev_time e) (next_id k) (nextL ?sk) (pend k)" "now k = ev_time e" "pend k = xs @ ys"
    by (auto simp: me_mid_def intro: pend_ok_remove)
  define sk where "sk = ?sk\<lparr>sky_runwayAvailable := True\<rparr>"
  show ?thesis
  proof (cases "contents (sky_airplanes ?sk) = []")
    case True
    have "me_inv contents (s\<lparr>the_sky := sk\<rparr>, k)"
      using ph'(2) mid em True rest
      by (intro me_invI [where p = ?p]) (simp_all add: me_mid_def sk_def kind_defs)
    moreover have "me_deliver K P e (s, k) = Inr (s\<lparr>the_sky := sk\<rparr>, k)"
      using em True by (simp add: step_simps Sky_handleAvailableFromTakeoff_def sk_def)
    ultimately show ?thesis by blast
  next
    case False
    obtain k2 t where k2: "0 \<le> t" "Sky_scheduleLanding K P (sk, k) =
        Inr (sk\<lparr>usingRunway := True, nextL := Some \<lparr>m_name = ''landing'', m_id = next_id k\<rparr>, nextLtime := now k\<rparr>, k2)"
      "now k2 = now k" "next_id k2 = next_id k + 1"
      "pend k2 = pend k @ [\<lparr>ev_time = now k + t, ev_module = TheSky, ev_gate = None,
                            ev_msg = \<lparr>m_name = ''landing'', m_id = next_id k\<rparr>\<rparr>]"
      using scheduleLanding_ok by blast
    let ?s = "s\<lparr>the_sky := sk\<lparr>usingRunway := True,
        nextL := Some \<lparr>m_name = ''landing'', m_id = next_id k\<rparr>, nextLtime := now k\<rparr>\<rparr>"
    have "pend_ok (ev_time e) (next_id k2) (Some \<lparr>m_name = ''landing'', m_id = next_id k\<rparr>) (pend k2)"
      unfolding k2(4,5) using phase_exclusive [OF ph'(1)] False rest k2(1)
      by (intro pend_ok_landing) (simp_all add: is_landing_def [of "\<lparr>ev_time = _, ev_module = _, ev_gate = _, ev_msg = _\<rparr>"])
    then have "me_inv contents (?s, k2)"
      using ph'(1) mid em k2 False rest
      by (intro me_invI [where p = ?p]) (simp_all add: me_mid_def sk_def kind_defs)
    moreover have "me_deliver K P e (s, k) = Inr (?s, k2)"
      using em False k2(2) by (simp add: step_simps Sky_handleAvailableFromTakeoff_def sk_def)
    ultimately show ?thesis by blast
  qed
qed

lemma plane_step:
  assumes mid: "me_mid contents e xs ys p s k" and em: "ev_module e = TheTakeOff" "ev_gate e = Some (''park'', 0)"
  shows "\<exists>s'. me_deliver K P e (s, k) = Inr s' \<and> me_inv contents s'"
proof -
  let ?sk = "the_sky s" and ?tk = "the_takeOff s"
  let ?qt = "length (contents (to_airplanes ?tk))"
  from mid em have ph: "phase p (ev_time e) (sky_runwayAvailable ?sk) (usingRunway ?sk) (to_runwayAvailable ?tk)
      (length (contents (sky_airplanes ?sk))) ?qt (cnt is_landing (xs @ ys)) (cnt is_takeoff (xs @ ys))
      (cnt is_grant (xs @ ys)) (to_sky (xs @ ys))"
    by (simp add: me_mid_def kind_defs)
  note ph' = phase_plane [OF ph]
  from mid em have nl: "nextL ?sk \<noteq> None"
    by (intro pend_ok_nextL [where x = e and es = "xs @ e # ys"]) (auto simp: me_mid_def is_arrival_def)
  from mid have rest: "pend_ok (ev_time e) (next_id k) (nextL ?sk) (xs @ ys)" "now k = ev_time e" "pend k = xs @ ys"
    by (auto simp: me_mid_def intro: pend_ok_remove)
  define tk where "tk = ?tk\<lparr>to_airplanes := q_insert K (to_airplanes ?tk) (ev_msg e),
    to_times := to_times ?tk @ [fromSimtime K (ev_time e)]\<rparr>"
  show ?thesis
  proof (cases "?qt = 0")
    case True
    with ph'(1) have nr: "\<not> to_runwayAvailable ?tk" by auto
    define y where "y = \<lparr>ev_time = ev_time e, ev_module = TheSky, ev_gate = Some (''inTakeoff'', 0::int),
      ev_msg = \<lparr>m_name = ''runwayRequest'', m_id = next_id k\<rparr>\<rparr>"
    let ?k = "me_emit (NumAirplanes TheTakeOff) (Long 1) (k\<lparr>next_id := next_id k + 1, pend := (xs @ ys) @ [y]\<rparr>)"
    have "pend_ok (ev_time e) (next_id k + 1) (nextL ?sk) ((xs @ ys) @ [y])"
      by (rule pend_ok_gate [OF pend_ok_mono [OF rest(1)]]) (use nl in \<open>simp_all add: y_def event_me_def\<close>)
    then have "me_inv contents (s\<lparr>the_takeOff := tk\<rparr>, ?k)"
      using ph'(2) [OF True] mid em True rest
      by (intro me_invI [where p = "if p = SkyOwns then Asked else ReturnedAsked"])
        (simp_all add: me_mid_def tk_def y_def kind_defs me_emit_def contents_insert)
    moreover have "me_deliver K P e (s, k) = Inr (s\<lparr>the_takeOff := tk\<rparr>, ?k)"
      using em nr True rest
      by (simp add: step_simps TakeOff_handleMessage_def isSelfMessage_def TakeOff_handleAirplaneFromParking_def
          tk_def y_def Let_def)
    ultimately show ?thesis by blast
  next
    case False
    let ?k = "me_emit (NumAirplanes TheTakeOff) (Long (int ?qt + 1)) k"
    have "me_inv contents (s\<lparr>the_takeOff := tk\<rparr>, ?k)"
      using ph'(3) mid em False rest
      by (intro me_invI [where p = p]) (simp_all add: me_mid_def tk_def kind_defs me_emit_def contents_insert)
    moreover have "me_deliver K P e (s, k) = Inr (s\<lparr>the_takeOff := tk\<rparr>, ?k)"
      using em False rest
      by (simp add: step_simps TakeOff_handleMessage_def isSelfMessage_def TakeOff_handleAirplaneFromParking_def
          tk_def Let_def)
    ultimately show ?thesis by blast
  qed
qed

lemma grant_step:
  assumes mid: "me_mid contents e xs ys p s k" and e: "is_grant e"
  shows "\<exists>s'. me_deliver K P e (s, k) = Inr s' \<and> me_inv contents s'"
proof -
  let ?sk = "the_sky s" and ?tk = "the_takeOff s"
  from e have em: "ev_module e = TheTakeOff" "ev_gate e = Some (''inSky'', 0)" by (simp_all add: is_grant_def)
  from mid em have ph: "phase p (ev_time e) (sky_runwayAvailable ?sk) (usingRunway ?sk) (to_runwayAvailable ?tk)
      (length (contents (sky_airplanes ?sk))) (length (contents (to_airplanes ?tk))) (cnt is_landing (xs @ ys))
      (cnt is_takeoff (xs @ ys)) (cnt is_grant (xs @ ys) + 1) (to_sky (xs @ ys))"
    by (simp add: me_mid_def kind_defs)
  from mid em have nl: "nextL ?sk \<noteq> None"
    by (intro pend_ok_nextL [where x = e and es = "xs @ e # ys"]) (auto simp: me_mid_def is_arrival_def)
  from mid have rest: "pend_ok (ev_time e) (next_id k) (nextL ?sk) (pend k)" "now k = ev_time e" "pend k = xs @ ys"
    by (auto simp: me_mid_def intro: pend_ok_remove)
  obtain k2 t where k2: "0 \<le> t" "TakeOff_scheduleTakeOff K P k = Inr k2" "now k2 = now k" "next_id k2 = next_id k + 1"
    "pend k2 = pend k @ [\<lparr>ev_time = now k + t, ev_module = TheTakeOff, ev_gate = None,
                          ev_msg = \<lparr>m_name = ''takeOff'', m_id = next_id k\<rparr>\<rparr>]"
    using scheduleTakeOff_ok by blast
  have "pend_ok (ev_time e) (next_id k2) (nextL ?sk) (pend k2)"
    unfolding k2(4,5) using rest k2(1) nl by (intro pend_ok_self) (simp_all add: kind_defs event_me_def)
  then have "me_inv contents (s\<lparr>the_takeOff := ?tk\<lparr>to_runwayAvailable := True\<rparr>\<rparr>, k2)"
    using phase_grant [OF ph] mid em k2 rest
    by (intro me_invI [where p = TakeOffOwns]) (simp_all add: me_mid_def kind_defs)
  moreover have "me_deliver K P e (s, k) = Inr (s\<lparr>the_takeOff := ?tk\<lparr>to_runwayAvailable := True\<rparr>\<rparr>, k2)"
    using em k2(2) by (simp add: me_deliver_def TakeOff_handleMessage_def isSelfMessage_def TakeOff_handleOkFromSky_def)
  ultimately show ?thesis by blast
qed

lemma takeoff_step:
  assumes mid: "me_mid contents e xs ys p s k" and e: "is_takeoff e"
  shows "\<exists>s'. me_deliver K P e (s, k) = Inr s' \<and> me_inv contents s'"
proof -
  let ?sk = "the_sky s" and ?tk = "the_takeOff s"
  let ?qt = "length (contents (to_airplanes ?tk))"
  from e have em: "ev_module e = TheTakeOff" "ev_gate e = None" by (simp_all add: is_takeoff_def)
  from mid em have ph: "phase p (ev_time e) (sky_runwayAvailable ?sk) (usingRunway ?sk) (to_runwayAvailable ?tk)
      (length (contents (sky_airplanes ?sk))) ?qt (cnt is_landing (xs @ ys))
      (cnt is_takeoff (xs @ ys) + 1) (cnt is_grant (xs @ ys)) (to_sky (xs @ ys))"
    by (simp add: me_mid_def kind_defs)
  note ph' = phase_takeoff [OF ph]
  from mid em have nl: "nextL ?sk \<noteq> None"
    by (intro pend_ok_nextL [where x = e and es = "xs @ e # ys"]) (auto simp: me_mid_def is_arrival_def)
  from mid have rest: "pend_ok (ev_time e) (next_id k) (nextL ?sk) (xs @ ys)" "now k = ev_time e" "pend k = xs @ ys"
    by (auto simp: me_mid_def intro: pend_ok_remove)
  from ph'(1) obtain m ms where ms: "contents (to_airplanes ?tk) = m # ms"
    by (cases "contents (to_airplanes ?tk)") auto
  from pop_Cons [OF ms] obtain q where q: "q_pop K (to_airplanes ?tk) = Some (m, q)" "contents q = ms" by blast
  from mid ms obtain t0 ts where ts: "to_times ?tk = t0 # ts" "length ts = length ms"
    by (cases "to_times ?tk") (auto simp: me_mid_def)
  define x where "x = \<lparr>ev_time = ev_time e, ev_module = TheRunway, ev_gate = Some (''takeOff'', 0::int), ev_msg = m\<rparr>"
  define k1 where "k1 = me_emit WaitingTimeTakeOff (Double (fromSimtime K (ev_time e) - t0))
    (me_emit (NumAirplanes TheTakeOff) (Long (int (length ms))) (k\<lparr>pend := xs @ ys @ [x]\<rparr>))"
  define tk where "tk = ?tk\<lparr>to_airplanes := q, to_times := ts\<rparr>"
  have k1: "now k1 = ev_time e" "next_id k1 = next_id k" "pend k1 = (xs @ ys) @ [x]"
    using rest by (simp_all add: k1_def me_emit_def)
  have ok1: "pend_ok (ev_time e) (next_id k1) (nextL ?sk) (pend k1)"
    unfolding k1 using rest nl by (intro pend_ok_gate) (simp_all add: x_def event_me_def)
  have run: "me_deliver K P e (s, k) = ebind
      (if ms \<noteq> [] then ebind (TakeOff_scheduleTakeOff K P k1) (\<lambda>k. Inr (tk, k))
       else ebind (me_send TheTakeOff ''outSky'' \<lparr>m_name = ''runwayAvailable'', m_id = next_id k1\<rparr> (k1\<lparr>next_id := next_id k1 + 1\<rparr>))
         (\<lambda>k. Inr (tk\<lparr>to_runwayAvailable := False\<rparr>, k)))
      (\<lambda>(x, k). Inr (s\<lparr>the_takeOff := x\<rparr>, k))"
    using em q ts rest
    by (simp add: step_simps TakeOff_handleMessage_def isSelfMessage_def TakeOff_handleTakeOff_def tk_def k1_def x_def Let_def)
  show ?thesis
  proof (cases "ms = []")
    case True
    define y where "y = \<lparr>ev_time = ev_time e, ev_module = TheSky, ev_gate = Some (''inTakeoff'', 0::int),
      ev_msg = \<lparr>m_name = ''runwayAvailable'', m_id = next_id k1\<rparr>\<rparr>"
    let ?s = "s\<lparr>the_takeOff := tk\<lparr>to_runwayAvailable := False\<rparr>\<rparr>"
    let ?k2 = "k1\<lparr>next_id := next_id k1 + 1, pend := pend k1 @ [y]\<rparr>"
    have "pend_ok (ev_time e) (next_id k1 + 1) (nextL ?sk) (pend k1 @ [y])"
      by (rule pend_ok_gate [OF pend_ok_mono [OF ok1]]) (use nl in \<open>simp_all add: y_def event_me_def\<close>)
    then have "me_inv contents (?s, ?k2)"
      using ph'(3) mid em k1 ms q ts True
      by (intro me_invI [where p = Returned]) (simp_all add: me_mid_def tk_def x_def y_def kind_defs)
    moreover have "me_deliver K P e (s, k) = Inr (?s, ?k2)"
      using True run k1(1) by (simp add: me_send_def me_net_def y_def)
    ultimately show ?thesis by blast
  next
    case False
    obtain k2 t where k2: "0 \<le> t" "TakeOff_scheduleTakeOff K P k1 = Inr k2" "now k2 = now k1" "next_id k2 = next_id k1 + 1"
      "pend k2 = pend k1 @ [\<lparr>ev_time = now k1 + t, ev_module = TheTakeOff, ev_gate = None,
                            ev_msg = \<lparr>m_name = ''takeOff'', m_id = next_id k1\<rparr>\<rparr>]"
      using scheduleTakeOff_ok by blast
    have "pend_ok (ev_time e) (next_id k2) (nextL ?sk) (pend k2)"
      unfolding k2(4,5) using ok1 k1 k2(1) nl by (intro pend_ok_self) (simp_all add: kind_defs event_me_def)
    then have "me_inv contents (s\<lparr>the_takeOff := tk\<rparr>, k2)"
      using ph'(2) mid em k1 k2 ms q ts False
      by (intro me_invI [where p = p]) (simp_all add: me_mid_def tk_def x_def kind_defs)
    moreover have "me_deliver K P e (s, k) = Inr (s\<lparr>the_takeOff := tk\<rparr>, k2)" using False run k2(2) by simp
    ultimately show ?thesis by blast
  qed
qed

lemma ground_step:
  assumes mid: "me_mid contents e xs ys p s k" and em: "ev_module e = TheParking \<or> ev_module e = TheRunway \<and> ev_gate e \<noteq> None"
  shows "\<exists>s'. me_deliver K P e (s, k) = Inr s' \<and> me_inv contents s'"
proof -
  let ?sk = "the_sky s" and ?tk = "the_takeOff s"
  from mid em have ph: "phase p (ev_time e) (sky_runwayAvailable ?sk) (usingRunway ?sk) (to_runwayAvailable ?tk)
      (length (contents (sky_airplanes ?sk))) (length (contents (to_airplanes ?tk))) (cnt is_landing (xs @ ys))
      (cnt is_takeoff (xs @ ys)) (cnt is_grant (xs @ ys)) (to_sky (xs @ ys))"
    by (auto simp: me_mid_def kind_defs)
  from mid em have nl: "nextL ?sk \<noteq> None"
    by (intro pend_ok_nextL [where x = e and es = "xs @ e # ys"]) (auto simp: me_mid_def is_arrival_def)
  from mid have rest: "pend_ok (ev_time e) (next_id k) (nextL ?sk) (xs @ ys)" "now k = ev_time e" "pend k = xs @ ys"
    by (auto simp: me_mid_def intro: pend_ok_remove)
  note gate = pend_ok_gate [OF pend_ok_mono [OF rest(1)] nl]
  show ?thesis
  proof (cases "ev_module e = TheRunway")
    case True
    with em obtain g i where "ev_gate e = Some (g, i)" by auto
    with True ph mid rest gate [OF order_refl] show ?thesis
      by (auto simp: me_deliver_def Runway_handleMessage_def me_send_def me_net_def me_mid_def kind_defs event_me_def
          intro!: me_invI [where p = p])
  next
    case False
    with em have m: "ev_module e = TheParking" by blast
    obtain t g where t: "me_duration K (expo P) (tp_mean P) 0 (me_rng k) = (t, g)" "0 \<le> toSimtime K t"
      using me_duration_ok [OF means(3)] by blast
    show ?thesis
    proof (cases "ev_gate e")
      case None
      with m ph mid rest gate [of "next_id k + 1"] show ?thesis
        by (auto simp: me_deliver_def Parking_handleMessage_def isSelfMessage_def new_cMessage_def me_emit_def me_send_def
            me_net_def me_mid_def kind_defs event_me_def intro!: me_invI [where p = p])
    next
      case (Some gt)
      with m ph mid rest t nl pend_ok_self [OF rest(1)] show ?thesis
        by (auto simp: me_deliver_def Parking_handleMessage_def isSelfMessage_def new_cMessage_def me_emit_def
            me_scheduleAt_def me_mid_def kind_defs event_me_def intro!: me_invI [where p = p])
    qed
  qed
qed

lemma me_step:
  assumes inv: "me_inv contents (s, k)" and p: "pick (pend k) = Some (e, rest)"
  shows "\<exists>s'. me_deliver K P e (s, k\<lparr>now := ev_time e, pend := rest\<rparr>) = Inr s' \<and> me_inv contents s'"
proof -
  from me_midI [OF assms] obtain xs ys p where mid: "me_mid contents e xs ys p s (k\<lparr>now := ev_time e, pend := rest\<rparr>)"
    by blast
  then have "event_me e" by (simp add: me_mid_def pend_ok_def)
  then consider "is_arrival e" | "is_landing e"
    | "ev_module e = TheSky" "ev_gate e \<noteq> None" "m_name (ev_msg e) = ''runwayRequest''"
    | "ev_module e = TheSky" "ev_gate e \<noteq> None" "m_name (ev_msg e) = ''runwayAvailable''"
    | "ev_module e = TheTakeOff" "ev_gate e = Some (''park'', 0)" | "is_grant e" | "is_takeoff e"
    | "ev_module e = TheParking \<or> ev_module e = TheRunway \<and> ev_gate e \<noteq> None"
    by (cases "ev_module e") (auto simp: event_me_def is_grant_def is_takeoff_def)
  then show ?thesis
    using arrival_step [OF mid] landing_step [OF mid] request_step [OF mid] back_step [OF mid] plane_step [OF mid]
      grant_step [OF mid] takeoff_step [OF mid] ground_step [OF mid] by cases blast+
qed

lemma me_start_inv:
  assumes "pend k0 = []" and "me_start K P k0 = Inr s0"
  shows "me_inv contents s0"
proof -
  obtain k' t where k': "0 \<le> t" "Sky_scheduleArrival K P k0 = Inr k'" "now k' = now k0" "next_id k' = next_id k0 + 1"
    "pend k' = pend k0 @ [\<lparr>ev_time = now k0 + t, ev_module = TheSky, ev_gate = None,
                          ev_msg = \<lparr>m_name = ''arrival'', m_id = next_id k0\<rparr>\<rparr>]"
    using scheduleArrival_ok by blast
  with assms have "s0 = (me_initial K, k')" by (simp add: me_start_def Sky_initialize_def)
  with assms(1) k' show ?thesis
    by (auto simp: me_initial_def contents_new pend_ok_def event_me_def kind_defs intro!: me_invI [where p = SkyOwns])
qed

lemma me_run_inv: "me_run K P s0 s \<Longrightarrow> me_inv contents s0 \<Longrightarrow> me_inv contents s"
proof (induction rule: me_run.induct)
  case (me_next s k e rest s')
  with me_step [of s k e rest] show ?case by auto
qed

end

definition demo_par :: me_par where
  "demo_par = \<lparr>expo = False, lambda = 43, tl_mean = 20, tp_mean = 240, to_mean = 20\<rparr>"

interpretation list_me: me_library list_omnet "\<lambda>q. q" demo_par
  by (intro me_library.intro me_library_axioms.intro) (auto simp: demo_par_def intro: list_library.omnetpp_axioms)

lemma phase_busy:
  "phase p n sRA uR tRA qs qt L T A br \<Longrightarrow> qs > 0 \<or> qt > 0 \<Longrightarrow> 1 \<le> L + T + A + length br"
  by (cases p) auto

text \<open>
  (C17) The exchange of messages keeps the runway exclusive: in every run at most one landing or
  take-off is under way, \<open>usingRunway\<close> tells whether a landing is, \<open>numAirplanes\<close> is the number of parked
  airplanes, exactly one next arrival is scheduled, and no handler throws; in particular
  \<open>cancelEvent\<close> never sees an unset pointer.
\<close>

theorem handshake_exclusive:
  assumes "me_library K contents P" and "pend k0 = []" and "me_start K P k0 = Inr s0" and "me_run K P s0 (s, k)"
  shows "cnt is_landing (pend k) + cnt is_takeoff (pend k) \<le> 1 \<and>
    (usingRunway (the_sky s) \<longleftrightarrow> cnt is_landing (pend k) = 1) \<and>
    numAirplanes (the_parking s) = int (cnt is_parked (pend k)) \<and> cnt is_arrival (pend k) = 1 \<and>
    (\<forall>e rest. pick (pend k) = Some (e, rest) \<longrightarrow>
       (\<exists>s'. me_deliver K P e (s, k\<lparr>now := ev_time e, pend := rest\<rparr>) = Inr s'))"
proof -
  note inv = me_library.me_run_inv [OF assms(1,4) me_library.me_start_inv [OF assms(1-3)]]
  then obtain p where p: "phase p (now k) (sky_runwayAvailable (the_sky s)) (usingRunway (the_sky s))
      (to_runwayAvailable (the_takeOff s)) (length (contents (sky_airplanes (the_sky s))))
      (length (contents (to_airplanes (the_takeOff s)))) (cnt is_landing (pend k)) (cnt is_takeoff (pend k))
      (cnt is_grant (pend k)) (to_sky (pend k))" by (auto simp: me_inv_def)
  from phase_exclusive [OF p] phase_L [OF p] me_library.me_step [OF assms(1) inv] inv show ?thesis
    by (auto simp: me_inv_def)
qed

text \<open>
  (C18) The runway is never forgotten: while an airplane waits to land or to take off, a landing or a
  take-off is under way or a message that passes the runway on is on its way.
\<close>

theorem handshake_work_conserving:
  assumes "me_library K contents P" and "pend k0 = []" and "me_start K P k0 = Inr s0" and "me_run K P s0 (s, k)"
    and "contents (sky_airplanes (the_sky s)) \<noteq> [] \<or> contents (to_airplanes (the_takeOff s)) \<noteq> []"
  shows "1 \<le> cnt is_landing (pend k) + cnt is_takeoff (pend k) + cnt is_grant (pend k) + length (to_sky (pend k))"
proof -
  note inv = me_library.me_run_inv [OF assms(1,4) me_library.me_start_inv [OF assms(1-3)]]
  then show ?thesis using assms(5) by (auto simp: me_inv_def dest: phase_busy)
qed

definition me_blank :: "unit me_kernel" where
  "me_blank = \<lparr>now = 0, pend = [], me_rng = (), next_id = 0, log = []\<rparr>"

abbreviation "me_demo_start \<equiv> me_start (list_omnet :: (me_msg list, me_msg, unit) omnet) demo_par me_blank"
abbreviation "me_demo_run \<equiv> me_run (list_omnet :: (me_msg list, me_msg, unit) omnet) demo_par"

lemma me_demo:
  "\<exists>s0 s k. me_demo_start = Inr s0 \<and> me_demo_run s0 (s, k) \<and> usingRunway (the_sky s) \<and>
     length (sky_airplanes (the_sky s)) = 1"
proof -
  let ?e = "\<lparr>ev_time = 43, ev_module = TheSky, ev_gate = None, ev_msg = \<lparr>m_name = ''arrival'', m_id = 0\<rparr>\<rparr>"
  let ?K = "list_omnet :: (me_msg list, me_msg, unit) omnet"
  obtain k where k: "me_demo_start = Inr (me_initial ?K, k)" "pend k = [?e]"
    by (simp add: me_start_def Sky_initialize_def Sky_scheduleArrival_def me_duration_def demo_par_def new_cMessage_def
        me_scheduleAt_def me_blank_def list_omnet_def)
  obtain s' k' where d: "me_deliver ?K demo_par ?e (me_initial ?K, k\<lparr>now := ev_time ?e, pend := []\<rparr>) = Inr (s', k')"
    and s': "usingRunway (the_sky s')" "length (sky_airplanes (the_sky s')) = 1"
    by (simp add: me_deliver_def Sky_handleMessage_def Sky_handleArrival_def Sky_scheduleLanding_def Sky_scheduleArrival_def
        me_duration_def demo_par_def new_cMessage_def me_scheduleAt_def me_initial_def list_omnet_def me_emit_def)
  have "pick (pend k) = Some (?e, [])" using k by simp
  from me_next [OF me_begin this d] k(1) s' show ?thesis by blast
qed

theorem handshake_exclusive_witness:
  "\<exists>s0 s k. me_demo_start = Inr s0 \<and> me_demo_run s0 (s, k) \<and> usingRunway (the_sky s) \<and>
     cnt is_landing (pend k) = 1 \<and> cnt is_takeoff (pend k) = 0"
proof -
  from me_demo obtain s0 s k where r: "me_demo_start = Inr s0" "me_demo_run s0 (s, k)" "usingRunway (the_sky s)" by blast
  with handshake_exclusive [OF list_me.me_library_axioms _ r(1,2)] show ?thesis
    by (intro exI [of _ s0] exI [of _ s] exI [of _ k]) (auto simp: me_blank_def)
qed

theorem handshake_work_conserving_witness:
  "\<exists>s0 s k. me_demo_start = Inr s0 \<and> me_demo_run s0 (s, k) \<and> length (sky_airplanes (the_sky s)) = 1 \<and>
     1 \<le> cnt is_landing (pend k) + cnt is_takeoff (pend k) + cnt is_grant (pend k) + length (to_sky (pend k))"
proof -
  from me_demo obtain s0 s k where r: "me_demo_start = Inr s0" "me_demo_run s0 (s, k)"
    "length (sky_airplanes (the_sky s)) = 1" by blast
  from r(3) have "sky_airplanes (the_sky s) \<noteq> []" by auto
  with r handshake_work_conserving [OF list_me.me_library_axioms _ r(1,2) disjI1] show ?thesis
    by (intro exI [of _ s0] exI [of _ s] exI [of _ k]) (auto simp: me_blank_def)
qed

end
