(* ===== verification/SeqNum.thy ===== *)
theory SeqNum
  imports Omnet "HOL-Library.Word"
begin

text \<open>
  Sequence numbers of the transport protocols: 32-bit words that wrap around, compared by the size
  of their difference (\<open>TcpHeader.h\<close>). The offset \<open>off b s\<close> of a number behind a base \<open>b\<close> turns
  comparisons within half of the number space into comparisons of natural numbers.
\<close>

type_synonym uint32 = "32 word"

definition seqLess :: "uint32 \<Rightarrow> uint32 \<Rightarrow> bool" where
  "seqLess a b \<longleftrightarrow> a \<noteq> b \<and> b - a < 2 ^ 31"

definition seqLE :: "uint32 \<Rightarrow> uint32 \<Rightarrow> bool" where
  "seqLE a b \<longleftrightarrow> b - a < 2 ^ 31"

definition seqGreater :: "uint32 \<Rightarrow> uint32 \<Rightarrow> bool" where
  "seqGreater a b \<longleftrightarrow> a \<noteq> b \<and> a - b < 2 ^ 31"

definition seqGE :: "uint32 \<Rightarrow> uint32 \<Rightarrow> bool" where
  "seqGE a b \<longleftrightarrow> a - b < 2 ^ 31"

definition seqMin :: "uint32 \<Rightarrow> uint32 \<Rightarrow> uint32" where
  "seqMin a b = (if b - a < 2 ^ 31 then a else b)"

definition seqMax :: "uint32 \<Rightarrow> uint32 \<Rightarrow> uint32" where
  "seqMax a b = (if a - b < 2 ^ 31 then a else b)"

section \<open>Offsets\<close>

definition off :: "uint32 \<Rightarrow> uint32 \<Rightarrow> nat" where
  "off b s = unat (s - b)"

abbreviation half :: nat where
  "half \<equiv> 2 ^ 31"

lemma off_self [simp]: "off b b = 0"
  by (simp add: off_def)

lemma off_eq_0 [simp]: "off b s = 0 \<longleftrightarrow> s = b"
  by (simp add: off_def unat_eq_0)

lemma off_pos: "0 < off b s \<longleftrightarrow> s \<noteq> b"
  by (metis neq0_conv off_eq_0)

lemma off_less: "off b s < 2 ^ 32"
  using unsigned_less [of "s - b"] by (simp add: off_def)

lemma off_add [simp]: "off b (b + of_nat n) = n mod 2 ^ 32"
  by (simp add: off_def unat_of_nat)

lemma base_plus_off [simp]: "b + of_nat (off b s) = s"
  by (simp add: off_def)

lemma diff_off: "e - f = of_nat (off f e)"
  by (simp add: off_def)

lemma off_inject: "off b s = off b t \<longleftrightarrow> s = t"
  by (metis base_plus_off)

lemma off_rebase:
  "off c s = (if off b c \<le> off b s then off b s - off b c else off b s + 2 ^ 32 - off b c)"
proof -
  have eq: "s - c = (s - b) - (c - b)" by simp
  show ?thesis unfolding off_def eq using unat_sub_if' [of "s - b" "c - b"] by simp
qed

lemma seqLE_off: "seqLE a b \<longleftrightarrow> off a b < half"
  by (simp add: seqLE_def off_def word_less_nat_alt)

lemma seqLess_off: "seqLess a b \<longleftrightarrow> 0 < off a b \<and> off a b < half"
  by (auto simp: seqLess_def off_def word_less_nat_alt unat_gt_0)

lemma seqGE_off: "seqGE a b \<longleftrightarrow> off b a < half"
  by (simp add: seqGE_def off_def word_less_nat_alt)

text \<open>Within half of the number space from a common base the comparisons are those of the offsets.\<close>

lemma seqLE_base:
  assumes "off b e < half" and "off b s < half"
  shows "seqLE e s \<longleftrightarrow> off b e \<le> off b s"
  using assms by (auto simp: seqLE_off off_rebase [of e s b])

lemma seqLess_base:
  assumes "off b e < half" and "off b s < half"
  shows "seqLess e s \<longleftrightarrow> off b e < off b s"
  using assms by (auto simp: seqLess_off off_rebase [of e s b])

lemma seqGE_base:
  assumes "off b e < half" and "off b s < half"
  shows "seqGE e s \<longleftrightarrow> off b s \<le> off b e"
  using assms by (auto simp: seqGE_off off_rebase [of s e b])

lemma off_trans:
  assumes "off b c \<le> off b s"
  shows "off c s = off b s - off b c"
  using assms by (simp add: off_rebase [of c s b])

lemma off_compose:
  assumes "off b c + off c s < 2 ^ 32"
  shows "off b s = off b c + off c s"
proof -
  have eq: "s - b = (c - b) + (s - c)" by simp
  show ?thesis using assms unat_plus_if' [of "c - b" "s - c"] unfolding off_def eq by simp
qed

end
