(* ===== verification/SackQueue.thy ===== *)
theory SackQueue
  imports SeqNum Decimal
begin

text \<open>
  The retransmission queue of a TCP sender with selective acknowledgments
  (\<open>transportlayer/tcp/TcpSackRexmitQueue\<close> of the INET framework): a list of adjacent regions of
  sent bytes, each with a \<open>sacked\<close> and a \<open>rexmitted\<close> flag. Iterators into the list are modelled by
  the pair of the elements before the iterator and those from it on; a failed \<open>ASSERT\<close> is the error
  \<open>AssertionFailed\<close>. The abstract view is the list of the flags of every single byte: each update
  is a plain update of that list, each query a plain function of it.
\<close>

section \<open>The queue\<close>

record Region =
  beginSeqNum :: uint32
  endSeqNum :: uint32
  sacked :: bool
  rexmitted :: bool

record TcpSackRexmitQueue =
  rexmitQueue :: "Region list"
  q_begin :: uint32
  q_end :: uint32

definition ASSERT :: "bool \<Rightarrow> error + 'a \<Rightarrow> error + 'a" where
  "ASSERT b k = (if b then k else Inl AssertionFailed)"

lemma ASSERT_simps [simp]: "b \<Longrightarrow> ASSERT b k = k" "\<not> b \<Longrightarrow> ASSERT b k = Inl AssertionFailed"
  by (simp_all add: ASSERT_def)

definition TcpSackRexmitQueue_new :: TcpSackRexmitQueue where
  "TcpSackRexmitQueue_new = \<lparr>rexmitQueue = [], q_begin = 0, q_end = 0\<rparr>"

definition TcpSackRexmitQueue_init :: "uint32 \<Rightarrow> TcpSackRexmitQueue \<Rightarrow> TcpSackRexmitQueue" where
  "TcpSackRexmitQueue_init seqNum q = q\<lparr>q_begin := seqNum, q_end := seqNum\<rparr>"

definition getBufferStartSeq :: "TcpSackRexmitQueue \<Rightarrow> uint32" where
  "getBufferStartSeq q = q_begin q"

definition getBufferEndSeq :: "TcpSackRexmitQueue \<Rightarrow> uint32" where
  "getBufferEndSeq q = q_end q"

definition getQueueLength :: "TcpSackRexmitQueue \<Rightarrow> uint32" where
  "getQueueLength q = of_nat (length (rexmitQueue q))"

subsection \<open>Printing\<close>

definition TcpSackRexmitQueue_str :: "TcpSackRexmitQueue \<Rightarrow> string" where
  "TcpSackRexmitQueue_str q = ''['' @ digits (unat (q_begin q)) @ ''..'' @ digits (unat (q_end q)) @ '')''"

definition show_flag :: "bool \<Rightarrow> string" where
  "show_flag b = (if b then ''1'' else ''0'')"

fun region_lines :: "nat \<Rightarrow> Region list \<Rightarrow> string" where
  "region_lines j [] = []"
| "region_lines j (r # rs) =
     digits j @ ''. region: ['' @ digits (unat (beginSeqNum r)) @ ''..'' @ digits (unat (endSeqNum r))
       @ '') '' @ [CHR 0x09] @ '' sacked='' @ show_flag (sacked r)
       @ [CHR 0x09] @ '' rexmitted='' @ show_flag (rexmitted r) @ [CHR 0x0A]
       @ region_lines (Suc j) rs"

definition TcpSackRexmitQueue_detailedInfo :: "TcpSackRexmitQueue \<Rightarrow> string" where
  "TcpSackRexmitQueue_detailedInfo q =
     TcpSackRexmitQueue_str q @ [CHR 0x0A] @ region_lines 1 (rexmitQueue q)"

subsection \<open>Updates\<close>

definition checkQueue :: "TcpSackRexmitQueue \<Rightarrow> bool" where
  "checkQueue q =
     (let (b, f) = foldl (\<lambda>(b, f) r. (endSeqNum r, (f \<and> b = beginSeqNum r) \<and> seqLess (beginSeqNum r) (endSeqNum r)))
                     (q_begin q, True) (rexmitQueue q)
      in f \<and> b = q_end q)"

text \<open>\<open>while (i != end && seqLE(i->endSeqNum, s)) i++\<close>\<close>

definition skip_to :: "uint32 \<Rightarrow> Region list \<Rightarrow> Region list \<times> Region list" where
  "skip_to s rs = (takeWhile (\<lambda>r. seqLE (endSeqNum r) s) rs, dropWhile (\<lambda>r. seqLE (endSeqNum r) s) rs)"

definition discardUpTo :: "uint32 \<Rightarrow> TcpSackRexmitQueue \<Rightarrow> error + TcpSackRexmitQueue" where
  "discardUpTo seqNum q =
     ASSERT (seqLE (q_begin q) seqNum \<and> seqLE seqNum (q_end q))
       (ebind (case snd (skip_to seqNum (rexmitQueue q)) of
                 [] \<Rightarrow> Inr []
               | i # rest \<Rightarrow>
                   ASSERT (seqLE (beginSeqNum i) seqNum \<and> seqLess seqNum (endSeqNum i))
                     (Inr (i\<lparr>beginSeqNum := seqNum\<rparr> # rest)))
          (\<lambda>rs. let q' = q\<lparr>rexmitQueue := rs, q_begin := seqNum\<rparr> in ASSERT (checkQueue q') (Inr q')))"

text \<open>The region the iterator points at is split at \<open>s\<close> unless it starts there.\<close>

fun chunk_item :: "uint32 \<Rightarrow> Region list \<Rightarrow> Region list \<Rightarrow> Region list \<times> Region list" where
  "chunk_item s before (i # rest) =
     (if beginSeqNum i \<noteq> s then (before @ [i\<lparr>endSeqNum := s\<rparr>], i\<lparr>beginSeqNum := s\<rparr> # rest)
      else (before, i # rest))"
| "chunk_item s before [] = (before, [])"

fun rexmit_loop :: "uint32 \<Rightarrow> uint32 \<Rightarrow> bool \<Rightarrow> Region list \<Rightarrow> Region list \<times> Region list \<times> uint32 \<times> bool" where
  "rexmit_loop toS fromS found [] = ([], [], fromS, found)"
| "rexmit_loop toS fromS found (i # rest) =
     (if seqLE (endSeqNum i) toS then
        let (done, rest', f, fd) = rexmit_loop toS (endSeqNum i) True rest
        in (i\<lparr>rexmitted := True\<rparr> # done, rest', f, fd)
      else ([], i # rest, fromS, found))"

definition rexmit_tail :: "uint32 \<Rightarrow> uint32 \<Rightarrow> Region list \<Rightarrow> error + Region list \<times> uint32 \<times> bool" where
  "rexmit_tail fromS toS rest =
     (let (marked, rest, f, found) = rexmit_loop toS fromS False rest in
      if f \<noteq> toS then
        case rest of
          [] \<Rightarrow> Inr (marked @ [\<lparr>beginSeqNum = f, endSeqNum = toS, sacked = False, rexmitted = False\<rparr>], toS, True)
        | i # rest \<Rightarrow>
            ASSERT (seqLess (beginSeqNum i) toS)
              (Inr (marked @ \<lparr>beginSeqNum = f, endSeqNum = toS, sacked = sacked i, rexmitted = True\<rparr>
                      # i\<lparr>beginSeqNum := toS\<rparr> # rest,
                    toS, True))
      else Inr (marked @ rest, f, found))"

definition enqueue_regions :: "uint32 \<Rightarrow> uint32 \<Rightarrow> Region list \<Rightarrow> error + Region list \<times> uint32 \<times> bool" where
  "enqueue_regions fromS toS rs =
     (let (before, rest) = skip_to fromS rs in
      ASSERT (rest \<noteq> [])
        (ASSERT (seqLE (beginSeqNum (hd rest)) fromS \<and> seqLess fromS (endSeqNum (hd rest)))
          (let (before, rest) = chunk_item fromS before rest
           in ebind (rexmit_tail fromS toS rest) (\<lambda>(rs', f, found). Inr (before @ rs', f, found)))))"

definition enqueueSentData :: "uint32 \<Rightarrow> uint32 \<Rightarrow> TcpSackRexmitQueue \<Rightarrow> error + TcpSackRexmitQueue" where
  "enqueueSentData fromS toS q =
     ASSERT (seqLE (q_begin q) fromS \<and> seqLE fromS (q_end q))
       (ASSERT (seqLess fromS toS)
         (ebind (if rexmitQueue q = [] \<or> q_end q = fromS then
                   Inr (rexmitQueue q @ [\<lparr>beginSeqNum = fromS, endSeqNum = toS, sacked = False, rexmitted = False\<rparr>],
                        toS, True)
                 else enqueue_regions fromS toS (rexmitQueue q))
           (\<lambda>(rs, f, found).
              ASSERT (f = toS)
                (ASSERT found
                  (if rs = [] then Inl NullDereference
                   else let q' = \<lparr>rexmitQueue = rs, q_begin = beginSeqNum (hd rs), q_end = endSeqNum (last rs)\<rparr>
                        in ASSERT (checkQueue q') (Inr q'))))))"

fun sack_loop :: "uint32 \<Rightarrow> uint32 \<Rightarrow> Region list \<Rightarrow> Region list \<times> Region list" where
  "sack_loop fromS toS [] = ([], [])"
| "sack_loop fromS toS (i # rest) =
     (if seqLE (endSeqNum i) toS then
        let (done, rest') = sack_loop fromS toS rest
        in ((if seqGE (beginSeqNum i) fromS then i\<lparr>sacked := True\<rparr> else i) # done, rest')
      else ([], i # rest))"

fun sack_last :: "uint32 \<Rightarrow> Region list \<Rightarrow> Region list" where
  "sack_last toS [] = []"
| "sack_last toS (i # rest) =
     (if seqLess (beginSeqNum i) toS \<and> seqLess toS (endSeqNum i)
      then i\<lparr>endSeqNum := toS, sacked := True\<rparr> # i\<lparr>beginSeqNum := toS\<rparr> # rest
      else i # rest)"

definition setSackedBit :: "uint32 \<Rightarrow> uint32 \<Rightarrow> TcpSackRexmitQueue \<Rightarrow> error + TcpSackRexmitQueue" where
  "setSackedBit fromSeqNum toS q =
     (let fromS = (if seqLess fromSeqNum (q_begin q) then q_begin q else fromSeqNum) in
      ASSERT (seqLess fromS (q_end q))
       (ASSERT (seqLess (q_begin q) toS \<and> seqLE toS (q_end q))
         (ASSERT (seqLess fromS toS)
           (ebind (if rexmitQueue q = [] then Inr []
                   else let (before, rest) = skip_to fromS (rexmitQueue q) in
                     ASSERT (rest \<noteq> [] \<and> seqLE (beginSeqNum (hd rest)) fromS \<and> seqLess fromS (endSeqNum (hd rest)))
                       (let (before, rest) = chunk_item fromS before rest;
                            (marked, rest) = sack_loop fromS toS rest
                        in Inr (before @ marked @ sack_last toS rest)))
             (\<lambda>rs. let q' = q\<lparr>rexmitQueue := rs\<rparr> in ASSERT (checkQueue q') (Inr q'))))))"

definition resetSackedBit :: "TcpSackRexmitQueue \<Rightarrow> TcpSackRexmitQueue" where
  "resetSackedBit q = q\<lparr>rexmitQueue := map (\<lambda>r. r\<lparr>sacked := False\<rparr>) (rexmitQueue q)\<rparr>"

definition resetRexmittedBit :: "TcpSackRexmitQueue \<Rightarrow> TcpSackRexmitQueue" where
  "resetRexmittedBit q = q\<lparr>rexmitQueue := map (\<lambda>r. r\<lparr>rexmitted := False\<rparr>) (rexmitQueue q)\<rparr>"

subsection \<open>Queries\<close>

definition getSackedBit :: "uint32 \<Rightarrow> TcpSackRexmitQueue \<Rightarrow> error + bool" where
  "getSackedBit seqNum q =
     ASSERT (seqLE (q_begin q) seqNum \<and> seqLE seqNum (q_end q))
       (if q_end q = seqNum then Inr False
        else case snd (skip_to seqNum (rexmitQueue q)) of
               [] \<Rightarrow> Inl AssertionFailed
             | i # rest \<Rightarrow> ASSERT (seqLE (beginSeqNum i) seqNum \<and> seqLess seqNum (endSeqNum i)) (Inr (sacked i)))"

definition getHighestSackedSeqNum :: "TcpSackRexmitQueue \<Rightarrow> uint32" where
  "getHighestSackedSeqNum q =
     (case find sacked (rev (rexmitQueue q)) of Some i \<Rightarrow> endSeqNum i | None \<Rightarrow> q_begin q)"

definition getHighestRexmittedSeqNum :: "TcpSackRexmitQueue \<Rightarrow> uint32" where
  "getHighestRexmittedSeqNum q =
     (case find rexmitted (rev (rexmitQueue q)) of Some i \<Rightarrow> endSeqNum i | None \<Rightarrow> q_begin q)"

fun rexmit_scan :: "uint32 \<Rightarrow> uint32 \<Rightarrow> Region list \<Rightarrow> error + uint32" where
  "rexmit_scan fromS bytes [] = Inr bytes"
| "rexmit_scan fromS bytes (i # rest) =
     (if sacked i \<or> rexmitted i then
        ASSERT (seqLE (beginSeqNum i) fromS \<and> seqLess fromS (endSeqNum i))
          (rexmit_scan (endSeqNum i) (bytes + (endSeqNum i - fromS)) rest)
      else Inr bytes)"

definition checkRexmitQueueForSackedOrRexmittedSegments :: "uint32 \<Rightarrow> TcpSackRexmitQueue \<Rightarrow> error + uint32" where
  "checkRexmitQueueForSackedOrRexmittedSegments fromS q =
     ASSERT (seqLE (q_begin q) fromS \<and> seqLE fromS (q_end q))
       (if rexmitQueue q = [] \<or> q_end q = fromS then Inr 0
        else rexmit_scan fromS 0 (snd (skip_to fromS (rexmitQueue q))))"

definition add_sacked :: "uint32 \<Rightarrow> Region \<Rightarrow> uint32" where
  "add_sacked bytes r = (if sacked r then bytes + (endSeqNum r - beginSeqNum r) else bytes)"

definition getTotalAmountOfSackedBytes :: "TcpSackRexmitQueue \<Rightarrow> uint32" where
  "getTotalAmountOfSackedBytes q = foldl add_sacked 0 (rexmitQueue q)"

definition getAmountOfSackedBytes :: "uint32 \<Rightarrow> TcpSackRexmitQueue \<Rightarrow> error + uint32" where
  "getAmountOfSackedBytes fromS q =
     ASSERT (seqLE (q_begin q) fromS \<and> seqLE fromS (q_end q))
       (Inr (let bytes = foldl add_sacked 0 (takeWhile (\<lambda>r. seqLE fromS (beginSeqNum r)) (rev (rexmitQueue q)))
             in case dropWhile (\<lambda>r. seqLE fromS (beginSeqNum r)) (rev (rexmitQueue q)) of
                  [] \<Rightarrow> bytes
                | i # rest \<Rightarrow>
                    if seqLess (beginSeqNum i) fromS \<and> seqLess fromS (endSeqNum i) \<and> sacked i
                    then bytes + (endSeqNum i - fromS) else bytes))"

fun sack_runs :: "bool \<Rightarrow> uint32 \<Rightarrow> Region list \<Rightarrow> uint32" where
  "sack_runs prevSacked counter [] = counter"
| "sack_runs prevSacked counter (i # rest) =
     sack_runs (sacked i) (if sacked i \<and> \<not> prevSacked then counter + 1 else counter) rest"

definition getNumOfDiscontiguousSacks :: "uint32 \<Rightarrow> TcpSackRexmitQueue \<Rightarrow> error + uint32" where
  "getNumOfDiscontiguousSacks fromS q =
     ASSERT (seqLE (q_begin q) fromS \<and> seqLE fromS (q_end q))
       (if rexmitQueue q = [] \<or> fromS = q_end q then Inr 0
        else Inr (sack_runs False 0 (snd (skip_to fromS (rexmitQueue q)))))"

definition checkSackBlock :: "uint32 \<Rightarrow> TcpSackRexmitQueue \<Rightarrow> error + uint32 \<times> bool \<times> bool" where
  "checkSackBlock fromS q =
     ASSERT (seqLE (q_begin q) fromS \<and> seqLess fromS (q_end q))
       (case snd (skip_to fromS (rexmitQueue q)) of
          [] \<Rightarrow> Inl AssertionFailed
        | i # rest \<Rightarrow>
            ASSERT (seqLE (beginSeqNum i) fromS \<and> seqLess fromS (endSeqNum i))
              (Inr (endSeqNum i - fromS, sacked i, rexmitted i)))"

end
