(* ===== verification/SackSpec.thy ===== *)
theory SackSpec
  imports SackQueue
begin

text \<open>
  Correctness of the retransmission queue. The abstract queue is the list of flags of the bytes
  between \<open>begin\<close> and \<open>end\<close>; positions are offsets from \<open>begin\<close>. The invariant says that the regions
  are adjacent and non-empty and that the queue spans less than half of the sequence number space,
  as every TCP window does.
\<close>

section \<open>Regions as bytes\<close>

definition len :: "Region \<Rightarrow> nat" where
  "len r = off (beginSeqNum r) (endSeqNum r)"

definition region_bytes :: "Region \<Rightarrow> (bool \<times> bool) list" where
  "region_bytes r = replicate (len r) (sacked r, rexmitted r)"

definition bytes :: "Region list \<Rightarrow> (bool \<times> bool) list" where
  "bytes rs = concat (map region_bytes rs)"

fun chain :: "uint32 \<Rightarrow> Region list \<Rightarrow> uint32 \<Rightarrow> bool" where
  "chain b [] e \<longleftrightarrow> b = e"
| "chain b (r # rs) e \<longleftrightarrow> b = beginSeqNum r \<and> seqLess (beginSeqNum r) (endSeqNum r) \<and> chain (endSeqNum r) rs e"

definition sack_wf :: "TcpSackRexmitQueue \<Rightarrow> bool" where
  "sack_wf q \<longleftrightarrow> chain (q_begin q) (rexmitQueue q) (q_end q) \<and> length (bytes (rexmitQueue q)) < half"

lemma bytes_simps [simp]:
  "bytes [] = []"
  "bytes (r # rs) = region_bytes r @ bytes rs"
  "bytes (xs @ ys) = bytes xs @ bytes ys"
  by (simp_all add: bytes_def)

lemma length_region_bytes [simp]: "length (region_bytes r) = len r"
  by (simp add: region_bytes_def)

lemma chain_append: "chain b (xs @ ys) e \<longleftrightarrow> (\<exists>m. chain b xs m \<and> chain m ys e)"
  by (induction xs arbitrary: b) auto

lemma foldl_checkQueue:
  "foldl (\<lambda>(b, f) r. (endSeqNum r, (f \<and> b = beginSeqNum r) \<and> seqLess (beginSeqNum r) (endSeqNum r))) (b, f) rs
     = (b', f') \<Longrightarrow> f' \<and> b' = e \<longleftrightarrow> f \<and> chain b rs e"
  by (induction rs arbitrary: b f) auto

lemma checkQueue_chain: "checkQueue q \<longleftrightarrow> chain (q_begin q) (rexmitQueue q) (q_end q)"
  using foldl_checkQueue [of "q_begin q" True "rexmitQueue q" _ _ "q_end q"]
  by (auto simp: checkQueue_def split: prod.splits)

lemma chain_off:
  "chain b rs e \<Longrightarrow> length (bytes rs) < half \<Longrightarrow> off b e = length (bytes rs)"
proof (induction rs arbitrary: b)
  case (Cons r rs)
  then have IH: "off (endSeqNum r) e = length (bytes rs)" and b: "b = beginSeqNum r" by auto
  from Cons.prems have "off b (endSeqNum r) + off (endSeqNum r) e < 2 ^ 32"
    unfolding IH by (simp add: b len_def)
  from off_compose [OF this] show ?case by (simp add: IH b len_def)
qed simp

lemma chain_last:
  "chain b rs e \<Longrightarrow> e = (if rs = [] then b else endSeqNum (last rs))"
  by (induction rs arbitrary: b) (auto split: if_splits)

lemma chain_hd: "chain b rs e \<Longrightarrow> rs \<noteq> [] \<Longrightarrow> b = beginSeqNum (hd rs)"
  by (cases rs) auto

lemma len_pos: "chain b rs e \<Longrightarrow> r \<in> set rs \<Longrightarrow> 0 < len r"
  by (induction rs arbitrary: b) (auto simp: seqLess_off len_def)

lemma chain_mapI:
  assumes "\<And>r. beginSeqNum (f r) = beginSeqNum r" and "\<And>r. endSeqNum (f r) = endSeqNum r"
  shows "chain b (map f rs) e = chain b rs e"
  by (induction rs arbitrary: b) (simp_all add: assms)

lemma len_update [simp]:
  "len (r\<lparr>sacked := s\<rparr>) = len r" "len (r\<lparr>rexmitted := s\<rparr>) = len r"
  by (simp_all add: len_def)

section \<open>Finding and splitting a region\<close>

text \<open>Where the search for a sequence number stops.\<close>

definition located :: "uint32 \<Rightarrow> uint32 \<Rightarrow> Region list \<Rightarrow> uint32 \<Rightarrow> Region list \<Rightarrow> uint32 \<Rightarrow> bool" where
  "located b s xs m ys e \<longleftrightarrow> chain b xs m \<and> chain m ys e \<and> off b m \<le> off b s
     \<and> (\<forall>r rest. ys = r # rest \<longrightarrow> off b s < off b m + len r)"

lemma located_Cons:
  assumes "located (endSeqNum r) s xs m ys e" and "seqLess (beginSeqNum r) (endSeqNum r)"
    and "len r \<le> off (beginSeqNum r) s"
  shows "located (beginSeqNum r) s (r # xs) m ys e"
proof -
  let ?b = "beginSeqNum r"
  have o: "off (endSeqNum r) s = off ?b s - len r"
    using off_trans [of ?b "endSeqNum r" s] assms(3) by (simp add: len_def)
  have "off (endSeqNum r) m \<le> off ?b s - len r" using assms(1) by (simp add: located_def o)
  with assms(3) have "off ?b m = len r + off (endSeqNum r) m"
    using off_compose [of ?b "endSeqNum r" m] off_less [of ?b s] by (simp add: len_def)
  with assms o show ?thesis by (auto simp: located_def)
qed

lemma skip_to_located:
  assumes "chain b rs e" and "length (bytes rs) < half" and "off b s < half"
  shows "\<exists>m. located b s (takeWhile (\<lambda>r. seqLE (endSeqNum r) s) rs) m (dropWhile (\<lambda>r. seqLE (endSeqNum r) s) rs) e"
  using assms
proof (induction rs arbitrary: b)
  case (Cons r rs)
  from Cons.prems have b: "b = beginSeqNum r" and ch: "chain (endSeqNum r) rs e"
    and less: "seqLess (beginSeqNum r) (endSeqNum r)" and half: "length (bytes rs) < half" by auto
  have l: "off b (endSeqNum r) = len r" by (simp add: b len_def)
  have le: "seqLE (endSeqNum r) s \<longleftrightarrow> len r \<le> off b s"
    using seqLE_base [of b "endSeqNum r" s] Cons.prems(2,3) by (simp add: l)
  show ?case
  proof (cases "len r \<le> off b s")
    case True
    then have "off (endSeqNum r) s < half"
      using off_trans [of b "endSeqNum r" s] Cons.prems(3) by (simp add: l)
    from Cons.IH [OF ch half this] obtain m where
      "located (endSeqNum r) s (takeWhile (\<lambda>r. seqLE (endSeqNum r) s) rs) m (dropWhile (\<lambda>r. seqLE (endSeqNum r) s) rs) e" ..
    from located_Cons [OF this less] True show ?thesis by (auto simp: le b)
  next
    case False
    then show ?thesis using Cons.prems(1) by (intro exI [of _ b]) (simp add: le located_def)
  qed
qed (simp add: located_def)

lemma skip_to_spec:
  assumes "chain b rs e" and "length (bytes rs) < half" and "off b s < half"
  obtains xs ys m where "skip_to s rs = (xs, ys)" and "rs = xs @ ys"
    and "chain b xs m" and "chain m ys e" and "off b m \<le> off b s"
    and "length (bytes xs) = off b m"
    and "\<And>r rest. ys = r # rest \<Longrightarrow> off b s < off b m + len r"
proof -
  let ?xs = "takeWhile (\<lambda>r. seqLE (endSeqNum r) s) rs" and ?ys = "dropWhile (\<lambda>r. seqLE (endSeqNum r) s) rs"
  from skip_to_located [OF assms] obtain m where m: "located b s ?xs m ?ys e" ..
  have rs: "rs = ?xs @ ?ys" by simp
  have "length (bytes rs) = length (bytes ?xs) + length (bytes ?ys)"
    by (metis bytes_simps(3) length_append takeWhile_dropWhile_id)
  with assms(2) m have "length (bytes ?xs) = off b m"
    using chain_off [of b ?xs m] by (simp add: located_def)
  then show thesis using m by (intro that [OF _ rs, of m]) (auto simp: located_def skip_to_def)
qed

text \<open>The region found contains the sequence number, as the assertions after the search require.\<close>

lemma skip_to_asserts:
  assumes "chain m (r # rest) e" and "off b m \<le> off b s" and "off b s < off b m + len r" and "off b s < half"
    and "off b m + len r < half"
  shows "beginSeqNum r = m" and "seqLE (beginSeqNum r) s" and "seqLess s (endSeqNum r)"
    and "off m s = off b s - off b m" and "off s (endSeqNum r) = off b m + len r - off b s"
    and "off b (endSeqNum r) = off b m + len r"
proof -
  show m: "beginSeqNum r = m" using assms(1) by simp
  then have l: "off m (endSeqNum r) = len r" by (simp add: len_def)
  show o: "off b (endSeqNum r) = off b m + len r"
    using off_compose [of b m "endSeqNum r"] assms(5) by (simp add: l)
  show "seqLE (beginSeqNum r) s" using seqLE_base [of b m s] assms by (simp add: m)
  show "seqLess s (endSeqNum r)" using seqLess_base [of b s "endSeqNum r"] assms by (simp add: o)
  show "off m s = off b s - off b m" using off_trans [OF assms(2)] .
  show "off s (endSeqNum r) = off b m + len r - off b s"
    using off_trans [of b s "endSeqNum r"] assms(3) by (simp add: o)
qed

lemma length_bytes_append: "length (bytes (xs @ ys)) = length (bytes xs) + length (bytes ys)"
  by simp

text \<open>Searching for \<open>s\<close> and splitting there cuts the bytes at the offset of \<open>s\<close>.\<close>

lemma chunk_item_spec:
  assumes "chain b rs e" and "length (bytes rs) < half" and "off b s < length (bytes rs)"
  obtains xs ys before rest where "skip_to s rs = (xs, ys)" and "ys \<noteq> []"
    and "seqLE (beginSeqNum (hd ys)) s" and "seqLess s (endSeqNum (hd ys))"
    and "chunk_item s xs ys = (before, rest)" and "chain b before s" and "chain s rest e" and "rest \<noteq> []"
    and "bytes before = take (off b s) (bytes rs)" and "bytes rest = drop (off b s) (bytes rs)"
proof -
  from assms obtain xs ys m where s: "skip_to s rs = (xs, ys)" "rs = xs @ ys"
    and c: "chain b xs m" "chain m ys e" and o: "off b m \<le> off b s" "length (bytes xs) = off b m"
    and lt: "\<And>r rest. ys = r # rest \<Longrightarrow> off b s < off b m + len r"
    using skip_to_spec [OF assms(1,2) order_less_trans [OF assms(3,2)]] by metis
  from assms(3) o s(2) have "ys \<noteq> []" by auto
  then obtain r rest where ys: "ys = r # rest" by (cases ys) auto
  have half: "off b m + len r < half" using assms(2) o s(2) ys by simp
  note A = skip_to_asserts [OF c(2) [unfolded ys] o(1) lt [OF ys] _ half]
  from assms have "off b s < half" by simp
  note A = A [OF this]
  define k where "k = off b s - off b m"
  have k: "k < len r" "off b s = off b m + k" using lt [OF ys] o(1) by (auto simp: k_def)
  have all: "bytes rs = bytes xs @ replicate (len r) (sacked r, rexmitted r) @ bytes rest"
    by (simp add: s(2) ys region_bytes_def)
  show thesis
  proof (cases "beginSeqNum r = s")
    case True
    with A(1,4) have "k = 0" by (simp add: k_def)
    then have o0: "off b s = length (bytes xs)" using k o by simp
    have ms: "m = s" using True A(1) by simp
    show thesis
      by (rule that [OF s(1) \<open>ys \<noteq> []\<close> _ _ _ c [unfolded ms] \<open>ys \<noteq> []\<close>])
        (use True A in \<open>simp_all add: ys s(2) o0\<close>)
  next
    case False
    have l1: "len (r\<lparr>endSeqNum := s\<rparr>) = k" using A(1,4) by (simp add: len_def k_def)
    have l2: "len (r\<lparr>beginSeqNum := s\<rparr>) = len r - k" using A(5) k by (simp add: len_def)
    have "s \<noteq> m" using False A(1) by simp
    then have "0 < k" using A(4) by (metis k_def neq0_conv off_eq_0)
    then have "seqLess m s" using A(4) k(1) half by (simp add: seqLess_off k_def [symmetric])
    with c(1) A(1) have ch1: "chain b (xs @ [r\<lparr>endSeqNum := s\<rparr>]) s"
      by (auto simp: chain_append)
    from c(2) ys A(3) have ch2: "chain s (r\<lparr>beginSeqNum := s\<rparr> # rest) e" by simp
    have b1: "bytes (xs @ [r\<lparr>endSeqNum := s\<rparr>]) = take (off b s) (bytes rs)"
      using k o by (simp add: all region_bytes_def l1)
    have b2: "bytes (r\<lparr>beginSeqNum := s\<rparr> # rest) = drop (off b s) (bytes rs)"
      using k o by (simp add: all region_bytes_def l2)
    show thesis
      by (rule that [OF s(1) \<open>ys \<noteq> []\<close> _ _ _ ch1 ch2 _ b1 b2]) (use False A in \<open>simp_all add: ys\<close>)
  qed
qed

section \<open>The abstract queue\<close>

definition sb_send :: "nat \<Rightarrow> nat \<Rightarrow> (bool \<times> bool) list \<Rightarrow> (bool \<times> bool) list" where
  "sb_send f t bs = take f bs @ map (\<lambda>(s, r). (s, True)) (take (t - f) (drop f bs)) @ drop t bs
     @ replicate (t - length bs) (False, False)"

definition sb_sack :: "nat \<Rightarrow> nat \<Rightarrow> (bool \<times> bool) list \<Rightarrow> (bool \<times> bool) list" where
  "sb_sack f t bs = take f bs @ map (\<lambda>(s, r). (True, r)) (take (t - f) (drop f bs)) @ drop t bs"

lemma length_sb_send: "f \<le> t \<Longrightarrow> f \<le> length bs \<Longrightarrow> length (sb_send f t bs) = max t (length bs)"
  by (simp add: sb_send_def)

lemma length_sb_sack: "f \<le> t \<Longrightarrow> t \<le> length bs \<Longrightarrow> length (sb_sack f t bs) = length bs"
  by (simp add: sb_sack_def)

lemma sb_send_split: "f \<le> length bs \<Longrightarrow> f \<le> t \<Longrightarrow> sb_send f t bs = take f bs @ sb_send 0 (t - f) (drop f bs)"
  by (simp add: sb_send_def)

lemma sb_sack_split: "f \<le> t \<Longrightarrow> sb_sack f t bs = take f bs @ sb_sack 0 (t - f) (drop f bs)"
  by (simp add: sb_sack_def)

lemma bytes_map_rexmitted: "bytes (map (\<lambda>r. r\<lparr>rexmitted := v\<rparr>) rs) = map (\<lambda>(s, r). (s, v)) (bytes rs)"
  by (induction rs) (simp_all add: region_bytes_def)

lemma bytes_map_sacked: "bytes (map (\<lambda>r. r\<lparr>sacked := v\<rparr>) rs) = map (\<lambda>(s, r). (v, r)) (bytes rs)"
  by (induction rs) (simp_all add: region_bytes_def)

section \<open>Updates\<close>

lemma rexmit_loop_skip:
  "rexmit_loop toS f fd rs = (let (xs, ys) = skip_to toS rs in
     (map (\<lambda>r. r\<lparr>rexmitted := True\<rparr>) xs, ys, (if xs = [] then f else endSeqNum (last xs)), fd \<or> xs \<noteq> []))"
  by (induction rs arbitrary: f fd) (auto simp: skip_to_def Let_def)

lemma rexmit_tail_spec:
  assumes "chain b rs e" and "length (bytes rs) < half" and "seqLess b t"
  shows "\<exists>rs' e'. rexmit_tail b t rs = Inr (rs', t, True) \<and> chain b rs' e' \<and> bytes rs' = sb_send 0 (off b t) (bytes rs)"
proof -
  from assms(3) have t: "0 < off b t" "off b t < half" by (auto simp: seqLess_off)
  from skip_to_spec [OF assms(1,2) t(2)] obtain xs ys m where s: "skip_to t rs = (xs, ys)" "rs = xs @ ys"
    and c: "chain b xs m" "chain m ys e" and o: "off b m \<le> off b t" "length (bytes xs) = off b m"
    and lt: "\<And>r rest. ys = r # rest \<Longrightarrow> off b t < off b m + len r" by metis
  let ?xs = "map (\<lambda>r. r\<lparr>rexmitted := True\<rparr>) xs"
  have loop: "rexmit_loop t b False rs = (?xs, ys, m, xs \<noteq> [])"
    using chain_last [OF c(1)] by (simp add: rexmit_loop_skip s(1))
  have cx: "chain b ?xs m" using c(1) by (simp add: chain_mapI)
  have d: "off m t = off b t - off b m" using off_trans [OF o(1)] .
  show ?thesis
  proof (cases "m = t")
    case True
    with t(1) c(1) have "xs \<noteq> []" by auto
    moreover have "chain b (?xs @ ys) e" using cx c(2) by (auto simp: chain_append)
    moreover have "bytes (?xs @ ys) = sb_send 0 (off b t) (bytes rs)"
      using o True by (simp add: sb_send_def s(2) bytes_map_rexmitted)
    ultimately show ?thesis using loop True by (auto simp: rexmit_tail_def)
  next
    case False
    with o(1) have strict: "off b m < off b t" by (metis le_neq_implies_less off_inject)
    then have mt: "seqLess m t" using d t(2) by (simp add: seqLess_off)
    show ?thesis
    proof (cases ys)
      case Nil
      let ?rs = "?xs @ [\<lparr>beginSeqNum = m, endSeqNum = t, sacked = False, rexmitted = False\<rparr>]"
      have "chain b ?rs t" using cx mt by (auto simp: chain_append)
      moreover have "bytes ?rs = sb_send 0 (off b t) (bytes rs)"
        using o strict d by (simp add: sb_send_def s(2) Nil bytes_map_rexmitted region_bytes_def len_def)
      ultimately show ?thesis using loop False Nil by (auto simp: rexmit_tail_def)
    next
      case (Cons r rest)
      have half: "off b m + len r < half" using assms(2) o(2) by (simp add: s(2) Cons)
      note A = skip_to_asserts [OF c(2) [unfolded Cons] o(1) lt [OF Cons] t(2) half]
      let ?r = "\<lparr>beginSeqNum = m, endSeqNum = t, sacked = sacked r, rexmitted = True\<rparr>"
      let ?rs = "?xs @ ?r # r\<lparr>beginSeqNum := t\<rparr> # rest"
      have "chain b ?rs e" using cx mt c(2) A(3) Cons by (auto simp: chain_append)
      moreover have "len ?r = off b t - off b m" "len (r\<lparr>beginSeqNum := t\<rparr>) = off b m + len r - off b t"
        using d A(5) by (simp_all add: len_def)
      then have "bytes ?rs = sb_send 0 (off b t) (bytes rs)"
        using o strict lt [OF Cons]
        by (simp add: sb_send_def s(2) Cons bytes_map_rexmitted region_bytes_def)
      ultimately show ?thesis using loop False Cons A(1) mt by (auto simp: rexmit_tail_def ASSERT_def)
    qed
  qed
qed

text \<open>The outcome of an update: it fails with an assertion exactly when its precondition is violated.\<close>

definition pos :: "TcpSackRexmitQueue \<Rightarrow> uint32 \<Rightarrow> nat" where
  "pos q s = off (q_begin q) s"

definition flags :: "TcpSackRexmitQueue \<Rightarrow> (bool \<times> bool) list" where
  "flags q = bytes (rexmitQueue q)"

lemma sack_wfD:
  assumes "sack_wf q"
  shows "chain (q_begin q) (rexmitQueue q) (q_end q)" and "length (flags q) < half"
    and "pos q (q_end q) = length (flags q)"
  using assms chain_off [of "q_begin q" "rexmitQueue q" "q_end q"]
  by (auto simp: sack_wf_def pos_def flags_def)

lemma in_queue:
  assumes "sack_wf q"
  shows "seqLE (q_begin q) s \<and> seqLE s (q_end q) \<longleftrightarrow> pos q s \<le> length (flags q)"
proof -
  have "seqLE (q_begin q) s \<longleftrightarrow> pos q s < half" by (simp add: seqLE_off pos_def)
  moreover have "pos q s < half \<Longrightarrow> seqLE s (q_end q) \<longleftrightarrow> pos q s \<le> length (flags q)"
    using seqLE_base [of "q_begin q" s "q_end q"] sack_wfD [OF assms] by (simp add: pos_def)
  ultimately show ?thesis using sack_wfD(2) [OF assms] by auto
qed

lemma at_end: "sack_wf q \<Longrightarrow> q_end q = s \<longleftrightarrow> pos q s = length (flags q)"
  by (metis sack_wfD(3) off_inject pos_def)

lemma discardUpTo_spec:
  assumes "sack_wf q"
  shows "(pos q s \<le> length (flags q) \<longrightarrow> (\<exists>q'. discardUpTo s q = Inr q' \<and> sack_wf q' \<and> q_begin q' = s
            \<and> q_end q' = q_end q \<and> flags q' = drop (pos q s) (flags q)))
       \<and> (length (flags q) < pos q s \<longrightarrow> discardUpTo s q = Inl AssertionFailed)"
proof (intro conjI impI)
  assume le: "pos q s \<le> length (flags q)"
  note wf = sack_wfD [OF assms]
  show "\<exists>q'. discardUpTo s q = Inr q' \<and> sack_wf q' \<and> q_begin q' = s \<and> q_end q' = q_end q \<and> flags q' = drop (pos q s) (flags q)"
  proof (cases "pos q s = length (flags q)")
    case True
    then have "off (q_begin q) s < half" using wf by (simp add: pos_def)
    from skip_to_spec [OF wf(1) wf(2) [unfolded flags_def] this] obtain xs ys m where
      s: "skip_to s (rexmitQueue q) = (xs, ys)" "rexmitQueue q = xs @ ys"
      and o: "length (bytes xs) = off (q_begin q) m"
      and lt: "\<And>r rest. ys = r # rest \<Longrightarrow> off (q_begin q) s < off (q_begin q) m + len r" by metis
    have "ys = []"
    proof (cases ys)
      case (Cons r rest)
      with lt [OF Cons] True s(2) o show ?thesis by (simp add: pos_def flags_def)
    qed
    moreover have "s = q_end q" using at_end [OF assms, of s] True by simp
    ultimately show ?thesis using s(1) in_queue [OF assms, of s] le True
      by (simp add: discardUpTo_def checkQueue_chain sack_wf_def flags_def)
  next
    case False
    with le have "off (q_begin q) s < length (bytes (rexmitQueue q))" by (simp add: pos_def flags_def)
    from chunk_item_spec [OF wf(1) wf(2) [unfolded flags_def] this] obtain xs ys before rest
      where C: "skip_to s (rexmitQueue q) = (xs, ys)" "ys \<noteq> []" "seqLE (beginSeqNum (hd ys)) s"
        "seqLess s (endSeqNum (hd ys))" "chunk_item s xs ys = (before, rest)" "chain s rest (q_end q)"
        "bytes rest = drop (off (q_begin q) s) (bytes (rexmitQueue q))" by metis
    from C(2,5) have rest: "rest = (hd ys)\<lparr>beginSeqNum := s\<rparr> # tl ys" by (cases ys) (auto split: if_splits)
    from C(2) obtain r rs where "ys = r # rs" by (cases ys) auto
    with C rest in_queue [OF assms, of s] le show ?thesis
      using wf(2) by (simp add: discardUpTo_def checkQueue_chain sack_wf_def flags_def pos_def)
  qed
next
  assume "length (flags q) < pos q s"
  with in_queue [OF assms, of s] have "\<not> (seqLE (q_begin q) s \<and> seqLE s (q_end q))" by simp
  then show "discardUpTo s q = Inl AssertionFailed" unfolding discardUpTo_def by (rule ASSERT_simps)
qed

lemma enqueue_regions_spec:
  assumes "chain b rs e" and "length (bytes rs) < half" and "off b f < length (bytes rs)" and "off b f < off b t"
    and "off b t < half"
  shows "\<exists>rs' e'. enqueue_regions f t rs = Inr (rs', t, True) \<and> chain b rs' e' \<and> bytes rs' = sb_send (off b f) (off b t) (bytes rs)"
proof -
  from chunk_item_spec [OF assms(1-3)] obtain xs ys before rest
    where C: "skip_to f rs = (xs, ys)" "ys \<noteq> []" "seqLE (beginSeqNum (hd ys)) f"
      "seqLess f (endSeqNum (hd ys))" "chunk_item f xs ys = (before, rest)" "chain b before f" "chain f rest e"
      "bytes before = take (off b f) (bytes rs)" "bytes rest = drop (off b f) (bytes rs)" by metis
  have o: "off f t = off b t - off b f" using off_trans assms(4) by (metis less_imp_le)
  have "seqLess f t" using seqLess_base [of b f t] assms by simp
  with C(7,9) assms(2) obtain rs' e' where "rexmit_tail f t rest = Inr (rs', t, True)" "chain f rs' e'"
    "bytes rs' = sb_send 0 (off f t) (bytes rest)"
    using rexmit_tail_spec [of f rest e t] by (metis diff_le_self le_less_trans length_drop)
  moreover from this C have "chain b (before @ rs') e'" by (auto simp: chain_append)
  moreover have "sb_send (off b f) (off b t) (bytes rs) = bytes before @ sb_send 0 (off f t) (bytes rest)"
    using sb_send_split [of "off b f" "bytes rs" "off b t"] assms(3,4) by (simp add: C(8,9) o)
  ultimately show ?thesis using C by (auto simp: enqueue_regions_def ASSERT_def)
qed

lemma enqueueSentData_spec:
  assumes wf: "sack_wf q" and fits: "pos q t < half"
  shows "(pos q f \<le> length (flags q) \<and> pos q f < pos q t \<longrightarrow> (\<exists>q'. enqueueSentData f t q = Inr q' \<and> sack_wf q'
            \<and> q_begin q' = q_begin q \<and> flags q' = sb_send (pos q f) (pos q t) (flags q)))
       \<and> (\<not> (pos q f \<le> length (flags q) \<and> pos q f < pos q t) \<longrightarrow> enqueueSentData f t q = Inl AssertionFailed)"
proof (intro conjI impI)
  note W = sack_wfD [OF wf]
  assume "pos q f \<le> length (flags q) \<and> pos q f < pos q t"
  then have f: "pos q f \<le> length (flags q)" and ft: "pos q f < pos q t" by auto
  have less: "seqLess f t" using seqLess_base [of "q_begin q" f t] ft fits by (simp add: pos_def)
  have len: "length (sb_send (pos q f) (pos q t) (flags q)) < half"
    using f ft fits W(2) by (simp add: length_sb_send)
  have "\<exists>rs e. (if rexmitQueue q = [] \<or> q_end q = f then
                   Inr (rexmitQueue q @ [\<lparr>beginSeqNum = f, endSeqNum = t, sacked = False, rexmitted = False\<rparr>], t, True)
                 else enqueue_regions f t (rexmitQueue q)) = (Inr (rs, t, True) :: error + _)
     \<and> chain (q_begin q) rs e \<and> bytes rs = sb_send (pos q f) (pos q t) (flags q)"
  proof (cases "pos q f = length (flags q)")
    case True
    then have e: "q_end q = f" using at_end [OF wf] by simp
    let ?r = "\<lparr>beginSeqNum = f, endSeqNum = t, sacked = False, rexmitted = False\<rparr>"
    have "chain (q_begin q) (rexmitQueue q @ [?r]) t" using W(1) e less by (auto simp: chain_append)
    moreover have "len ?r = pos q t - length (flags q)"
      using off_trans [of "q_begin q" f t] ft True by (simp add: len_def pos_def)
    then have "bytes (rexmitQueue q @ [?r]) = sb_send (pos q f) (pos q t) (flags q)"
      using True ft by (simp add: sb_send_def region_bytes_def flags_def)
    ultimately show ?thesis using e by auto
  next
    case False
    with f have "pos q f < length (flags q)" by simp
    moreover from this have "rexmitQueue q \<noteq> []" "q_end q \<noteq> f" using at_end [OF wf] by (auto simp: flags_def)
    ultimately show ?thesis
      using enqueue_regions_spec [OF W(1), of f t] W(2) ft fits by (simp add: pos_def flags_def)
  qed
  then obtain rs e where rs: "(if rexmitQueue q = [] \<or> q_end q = f then
                   Inr (rexmitQueue q @ [\<lparr>beginSeqNum = f, endSeqNum = t, sacked = False, rexmitted = False\<rparr>], t, True)
                 else enqueue_regions f t (rexmitQueue q)) = (Inr (rs, t, True) :: error + _)"
    and ch: "chain (q_begin q) rs e" and b: "bytes rs = sb_send (pos q f) (pos q t) (flags q)" by blast
  have "rs \<noteq> []" using b ft f by (auto simp: sb_send_def)
  with chain_hd [OF ch] chain_last [OF ch] have "beginSeqNum (hd rs) = q_begin q" "endSeqNum (last rs) = e" by auto
  with rs \<open>rs \<noteq> []\<close> ch b in_queue [OF wf, of f] f less len
  show "\<exists>q'. enqueueSentData f t q = Inr q' \<and> sack_wf q'
            \<and> q_begin q' = q_begin q \<and> flags q' = sb_send (pos q f) (pos q t) (flags q)"
    by (simp add: enqueueSentData_def checkQueue_chain sack_wf_def flags_def)
next
  assume n: "\<not> (pos q f \<le> length (flags q) \<and> pos q f < pos q t)"
  show "enqueueSentData f t q = Inl AssertionFailed"
  proof (cases "pos q f \<le> length (flags q)")
    case True
    with n sack_wfD(2) [OF wf] fits seqLess_base [of "q_begin q" f t] have "\<not> seqLess f t" by (simp add: pos_def)
    with True in_queue [OF wf, of f] show ?thesis by (simp add: enqueueSentData_def)
  next
    case False
    with in_queue [OF wf, of f] have "\<not> (seqLE (q_begin q) f \<and> seqLE f (q_end q))" by simp
    then show ?thesis unfolding enqueueSentData_def by (rule ASSERT_simps)
  qed
qed

lemma sack_loop_skip:
  assumes "chain m rs e" and "off f m + length (bytes rs) < half"
  shows "sack_loop f t rs = (map (\<lambda>r. r\<lparr>sacked := True\<rparr>) (fst (skip_to t rs)), snd (skip_to t rs))"
  using assms
proof (induction rs arbitrary: m)
  case (Cons r rs)
  have "off f (endSeqNum r) = off f m + len r"
    using off_compose [of f m "endSeqNum r"] Cons.prems by (simp add: len_def)
  moreover have "seqGE (beginSeqNum r) f" using Cons.prems by (simp add: seqGE_off)
  ultimately show ?case using Cons.IH [of "endSeqNum r"] Cons.prems by (simp add: skip_to_def)
qed (simp add: skip_to_def)

lemma sack_tail_spec:
  assumes "chain b rs e" and "length (bytes rs) < half" and "0 < off b t" and "off b t \<le> length (bytes rs)"
    and "sack_loop b t rs = (marked, rest)"
  shows "chain b (marked @ sack_last t rest) e" and "bytes (marked @ sack_last t rest) = sb_sack 0 (off b t) (bytes rs)"
proof -
  from assms have t: "off b t < half" by simp
  from skip_to_spec [OF assms(1,2) t] obtain xs ys m where s: "skip_to t rs = (xs, ys)" "rs = xs @ ys"
    and c: "chain b xs m" "chain m ys e" and o: "off b m \<le> off b t" "length (bytes xs) = off b m"
    and lt: "\<And>r rest. ys = r # rest \<Longrightarrow> off b t < off b m + len r" by metis
  let ?xs = "map (\<lambda>r. r\<lparr>sacked := True\<rparr>) xs"
  have m: "marked = ?xs" "rest = ys" using sack_loop_skip [OF assms(1), of b t] assms(2,5) s(1) by simp_all
  have cx: "chain b ?xs m" using c(1) by (simp add: chain_mapI)
  have d: "off m t = off b t - off b m" using off_trans [OF o(1)] .
  have "chain b (marked @ sack_last t rest) e \<and> bytes (marked @ sack_last t rest) = sb_sack 0 (off b t) (bytes rs)"
  proof (cases "m = t")
    case True
    then have "sack_last t ys = ys" using c(2) by (cases ys) (auto simp: seqLess_def)
    then show ?thesis using m cx c o True by (auto simp: chain_append sb_sack_def s(2) bytes_map_sacked)
  next
    case False
    with o(1) have strict: "off b m < off b t" by (metis le_neq_implies_less off_inject)
    then have mt: "seqLess m t" using d t by (simp add: seqLess_off)
    from strict assms(4) o(2) s(2) obtain r rs' where Cons: "ys = r # rs'" by (cases ys) auto
    have half: "off b m + len r < half" using assms(2) o(2) by (simp add: s(2) Cons)
    note A = skip_to_asserts [OF c(2) [unfolded Cons] o(1) lt [OF Cons] t half]
    have ch: "chain b (?xs @ sack_last t ys) e" using cx mt c(2) A(1,3) Cons by (auto simp: chain_append)
    have "len (r\<lparr>endSeqNum := t, sacked := True\<rparr>) = off b t - off b m"
      "len (r\<lparr>beginSeqNum := t\<rparr>) = off b m + len r - off b t"
      using d A(1,5) by (simp_all add: len_def)
    then have "bytes (?xs @ sack_last t ys) = sb_sack 0 (off b t) (bytes rs)"
      using o strict lt [OF Cons] mt A(1,3)
      by (simp add: sb_sack_def s(2) Cons bytes_map_sacked region_bytes_def)
    with ch m show ?thesis by simp
  qed
  then show "chain b (marked @ sack_last t rest) e" "bytes (marked @ sack_last t rest) = sb_sack 0 (off b t) (bytes rs)"
    by auto
qed

text \<open>The start of a block that begins before the queue is moved to the start of the queue.\<close>

definition sack_from :: "TcpSackRexmitQueue \<Rightarrow> uint32 \<Rightarrow> nat" where
  "sack_from q f = (if seqLess f (q_begin q) then 0 else pos q f)"

lemma sack_range:
  assumes wf: "sack_wf q"
  defines "F \<equiv> \<lambda>f. if seqLess f (q_begin q) then q_begin q else f"
  shows "pos q (F f) = sack_from q f"
    and "(seqLess (F f) (q_end q) \<and> (seqLess (q_begin q) t \<and> seqLE t (q_end q)) \<and> seqLess (F f) t)
      \<longleftrightarrow> sack_from q f < pos q t \<and> pos q t \<le> length (flags q)"
proof -
  note W = sack_wfD [OF wf]
  show p: "pos q (F f) = sack_from q f" by (simp add: F_def sack_from_def pos_def)
  have "pos q (F f) \<le> half"
    using off_rebase [of f "q_begin q" "q_begin q"] off_less [of "q_begin q" f]
    by (auto simp: F_def pos_def seqLess_off split: if_splits)
  moreover have "pos q (F f) = half \<Longrightarrow> \<not> seqLess (F f) (q_end q)"
    using off_rebase [of "F f" "q_end q" "q_begin q"] W(2,3) by (simp add: seqLess_off pos_def)
  moreover have "pos q (F f) < half \<Longrightarrow> seqLess (F f) (q_end q) \<longleftrightarrow> pos q (F f) < length (flags q)"
    using seqLess_base [of "q_begin q" "F f" "q_end q"] W by (simp add: pos_def)
  moreover have "pos q (F f) < half \<Longrightarrow> pos q t < half \<Longrightarrow> seqLess (F f) t \<longleftrightarrow> pos q (F f) < pos q t"
    using seqLess_base [of "q_begin q" "F f" t] by (simp add: pos_def)
  moreover have "seqLess (q_begin q) t \<and> seqLE t (q_end q) \<longleftrightarrow> 0 < pos q t \<and> pos q t \<le> length (flags q)"
    using in_queue [OF wf, of t] by (auto simp: seqLess_off seqLE_off pos_def)
  ultimately show "(seqLess (F f) (q_end q) \<and> (seqLess (q_begin q) t \<and> seqLE t (q_end q)) \<and> seqLess (F f) t)
      \<longleftrightarrow> sack_from q f < pos q t \<and> pos q t \<le> length (flags q)"
    using W(2) p by linarith
qed

lemma setSackedBit_spec:
  assumes wf: "sack_wf q"
  shows "(sack_from q f < pos q t \<and> pos q t \<le> length (flags q) \<longrightarrow> (\<exists>q'. setSackedBit f t q = Inr q' \<and> sack_wf q'
            \<and> q_begin q' = q_begin q \<and> q_end q' = q_end q \<and> flags q' = sb_sack (sack_from q f) (pos q t) (flags q)))
       \<and> (\<not> (sack_from q f < pos q t \<and> pos q t \<le> length (flags q)) \<longrightarrow> setSackedBit f t q = Inl AssertionFailed)"
proof (intro conjI impI)
  note W = sack_wfD [OF wf]
  define F where "F = (if seqLess f (q_begin q) then q_begin q else f)"
  assume g: "sack_from q f < pos q t \<and> pos q t \<le> length (flags q)"
  with sack_range(2) [OF wf, of f t] have G: "seqLess F (q_end q)" "seqLess (q_begin q) t \<and> seqLE t (q_end q)" "seqLess F t" by (auto simp: F_def)
  have pF: "off (q_begin q) F = sack_from q f" using sack_range(1) [OF wf, of f] by (simp add: F_def pos_def)
  have "off (q_begin q) F < length (bytes (rexmitQueue q))" using g by (simp add: pF flags_def)
  from chunk_item_spec [OF W(1) W(2) [unfolded flags_def] this] obtain xs ys before rest
    where C: "skip_to F (rexmitQueue q) = (xs, ys)" "ys \<noteq> []" "seqLE (beginSeqNum (hd ys)) F"
      "seqLess F (endSeqNum (hd ys))" "chunk_item F xs ys = (before, rest)"
      "chain (q_begin q) before F" "chain F rest (q_end q)"
      "bytes before = take (off (q_begin q) F) (bytes (rexmitQueue q))"
      "bytes rest = drop (off (q_begin q) F) (bytes (rexmitQueue q))" by metis
  obtain marked rest' where M: "sack_loop F t rest = (marked, rest')" by fastforce
  have o: "off F t = pos q t - sack_from q f"
    using off_trans [of "q_begin q" F t] g by (simp add: pF pos_def)
  have l: "length (bytes rest) < half" "0 < off F t" "off F t \<le> length (bytes rest)"
    using g W(2) by (auto simp: o C(9) pF flags_def)
  note T = sack_tail_spec [OF C(7) l M]
  let ?rs = "before @ marked @ sack_last t rest'"
  have ch: "chain (q_begin q) ?rs (q_end q)" using T(1) C(6) chain_append by blast
  have b: "bytes ?rs = sb_sack (sack_from q f) (pos q t) (flags q)"
    using T(2) g sb_sack_split [of "sack_from q f" "pos q t" "flags q"] by (simp add: C(8,9) pF o flags_def)
  have "length (sb_sack (sack_from q f) (pos q t) (flags q)) < half" using g W(2) by (simp add: length_sb_sack)
  moreover have "rexmitQueue q \<noteq> []" using g by (auto simp: flags_def)
  then have "setSackedBit f t q = Inr (q\<lparr>rexmitQueue := ?rs\<rparr>)"
    using G C ch M unfolding setSackedBit_def F_def [symmetric] by (simp add: checkQueue_chain)
  ultimately show "\<exists>q'. setSackedBit f t q = Inr q' \<and> sack_wf q' \<and> q_begin q' = q_begin q \<and> q_end q' = q_end q
      \<and> flags q' = sb_sack (sack_from q f) (pos q t) (flags q)"
    using ch b by (simp add: sack_wf_def flags_def)
next
  assume "\<not> (sack_from q f < pos q t \<and> pos q t \<le> length (flags q))"
  with sack_range(2) [OF wf, of f t] show "setSackedBit f t q = Inl AssertionFailed"
    unfolding setSackedBit_def Let_def ASSERT_def by argo
qed

section \<open>Queries\<close>

text \<open>Number of bytes up to the last one with the flag; number of maximal runs of set flags.\<close>

definition sb_highest :: "(bool \<times> bool \<Rightarrow> bool) \<Rightarrow> (bool \<times> bool) list \<Rightarrow> nat" where
  "sb_highest P bs = length (dropWhile (\<lambda>x. \<not> P x) (rev bs))"

fun sb_runs :: "bool \<Rightarrow> bool list \<Rightarrow> nat" where
  "sb_runs p [] = 0"
| "sb_runs p (x # xs) = (if x \<and> \<not> p then 1 else 0) + sb_runs x xs"

lemma rev_region_bytes [simp]: "rev (region_bytes r) = region_bytes r"
  by (simp add: region_bytes_def)

lemma word_len: "endSeqNum r - beginSeqNum r = of_nat (len r)"
  by (simp add: len_def off_def)

lemma dropWhile_replicate_append: "0 < n \<Longrightarrow> \<not> P x \<Longrightarrow> dropWhile P (replicate n x @ ys) = replicate n x @ ys"
  by (cases n) auto

lemma highest_region:
  assumes "chain b rs e" and "length (bytes rs) < half"
    and "\<And>r. P r \<longleftrightarrow> Q (sacked r, rexmitted r)"
  shows "(case find P (rev rs) of Some i \<Rightarrow> endSeqNum i | None \<Rightarrow> b) = b + of_nat (sb_highest Q (bytes rs))"
  using assms(1,2)
proof (induction rs arbitrary: e rule: rev_induct)
  case (snoc r rs)
  then have pos: "0 < len r" using len_pos [OF snoc.prems(1), of r] by simp
  from snoc.prems obtain m where "chain b rs m" and e: "e = endSeqNum r" by (auto simp: chain_append)
  with snoc.IH [of m] snoc.prems have IH: "(case find P (rev rs) of Some i \<Rightarrow> endSeqNum i | None \<Rightarrow> b)
    = b + of_nat (sb_highest Q (bytes rs))" by simp
  show ?case
  proof (cases "P r")
    case True
    then have "sb_highest Q (bytes (rs @ [r])) = length (bytes (rs @ [r]))"
      using pos assms(3) [of r] by (simp add: sb_highest_def region_bytes_def dropWhile_replicate_append)
    moreover have "off b e = length (bytes (rs @ [r]))" using chain_off [OF snoc.prems] .
    ultimately show ?thesis using True e base_plus_off [of b e] by simp
  next
    case False
    then have "sb_highest Q (bytes (rs @ [r])) = sb_highest Q (bytes rs)"
      using assms(3) [of r] by (simp add: sb_highest_def region_bytes_def dropWhile_append)
    with IH False show ?thesis by simp
  qed
qed (simp add: sb_highest_def)

lemma add_sacked_eq: "add_sacked a r = a + of_nat (length (filter fst (region_bytes r)))"
  by (simp add: add_sacked_def word_len region_bytes_def)

lemma foldl_add_sacked: "foldl add_sacked a rs = a + of_nat (length (filter fst (bytes rs)))"
  by (induction rs arbitrary: a) (simp_all add: add_sacked_eq add.assoc)

lemma amount_regions:
  assumes "chain b rs e" and "length (bytes rs) < half" and "off b f \<le> length (bytes rs)"
  shows "(let a = foldl add_sacked a0 (takeWhile (\<lambda>r. seqLE f (beginSeqNum r)) (rev rs))
          in case dropWhile (\<lambda>r. seqLE f (beginSeqNum r)) (rev rs) of
               [] \<Rightarrow> a
             | i # rest \<Rightarrow> if seqLess (beginSeqNum i) f \<and> seqLess f (endSeqNum i) \<and> sacked i
                            then a + (endSeqNum i - f) else a)
     = a0 + of_nat (length (filter fst (drop (off b f) (bytes rs))))"
  using assms
proof (induction rs arbitrary: e a0 rule: rev_induct)
  case (snoc r rs)
  from snoc.prems obtain m where ch: "chain b rs m" and e: "e = endSeqNum r" and m: "m = beginSeqNum r"
    by (auto simp: chain_append)
  have om: "off b m = length (bytes rs)" using chain_off [OF ch] snoc.prems by simp
  have oe: "off b e = length (bytes rs) + len r" using chain_off [OF snoc.prems(1,2)] by simp
  have le: "seqLE f m \<longleftrightarrow> off b f \<le> length (bytes rs)"
    using seqLE_base [of b f m] om snoc.prems by simp
  show ?case
  proof (cases "off b f \<le> length (bytes rs)")
    case True
    with snoc.IH [OF ch, of "add_sacked a0 r"] snoc.prems le m show ?thesis
      by (simp add: Let_def add_sacked_eq algebra_simps)
  next
    case False
    have "seqLess m f" using seqLess_base [of b m f] om snoc.prems False by simp
    moreover have "seqLess f e \<longleftrightarrow> off b f < off b e" using seqLess_base [of b f e] oe snoc.prems by simp
    moreover have "e - f = of_nat (off b e - off b f)"
      using off_trans [of b f e] snoc.prems(3) oe by (simp add: diff_off)
    ultimately show ?thesis using False le m e oe by (auto simp: region_bytes_def)
  qed
qed simp

lemma rexmit_scan_spec:
  assumes "chain m rs e" and "length (bytes rs) < half"
    and "rs \<noteq> [] \<Longrightarrow> off m f < len (hd rs)"
  shows "rexmit_scan f a rs = Inr (a + of_nat (length (takeWhile (\<lambda>(s, r). s \<or> r) (drop (off m f) (bytes rs)))))"
  using assms
proof (induction rs arbitrary: m f a)
  case (Cons r rs)
  have m: "m = beginSeqNum r" and ch: "chain (endSeqNum r) rs e" using Cons.prems by auto
  have lt: "off m f < len r" using Cons.prems by simp
  note A = skip_to_asserts [of m r rs e m f, OF Cons.prems(1)]
  have A: "seqLE (beginSeqNum r) f" "seqLess f (endSeqNum r)" "off f (endSeqNum r) = len r - off m f"
    using A lt Cons.prems(2) by simp_all
  have n: "endSeqNum r - f = of_nat (len r - off m f)" using A(3) by (simp add: diff_off)
  have IH: "rexmit_scan (endSeqNum r) a' rs = Inr (a' + of_nat (length (takeWhile (\<lambda>(s, r). s \<or> r) (bytes rs))))" for a'
    using Cons.IH [OF ch, of "endSeqNum r" a'] Cons.prems(2) len_pos [OF ch] by (cases rs) auto
  from lt have "0 < len r - off m f" by simp
  with IH A(1,2) n lt show ?case
    by (cases "len r - off m f") (auto simp: region_bytes_def takeWhile_append algebra_simps simp del: diff_is_0_eq)
qed simp

lemma sb_runs_replicate: "0 < n \<Longrightarrow> sb_runs p (replicate n x @ xs) = (if x \<and> \<not> p then 1 else 0) + sb_runs x xs"
proof (induction n arbitrary: p)
  case (Suc n)
  then show ?case by (cases n) auto
qed simp

lemma sack_runs_spec:
  "chain m rs e \<Longrightarrow> sack_runs p c rs = c + of_nat (sb_runs p (map fst (bytes rs)))"
proof (induction rs arbitrary: m p c)
  case (Cons r rs)
  have "0 < len r" using len_pos [OF Cons.prems, of r] by simp
  with Cons show ?case by (auto simp: region_bytes_def sb_runs_replicate)
qed simp

text \<open>The search for a byte of the queue stops at the region that holds it.\<close>

lemma skip_to_queue:
  assumes wf: "sack_wf q" and lt: "pos q s < length (flags q)"
  obtains xs r rest where "snd (skip_to s (rexmitQueue q)) = r # rest" and "rexmitQueue q = xs @ r # rest"
    and "chain (beginSeqNum r) (r # rest) (q_end q)" and "off (beginSeqNum r) s < len r"
    and "pos q s = length (bytes xs) + off (beginSeqNum r) s"
    and "seqLE (beginSeqNum r) s" and "seqLess s (endSeqNum r)" and "off s (endSeqNum r) = len r - off (beginSeqNum r) s"
proof -
  note W = sack_wfD [OF wf]
  from lt W have "off (q_begin q) s < half" by (simp add: pos_def)
  from skip_to_spec [OF W(1) W(2) [unfolded flags_def] this] obtain xs ys m where
      s: "skip_to s (rexmitQueue q) = (xs, ys)" "rexmitQueue q = xs @ ys" and c: "chain m ys (q_end q)"
      and o: "off (q_begin q) m \<le> off (q_begin q) s" "length (bytes xs) = off (q_begin q) m"
      and l: "\<And>r rest. ys = r # rest \<Longrightarrow> off (q_begin q) s < off (q_begin q) m + len r" by metis
  from lt s o obtain r rest where ys: "ys = r # rest" by (cases ys) (auto simp: flags_def pos_def)
  have half: "off (q_begin q) m + len r < half" using W(2) s(2) o(2) by (simp add: flags_def ys)
  note A = skip_to_asserts [OF c [unfolded ys] o(1) l [OF ys] \<open>off (q_begin q) s < half\<close> half]
  show thesis
    by (rule that [of r rest xs]) (use A s c o l [OF ys] in \<open>simp_all add: ys pos_def\<close>)
qed

lemma drop_skip:
  "k \<le> len r \<Longrightarrow> drop (length (bytes xs) + k) (bytes (xs @ r # rest))
     = replicate (len r - k) (sacked r, rexmitted r) @ bytes rest"
  by (simp add: region_bytes_def)

section \<open>Properties\<close>

datatype sack_op = Discard uint32 | Send uint32 uint32 | Sack uint32 uint32 | ResetSacked | ResetRexmitted

fun sack_exec :: "sack_op \<Rightarrow> TcpSackRexmitQueue \<Rightarrow> error + TcpSackRexmitQueue" where
  "sack_exec (Discard s) q = discardUpTo s q"
| "sack_exec (Send f t) q = enqueueSentData f t q"
| "sack_exec (Sack f t) q = setSackedBit f t q"
| "sack_exec ResetSacked q = Inr (resetSackedBit q)"
| "sack_exec ResetRexmitted q = Inr (resetRexmittedBit q)"

text \<open>When an operation is allowed, and what it does to the flags of the bytes.\<close>

fun sb_allowed :: "sack_op \<Rightarrow> TcpSackRexmitQueue \<Rightarrow> bool" where
  "sb_allowed (Discard s) q \<longleftrightarrow> pos q s \<le> length (flags q)"
| "sb_allowed (Send f t) q \<longleftrightarrow> pos q f \<le> length (flags q) \<and> pos q f < pos q t"
| "sb_allowed (Sack f t) q \<longleftrightarrow> sack_from q f < pos q t \<and> pos q t \<le> length (flags q)"
| "sb_allowed ResetSacked q \<longleftrightarrow> True"
| "sb_allowed ResetRexmitted q \<longleftrightarrow> True"

fun sb_exec :: "sack_op \<Rightarrow> TcpSackRexmitQueue \<Rightarrow> uint32 \<times> (bool \<times> bool) list" where
  "sb_exec (Discard s) q = (s, drop (pos q s) (flags q))"
| "sb_exec (Send f t) q = (q_begin q, sb_send (pos q f) (pos q t) (flags q))"
| "sb_exec (Sack f t) q = (q_begin q, sb_sack (sack_from q f) (pos q t) (flags q))"
| "sb_exec ResetSacked q = (q_begin q, map (\<lambda>(s, r). (False, r)) (flags q))"
| "sb_exec ResetRexmitted q = (q_begin q, map (\<lambda>(s, r). (s, False)) (flags q))"

text \<open>Sent data must keep the queue within half of the sequence number space.\<close>

fun sb_fits :: "sack_op \<Rightarrow> TcpSackRexmitQueue \<Rightarrow> bool" where
  "sb_fits (Send f t) q \<longleftrightarrow> pos q t < half"
| "sb_fits op q \<longleftrightarrow> True"

lemma resetSackedBit_spec:
  "sack_wf q \<Longrightarrow> sack_wf (resetSackedBit q) \<and> flags (resetSackedBit q) = map (\<lambda>(s, r). (False, r)) (flags q)"
  by (simp add: sack_wf_def resetSackedBit_def flags_def chain_mapI bytes_map_sacked)

lemma resetRexmittedBit_spec:
  "sack_wf q \<Longrightarrow> sack_wf (resetRexmittedBit q) \<and> flags (resetRexmittedBit q) = map (\<lambda>(s, r). (s, False)) (flags q)"
  by (simp add: sack_wf_def resetRexmittedBit_def flags_def chain_mapI bytes_map_rexmitted)

text \<open>
  (C23) The retransmission queue refines the list of byte flags: on a queue of adjacent regions that
  spans less than half of the sequence number space, every update succeeds exactly when its
  sequence numbers are in range (otherwise it stops with a failed assertion), keeps the regions
  adjacent, and changes the flags of exactly the bytes it names, across wrap-around of the sequence
  numbers: \<open>discardUpTo\<close> drops the acknowledged bytes, \<open>enqueueSentData\<close> marks bytes sent again as
  retransmitted and appends new ones, \<open>setSackedBit\<close> marks the reported bytes, the resets clear a
  flag everywhere. A queue just initialised is empty.
\<close>

theorem sack_queue_refines_bytes:
  assumes "sack_wf q" and "sb_fits op q"
  shows "(sb_allowed op q \<longrightarrow> (\<exists>q'. sack_exec op q = Inr q' \<and> sack_wf q'
            \<and> (q_begin q', flags q') = sb_exec op q \<and> q_end q' = q_begin q' + of_nat (length (flags q'))))
       \<and> (\<not> sb_allowed op q \<longrightarrow> sack_exec op q = Inl AssertionFailed)
       \<and> sack_wf (TcpSackRexmitQueue_init s TcpSackRexmitQueue_new)
       \<and> flags (TcpSackRexmitQueue_init s TcpSackRexmitQueue_new) = []"
proof -
  have e: "sack_wf q' \<Longrightarrow> q_end q' = q_begin q' + of_nat (length (flags q'))" for q'
    using sack_wfD(3) [of q'] base_plus_off [of "q_begin q'" "q_end q'"] by (simp add: pos_def)
  have i: "sack_wf (TcpSackRexmitQueue_init s TcpSackRexmitQueue_new)"
     "flags (TcpSackRexmitQueue_init s TcpSackRexmitQueue_new) = []"
    by (simp_all add: sack_wf_def flags_def TcpSackRexmitQueue_init_def TcpSackRexmitQueue_new_def)
  show ?thesis
  proof (cases op)
    case (Discard s)
    then show ?thesis using discardUpTo_spec [OF assms(1), of s] e i by fastforce
  next
    case (Send f t)
    then show ?thesis using enqueueSentData_spec [OF assms(1), of t f] assms(2) e i by fastforce
  next
    case (Sack f t)
    then show ?thesis using setSackedBit_spec [OF assms(1), of f t] e i by fastforce
  next
    case ResetSacked
    then show ?thesis using resetSackedBit_spec [OF assms(1)] e i by (simp add: resetSackedBit_def)
  next
    case ResetRexmitted
    then show ?thesis using resetRexmittedBit_spec [OF assms(1)] e i by (simp add: resetRexmittedBit_def)
  qed
qed

definition sack_demo :: TcpSackRexmitQueue where
  "sack_demo = \<lparr>rexmitQueue = [\<lparr>beginSeqNum = 0xFFFFFFFC, endSeqNum = 0, sacked = False, rexmitted = False\<rparr>,
       \<lparr>beginSeqNum = 0, endSeqNum = 3, sacked = False, rexmitted = True\<rparr>], q_begin = 0xFFFFFFFC, q_end = 3\<rparr>"

lemma sack_demo_wf: "sack_wf sack_demo"
  by (simp add: sack_wf_def sack_demo_def seqLess_def region_bytes_def len_def off_def)

lemma sack_demo_flags: "flags sack_demo = replicate 4 (False, False) @ replicate 3 (False, True)"
  by (simp add: flags_def sack_demo_def region_bytes_def len_def off_def)

lemma sack_demo_pos: "pos sack_demo 0xFFFFFFFE = 2" "pos sack_demo 2 = 6" "sack_from sack_demo 0xFFFFFFFE = 2"
  by (simp_all add: pos_def sack_from_def sack_demo_def off_def seqLess_def)

theorem sack_queue_refines_bytes_witness:
  "sack_wf sack_demo \<and> sb_fits (Sack 0xFFFFFFFE 2) sack_demo \<and>
   (\<exists>q'. sack_exec (Sack 0xFFFFFFFE 2) sack_demo = Inr q' \<and> sack_wf q'
      \<and> flags q' = [(False, False), (False, False), (True, False), (True, False), (True, True), (True, True), (False, True)])"
  using sack_queue_refines_bytes [OF sack_demo_wf, of "Sack 0xFFFFFFFE 2" 0] sack_demo_wf
  by (auto simp: sack_demo_pos sack_demo_flags sb_sack_def numeral_eq_Suc)

lemma ASSERT_in_queue:
  assumes "sack_wf q"
  shows "ASSERT (seqLE (q_begin q) s \<and> seqLE s (q_end q)) k = (if pos q s \<le> length (flags q) then k else Inl AssertionFailed)"
  using in_queue [OF assms, of s] by (simp add: ASSERT_def)

lemma getSackedBit_spec:
  assumes wf: "sack_wf q"
  shows "getSackedBit s q = (if pos q s \<le> length (flags q)
     then Inr (pos q s < length (flags q) \<and> fst (flags q ! pos q s)) else Inl AssertionFailed)"
proof (cases "pos q s < length (flags q)")
  case True
  from skip_to_queue [OF wf True] obtain xs r rest where S: "snd (skip_to s (rexmitQueue q)) = r # rest"
    "rexmitQueue q = xs @ r # rest" "off (beginSeqNum r) s < len r" "pos q s = length (bytes xs) + off (beginSeqNum r) s"
    "seqLE (beginSeqNum r) s" "seqLess s (endSeqNum r)" by metis
  from S(2-4) have "flags q ! pos q s = (sacked r, rexmitted r)"
    by (simp add: flags_def nth_append region_bytes_def)
  with S True at_end [OF wf, of s] show ?thesis
    by (simp add: getSackedBit_def ASSERT_in_queue [OF wf])
next
  case False
  with at_end [OF wf, of s] show ?thesis by (simp add: getSackedBit_def ASSERT_in_queue [OF wf])
qed

lemma getAmountOfSackedBytes_spec:
  assumes wf: "sack_wf q"
  shows "getAmountOfSackedBytes s q = (if pos q s \<le> length (flags q)
     then Inr (of_nat (length (filter fst (drop (pos q s) (flags q))))) else Inl AssertionFailed)"
  using amount_regions [OF sack_wfD(1) [OF wf] sack_wfD(2) [OF wf, unfolded flags_def], of s 0]
  by (simp add: getAmountOfSackedBytes_def ASSERT_in_queue [OF wf] pos_def flags_def)

lemma getNumOfDiscontiguousSacks_spec:
  assumes wf: "sack_wf q"
  shows "getNumOfDiscontiguousSacks s q = (if pos q s \<le> length (flags q)
     then Inr (of_nat (sb_runs False (map fst (drop (pos q s) (flags q))))) else Inl AssertionFailed)"
proof (cases "pos q s < length (flags q)")
  case True
  from skip_to_queue [OF wf True] obtain xs r rest where S: "snd (skip_to s (rexmitQueue q)) = r # rest"
    "rexmitQueue q = xs @ r # rest" "chain (beginSeqNum r) (r # rest) (q_end q)" "off (beginSeqNum r) s < len r"
    "pos q s = length (bytes xs) + off (beginSeqNum r) s" by metis
  let ?n = "len r - off (beginSeqNum r) s"
  have d: "drop (pos q s) (flags q) = replicate ?n (sacked r, rexmitted r) @ bytes rest"
    using S(2,4,5) drop_skip by (simp add: flags_def)
  have "sb_runs False (map fst (drop (pos q s) (flags q))) = sb_runs False (map fst (bytes (r # rest)))"
    using S(4) by (simp add: d region_bytes_def sb_runs_replicate)
  with sack_runs_spec [OF S(3), of False 0] S(1,2) True at_end [OF wf, of s] show ?thesis
    by (auto simp: getNumOfDiscontiguousSacks_def ASSERT_in_queue [OF wf])
next
  case False
  with at_end [OF wf, of s] show ?thesis by (auto simp: getNumOfDiscontiguousSacks_def ASSERT_in_queue [OF wf])
qed

lemma checkRexmitQueue_spec:
  assumes wf: "sack_wf q"
  shows "checkRexmitQueueForSackedOrRexmittedSegments s q = (if pos q s \<le> length (flags q)
     then Inr (of_nat (length (takeWhile (\<lambda>(s, r). s \<or> r) (drop (pos q s) (flags q))))) else Inl AssertionFailed)"
proof (cases "pos q s < length (flags q)")
  case True
  from skip_to_queue [OF wf True] obtain xs r rest where S: "snd (skip_to s (rexmitQueue q)) = r # rest"
    "rexmitQueue q = xs @ r # rest" "chain (beginSeqNum r) (r # rest) (q_end q)" "off (beginSeqNum r) s < len r"
    "pos q s = length (bytes xs) + off (beginSeqNum r) s" by metis
  have "length (bytes (r # rest)) < half" using sack_wfD(2) [OF wf] by (simp add: flags_def S(2))
  from rexmit_scan_spec [OF S(3) this, of s 0] S True at_end [OF wf, of s] show ?thesis
    by (auto simp: checkRexmitQueueForSackedOrRexmittedSegments_def ASSERT_in_queue [OF wf] flags_def)
next
  case False
  with at_end [OF wf, of s] show ?thesis
    by (auto simp: checkRexmitQueueForSackedOrRexmittedSegments_def ASSERT_in_queue [OF wf])
qed

lemma checkSackBlock_spec:
  assumes wf: "sack_wf q"
  shows "if pos q s < length (flags q)
     then \<exists>n f r. checkSackBlock s q = Inr (of_nat n, f, r) \<and> 0 < n
         \<and> n \<le> length (flags q) - pos q s \<and> take n (drop (pos q s) (flags q)) = replicate n (f, r)
     else checkSackBlock s q = Inl AssertionFailed"
proof -
  have g: "seqLE (q_begin q) s \<and> seqLess s (q_end q) \<longleftrightarrow> pos q s < length (flags q)"
    using in_queue [OF wf, of s] at_end [OF wf, of s] by (auto simp: seqLE_def seqLess_def)
  show ?thesis
  proof (cases "pos q s < length (flags q)")
    case True
    from skip_to_queue [OF wf True] obtain xs r rest where S: "snd (skip_to s (rexmitQueue q)) = r # rest"
      "rexmitQueue q = xs @ r # rest" "off (beginSeqNum r) s < len r"
      "pos q s = length (bytes xs) + off (beginSeqNum r) s" "seqLE (beginSeqNum r) s" "seqLess s (endSeqNum r)"
      "off s (endSeqNum r) = len r - off (beginSeqNum r) s" by metis
    let ?n = "len r - off (beginSeqNum r) s"
    have d: "drop (pos q s) (flags q) = replicate ?n (sacked r, rexmitted r) @ bytes rest"
      using S(2,3,4) drop_skip by (simp add: flags_def)
    have n: "?n \<le> length (flags q) - pos q s"
      using arg_cong [OF d, of length] by simp
    have "checkSackBlock s q = Inr (of_nat ?n, sacked r, rexmitted r)"
      using S g True by (simp add: checkSackBlock_def diff_off)
    moreover have "take ?n (drop (pos q s) (flags q)) = replicate ?n (sacked r, rexmitted r)" by (simp add: d)
    moreover have "0 < ?n" using S(3) by simp
    ultimately show ?thesis using n True by (metis (no_types))
  next
    case False
    with g show ?thesis by (simp add: checkSackBlock_def)
  qed
qed

text \<open>
  (C24) The queries agree with the flags of the bytes: for a sequence number in range,
  \<open>getSackedBit\<close> is the flag of that byte, \<open>getAmountOfSackedBytes\<close> counts the selectively acknowledged bytes
  from there on (\<open>getTotalAmountOfSackedBytes\<close> all of them), \<open>getNumOfDiscontiguousSacks\<close> counts their
  maximal runs whatever the division into regions,
  \<open>checkRexmitQueueForSackedOrRexmittedSegments\<close> is the length of the run of bytes that need no
  retransmission, \<open>checkSackBlock\<close> describes a non-empty run of bytes with equal flags, and the two
  \<open>getHighest\<close> functions return the number behind the last marked byte; out of range the assertions
  fail.
\<close>

theorem sack_queries_exact:
  assumes "sack_wf q"
  shows "getTotalAmountOfSackedBytes q = of_nat (length (filter fst (flags q)))
     \<and> getHighestSackedSeqNum q = q_begin q + of_nat (sb_highest fst (flags q))
     \<and> getHighestRexmittedSeqNum q = q_begin q + of_nat (sb_highest snd (flags q))
     \<and> (let n = pos q s; bs = flags q in
         (n \<le> length bs \<longrightarrow> getSackedBit s q = Inr (n < length bs \<and> fst (bs ! n))
            \<and> getAmountOfSackedBytes s q = Inr (of_nat (length (filter fst (drop n bs))))
            \<and> getNumOfDiscontiguousSacks s q = Inr (of_nat (sb_runs False (map fst (drop n bs))))
            \<and> checkRexmitQueueForSackedOrRexmittedSegments s q
                = Inr (of_nat (length (takeWhile (\<lambda>(s, r). s \<or> r) (drop n bs)))))
       \<and> (n < length bs \<longrightarrow> (\<exists>k f r. checkSackBlock s q = Inr (of_nat k, f, r) \<and> 0 < k
            \<and> k \<le> length bs - n \<and> take k (drop n bs) = replicate k (f, r)))
       \<and> (length bs < n \<longrightarrow> getSackedBit s q = Inl AssertionFailed
            \<and> getAmountOfSackedBytes s q = Inl AssertionFailed
            \<and> getNumOfDiscontiguousSacks s q = Inl AssertionFailed
            \<and> checkRexmitQueueForSackedOrRexmittedSegments s q = Inl AssertionFailed
            \<and> checkSackBlock s q = Inl AssertionFailed))"
proof -
  note W = sack_wfD(1) [OF assms] sack_wfD(2) [OF assms, unfolded flags_def]
  have "getHighestSackedSeqNum q = q_begin q + of_nat (sb_highest fst (flags q))"
    "getHighestRexmittedSeqNum q = q_begin q + of_nat (sb_highest snd (flags q))"
    using highest_region [OF W, of sacked fst] highest_region [OF W, of rexmitted snd]
    by (simp_all add: getHighestSackedSeqNum_def getHighestRexmittedSeqNum_def flags_def)
  moreover have "getTotalAmountOfSackedBytes q = of_nat (length (filter fst (flags q)))"
    by (simp add: getTotalAmountOfSackedBytes_def foldl_add_sacked flags_def)
  ultimately show ?thesis
    using checkSackBlock_spec [OF assms, of s]
    by (simp add: getSackedBit_spec [OF assms] getAmountOfSackedBytes_spec [OF assms]
        getNumOfDiscontiguousSacks_spec [OF assms] checkRexmitQueue_spec [OF assms] Let_def split: if_splits)
qed

theorem sack_queries_exact_witness:
  "sack_wf sack_demo \<and> getHighestRexmittedSeqNum sack_demo = 3
     \<and> checkRexmitQueueForSackedOrRexmittedSegments 0 sack_demo = Inr 3"
  using sack_queries_exact [OF sack_demo_wf, of 0] sack_demo_wf
  by (simp add: sack_demo_flags sb_highest_def numeral_eq_Suc pos_def off_def Let_def) (simp add: sack_demo_def)

end
