(* ===== verification/Ipv4Addr.thy ===== *)
theory Ipv4Addr
  imports SeqNum Decimal
begin

text \<open>
  IPv4 addresses (\<open>networklayer/contract/ipv4/Ipv4Address\<close> of the INET framework): a single unsigned
  32-bit integer in host byte order, its dotted decimal text, netmasks and prefixes, classes and
  categories.
\<close>

unbundle bit_operations_syntax

section \<open>Construction and comparison\<close>

type_synonym Ipv4Address = uint32

definition Ipv4Address_new :: Ipv4Address where
  "Ipv4Address_new = 0"

definition set_bytes :: "int \<Rightarrow> int \<Rightarrow> int \<Rightarrow> int \<Rightarrow> Ipv4Address" where
  "set_bytes i0 i1 i2 i3 =
     push_bit 24 (of_int i0) OR push_bit 16 (of_int i1) OR push_bit 8 (of_int i2) OR of_int i3"

definition isUnspecified :: "Ipv4Address \<Rightarrow> bool" where
  "isUnspecified addr \<longleftrightarrow> addr = 0"

definition doAnd :: "Ipv4Address \<Rightarrow> Ipv4Address \<Rightarrow> Ipv4Address" where
  "doAnd addr ip = addr AND ip"

definition getDByte :: "Ipv4Address \<Rightarrow> nat \<Rightarrow> int" where
  "getDByte addr i = uint (drop_bit ((3 - i) * 8) addr AND 0xFF)"

definition isLimitedBroadcastAddress :: "Ipv4Address \<Rightarrow> bool" where
  "isLimitedBroadcastAddress addr \<longleftrightarrow> addr = 0xFFFFFFFF"

definition isMulticast :: "Ipv4Address \<Rightarrow> bool" where
  "isMulticast addr \<longleftrightarrow> addr AND 0xF0000000 = 0xE0000000"

definition isUnicast :: "Ipv4Address \<Rightarrow> bool" where
  "isUnicast addr \<longleftrightarrow> \<not> isMulticast addr \<and> \<not> isLimitedBroadcastAddress addr"

definition isLinkLocalMulticast :: "Ipv4Address \<Rightarrow> bool" where
  "isLinkLocalMulticast addr \<longleftrightarrow> addr AND 0xFFFFFF00 = 0xE0000000"

section \<open>Text\<close>

text \<open>
  A C string is the list of its characters before the terminating zero; a null pointer is \<open>None\<close>.
  Numbers are collected in an \<open>int\<close>, whose overflow is an error of its own.
\<close>

definition is_digit :: "char \<Rightarrow> bool" where
  "is_digit c \<longleftrightarrow> 48 \<le> (of_char c :: int) \<and> (of_char c :: int) \<le> 57"

fun read_num :: "int \<Rightarrow> string \<Rightarrow> error + int" where
  "read_num num [] = Inr num"
| "read_num num (c # s) =
     (let num' = 10 * num + (of_char c - 48)
      in if num' < 2 ^ 31 then read_num num' s else Inl SignedOverflow)"

function parse_loop :: "string \<Rightarrow> int list \<Rightarrow> error + int list option" where
  "parse_loop s tobytes =
     (if takeWhile is_digit s = [] then Inr None
      else ebind (read_num 0 (takeWhile is_digit s)) (\<lambda>num.
        if num > 255 then Inr None
        else let tobytes = tobytes @ [num]
             in case dropWhile is_digit s of
                  [] \<Rightarrow> Inr (if length tobytes = 4 then Some tobytes else None)
                | c # s' \<Rightarrow>
                    if c \<noteq> CHR ''.'' then Inr None
                    else if length tobytes = 4 then Inr None
                    else parse_loop s' tobytes))"
  by auto
termination
proof (relation "measure (\<lambda>(s, b). length s)")
  fix s :: string and tobytes tobytes' :: "int list" and num :: int and c :: char and s' :: string
  assume "dropWhile is_digit s = c # s'"
  then show "((s', tobytes'), (s, tobytes)) \<in> measure (\<lambda>(s, b). length s)"
    using length_dropWhile_le [of is_digit s] by simp
qed simp

declare parse_loop.simps [simp del]

definition parseIPAddress :: "string option \<Rightarrow> error + int list option" where
  "parseIPAddress text =
     (case text of
        None \<Rightarrow> Inr None
      | Some s \<Rightarrow> if s = ''<unspec>'' then Inr (Some [0, 0, 0, 0]) else parse_loop s [])"

definition set_text :: "string option \<Rightarrow> error + Ipv4Address" where
  "set_text text =
     (if text = None then Inl RuntimeError
      else ebind (parseIPAddress text) (\<lambda>ok. case ok of
             None \<Rightarrow> Inl RuntimeError
           | Some buf \<Rightarrow> Inr (set_bytes (buf ! 0) (buf ! 1) (buf ! 2) (buf ! 3))))"

definition isWellFormed :: "string option \<Rightarrow> error + bool" where
  "isWellFormed text = ebind (parseIPAddress text) (\<lambda>ok. Inr (ok \<noteq> None))"

definition IPADDRESS_STRING_SIZE :: nat where
  "IPADDRESS_STRING_SIZE = 20"

definition addr_str :: "bool \<Rightarrow> Ipv4Address \<Rightarrow> error + string" where
  "addr_str printUnspec addr =
     (if printUnspec \<and> isUnspecified addr then Inr ''<unspec>''
      else let text = digits (unat (drop_bit 24 addr AND 255)) @ ''.'' @ digits (unat (drop_bit 16 addr AND 255))
                 @ ''.'' @ digits (unat (drop_bit 8 addr AND 255)) @ ''.'' @ digits (unat (addr AND 255))
           in if length text < IPADDRESS_STRING_SIZE then Inr text else Inl IndexOutOfRange)"

section \<open>Netmasks and prefixes\<close>

definition make_netmask :: "int \<Rightarrow> uint32" where
  "make_netmask len = (if len \<ge> 32 then 0xffffffff else NOT (drop_bit (nat len) 0xffffffff))"

definition checkNetmaskLength :: "int \<Rightarrow> error + unit" where
  "checkNetmaskLength len = (if len < 0 \<or> len > 32 then Inl RuntimeError else Inr ())"

definition makeNetmask :: "int \<Rightarrow> error + Ipv4Address" where
  "makeNetmask len = ebind (checkNetmaskLength len) (\<lambda>_. Inr (make_netmask len))"

definition prefixMatches :: "Ipv4Address \<Rightarrow> Ipv4Address \<Rightarrow> int \<Rightarrow> bool" where
  "prefixMatches addr other len =
     (if len < 1 then True
      else if len > 31 then addr = other
      else let mask = make_netmask len in addr AND mask = other AND mask)"

fun matching_loop :: "uint32 \<Rightarrow> nat \<Rightarrow> int" where
  "matching_loop res 0 = 32"
| "matching_loop res (Suc i) = (if res AND push_bit i 1 \<noteq> 0 then 31 - int i else matching_loop res i)"

definition getNumMatchingPrefixBits :: "Ipv4Address \<Rightarrow> Ipv4Address \<Rightarrow> int" where
  "getNumMatchingPrefixBits addr to_cmp = matching_loop (addr XOR to_cmp) 32"

definition getNetmaskLength :: "Ipv4Address \<Rightarrow> int" where
  "getNetmaskLength addr =
     (case find (\<lambda>i. addr AND push_bit i 1 \<noteq> 0) [0..<32] of Some i \<Rightarrow> 32 - int i | None \<Rightarrow> 0)"

definition isValidNetmask :: "Ipv4Address \<Rightarrow> bool" where
  "isValidNetmask addr \<longleftrightarrow> addr = make_netmask (getNetmaskLength addr)"

definition getPrefix :: "Ipv4Address \<Rightarrow> int \<Rightarrow> error + Ipv4Address" where
  "getPrefix addr prefixLength = ebind (makeNetmask prefixLength) (\<lambda>mask. Inr (doAnd addr mask))"

definition maskedAddrAreEqual :: "Ipv4Address \<Rightarrow> Ipv4Address \<Rightarrow> Ipv4Address \<Rightarrow> bool" where
  "maskedAddrAreEqual addr1 addr2 netmask \<longleftrightarrow> (addr1 XOR addr2) AND netmask = 0"

definition makeBroadcastAddress :: "Ipv4Address \<Rightarrow> Ipv4Address \<Rightarrow> Ipv4Address" where
  "makeBroadcastAddress addr netmask = addr OR NOT netmask"

section \<open>Classes and categories\<close>

definition getIPClass :: "Ipv4Address \<Rightarrow> char" where
  "getIPClass addr =
     (let buf = getDByte addr 0 in
      if buf AND 0x80 = 0x00 then CHR ''A''
      else if buf AND 0xC0 = 0x80 then CHR ''B''
      else if buf AND 0xE0 = 0xC0 then CHR ''C''
      else if buf AND 0xF0 = 0xE0 then CHR ''D''
      else if buf AND 0xF8 = 0xF0 then CHR ''E''
      else CHR ''?'')"

datatype AddressCategory =
    UNSPECIFIED | THIS_NETWORK | LOOPBACK | MULTICAST | BROADCAST | IETF | TEST_NET
  | IPv6_TO_IPv4_RELAY | BENCHMARK | RESERVED | LINKLOCAL | PRIVATE_NETWORK | GLOBAL

definition getAddressCategory :: "Ipv4Address \<Rightarrow> AddressCategory" where
  "getAddressCategory addr =
     (if isUnspecified addr then UNSPECIFIED
      else if addr AND 0xFF000000 = 0 then THIS_NETWORK
      else if addr AND 0xFF000000 = 0x7F000000 then LOOPBACK
      else if isMulticast addr then MULTICAST
      else if addr = 0xFFFFFFFF then BROADCAST
      else let addr24 = addr AND 0xFFFFFF00 in
        if addr24 = 0xC0000000 then IETF
        else if addr24 = 0xC0000200 \<or> addr24 = 0xC6336400 \<or> addr24 = 0xCB007100 then TEST_NET
        else if addr24 = 0xC0586300 then IPv6_TO_IPv4_RELAY
        else if addr AND 0xFFFE0000 = 0xC6120000 then BENCHMARK
        else if addr AND 0xF0000000 = 0xF0000000 then RESERVED
        else if addr AND 0xFFFF0000 = 0xA9FE0000 then LINKLOCAL
        else if addr AND 0xFF000000 = 0x0A000000 \<or> addr AND 0xFFF00000 = 0xAC100000
                \<or> addr AND 0xFFFF0000 = 0xC0A80000 then PRIVATE_NETWORK
        else GLOBAL)"

definition getNetwork :: "Ipv4Address \<Rightarrow> Ipv4Address" where
  "getNetwork addr =
     (if getIPClass addr = CHR ''A'' then set_bytes (getDByte addr 0) 0 0 0
      else if getIPClass addr = CHR ''B'' then set_bytes (getDByte addr 0) (getDByte addr 1) 0 0
      else if getIPClass addr = CHR ''C'' then set_bytes (getDByte addr 0) (getDByte addr 1) (getDByte addr 2) 0
      else Ipv4Address_new)"

definition getNetworkMask :: "Ipv4Address \<Rightarrow> Ipv4Address" where
  "getNetworkMask addr =
     (if getIPClass addr = CHR ''A'' then set_bytes 255 0 0 0
      else if getIPClass addr = CHR ''B'' then set_bytes 255 255 0 0
      else if getIPClass addr = CHR ''C'' then set_bytes 255 255 255 0
      else Ipv4Address_new)"

definition isNetwork :: "Ipv4Address \<Rightarrow> Ipv4Address \<Rightarrow> bool" where
  "isNetwork addr toCmp =
     (let netmask = getNetworkMask addr
      in if isUnspecified netmask then False else maskedAddrAreEqual addr toCmp netmask)"

section \<open>Decimal numbers\<close>

lemma of_char_digit: "d < 10 \<Longrightarrow> (of_char (digit_char d) :: int) = 48 + int d"
  using of_nat_of_char [of "digit_char d", where 'a = int] by (simp add: digit_char_def)

lemma is_digit_digits: "c \<in> set (digits n) \<Longrightarrow> is_digit c"
proof (induction n rule: digits.induct)
  case (1 n)
  show ?case
  proof (cases "n < 10")
    case True
    with 1(2) show ?thesis by (simp add: digits.simps [of n] is_digit_def of_char_digit)
  next
    case False
    with 1(2) have "c \<in> set (digits (n div 10)) \<or> c = digit_char (n mod 10)" by (auto simp: digits.simps [of n])
    then show ?thesis using 1(1) False by (auto simp: is_digit_def of_char_digit)
  qed
qed

lemma not_digit_dot [simp]: "\<not> is_digit CHR ''.''"
  by (simp add: is_digit_def)

lemma read_num_append: "read_num a (s @ t) = ebind (read_num a s) (\<lambda>b. read_num b t)"
  by (induction s arbitrary: a) (simp_all add: Let_def)

lemma read_num_digits: "n < 2 ^ 31 \<Longrightarrow> read_num 0 (digits n) = Inr (int n)"
proof (induction n rule: digits.induct)
  case (1 n)
  show ?case
  proof (cases "n < 10")
    case True
    then show ?thesis by (simp add: digits.simps [of n] of_char_digit)
  next
    case False
    have "int n = 10 * (int n div 10) + int n mod 10" by simp
    with False 1 show ?thesis
      by (simp add: digits.simps [of n] read_num_append of_char_digit zdiv_int zmod_int Let_def)
  qed
qed

section \<open>Round trip of the text form\<close>

lemma take_drop_digits:
  assumes "rest = [] \<or> rest = CHR ''.'' # r"
  shows "takeWhile is_digit (digits n @ rest) = digits n" and "dropWhile is_digit (digits n @ rest) = rest"
  using assms is_digit_digits [of _ n] by (auto simp: takeWhile_append dropWhile_append)

lemma parse_loop_digits:
  assumes "n < 256" and "rest = [] \<or> rest = CHR ''.'' # r"
  shows "parse_loop (digits n @ rest) bs =
    (if rest = [] then Inr (if length bs = 3 then Some (bs @ [int n]) else None)
     else if length bs = 3 then Inr None else parse_loop r (bs @ [int n]))"
  using assms(1,2) length_digits_pos [of n] read_num_digits [of n]
  by (subst parse_loop.simps) (auto simp: take_drop_digits [OF assms(2)])

lemmas parse_loop_dot = parse_loop_digits [where rest = "CHR ''.'' # r" and r = r for r, simplified]
lemmas parse_loop_end = parse_loop_digits [where rest = "[]", simplified]

lemma byte_less: "unat (w AND 255 :: uint32) < 256"
proof -
  have "w AND 255 = take_bit 8 w" by (simp add: take_bit_eq_mask mask_eq_exp_minus_1)
  then show ?thesis by (simp add: take_bit_eq_mod unat_mod)
qed

lemma set_bytes_of_bytes:
  "set_bytes (int (unat (drop_bit 24 a AND 255))) (int (unat (drop_bit 16 a AND 255)))
     (int (unat (drop_bit 8 a AND 255))) (int (unat (a AND 255))) = a"
proof -
  have m: "(255 :: uint32) = mask 8" by (simp add: mask_eq_exp_minus_1)
  show ?thesis unfolding set_bytes_def m
  proof (rule bit_word_eqI)
    fix n assume "n < LENGTH(32)"
    consider "n < 8" | "8 \<le> n" "n < 16" | "16 \<le> n" "n < 24" | "24 \<le> n" by linarith
    then show "bit (push_bit 24 (word_of_int (int (unat (drop_bit 24 a AND mask 8))))
        OR push_bit 16 (word_of_int (int (unat (drop_bit 16 a AND mask 8))))
        OR push_bit 8 (word_of_int (int (unat (drop_bit 8 a AND mask 8))))
        OR (word_of_int (int (unat (a AND mask 8))) :: uint32)) n = bit a n"
      using \<open>n < LENGTH(32)\<close> by cases (auto simp: bit_simps)
  qed
qed

lemma addr_str_fits:
  "addr_str printUnspec a = Inr (if printUnspec \<and> a = 0 then ''<unspec>''
     else digits (unat (drop_bit 24 a AND 255)) @ ''.'' @ digits (unat (drop_bit 16 a AND 255))
       @ ''.'' @ digits (unat (drop_bit 8 a AND 255)) @ ''.'' @ digits (unat (a AND 255)))"
proof -
  have "length (digits (unat (w AND 255 :: uint32))) \<le> 3" for w
    using length_digits [of "unat (w AND 255)" 2] byte_less [of w] by simp
  from this [of "drop_bit 24 a"] this [of "drop_bit 16 a"] this [of "drop_bit 8 a"] this [of a]
  show ?thesis by (auto simp: addr_str_def isUnspecified_def IPADDRESS_STRING_SIZE_def Let_def)
qed

lemma parse_addr_str:
  assumes "addr_str printUnspec a = Inr t"
  shows "parseIPAddress (Some t) = Inr (Some [int (unat (drop_bit 24 a AND 255)), int (unat (drop_bit 16 a AND 255)),
           int (unat (drop_bit 8 a AND 255)), int (unat (a AND 255))])"
proof (cases "printUnspec \<and> a = 0")
  case True
  with assms show ?thesis by (simp add: addr_str_fits parseIPAddress_def)
next
  case False
  with assms have t: "t = digits (unat (drop_bit 24 a AND 255)) @ ''.'' @ digits (unat (drop_bit 16 a AND 255))
       @ ''.'' @ digits (unat (drop_bit 8 a AND 255)) @ ''.'' @ digits (unat (a AND 255))"
    by (auto simp: addr_str_fits)
  have "hd t \<in> set (digits (unat (drop_bit 24 a AND 255)))"
    using length_digits_pos [of "unat (drop_bit 24 a AND 255)"] by (simp add: t)
  then have "is_digit (hd t)" by (rule is_digit_digits)
  then have "t \<noteq> ''<unspec>''" by (auto simp: is_digit_def)
  then show ?thesis
    using byte_less by (simp add: parseIPAddress_def t parse_loop_dot parse_loop_end)
qed

text \<open>
  (C25) Text and address correspond: every address prints within the 20 character buffer, and parsing
  the text, with or without the special form of the unspecified address, gives the address back and
  calls the text well formed.
\<close>

theorem ipv4_text_roundtrip:
  "\<exists>t. addr_str printUnspec a = Inr t \<and> length t < IPADDRESS_STRING_SIZE
     \<and> isWellFormed (Some t) = Inr True \<and> set_text (Some t) = Inr a"
proof -
  obtain t where t: "addr_str printUnspec a = Inr t" by (simp add: addr_str_fits)
  then have "length t < IPADDRESS_STRING_SIZE"
    by (auto simp: addr_str_def IPADDRESS_STRING_SIZE_def Let_def split: if_splits)
  with t parse_addr_str [OF t] set_bytes_of_bytes [of a] show ?thesis
    by (auto simp: isWellFormed_def set_text_def)
qed

text \<open>
  The range check comes after the whole number has been read: a long number overflows the \<open>int\<close> that
  collects it before it is refused.
\<close>

lemma parse_overflow: "parseIPAddress (Some ''2147483648.0.0.1'') = Inl SignedOverflow"
  by (simp add: parseIPAddress_def parse_loop.simps [of "CHR ''2'' # s" for s] is_digit_def)

section \<open>Prefixes\<close>

lemma all_ones: "(0xFFFFFFFF :: uint32) = mask 32"
  by (simp add: mask_eq_exp_minus_1)

lemma bit_make_netmask:
  assumes "0 \<le> n" and "n \<le> 32" and "i < 32"
  shows "bit (make_netmask n) i \<longleftrightarrow> 32 - n \<le> int i"
  using assms unfolding make_netmask_def all_ones by (auto simp: bit_simps)

lemma masked_eq_bits:
  assumes "0 \<le> n" and "n \<le> 32"
  shows "a AND make_netmask n = b AND make_netmask n \<longleftrightarrow> (\<forall>i<32. 32 - n \<le> int i \<longrightarrow> bit a i = bit b i)"
    (is "?L \<longleftrightarrow> ?R")
proof
  assume ?L
  then have "bit (a AND make_netmask n) i = bit (b AND make_netmask n) i" for i by simp
  then show ?R using bit_make_netmask [OF assms] by (auto simp: bit_and_iff)
next
  assume ?R
  then show ?L by (intro bit_word_eqI) (auto simp: bit_and_iff bit_make_netmask [OF assms])
qed

lemma prefixMatches_bits:
  assumes "0 \<le> n" and "n \<le> 32"
  shows "prefixMatches a b n \<longleftrightarrow> (\<forall>i<32. 32 - n \<le> int i \<longrightarrow> bit a i = bit b i)"
proof -
  consider "n = 0" | "n = 32" | "1 \<le> n" "n \<le> 31" using assms by linarith
  then show ?thesis
  proof cases
    case 2
    then show ?thesis by (auto simp: prefixMatches_def intro!: bit_word_eqI)
  qed (auto simp: prefixMatches_def Let_def masked_eq_bits)
qed

lemma matching_loop_le:
  assumes "i \<le> 32" and "\<forall>j<32. i \<le> j \<longrightarrow> \<not> bit res j" and "0 \<le> k" and "k \<le> 32"
  shows "k \<le> matching_loop res i \<longleftrightarrow> (\<forall>j<32. 32 - k \<le> int j \<longrightarrow> \<not> bit res j)"
  using assms(1,2)
proof (induction i)
  case (Suc i)
  show ?case
  proof (cases "bit res i")
    case True
    then have "matching_loop res (Suc i) = 31 - int i"
      using bit_iff_and_push_bit_not_eq_0 [of res i] by simp
    moreover have "k \<le> 31 - int i \<longleftrightarrow> (\<forall>j<32. 32 - k \<le> int j \<longrightarrow> \<not> bit res j)"
    proof
      assume "k \<le> 31 - int i"
      with Suc.prems(2) show "\<forall>j<32. 32 - k \<le> int j \<longrightarrow> \<not> bit res j" by auto
    next
      assume r: "\<forall>j<32. 32 - k \<le> int j \<longrightarrow> \<not> bit res j"
      show "k \<le> 31 - int i"
      proof (rule ccontr)
        assume "\<not> k \<le> 31 - int i"
        with r True Suc.prems(1) show False by auto
      qed
    qed
    ultimately show ?thesis by simp
  next
    case False
    then have "matching_loop res (Suc i) = matching_loop res i"
      using bit_iff_and_push_bit_not_eq_0 [of res i] by simp
    moreover have "\<forall>j<32. i \<le> j \<longrightarrow> \<not> bit res j" using Suc.prems(2) False by (metis Suc_leI le_neq_implies_less)
    ultimately show ?thesis using Suc by simp
  qed
qed (use assms in auto)

lemma prefix_matching_bits:
  assumes "0 \<le> n" and "n \<le> 32"
  shows "prefixMatches a b n \<longleftrightarrow> n \<le> getNumMatchingPrefixBits a b"
  using matching_loop_le [of 32 "a XOR b" n] assms
  by (simp add: getNumMatchingPrefixBits_def prefixMatches_bits bit_xor_iff)

lemma getNetmaskLength_mask:
  assumes "0 \<le> n" and "n \<le> 32"
  shows "getNetmaskLength (make_netmask n) = n"
proof (cases "n = 0")
  case True
  have "make_netmask 0 = 0" by (simp add: make_netmask_def)
  moreover have "find (\<lambda>i. False) xs = None" for xs :: "nat list" by (simp add: find_None_iff)
  ultimately show ?thesis using True by (simp add: getNetmaskLength_def)
next
  case False
  define k where "k = nat (32 - n)"
  have k: "k < 32" "int k = 32 - n" using assms False by (auto simp: k_def)
  have "find (\<lambda>i. make_netmask n AND push_bit i 1 \<noteq> 0) [0..<32] = Some k"
    unfolding find_Some_iff bit_iff_and_push_bit_not_eq_0 [symmetric]
    by (rule exI [of _ k]) (use k assms in \<open>auto simp: bit_make_netmask\<close>)
  with k show ?thesis by (simp add: getNetmaskLength_def)
qed

lemma getNetmaskLength_range: "0 \<le> getNetmaskLength a \<and> getNetmaskLength a \<le> 32"
  by (auto simp: getNetmaskLength_def find_Some_iff split: option.splits)

lemma isValidNetmask_iff: "isValidNetmask a \<longleftrightarrow> (\<exists>n. 0 \<le> n \<and> n \<le> 32 \<and> a = make_netmask n)"
  using getNetmaskLength_mask getNetmaskLength_range [of a] by (auto simp: isValidNetmask_def)

lemma masked_xor: "maskedAddrAreEqual a b m \<longleftrightarrow> a AND m = b AND m"
proof
  assume "maskedAddrAreEqual a b m"
  then have "bit ((a XOR b) AND m) i = bit (0 :: uint32) i" for i by (simp add: maskedAddrAreEqual_def)
  then show "a AND m = b AND m" by (intro bit_word_eqI) (auto simp: bit_simps)
next
  assume "a AND m = b AND m"
  then have "bit (a AND m) i = bit (b AND m) i" for i by simp
  then have "bit ((a XOR b) AND m) i = bit (0 :: uint32) i" for i by (auto simp: bit_simps)
  then show "maskedAddrAreEqual a b m" unfolding maskedAddrAreEqual_def by (intro bit_word_eqI) simp
qed

lemma broadcast_masked: "makeBroadcastAddress a m AND m = a AND m" "makeBroadcastAddress a m OR m = - 1"
  by (rule bit_word_eqI, auto simp: makeBroadcastAddress_def bit_simps)+

text \<open>
  (C26) Prefix arithmetic is consistent: for lengths from 0 to 32 two addresses match in a prefix exactly
  when \<open>getNumMatchingPrefixBits\<close> is at least its length, when \<open>getPrefix\<close> gives the same network and
  when they are equal under the netmask; \<open>getNetmaskLength\<close> inverts \<open>makeNetmask\<close>, and \<open>isValidNetmask\<close>
  holds exactly for the masks it makes; the broadcast address of a network keeps the network part
  and sets every host bit; other lengths are refused.
\<close>

theorem ipv4_prefix_arithmetic:
  assumes "0 \<le> n" and "n \<le> 32"
  shows "makeNetmask n = Inr (make_netmask n)
     \<and> (prefixMatches a b n \<longleftrightarrow> n \<le> getNumMatchingPrefixBits a b)
     \<and> (prefixMatches a b n \<longleftrightarrow> getPrefix a n = getPrefix b n)
     \<and> (prefixMatches a b n \<longleftrightarrow> maskedAddrAreEqual a b (make_netmask n))
     \<and> getNetmaskLength (make_netmask n) = n
     \<and> (isValidNetmask a \<longleftrightarrow> (\<exists>k. 0 \<le> k \<and> k \<le> 32 \<and> a = make_netmask k))
     \<and> prefixMatches (makeBroadcastAddress a (make_netmask n)) a n
     \<and> makeBroadcastAddress a (make_netmask n) OR make_netmask n = - 1
     \<and> (k < 0 \<or> 32 < k \<longrightarrow> makeNetmask k = Inl RuntimeError \<and> getPrefix a k = Inl RuntimeError)"
proof -
  have m: "makeNetmask n = Inr (make_netmask n)" using assms by (simp add: makeNetmask_def checkNetmaskLength_def)
  have p: "prefixMatches x y n \<longleftrightarrow> x AND make_netmask n = y AND make_netmask n" for x y
    using assms by (simp add: prefixMatches_bits masked_eq_bits)
  show ?thesis
    using m prefix_matching_bits [OF assms, of a b] getNetmaskLength_mask [OF assms] isValidNetmask_iff [of a]
      broadcast_masked [of a "make_netmask n"]
    by (simp add: p getPrefix_def doAnd_def masked_xor) (simp add: makeNetmask_def checkNetmaskLength_def)
qed

theorem ipv4_prefix_arithmetic_witness:
  "prefixMatches 0x0A000001 0x0A0000FE 24 \<and> getNetmaskLength (make_netmask 24) = 24
     \<and> 24 \<le> getNumMatchingPrefixBits 0x0A000001 0x0A0000FE \<and> makeNetmask 33 = Inl RuntimeError"
proof -
  have "prefixMatches 0x0A000001 0x0A0000FE 24" by (simp add: prefixMatches_def make_netmask_def)
  then show ?thesis using ipv4_prefix_arithmetic [of 24 "0x0A000001" "0x0A0000FE" 33] by simp
qed

section \<open>Classification\<close>

lemma drop_bit_mask_eq:
  fixes a c d :: uint32
  assumes "c AND 0xFF = c" and "d AND 0xFF = d"
  shows "(drop_bit 24 a AND 0xFF) AND c = d \<longleftrightarrow> a AND push_bit 24 c = push_bit 24 d"
proof -
  have m: "(0xFF :: uint32) = mask 8" by (simp add: mask_eq_exp_minus_1)
  have low: "drop_bit 24 (push_bit 24 x) = x AND 0xFF" for x :: uint32
    unfolding m by (rule bit_word_eqI) (auto simp: bit_simps)
  have up: "a AND push_bit 24 c = push_bit 24 ((drop_bit 24 a AND 0xFF) AND c)"
    unfolding m by (rule bit_word_eqI) (auto simp: bit_simps)
  have "x = d" if "push_bit 24 x = push_bit 24 d" and "x AND 0xFF = x" for x
    by (metis that low assms(2))
  moreover have "((drop_bit 24 a AND 0xFF) AND c) AND 0xFF = (drop_bit 24 a AND 0xFF) AND c"
    by (rule bit_word_eqI) (auto simp only: bit_and_iff)
  ultimately show ?thesis unfolding up by metis
qed

lemma class_byte: "getDByte a 0 AND uint c = uint d \<longleftrightarrow> (drop_bit 24 a AND 0xFF) AND c = d"
  unfolding getDByte_def by (simp add: word_uint_eq_iff flip: unsigned_and_eq)

lemma getIPClass_word:
  "getIPClass a = (if a AND 0x80000000 = 0 then CHR ''A'' else if a AND 0xC0000000 = 0x80000000 then CHR ''B''
     else if a AND 0xE0000000 = 0xC0000000 then CHR ''C'' else if a AND 0xF0000000 = 0xE0000000 then CHR ''D''
     else if a AND 0xF8000000 = 0xF0000000 then CHR ''E'' else CHR ''?'')"
  using class_byte [where a = a and c = "0x80" and d = "0"] class_byte [where a = a and c = "0xC0" and d = "0x80"] class_byte [where a = a and c = "0xE0" and d = "0xC0"]
    class_byte [where a = a and c = "0xF0" and d = "0xE0"] class_byte [where a = a and c = "0xF8" and d = "0xF0"]
    drop_bit_mask_eq [where c = "0x80" and d = "0"] drop_bit_mask_eq [where c = "0xC0" and d = "0x80"] drop_bit_mask_eq [where c = "0xE0" and d = "0xC0"]
    drop_bit_mask_eq [where c = "0xF0" and d = "0xE0"] drop_bit_mask_eq [where c = "0xF8" and d = "0xF0"]
  by (simp add: getIPClass_def Let_def)

lemma word_of_getDByte: "of_int (getDByte a i) = drop_bit ((3 - i) * 8) a AND 0xFF"
  by (simp add: getDByte_def)

lemma byte_cases:
  fixes n :: nat
  obtains "n < 8" | "8 \<le> n" "n < 16" | "16 \<le> n" "n < 24" | "24 \<le> n"
  by linarith

lemma getNetwork_masked: "getNetwork a = doAnd a (getNetworkMask a)"
proof -
  have m: "(0xFF :: uint32) = mask 8" "(0xFF000000 :: uint32) = push_bit 24 (mask 8)"
    "(0xFFFF0000 :: uint32) = push_bit 16 (mask 16)" "(0xFFFFFF00 :: uint32) = push_bit 8 (mask 24)"
    by (simp_all add: mask_eq_exp_minus_1)
  have "set_bytes (getDByte a 0) 0 0 0 = a AND 0xFF000000"
    unfolding set_bytes_def word_of_getDByte m by (rule bit_word_eqI) (auto simp: bit_simps)
  moreover have "set_bytes (getDByte a 0) (getDByte a 1) 0 0 = a AND 0xFFFF0000"
    unfolding set_bytes_def word_of_getDByte m
    apply (rule bit_word_eqI)
    subgoal for n by (rule byte_cases [of n]) (auto simp: bit_simps)
    done
  moreover have "set_bytes (getDByte a 0) (getDByte a 1) (getDByte a 2) 0 = a AND 0xFFFFFF00"
    unfolding set_bytes_def word_of_getDByte m
    apply (rule bit_word_eqI)
    subgoal for n by (rule byte_cases [of n]) (auto simp: bit_simps)
    done
  moreover have "set_bytes 255 0 0 0 = 0xFF000000" "set_bytes 255 255 0 0 = 0xFFFF0000"
    "set_bytes 255 255 255 0 = 0xFFFFFF00" by (simp_all add: set_bytes_def)
  ultimately show ?thesis by (simp add: getNetwork_def getNetworkMask_def doAnd_def Ipv4Address_new_def)
qed

text \<open>
  The categories as their documentation lists them: network, prefix length, category, first match
  first.
\<close>

definition category_table :: "(Ipv4Address \<times> int \<times> AddressCategory) list" where
  "category_table =
    [(0, 32, UNSPECIFIED), (0, 8, THIS_NETWORK), (set_bytes 127 0 0 0, 8, LOOPBACK),
     (set_bytes 224 0 0 0, 4, MULTICAST), (set_bytes 255 255 255 255, 32, BROADCAST),
     (set_bytes 192 0 0 0, 24, IETF), (set_bytes 192 0 2 0, 24, TEST_NET),
     (set_bytes 198 51 100 0, 24, TEST_NET), (set_bytes 203 0 113 0, 24, TEST_NET),
     (set_bytes 192 88 99 0, 24, IPv6_TO_IPv4_RELAY), (set_bytes 198 18 0 0, 15, BENCHMARK),
     (set_bytes 240 0 0 0, 4, RESERVED), (set_bytes 169 254 0 0, 16, LINKLOCAL),
     (set_bytes 10 0 0 0, 8, PRIVATE_NETWORK), (set_bytes 172 16 0 0, 12, PRIVATE_NETWORK),
     (set_bytes 192 168 0 0, 16, PRIVATE_NETWORK)]"

fun lookup_category :: "Ipv4Address \<Rightarrow> (Ipv4Address \<times> int \<times> AddressCategory) list \<Rightarrow> AddressCategory" where
  "lookup_category a [] = GLOBAL"
| "lookup_category a ((net, len, c) # table) = (if prefixMatches a net len then c else lookup_category a table)"

lemma netmasks:
  "make_netmask 8 = 0xFF000000" "make_netmask 4 = 0xF0000000" "make_netmask 24 = 0xFFFFFF00"
  "make_netmask 15 = 0xFFFE0000" "make_netmask 16 = 0xFFFF0000" "make_netmask 12 = 0xFFF00000"
  by (simp_all add: make_netmask_def)

lemma special_networks:
  "prefixMatches a 0 32 \<longleftrightarrow> a = 0"
  "prefixMatches a 0 8 \<longleftrightarrow> a AND 0xFF000000 = 0"
  "prefixMatches a (set_bytes 127 0 0 0) 8 \<longleftrightarrow> a AND 0xFF000000 = 0x7F000000"
  "prefixMatches a (set_bytes 224 0 0 0) 4 \<longleftrightarrow> a AND 0xF0000000 = 0xE0000000"
  "prefixMatches a (set_bytes 255 255 255 255) 32 \<longleftrightarrow> a = 0xFFFFFFFF"
  "prefixMatches a (set_bytes 192 0 0 0) 24 \<longleftrightarrow> a AND 0xFFFFFF00 = 0xC0000000"
  "prefixMatches a (set_bytes 192 0 2 0) 24 \<longleftrightarrow> a AND 0xFFFFFF00 = 0xC0000200"
  "prefixMatches a (set_bytes 198 51 100 0) 24 \<longleftrightarrow> a AND 0xFFFFFF00 = 0xC6336400"
  "prefixMatches a (set_bytes 203 0 113 0) 24 \<longleftrightarrow> a AND 0xFFFFFF00 = 0xCB007100"
  "prefixMatches a (set_bytes 192 88 99 0) 24 \<longleftrightarrow> a AND 0xFFFFFF00 = 0xC0586300"
  "prefixMatches a (set_bytes 198 18 0 0) 15 \<longleftrightarrow> a AND 0xFFFE0000 = 0xC6120000"
  "prefixMatches a (set_bytes 240 0 0 0) 4 \<longleftrightarrow> a AND 0xF0000000 = 0xF0000000"
  "prefixMatches a (set_bytes 169 254 0 0) 16 \<longleftrightarrow> a AND 0xFFFF0000 = 0xA9FE0000"
  "prefixMatches a (set_bytes 10 0 0 0) 8 \<longleftrightarrow> a AND 0xFF000000 = 0x0A000000"
  "prefixMatches a (set_bytes 172 16 0 0) 12 \<longleftrightarrow> a AND 0xFFF00000 = 0xAC100000"
  "prefixMatches a (set_bytes 192 168 0 0) 16 \<longleftrightarrow> a AND 0xFFFF0000 = 0xC0A80000"
  by (simp_all add: set_bytes_def prefixMatches_def netmasks)

lemma if_or: "(if x \<or> y then t else r) = (if x then t else if y then t else r)"
  by simp

lemma category_table_eq: "getAddressCategory a = lookup_category a category_table"
  unfolding getAddressCategory_def category_table_def lookup_category.simps special_networks
    isUnspecified_def isMulticast_def Let_def if_or ..

lemma mask_class_D: "getIPClass a = CHR ''D'' \<longleftrightarrow> isMulticast a"
proof -
  have "a AND c = e" if "a AND m = d" and "c AND m = c" and "d AND c = e" for c m d e :: uint32
    using that by (metis and.assoc and.commute)
  from this [of "0xF0000000" "0xE0000000" "0x80000000"] this [of "0xF0000000" "0xE0000000" "0xC0000000"]
    this [of "0xF0000000" "0xE0000000" "0xE0000000"]
  show ?thesis by (auto simp: getIPClass_word isMulticast_def)
qed

text \<open>
  (C27) Classification of addresses: \<open>getAddressCategory\<close> returns the category of the first network in the
  documented list of special networks that contains the address, \<open>GLOBAL\<close> when none does; multicast
  addresses are exactly those of class D; the network of an address is the address under its
  network mask, and \<open>isNetwork\<close> compares addresses under the mask of classes A, B and C only.
\<close>

theorem ipv4_classification:
  "getAddressCategory a = lookup_category a category_table
   \<and> (getIPClass a = CHR ''D'' \<longleftrightarrow> isMulticast a)
   \<and> getNetwork a = doAnd a (getNetworkMask a)
   \<and> (isNetwork a b \<longleftrightarrow> getIPClass a \<in> {CHR ''A'', CHR ''B'', CHR ''C''}
        \<and> doAnd a (getNetworkMask a) = doAnd b (getNetworkMask a))"
proof -
  have "isUnspecified (getNetworkMask a) \<longleftrightarrow> getIPClass a \<notin> {CHR ''A'', CHR ''B'', CHR ''C''}"
    by (simp add: isUnspecified_def getNetworkMask_def set_bytes_def Ipv4Address_new_def)
  then show ?thesis
    using category_table_eq [of a] mask_class_D [of a] getNetwork_masked [of a]
    by (simp add: isNetwork_def masked_xor doAnd_def Let_def)
qed

end
