(* ===== verification/MacAddr.thy ===== *)
theory MacAddr
  imports Ipv4Addr
begin

text \<open>
  MAC addresses (\<open>linklayer/common/MacAddress\<close> of the INET framework): a 64-bit integer of which
  the lower 48 bits are used, access to its six bytes, the hexadecimal text form, the order used by
  the address tables, automatic and multicast addresses, and the interface identifier derived from
  an address.
\<close>

type_synonym uint64 = "64 word"
type_synonym uint8 = "8 word"
type_synonym MacAddress = uint64

definition MAC_ADDRESS_SIZE :: nat where
  "MAC_ADDRESS_SIZE = 6"

definition MAC_ADDRESS_MASK :: uint64 where
  "MAC_ADDRESS_MASK = 0xffffffffffff"

definition MacAddress_bits :: "uint64 \<Rightarrow> MacAddress" where
  "MacAddress_bits bits = bits AND MAC_ADDRESS_MASK"

section \<open>Bytes\<close>

definition getAddressByte :: "nat \<Rightarrow> MacAddress \<Rightarrow> error + uint8" where
  "getAddressByte k address =
     (if k \<ge> MAC_ADDRESS_SIZE then Inl RuntimeError
      else let offset = (MAC_ADDRESS_SIZE - k - 1) * 8
           in Inr (ucast (0xff AND drop_bit offset address)))"

definition setAddressByte :: "nat \<Rightarrow> uint8 \<Rightarrow> MacAddress \<Rightarrow> error + MacAddress" where
  "setAddressByte k addrbyte address =
     (if k \<ge> MAC_ADDRESS_SIZE then Inl RuntimeError
      else let offset = (MAC_ADDRESS_SIZE - k - 1) * 8
           in Inr ((address AND NOT (push_bit offset 0xff)) OR push_bit offset (ucast addrbyte)))"

fun get_bytes :: "nat list \<Rightarrow> MacAddress \<Rightarrow> error + uint8 list" where
  "get_bytes [] address = Inr []"
| "get_bytes (i # is) address =
     ebind (getAddressByte i address) (\<lambda>b. ebind (get_bytes is address) (\<lambda>bs. Inr (b # bs)))"

definition getAddressBytes :: "MacAddress \<Rightarrow> error + uint8 list" where
  "getAddressBytes address = get_bytes [0..<MAC_ADDRESS_SIZE] address"

fun set_bytes_loop :: "nat list \<Rightarrow> uint8 list \<Rightarrow> MacAddress \<Rightarrow> error + MacAddress" where
  "set_bytes_loop [] addrbytes address = Inr address"
| "set_bytes_loop (i # is) addrbytes address =
     (if i < length addrbytes then
        ebind (setAddressByte i (addrbytes ! i) address) (\<lambda>address. set_bytes_loop is addrbytes address)
      else Inl IndexOutOfRange)"

definition setAddressBytes :: "uint8 list \<Rightarrow> error + MacAddress" where
  "setAddressBytes addrbytes = set_bytes_loop [0..<MAC_ADDRESS_SIZE] addrbytes 0"

section \<open>Text\<close>

definition isdigit :: "char \<Rightarrow> bool" where
  "isdigit c \<longleftrightarrow> 48 \<le> (of_char c :: nat) \<and> (of_char c :: nat) \<le> 57"

definition islower :: "char \<Rightarrow> bool" where
  "islower c \<longleftrightarrow> 97 \<le> (of_char c :: nat) \<and> (of_char c :: nat) \<le> 122"

definition isxdigit :: "char \<Rightarrow> bool" where
  "isxdigit c \<longleftrightarrow> isdigit c \<or> 97 \<le> (of_char c :: nat) \<and> (of_char c :: nat) \<le> 102
     \<or> 65 \<le> (of_char c :: nat) \<and> (of_char c :: nat) \<le> 70"

definition hex_value :: "char \<Rightarrow> nat" where
  "hex_value c = (if isdigit c then of_char c - 48 else if islower c then of_char c - 97 + 10 else of_char c - 65 + 10)"

fun mac_syntax :: "nat \<Rightarrow> string \<Rightarrow> nat option" where
  "mac_syntax numHexDigits [] = Some numHexDigits"
| "mac_syntax numHexDigits (c # s) =
     (if isxdigit c then mac_syntax (Suc numHexDigits) s
      else if c \<noteq> CHR '' '' \<and> c \<noteq> CHR '':'' \<and> c \<noteq> CHR ''-'' then None
      else mac_syntax numHexDigits s)"

fun mac_parse_loop :: "nat list \<Rightarrow> string \<Rightarrow> MacAddress \<Rightarrow> error + MacAddress" where
  "mac_parse_loop [] s address = Inr address"
| "mac_parse_loop (pos # ps) s address =
     (if s = [] then ebind (setAddressByte pos 0 address) (mac_parse_loop ps s)
      else case dropWhile (\<lambda>c. \<not> isxdigit c) s of
             [] \<Rightarrow> ebind (setAddressByte pos 0 address) (mac_parse_loop ps [])
           | c # s \<Rightarrow>
               let d = push_bit 4 (of_nat (hex_value c)) :: uint8 in
               case dropWhile (\<lambda>c. \<not> isxdigit c) s of
                 [] \<Rightarrow> ebind (setAddressByte pos 0 address) (mac_parse_loop ps [])
               | c # s \<Rightarrow> ebind (setAddressByte pos (d + of_nat (hex_value c)) address) (mac_parse_loop ps s))"

definition tryParse :: "string option \<Rightarrow> MacAddress \<Rightarrow> error + bool \<times> MacAddress" where
  "tryParse hexstr address =
     (case hexstr of
        None \<Rightarrow> Inr (False, address)
      | Some s \<Rightarrow>
          if mac_syntax 0 s = Some (2 * MAC_ADDRESS_SIZE)
          then ebind (mac_parse_loop [0..<MAC_ADDRESS_SIZE] s 0) (\<lambda>address. Inr (True, address))
          else Inr (False, address))"

definition setAddress :: "string option \<Rightarrow> MacAddress \<Rightarrow> error + MacAddress" where
  "setAddress hexstr address =
     ebind (tryParse hexstr address) (\<lambda>(ok, address). if ok then Inr address else Inl RuntimeError)"

definition hex_char :: "nat \<Rightarrow> char" where
  "hex_char d = (if d < 10 then char_of (48 + d) else char_of (55 + d))"

definition hex_byte :: "uint8 \<Rightarrow> string" where
  "hex_byte b = [hex_char (unat b div 16), hex_char (unat b mod 16)]"

text \<open>Six times \<open>%2.2X-\<close>, the last hyphen replaced by the terminating zero.\<close>

definition mac_str :: "MacAddress \<Rightarrow> error + string" where
  "mac_str address =
     ebind (getAddressBytes address) (\<lambda>bs. Inr (butlast (concat (map (\<lambda>b. hex_byte b @ ''-'') bs))))"

section \<open>Classification, order, derived addresses\<close>

definition isBroadcast :: "MacAddress \<Rightarrow> bool" where
  "isBroadcast address \<longleftrightarrow> address = MAC_ADDRESS_MASK"

definition mac_isMulticast :: "MacAddress \<Rightarrow> bool" where
  "mac_isMulticast address \<longleftrightarrow>
     (case getAddressByte 0 address of Inr b \<Rightarrow> b AND 0x01 \<noteq> 0 | Inl e \<Rightarrow> False)"

definition compareTo :: "MacAddress \<Rightarrow> MacAddress \<Rightarrow> int" where
  "compareTo address other = (if address < other then - 1 else if address = other then 0 else 1)"

record InterfaceToken =
  token_normal :: uint32
  token_low :: uint32
  token_len :: int

definition formInterfaceIdentifier :: "MacAddress \<Rightarrow> InterfaceToken" where
  "formInterfaceIdentifier address =
     (let high = ucast ((drop_bit 16 address OR 0xff) XOR 0x02000000) :: uint32;
          low = ucast (push_bit 24 0xfe OR (address AND 0xffffff)) :: uint32
      in \<lparr>token_normal = high, token_low = low, token_len = 64\<rparr>)"

text \<open>The counter is a global variable; registering the lifecycle listener resets it per simulation.\<close>

definition generateAutoAddress :: "uint32 \<Rightarrow> MacAddress \<times> uint32" where
  "generateAutoAddress autoAddressCtr =
     (let autoAddressCtr = autoAddressCtr + 1;
          intAddr = 0x0AAA00000000 + (ucast autoAddressCtr AND 0xffffffff) :: uint64
      in (MacAddress_bits intAddr, autoAddressCtr))"

definition makeMulticastAddress :: "Ipv4Address \<Rightarrow> error + MacAddress" where
  "makeMulticastAddress addr =
     (if isMulticast addr then
        ebind (setAddressByte 0 0x01 0) (\<lambda>m.
        ebind (setAddressByte 1 0x00 m) (\<lambda>m.
        ebind (setAddressByte 2 0x5e m) (\<lambda>m.
        ebind (setAddressByte 3 (of_int (getDByte addr 1 AND 0x7f)) m) (\<lambda>m.
        ebind (setAddressByte 4 (of_int (getDByte addr 2)) m) (\<lambda>m.
        setAddressByte 5 (of_int (getDByte addr 3)) m)))))
      else Inl AssertionFailed)"

section \<open>Bytes of an address\<close>

lemmas mac_size [simp] = MAC_ADDRESS_SIZE_def

lemma upt_6: "[0..<6] = [0, 1, 2, 3, 4, 5 :: nat]"
  by (simp add: upt_rec)

lemma byte_mask: "(0xff :: uint64) = mask 8"
  by (simp add: mask_eq_exp_minus_1)

lemma bit_getAddressByte:
  "k < 6 \<Longrightarrow> getAddressByte k a = Inr b \<Longrightarrow> bit b i \<longleftrightarrow> i < 8 \<and> bit a ((5 - k) * 8 + i)"
  unfolding getAddressByte_def byte_mask by (auto simp: bit_simps Let_def)

lemma bit_setAddressByte:
  "k < 6 \<Longrightarrow> setAddressByte k b a = Inr a' \<Longrightarrow>
     bit a' i \<longleftrightarrow> i < 64 \<and> (if (5 - k) * 8 \<le> i \<and> i < (5 - k) * 8 + 8 then bit b (i - (5 - k) * 8) else bit a i)"
  using bit_imp_le_length [of b "i - (5 - k) * 8"]
  unfolding setAddressByte_def byte_mask by (auto simp: bit_simps Let_def)

lemma setAddressByte_ok: "k < 6 \<Longrightarrow> \<exists>a'. setAddressByte k b a = Inr a'"
  by (simp add: setAddressByte_def Let_def)

lemma getAddressByte_ok: "k < 6 \<Longrightarrow> \<exists>b. getAddressByte k a = Inr b"
  by (simp add: getAddressByte_def Let_def)

fun put_bytes :: "nat list \<Rightarrow> uint8 list \<Rightarrow> MacAddress \<Rightarrow> error + MacAddress" where
  "put_bytes (p # ps) (b # bs) a = ebind (setAddressByte p b a) (put_bytes ps bs)"
| "put_bytes _ _ a = Inr a"

lemma length_6E:
  assumes "length bs = 6"
  obtains b0 b1 b2 b3 b4 b5 where "bs = [b0, b1, b2, b3, b4, b5]"
  using assms by (auto simp: numeral_eq_Suc length_Suc_conv)

lemma set_bytes_loop_put:
  "i \<le> length bs \<Longrightarrow> set_bytes_loop [i..<length bs] bs a = put_bytes [i..<length bs] (drop i bs) a"
proof (induction "length bs - i" arbitrary: i a)
  case (Suc n)
  then have "i < length bs" and n: "n = length bs - Suc i" by auto
  then show ?case
    using Suc.hyps(1) [OF n]
    by (cases "setAddressByte i (bs ! i) a") (simp_all add: upt_conv_Cons flip: Cons_nth_drop_Suc)
qed simp

lemma setAddressBytes_put: "length bs = 6 \<Longrightarrow> setAddressBytes bs = put_bytes [0..<6] bs 0"
  using set_bytes_loop_put [of 0 bs 0] by (simp add: setAddressBytes_def)

text \<open>The bits of an address put together from six bytes.\<close>

lemma bit_put_bytes:
  assumes "length bs = 6"
  shows "\<exists>a. put_bytes [0..<6] bs 0 = Inr a \<and> (\<forall>k<6. \<forall>i<8. bit a ((5 - k) * 8 + i) \<longleftrightarrow> bit (bs ! k) i) \<and> a AND MAC_ADDRESS_MASK = a"
proof -
  from assms obtain b0 b1 b2 b3 b4 b5 where bs: "bs = [b0, b1, b2, b3, b4, b5]" by (rule length_6E)
  obtain a0 where a0: "setAddressByte 0 b0 0 = Inr a0" using setAddressByte_ok [of 0] by auto
  obtain a1 where a1: "setAddressByte 1 b1 a0 = Inr a1" using setAddressByte_ok [of 1] by auto
  obtain a2 where a2: "setAddressByte 2 b2 a1 = Inr a2" using setAddressByte_ok [of 2] by auto
  obtain a3 where a3: "setAddressByte 3 b3 a2 = Inr a3" using setAddressByte_ok [of 3] by auto
  obtain a4 where a4: "setAddressByte 4 b4 a3 = Inr a4" using setAddressByte_ok [of 4] by auto
  obtain a5 where a5: "setAddressByte 5 b5 a4 = Inr a5" using setAddressByte_ok [of 5] by auto
  note B = bit_setAddressByte [OF _ a0] bit_setAddressByte [OF _ a1] bit_setAddressByte [OF _ a2]
    bit_setAddressByte [OF _ a3] bit_setAddressByte [OF _ a4] bit_setAddressByte [OF _ a5]
  have "bit a5 ((5 - k) * 8 + i) \<longleftrightarrow> bit (bs ! k) i" if "k < 6" "i < 8" for k i
  proof -
    from that(1) consider "k = 0" | "k = 1" | "k = 2" | "k = 3" | "k = 4" | "k = 5" by linarith
    then show ?thesis using that(2) by cases (simp_all add: B bs)
  qed
  moreover have "a5 AND MAC_ADDRESS_MASK = a5"
  proof -
    have m: "MAC_ADDRESS_MASK = mask 48" by (simp add: MAC_ADDRESS_MASK_def mask_eq_exp_minus_1)
    show ?thesis unfolding m by (rule bit_word_eqI) (auto simp: bit_simps B)
  qed
  ultimately show ?thesis by (auto simp: upt_6 bs a0 a1 a2 a3 a4 a5 simp del: One_nat_def)
qed

lemma getAddressBytes_nth:
  "getAddressBytes a = Inr bs \<longleftrightarrow> length bs = 6 \<and> (\<forall>k<6. \<forall>i<8. bit a ((5 - k) * 8 + i) \<longleftrightarrow> bit (bs ! k) i)"
proof -
  obtain b0 b1 b2 b3 b4 b5 where B: "getAddressByte 0 a = Inr b0" "getAddressByte 1 a = Inr b1"
    "getAddressByte 2 a = Inr b2" "getAddressByte 3 a = Inr b3" "getAddressByte 4 a = Inr b4" "getAddressByte 5 a = Inr b5"
    using getAddressByte_ok [of 0 a] getAddressByte_ok [of 1 a] getAddressByte_ok [of 2 a]
      getAddressByte_ok [of 3 a] getAddressByte_ok [of 4 a] getAddressByte_ok [of 5 a] by auto
  have g: "getAddressBytes a = Inr [b0, b1, b2, b3, b4, b5]"
    unfolding getAddressBytes_def using B by (simp add: upt_6 del: One_nat_def)
  have nth: "bit ([b0, b1, b2, b3, b4, b5] ! k) i \<longleftrightarrow> bit a ((5 - k) * 8 + i)" if "k < 6" "i < 8" for k i
  proof -
    from that(1) consider "k = 0" | "k = 1" | "k = 2" | "k = 3" | "k = 4" | "k = 5" by linarith
    then show ?thesis using that(2) B
      by cases (simp_all add: bit_getAddressByte [of 0 a] bit_getAddressByte [of 1 a] bit_getAddressByte [of 2 a]
          bit_getAddressByte [of 3 a] bit_getAddressByte [of 4 a] bit_getAddressByte [of 5 a])
  qed
  show ?thesis
  proof
    assume "getAddressBytes a = Inr bs"
    with g nth show "length bs = 6 \<and> (\<forall>k<6. \<forall>i<8. bit a ((5 - k) * 8 + i) \<longleftrightarrow> bit (bs ! k) i)" by auto
  next
    assume r: "length bs = 6 \<and> (\<forall>k<6. \<forall>i<8. bit a ((5 - k) * 8 + i) \<longleftrightarrow> bit (bs ! k) i)"
    have "bs = [b0, b1, b2, b3, b4, b5]"
    proof (rule nth_equalityI)
      fix k assume "k < length bs"
      with r nth show "bs ! k = [b0, b1, b2, b3, b4, b5] ! k" by (intro bit_word_eqI) auto
    qed (use r in simp)
    with g show "getAddressBytes a = Inr bs" by simp
  qed
qed

section \<open>Parsing\<close>

text \<open>The bytes that a sequence of hexadecimal digits denotes, two digits each.\<close>

fun hex_pairs :: "string \<Rightarrow> uint8 list" where
  "hex_pairs (c # d # s) = of_nat (16 * hex_value c + hex_value d) # hex_pairs s"
| "hex_pairs s = []"

definition mac_separator :: "char \<Rightarrow> bool" where
  "mac_separator c \<longleftrightarrow> c = CHR '' '' \<or> c = CHR '':'' \<or> c = CHR ''-''"

lemma mac_syntax_iff:
  "mac_syntax n s = Some m \<longleftrightarrow> (\<forall>c\<in>set s. isxdigit c \<or> mac_separator c) \<and> m = n + length (filter isxdigit s)"
  by (induction s arbitrary: n) (auto simp: mac_separator_def)

lemma dropWhile_filter:
  "filter P s = c # ds \<Longrightarrow> \<exists>s'. dropWhile (\<lambda>c. \<not> P c) s = c # s' \<and> filter P s' = ds"
  by (induction s) (auto split: if_splits)

lemma push_hex: "(push_bit 4 (of_nat a) :: uint8) + of_nat b = of_nat (16 * a + b)"
  by (simp add: push_bit_eq_mult)

lemma mac_parse_loop_put:
  "length (filter isxdigit s) = 2 * length ps \<Longrightarrow>
     mac_parse_loop ps s a = put_bytes ps (hex_pairs (filter isxdigit s)) a"
proof (induction ps arbitrary: s a)
  case (Cons p ps)
  from Cons.prems obtain c d ds where f: "filter isxdigit s = c # d # ds" and l: "length ds = 2 * length ps"
    by (auto simp: length_Suc_conv)
  from dropWhile_filter [OF f] obtain s1 where s1: "dropWhile (\<lambda>c. \<not> isxdigit c) s = c # s1" "filter isxdigit s1 = d # ds"
    by blast
  from dropWhile_filter [OF s1(2)] obtain s2 where s2: "dropWhile (\<lambda>c. \<not> isxdigit c) s1 = d # s2" "filter isxdigit s2 = ds"
    by blast
  have IH: "mac_parse_loop ps s2 a' = put_bytes ps (hex_pairs ds) a'" for a'
    using Cons.IH [of s2] s2 l by simp
  have "s \<noteq> []" using f by auto
  with f s1 s2 show ?case
    by (cases "setAddressByte p (of_nat (16 * hex_value c + hex_value d)) a") (simp_all add: push_hex IH del: of_nat_add)
qed simp

lemma length_hex_pairs: "length (hex_pairs s) = length s div 2"
  by (induction s rule: hex_pairs.induct) auto

lemma tryParse_iff:
  "(if (\<forall>c\<in>set s. isxdigit c \<or> mac_separator c) \<and> length (filter isxdigit s) = 12
    then \<exists>a. tryParse (Some s) x = Inr (True, a) \<and> getAddressBytes a = Inr (hex_pairs (filter isxdigit s))
         \<and> a AND MAC_ADDRESS_MASK = a
    else tryParse (Some s) x = Inr (False, x))"
proof (cases "(\<forall>c\<in>set s. isxdigit c \<or> mac_separator c) \<and> length (filter isxdigit s) = 12")
  case True
  then have "length (hex_pairs (filter isxdigit s)) = 6" by (simp add: length_hex_pairs)
  from bit_put_bytes [OF this] obtain a where "put_bytes [0..<6] (hex_pairs (filter isxdigit s)) 0 = Inr a"
    "getAddressBytes a = Inr (hex_pairs (filter isxdigit s))" "a AND MAC_ADDRESS_MASK = a"
    using \<open>length (hex_pairs (filter isxdigit s)) = 6\<close> by (auto simp: getAddressBytes_nth)
  with True mac_parse_loop_put [of s "[0..<6]" 0] show ?thesis
    by (simp add: tryParse_def mac_syntax_iff)
next
  case False
  then have "mac_syntax 0 s \<noteq> Some 12" using mac_syntax_iff [of 0 s 12] by auto
  with False show ?thesis unfolding if_not_P [OF False] by (simp add: tryParse_def)
qed

lemma mac_eqI:
  assumes "getAddressBytes a = Inr bs" and "getAddressBytes b = Inr bs"
    and "a AND MAC_ADDRESS_MASK = a" and "b AND MAC_ADDRESS_MASK = b"
  shows "a = b"
proof (rule bit_word_eqI)
  fix n
  have m: "MAC_ADDRESS_MASK = mask 48" by (simp add: MAC_ADDRESS_MASK_def mask_eq_exp_minus_1)
  have high: "\<not> bit a n \<and> \<not> bit b n" if "48 \<le> n"
    using assms(3,4) that unfolding m by (metis bit_and_iff bit_mask_iff not_le)
  have "bit a n = bit b n" if "n < 48"
  proof -
    have "n = (5 - (5 - n div 8)) * 8 + n mod 8" using that by simp
    moreover have "5 - n div 8 < 6" "n mod 8 < 8" by simp_all
    ultimately show ?thesis using assms(1,2) unfolding getAddressBytes_nth by metis
  qed
  with high show "bit a n = bit b n" by (cases "n < 48") auto
qed

lemma hex_char_digit:
  assumes "d < 16"
  shows "isxdigit (hex_char d)" and "hex_value (hex_char d) = d"
  using assms by (auto simp: hex_char_def isxdigit_def isdigit_def islower_def hex_value_def)

lemma hex_pairs_bytes:
  "hex_pairs (filter isxdigit (concat (map (\<lambda>b. hex_byte b @ ''-'') bs))) = bs"
proof (induction bs)
  case (Cons b bs)
  have "unat b < 256" using unsigned_less [of b] by simp
  then have "unat b div 16 < 16" "unat b mod 16 < 16" by (simp_all add: less_mult_imp_div_less)
  moreover have "(of_nat (16 * (unat b div 16) + unat b mod 16) :: uint8) = b" by simp
  moreover have "\<not> isxdigit CHR ''-''" by (simp add: isxdigit_def isdigit_def)
  ultimately show ?case using Cons by (simp add: hex_byte_def hex_char_digit del: of_nat_add)
qed simp

lemma filter_butlast_dash: "filter isxdigit (butlast (xs @ ''-'')) = filter isxdigit (xs @ ''-'')"
  by (simp add: isxdigit_def isdigit_def)

lemma mac_str_digits:
  assumes "getAddressBytes a = Inr bs" and "mac_str a = Inr t"
  shows "hex_pairs (filter isxdigit t) = bs" and "length (filter isxdigit t) = 12" and "length t = 17"
    and "\<forall>c\<in>set t. isxdigit c \<or> mac_separator c"
proof -
  from assms(1) have "length bs = 6" by (simp add: getAddressBytes_nth)
  then obtain b0 b1 b2 b3 b4 b5 where bs: "bs = [b0, b1, b2, b3, b4, b5]" by (rule length_6E)
  have t: "t = butlast (concat (map (\<lambda>b. hex_byte b @ ''-'') bs))" using assms by (simp add: mac_str_def)
  have c: "concat (map (\<lambda>b. hex_byte b @ ''-'') bs)
      = concat (map (\<lambda>b. hex_byte b @ ''-'') [b0, b1, b2, b3, b4]) @ hex_byte b5 @ ''-''" by (simp add: bs)
  have f: "filter isxdigit t = filter isxdigit (concat (map (\<lambda>b. hex_byte b @ ''-'') bs))"
    unfolding t c using filter_butlast_dash [of "concat (map (\<lambda>b. hex_byte b @ ''-'') [b0, b1, b2, b3, b4]) @ hex_byte b5"]
    by simp
  then show h: "hex_pairs (filter isxdigit t) = bs" by (simp add: hex_pairs_bytes)
  have d: "isxdigit (hex_char (unat b div 16))" "isxdigit (hex_char (unat b mod 16))" for b :: uint8
  proof -
    have "unat b < 256" using unsigned_less [of b] by simp
    then show "isxdigit (hex_char (unat b div 16))" "isxdigit (hex_char (unat b mod 16))"
      by (simp_all add: hex_char_digit less_mult_imp_div_less)
  qed
  have "\<not> isxdigit CHR ''-''" by (simp add: isxdigit_def isdigit_def)
  with d show "length (filter isxdigit t) = 12" by (simp add: f bs hex_byte_def)
  show "length t = 17" by (simp add: t bs hex_byte_def)
  have "c \<in> set t \<Longrightarrow> c \<in> set (concat (map (\<lambda>b. hex_byte b @ ''-'') bs))" for c unfolding t by (rule in_set_butlastD)
  then show "\<forall>c\<in>set t. isxdigit c \<or> mac_separator c"
    using d by (auto simp: hex_byte_def mac_separator_def)
qed

text \<open>
  (C28) Text, bytes and address correspond: a 48-bit address prints as 17 characters from which
  \<open>tryParse\<close> restores it; \<open>getAddressBytes\<close> and \<open>setAddressBytes\<close> are inverse; and a text is accepted exactly
  when it has twelve hexadecimal digits and otherwise only spaces, colons and hyphens, the address
  then having the bytes the digits denote. A refused text leaves the address as it was.
\<close>

theorem mac_text_roundtrip:
  assumes "a AND MAC_ADDRESS_MASK = a"
  shows "(\<exists>t. mac_str a = Inr t \<and> length t = 17 \<and> tryParse (Some t) x = Inr (True, a))
     \<and> (\<exists>bs. getAddressBytes a = Inr bs \<and> setAddressBytes bs = Inr a)
     \<and> (length bs = 6 \<longrightarrow> (\<exists>b. setAddressBytes bs = Inr b \<and> getAddressBytes b = Inr bs))
     \<and> (if (\<forall>c\<in>set s. isxdigit c \<or> mac_separator c) \<and> length (filter isxdigit s) = 12
         then \<exists>b. tryParse (Some s) x = Inr (True, b) \<and> getAddressBytes b = Inr (hex_pairs (filter isxdigit s))
         else tryParse (Some s) x = Inr (False, x))"
proof -
  have bytes: "\<exists>b. setAddressBytes bs = Inr b \<and> getAddressBytes b = Inr bs \<and> b AND MAC_ADDRESS_MASK = b"
    if "length bs = 6" for bs
    using bit_put_bytes [OF that] that by (auto simp: setAddressBytes_put getAddressBytes_nth)
  obtain bs' where bs': "getAddressBytes a = Inr bs'"
    using getAddressByte_ok [of 0 a] getAddressByte_ok [of 1 a] getAddressByte_ok [of 2 a]
      getAddressByte_ok [of 3 a] getAddressByte_ok [of 4 a] getAddressByte_ok [of 5 a]
    unfolding getAddressBytes_def by (auto simp: upt_6)
  then obtain t where t: "mac_str a = Inr t" by (simp add: mac_str_def)
  note T = mac_str_digits [OF bs' t]
  from tryParse_iff [of t x] T obtain b where "tryParse (Some t) x = Inr (True, b)"
    "getAddressBytes b = Inr bs'" "b AND MAC_ADDRESS_MASK = b" by auto
  moreover from this have "b = a" using mac_eqI bs' assms by blast
  moreover have "length bs' = 6" using bs' by (simp add: getAddressBytes_nth)
  then obtain c where "setAddressBytes bs' = Inr c" "getAddressBytes c = Inr bs'" "c AND MAC_ADDRESS_MASK = c"
    using bytes by blast
  moreover from this have "c = a" using mac_eqI bs' assms by blast
  ultimately show ?thesis using t T(3) bs' bytes tryParse_iff [of s x] by (auto split: if_splits)
qed

theorem mac_text_roundtrip_witness:
  "\<exists>t. mac_str 0x0180C2000001 = Inr t \<and> tryParse (Some t) 0 = Inr (True, 0x0180C2000001)"
  using mac_text_roundtrip [of "0x0180C2000001" 0 "[]" "[]"] by (auto simp: MAC_ADDRESS_MASK_def)

section \<open>Derived addresses\<close>

lemma mac_multicast_bit: "mac_isMulticast a \<longleftrightarrow> bit a 40"
proof -
  obtain b where b: "getAddressByte 0 a = Inr b" using getAddressByte_ok [of 0 a] by auto
  have "b AND 1 \<noteq> 0 \<longleftrightarrow> bit b 0" by (simp add: bit_0 and_one_eq odd_iff_mod_2_eq_one)
  with b bit_getAddressByte [of 0 a b 0] show ?thesis by (simp add: mac_isMulticast_def)
qed

lemma unat_auto_address: "unat (fst (generateAutoAddress c)) = 0x0AAA00000000 + unat (c + 1)"
proof -
  have m: "(0xffffffff :: uint64) = mask 32" "MAC_ADDRESS_MASK = mask 48"
    by (simp_all add: MAC_ADDRESS_MASK_def mask_eq_exp_minus_1)
  have c: "unat (c + 1) < 2 ^ 32" using unsigned_less [of "c + 1"] by simp
  have u: "unat (ucast (c + 1) AND mask 32 :: uint64) = unat (c + 1)"
    using c by (simp add: unsigned_ucast_eq unsigned_and_eq flip: take_bit_eq_mask)
      (simp add: take_bit_eq_mod unat_mod unsigned_ucast_eq)
  then have "unat (0x0AAA00000000 + (ucast (c + 1) AND mask 32) :: uint64) = 0x0AAA00000000 + unat (c + 1)"
    using c by (subst unat_plus_if') simp
  then show ?thesis
    using c unfolding generateAutoAddress_def MacAddress_bits_def m Let_def fst_conv
    by (simp only: unsigned_take_bit_eq take_bit_eq_mask [symmetric]) (simp add: take_bit_eq_mod)
qed

lemma auto_not_multicast: "\<not> mac_isMulticast (fst (generateAutoAddress c))"
proof -
  have "unat (c + 1) < 2 ^ 32" using unsigned_less [of "c + 1"] by simp
  then have "(0x0AAA00000000 + unat (c + 1)) div 2 ^ 40 = 10" by simp
  then have "\<not> bit (unat (fst (generateAutoAddress c))) 40" by (simp add: unat_auto_address bit_iff_odd)
  then show ?thesis by (simp add: mac_multicast_bit bit_unsigned_iff)
qed

lemma getDByte_word: "of_int (getDByte a i) = (ucast (drop_bit ((3 - i) * 8) a) :: uint8)"
proof -
  have m: "(0xff :: uint32) = mask 8" by (simp add: mask_eq_exp_minus_1)
  show ?thesis unfolding getDByte_def m by (rule bit_word_eqI) (simp add: bit_simps)
qed

lemma multicast_bytes:
  assumes "isMulticast a"
  shows "\<exists>x. makeMulticastAddress a = Inr x \<and> getAddressBytes x = Inr [0x01, 0x00, 0x5e,
      of_int (getDByte a 1 AND 0x7f), of_int (getDByte a 2), of_int (getDByte a 3)]"
proof -
  let ?bs = "[0x01, 0x00, 0x5e, of_int (getDByte a 1 AND 0x7f), of_int (getDByte a 2), of_int (getDByte a 3)] :: uint8 list"
  have "put_bytes [0..<6] ?bs 0 = makeMulticastAddress a"
    using assms by (simp add: upt_6 makeMulticastAddress_def del: One_nat_def) (simp add: setAddressByte_def Let_def)
  with bit_put_bytes [of ?bs] show ?thesis using getAddressBytes_nth [of _ ?bs] by auto
qed

text \<open>A group address determines the MAC address by its lower 23 bits.\<close>

lemma multicast_low_bits:
  assumes "isMulticast a" and "isMulticast b"
  shows "makeMulticastAddress a = makeMulticastAddress b \<longleftrightarrow> a AND 0x7FFFFF = b AND 0x7FFFFF"
proof -
  have m: "(0x7FFFFF :: uint32) = mask 23" "(0x7f :: int) = mask 7" "(0x7f :: uint8) = mask 7"
    "(0xff :: uint32) = mask 8" by (simp_all add: mask_eq_exp_minus_1)
  have b1: "(of_int (getDByte x 1 AND 0x7f) :: uint8) = ucast (drop_bit 16 x) AND 0x7f" for x
    unfolding getDByte_def m by (rule bit_word_eqI) (auto simp: bit_simps)
  obtain x where x: "makeMulticastAddress a = Inr x" "getAddressBytes x = Inr [0x01, 0x00, 0x5e,
      of_int (getDByte a 1 AND 0x7f), of_int (getDByte a 2), of_int (getDByte a 3)]" using multicast_bytes [OF assms(1)] by blast
  obtain y where y: "makeMulticastAddress b = Inr y" "getAddressBytes y = Inr [0x01, 0x00, 0x5e,
      of_int (getDByte b 1 AND 0x7f), of_int (getDByte b 2), of_int (getDByte b 3)]" using multicast_bytes [OF assms(2)] by blast
  show ?thesis
  proof
    assume "makeMulticastAddress a = makeMulticastAddress b"
    with x y have eq: "ucast (drop_bit 16 a) AND 0x7f = (ucast (drop_bit 16 b) AND 0x7f :: uint8)"
      "ucast (drop_bit 8 a) = (ucast (drop_bit 8 b) :: uint8)" "ucast a = (ucast b :: uint8)"
      by (auto simp: b1 getDByte_word simp del: One_nat_def)
    have bits: "bit a (16 + i) = bit b (16 + i)" if "i < 7" for i
      using eq(1) that unfolding m by (auto simp: bit_eq_iff bit_simps dest!: spec [of _ i])
    have bits2: "bit a (8 + i) = bit b (8 + i)" "bit a i = bit b i" if "i < 8" for i
      using eq(2,3) that by (auto simp: bit_eq_iff bit_simps dest!: spec [of _ i])
    have "bit a n = bit b n" if "n < 23" for n
      by (rule byte_cases [of n]) (use bits [of "n - 16"] bits2 [of "n - 8"] bits2 [of n] that in auto)
    then show "a AND 0x7FFFFF = b AND 0x7FFFFF" unfolding m by (intro bit_word_eqI) (auto simp: bit_simps)
  next
    assume "a AND 0x7FFFFF = b AND 0x7FFFFF"
    then have n: "bit a n = bit b n" if "n < 23" for n
      using that unfolding m by (auto simp: bit_eq_iff bit_simps dest!: spec [of _ n])
    have "(ucast (drop_bit 16 a) AND 0x7f :: uint8) = ucast (drop_bit 16 b) AND 0x7f"
      unfolding m by (rule bit_word_eqI) (auto simp: bit_simps n)
    moreover have "(ucast (drop_bit 8 a) :: uint8) = ucast (drop_bit 8 b)" "(ucast a :: uint8) = ucast b"
      by (rule bit_word_eqI, simp add: bit_simps n)+
    ultimately show "makeMulticastAddress a = makeMulticastAddress b"
      using assms by (simp add: makeMulticastAddress_def b1 getDByte_word del: One_nat_def)
  qed
qed

lemma eui64:
  assumes "getAddressBytes m = Inr [b0, b1, b2, b3, b4, b5]"
  shows "formInterfaceIdentifier m = \<lparr>
     token_normal = push_bit 24 (ucast (b0 XOR 2)) OR push_bit 16 (ucast b1) OR push_bit 8 (ucast b2) OR 0xff,
     token_low = push_bit 24 0xfe OR push_bit 16 (ucast b3) OR push_bit 8 (ucast b4) OR ucast b5, token_len = 64\<rparr>"
proof -
  have B: "bit m ((5 - k) * 8 + i) \<longleftrightarrow> bit ([b0, b1, b2, b3, b4, b5] ! k) i" if "k < 6" "i < 8" for k i
    using assms that by (simp add: getAddressBytes_nth)
  have M: "bit m (40 + i) = bit b0 i" "bit m (32 + i) = bit b1 i" "bit m (24 + i) = bit b2 i"
    "bit m (16 + i) = bit b3 i" "bit m (8 + i) = bit b4 i" "bit m i = bit b5 i" if "i < 8" for i
    using that B [of 0 i] B [of 1 i] B [of 2 i] B [of 3 i] B [of 4 i] B [of 5 i] by simp_all
  have c: "(0xff :: uint64) = mask 8" "(0xff :: uint32) = mask 8" "(0xffffff :: uint64) = mask 24"
    by (simp_all add: mask_eq_exp_minus_1)
  have e: "bit (0x02000000 :: int) n \<longleftrightarrow> n = 25" "bit (2 :: int) n \<longleftrightarrow> n = 1" for n
    using bit_exp_iff [of 25 n, where 'a = int] bit_exp_iff [of 1 n, where 'a = int] by auto
  have L: "8 \<le> k \<Longrightarrow> \<not> bit (b :: uint8) k" for b k using bit_imp_le_length [of b k] by auto
  have "ucast ((drop_bit 16 m OR 0xff) XOR 0x02000000)
      = push_bit 24 (ucast (b0 XOR 2)) OR push_bit 16 (ucast b1) OR push_bit 8 (ucast b2) OR (0xff :: uint32)"
    unfolding c
    apply (rule bit_word_eqI)
    subgoal for n
      by (rule byte_cases [of n])
        (use M(1) [of "n - 24"] M(2) [of "n - 16"] M(3) [of "n - 8"] in \<open>auto simp: bit_simps e L\<close>)
    done
  moreover have "ucast (push_bit 24 0xfe OR (m AND 0xffffff))
      = push_bit 24 0xfe OR push_bit 16 (ucast b3) OR push_bit 8 (ucast b4) OR (ucast b5 :: uint32)"
    unfolding c
    apply (rule bit_word_eqI)
    subgoal for n
      by (rule byte_cases [of n])
        (use M(4) [of "n - 16"] M(5) [of "n - 8"] M(6) [of n] in \<open>auto simp: bit_simps L\<close>)
    done
  ultimately show ?thesis by (simp add: formInterfaceIdentifier_def Let_def)
qed

text \<open>
  Derived addresses: automatically generated addresses are unicast 48-bit addresses, different for
  different values of the 32-bit counter; the MAC address of an IPv4 group is a multicast address
  with the prefix 01-00-5E, the same for two groups exactly when their lower 23 bits agree, and the
  assertion refuses other addresses; the interface identifier is the modified EUI-64 form of the
  address (FF-FE inserted in the middle, universal/local bit inverted).
\<close>

theorem mac_derived_addresses:
  "(fst (generateAutoAddress c) = fst (generateAutoAddress d) \<longleftrightarrow> c = d)
   \<and> \<not> mac_isMulticast (fst (generateAutoAddress c)) \<and> unat (fst (generateAutoAddress c)) < 2 ^ 48
   \<and> snd (generateAutoAddress c) = c + 1
   \<and> (\<not> isMulticast a \<longrightarrow> makeMulticastAddress a = Inl AssertionFailed)
   \<and> (isMulticast a \<and> isMulticast b \<longrightarrow>
        (\<exists>x. makeMulticastAddress a = Inr x \<and> mac_isMulticast x
           \<and> getAddressBytes x = Inr [0x01, 0x00, 0x5e, of_int (getDByte a 1 AND 0x7f), of_int (getDByte a 2), of_int (getDByte a 3)])
      \<and> (makeMulticastAddress a = makeMulticastAddress b \<longleftrightarrow> a AND 0x7FFFFF = b AND 0x7FFFFF))
   \<and> (getAddressBytes m = Inr [b0, b1, b2, b3, b4, b5] \<longrightarrow> formInterfaceIdentifier m = \<lparr>
        token_normal = push_bit 24 (ucast (b0 XOR 2)) OR push_bit 16 (ucast b1) OR push_bit 8 (ucast b2) OR 0xff,
        token_low = push_bit 24 0xfe OR push_bit 16 (ucast b3) OR push_bit 8 (ucast b4) OR ucast b5, token_len = 64\<rparr>)"
proof -
  have "c = d" if "fst (generateAutoAddress c) = fst (generateAutoAddress d)"
    using arg_cong [OF that, of unat] unfolding unat_auto_address
    by (metis add_left_imp_eq add_right_imp_eq word_unat_eq_iff)
  moreover have "unat (fst (generateAutoAddress c)) < 2 ^ 48"
    using unsigned_less [of "c + 1", where 'a = nat] by (simp add: unat_auto_address)
  moreover have "mac_isMulticast x" if "getAddressBytes x = Inr (0x01 # bs)" for x bs
    using that by (auto simp: mac_multicast_bit getAddressBytes_nth dest!: spec [of _ 0])
  ultimately show ?thesis
    using auto_not_multicast [of c] multicast_bytes [of a] multicast_low_bits [of a b] eui64 [of m b0 b1 b2 b3 b4 b5]
    by (auto simp: generateAutoAddress_def Let_def makeMulticastAddress_def [of a])
qed

theorem mac_derived_addresses_witness:
  "isMulticast 0xE0000001 \<and> isMulticast 0xE0800001
     \<and> makeMulticastAddress 0xE0000001 = makeMulticastAddress 0xE0800001
     \<and> makeMulticastAddress 0x0A000001 = Inl AssertionFailed"
proof -
  have "isMulticast 0xE0000001" "isMulticast 0xE0800001" "\<not> isMulticast 0x0A000001"
    by (simp_all add: isMulticast_def)
  then show ?thesis
    using mac_derived_addresses [of 0 0 "0xE0000001" "0xE0800001" 0 0 0 0 0 0 0]
      mac_derived_addresses [of 0 0 "0x0A000001" "0xE0800001" 0 0 0 0 0 0 0] by simp
qed

end
