(* ===== verification/MacTable.thy ===== *)
theory MacTable
  imports MacAddr "HOL-Library.AList"
begin

text \<open>
  The address table of an Ethernet switch (\<open>linklayer/ethernet/switch/MacAddressTable\<close> of the INET
  framework). The tables of the VLANs are objects on the heap: \<open>addressTable\<close> points to the one of
  VLAN 0, and \<open>vlanAddressTable\<close> points to all of them. The heap is a list of tables, a pointer an
  index into it, a deleted object \<open>None\<close>; following a dangling pointer is an error. A \<open>std::map\<close> is an
  association list with distinct keys. The clock is the argument \<open>now\<close>; \<open>sec\<close> is one second in units of
  the simulation time.
\<close>

section \<open>State\<close>

record AddressEntry =
  vid :: uint32
  portno :: int
  insertionTime :: simtime

type_synonym AddressTable = "(MacAddress \<times> AddressEntry) list"

record MacAddressTable =
  agingTime :: simtime
  lastPurge :: simtime
  addressTable :: "nat option"
  vlanAddressTable :: "(uint32 \<times> nat) list"
  heap :: "AddressTable option list"

text \<open>\<open>*p\<close>\<close>

definition deref :: "AddressTable option list \<Rightarrow> nat \<Rightarrow> error + AddressTable" where
  "deref h p = (if p < length h then case h ! p of Some table \<Rightarrow> Inr table | None \<Rightarrow> Inl NullDereference
                else Inl NullDereference)"

text \<open>A loop over all tables: \<open>for (auto & elem : vlanAddressTable)\<close> with \<open>*elem.second\<close> updated.\<close>

fun for_tables :: "(AddressTable \<Rightarrow> AddressTable) \<Rightarrow> (uint32 \<times> nat) list \<Rightarrow> AddressTable option list
    \<Rightarrow> error + AddressTable option list" where
  "for_tables f [] h = Inr h"
| "for_tables f (elem # rest) h =
     ebind (deref h (snd elem)) (\<lambda>table. for_tables f rest (h[snd elem := Some (f table)]))"

definition MacAddressTable_new :: MacAddressTable where
  "MacAddressTable_new = \<lparr>agingTime = 0, lastPurge = 0, addressTable = Some 0,
     vlanAddressTable = [(0, 0)], heap = [Some []]\<rparr>"

section \<open>Lookup and learning\<close>

definition getTableForVid :: "uint32 \<Rightarrow> MacAddressTable \<Rightarrow> nat option" where
  "getTableForVid v t = (if v = 0 then addressTable t else map_of (vlanAddressTable t) v)"

definition aged :: "simtime \<Rightarrow> MacAddressTable \<Rightarrow> AddressEntry \<Rightarrow> bool" where
  "aged now t e \<longleftrightarrow> insertionTime e + agingTime t \<le> now"

definition getPortForAddress :: "simtime \<Rightarrow> MacAddress \<Rightarrow> uint32 \<Rightarrow> MacAddressTable \<Rightarrow> error + int \<times> MacAddressTable" where
  "getPortForAddress now address v t =
     (case getTableForVid v t of
        None \<Rightarrow> Inr (- 1, t)
      | Some p \<Rightarrow> ebind (deref (heap t) p) (\<lambda>table.
          case map_of table address of
            None \<Rightarrow> Inr (- 1, t)
          | Some e \<Rightarrow>
              if aged now t e then Inr (- 1, t\<lparr>heap := (heap t)[p := Some (AList.delete address table)]\<rparr>)
              else Inr (portno e, t)))"

definition removeAgedEntriesFromVlan :: "simtime \<Rightarrow> uint32 \<Rightarrow> MacAddressTable \<Rightarrow> error + MacAddressTable" where
  "removeAgedEntriesFromVlan now v t =
     (case getTableForVid v t of
        None \<Rightarrow> Inr t
      | Some p \<Rightarrow> ebind (deref (heap t) p) (\<lambda>table.
          Inr (t\<lparr>heap := (heap t)[p := Some (filter (\<lambda>(a, e). \<not> aged now t e) table)]\<rparr>)))"

definition removeAgedEntriesFromAllVlans :: "simtime \<Rightarrow> MacAddressTable \<Rightarrow> error + MacAddressTable" where
  "removeAgedEntriesFromAllVlans now t =
     ebind (for_tables (filter (\<lambda>(a, e). \<not> aged now t e)) (vlanAddressTable t) (heap t)) (\<lambda>h. Inr (t\<lparr>heap := h\<rparr>))"

definition removeAgedEntriesIfNeeded :: "simtime \<Rightarrow> simtime \<Rightarrow> MacAddressTable \<Rightarrow> error + MacAddressTable" where
  "removeAgedEntriesIfNeeded sec now t =
     ebind (if now \<ge> lastPurge t + sec then removeAgedEntriesFromAllVlans now t else Inr t)
       (\<lambda>t. Inr (t\<lparr>lastPurge := now\<rparr>))"

definition updateTableWithAddress ::
  "simtime \<Rightarrow> simtime \<Rightarrow> int \<Rightarrow> MacAddress \<Rightarrow> uint32 \<Rightarrow> MacAddressTable \<Rightarrow> error + bool \<times> MacAddressTable" where
  "updateTableWithAddress sec now port address v t =
     (if mac_isMulticast address then Inr (False, t)
      else let (p, t) =
             (case getTableForVid v t of
                None \<Rightarrow>
                  let p = length (heap t);
                      t = t\<lparr>heap := heap t @ [Some []]\<rparr>;
                      t = (if v = 0 then t\<lparr>addressTable := Some p\<rparr> else t)
                  in (p, t\<lparr>vlanAddressTable := AList.update v p (vlanAddressTable t)\<rparr>)
              | Some p \<Rightarrow> (p, t))
      in ebind (deref (heap t) p) (\<lambda>table.
        case map_of table address of
          None \<Rightarrow>
            ebind (removeAgedEntriesIfNeeded sec now t) (\<lambda>t.
            ebind (deref (heap t) p) (\<lambda>table.
              Inr (False, t\<lparr>heap := (heap t)[p := Some
                 (AList.update address \<lparr>vid = v, portno = port, insertionTime = now\<rparr> table)]\<rparr>)))
        | Some entry \<Rightarrow>
            Inr (True, t\<lparr>heap := (heap t)[p := Some
               (AList.update address (entry\<lparr>insertionTime := now, portno := port\<rparr>) table)]\<rparr>)))"

definition flush :: "int \<Rightarrow> MacAddressTable \<Rightarrow> error + MacAddressTable" where
  "flush port t =
     ebind (for_tables (filter (\<lambda>(a, e). portno e \<noteq> port)) (vlanAddressTable t) (heap t)) (\<lambda>h. Inr (t\<lparr>heap := h\<rparr>))"

definition copyTable :: "int \<Rightarrow> int \<Rightarrow> MacAddressTable \<Rightarrow> error + MacAddressTable" where
  "copyTable portA portB t =
     ebind (for_tables (map (\<lambda>(a, e). (a, if portno e = portA then e\<lparr>portno := portB\<rparr> else e)))
              (vlanAddressTable t) (heap t))
       (\<lambda>h. Inr (t\<lparr>heap := h\<rparr>))"

text \<open>\<open>delete elem.second\<close> for every table; deleting twice is an error.\<close>

fun delete_tables :: "(uint32 \<times> nat) list \<Rightarrow> AddressTable option list \<Rightarrow> error + AddressTable option list" where
  "delete_tables [] h = Inr h"
| "delete_tables (elem # rest) h =
     ebind (deref h (snd elem)) (\<lambda>table. delete_tables rest (h[snd elem := None]))"

definition clearTable :: "MacAddressTable \<Rightarrow> error + MacAddressTable" where
  "clearTable t =
     ebind (delete_tables (vlanAddressTable t) (heap t))
       (\<lambda>h. Inr (t\<lparr>heap := h, vlanAddressTable := [], addressTable := None\<rparr>))"

definition MacAddressTable_destroy :: "MacAddressTable \<Rightarrow> error + AddressTable option list" where
  "MacAddressTable_destroy t = delete_tables (vlanAddressTable t) (heap t)"

definition setAgingTime :: "simtime \<Rightarrow> MacAddressTable \<Rightarrow> MacAddressTable" where
  "setAgingTime time t = t\<lparr>agingTime := time\<rparr>"

definition resetDefaultAging :: "simtime \<Rightarrow> MacAddressTable \<Rightarrow> MacAddressTable" where
  "resetDefaultAging par_agingTime t = t\<lparr>agingTime := par_agingTime\<rparr>"

section \<open>Reading a table from a file\<close>

definition MAX_LINE :: nat where
  "MAX_LINE = 100"

text \<open>
  \<open>fgets\<close> reads up to \<open>MAX_LINE - 1\<close> characters and not beyond a newline; \<open>fgetline\<close> chops the line
  terminators.
\<close>

fun fgets :: "nat \<Rightarrow> string \<Rightarrow> string \<times> string" where
  "fgets 0 s = ([], s)"
| "fgets (Suc n) [] = ([], [])"
| "fgets (Suc n) (c # s) =
     (if c = CHR 0x0A then ([c], s) else let (line, rest) = fgets n s in (c # line, rest))"

lemma length_fgets: "length (snd (fgets n s)) \<le> length s"
  by (induction n s rule: fgets.induct) (auto simp: Let_def split: prod.splits)

lemma length_fgets_Suc: "length (snd (fgets (Suc n) (c # s))) \<le> length s"
  using length_fgets [of n s] by (auto simp: Let_def split: prod.splits)

definition chop :: "string \<Rightarrow> string" where
  "chop line = rev (dropWhile (\<lambda>c. c = CHR 0x0A \<or> c = CHR 0x0D) (rev line))"

definition fgetline :: "string \<Rightarrow> (string \<times> string) option" where
  "fgetline s = (if s = [] then None else let (line, rest) = fgets (MAX_LINE - 1) s in Some (chop line, rest))"

lemma fgetline_less: "fgetline s = Some (line, rest) \<Longrightarrow> length rest < length s"
proof (cases s)
  case (Cons c s')
  assume "fgetline s = Some (line, rest)"
  then have "rest = snd (fgets (Suc 98) (c # s'))"
    by (auto simp: Cons fgetline_def MAX_LINE_def Let_def split: prod.splits)
  then show ?thesis using length_fgets_Suc [of 98 c s'] by (simp only: Cons list.size)
qed (simp add: fgetline_def)

text \<open>The tokens \<open>strtok\<close> finds with the separators space and tab.\<close>

definition is_blank :: "char \<Rightarrow> bool" where
  "is_blank c \<longleftrightarrow> c = CHR '' '' \<or> c = CHR 0x09"

function tokens :: "string \<Rightarrow> string list" where
  "tokens s =
     (case dropWhile is_blank s of
        [] \<Rightarrow> []
      | c # s' \<Rightarrow> (c # takeWhile (\<lambda>c. \<not> is_blank c) s') # tokens (dropWhile (\<lambda>c. \<not> is_blank c) s'))"
  by auto
termination
proof (relation "measure length")
  fix s c and s' :: string
  assume "dropWhile is_blank s = c # s'"
  moreover have "length (dropWhile (\<lambda>c. \<not> is_blank c) s') \<le> length s'" by (rule length_dropWhile_le)
  ultimately show "(dropWhile (\<lambda>c. \<not> is_blank c) s', s) \<in> measure length"
    using length_dropWhile_le [of is_blank s] by simp
qed simp

declare tokens.simps [simp del]

text \<open>\<open>atoi\<close>: white space, a sign, digits; a value outside the range of \<open>int\<close> is undefined.\<close>

definition atoi :: "string \<Rightarrow> error + int" where
  "atoi s =
     (let s = dropWhile (\<lambda>c. c = CHR '' '' \<or> 9 \<le> (of_char c :: nat) \<and> (of_char c :: nat) \<le> 13) s;
          (sign, s) = (case s of c # s' \<Rightarrow> if c = CHR ''-'' then (- 1, s') else if c = CHR ''+'' then (1, s') else (1, s)
                       | [] \<Rightarrow> (1, s));
          n = sign * foldl (\<lambda>n c. 10 * n + (of_char c - 48)) 0 (takeWhile is_digit s)
      in if int32 n then Inr n else Inl SignedOverflow)"

definition read_line :: "string \<Rightarrow> MacAddressTable \<Rightarrow> error + MacAddressTable" where
  "read_line line t =
     (if line \<noteq> [] \<and> hd line = CHR ''#'' then Inr t
      else case tokens line of
        [] \<Rightarrow> Inr t
      | vlanID # hexaddress # port # _ \<Rightarrow>
          ebind (atoi vlanID) (\<lambda>v. ebind (atoi port) (\<lambda>port.
            let entry = \<lparr>vid = of_int v, portno = port, insertionTime = 0\<rparr>;
                (p, t) = (case getTableForVid (vid entry) t of
                    None \<Rightarrow>
                      let p = length (heap t); t = t\<lparr>heap := heap t @ [Some []]\<rparr>
                      in (p, t\<lparr>vlanAddressTable := AList.update (vid entry) p (vlanAddressTable t)\<rparr>)
                  | Some p \<Rightarrow> (p, t))
            in ebind (setAddress (Some hexaddress) 0) (\<lambda>address.
               ebind (deref (heap t) p) (\<lambda>table.
                 Inr (t\<lparr>heap := (heap t)[p := Some (AList.update address entry table)]\<rparr>)))))
      | _ \<Rightarrow> Inl RuntimeError)"

function read_lines :: "string \<Rightarrow> MacAddressTable \<Rightarrow> error + MacAddressTable" where
  "read_lines s t =
     (case fgetline s of
        None \<Rightarrow> Inr t
      | Some (line, rest) \<Rightarrow> ebind (read_line line t) (read_lines rest))"
  by auto
termination
  by (relation "measure (\<lambda>(s, t). length s)") (auto dest!: fgetline_less)

declare read_lines.simps [simp del]

text \<open>\<open>file\<close> is the contents of the file, \<open>None\<close> when it cannot be opened.\<close>

definition readAddressTable :: "string option \<Rightarrow> MacAddressTable \<Rightarrow> error + MacAddressTable" where
  "readAddressTable file t = (case file of None \<Rightarrow> Inl RuntimeError | Some s \<Rightarrow> read_lines s t)"

definition MacAddressTable_initialize ::
  "simtime \<Rightarrow> string \<Rightarrow> (string \<Rightarrow> string option) \<Rightarrow> MacAddressTable \<Rightarrow> error + MacAddressTable" where
  "MacAddressTable_initialize par_agingTime addressTableFile fopen t =
     (let t = t\<lparr>agingTime := par_agingTime, lastPurge := 0\<rparr>
      in if addressTableFile \<noteq> [] then readAddressTable (fopen addressTableFile) t else Inr t)"

section \<open>Invariant and view\<close>

definition pointers :: "MacAddressTable \<Rightarrow> nat list" where
  "pointers t = map snd (vlanAddressTable t)"

definition table_at :: "AddressTable option list \<Rightarrow> nat \<Rightarrow> AddressTable option" where
  "table_at h p = (if p < length h then h ! p else None)"

definition mt_wf :: "MacAddressTable \<Rightarrow> bool" where
  "mt_wf t \<longleftrightarrow> distinct (map fst (vlanAddressTable t)) \<and> distinct (pointers t)
     \<and> (\<forall>p\<in>set (pointers t). \<exists>table. table_at (heap t) p = Some table \<and> distinct (map fst table))
     \<and> addressTable t = map_of (vlanAddressTable t) 0"

definition tables :: "MacAddressTable \<Rightarrow> uint32 \<Rightarrow> AddressTable option" where
  "tables t v = Option.bind (map_of (vlanAddressTable t) v) (table_at (heap t))"

definition entry_at :: "MacAddressTable \<Rightarrow> uint32 \<Rightarrow> MacAddress \<Rightarrow> AddressEntry option" where
  "entry_at t v a = Option.bind (tables t v) (\<lambda>table. map_of table a)"

text \<open>The port an address is known at, at time \<open>u\<close>.\<close>

definition known :: "MacAddressTable \<Rightarrow> simtime \<Rightarrow> uint32 \<Rightarrow> MacAddress \<Rightarrow> int option" where
  "known t u v a = (case entry_at t v a of Some e \<Rightarrow> if aged u t e then None else Some (portno e) | None \<Rightarrow> None)"

lemma deref_table_at: "deref h p = Inr table \<longleftrightarrow> table_at h p = Some table"
  by (auto simp: deref_def table_at_def split: option.splits)

lemma deref_ok: "mt_wf t \<Longrightarrow> p \<in> set (pointers t) \<Longrightarrow> \<exists>table. deref (heap t) p = Inr table \<and> distinct (map fst table)"
  by (auto simp: mt_wf_def deref_table_at)

lemma table_at_update: "p < length h \<Longrightarrow> table_at (h[p := x]) q = (if q = p then x else table_at h q)"
  by (simp add: table_at_def)

lemma map_of_pointer: "map_of (vlanAddressTable t) v = Some p \<Longrightarrow> p \<in> set (pointers t)"
  by (force simp: pointers_def dest: map_of_SomeD)

lemma pointer_inj:
  assumes "distinct (map snd xs)" and "map_of xs v = Some p" and "map_of xs w = Some p"
  shows "v = w"
  using assms by (metis distinct_map inj_onD map_of_SomeD snd_conv fst_conv)

lemma getTableForVid_map: "mt_wf t \<Longrightarrow> getTableForVid v t = map_of (vlanAddressTable t) v"
  by (simp add: getTableForVid_def mt_wf_def)

text \<open>Replacing the table of one VLAN changes that VLAN only.\<close>

lemma put_table:
  assumes wf: "mt_wf t" and v: "map_of (vlanAddressTable t) v = Some p" and d: "distinct (map fst table')"
  shows "mt_wf (t\<lparr>heap := (heap t)[p := Some table']\<rparr>)"
    and "tables (t\<lparr>heap := (heap t)[p := Some table']\<rparr>) w = (if w = v then Some table' else tables t w)"
proof -
  have p: "p \<in> set (pointers t)" using map_of_pointer [OF v] .
  then have len: "p < length (heap t)" using wf by (auto simp: mt_wf_def table_at_def split: if_splits)
  show "mt_wf (t\<lparr>heap := (heap t)[p := Some table']\<rparr>)"
    using wf d by (auto simp: mt_wf_def pointers_def table_at_update [OF len])
  have "q \<noteq> p" if "w \<noteq> v" "map_of (vlanAddressTable t) w = Some q" for q
    using pointer_inj [of "vlanAddressTable t" v p w] that v wf by (auto simp: mt_wf_def pointers_def)
  then show "tables (t\<lparr>heap := (heap t)[p := Some table']\<rparr>) w = (if w = v then Some table' else tables t w)"
    using v by (cases "map_of (vlanAddressTable t) w") (auto simp: tables_def table_at_update [OF len])
qed

text \<open>A loop over all tables applies the function to the table of every VLAN.\<close>

lemma for_tables_heap:
  assumes "distinct (map snd xs)" and "\<forall>p\<in>set (map snd xs). \<exists>table. table_at h p = Some table"
  shows "\<exists>h'. for_tables f xs h = Inr h' \<and> length h' = length h
     \<and> (\<forall>p. table_at h' p = (if p \<in> set (map snd xs) then map_option f (table_at h p) else table_at h p))"
  using assms
proof (induction xs arbitrary: h)
  case (Cons x xs)
  from Cons.prems obtain table where t: "table_at h (snd x) = Some table" by auto
  then have len: "snd x < length h" by (simp add: table_at_def split: if_splits)
  let ?h = "h[snd x := Some (f table)]"
  from Cons.prems have "\<forall>p\<in>set (map snd xs). \<exists>table. table_at ?h p = Some table"
    by (auto simp: table_at_update [OF len])
  from Cons.IH [OF _ this] Cons.prems obtain h' where "for_tables f xs ?h = Inr h'" "length h' = length h"
    "\<forall>p. table_at h' p = (if p \<in> set (map snd xs) then map_option f (table_at ?h p) else table_at ?h p)" by auto
  moreover have "deref h (snd x) = Inr table" using t by (simp add: deref_table_at)
  ultimately show ?case using Cons.prems t by (auto simp: table_at_update [OF len])
qed simp

lemma for_all_tables:
  assumes wf: "mt_wf t" and d: "\<And>table. distinct (map fst table) \<Longrightarrow> distinct (map fst (f table))"
  obtains h where "for_tables f (vlanAddressTable t) (heap t) = Inr h" and "mt_wf (t\<lparr>heap := h\<rparr>)"
    and "\<And>v. tables (t\<lparr>heap := h\<rparr>) v = map_option f (tables t v)"
proof -
  from wf have "distinct (map snd (vlanAddressTable t))"
    "\<forall>p\<in>set (map snd (vlanAddressTable t)). \<exists>table. table_at (heap t) p = Some table"
    by (auto simp: mt_wf_def pointers_def)
  from for_tables_heap [OF this, of f] obtain h where h: "for_tables f (vlanAddressTable t) (heap t) = Inr h"
    "\<forall>p. table_at h p = (if p \<in> set (pointers t) then map_option f (table_at (heap t) p) else table_at (heap t) p)"
    by (auto simp: pointers_def)
  have "mt_wf (t\<lparr>heap := h\<rparr>)" using wf h(2) d by (fastforce simp: mt_wf_def pointers_def)
  moreover have "tables (t\<lparr>heap := h\<rparr>) v = map_option f (tables t v)" for v
    using h(2) map_of_pointer [of t v] by (cases "map_of (vlanAddressTable t) v") (auto simp: tables_def)
  ultimately show thesis using that h(1) by blast
qed

lemma map_of_filter_value:
  "distinct (map fst xs) \<Longrightarrow>
     map_of (filter (\<lambda>(k, e). P e) xs) k = (case map_of xs k of Some e \<Rightarrow> if P e then Some e else None | None \<Rightarrow> None)"
proof (induction xs)
  case (Cons x xs)
  then have "map_of (filter (\<lambda>(k, e). P e) xs) (fst x) = None"
    by (auto simp: map_of_eq_None_iff)
  with Cons show ?case by (cases x) auto
qed simp

lemma distinct_filter_keys: "distinct (map fst xs) \<Longrightarrow> distinct (map fst (filter P xs))"
  by (induction xs) auto

lemma tables_distinct: "mt_wf t \<Longrightarrow> tables t v = Some table \<Longrightarrow> distinct (map fst table)"
  using map_of_pointer [of t v] by (fastforce simp: tables_def mt_wf_def split: bind_splits)

text \<open>What is known after a loop that filters or changes the entries of all tables.\<close>

lemma known_filter:
  assumes "mt_wf t" and "\<And>v. tables t' v = map_option (filter (\<lambda>(a, e). P e)) (tables t v)" and "agingTime t' = agingTime t"
  shows "known t' u v a = (case entry_at t v a of Some e \<Rightarrow> if P e \<and> \<not> aged u t e then Some (portno e) else None | None \<Rightarrow> None)"
  using tables_distinct [OF assms(1), of v]
  by (cases "tables t v")
    (auto simp: known_def entry_at_def assms(2) map_of_filter_value aged_def assms(3) split: option.splits)

lemma known_map:
  assumes "\<And>v. tables t' v = map_option (map (\<lambda>(a, e). (a, f e))) (tables t v)" and "agingTime t' = agingTime t"
    and "\<And>e. insertionTime (f e) = insertionTime e"
  shows "known t' u v a = (case entry_at t v a of Some e \<Rightarrow> if aged u t e then None else Some (portno (f e)) | None \<Rightarrow> None)"
  by (cases "tables t v")
    (auto simp: known_def entry_at_def assms aged_def map_of_map split: option.splits)

lemma known_put:
  assumes "\<And>w. tables t' w = (if w = v then Some table' else tables t w)" and "agingTime t' = agingTime t"
  shows "known t' u w a = (if w = v then case map_of table' a of Some e \<Rightarrow> if aged u t e then None else Some (portno e) | None \<Rightarrow> None
     else known t u w a)"
  by (auto simp: known_def entry_at_def assms aged_def split: option.splits)

section \<open>Operations\<close>

lemma getPortForAddress_spec:
  assumes wf: "mt_wf t"
  shows "\<exists>t'. getPortForAddress now a v t = Inr (case known t now v a of Some port \<Rightarrow> port | None \<Rightarrow> - 1, t')
     \<and> mt_wf t' \<and> (\<forall>u\<ge>now. known t' u = known t u)"
proof (cases "map_of (vlanAddressTable t) v")
  case None
  then show ?thesis using wf by (simp add: getPortForAddress_def getTableForVid_map known_def entry_at_def tables_def)
next
  case (Some p)
  obtain table where d: "deref (heap t) p = Inr table" "distinct (map fst table)"
    using deref_ok [OF wf map_of_pointer [OF Some]] by blast
  then have tab: "tables t v = Some table" using Some by (simp add: tables_def deref_table_at)
  show ?thesis
  proof (cases "map_of table a")
    case None
    then show ?thesis using wf Some d tab by (simp add: getPortForAddress_def getTableForVid_map known_def entry_at_def)
  next
    case (Some e)
    let ?t = "t\<lparr>heap := (heap t)[p := Some (AList.delete a table)]\<rparr>"
    have dd: "distinct (map fst (AList.delete a table))" using d(2) by (rule distinct_delete)
    note P = put_table [OF wf \<open>map_of (vlanAddressTable t) v = Some p\<close> dd]
    have "known ?t u = known t u" if "aged now t e" "now \<le> u" for u
    proof (intro ext)
      fix w b
      have "aged u t e" using that by (simp add: aged_def)
      then show "known ?t u w b = known t u w b"
        using known_put [of ?t v "AList.delete a table" t u w b] P(2) tab Some
        by (auto simp: delete_conv' known_def entry_at_def)
    qed
    then show ?thesis
      using wf \<open>map_of (vlanAddressTable t) v = Some p\<close> d tab Some P(1)
      by (cases "aged now t e") (auto simp: getPortForAddress_def getTableForVid_map known_def entry_at_def)
  qed
qed

lemma removeAged_all_spec:
  assumes wf: "mt_wf t"
  shows "\<exists>t'. removeAgedEntriesFromAllVlans now t = Inr t' \<and> mt_wf t' \<and> (\<forall>u\<ge>now. known t' u = known t u)
     \<and> (\<exists>h. t' = t\<lparr>heap := h\<rparr>) \<and> (\<forall>v. tables t' v = map_option (filter (\<lambda>(a, e). \<not> aged now t e)) (tables t v))"
proof -
  obtain h where h: "for_tables (filter (\<lambda>(a, e). \<not> aged now t e)) (vlanAddressTable t) (heap t) = Inr h"
    "mt_wf (t\<lparr>heap := h\<rparr>)" "\<And>v. tables (t\<lparr>heap := h\<rparr>) v = map_option (filter (\<lambda>(a, e). \<not> aged now t e)) (tables t v)"
    using for_all_tables [OF wf, of "filter (\<lambda>(a, e). \<not> aged now t e)"] distinct_filter_keys by blast
  have "known (t\<lparr>heap := h\<rparr>) u = known t u" if "now \<le> u" for u
    using known_filter [OF wf h(3), of u] that
    by (auto simp: fun_eq_iff known_def [of t] aged_def split: option.splits)
  with h show ?thesis by (auto simp: removeAgedEntriesFromAllVlans_def)
qed

lemma removeAged_vlan_spec:
  assumes wf: "mt_wf t"
  shows "\<exists>t'. removeAgedEntriesFromVlan now v t = Inr t' \<and> mt_wf t' \<and> (\<forall>u\<ge>now. known t' u = known t u)"
proof (cases "map_of (vlanAddressTable t) v")
  case None
  then show ?thesis using wf by (simp add: removeAgedEntriesFromVlan_def getTableForVid_map)
next
  case (Some p)
  obtain table where d: "deref (heap t) p = Inr table" "distinct (map fst table)"
    using deref_ok [OF wf map_of_pointer [OF Some]] by blast
  let ?table = "filter (\<lambda>(a, e). \<not> aged now t e) table"
  let ?t = "t\<lparr>heap := (heap t)[p := Some ?table]\<rparr>"
  note P = put_table [OF wf Some distinct_filter_keys [OF d(2)]]
  have tab: "tables t v = Some table" using Some d by (simp add: tables_def deref_table_at)
  have "known ?t u w b = known t u w b" if "now \<le> u" for u w b
    using known_put [of ?t v ?table t u w b] P(2) tab d(2) that
    by (auto simp: map_of_filter_value known_def entry_at_def aged_def split: option.splits)
  then show ?thesis using wf Some d P(1)
    by (auto simp: removeAgedEntriesFromVlan_def getTableForVid_map fun_eq_iff)
qed

lemma known_lastPurge [simp]: "known (t\<lparr>lastPurge := x\<rparr>) = known t" "mt_wf (t\<lparr>lastPurge := x\<rparr>) = mt_wf t"
  "tables (t\<lparr>lastPurge := x\<rparr>) = tables t"
  by (auto simp: fun_eq_iff known_def entry_at_def tables_def aged_def mt_wf_def pointers_def split: option.splits)

lemma removeAged_needed_spec:
  assumes wf: "mt_wf t"
  shows "\<exists>t'. removeAgedEntriesIfNeeded sec now t = Inr t' \<and> mt_wf t' \<and> (\<forall>u\<ge>now. known t' u = known t u)
     \<and> vlanAddressTable t' = vlanAddressTable t \<and> agingTime t' = agingTime t"
proof (cases "lastPurge t + sec \<le> now")
  case True
  with removeAged_all_spec [OF wf, of now] show ?thesis by (auto simp: removeAgedEntriesIfNeeded_def)
next
  case False
  with wf show ?thesis by (simp add: removeAgedEntriesIfNeeded_def)
qed

lemma AList_update_new: "k \<notin> fst ` set xs \<Longrightarrow> AList.update k v xs = xs @ [(k, v)]"
  by (induction xs) auto

text \<open>A new, empty table for a VLAN that has none.\<close>

definition add_table :: "uint32 \<Rightarrow> MacAddressTable \<Rightarrow> MacAddressTable" where
  "add_table v t = t\<lparr>heap := heap t @ [Some []], addressTable := (if v = 0 then Some (length (heap t)) else addressTable t),
     vlanAddressTable := AList.update v (length (heap t)) (vlanAddressTable t)\<rparr>"

lemma table_at_append: "table_at (h @ [x]) p = (if p = length h then x else table_at h p)"
  by (auto simp: table_at_def nth_append)

lemma agingTime_add_table: "agingTime (add_table v t) = agingTime t"
  by (simp add: add_table_def)

lemma add_table_spec:
  assumes wf: "mt_wf t" and new: "map_of (vlanAddressTable t) v = None"
  shows "mt_wf (add_table v t)" and "map_of (vlanAddressTable (add_table v t)) v = Some (length (heap t))"
    and "tables (add_table v t) w = (if w = v then Some [] else tables t w)"
    and "known (add_table v t) = known t"
proof -
  have k: "v \<notin> fst ` set (vlanAddressTable t)" using new by (simp add: map_of_eq_None_iff)
  have p: "p < length (heap t)" if "p \<in> set (pointers t)" for p
    using wf that by (auto simp: mt_wf_def table_at_def split: if_splits)
  show m: "map_of (vlanAddressTable (add_table v t)) v = Some (length (heap t))" by (simp add: add_table_def update_conv')
  have u: "vlanAddressTable (add_table v t) = vlanAddressTable t @ [(v, length (heap t))]"
    by (simp add: add_table_def AList_update_new [OF k])
  show "mt_wf (add_table v t)"
    using wf k p new unfolding mt_wf_def pointers_def u
    by (auto simp: add_table_def table_at_append AList_update_new [OF k] image_iff map_add_def split: option.splits)
  show tab: "tables (add_table v t) w = (if w = v then Some [] else tables t w)" for w
  proof (cases "map_of (vlanAddressTable t) w")
    case (Some q)
    with new show ?thesis using p [OF map_of_pointer [OF Some]]
      by (auto simp: tables_def table_at_append add_table_def update_conv')
  qed (auto simp: tables_def table_at_append add_table_def update_conv')
  have "tables t v = None" using new by (simp add: tables_def)
  then have "entry_at (add_table v t) = entry_at t" by (auto simp: fun_eq_iff entry_at_def tab)
  moreover have "aged u (add_table v t) = aged u t" for u by (simp add: fun_eq_iff aged_def agingTime_add_table)
  ultimately show "known (add_table v t) = known t" by (intro ext) (simp add: known_def split: option.split)
qed

text \<open>Learning an address in a table that exists.\<close>

definition learn :: "simtime \<Rightarrow> simtime \<Rightarrow> int \<Rightarrow> MacAddress \<Rightarrow> uint32 \<Rightarrow> nat \<Rightarrow> MacAddressTable \<Rightarrow> error + bool \<times> MacAddressTable" where
  "learn sec now port address v p t =
     ebind (deref (heap t) p) (\<lambda>table.
        case map_of table address of
          None \<Rightarrow>
            ebind (removeAgedEntriesIfNeeded sec now t) (\<lambda>t.
            ebind (deref (heap t) p) (\<lambda>table.
              Inr (False, t\<lparr>heap := (heap t)[p := Some
                 (AList.update address \<lparr>vid = v, portno = port, insertionTime = now\<rparr> table)]\<rparr>)))
        | Some entry \<Rightarrow>
            Inr (True, t\<lparr>heap := (heap t)[p := Some
               (AList.update address (entry\<lparr>insertionTime := now, portno := port\<rparr>) table)]\<rparr>))"

lemma add_table_eq:
  "add_table v t = (let t' = t\<lparr>heap := heap t @ [Some []]\<rparr>;
       t' = (if v = 0 then t'\<lparr>addressTable := Some (length (heap t))\<rparr> else t')
     in t'\<lparr>vlanAddressTable := AList.update v (length (heap t)) (vlanAddressTable t')\<rparr>)"
  by (cases t) (simp add: add_table_def)

lemma updateTableWithAddress_learn:
  assumes "mt_wf t" and "\<not> mac_isMulticast a"
  shows "updateTableWithAddress sec now port a v t =
    (case map_of (vlanAddressTable t) v of
       None \<Rightarrow> learn sec now port a v (length (heap t)) (add_table v t)
     | Some p \<Rightarrow> learn sec now port a v p t)"
  using assms
  by (cases "map_of (vlanAddressTable t) v")
    (simp_all add: updateTableWithAddress_def learn_def getTableForVid_map add_table_eq Let_def)

lemma learn_spec:
  assumes wf: "mt_wf t" and v: "map_of (vlanAddressTable t) v = Some p"
  shows "\<exists>t'. learn sec now port a v p t = Inr (entry_at t v a \<noteq> None, t') \<and> mt_wf t'
     \<and> (\<forall>u\<ge>now. \<forall>w b. known t' u w b = (if w = v \<and> b = a then if u < now + agingTime t then Some port else None else known t u w b))"
proof -
  have store: "mt_wf t1 \<and> (\<forall>u\<ge>now. \<forall>w b. known t1 u w b
      = (if w = v \<and> b = a then if u < now + agingTime t then Some port else None else known t u w b))"
    if t1: "t1 = t'\<lparr>heap := (heap t')[p := Some (AList.update a e table)]\<rparr>" and "mt_wf t'"
      and "map_of (vlanAddressTable t') v = Some p" and "deref (heap t') p = Inr table" "distinct (map fst table)"
      and "insertionTime e = now" "portno e = port" "agingTime t' = agingTime t" "\<forall>u\<ge>now. known t' u = known t u"
    for t' t1 e table
  proof -
    note P = put_table [OF that(2,3) distinct_update [OF that(5), of a e]]
    have tab: "tables t' v = Some table" using that(3,4) by (simp add: tables_def deref_table_at)
    have "known t1 u w b = (if w = v \<and> b = a then if u < now + agingTime t then Some port else None else known t' u w b)" for u w b
      using known_put [of t1 v "AList.update a e table" t' u w b] P(2) tab that(6-8)
      by (auto simp: t1 update_conv' known_def entry_at_def aged_def split: option.splits)
    with P(1) that(9) show ?thesis by (simp add: t1)
  qed
  obtain table where d: "deref (heap t) p = Inr table" "distinct (map fst table)"
    using deref_ok [OF wf map_of_pointer [OF v]] by blast
  have e: "entry_at t v a = map_of table a" using v d by (simp add: entry_at_def tables_def deref_table_at)
  show ?thesis
  proof (cases "map_of table a")
    case (Some entry)
    with store [OF refl wf v d, of "entry\<lparr>insertionTime := now, portno := port\<rparr>"] d e show ?thesis
      by (simp add: learn_def)
  next
    case None
    from removeAged_needed_spec [OF wf, of sec now] obtain t' where t': "removeAgedEntriesIfNeeded sec now t = Inr t'"
      "mt_wf t'" "\<forall>u\<ge>now. known t' u = known t u" "vlanAddressTable t' = vlanAddressTable t" "agingTime t' = agingTime t"
      by blast
    have v': "map_of (vlanAddressTable t') v = Some p" using v t' by simp
    obtain table' where d': "deref (heap t') p = Inr table'" "distinct (map fst table')"
      using deref_ok [OF t'(2) map_of_pointer [OF v']] by blast
    from store [OF refl t'(2) v' d' _ _ t'(5,3), of "\<lparr>vid = v, portno = port, insertionTime = now\<rparr>"] None d d' e t'(1)
    show ?thesis by (simp add: learn_def)
  qed
qed

lemma updateTableWithAddress_spec:
  assumes wf: "mt_wf t" and "\<not> mac_isMulticast a"
  shows "\<exists>t'. updateTableWithAddress sec now port a v t = Inr (entry_at t v a \<noteq> None, t') \<and> mt_wf t'
     \<and> (\<forall>u\<ge>now. \<forall>w b. known t' u w b = (if w = v \<and> b = a then if u < now + agingTime t then Some port else None else known t u w b))"
proof (cases "map_of (vlanAddressTable t) v")
  case (Some p)
  with learn_spec [OF wf Some] show ?thesis by (simp add: updateTableWithAddress_learn [OF assms])
next
  case None
  note A = add_table_spec [OF wf None]
  have "entry_at (add_table v t) v a = None" "entry_at t v a = None" "agingTime (add_table v t) = agingTime t"
    using None A(3) [of v] by (simp_all add: entry_at_def tables_def [of t] agingTime_add_table)
  with learn_spec [OF A(1,2), of sec now port a, unfolded A(4) agingTime_add_table] None show ?thesis
    by (simp add: updateTableWithAddress_learn [OF assms])
qed

lemma flush_spec:
  assumes wf: "mt_wf t"
  shows "\<exists>t'. flush port t = Inr t' \<and> mt_wf t'
     \<and> (\<forall>u v a. known t' u v a = (if known t u v a = Some port then None else known t u v a))"
proof -
  obtain h where h: "for_tables (filter (\<lambda>(a, e). portno e \<noteq> port)) (vlanAddressTable t) (heap t) = Inr h"
    "mt_wf (t\<lparr>heap := h\<rparr>)" "\<And>v. tables (t\<lparr>heap := h\<rparr>) v = map_option (filter (\<lambda>(a, e). portno e \<noteq> port)) (tables t v)"
    using for_all_tables [OF wf, of "filter (\<lambda>(a, e). portno e \<noteq> port)"] distinct_filter_keys by blast
  have "known (t\<lparr>heap := h\<rparr>) u v a = (if known t u v a = Some port then None else known t u v a)" for u v a
    using known_filter [OF wf h(3), of u v a] by (auto simp: known_def [of t] split: option.splits)
  with h show ?thesis by (auto simp: flush_def)
qed

lemma copyTable_spec:
  assumes wf: "mt_wf t"
  shows "\<exists>t'. copyTable portA portB t = Inr t' \<and> mt_wf t'
     \<and> (\<forall>u v a. known t' u v a = (if known t u v a = Some portA then Some portB else known t u v a))"
proof -
  let ?f = "\<lambda>e. if portno e = portA then e\<lparr>portno := portB\<rparr> else e"
  have "distinct (map fst (map (\<lambda>(a, e). (a, ?f e)) table))" if "distinct (map fst table)" for table :: AddressTable
    using that by (simp add: comp_def case_prod_beta)
  then obtain h where h: "for_tables (map (\<lambda>(a, e). (a, ?f e))) (vlanAddressTable t) (heap t) = Inr h"
    "mt_wf (t\<lparr>heap := h\<rparr>)" "\<And>v. tables (t\<lparr>heap := h\<rparr>) v = map_option (map (\<lambda>(a, e). (a, ?f e))) (tables t v)"
    using for_all_tables [OF wf, of "map (\<lambda>(a, e). (a, ?f e))"] by blast
  have "known (t\<lparr>heap := h\<rparr>) u v a = (if known t u v a = Some portA then Some portB else known t u v a)" for u v a
    using known_map [OF h(3), of u v a] by (auto simp: known_def [of t] split: option.splits)
  with h show ?thesis by (auto simp: copyTable_def)
qed

lemma delete_tables_ok:
  assumes "distinct (map snd xs)" and "\<forall>p\<in>set (map snd xs). \<exists>table. table_at h p = Some table"
  shows "\<exists>h'. delete_tables xs h = Inr h' \<and> (\<forall>p\<in>set (map snd xs). table_at h' p = None)
     \<and> (\<forall>p. p \<notin> set (map snd xs) \<longrightarrow> table_at h' p = table_at h p)"
  using assms
proof (induction xs arbitrary: h)
  case (Cons x xs)
  from Cons.prems obtain table where t: "table_at h (snd x) = Some table" by auto
  then have len: "snd x < length h" by (simp add: table_at_def split: if_splits)
  from Cons.prems have ne: "\<forall>p\<in>set xs. snd p \<noteq> snd x" by (auto simp: image_iff)
  with Cons.prems have "\<forall>p\<in>set (map snd xs). \<exists>table. table_at (h[snd x := None]) p = Some table"
    by (auto simp: table_at_update [OF len])
  from Cons.IH [OF _ this] Cons.prems t show ?case
    by (auto simp: table_at_update [OF len] deref_table_at [THEN iffD2])
qed simp

lemma clearTable_spec:
  assumes wf: "mt_wf t"
  shows "\<exists>t'. clearTable t = Inr t' \<and> mt_wf t' \<and> (\<forall>u v a. known t' u v a = None)
     \<and> (\<exists>h. MacAddressTable_destroy t = Inr h)"
proof -
  from wf have "distinct (map snd (vlanAddressTable t))"
    "\<forall>p\<in>set (map snd (vlanAddressTable t)). \<exists>table. table_at (heap t) p = Some table"
    by (auto simp: mt_wf_def pointers_def)
  from delete_tables_ok [OF this] obtain h where "delete_tables (vlanAddressTable t) (heap t) = Inr h" by blast
  then show ?thesis
    by (simp add: clearTable_def MacAddressTable_destroy_def mt_wf_def pointers_def known_def entry_at_def tables_def)
qed

section \<open>Properties\<close>

text \<open>
  (C30) The switch's address table is a per-VLAN map from addresses to ports with aging: a lookup returns
  the port an address was learned at unless the entry has reached its age, and changes nothing that
  is known now or later (it may throw out the aged entry); learning a unicast address makes it known
  at that port for the aging time and leaves everything else as it was, whatever is purged on the way;
  multicast addresses are not learned; \<open>flush\<close> forgets exactly what is known at the port, \<open>copyTable\<close>
  moves the addresses of one port to the other, purging changes nothing that is known, \<open>clearTable\<close>
  forgets everything. No operation follows a dangling pointer or deletes a table twice.
\<close>

theorem mac_table_learns:
  assumes wf: "mt_wf t" and later: "now \<le> u"
  shows "(\<exists>t'. getPortForAddress now a v t = Inr (case known t now v a of Some port \<Rightarrow> port | None \<Rightarrow> - 1, t')
        \<and> mt_wf t' \<and> known t' u = known t u)
   \<and> (\<exists>t'. updateTableWithAddress sec now port a v t = Inr (\<not> mac_isMulticast a \<and> entry_at t v a \<noteq> None, t') \<and> mt_wf t'
        \<and> known t' u w b = (if \<not> mac_isMulticast a \<and> w = v \<and> b = a
             then if u < now + agingTime t then Some port else None else known t u w b))
   \<and> (\<exists>t'. flush port t = Inr t' \<and> mt_wf t' \<and> known t' u w b = (if known t u w b = Some port then None else known t u w b))
   \<and> (\<exists>t'. copyTable port portB t = Inr t' \<and> mt_wf t' \<and> known t' u w b = (if known t u w b = Some port then Some portB else known t u w b))
   \<and> (\<exists>t'. removeAgedEntriesFromVlan now v t = Inr t' \<and> mt_wf t' \<and> known t' u = known t u)
   \<and> (\<exists>t'. removeAgedEntriesFromAllVlans now t = Inr t' \<and> mt_wf t' \<and> known t' u = known t u)
   \<and> (\<exists>t'. removeAgedEntriesIfNeeded sec now t = Inr t' \<and> mt_wf t' \<and> known t' u = known t u)
   \<and> (\<exists>t'. clearTable t = Inr t' \<and> mt_wf t' \<and> known t' u w b = None)
   \<and> mt_wf MacAddressTable_new"
proof -
  have new: "mt_wf MacAddressTable_new" by (simp add: mt_wf_def MacAddressTable_new_def pointers_def table_at_def)
  have upd: "\<exists>t'. updateTableWithAddress sec now port a v t = Inr (\<not> mac_isMulticast a \<and> entry_at t v a \<noteq> None, t') \<and> mt_wf t'
        \<and> known t' u w b = (if \<not> mac_isMulticast a \<and> w = v \<and> b = a
             then if u < now + agingTime t then Some port else None else known t u w b)"
  proof (cases "mac_isMulticast a")
    case True
    with wf show ?thesis by (simp add: updateTableWithAddress_def)
  next
    case False
    with updateTableWithAddress_spec [OF wf False, of sec now port v] later show ?thesis by auto
  qed
  show ?thesis
    using getPortForAddress_spec [OF wf, of now a v] flush_spec [OF wf, of port] copyTable_spec [OF wf, of port portB]
      removeAged_vlan_spec [OF wf, of now v] removeAged_all_spec [OF wf, of now] removeAged_needed_spec [OF wf, of sec now]
      clearTable_spec [OF wf] later
    by (intro conjI upd new) auto
qed

definition mac_demo :: MacAddressTable where
  "mac_demo = \<lparr>agingTime = 300, lastPurge = 0, addressTable = Some 0, vlanAddressTable = [(0, 0), (7, 1)],
     heap = [Some [(0x0AAA00000001, \<lparr>vid = 0, portno = 3, insertionTime = 10\<rparr>)], Some []]\<rparr>"

lemma mac_demo_wf: "mt_wf mac_demo"
  by (simp add: mt_wf_def mac_demo_def pointers_def table_at_def)

theorem mac_table_learns_witness:
  "mt_wf mac_demo \<and> (\<exists>t'. getPortForAddress 100 0x0AAA00000001 0 mac_demo = Inr (3, t') \<and> mt_wf t')
     \<and> (\<exists>t'. flush 3 mac_demo = Inr t' \<and> mt_wf t' \<and> known t' 100 0 0x0AAA00000001 = None)"
proof -
  have k: "known mac_demo 100 0 0x0AAA00000001 = Some 3"
    by (simp add: known_def entry_at_def tables_def table_at_def mac_demo_def aged_def)
  show ?thesis
    using mac_table_learns [OF mac_demo_wf, of 100 100 "0x0AAA00000001" 0 1 3 0 "0x0AAA00000001" 4] mac_demo_wf
    by (auto simp: k)
qed

lemma read_line_tokens:
  assumes "tokens line = vlanID # hexaddress # port # rest" and "line = [] \<or> hd line \<noteq> CHR ''#''"
    and "atoi vlanID = Inr v" and "atoi port = Inr n" and "setAddress (Some hexaddress) 0 = Inr a"
  shows "read_line line t = (let (p, t) = (case getTableForVid (of_int v) t of
        None \<Rightarrow> (length (heap t), t\<lparr>heap := heap t @ [Some []],
                  vlanAddressTable := AList.update (of_int v) (length (heap t)) (vlanAddressTable t)\<rparr>)
      | Some p \<Rightarrow> (p, t))
     in ebind (deref (heap t) p) (\<lambda>table. Inr (t\<lparr>heap := (heap t)[p := Some
          (AList.update a \<lparr>vid = of_int v, portno = n, insertionTime = 0\<rparr> table)]\<rparr>)))"
  using assms by (cases "getTableForVid (of_int v) t") (auto simp: read_line_def Let_def)

lemma entry_put:
  assumes "\<And>w. tables t' w = (if w = v then Some (AList.update a e table) else tables t w)"
    and "tables t v = Some table \<or> tables t v = None \<and> table = []"
  shows "entry_at t' w b = (if w = v \<and> b = a then Some e else entry_at t w b)"
  using assms(2) by (auto simp: entry_at_def assms(1) update_conv')

text \<open>
  (C31) Reading an address table: a line with a VLAN identifier, a twelve digit address and a port adds
  exactly that entry to a table whose VLAN 0 exists, as after construction, and keeps the table
  consistent; comments and blank lines are skipped, and a line with one or two fields is refused.
\<close>

theorem mac_table_reads:
  assumes wf: "mt_wf t" and zero: "addressTable t \<noteq> None"
    and line: "tokens line = vlanID # hexaddress # port # rest" "line = [] \<or> hd line \<noteq> CHR ''#''"
    and fields: "atoi vlanID = Inr v" "atoi port = Inr n" "setAddress (Some hexaddress) 0 = Inr a"
  shows "(\<exists>t'. read_line line t = Inr t' \<and> mt_wf t' \<and> addressTable t' \<noteq> None
       \<and> entry_at t' w b = (if w = of_int v \<and> b = a then Some \<lparr>vid = of_int v, portno = n, insertionTime = 0\<rparr> else entry_at t w b))
     \<and> (hd bad = CHR ''#'' \<and> bad \<noteq> [] \<or> tokens bad = [] \<longrightarrow> read_line bad t = Inr t)
     \<and> ((bad = [] \<or> hd bad \<noteq> CHR ''#'') \<and> (length (tokens bad) = 1 \<or> length (tokens bad) = 2)
          \<longrightarrow> read_line bad t = Inl RuntimeError)"
proof (intro conjI)
  let ?v = "of_int v :: uint32"
  let ?e = "\<lparr>vid = ?v, portno = n, insertionTime = 0\<rparr>"
  note R = read_line_tokens [OF line fields, of t, unfolded getTableForVid_map [OF wf]]
  show "\<exists>t'. read_line line t = Inr t' \<and> mt_wf t' \<and> addressTable t' \<noteq> None
       \<and> entry_at t' w b = (if w = ?v \<and> b = a then Some ?e else entry_at t w b)"
  proof (cases "map_of (vlanAddressTable t) ?v")
    case (Some p)
    obtain table where d: "deref (heap t) p = Inr table" "distinct (map fst table)"
      using deref_ok [OF wf map_of_pointer [OF Some]] by blast
    note P = put_table [OF wf Some distinct_update [OF d(2), of a ?e]]
    have "tables t ?v = Some table" using Some d by (simp add: tables_def deref_table_at)
    with entry_put [OF P(2)] P(1) R Some d zero show ?thesis by simp
  next
    case None
    with zero wf have "?v \<noteq> 0" by (auto simp: mt_wf_def)
    then have add: "add_table ?v t = t\<lparr>heap := heap t @ [Some []],
        vlanAddressTable := AList.update ?v (length (heap t)) (vlanAddressTable t)\<rparr>" by (simp add: add_table_eq)
    note A = add_table_spec [OF wf None]
    note P = put_table [OF A(1,2), of "AList.update a ?e []"]
    have d: "deref (heap (add_table ?v t)) (length (heap t)) = Inr []"
      by (simp add: add deref_table_at table_at_append)
    have "read_line line t = Inr ((add_table ?v t)\<lparr>heap := (heap (add_table ?v t))[length (heap t) := Some (AList.update a ?e [])]\<rparr>)"
      using R None d by (simp add: add)
    moreover have "tables t ?v = None" using None by (simp add: tables_def)
    moreover have "addressTable (add_table ?v t) \<noteq> None" using zero by (simp add: add)
    ultimately show ?thesis using P(1) entry_put [of _ ?v a ?e "[]" t] P(2) A(3) by simp
  qed
  show "hd bad = CHR ''#'' \<and> bad \<noteq> [] \<or> tokens bad = [] \<longrightarrow> read_line bad t = Inr t"
    by (auto simp: read_line_def)
  show "(bad = [] \<or> hd bad \<noteq> CHR ''#'') \<and> (length (tokens bad) = 1 \<or> length (tokens bad) = 2)
          \<longrightarrow> read_line bad t = Inl RuntimeError"
    by (auto simp: read_line_def split: list.splits)
qed

lemma read_demo:
  "tokens ''7 0AAA00000002 5'' = [''7'', ''0AAA00000002'', ''5'']" "atoi ''7'' = Inr 7" "atoi ''5'' = Inr 5"
  "tokens ''7 0AAA00000002'' = [''7'', ''0AAA00000002'']"
  by code_simp+

lemma read_demo_address: "setAddress (Some ''0AAA00000002'') 0 = Inr 0x0AAA00000002"
  by code_simp

lemma mac_demo_address: "addressTable mac_demo = Some 0"
  by (simp add: mac_demo_def)

theorem mac_table_reads_witness:
  "mt_wf mac_demo \<and> (\<exists>t'. read_line ''7 0AAA00000002 5'' mac_demo = Inr t' \<and> mt_wf t'
     \<and> entry_at t' 7 0x0AAA00000002 = Some \<lparr>vid = 7, portno = 5, insertionTime = 0\<rparr>)
     \<and> read_line ''7 0AAA00000002'' mac_demo = Inl RuntimeError"
  using mac_table_reads [OF mac_demo_wf _ read_demo(1) _ read_demo(2,3) read_demo_address, of 7 "0x0AAA00000002" "''7 0AAA00000002''"]
    mac_demo_wf
  by (auto simp: mac_demo_address read_demo(4))

text \<open>
  After \<open>clearTable\<close> the pointer to the table of VLAN 0 is null and reading a file does not set it: the
  entries read for VLAN 0 are never found.
\<close>

lemma read_after_clear_lost:
  assumes wf: "mt_wf t" and clear: "clearTable t = Inr t1"
    and line: "tokens line = vlanID # hexaddress # port # rest" "line = [] \<or> hd line \<noteq> CHR ''#''"
    and fields: "atoi vlanID = Inr 0" "atoi port = Inr n" "setAddress (Some hexaddress) 0 = Inr a"
  shows "\<exists>t2. read_line line t1 = Inr t2 \<and> entry_at t2 0 a = Some \<lparr>vid = 0, portno = n, insertionTime = 0\<rparr>
     \<and> getPortForAddress now a 0 t2 = Inr (- 1, t2)"
proof -
  have t1: "addressTable t1 = None" "vlanAddressTable t1 = []" using clear by (auto simp: clearTable_def ebind_eq_Inr)
  then have g: "getTableForVid 0 t1 = None" by (simp add: getTableForVid_def)
  have d: "deref (heap t1 @ [Some []]) (length (heap t1)) = Inr []" by (simp add: deref_table_at table_at_append)
  show ?thesis
    using read_line_tokens [OF line fields, of t1] g d t1
    by (simp add: getPortForAddress_def getTableForVid_def entry_at_def tables_def table_at_def)
qed

end
