(* ===== verification/SctpGap.thy ===== *)
theory SctpGap
  imports SeqNum Decimal
begin

text \<open>
  The gap lists of an SCTP receiver (\<open>transportlayer/sctp/SctpGapList\<close> of the INET framework): the
  blocks of transmission sequence numbers received beyond the cumulative acknowledgment, kept in two
  arrays of fixed size. Access outside the arrays is an error. The number of blocks never exceeds
  the array size, so its 32-bit width is immaterial and it is a natural number.
\<close>

section \<open>Comparing sequence numbers\<close>

definition SCTP_UINT32_GT :: "uint32 \<Rightarrow> uint32 \<Rightarrow> bool" where
  "SCTP_UINT32_GT a b \<longleftrightarrow> (a < b \<and> b - a > 2 ^ 31) \<or> (a > b \<and> a - b < 2 ^ 31)"

definition SCTP_UINT32_GE :: "uint32 \<Rightarrow> uint32 \<Rightarrow> bool" where
  "SCTP_UINT32_GE a b \<longleftrightarrow> SCTP_UINT32_GT a b \<or> a = b"

definition tsnGe :: "uint32 \<Rightarrow> uint32 \<Rightarrow> bool" where
  "tsnGe tsn1 tsn2 \<longleftrightarrow> SCTP_UINT32_GE tsn1 tsn2"

definition tsnGt :: "uint32 \<Rightarrow> uint32 \<Rightarrow> bool" where
  "tsnGt tsn1 tsn2 \<longleftrightarrow> SCTP_UINT32_GT tsn1 tsn2"

definition tsnLe :: "uint32 \<Rightarrow> uint32 \<Rightarrow> bool" where
  "tsnLe tsn1 tsn2 \<longleftrightarrow> SCTP_UINT32_GE tsn2 tsn1"

definition tsnLt :: "uint32 \<Rightarrow> uint32 \<Rightarrow> bool" where
  "tsnLt tsn1 tsn2 \<longleftrightarrow> SCTP_UINT32_GT tsn2 tsn1"

definition tsnBetween :: "uint32 \<Rightarrow> uint32 \<Rightarrow> uint32 \<Rightarrow> bool" where
  "tsnBetween tsn1 midtsn tsn2 \<longleftrightarrow> SCTP_UINT32_GE midtsn tsn1 \<and> SCTP_UINT32_GE tsn2 midtsn"

section \<open>A simple gap list\<close>

definition MAX_GAP_COUNT :: nat where
  "MAX_GAP_COUNT = 500"

record SctpSimpleGapList =
  NumGaps :: nat
  GapStartList :: "uint32 list"
  GapStopList :: "uint32 list"

definition rd :: "uint32 list \<Rightarrow> nat \<Rightarrow> error + uint32" where
  "rd xs i = (if i < length xs then Inr (xs ! i) else Inl IndexOutOfRange)"

definition wr :: "uint32 list \<Rightarrow> nat \<Rightarrow> uint32 \<Rightarrow> error + uint32 list" where
  "wr xs i x = (if i < length xs then Inr (xs[i := x]) else Inl IndexOutOfRange)"

definition setStart :: "nat \<Rightarrow> uint32 \<Rightarrow> SctpSimpleGapList \<Rightarrow> error + SctpSimpleGapList" where
  "setStart i x g = ebind (wr (GapStartList g) i x) (\<lambda>xs. Inr (g\<lparr>GapStartList := xs\<rparr>))"

definition setStop :: "nat \<Rightarrow> uint32 \<Rightarrow> SctpSimpleGapList \<Rightarrow> error + SctpSimpleGapList" where
  "setStop i x g = ebind (wr (GapStopList g) i x) (\<lambda>xs. Inr (g\<lparr>GapStopList := xs\<rparr>))"

text \<open>
  A loop that moves blocks: \<open>GapStartList[d] = GapStartList[s]; GapStopList[d] = GapStopList[s]\<close> for the
  given pairs in turn.
\<close>

fun move :: "(nat \<times> nat) list \<Rightarrow> SctpSimpleGapList \<Rightarrow> error + SctpSimpleGapList" where
  "move [] g = Inr g"
| "move ((d, s) # ps) g =
     ebind (rd (GapStartList g) s) (\<lambda>a. ebind (setStart d a g) (\<lambda>g.
     ebind (rd (GapStopList g) s) (\<lambda>b. ebind (setStop d b g) (\<lambda>g. move ps g))))"

definition SctpSimpleGapList_new :: SctpSimpleGapList where
  "SctpSimpleGapList_new = \<lparr>NumGaps = 0, GapStartList = replicate MAX_GAP_COUNT 0xffff00ff,
     GapStopList = replicate MAX_GAP_COUNT 0xffff0000\<rparr>"

definition resetGaps :: "SctpSimpleGapList \<Rightarrow> SctpSimpleGapList" where
  "resetGaps g = \<lparr>NumGaps = 0, GapStartList = replicate MAX_GAP_COUNT 0xffff00ff,
     GapStopList = replicate MAX_GAP_COUNT 0xffff0000\<rparr>"

definition getGapStart :: "nat \<Rightarrow> SctpSimpleGapList \<Rightarrow> error + uint32" where
  "getGapStart index g = (if index < NumGaps g then rd (GapStartList g) index else Inl AssertionFailed)"

definition getGapStop :: "nat \<Rightarrow> SctpSimpleGapList \<Rightarrow> error + uint32" where
  "getGapStop index g = (if index < NumGaps g then rd (GapStopList g) index else Inl AssertionFailed)"

fun check_loop :: "uint32 \<Rightarrow> SctpSimpleGapList \<Rightarrow> nat list \<Rightarrow> error + unit" where
  "check_loop cTsnAck g [] = Inr ()"
| "check_loop cTsnAck g (i # is) =
     ebind (rd (GapStartList g) i) (\<lambda>a. ebind (rd (GapStopList g) i) (\<lambda>b.
     ebind (if i = 0 then Inr cTsnAck else rd (GapStopList g) (i - 1)) (\<lambda>p.
       if tsnGt a (p + 1) \<and> tsnLe a b then check_loop cTsnAck g is else Inl AssertionFailed)))"

definition gap_check :: "uint32 \<Rightarrow> SctpSimpleGapList \<Rightarrow> error + unit" where
  "gap_check cTsnAck g = check_loop cTsnAck g [0..<NumGaps g]"

fun print_loop :: "SctpSimpleGapList \<Rightarrow> nat list \<Rightarrow> error + string" where
  "print_loop g [] = Inr []"
| "print_loop g (i # is) =
     ebind (rd (GapStartList g) i) (\<lambda>a. ebind (rd (GapStopList g) i) (\<lambda>b.
     ebind (print_loop g is) (\<lambda>rest.
       Inr ((if i > 0 then '','' else []) @ '' '' @ digits (unat a) @ ''-'' @ digits (unat b) @ rest))))"

definition gap_print :: "SctpSimpleGapList \<Rightarrow> error + string" where
  "gap_print g = ebind (print_loop g [0..<NumGaps g]) (\<lambda>s. Inr (''{'' @ s @ '' }''))"

fun in_loop :: "uint32 \<Rightarrow> SctpSimpleGapList \<Rightarrow> nat list \<Rightarrow> error + bool" where
  "in_loop tsn g [] = Inr False"
| "in_loop tsn g (i # is) =
     ebind (rd (GapStartList g) i) (\<lambda>a. ebind (rd (GapStopList g) i) (\<lambda>b.
       if tsnBetween a tsn b then Inr True else in_loop tsn g is))"

definition tsnInGapList :: "uint32 \<Rightarrow> SctpSimpleGapList \<Rightarrow> error + bool" where
  "tsnInGapList tsn g = in_loop tsn g [0..<NumGaps g]"

subsection \<open>Moving the cumulative acknowledgment\<close>

fun count_covered :: "uint32 \<Rightarrow> SctpSimpleGapList \<Rightarrow> nat list \<Rightarrow> error + nat" where
  "count_covered cTsnAck g [] = Inr 0"
| "count_covered cTsnAck g (i # is) =
     ebind (rd (GapStartList g) i) (\<lambda>a.
       if tsnGe cTsnAck a then ebind (count_covered cTsnAck g is) (\<lambda>n. Inr (Suc n)) else Inr 0)"

definition gap_forwardCumAckTsn :: "uint32 \<Rightarrow> SctpSimpleGapList \<Rightarrow> error + SctpSimpleGapList" where
  "gap_forwardCumAckTsn cTsnAck g =
     (if NumGaps g > 0 then
        ebind (count_covered cTsnAck g [0..<NumGaps g]) (\<lambda>advance.
          if advance > 0 then
            ebind (move (map (\<lambda>i. (i - advance, i)) [advance..<NumGaps g]) g)
              (\<lambda>g. Inr (g\<lparr>NumGaps := NumGaps g - advance\<rparr>))
          else Inr g)
      else Inr g)"

fun advance_loop :: "nat \<Rightarrow> uint32 \<Rightarrow> bool \<Rightarrow> SctpSimpleGapList \<Rightarrow> error + bool \<times> uint32 \<times> SctpSimpleGapList" where
  "advance_loop 0 cTsnAck progress g = Inr (progress, cTsnAck, g)"
| "advance_loop (Suc n) cTsnAck progress g =
     ebind (rd (GapStartList g) 0) (\<lambda>a.
       if cTsnAck + 1 = a then
         ebind (rd (GapStopList g) 0) (\<lambda>b.
         ebind (move (map (\<lambda>i. (i - 1, i)) [1..<NumGaps g]) g) (\<lambda>g. advance_loop n b True g))
       else advance_loop n cTsnAck progress g)"

definition gap_tryToAdvanceCumAckTsn :: "uint32 \<Rightarrow> SctpSimpleGapList \<Rightarrow> error + bool \<times> uint32 \<times> SctpSimpleGapList" where
  "gap_tryToAdvanceCumAckTsn cTsnAck g = advance_loop (NumGaps g) cTsnAck False g"

subsection \<open>Removing a sequence number\<close>

definition remove_at :: "uint32 \<Rightarrow> nat \<Rightarrow> SctpSimpleGapList \<Rightarrow> error + SctpSimpleGapList" where
  "remove_at removedTsn i g =
     (let initialNumGaps = NumGaps g in
      ebind (rd (GapStartList g) i) (\<lambda>a. ebind (rd (GapStopList g) i) (\<lambda>b.
        if sint (b - a + 1) > 1 then
          if b = removedTsn then setStop i (b - 1) g
          else if a = removedTsn then setStart i (a + 1) g
          else
            let n = min (NumGaps g + 1) MAX_GAP_COUNT in
            ebind (move (map (\<lambda>j. (j, j - 1)) (rev [Suc i..<n])) (g\<lparr>NumGaps := n\<rparr>)) (\<lambda>g.
            ebind (setStop i (removedTsn - 1) g) (\<lambda>g.
              if i + 1 < NumGaps g then setStart (i + 1) (removedTsn + 1) g else Inr g))
        else
          ebind (move (map (\<lambda>j. (j, j + 1)) [i..<initialNumGaps]) g) (\<lambda>g.
          ebind (setStart (initialNumGaps - 1) 0 g) (\<lambda>g.
          ebind (setStop (initialNumGaps - 1) 0 g) (\<lambda>g.
            Inr (g\<lparr>NumGaps := NumGaps g - 1\<rparr>)))))))"

fun remove_loop :: "uint32 \<Rightarrow> nat list \<Rightarrow> SctpSimpleGapList \<Rightarrow> error + SctpSimpleGapList" where
  "remove_loop removedTsn [] g = Inr g"
| "remove_loop removedTsn (i # is) g =
     ebind (rd (GapStartList g) i) (\<lambda>a. ebind (rd (GapStopList g) i) (\<lambda>b.
       if tsnBetween a removedTsn b then remove_at removedTsn i g else remove_loop removedTsn is g))"

definition gap_removeFromGapList :: "uint32 \<Rightarrow> SctpSimpleGapList \<Rightarrow> error + SctpSimpleGapList" where
  "gap_removeFromGapList removedTsn g = remove_loop removedTsn (rev [0..<NumGaps g]) g"

subsection \<open>Adding a sequence number\<close>

text \<open>
  The result of adding: the value returned, the cumulative acknowledgment, whether the chunk is new
  (\<open>newChunkReceived\<close> is only ever set to true), and the list.
\<close>

type_synonym gap_result = "bool \<times> uint32 \<times> bool \<times> SctpSimpleGapList"

text \<open>The block \<open>i\<close> is taken out.\<close>

definition remove_block :: "nat \<Rightarrow> SctpSimpleGapList \<Rightarrow> error + SctpSimpleGapList" where
  "remove_block i g =
     ebind (if i = NumGaps g - 1 then ebind (setStart i 0 g) (setStop i 0)
            else move (map (\<lambda>j. (j, j + 1)) [i..<NumGaps g - 1]) g)
       (\<lambda>g. Inr (g\<lparr>NumGaps := NumGaps g - 1\<rparr>))"

text \<open>The sequence number lies between \<open>lo\<close> and \<open>hi\<close>, in front of block \<open>i\<close>.\<close>

definition fill_gap :: "uint32 \<Rightarrow> uint32 \<Rightarrow> uint32 \<Rightarrow> uint32 \<Rightarrow> nat \<Rightarrow> SctpSimpleGapList \<Rightarrow> error + gap_result" where
  "fill_gap receivedTsn cTsnAck lo hi i g =
     (let gapsize = hi - lo + 1 in
      if gapsize > 1 then
        if receivedTsn = hi then
          ebind (setStart i receivedTsn g) (\<lambda>g. Inr (True, cTsnAck, True, g))
        else if receivedTsn = lo then
          if receivedTsn = cTsnAck + 1 then Inr (True, cTsnAck + 1, True, g)
          else if i = 0 then Inl IndexOutOfRange
          else ebind (setStop (i - 1) receivedTsn g) (\<lambda>g. Inr (True, cTsnAck, True, g))
        else
          let n = min (NumGaps g + 1) MAX_GAP_COUNT in
          ebind (move (map (\<lambda>j. (j, j - 1)) (rev [Suc i..<n])) (g\<lparr>NumGaps := n\<rparr>)) (\<lambda>g.
          ebind (setStart i receivedTsn g) (\<lambda>g.
          ebind (setStop i receivedTsn g) (\<lambda>g. Inr (True, cTsnAck, True, g))))
      else
        if lo = cTsnAck + 1 then
          ebind (rd (GapStopList g) i) (\<lambda>cTsnAck.
          ebind (remove_block i g) (\<lambda>g. Inr (True, cTsnAck, True, g)))
        else if i = 0 then Inl IndexOutOfRange
        else
          ebind (rd (GapStopList g) i) (\<lambda>b.
          ebind (setStop (i - 1) b g) (\<lambda>g.
          ebind (remove_block i g) (\<lambda>g. Inr (True, cTsnAck, True, g)))))"

text \<open>The end of the list has been reached.\<close>

definition append_tsn :: "uint32 \<Rightarrow> uint32 \<Rightarrow> uint32 \<Rightarrow> SctpSimpleGapList \<Rightarrow> error + gap_result" where
  "append_tsn receivedTsn cTsnAck lo g =
     (if receivedTsn = lo then
        if receivedTsn = cTsnAck + 1 then Inr (True, receivedTsn, True, g)
        else if NumGaps g = 0 then Inl IndexOutOfRange
        else ebind (rd (GapStopList g) (NumGaps g - 1)) (\<lambda>b.
             ebind (setStop (NumGaps g - 1) (b + 1) g) (\<lambda>g. Inr (True, cTsnAck, True, g)))
      else
        ebind (if NumGaps g = 0 then Inr True
               else ebind (rd (GapStopList g) (NumGaps g - 1)) (\<lambda>b. Inr (tsnGt receivedTsn (b + 1)))) (\<lambda>new.
          if new \<and> NumGaps g < MAX_GAP_COUNT then
            ebind (setStart (NumGaps g) receivedTsn g) (\<lambda>g.
            ebind (setStop (NumGaps g) receivedTsn g) (\<lambda>g.
              Inr (True, cTsnAck, True, g\<lparr>NumGaps := NumGaps g + 1\<rparr>)))
          else Inr (True, cTsnAck, False, g)))"

fun update_loop :: "uint32 \<Rightarrow> uint32 \<Rightarrow> uint32 \<Rightarrow> nat list \<Rightarrow> SctpSimpleGapList \<Rightarrow> error + gap_result" where
  "update_loop receivedTsn cTsnAck lo [] g = append_tsn receivedTsn cTsnAck lo g"
| "update_loop receivedTsn cTsnAck lo (i # is) g =
     ebind (rd (GapStartList g) i) (\<lambda>a. ebind (rd (GapStopList g) i) (\<lambda>b.
       if a > 0 then
         if tsnBetween lo receivedTsn (a - 1) then fill_gap receivedTsn cTsnAck lo (a - 1) i g
         else update_loop receivedTsn cTsnAck (b + 1) is g
       else update_loop receivedTsn cTsnAck lo is g))"

definition gap_updateGapList :: "uint32 \<Rightarrow> uint32 \<Rightarrow> SctpSimpleGapList \<Rightarrow> error + gap_result" where
  "gap_updateGapList receivedTsn cTsnAck g =
     (if tsnLe receivedTsn cTsnAck then Inr (False, cTsnAck, False, g)
      else update_loop receivedTsn cTsnAck (cTsnAck + 1) [0..<NumGaps g] g)"

section \<open>The combined gap list\<close>

record SctpGapList =
  CumAckTsn :: uint32
  RevokableGapList :: SctpSimpleGapList
  NonRevokableGapList :: SctpSimpleGapList
  CombinedGapList :: SctpSimpleGapList

datatype GapType = GT_Any | GT_Revokable | GT_NonRevokable

definition SctpGapList_new :: SctpGapList where
  "SctpGapList_new = \<lparr>CumAckTsn = 0, RevokableGapList = SctpSimpleGapList_new,
     NonRevokableGapList = SctpSimpleGapList_new, CombinedGapList = SctpSimpleGapList_new\<rparr>"

definition setInitialCumAckTsn :: "uint32 \<Rightarrow> SctpGapList \<Rightarrow> error + SctpGapList" where
  "setInitialCumAckTsn cumAckTsn l =
     (if NumGaps (CombinedGapList l) = 0 then Inr (l\<lparr>CumAckTsn := cumAckTsn\<rparr>) else Inl AssertionFailed)"

definition getHighestTsnReceived :: "SctpGapList \<Rightarrow> error + uint32" where
  "getHighestTsnReceived l =
     (if NumGaps (CombinedGapList l) > 0 then getGapStop (NumGaps (CombinedGapList l) - 1) (CombinedGapList l)
      else Inr (CumAckTsn l))"

definition gap_list_of :: "GapType \<Rightarrow> SctpGapList \<Rightarrow> SctpSimpleGapList" where
  "gap_list_of type l =
     (case type of GT_Revokable \<Rightarrow> RevokableGapList l | GT_NonRevokable \<Rightarrow> NonRevokableGapList l
      | GT_Any \<Rightarrow> CombinedGapList l)"

definition all_getNumGaps :: "GapType \<Rightarrow> SctpGapList \<Rightarrow> nat" where
  "all_getNumGaps type l = NumGaps (gap_list_of type l)"

definition all_getGapStart :: "GapType \<Rightarrow> nat \<Rightarrow> SctpGapList \<Rightarrow> error + uint32" where
  "all_getGapStart type index l = getGapStart index (gap_list_of type l)"

definition all_getGapStop :: "GapType \<Rightarrow> nat \<Rightarrow> SctpGapList \<Rightarrow> error + uint32" where
  "all_getGapStop type index l = getGapStop index (gap_list_of type l)"

definition tsnIsRevokable :: "uint32 \<Rightarrow> SctpGapList \<Rightarrow> error + bool" where
  "tsnIsRevokable tsn l = tsnInGapList tsn (RevokableGapList l)"

definition tsnIsNonRevokable :: "uint32 \<Rightarrow> SctpGapList \<Rightarrow> error + bool" where
  "tsnIsNonRevokable tsn l = tsnInGapList tsn (NonRevokableGapList l)"

definition all_check :: "SctpGapList \<Rightarrow> error + unit" where
  "all_check l =
     ebind (gap_check (CumAckTsn l) (CombinedGapList l)) (\<lambda>_.
     ebind (gap_check (CumAckTsn l) (RevokableGapList l)) (\<lambda>_.
     gap_check (CumAckTsn l) (NonRevokableGapList l)))"

definition all_print :: "SctpGapList \<Rightarrow> error + string" where
  "all_print l =
     ebind (gap_print (CombinedGapList l)) (\<lambda>c. ebind (gap_print (RevokableGapList l)) (\<lambda>r.
     ebind (gap_print (NonRevokableGapList l)) (\<lambda>n.
       Inr (''CumAck='' @ digits (unat (CumAckTsn l)) @ ''   Combined-Gaps='' @ c @ ''   R-Gaps='' @ r @ ''   NR-Gaps='' @ n))))"

definition forward_lists :: "SctpGapList \<Rightarrow> error + SctpGapList" where
  "forward_lists l =
     ebind (gap_forwardCumAckTsn (CumAckTsn l) (RevokableGapList l)) (\<lambda>r.
     ebind (gap_forwardCumAckTsn (CumAckTsn l) (NonRevokableGapList l)) (\<lambda>n.
       Inr (l\<lparr>RevokableGapList := r, NonRevokableGapList := n\<rparr>)))"

definition all_forwardCumAckTsn :: "uint32 \<Rightarrow> SctpGapList \<Rightarrow> error + SctpGapList" where
  "all_forwardCumAckTsn cumAckTsn l =
     (let l = l\<lparr>CumAckTsn := cumAckTsn\<rparr> in
      ebind (gap_forwardCumAckTsn (CumAckTsn l) (CombinedGapList l)) (\<lambda>c.
        forward_lists (l\<lparr>CombinedGapList := c\<rparr>)))"

definition all_tryToAdvanceCumAckTsn :: "SctpGapList \<Rightarrow> error + bool \<times> SctpGapList" where
  "all_tryToAdvanceCumAckTsn l =
     ebind (gap_tryToAdvanceCumAckTsn (CumAckTsn l) (CombinedGapList l)) (\<lambda>(progress, cum, c).
       let l = l\<lparr>CumAckTsn := cum, CombinedGapList := c\<rparr>
       in if progress then ebind (forward_lists l) (\<lambda>l. Inr (True, l)) else Inr (False, l))"

definition all_removeFromGapList :: "uint32 \<Rightarrow> SctpGapList \<Rightarrow> error + SctpGapList" where
  "all_removeFromGapList removedTsn l =
     ebind (gap_removeFromGapList removedTsn (RevokableGapList l)) (\<lambda>r.
     ebind (gap_removeFromGapList removedTsn (NonRevokableGapList l)) (\<lambda>n.
     ebind (gap_removeFromGapList removedTsn (CombinedGapList l)) (\<lambda>c.
       Inr (l\<lparr>RevokableGapList := r, NonRevokableGapList := n, CombinedGapList := c\<rparr>))))"

definition all_updateGapList :: "uint32 \<Rightarrow> bool \<Rightarrow> SctpGapList \<Rightarrow> error + bool \<times> bool \<times> SctpGapList" where
  "all_updateGapList receivedTsn revokable l =
     ebind (if revokable then
              ebind (gap_updateGapList receivedTsn (CumAckTsn l) (RevokableGapList l))
                (\<lambda>(ret, old, new, r). Inr (new, l\<lparr>RevokableGapList := r\<rparr>))
            else
              ebind (gap_updateGapList receivedTsn (CumAckTsn l) (NonRevokableGapList l)) (\<lambda>(ret, old, new, n).
                let l = l\<lparr>NonRevokableGapList := n\<rparr> in
                if ret then ebind (gap_removeFromGapList receivedTsn (RevokableGapList l))
                              (\<lambda>r. Inr (new, l\<lparr>RevokableGapList := r\<rparr>))
                else Inr (new, l))) (\<lambda>(new1, l).
     let oldCumAckTsn = CumAckTsn l in
     ebind (gap_updateGapList receivedTsn (CumAckTsn l) (CombinedGapList l)) (\<lambda>(newChunk, cum, new2, c).
       let l = l\<lparr>CumAckTsn := cum, CombinedGapList := c\<rparr> in
       ebind (if oldCumAckTsn \<noteq> CumAckTsn l then forward_lists l else Inr l) (\<lambda>l.
         Inr (newChunk, new1 \<or> new2, l))))"

definition all_resetGaps :: "uint32 \<Rightarrow> SctpGapList \<Rightarrow> SctpGapList" where
  "all_resetGaps newCumAck l = l\<lparr>CumAckTsn := newCumAck, RevokableGapList := resetGaps (RevokableGapList l),
     NonRevokableGapList := resetGaps (NonRevokableGapList l), CombinedGapList := resetGaps (CombinedGapList l)\<rparr>"

end
