(* ===== verification/SctpSpec.thy ===== *)
theory SctpSpec
  imports SctpGap
begin

text \<open>
  Correctness of the SCTP gap lists: the arrays represent a list of blocks, the blocks a set of
  sequence numbers given by their offsets from the cumulative acknowledgment.
\<close>

section \<open>Comparisons as offsets\<close>

lemma off_swap: "0 < off b a \<Longrightarrow> off a b = 2 ^ 32 - off b a"
  using off_rebase [of a b b] by (simp add: off_pos)

lemma word_less_off:
  fixes a b :: uint32
  shows "a < b \<longleftrightarrow> unat a < unat b" and "a \<le> b \<Longrightarrow> off a b = unat b - unat a"
  by (simp_all add: word_less_nat_alt off_def unat_sub word_le_nat_alt)

lemma tsnGt_off: "SCTP_UINT32_GT a b \<longleftrightarrow> 0 < off b a \<and> off b a < half"
proof (cases "a < b")
  case True
  have "b - a > 2 ^ 31 \<longleftrightarrow> half < off a b" by (simp add: off_def word_less_nat_alt)
  moreover have "0 < off b a" using True by (auto simp: off_pos)
  moreover have "off a b = 2 ^ 32 - off b a" using off_swap [OF \<open>0 < off b a\<close>] .
  moreover have "off b a < 2 ^ 32" by (rule off_less)
  ultimately show ?thesis using True by (auto simp: SCTP_UINT32_GT_def)
next
  case False
  have "a - b < 2 ^ 31 \<longleftrightarrow> off b a < half" by (simp add: off_def word_less_nat_alt)
  moreover have "a > b \<longleftrightarrow> 0 < off b a" using False by (auto simp: off_pos)
  ultimately show ?thesis using False by (auto simp: SCTP_UINT32_GT_def)
qed

lemma tsnGe_off: "SCTP_UINT32_GE a b \<longleftrightarrow> off b a < half"
  by (auto simp: SCTP_UINT32_GE_def tsnGt_off off_pos)

lemmas tsn_off = tsnGt_def tsnGe_def tsnLe_def tsnLt_def tsnBetween_def tsnGt_off tsnGe_off

lemma tsn_base:
  assumes "off c a < half" and "off c b < half"
  shows "off a b < half \<longleftrightarrow> off c a \<le> off c b"
  using seqLE_base [OF assms] by (simp add: seqLE_off)

lemma tsnBetween_base:
  assumes "off c a < half" and "off c r < half" and "off c b < half"
  shows "tsnBetween a r b \<longleftrightarrow> off c a \<le> off c r \<and> off c r \<le> off c b"
  using tsn_base [OF assms(1,2)] tsn_base [OF assms(2,3)] by (simp add: tsn_off)

lemma tsnGt_base:
  assumes "off c a < half" and "off c b < half"
  shows "tsnGt a b \<longleftrightarrow> off c b < off c a"
  using seqLess_base [OF assms(2,1)] by (simp add: tsn_off seqLess_off)

lemma off_succ: "off c a < 2 ^ 32 - 1 \<Longrightarrow> off c (a + 1) = off c a + 1"
  using off_compose [of c a "a + 1"] off_add [of a 1] by simp

lemma off_pred: "0 < off c a \<Longrightarrow> off c (a - 1) = off c a - 1"
proof -
  assume "0 < off c a"
  moreover have "off c (a - 1) = (off c a - 1)" if "0 < off c a"
  proof -
    have "c + of_nat (off c a - 1) = a - 1" using that base_plus_off [of c a] by (simp add: of_nat_diff)
    then show ?thesis using off_add [of c "off c a - 1"] off_less [of c a] by simp
  qed
  ultimately show ?thesis by simp
qed

section \<open>Arrays as lists of blocks\<close>

definition slots :: "SctpSimpleGapList \<Rightarrow> (uint32 \<times> uint32) list" where
  "slots g = zip (GapStartList g) (GapStopList g)"

definition arrays_ok :: "SctpSimpleGapList \<Rightarrow> bool" where
  "arrays_ok g \<longleftrightarrow> length (GapStartList g) = MAX_GAP_COUNT \<and> length (GapStopList g) = MAX_GAP_COUNT
     \<and> NumGaps g \<le> MAX_GAP_COUNT"

definition gaps :: "SctpSimpleGapList \<Rightarrow> (uint32 \<times> uint32) list" where
  "gaps g = take (NumGaps g) (slots g)"

lemma length_slots: "arrays_ok g \<Longrightarrow> length (slots g) = MAX_GAP_COUNT"
  by (simp add: slots_def arrays_ok_def)

lemma length_gaps: "arrays_ok g \<Longrightarrow> length (gaps g) = NumGaps g"
  by (simp add: gaps_def length_slots) (simp add: arrays_ok_def)

lemma rd_slots:
  assumes "arrays_ok g" and "i < MAX_GAP_COUNT"
  shows "rd (GapStartList g) i = Inr (fst (slots g ! i))" and "rd (GapStopList g) i = Inr (snd (slots g ! i))"
  using assms by (simp_all add: rd_def slots_def arrays_ok_def)

lemma setStart_slots:
  assumes "arrays_ok g" and "i < MAX_GAP_COUNT"
  obtains g' where "setStart i x g = Inr g'" and "arrays_ok g'" and "NumGaps g' = NumGaps g"
    and "slots g' = (slots g)[i := (x, snd (slots g ! i))]"
proof -
  have "zip ((GapStartList g)[i := x]) (GapStopList g) = (slots g)[i := (x, snd (slots g ! i))]"
    using assms by (intro nth_equalityI) (auto simp: slots_def arrays_ok_def nth_list_update)
  then show thesis using assms that [of "g\<lparr>GapStartList := (GapStartList g)[i := x]\<rparr>"]
    by (simp add: setStart_def wr_def arrays_ok_def slots_def)
qed

lemma setStop_slots:
  assumes "arrays_ok g" and "i < MAX_GAP_COUNT"
  obtains g' where "setStop i x g = Inr g'" and "arrays_ok g'" and "NumGaps g' = NumGaps g"
    and "slots g' = (slots g)[i := (fst (slots g ! i), x)]"
proof -
  have "zip (GapStartList g) ((GapStopList g)[i := x]) = (slots g)[i := (fst (slots g ! i), x)]"
    using assms by (intro nth_equalityI) (auto simp: slots_def arrays_ok_def nth_list_update)
  then show thesis using assms that [of "g\<lparr>GapStopList := (GapStopList g)[i := x]\<rparr>"]
    by (simp add: setStop_def wr_def arrays_ok_def slots_def)
qed

fun mv :: "(nat \<times> nat) list \<Rightarrow> 'a list \<Rightarrow> 'a list" where
  "mv [] xs = xs"
| "mv ((d, s) # ps) xs = mv ps (xs[d := xs ! s])"

lemma length_mv [simp]: "length (mv ps xs) = length xs"
  by (induction ps xs rule: mv.induct) auto

lemma move_slots:
  assumes "arrays_ok g" and "\<forall>(d, s)\<in>set ps. d < MAX_GAP_COUNT \<and> s < MAX_GAP_COUNT"
  shows "\<exists>g'. move ps g = Inr g' \<and> arrays_ok g' \<and> NumGaps g' = NumGaps g \<and> slots g' = mv ps (slots g)"
  using assms
proof (induction ps arbitrary: g)
  case (Cons p ps)
  obtain d s where p: "p = (d, s)" by fastforce
  with Cons.prems have r: "d < MAX_GAP_COUNT" "s < MAX_GAP_COUNT" by auto
  obtain g1 where g1: "setStart d (fst (slots g ! s)) g = Inr g1" "arrays_ok g1" "NumGaps g1 = NumGaps g"
    "slots g1 = (slots g)[d := (fst (slots g ! s), snd (slots g ! d))]"
    using setStart_slots [OF Cons.prems(1) r(1)] by blast
  obtain g2 where g2: "setStop d (snd (slots g1 ! s)) g1 = Inr g2" "arrays_ok g2" "NumGaps g2 = NumGaps g1"
    "slots g2 = (slots g1)[d := (fst (slots g1 ! d), snd (slots g1 ! s))]"
    using setStop_slots [OF g1(2) r(1)] by blast
  have "slots g2 = (slots g)[d := slots g ! s]"
    using r length_slots [OF Cons.prems(1)] by (auto simp: g2(4) g1(4) nth_list_update)
  with Cons.IH [OF g2(2)] Cons.prems(2) g1 g2 p rd_slots [OF Cons.prems(1) r(2)] rd_slots [OF g1(2) r(2)]
  show ?case by auto
qed simp

lemma mv_down:
  "0 < k \<Longrightarrow> m + k \<le> length xs \<Longrightarrow> j < length xs \<Longrightarrow>
     mv (map (\<lambda>j. (j, j + k)) [i..<m]) xs ! j = (if i \<le> j \<and> j < m then xs ! (j + k) else xs ! j)"
proof (induction "m - i" arbitrary: i xs)
  case (Suc n)
  then have "i < m" "n = m - Suc i" by auto
  then show ?case using Suc.hyps(1) [of "Suc i" "xs[i := xs ! (i + k)]"] Suc.prems
    by (auto simp: upt_conv_Cons nth_list_update)
qed auto

lemma mv_up:
  "n \<le> length xs \<Longrightarrow> j < length xs \<Longrightarrow>
     mv (map (\<lambda>j. (j, j - 1)) (rev [Suc i..<n])) xs ! j = (if i < j \<and> j < n then xs ! (j - 1) else xs ! j)"
proof (induction n arbitrary: xs)
  case (Suc n)
  show ?case
  proof (cases "Suc i \<le> n")
    case True
    then show ?thesis using Suc.IH [of "xs[n := xs ! (n - 1)]"] Suc.prems
      by (auto simp: nth_list_update less_Suc_eq)
  next
    case False
    then show ?thesis by auto
  qed
qed simp

subsection \<open>What the operations do to the list of blocks\<close>

lemma gaps_nth: "arrays_ok g \<Longrightarrow> i < NumGaps g \<Longrightarrow> slots g ! i = gaps g ! i"
  by (simp add: gaps_def)

lemma NumGaps_less: "arrays_ok g \<Longrightarrow> i < NumGaps g \<Longrightarrow> i < MAX_GAP_COUNT"
  by (simp add: arrays_ok_def)

lemma setStart_gaps:
  assumes "arrays_ok g" and "i < NumGaps g"
  obtains g' where "setStart i x g = Inr g'" and "arrays_ok g'" and "NumGaps g' = NumGaps g"
    and "gaps g' = (gaps g)[i := (x, snd (gaps g ! i))]"
proof -
  obtain g' where "setStart i x g = Inr g'" "arrays_ok g'" "NumGaps g' = NumGaps g"
    "slots g' = (slots g)[i := (x, snd (slots g ! i))]"
    using setStart_slots [OF assms(1) NumGaps_less [OF assms]] by blast
  then show thesis using that assms by (simp add: gaps_def take_update_swap)
qed

lemma setStop_gaps:
  assumes "arrays_ok g" and "i < NumGaps g"
  obtains g' where "setStop i x g = Inr g'" and "arrays_ok g'" and "NumGaps g' = NumGaps g"
    and "gaps g' = (gaps g)[i := (fst (gaps g ! i), x)]"
proof -
  obtain g' where "setStop i x g = Inr g'" "arrays_ok g'" "NumGaps g' = NumGaps g"
    "slots g' = (slots g)[i := (fst (slots g ! i), x)]"
    using setStop_slots [OF assms(1) NumGaps_less [OF assms]] by blast
  then show thesis using that assms by (simp add: gaps_def take_update_swap)
qed

lemma slots_NumGaps [simp]: "slots (g\<lparr>NumGaps := n\<rparr>) = slots g"
  by (simp add: slots_def)

lemma gaps_of_slots: "gaps (g\<lparr>NumGaps := n\<rparr>) = take n (slots g)"
  by (simp add: gaps_def)

lemma gaps_NumGaps: "n \<le> NumGaps g \<Longrightarrow> gaps (g\<lparr>NumGaps := n\<rparr>) = take n (gaps g)"
  by (simp add: gaps_def min_absorb1)

lemma arrays_NumGaps: "arrays_ok g \<Longrightarrow> n \<le> MAX_GAP_COUNT \<Longrightarrow> arrays_ok (g\<lparr>NumGaps := n\<rparr>)"
  by (simp add: arrays_ok_def)

text \<open>Making room for a block after block \<open>i\<close> duplicates block \<open>i\<close>.\<close>

lemma move_up_gaps:
  assumes ok: "arrays_ok g" and i: "i < NumGaps g" and room: "NumGaps g < MAX_GAP_COUNT"
  obtains g' where "move (map (\<lambda>j. (j, j - 1)) (rev [Suc i..<Suc (NumGaps g)])) (g\<lparr>NumGaps := Suc (NumGaps g)\<rparr>) = Inr g'"
    and "arrays_ok g'" and "NumGaps g' = Suc (NumGaps g)" and "gaps g' = take (Suc i) (gaps g) @ drop i (gaps g)"
proof -
  let ?ps = "map (\<lambda>j. (j, j - 1)) (rev [Suc i..<Suc (NumGaps g)])"
  let ?g = "g\<lparr>NumGaps := Suc (NumGaps g)\<rparr>"
  have "arrays_ok ?g" using ok room by (simp add: arrays_ok_def)
  moreover have "\<forall>(d, s)\<in>set ?ps. d < MAX_GAP_COUNT \<and> s < MAX_GAP_COUNT" using room by auto
  ultimately obtain g' where g': "move ?ps ?g = Inr g'" "arrays_ok g'" "NumGaps g' = Suc (NumGaps g)" "slots g' = mv ?ps (slots g)"
    using move_slots [of ?g ?ps] by auto
  have "gaps g' = take (Suc i) (gaps g) @ drop i (gaps g)"
  proof (rule nth_equalityI)
    show "length (gaps g') = length (take (Suc i) (gaps g) @ drop i (gaps g))"
      using i g' ok by (simp add: length_gaps)
    fix j assume "j < length (gaps g')"
    then have j: "j < Suc (NumGaps g)" using g' by (simp add: length_gaps)
    then have "gaps g' ! j = mv ?ps (slots g) ! j" by (simp add: gaps_def g')
    also have "\<dots> = (if i < j then slots g ! (j - 1) else slots g ! j)"
      using mv_up [of "Suc (NumGaps g)" "slots g" j i] j room length_slots [OF ok] by simp
    also have "\<dots> = (take (Suc i) (gaps g) @ drop i (gaps g)) ! j"
      using i j ok by (auto simp: nth_append length_gaps gaps_nth min_absorb2 Suc_le_eq)
    finally show "gaps g' ! j = (take (Suc i) (gaps g) @ drop i (gaps g)) ! j" .
  qed
  then show thesis using that g' by blast
qed

text \<open>Moving the blocks behind block \<open>i\<close> down by \<open>k\<close>.\<close>

lemma move_down_gaps:
  assumes ok: "arrays_ok g" and m: "m + k \<le> MAX_GAP_COUNT" and k: "0 < k" and n: "n \<le> m" "n + k \<le> NumGaps g" and i: "i \<le> n"
  obtains g' where "move (map (\<lambda>j. (j, j + k)) [i..<m]) g = Inr g'" and "arrays_ok g'" and "NumGaps g' = NumGaps g"
    and "take n (slots g') = take i (gaps g) @ take (n - i) (drop (i + k) (gaps g))"
proof -
  let ?ps = "map (\<lambda>j. (j, j + k)) [i..<m]"
  have "\<forall>(d, s)\<in>set ?ps. d < MAX_GAP_COUNT \<and> s < MAX_GAP_COUNT" using m k by auto
  then obtain g' where g': "move ?ps g = Inr g'" "arrays_ok g'" "NumGaps g' = NumGaps g" "slots g' = mv ?ps (slots g)"
    using move_slots [OF ok] by blast
  have N: "n \<le> MAX_GAP_COUNT" using n(1) m by simp
  have "take n (slots g') = take i (gaps g) @ take (n - i) (drop (i + k) (gaps g))"
  proof (rule nth_equalityI)
    show "length (take n (slots g')) = length (take i (gaps g) @ take (n - i) (drop (i + k) (gaps g)))"
      using g' ok n i N by (simp add: length_slots length_gaps)
    fix j assume "j < length (take n (slots g'))"
    then have j: "j < n" by simp
    then have "take n (slots g') ! j = mv ?ps (slots g) ! j" by (simp add: g')
    also have "\<dots> = (if i \<le> j then slots g ! (j + k) else slots g ! j)"
      using mv_down [OF k, of m "slots g" j i] j n m length_slots [OF ok] by simp
    also have "\<dots> = (take i (gaps g) @ take (n - i) (drop (i + k) (gaps g))) ! j"
      using i j n ok by (auto simp: nth_append length_gaps gaps_nth min_def add.commute)
    finally show "take n (slots g') ! j = (take i (gaps g) @ take (n - i) (drop (i + k) (gaps g))) ! j" .
  qed
  then show thesis using that g' by blast
qed

lemma remove_block_gaps:
  assumes ok: "arrays_ok g" and i: "i < NumGaps g"
  obtains g' where "remove_block i g = Inr g'" and "arrays_ok g'" and "gaps g' = take i (gaps g) @ drop (Suc i) (gaps g)"
proof (cases "i = NumGaps g - 1")
  case True
  obtain g1 where g1: "setStart i 0 g = Inr g1" "arrays_ok g1" "NumGaps g1 = NumGaps g"
    "gaps g1 = (gaps g)[i := (0, snd (gaps g ! i))]" using setStart_gaps [OF ok i] by blast
  have "i < NumGaps g1" using i g1 by simp
  then obtain g2 where g2: "setStop i 0 g1 = Inr g2" "arrays_ok g2" "NumGaps g2 = NumGaps g1"
    "gaps g2 = (gaps g1)[i := (fst (gaps g1 ! i), 0)]" using setStop_gaps [OF g1(2)] by blast
  have "gaps (g2\<lparr>NumGaps := NumGaps g2 - 1\<rparr>) = take i (gaps g2)"
    using gaps_NumGaps [of "NumGaps g2 - 1" g2] True g1(3) g2(3) by simp
  then have "gaps (g2\<lparr>NumGaps := NumGaps g2 - 1\<rparr>) = take i (gaps g) @ drop (Suc i) (gaps g)"
    using True i length_gaps [OF ok] by (simp add: g1 g2)
  moreover have "arrays_ok (g2\<lparr>NumGaps := NumGaps g2 - 1\<rparr>)" using g2(2) by (auto simp: arrays_ok_def)
  ultimately show thesis using that g1 g2 True by (simp add: remove_block_def)
next
  case False
  have a: "NumGaps g - 1 + 1 \<le> MAX_GAP_COUNT" "(0 :: nat) < 1" "NumGaps g - 1 \<le> NumGaps g - 1"
    "NumGaps g - 1 + 1 \<le> NumGaps g" "i \<le> NumGaps g - 1" using ok i by (auto simp: arrays_ok_def)
  obtain g1 where g1: "move (map (\<lambda>j. (j, j + 1)) [i..<NumGaps g - 1]) g = Inr g1" "arrays_ok g1" "NumGaps g1 = NumGaps g"
    "take (NumGaps g - 1) (slots g1) = take i (gaps g) @ take (NumGaps g - 1 - i) (drop (i + 1) (gaps g))"
    by (rule move_down_gaps [OF ok a])
  have "gaps (g1\<lparr>NumGaps := NumGaps g1 - 1\<rparr>) = take i (gaps g) @ drop (Suc i) (gaps g)"
    using g1 i length_gaps [OF ok] by (simp add: gaps_of_slots)
  moreover have "arrays_ok (g1\<lparr>NumGaps := NumGaps g1 - 1\<rparr>)" using g1(2) by (auto simp: arrays_ok_def)
  ultimately show thesis using that g1 False by (simp add: remove_block_def)
qed

section \<open>Blocks as sets\<close>

fun sep :: "nat \<Rightarrow> (nat \<times> nat) list \<Rightarrow> bool" where
  "sep l [] \<longleftrightarrow> True"
| "sep l ((s, e) # bs) \<longleftrightarrow> l + 1 < s \<and> s \<le> e \<and> sep e bs"

fun lst :: "nat \<Rightarrow> (nat \<times> nat) list \<Rightarrow> nat" where
  "lst l [] = l"
| "lst l ((s, e) # bs) = lst e bs"

definition covered :: "(nat \<times> nat) list \<Rightarrow> nat set" where
  "covered bs = (\<Union>(s, e)\<in>set bs. {s..e})"

definition blocks :: "uint32 \<Rightarrow> SctpSimpleGapList \<Rightarrow> (nat \<times> nat) list" where
  "blocks c g = map (\<lambda>(a, b). (off c a, off c b)) (gaps g)"

definition gap_wf :: "uint32 \<Rightarrow> SctpSimpleGapList \<Rightarrow> bool" where
  "gap_wf c g \<longleftrightarrow> arrays_ok g \<and> sep 0 (blocks c g) \<and> (\<forall>(s, e)\<in>set (blocks c g). e < half - 1)"

lemma covered_simps [simp]:
  "covered [] = {}" "covered ((s, e) # bs) = {s..e} \<union> covered bs" "covered (xs @ ys) = covered xs \<union> covered ys"
  by (auto simp: covered_def)

lemma sep_append [simp]: "sep l (xs @ ys) \<longleftrightarrow> sep l xs \<and> sep (lst l xs) ys"
  by (induction l xs rule: sep.induct) auto

lemma lst_append [simp]: "lst l (xs @ ys) = lst (lst l xs) ys"
  by (induction l xs rule: lst.induct) auto

lemma sep_bounds: "sep l bs \<Longrightarrow> (s, e) \<in> set bs \<Longrightarrow> l + 1 < s \<and> s \<le> e \<and> e \<le> lst l bs"
proof (induction l bs rule: sep.induct)
  case (2 l s' e' bs)
  have "e' \<le> lst e' bs" using 2(2) by (induction e' bs rule: lst.induct) auto
  with 2 show ?case by auto
qed simp

lemma sep_lst: "sep l bs \<Longrightarrow> l \<le> lst l bs"
  by (induction l bs rule: sep.induct) auto

lemma covered_bounds: "sep l bs \<Longrightarrow> x \<in> covered bs \<Longrightarrow> l + 1 < x \<and> x \<le> lst l bs"
  using sep_bounds [of l bs] by (fastforce simp: covered_def)

lemma lst_last: "lst l bs = (if bs = [] then l else snd (last bs))"
  by (induction l bs rule: lst.induct) auto

text \<open>The start of the gap in front of block \<open>k\<close>.\<close>

definition lo_at :: "uint32 \<Rightarrow> SctpSimpleGapList \<Rightarrow> nat \<Rightarrow> uint32" where
  "lo_at c g k = (if k = 0 then c + 1 else snd (gaps g ! (k - 1)) + 1)"

lemma length_blocks: "arrays_ok g \<Longrightarrow> length (blocks c g) = NumGaps g"
  by (simp add: blocks_def length_gaps)

lemma blocks_nth: "arrays_ok g \<Longrightarrow> k < NumGaps g \<Longrightarrow> blocks c g ! k = (off c (fst (gaps g ! k)), off c (snd (gaps g ! k)))"
  by (simp add: blocks_def length_gaps case_prod_beta)

lemma lst_take:
  assumes "arrays_ok g" and "k \<le> NumGaps g"
  shows "lst 0 (take k (blocks c g)) = (if k = 0 then 0 else off c (snd (gaps g ! (k - 1))))"
proof (cases "k = 0")
  case False
  then have "take k (blocks c g) \<noteq> []" using assms length_blocks [OF assms(1), of c] by auto
  then show ?thesis using assms False by (simp add: lst_last last_conv_nth length_blocks blocks_nth min_absorb2)
qed simp

lemma block_bounds:
  assumes "gap_wf c g" and "k < NumGaps g"
  shows "1 < off c (fst (gaps g ! k))" and "off c (fst (gaps g ! k)) \<le> off c (snd (gaps g ! k))"
    and "off c (snd (gaps g ! k)) < half - 1"
proof -
  have m: "(off c (fst (gaps g ! k)), off c (snd (gaps g ! k))) \<in> set (blocks c g)"
    using assms blocks_nth [of g k c] nth_mem [of k "blocks c g"] by (simp add: gap_wf_def length_blocks)
  with assms sep_bounds [of 0 "blocks c g"] show "1 < off c (fst (gaps g ! k))"
    "off c (fst (gaps g ! k)) \<le> off c (snd (gaps g ! k))" by (auto simp: gap_wf_def)
  show "off c (snd (gaps g ! k)) < half - 1" using m assms(1) by (auto simp: gap_wf_def)
qed

lemma lo_at_off:
  assumes "gap_wf c g" and "k \<le> NumGaps g"
  shows "off c (lo_at c g k) = lst 0 (take k (blocks c g)) + 1" and "lst 0 (take k (blocks c g)) + 1 < half"
proof -
  have ok: "arrays_ok g" using assms(1) by (simp add: gap_wf_def)
  have l: "lst 0 (take k (blocks c g)) < half - 1"
  proof (cases "k = 0")
    case False
    then show ?thesis using block_bounds(3) [OF assms(1), of "k - 1"] assms(2) lst_take [OF ok assms(2), of c] by simp
  qed (simp add: lst_take [OF ok])
  then show "lst 0 (take k (blocks c g)) + 1 < half" by simp
  show "off c (lo_at c g k) = lst 0 (take k (blocks c g)) + 1"
  proof (cases "k = 0")
    case True
    then show ?thesis using off_add [of c 1] by (simp add: lo_at_def)
  next
    case False
    then show ?thesis using l lst_take [OF ok assms(2), of c] off_succ [of c "snd (gaps g ! (k - 1))"]
      by (simp add: lo_at_def)
  qed
qed

text \<open>The search loop passes over the blocks whose gap does not hold the number.\<close>

lemma update_loop_skip:
  assumes wf: "gap_wf c g" and nz: "\<forall>(a, b)\<in>set (gaps g). a \<noteq> 0" and r: "off c r < half" and k: "k \<le> NumGaps g"
    and out: "\<forall>i<k. \<not> (lst 0 (take i (blocks c g)) < off c r \<and> off c r < off c (fst (gaps g ! i)))"
  shows "update_loop r c (c + 1) [0..<NumGaps g] g = update_loop r c (lo_at c g k) [k..<NumGaps g] g"
  using k out
proof (induction k)
  case 0
  then show ?case by (simp add: lo_at_def)
next
  case (Suc k)
  have ok: "arrays_ok g" using wf by (simp add: gap_wf_def)
  have k: "k < NumGaps g" "k < MAX_GAP_COUNT" using Suc.prems ok by (auto simp: arrays_ok_def)
  let ?a = "fst (gaps g ! k)" and ?b = "snd (gaps g ! k)"
  note B = block_bounds [OF wf k(1)]
  have "gaps g ! k \<in> set (gaps g)" using k length_gaps [OF ok] by simp
  then have a: "?a > 0" using nz by (auto simp: word_gt_0 case_prod_beta)
  have hi: "off c (?a - 1) = off c ?a - 1" using off_pred [of c ?a] B by simp
  have "\<not> tsnBetween (lo_at c g k) r (?a - 1)"
    using tsnBetween_base [of c "lo_at c g k" r "?a - 1"] lo_at_off [OF wf, of k] k r hi B Suc.prems(2) by auto
  moreover have "lo_at c g (Suc k) = ?b + 1" by (simp add: lo_at_def)
  ultimately have "update_loop r c (lo_at c g k) [k..<NumGaps g] g = update_loop r c (lo_at c g (Suc k)) [Suc k..<NumGaps g] g"
    using k a rd_slots [OF ok k(2)] gaps_nth [OF ok k(1)] by (simp add: upt_conv_Cons)
  with Suc show ?case by simp
qed

section \<open>Adding a sequence number\<close>

text \<open>
  The number with offset \<open>R\<close> has been added: the offsets up to the new cumulative acknowledgment and
  those in the blocks are the old ones and \<open>R\<close>.
\<close>

definition adds :: "uint32 \<Rightarrow> SctpSimpleGapList \<Rightarrow> nat \<Rightarrow> uint32 \<Rightarrow> SctpSimpleGapList \<Rightarrow> bool" where
  "adds c g R c' g' \<longleftrightarrow> arrays_ok g' \<and> sep (off c c') (blocks c g') \<and> (\<forall>(s, e)\<in>set (blocks c g'). e < half - 1)
     \<and> off c c' < half - 1 \<and> {1..off c c'} \<union> covered (blocks c g') = insert R (covered (blocks c g))"

lemma blocks_split:
  assumes "gap_wf c g" and "k < NumGaps g"
  obtains xs s e ys where "blocks c g = xs @ (s, e) # ys" and "length xs = k" and "xs = take k (blocks c g)"
    and "ys = map (\<lambda>(a, b). (off c a, off c b)) (drop (Suc k) (gaps g))" and "s = off c (fst (gaps g ! k))" and "e = off c (snd (gaps g ! k))"
    and "sep 0 xs" and "lst 0 xs + 1 < s" and "s \<le> e" and "sep e ys"
    and "\<forall>(s, e)\<in>set xs. e < half - 1" and "e < half - 1" and "\<forall>(s, e)\<in>set ys. e < half - 1"
proof -
  have ok: "arrays_ok g" using assms(1) by (simp add: gap_wf_def)
  let ?s = "off c (fst (gaps g ! k))" and ?e = "off c (snd (gaps g ! k))"
  define xs ys where "xs = take k (blocks c g)" and "ys = drop (Suc k) (blocks c g)"
  have eq: "blocks c g = xs @ (?s, ?e) # ys" unfolding xs_def ys_def
    using id_take_nth_drop [of k "blocks c g"] assms(2) blocks_nth [OF ok assms(2), of c] by (simp add: length_blocks [OF ok])
  have "sep 0 (xs @ (?s, ?e) # ys)" "\<forall>(s, e)\<in>set (xs @ (?s, ?e) # ys). e < half - 1"
    using assms(1) unfolding gap_wf_def eq by blast+
  moreover have "ys = map (\<lambda>(a, b). (off c a, off c b)) (drop (Suc k) (gaps g))" by (simp add: ys_def blocks_def drop_map)
  moreover have "length xs = k" using assms(2) length_blocks [OF ok, of c] by (simp add: xs_def)
  ultimately show thesis by (intro that [OF eq _ xs_def]) auto
qed

lemma blocks_of: "gaps g' = take k (gaps g) @ us @ vs \<Longrightarrow>
    blocks c g' = take k (blocks c g) @ map (\<lambda>(a, b). (off c a, off c b)) us @ map (\<lambda>(a, b). (off c a, off c b)) vs"
  by (simp add: blocks_def take_map)

text \<open>Inserting a block in front of block \<open>k\<close>.\<close>

lemma insert_block:
  assumes ok: "arrays_ok g" and k: "k < NumGaps g" and room: "NumGaps g < MAX_GAP_COUNT"
  obtains g' where "ebind (move (map (\<lambda>j. (j, j - 1)) (rev [Suc k..<Suc (NumGaps g)])) (g\<lparr>NumGaps := Suc (NumGaps g)\<rparr>)) (\<lambda>g.
          ebind (setStart k r g) (\<lambda>g. ebind (setStop k r g) (\<lambda>g. Inr (True, c, True, g)))) = (Inr (True, c, True, g') :: error + gap_result)"
    and "arrays_ok g'" and "gaps g' = take k (gaps g) @ [(r, r)] @ drop k (gaps g)"
proof -
  obtain g1 where g1: "move (map (\<lambda>j. (j, j - 1)) (rev [Suc k..<Suc (NumGaps g)])) (g\<lparr>NumGaps := Suc (NumGaps g)\<rparr>) = Inr g1"
    "arrays_ok g1" "NumGaps g1 = Suc (NumGaps g)" "gaps g1 = take (Suc k) (gaps g) @ drop k (gaps g)"
    by (rule move_up_gaps [OF ok k room])
  have k1: "k < NumGaps g1" using k g1 by simp
  obtain g2 where g2: "setStart k r g1 = Inr g2" "arrays_ok g2" "NumGaps g2 = NumGaps g1"
    "gaps g2 = (gaps g1)[k := (r, snd (gaps g1 ! k))]" by (rule setStart_gaps [OF g1(2) k1])
  have k2: "k < NumGaps g2" using k1 g2 by simp
  obtain g3 where g3: "setStop k r g2 = Inr g3" "arrays_ok g3" "NumGaps g3 = NumGaps g2"
    "gaps g3 = (gaps g2)[k := (fst (gaps g2 ! k), r)]" by (rule setStop_gaps [OF g2(2) k2])
  have l: "length (gaps g1) = Suc (NumGaps g)" using length_gaps [OF g1(2)] g1(3) by simp
  have "gaps g3 = (gaps g1)[k := (r, r)]" using k l by (simp add: g3 g2)
  also have "\<dots> = take k (gaps g) @ [(r, r)] @ drop k (gaps g)"
    using k length_gaps [OF ok] by (simp add: g1 list_update_append take_Suc_conv_app_nth)
  finally show thesis using that g1 g2 g3 by simp
qed

lemma list_update_split: "xs[length us := x] = us @ x # vs" if "xs = us @ y # vs"
  using that by simp

lemma covered_below: "sep l bs \<Longrightarrow> x \<le> l \<Longrightarrow> x \<notin> covered bs"
  using covered_bounds [of l bs x] by auto

text \<open>The set of offsets after each of the changes to the blocks.\<close>

lemma adds_extend_front:
  assumes "arrays_ok g'" and "blocks c g = xs @ (s, e) # ys" and "blocks c g' = xs @ (R, e) # ys"
    and "sep 0 (blocks c g)" and "\<forall>(s, e)\<in>set (blocks c g). e < half - 1" and "R + 1 = s" and "lst 0 xs + 1 < R"
  shows "adds c g R c g'"
  using assms by (auto simp: adds_def)

lemma adds_extend_back:
  assumes "arrays_ok g'" and "blocks c g = xs @ (s, e) # ys" and "blocks c g' = xs @ (s, R) # ys"
    and "sep 0 (blocks c g)" and "\<forall>(s, e)\<in>set (blocks c g). e < half - 1" and "R = e + 1" and "sep R ys" and "R < half - 1"
  shows "adds c g R c g'"
  using assms by (auto simp: adds_def)

lemma adds_insert:
  assumes "arrays_ok g'" and "blocks c g = xs @ ys" and "blocks c g' = xs @ (R, R) # ys"
    and "sep 0 (blocks c g)" and "\<forall>(s, e)\<in>set (blocks c g). e < half - 1" and "lst 0 xs + 1 < R" and "sep R ys" and "R < half - 1"
  shows "adds c g R c g'"
  using assms by (auto simp: adds_def)

lemma adds_merge:
  assumes "arrays_ok g'" and "blocks c g = xs @ (s, e) # (s', e') # ys" and "blocks c g' = xs @ (s, e') # ys"
    and "sep 0 (blocks c g)" and "\<forall>(s, e)\<in>set (blocks c g). e < half - 1" and "R = e + 1" and "s' = e + 2"
  shows "adds c g R c g'"
  using assms by (auto simp: adds_def)

lemma adds_ack:
  assumes "arrays_ok g'" and "blocks c g = (2, e) # ys" and "blocks c g' = ys"
    and "sep 0 (blocks c g)" and "\<forall>(s, e)\<in>set (blocks c g). e < half - 1" and "off c c' = e"
  shows "adds c g 1 c' g'"
  using assms by (auto simp: adds_def)

lemma adds_ack_one:
  assumes "gap_wf c g" and "off c c' = 1" and "sep 1 (blocks c g)"
  shows "adds c g 1 c' g"
  using assms by (auto simp: adds_def gap_wf_def)

text \<open>The gap in front of block \<open>k\<close> in terms of offsets.\<close>

lemma gap_words:
  assumes wf: "gap_wf c g" and k: "k < NumGaps g"
  defines "l \<equiv> lst 0 (take k (blocks c g))" and "s \<equiv> off c (fst (gaps g ! k))"
  shows "(fst (gaps g ! k) - 1) - lo_at c g k + 1 > 1 \<longleftrightarrow> l + 2 < s"
    and "r = fst (gaps g ! k) - 1 \<longleftrightarrow> off c r + 1 = s" and "r = lo_at c g k \<longleftrightarrow> off c r = l + 1"
    and "lo_at c g k = c + 1 \<longleftrightarrow> k = 0" and "r = c + 1 \<longleftrightarrow> off c r = 1"
proof -
  have ok: "arrays_ok g" using wf by (simp add: gap_wf_def)
  note B = block_bounds [OF wf k]
  note L = lo_at_off [OF wf less_imp_le [OF k], folded l_def]
  have "l + 1 < s" using blocks_split [OF wf k] unfolding l_def s_def by metis
  have hi: "off c (fst (gaps g ! k) - 1) = s - 1" using off_pred [of c "fst (gaps g ! k)"] B by (simp add: s_def)
  have "off (lo_at c g k) (fst (gaps g ! k) - 1) = s - 1 - (l + 1)"
    using off_trans [of c "lo_at c g k" "fst (gaps g ! k) - 1"] L hi \<open>l + 1 < s\<close> by simp
  then have "(fst (gaps g ! k) - 1) - lo_at c g k = of_nat (s - 1 - (l + 1))"
    using diff_off [of "fst (gaps g ! k) - 1" "lo_at c g k"] by simp
  moreover have eq: "s - 1 - l = Suc (s - 1 - (l + 1))" using \<open>l + 1 < s\<close> by linarith
  ultimately have "(fst (gaps g ! k) - 1) - lo_at c g k + 1 = of_nat (s - 1 - l)"
    unfolding eq of_nat_Suc by (simp only: add.commute)
  moreover have "s - 1 - l < 2 ^ 32" using B by (simp add: s_def)
  then have "unat (of_nat (s - 1 - l) :: uint32) = s - 1 - l" by (simp add: unat_of_nat)
  ultimately show "(fst (gaps g ! k) - 1) - lo_at c g k + 1 > 1 \<longleftrightarrow> l + 2 < s"
    by (simp add: word_less_nat_alt) linarith
  show "r = fst (gaps g ! k) - 1 \<longleftrightarrow> off c r + 1 = s"
    using off_inject [of c r "fst (gaps g ! k) - 1"] hi \<open>l + 1 < s\<close> by auto
  show "r = lo_at c g k \<longleftrightarrow> off c r = l + 1" using off_inject [of c r "lo_at c g k"] L by auto
  have one: "off c (c + 1) = 1" using off_add [of c 1] by simp
  then show "r = c + 1 \<longleftrightarrow> off c r = 1" using off_inject [of c r "c + 1"] by auto
  show "lo_at c g k = c + 1 \<longleftrightarrow> k = 0"
  proof (cases "k = 0")
    case False
    have k': "k - 1 < NumGaps g" using k by simp
    have "1 < l" using block_bounds(1,2) [OF wf k'] False lst_take [OF ok less_imp_le [OF k], of c] by (simp add: l_def)
    then show ?thesis using False L one by (metis add.commute less_not_refl add_eq_self_zero less_numeral_extra(1) not_one_less_zero)
  qed (simp add: lo_at_def)
qed

lemma fill_gap_spec:
  assumes wf: "gap_wf c g" and k: "k < NumGaps g" and room: "NumGaps g < MAX_GAP_COUNT"
    and lo: "lst 0 (take k (blocks c g)) < off c r" and hi: "off c r < off c (fst (gaps g ! k))"
  shows "\<exists>c' g'. fill_gap r c (lo_at c g k) (fst (gaps g ! k) - 1) k g = Inr (True, c', True, g') \<and> adds c g (off c r) c' g'"
proof -
  have ok: "arrays_ok g" and sp: "sep 0 (blocks c g)" and bd: "\<forall>(s, e)\<in>set (blocks c g). e < half - 1"
    using wf by (auto simp: gap_wf_def)
  obtain xs s e ys where S: "blocks c g = xs @ (s, e) # ys" "length xs = k" "xs = take k (blocks c g)"
    "ys = map (\<lambda>(a, b). (off c a, off c b)) (drop (Suc k) (gaps g))" "s = off c (fst (gaps g ! k))" "e = off c (snd (gaps g ! k))"
    "sep 0 xs" "lst 0 xs + 1 < s" "s \<le> e" "sep e ys" "\<forall>(s, e)\<in>set xs. e < half - 1" "e < half - 1"
    "\<forall>(s, e)\<in>set ys. e < half - 1"
    by (rule blocks_split [OF wf k])
  note G = gap_words(1,4) [OF wf k, folded S(3) S(5)] gap_words(2,3,5) [OF wf k, folded S(3) S(5), of r]
  define lo hi where "lo = lo_at c g k" and "hi = fst (gaps g ! k) - 1"
  note G = G [folded lo_def hi_def]
  let ?R = "off c r" and ?l = "lst 0 xs"
  have R: "?l < ?R" "?R < s" "?R < half - 1" using lo hi S(3,5,9,12) by auto
  have prev: "\<exists>xs' s'. xs = xs' @ [(s', ?l)] \<and> length xs' = k - 1 \<and> s' = off c (fst (gaps g ! (k - 1)))" if "k \<noteq> 0"
  proof -
    have "xs \<noteq> []" using S(2) that by auto
    then obtain xs' p where p: "xs = xs' @ [p]" by (cases xs rule: rev_cases) auto
    then have "blocks c g ! (k - 1) = p" using S(1,2) by (auto simp: nth_append)
    moreover have "length xs' = k - 1" using p S(2) by simp
    ultimately show ?thesis using p blocks_nth [OF ok, of "k - 1" c] k that by (cases p) auto
  qed
  consider (front) "?l + 2 < s" "?R + 1 = s" | (ack1) "?l + 2 < s" "?R = ?l + 1" "k = 0" | (rear) "?l + 2 < s" "?R = ?l + 1" "k \<noteq> 0"
    | (mid) "?l + 2 < s" "?R + 1 < s" "?l + 1 < ?R" | (ack) "s = ?l + 2" "k = 0" | (merge) "s = ?l + 2" "k \<noteq> 0"
    using R S(8) by linarith
  then have "\<exists>c' g'. fill_gap r c lo hi k g = Inr (True, c', True, g') \<and> adds c g ?R c' g'"
  proof cases
    case front
    obtain g' where g': "setStart k r g = Inr g'" "arrays_ok g'" "gaps g' = (gaps g)[k := (r, snd (gaps g ! k))]"
      using setStart_gaps [OF ok k] by metis
    have "blocks c g' = (blocks c g)[k := (?R, e)]" by (simp add: blocks_def g' map_update S(6))
    then have "blocks c g' = xs @ (?R, e) # ys" using S(1) list_update_length [of xs] by (simp flip: S(2))
    from adds_extend_front [OF g'(2) S(1) this sp bd] front g'(1) G R show ?thesis by (auto simp: fill_gap_def)
  next
    case ack1
    then have l: "?l = 0" using S(2) by simp
    have "sep 1 (blocks c g)" using S l ack1 by (cases xs) auto
    from adds_ack_one [OF wf _ this, of "c + 1"] off_add [of c 1] show ?thesis
      using ack1 l G R by (auto simp: fill_gap_def)
  next
    case rear
    obtain xs' s' where x: "xs = xs' @ [(s', ?l)]" "length xs' = k - 1" "s' = off c (fst (gaps g ! (k - 1)))"
      using prev rear(3) by blast
    have k': "k - 1 < NumGaps g" using k by simp
    obtain g' where g': "setStop (k - 1) r g = Inr g'" "arrays_ok g'" "gaps g' = (gaps g)[k - 1 := (fst (gaps g ! (k - 1)), r)]"
      using setStop_gaps [OF ok k'] by metis
    have b: "blocks c g = xs' @ (s', ?l) # (s, e) # ys" using S(1) x(1) by simp
    have "blocks c g' = (blocks c g)[k - 1 := (s', ?R)]" by (simp add: blocks_def g' map_update x(3))
    then have b': "blocks c g' = xs' @ (s', ?R) # (s, e) # ys" unfolding b x(2) [symmetric] by simp
    have "sep ?R ((s, e) # ys)" using rear(1,2) S(9,10) by simp
    from adds_extend_back [OF g'(2) b b' sp bd rear(2) this R(3)]
    have a: "adds c g ?R c g'" .
    have "r \<noteq> hi" "r = lo" "lo \<noteq> c + 1" using rear G by auto
    then show ?thesis using rear(1,3) G(1) g'(1) a by (simp add: fill_gap_def)
  next
    case mid
    obtain g' where g': "ebind (move (map (\<lambda>j. (j, j - 1)) (rev [Suc k..<Suc (NumGaps g)])) (g\<lparr>NumGaps := Suc (NumGaps g)\<rparr>)) (\<lambda>g.
          ebind (setStart k r g) (\<lambda>g. ebind (setStop k r g) (\<lambda>g. Inr (True, c, True, g)))) = (Inr (True, c, True, g') :: error + gap_result)"
      "arrays_ok g'" "gaps g' = take k (gaps g) @ [(r, r)] @ drop k (gaps g)" by (rule insert_block [OF ok k room])
    have n: "min (NumGaps g + 1) MAX_GAP_COUNT = Suc (NumGaps g)" using room by simp
    have b: "blocks c g = xs @ ((s, e) # ys)" using S(1) by simp
    have "blocks c g' = take k (blocks c g) @ (?R, ?R) # drop k (blocks c g)" by (simp add: blocks_def g' take_map drop_map)
    then have b': "blocks c g' = xs @ (?R, ?R) # (s, e) # ys" using S(1) by (simp flip: S(2))
    have "sep ?R ((s, e) # ys)" using mid(2) S(9,10) by simp
    from adds_insert [OF g'(2) b b' sp bd mid(3) this] R(3) show ?thesis
      using mid g'(1) G R unfolding fill_gap_def Let_def n by auto
  next
    case ack
    then have l: "?l = 0" "xs = []" using S(2) by simp_all
    obtain g' where g': "remove_block k g = Inr g'" "arrays_ok g'" "gaps g' = take k (gaps g) @ drop (Suc k) (gaps g)"
      by (rule remove_block_gaps [OF ok k])
    have b: "blocks c g = (2, e) # ys" using S(1) l ack by simp
    have b': "blocks c g' = ys" using ack(2) by (simp add: blocks_def g' S(4))
    have R1: "?R = 1" using R ack l by simp
    have rdk: "rd (GapStopList g) k = Inr (snd (gaps g ! k))" using rd_slots [OF ok NumGaps_less [OF ok k]] gaps_nth [OF ok k] by simp
    from adds_ack [OF g'(2) b b' sp bd S(6) [symmetric]] show ?thesis
      using ack g'(1) G rdk R1 l by (auto simp: fill_gap_def)
  next
    case merge
    obtain xs' s' where x: "xs = xs' @ [(s', ?l)]" "length xs' = k - 1" "s' = off c (fst (gaps g ! (k - 1)))"
      using prev merge(2) by blast
    have k': "k - 1 < NumGaps g" using k by simp
    have rdk: "rd (GapStopList g) k = Inr (snd (gaps g ! k))" using rd_slots [OF ok NumGaps_less [OF ok k]] gaps_nth [OF ok k] by simp
    obtain g1 where g1: "setStop (k - 1) (snd (gaps g ! k)) g = Inr g1" "arrays_ok g1" "NumGaps g1 = NumGaps g"
      "gaps g1 = (gaps g)[k - 1 := (fst (gaps g ! (k - 1)), snd (gaps g ! k))]"
      using setStop_gaps [OF ok k'] by metis
    have k1: "k < NumGaps g1" using k g1 by simp
    obtain g' where g': "remove_block k g1 = Inr g'" "arrays_ok g'" "gaps g' = take k (gaps g1) @ drop (Suc k) (gaps g1)"
      by (rule remove_block_gaps [OF g1(2) k1])
    have b: "blocks c g = xs' @ (s', ?l) # (s, e) # ys" using S(1) x(1) by simp
    have "blocks c g1 = (blocks c g)[k - 1 := (s', e)]" by (simp add: blocks_def g1 map_update x(3) S(6))
    then have "blocks c g1 = xs' @ (s', e) # (s, e) # ys" unfolding b x(2) [symmetric] by simp
    moreover have "blocks c g' = take k (blocks c g1) @ drop (Suc k) (blocks c g1)" by (simp add: blocks_def g' take_map drop_map)
    moreover have "k = Suc (length xs')" using x(2) merge(2) by simp
    ultimately have b': "blocks c g' = xs' @ (s', e) # ys" by simp
    have "?R = ?l + 1" using R merge by simp
    from adds_merge [OF g'(2) b b' sp bd this merge(1)] show ?thesis
      using merge g1(1) g'(1) G rdk by (auto simp: fill_gap_def)
  qed
  then show ?thesis by (simp add: lo_def hi_def)
qed

lemma lst_prev:
  assumes "arrays_ok g" and "0 < NumGaps g"
  shows "lst 0 (blocks c g) = off c (snd (gaps g ! (NumGaps g - 1)))"
  using lst_take [OF assms(1) order_refl, of c] assms(2) length_blocks [OF assms(1), of c] by simp

lemma append_tsn_new:
  assumes wf: "gap_wf c g" and room: "NumGaps g < MAX_GAP_COUNT"
    and new: "lst 0 (blocks c g) < off c r" and r: "off c r < half - 1"
  shows "\<exists>c' g'. append_tsn r c (lo_at c g (NumGaps g)) g = Inr (True, c', True, g') \<and> adds c g (off c r) c' g'"
proof -
  have ok: "arrays_ok g" and sp: "sep 0 (blocks c g)" and bd: "\<forall>(s, e)\<in>set (blocks c g). e < half - 1"
    using wf by (auto simp: gap_wf_def)
  have L: "off c (lo_at c g (NumGaps g)) = lst 0 (blocks c g) + 1"
    using lo_at_off(1) [OF wf order_refl] length_blocks [OF ok, of c] by simp
  have eq: "r = lo_at c g (NumGaps g) \<longleftrightarrow> off c r = lst 0 (blocks c g) + 1"
    using off_inject [of c r "lo_at c g (NumGaps g)"] L by auto
  have one: "off c (c + 1) = 1" using off_add [of c 1] by simp
  let ?n = "NumGaps g - 1"
  show ?thesis
  proof (cases "r = lo_at c g (NumGaps g)")
    case True
    show ?thesis
    proof (cases "NumGaps g = 0")
      case z: True
      then have "r = c + 1" using True by (simp add: lo_at_def)
      moreover have "adds c g 1 r g" using adds_ack_one [OF wf, of r] one z calculation length_blocks [OF ok, of c] by simp
      ultimately show ?thesis using True one by (auto simp: append_tsn_def)
    next
      case False
      then have n: "?n < NumGaps g" by simp
      have rb: "rd (GapStopList g) ?n = Inr (snd (gaps g ! ?n))"
        using rd_slots [OF ok NumGaps_less [OF ok n]] gaps_nth [OF ok n] by simp
      have lo: "snd (gaps g ! ?n) + 1 = r" using True False by (simp add: lo_at_def)
      obtain g' where g': "setStop ?n r g = Inr g'" "arrays_ok g'" "gaps g' = (gaps g)[?n := (fst (gaps g ! ?n), r)]"
        using setStop_gaps [OF ok n] by metis
      obtain xs s e ys where S: "blocks c g = xs @ (s, e) # ys" "length xs = ?n" "s = off c (fst (gaps g ! ?n))" "e = off c (snd (gaps g ! ?n))"
        using blocks_split [OF wf n] by metis
      have ys: "ys = []" using S(1,2) False length_blocks [OF ok, of c] by (cases ys) auto
      have "blocks c g' = (blocks c g)[?n := (s, off c r)]" by (simp add: blocks_def g' map_update S(3))
      then have b': "blocks c g' = xs @ (s, off c r) # ys" unfolding S(1) S(2) [symmetric] by simp
      have "off c r = e + 1" using eq True lst_prev [OF ok, of c] False S(4) by simp
      then have a: "adds c g (off c r) c g'" using adds_extend_back [OF g'(2) S(1) b' sp bd] ys r by simp
      have "1 < e" using block_bounds(1,2) [OF wf n] S(4) by simp
      then have "r \<noteq> c + 1" using \<open>off c r = e + 1\<close> one by auto
      then show ?thesis using True False rb lo g'(1) a by (simp add: append_tsn_def)
    qed
  next
    case False
    then have gt: "lst 0 (blocks c g) + 1 < off c r" using eq new by linarith
    obtain g1 where g1: "setStart (NumGaps g) r g = Inr g1" "arrays_ok g1" "NumGaps g1 = NumGaps g"
      "slots g1 = (slots g)[NumGaps g := (r, snd (slots g ! NumGaps g))]" by (rule setStart_slots [OF ok room])
    have room1: "NumGaps g1 < MAX_GAP_COUNT" using room g1(3) by simp
    obtain g2 where g2: "setStop (NumGaps g1) r g1 = Inr g2" "arrays_ok g2" "NumGaps g2 = NumGaps g1"
      "slots g2 = (slots g1)[NumGaps g1 := (fst (slots g1 ! NumGaps g1), r)]" by (rule setStop_slots [OF g1(2) room1])
    let ?g = "g2\<lparr>NumGaps := NumGaps g2 + 1\<rparr>"
    have "slots g2 = (slots g)[NumGaps g := (r, r)]" using length_slots [OF ok] room by (simp add: g2(4) g1(3,4))
    then have "gaps ?g = gaps g @ [(r, r)]"
      using room length_slots [OF ok] by (simp add: gaps_def g2(3) g1(3) take_Suc_conv_app_nth)
    then have b': "blocks c ?g = blocks c g @ (off c r, off c r) # []" by (simp add: blocks_def)
    have ok': "arrays_ok ?g" using g2(2,3) g1(3) room by (simp add: arrays_ok_def)
    have a: "adds c g (off c r) c ?g" using adds_insert [OF ok' _ b' sp bd] gt r by simp
    have "ebind (if NumGaps g = 0 then Inr True
               else ebind (rd (GapStopList g) ?n) (\<lambda>b. Inr (tsnGt r (b + 1)))) h = h True" for h :: "bool \<Rightarrow> error + gap_result"
    proof (cases "NumGaps g = 0")
      case nz: False
      then have n: "?n < NumGaps g" by simp
      have b: "snd (gaps g ! ?n) + 1 = lo_at c g (NumGaps g)" using nz by (simp add: lo_at_def)
      have "tsnGt r (snd (gaps g ! ?n) + 1)" unfolding b
        using tsnGt_base [of c r "lo_at c g (NumGaps g)"] L gt r by simp
      then show ?thesis using rd_slots [OF ok NumGaps_less [OF ok n]] gaps_nth [OF ok n] nz by simp
    qed simp
    then show ?thesis using False room g1 g2 a by (simp add: append_tsn_def)
  qed
qed

lemma append_tsn_old:
  assumes wf: "gap_wf c g" and old: "off c r \<le> lst 0 (blocks c g)" and r: "0 < off c r"
  shows "append_tsn r c (lo_at c g (NumGaps g)) g = Inr (True, c, False, g)"
proof -
  have ok: "arrays_ok g" using wf by (simp add: gap_wf_def)
  note L = lo_at_off [OF wf order_refl]
  have nz: "NumGaps g \<noteq> 0" using old r length_blocks [OF ok, of c] by (cases "blocks c g") auto
  have L: "off c (lo_at c g (NumGaps g)) = lst 0 (blocks c g) + 1" "lst 0 (blocks c g) + 1 < half"
    using L length_blocks [OF ok, of c] by simp_all
  have n: "NumGaps g - 1 < NumGaps g" using nz by simp
  have ne: "r \<noteq> lo_at c g (NumGaps g)" using L old by auto
  have b: "snd (gaps g ! (NumGaps g - 1)) + 1 = lo_at c g (NumGaps g)" using nz by (simp add: lo_at_def)
  have "\<not> tsnGt r (snd (gaps g ! (NumGaps g - 1)) + 1)" unfolding b
    using tsnGt_base [of c r "lo_at c g (NumGaps g)"] L old by simp
  then show ?thesis using ne nz rd_slots [OF ok NumGaps_less [OF ok n]] gaps_nth [OF ok n] by (simp add: append_tsn_def)
qed

text \<open>Where an offset lies relative to the blocks.\<close>

lemma position_new:
  "sep l bs \<Longrightarrow> l < R \<Longrightarrow> R \<notin> covered bs \<Longrightarrow>
     \<exists>k\<le>length bs. lst l (take k bs) < R \<and> (k < length bs \<longrightarrow> R < fst (bs ! k))
       \<and> (\<forall>i<k. \<not> (lst l (take i bs) < R \<and> R < fst (bs ! i)))"
proof (induction l bs rule: sep.induct)
  case (2 l s e bs)
  show ?case
  proof (cases "R < s")
    case True
    with 2 show ?thesis by (intro exI [of _ 0]) auto
  next
    case False
    with 2 obtain k where k: "k \<le> length bs" "lst e (take k bs) < R" "k < length bs \<longrightarrow> R < fst (bs ! k)"
      "\<forall>i<k. \<not> (lst e (take i bs) < R \<and> R < fst (bs ! i))" by auto
    with False show ?thesis by (intro exI [of _ "Suc k"]) (auto simp: less_Suc_eq_0_disj)
  qed
qed simp

lemma position_old:
  "sep l bs \<Longrightarrow> R \<in> covered bs \<Longrightarrow>
     R \<le> lst l bs \<and> (\<forall>i<length bs. \<not> (lst l (take i bs) < R \<and> R < fst (bs ! i)))"
proof (induction l bs rule: sep.induct)
  case (2 l s e bs)
  show ?case
  proof (cases "R \<in> covered bs")
    case True
    then have "e + 1 < R" using covered_bounds [of e bs R] 2 by simp
    with True 2 show ?thesis by (auto simp: less_Suc_eq_0_disj)
  next
    case False
    with 2 have R: "s \<le> R" "R \<le> e" by auto
    have "e \<le> lst e (take i bs)" for i
      using sep_lst [of e "take i bs"] 2(2) by (metis append_take_drop_id sep.simps(2) sep_append)
    with R sep_lst [of e bs] 2(2) show ?thesis by (auto simp: less_Suc_eq_0_disj not_less intro: order_trans)
  qed
qed simp

end
