(* ===== verification/SctpLists.thy ===== *)
theory SctpLists
  imports SctpSpec
begin

text \<open>
  What the operations of one SCTP gap list do, stated with the queries of the code: adding, removing,
  looking up, checking and moving the cumulative acknowledgment.
\<close>

section \<open>Looking up\<close>

lemma in_loop_blocks:
  assumes wf: "gap_wf c g" and t: "off c t < half" and n: "n \<le> NumGaps g"
  shows "in_loop t g [n..<NumGaps g] = Inr (off c t \<in> covered (drop n (blocks c g)))"
  using n
proof (induction "NumGaps g - n" arbitrary: n)
  case 0
  then show ?case using wf by (simp add: length_blocks gap_wf_def)
next
  case (Suc m)
  then have n: "n < NumGaps g" and IH: "in_loop t g [Suc n..<NumGaps g] = Inr (off c t \<in> covered (drop (Suc n) (blocks c g)))"
    by auto
  have ok: "arrays_ok g" using wf by (simp add: gap_wf_def)
  note B = block_bounds [OF wf n]
  have "tsnBetween (fst (gaps g ! n)) t (snd (gaps g ! n)) \<longleftrightarrow>
      off c (fst (gaps g ! n)) \<le> off c t \<and> off c t \<le> off c (snd (gaps g ! n))"
    using B t by (intro tsnBetween_base) auto
  moreover have "drop n (blocks c g) = (off c (fst (gaps g ! n)), off c (snd (gaps g ! n))) # drop (Suc n) (blocks c g)"
    using n length_blocks [OF ok, of c] blocks_nth [OF ok n, of c] by (simp add: Cons_nth_drop_Suc [symmetric])
  ultimately show ?case
    using IH n rd_slots [OF ok NumGaps_less [OF ok n]] gaps_nth [OF ok n] by (auto simp: upt_conv_Cons)
qed

lemma tsnInGapList_blocks:
  "gap_wf c g \<Longrightarrow> off c t < half \<Longrightarrow> tsnInGapList t g = Inr (off c t \<in> covered (blocks c g))"
  using in_loop_blocks [of c g t 0] by (simp add: tsnInGapList_def)

text \<open>A sequence number has been received when it is acknowledged or in a block.\<close>

definition has :: "uint32 \<Rightarrow> SctpSimpleGapList \<Rightarrow> uint32 \<Rightarrow> bool" where
  "has c g t \<longleftrightarrow> tsnLe t c \<or> tsnInGapList t g = Inr True"

lemma tsnLe_window: "off c t < half \<Longrightarrow> off c d < half \<Longrightarrow> tsnLe t d \<longleftrightarrow> off c t \<le> off c d"
  using tsn_base [of c t d] by (simp add: tsnLe_def tsnGe_off)

lemma blocks_rebase:
  assumes "\<forall>(s, e)\<in>set (blocks c g). off c d \<le> s \<and> s \<le> e"
  shows "blocks d g = map (\<lambda>(s, e). (s - off c d, e - off c d)) (blocks c g)"
proof -
  have "off c d \<le> off c a \<and> off c a \<le> off c b" if "(a, b) \<in> set (gaps g)" for a b
    using assms that unfolding blocks_def by fastforce
  then have "off d a = off c a - off c d \<and> off d b = off c b - off c d" if "(a, b) \<in> set (gaps g)" for a b
    using that off_trans [of c d] by (meson order_trans)
  then show ?thesis by (auto simp: blocks_def)
qed

lemma sep_shift: "sep l bs \<Longrightarrow> d \<le> l \<Longrightarrow> sep (l - d) (map (\<lambda>(s, e). (s - d, e - d)) bs)"
  by (induction l bs rule: sep.induct) auto

lemma covered_shift:
  "sep l bs \<Longrightarrow> d \<le> l \<Longrightarrow> x \<in> covered (map (\<lambda>(s, e). (s - d, e - d)) bs) \<longleftrightarrow> x + d \<in> covered bs"
proof (induction l bs rule: sep.induct)
  case (2 l s e bs)
  then have "x \<in> covered (map (\<lambda>(s, e). (s - d, e - d)) bs) \<longleftrightarrow> x + d \<in> covered bs" by auto
  with 2 show ?case by auto
qed simp

text \<open>Moving the base to a number below all blocks.\<close>

lemma rebase:
  assumes ok: "arrays_ok g" and sp: "sep (off c d) (blocks c g)" and bd: "\<forall>(s, e)\<in>set (blocks c g). e < half - 1"
  shows "gap_wf d g" and "off c d \<le> off c t \<Longrightarrow> off d t \<in> covered (blocks d g) \<longleftrightarrow> off c t \<in> covered (blocks c g)"
proof -
  have "\<forall>(s, e)\<in>set (blocks c g). off c d \<le> s \<and> s \<le> e" using sep_bounds [OF sp] by fastforce
  then have b: "blocks d g = map (\<lambda>(s, e). (s - off c d, e - off c d)) (blocks c g)" by (rule blocks_rebase)
  have "\<forall>(s, e)\<in>set (blocks d g). e < half - 1" using bd by (fastforce simp: b)
  then show "gap_wf d g" using sep_shift [OF sp order_refl] ok by (simp add: gap_wf_def b)
  show "off d t \<in> covered (blocks d g) \<longleftrightarrow> off c t \<in> covered (blocks c g)" if "off c d \<le> off c t"
    using covered_shift [OF sp order_refl, of "off d t"] off_trans [OF that] that by (simp add: b)
qed

lemma covered_rebase:
  assumes sp: "sep (off c d) (blocks c g)"
  shows "covered (blocks d g) = {x. x + off c d \<in> covered (blocks c g)}"
proof -
  have "\<forall>(s, e)\<in>set (blocks c g). off c d \<le> s \<and> s \<le> e" using sep_bounds [OF sp] by fastforce
  then have "blocks d g = map (\<lambda>(s, e). (s - off c d, e - off c d)) (blocks c g)" by (rule blocks_rebase)
  then have "x \<in> covered (blocks d g) \<longleftrightarrow> x + off c d \<in> covered (blocks c g)" for x
    using covered_shift [OF sp order_refl, of x] by simp
  then show ?thesis by blast
qed

lemma has_blocks:
  assumes ok: "arrays_ok g" and sp: "sep (off c d) (blocks c g)" and bd: "\<forall>(s, e)\<in>set (blocks c g). e < half - 1"
    and d: "off c d < half" and t: "off c t < half"
  shows "has d g t \<longleftrightarrow> off c t \<in> {..off c d} \<union> covered (blocks c g)"
proof (cases "off c t \<le> off c d")
  case True
  then show ?thesis using tsnLe_window [OF t d] by (simp add: has_def)
next
  case False
  then have "off d t < half" using off_trans [of c d t] t by simp
  then show ?thesis
    using False tsnLe_window [OF t d] tsnInGapList_blocks [OF rebase(1) [OF ok sp bd]] rebase(2) [OF ok sp bd, of t]
    by (simp add: has_def)
qed

section \<open>Adding\<close>

lemma updateGapList_spec:
  assumes wf: "gap_wf c g" and room: "NumGaps g < MAX_GAP_COUNT" and nz: "\<forall>(a, b)\<in>set (gaps g). a \<noteq> 0"
    and r: "0 < off c r" "off c r < half - 1"
  shows "\<exists>c' g'. gap_updateGapList r c g = Inr (True, c', off c r \<notin> covered (blocks c g), g') \<and> adds c g (off c r) c' g'"
proof -
  have ok: "arrays_ok g" and sp: "sep 0 (blocks c g)" and bd: "\<forall>(s, e)\<in>set (blocks c g). e < half - 1"
    using wf by (auto simp: gap_wf_def)
  have len: "length (blocks c g) = NumGaps g" by (rule length_blocks [OF ok])
  have fst: "fst (blocks c g ! i) = off c (fst (gaps g ! i))" if "i < NumGaps g" for i
    using blocks_nth [OF ok that, of c] by simp
  have "off r c = 2 ^ 32 - off c r" using off_swap [of c r] r by simp
  then have "\<not> tsnLe r c" using r by (simp add: tsnLe_def tsnGe_off)
  then have up: "gap_updateGapList r c g = update_loop r c (c + 1) [0..<NumGaps g] g" by (simp add: gap_updateGapList_def)
  have rh: "off c r < half" using r by simp
  note skip = update_loop_skip [OF wf nz rh]
  show ?thesis
  proof (cases "off c r \<in> covered (blocks c g)")
    case True
    note P = position_old [OF sp True]
    have "\<forall>i<NumGaps g. \<not> (lst 0 (take i (blocks c g)) < off c r \<and> off c r < off c (fst (gaps g ! i)))"
      using P len by (auto simp: fst)
    then have "gap_updateGapList r c g = append_tsn r c (lo_at c g (NumGaps g)) g" using skip [OF order_refl] up by simp
    moreover have "adds c g (off c r) c g" using True ok sp bd by (simp add: adds_def insert_absorb)
    ultimately show ?thesis using append_tsn_old [OF wf _ r(1)] P True by auto
  next
    case False
    obtain k where k: "k \<le> NumGaps g" "lst 0 (take k (blocks c g)) < off c r" "k < NumGaps g \<longrightarrow> off c r < off c (fst (gaps g ! k))"
      "\<forall>i<k. \<not> (lst 0 (take i (blocks c g)) < off c r \<and> off c r < off c (fst (gaps g ! i)))"
      using position_new [OF sp r(1) False] by (auto simp: fst len)
    note up = up [unfolded skip [OF k(1,4)]]
    show ?thesis
    proof (cases "k = NumGaps g")
      case True
      then show ?thesis using append_tsn_new [OF wf room _ r(2)] k(2) up False len by simp
    next
      case lt: False
      then have kl: "k < NumGaps g" using k(1) by simp
      have ka: "gaps g ! k \<in> set (gaps g)" using kl length_gaps [OF ok] by simp
      note B = block_bounds [OF wf kl]
      have "off c (fst (gaps g ! k) - 1) = off c (fst (gaps g ! k)) - 1" using off_pred [of c "fst (gaps g ! k)"] B by simp
      then have "tsnBetween (lo_at c g k) r (fst (gaps g ! k) - 1)"
        using tsnBetween_base [of c "lo_at c g k" r "fst (gaps g ! k) - 1"] lo_at_off [OF wf k(1)] k(2,3) kl B r by auto
      moreover have "fst (gaps g ! k) > 0" using ka nz by (auto simp: word_gt_0 case_prod_beta)
      ultimately have "gap_updateGapList r c g = fill_gap r c (lo_at c g k) (fst (gaps g ! k) - 1) k g"
        using up kl rd_slots [OF ok NumGaps_less [OF ok kl]] gaps_nth [OF ok kl] by (simp add: upt_conv_Cons)
      then show ?thesis using fill_gap_spec [OF wf kl room k(2)] k(3) kl False by auto
    qed
  qed
qed

lemma has_self: "gap_wf c g \<Longrightarrow> off c t < half \<Longrightarrow> has c g t \<longleftrightarrow> t = c \<or> off c t \<in> covered (blocks c g)"
  using has_blocks [of g c c t] by (auto simp: gap_wf_def)

lemma adds_has:
  assumes "adds c g R c' g'" and "gap_wf c g" and "off c t < half" and "0 < R"
  shows "has c' g' t \<longleftrightarrow> has c g t \<or> off c t = R"
proof -
  have "off c c' < half" using assms(1) by (simp add: adds_def)
  moreover have "{..off c c'} = insert 0 {1..off c c'}" by auto
  ultimately have "has c' g' t \<longleftrightarrow> off c t \<in> insert 0 ({1..off c c'} \<union> covered (blocks c g'))"
    using assms(1,3) has_blocks [of g' c c' t] by (simp add: adds_def)
  also have "{1..off c c'} \<union> covered (blocks c g') = insert R (covered (blocks c g))" using assms(1) by (simp add: adds_def)
  finally show ?thesis using has_self [OF assms(2,3)] by auto
qed

lemma adds_wf: "adds c g R c' g' \<Longrightarrow> gap_wf c' g'"
  using rebase(1) [of g' c c'] by (simp add: adds_def)

lemma next_missing: "gap_wf c g \<Longrightarrow> \<not> has c g (c + 1)"
  using has_self [of c g "c + 1"] off_add [of c 1] covered_bounds [of 0 "blocks c g" 1] by (auto simp: gap_wf_def)

text \<open>
  (C36) Adding a sequence number \<open>r\<close> from the window behind the cumulative acknowledgment to a gap list
  with a free entry and no block starting at number 0: afterwards exactly the numbers received before
  and \<open>r\<close> count as received, the chunk is reported as new exactly when its number was in no block, the
  blocks are again non-empty, increasing and separated, and the number after the new cumulative
  acknowledgment is missing, so the acknowledgment is as high as it can be.
\<close>

theorem gap_update_adds:
  assumes "gap_wf c g" and "NumGaps g < MAX_GAP_COUNT" and "\<forall>(a, b)\<in>set (gaps g). a \<noteq> 0"
    and "r \<noteq> c" and "off c r < half - 1"
  shows "\<exists>c' g'. gap_updateGapList r c g = Inr (True, c', tsnInGapList r g = Inr False, g') \<and> gap_wf c' g'
           \<and> (\<forall>t. off c t < half \<longrightarrow> (has c' g' t \<longleftrightarrow> has c g t \<or> t = r)) \<and> \<not> has c' g' (c' + 1)"
proof -
  have r: "0 < off c r" using assms(4) by (simp add: off_pos)
  obtain c' g' where u: "gap_updateGapList r c g = Inr (True, c', off c r \<notin> covered (blocks c g), g')" "adds c g (off c r) c' g'"
    using updateGapList_spec [OF assms(1-3) r assms(5)] by blast
  have "tsnInGapList r g = Inr (off c r \<in> covered (blocks c g))" using tsnInGapList_blocks [OF assms(1), of r] assms(5) by simp
  moreover have "\<forall>t. off c t < half \<longrightarrow> (has c' g' t \<longleftrightarrow> has c g t \<or> t = r)"
    using adds_has [OF u(2) assms(1) _ r] off_inject [of c _ r] by simp
  moreover have "gap_wf c' g'" using adds_wf [OF u(2)] .
  ultimately show ?thesis using u(1) next_missing [of c' g'] by auto
qed

definition gap_example :: SctpSimpleGapList where
  "gap_example = \<lparr>NumGaps = 1, GapStartList = 12 # replicate 499 0, GapStopList = 13 # replicate 499 0\<rparr>"

lemma gap_example_wf: "gap_wf 10 gap_example" and gap_example_gaps: "gaps gap_example = [(12, 13)]"
  by (simp_all add: gap_wf_def arrays_ok_def MAX_GAP_COUNT_def blocks_def gaps_def slots_def gap_example_def off_def)

theorem gap_update_adds_witness:
  "\<exists>c' g'. gap_updateGapList 11 10 gap_example = Inr (True, c', True, g') \<and> has c' g' 11 \<and> gap_wf c' g'"
proof -
  have "NumGaps gap_example < MAX_GAP_COUNT" "(11 :: uint32) \<noteq> 10" "off 10 11 < half - 1" "off 10 11 < half"
    by (simp_all add: gap_example_def MAX_GAP_COUNT_def off_def)
  moreover have "\<forall>(a, b)\<in>set (gaps gap_example). a \<noteq> 0" by (simp add: gap_example_gaps)
  moreover have "tsnInGapList 11 gap_example = Inr False"
    by (simp add: tsnInGapList_def gap_example_def rd_def tsnBetween_def SCTP_UINT32_GE_def SCTP_UINT32_GT_def)
  ultimately show ?thesis using gap_update_adds [OF gap_example_wf, of 11] by fastforce
qed

section \<open>The block at number 0 and the advance of the acknowledgment\<close>

text \<open>
  A block that starts at number 0 is passed over: number 0xffffffff, received after number 0 on a
  connection that wraps around, is not recorded.
\<close>

definition gap_at_zero :: SctpSimpleGapList where
  "gap_at_zero = \<lparr>NumGaps = 1, GapStartList = 0 # replicate 499 0, GapStopList = 0 # replicate 499 0\<rparr>"

theorem block_at_zero_skipped:
  "gap_wf 0xfffffff0 gap_at_zero"
  "gap_updateGapList 0xffffffff 0xfffffff0 gap_at_zero = Inr (True, 0xfffffff0, False, gap_at_zero)"
  "tsnInGapList 0xffffffff gap_at_zero = Inr False"
  by (simp_all add: gap_wf_def arrays_ok_def MAX_GAP_COUNT_def blocks_def gaps_def slots_def gap_at_zero_def off_def
      gap_updateGapList_def append_tsn_def tsnInGapList_def rd_def tsnBetween_def tsnLe_def tsnGt_def SCTP_UINT32_GE_def SCTP_UINT32_GT_def)

text \<open>
  The advance of the acknowledgment over the first block leaves the number of blocks as it is: the
  block stays listed behind the acknowledgment, and the consistency check fails.
\<close>

theorem advance_keeps_block:
  assumes "gap_tryToAdvanceCumAckTsn 11 gap_example = Inr (p, c, g)"
  shows "p" and "c = 13" and "gaps g = [(12, 13)]" and "gap_check c g = Inl AssertionFailed"
proof -
  have "gap_tryToAdvanceCumAckTsn 11 gap_example = Inr (True, 13, gap_example)"
    by (simp add: gap_tryToAdvanceCumAckTsn_def gap_example_def rd_def)
  then have eq: "p" "c = 13" "g = gap_example" using assms by simp_all
  then show "p" "c = 13" "gaps g = [(12, 13)]" by (simp_all add: gap_example_gaps)
  show "gap_check c g = Inl AssertionFailed" unfolding eq
    by (simp add: gap_check_def gap_example_def rd_def tsnGt_def SCTP_UINT32_GT_def)
qed

section \<open>Checking\<close>

lemma check_loop_blocks:
  assumes ok: "arrays_ok g" and w: "\<forall>(s, e)\<in>set (blocks c g). s < half \<and> e < half - 1" and n: "n \<le> NumGaps g"
  shows "check_loop c g [n..<NumGaps g]
    = (if sep (lst 0 (take n (blocks c g))) (drop n (blocks c g)) then Inr () else Inl AssertionFailed)"
  using n
proof (induction "NumGaps g - n" arbitrary: n)
  case 0
  then show ?case using ok by (simp add: length_blocks)
next
  case (Suc m)
  let ?s = "off c (fst (gaps g ! n))" and ?e = "off c (snd (gaps g ! n))" and ?l = "lst 0 (take n (blocks c g))"
  from Suc have n: "n < NumGaps g" and n': "n \<le> NumGaps g" by auto
  have w': "off c (fst (gaps g ! i)) < half" "off c (snd (gaps g ! i)) < half - 1" if "i < NumGaps g" for i
    using w blocks_nth [OF ok that, of c] nth_mem [of i "blocks c g"] that length_blocks [OF ok, of c] by auto
  have D: "drop n (blocks c g) = (?s, ?e) # drop (Suc n) (blocks c g)"
    using n length_blocks [OF ok, of c] blocks_nth [OF ok n, of c] by (simp add: Cons_nth_drop_Suc [symmetric])
  have T: "take (Suc n) (blocks c g) = take n (blocks c g) @ [(?s, ?e)]"
    using n length_blocks [OF ok, of c] blocks_nth [OF ok n, of c] by (simp add: take_Suc_conv_app_nth)
  have IH: "check_loop c g [Suc n..<NumGaps g] = (if sep ?e (drop (Suc n) (blocks c g)) then Inr () else Inl AssertionFailed)"
    using Suc.hyps(1) [of "Suc n"] Suc.hyps(2) n by (simp add: T)
  let ?p = "if n = 0 then c else snd (gaps g ! (n - 1))"
  have p: "off c ?p = ?l" using lst_take [OF ok n', of c] by simp
  have "off c ?p < half - 1" using w'(2) [of "n - 1"] n by simp
  then have "off c (?p + 1) = ?l + 1" "?l + 1 < half" using off_succ [of c ?p] p by simp_all
  then have "tsnGt (fst (gaps g ! n)) (?p + 1) \<longleftrightarrow> ?l + 1 < ?s" using tsnGt_base [of c _ "?p + 1"] w'(1) [OF n] by simp
  moreover have "tsnLe (fst (gaps g ! n)) (snd (gaps g ! n)) \<longleftrightarrow> ?s \<le> ?e"
    using tsnLe_window [of c "fst (gaps g ! n)" "snd (gaps g ! n)"] w' [OF n] by simp
  moreover have "(if n = 0 then Inr c else rd (GapStopList g) (n - 1)) = Inr ?p"
    using rd_slots [OF ok, of "n - 1"] NumGaps_less [OF ok, of "n - 1"] gaps_nth [OF ok, of "n - 1"] n by auto
  ultimately show ?case
    using IH n rd_slots [OF ok NumGaps_less [OF ok n]] gaps_nth [OF ok n] by (simp add: upt_conv_Cons D)
qed

text \<open>
  The consistency check of a gap list whose blocks lie in the window behind the cumulative
  acknowledgment passes exactly for the lists the other operations work on (non-empty, increasing
  blocks with a missing number in front of each), and otherwise fails with the assertion.
\<close>

theorem gap_check_exact:
  assumes "arrays_ok g" and "\<forall>(a, b)\<in>set (gaps g). off c a < half \<and> off c b < half - 1"
  shows "gap_check c g = (if gap_wf c g then Inr () else Inl AssertionFailed)"
proof -
  have w: "\<forall>(s, e)\<in>set (blocks c g). s < half \<and> e < half - 1" using assms(2) by (auto simp: blocks_def)
  then have "gap_wf c g \<longleftrightarrow> sep 0 (blocks c g)" using assms(1) by (auto simp: gap_wf_def)
  then show ?thesis using check_loop_blocks [OF assms(1) w, of 0] by (simp add: gap_check_def)
qed

theorem gap_check_exact_witness: "gap_check 10 gap_example = Inr ()"
  using gap_check_exact [of gap_example 10] gap_example_wf by (simp add: gap_wf_def gap_example_gaps off_def)

section \<open>Removing\<close>








section \<open>Moving the cumulative acknowledgment\<close>

lemma count_covered_spec:
  assumes wf: "gap_wf c g" and d: "off c d < half" and n: "n \<le> NumGaps g"
  shows "count_covered d g [n..<NumGaps g] = Inr (length (takeWhile (\<lambda>(s, e). s \<le> off c d) (drop n (blocks c g))))"
  using n
proof (induction "NumGaps g - n" arbitrary: n)
  case 0
  then show ?case using wf by (simp add: length_blocks gap_wf_def)
next
  case (Suc m)
  then have n: "n < NumGaps g" by auto
  have ok: "arrays_ok g" using wf by (simp add: gap_wf_def)
  note B = block_bounds [OF wf n]
  have D: "drop n (blocks c g) = (off c (fst (gaps g ! n)), off c (snd (gaps g ! n))) # drop (Suc n) (blocks c g)"
    using n length_blocks [OF ok, of c] blocks_nth [OF ok n, of c] by (simp add: Cons_nth_drop_Suc [symmetric])
  have "tsnGe d (fst (gaps g ! n)) \<longleftrightarrow> off c (fst (gaps g ! n)) \<le> off c d"
    using tsn_base [of c "fst (gaps g ! n)" d] B d by (simp add: tsnGe_def tsnGe_off)
  then show ?case
    using Suc.hyps(1) [of "Suc n"] Suc.hyps(2) n rd_slots [OF ok NumGaps_less [OF ok n]] gaps_nth [OF ok n]
    by (simp add: upt_conv_Cons D)
qed

lemma forward_spec:
  assumes wf: "gap_wf c g" and d: "off c d < half"
  shows "\<exists>g'. gap_forwardCumAckTsn d g = Inr g' \<and> arrays_ok g' \<and> blocks c g' = dropWhile (\<lambda>(s, e). s \<le> off c d) (blocks c g)"
proof (cases "NumGaps g > 0")
  case False
  then show ?thesis using wf length_blocks [of g c] by (auto simp: gap_forwardCumAckTsn_def gap_wf_def)
next
  case True
  have ok: "arrays_ok g" using wf by (simp add: gap_wf_def)
  let ?P = "\<lambda>(s, e). s \<le> off c d"
  define n where "n = length (takeWhile ?P (blocks c g))"
  have n: "n \<le> NumGaps g" using length_takeWhile_le [of ?P "blocks c g"] length_blocks [OF ok, of c] by (simp add: n_def)
  have cnt: "count_covered d g [0..<NumGaps g] = Inr n" using count_covered_spec [OF wf d, of 0] by (simp add: n_def)
  have dw: "dropWhile ?P (blocks c g) = drop n (blocks c g)" by (simp add: n_def dropWhile_eq_drop)
  show ?thesis
  proof (cases "n = 0")
    case True
    then show ?thesis using cnt ok dw \<open>NumGaps g > 0\<close> by (simp add: gap_forwardCumAckTsn_def)
  next
    case False
    have "map (\<lambda>i. (i - n, i)) [n..<NumGaps g] = map (\<lambda>j. (j, j + n)) [0..<NumGaps g - n]"
      using n by (intro nth_equalityI) auto
    moreover have a: "NumGaps g - n + n \<le> MAX_GAP_COUNT" "0 < n" "NumGaps g - n \<le> NumGaps g - n" "NumGaps g - n + n \<le> NumGaps g" "0 \<le> NumGaps g - n"
      using ok n False by (auto simp: arrays_ok_def)
    obtain g1 where g1: "move (map (\<lambda>j. (j, j + n)) [0..<NumGaps g - n]) g = Inr g1" "arrays_ok g1" "NumGaps g1 = NumGaps g"
      "take (NumGaps g - n) (slots g1) = take 0 (gaps g) @ take (NumGaps g - n - 0) (drop (0 + n) (gaps g))"
      by (rule move_down_gaps [OF ok a])
    have "gaps (g1\<lparr>NumGaps := NumGaps g1 - n\<rparr>) = drop n (gaps g)"
      using g1(3,4) length_gaps [OF ok] by (simp add: gaps_of_slots)
    then have "blocks c (g1\<lparr>NumGaps := NumGaps g1 - n\<rparr>) = drop n (blocks c g)" by (simp add: blocks_def drop_map)
    moreover have "arrays_ok (g1\<lparr>NumGaps := NumGaps g1 - n\<rparr>)" using g1(2) by (auto simp: arrays_ok_def)
    ultimately show ?thesis using g1(1) cnt dw False True by (simp add: gap_forwardCumAckTsn_def)
  qed
qed

end
