(* ===== verification/SctpCombined.thy ===== *)
theory SctpCombined
  imports SctpLists
begin

text \<open>
  The three gap lists of an SCTP association together: the combined list is the union of the lists
  of revokable and of non-revokable numbers, and receiving a number keeps them so.
\<close>

section \<open>The invariant\<close>



section \<open>Cutting the blocks at the acknowledgment\<close>




section \<open>Receiving a number\<close>









end
