(* ===== verification/TcpFsm.thy ===== *)
theory TcpFsm
  imports Omnet
begin

text \<open>
  The state machine of a TCP connection (\<open>transportlayer/tcp/TcpConnectionBase\<close> of the INET framework):
  states, events, the transition function and what happens on entering a state. A timer pointer is
  \<open>None\<close> when it is null and otherwise says whether the timer is scheduled; using a null pointer is an
  error. Of the state variables the machine reads only \<open>active\<close>, of the congestion control object it
  only needs to exist. The code that analyses segments and commands is not part of this theory: it
  determines the event, and may schedule timers and send indications before.
\<close>

section \<open>States, events, indications\<close>

datatype TcpState =
    TCP_S_INIT | TCP_S_CLOSED | TCP_S_LISTEN | TCP_S_SYN_SENT | TCP_S_SYN_RCVD | TCP_S_ESTABLISHED
  | TCP_S_CLOSE_WAIT | TCP_S_LAST_ACK | TCP_S_FIN_WAIT_1 | TCP_S_FIN_WAIT_2 | TCP_S_CLOSING | TCP_S_TIME_WAIT

datatype TcpEventCode =
    TCP_E_IGNORE | TCP_E_OPEN_ACTIVE | TCP_E_OPEN_PASSIVE | TCP_E_ACCEPT | TCP_E_SEND | TCP_E_CLOSE
  | TCP_E_ABORT | TCP_E_DESTROY | TCP_E_STATUS | TCP_E_QUEUE_BYTES_LIMIT | TCP_E_READ
  | TCP_E_RCV_DATA | TCP_E_RCV_ACK | TCP_E_RCV_SYN | TCP_E_RCV_SYN_ACK | TCP_E_RCV_FIN
  | TCP_E_RCV_FIN_ACK | TCP_E_RCV_RST | TCP_E_RCV_UNEXP_SYN
  | TCP_E_TIMEOUT_2MSL | TCP_E_TIMEOUT_CONN_ESTAB | TCP_E_TIMEOUT_FIN_WAIT_2

datatype TcpStatusInd =
    TCP_I_DATA | TCP_I_URGENT_DATA | TCP_I_AVAILABLE | TCP_I_ESTABLISHED | TCP_I_PEER_CLOSED | TCP_I_CLOSED
  | TCP_I_CONNECTION_REFUSED | TCP_I_CONNECTION_RESET | TCP_I_TIMED_OUT | TCP_I_STATUS | TCP_I_SEND_MSG
  | TCP_I_DATA_NOTIFICATION

definition stateName :: "TcpState \<Rightarrow> string" where
  "stateName s = (case s of
     TCP_S_INIT \<Rightarrow> ''INIT'' | TCP_S_CLOSED \<Rightarrow> ''CLOSED'' | TCP_S_LISTEN \<Rightarrow> ''LISTEN'' | TCP_S_SYN_SENT \<Rightarrow> ''SYN_SENT''
   | TCP_S_SYN_RCVD \<Rightarrow> ''SYN_RCVD'' | TCP_S_ESTABLISHED \<Rightarrow> ''ESTABLISHED'' | TCP_S_CLOSE_WAIT \<Rightarrow> ''CLOSE_WAIT''
   | TCP_S_LAST_ACK \<Rightarrow> ''LAST_ACK'' | TCP_S_FIN_WAIT_1 \<Rightarrow> ''FIN_WAIT_1'' | TCP_S_FIN_WAIT_2 \<Rightarrow> ''FIN_WAIT_2''
   | TCP_S_CLOSING \<Rightarrow> ''CLOSING'' | TCP_S_TIME_WAIT \<Rightarrow> ''TIME_WAIT'')"

text \<open>The events without a case of their own keep the initial \<open>unknown\<close>.\<close>

definition eventName :: "TcpEventCode \<Rightarrow> string" where
  "eventName e = (case e of
     TCP_E_IGNORE \<Rightarrow> ''IGNORE'' | TCP_E_OPEN_ACTIVE \<Rightarrow> ''OPEN_ACTIVE'' | TCP_E_OPEN_PASSIVE \<Rightarrow> ''OPEN_PASSIVE''
   | TCP_E_SEND \<Rightarrow> ''SEND'' | TCP_E_CLOSE \<Rightarrow> ''CLOSE'' | TCP_E_ABORT \<Rightarrow> ''ABORT'' | TCP_E_STATUS \<Rightarrow> ''STATUS''
   | TCP_E_QUEUE_BYTES_LIMIT \<Rightarrow> ''QUEUE_BYTES_LIMIT'' | TCP_E_RCV_DATA \<Rightarrow> ''RCV_DATA'' | TCP_E_RCV_ACK \<Rightarrow> ''RCV_ACK''
   | TCP_E_RCV_SYN \<Rightarrow> ''RCV_SYN'' | TCP_E_RCV_SYN_ACK \<Rightarrow> ''RCV_SYN_ACK'' | TCP_E_RCV_FIN \<Rightarrow> ''RCV_FIN''
   | TCP_E_RCV_FIN_ACK \<Rightarrow> ''RCV_FIN_ACK'' | TCP_E_RCV_RST \<Rightarrow> ''RCV_RST'' | TCP_E_RCV_UNEXP_SYN \<Rightarrow> ''RCV_UNEXP_SYN''
   | TCP_E_TIMEOUT_2MSL \<Rightarrow> ''TIMEOUT_2MSL'' | TCP_E_TIMEOUT_CONN_ESTAB \<Rightarrow> ''TIMEOUT_CONN_ESTAB''
   | TCP_E_TIMEOUT_FIN_WAIT_2 \<Rightarrow> ''TIMEOUT_FIN_WAIT_2'' | _ \<Rightarrow> ''unknown'')"

definition indicationName :: "TcpStatusInd \<Rightarrow> string" where
  "indicationName i = (case i of
     TCP_I_DATA \<Rightarrow> ''DATA'' | TCP_I_URGENT_DATA \<Rightarrow> ''URGENT_DATA'' | TCP_I_AVAILABLE \<Rightarrow> ''AVAILABLE''
   | TCP_I_ESTABLISHED \<Rightarrow> ''ESTABLISHED'' | TCP_I_PEER_CLOSED \<Rightarrow> ''PEER_CLOSED'' | TCP_I_CLOSED \<Rightarrow> ''CLOSED''
   | TCP_I_CONNECTION_REFUSED \<Rightarrow> ''CONNECTION_REFUSED'' | TCP_I_CONNECTION_RESET \<Rightarrow> ''CONNECTION_RESET''
   | TCP_I_TIMED_OUT \<Rightarrow> ''TIMED_OUT'' | TCP_I_STATUS \<Rightarrow> ''STATUS'' | TCP_I_SEND_MSG \<Rightarrow> ''SEND_MSG'' | _ \<Rightarrow> ''unknown'')"

text \<open>The command codes of the applications.\<close>

definition preanalyseAppCommandEvent :: "int \<Rightarrow> error + TcpEventCode" where
  "preanalyseAppCommandEvent commandCode =
     (if commandCode = 1 then Inr TCP_E_OPEN_ACTIVE
      else if commandCode = 2 then Inr TCP_E_OPEN_PASSIVE
      else if commandCode = 3 then Inr TCP_E_ACCEPT
      else if commandCode = 4 then Inr TCP_E_SEND
      else if commandCode = 5 then Inr TCP_E_CLOSE
      else if commandCode = 6 then Inr TCP_E_ABORT
      else if commandCode = 10 then Inr TCP_E_DESTROY
      else if commandCode = 7 then Inr TCP_E_STATUS
      else if commandCode = 8 then Inr TCP_E_QUEUE_BYTES_LIMIT
      else if commandCode = 9 then Inr TCP_E_READ
      else Inl RuntimeError)"

section \<open>The connection\<close>

text \<open>
  Calls that leave the connection are recorded in \<open>outputs\<close>, the newest first.
\<close>

datatype tcp_output = Indication TcpStatusInd | ConnectionClosed

type_synonym timer = "bool option"

record TcpConnection =
  fsm :: TcpState
  active :: "bool option"       \<comment> \<open>\<open>state->active\<close>, \<open>None\<close> while \<open>state\<close> is null\<close>
  tcpAlgorithm :: bool          \<comment> \<open>whether the pointer is set\<close>
  the2MSLTimer :: timer
  connEstabTimer :: timer
  finWait2Timer :: timer
  synRexmitTimer :: timer
  outputs :: "tcp_output list"

definition TcpConnection_new :: TcpConnection where
  "TcpConnection_new = \<lparr>fsm = TCP_S_INIT, active = None, tcpAlgorithm = False, the2MSLTimer = Some False,
     connEstabTimer = Some False, finWait2Timer = Some False, synRexmitTimer = Some False, outputs = []\<rparr>"

definition put :: "tcp_output \<Rightarrow> TcpConnection \<Rightarrow> TcpConnection" where
  "put x c = c\<lparr>outputs := x # outputs c\<rparr>"

text \<open>\<open>cancelEvent(t)\<close> and \<open>if (t) cancelEvent(t)\<close>.\<close>

definition cancelEvent :: "timer \<Rightarrow> error + timer" where
  "cancelEvent t = (if t = None then Inl NullDereference else Inr (Some False))"

definition cancelIfSet :: "timer \<Rightarrow> timer" where
  "cancelIfSet t = map_option (\<lambda>_. False) t"

definition stateEntered :: "TcpState \<Rightarrow> TcpState \<Rightarrow> TcpEventCode \<Rightarrow> TcpConnection \<Rightarrow> error + TcpConnection" where
  "stateEntered s oldState event c =
     (if s = TCP_S_LISTEN then
        if connEstabTimer c \<noteq> None \<and> synRexmitTimer c \<noteq> None then
          ebind (cancelEvent (connEstabTimer c)) (\<lambda>t. let c = c\<lparr>connEstabTimer := t\<rparr> in
          ebind (cancelEvent (synRexmitTimer c)) (\<lambda>t. Inr (c\<lparr>synRexmitTimer := t\<rparr>)))
        else Inl AssertionFailed
      else if s = TCP_S_ESTABLISHED then
        ebind (cancelEvent (connEstabTimer c)) (\<lambda>_. let c = c\<lparr>connEstabTimer := None\<rparr> in
        ebind (cancelEvent (synRexmitTimer c)) (\<lambda>_. Inr (c\<lparr>synRexmitTimer := None\<rparr>)))
      else if s \<in> {TCP_S_CLOSE_WAIT, TCP_S_LAST_ACK, TCP_S_FIN_WAIT_1, TCP_S_FIN_WAIT_2, TCP_S_CLOSING} then
        let c = (if s = TCP_S_CLOSE_WAIT then put (Indication TCP_I_PEER_CLOSED) c else c)
        in Inr (c\<lparr>connEstabTimer := cancelIfSet (connEstabTimer c), synRexmitTimer := cancelIfSet (synRexmitTimer c)\<rparr>)
      else if s = TCP_S_TIME_WAIT then Inr (put (Indication TCP_I_CLOSED) c)
      else if s = TCP_S_CLOSED then
        let c = (if oldState \<noteq> TCP_S_TIME_WAIT \<and> event \<noteq> TCP_E_ABORT then put (Indication TCP_I_CLOSED) c else c);
            c = c\<lparr>the2MSLTimer := cancelIfSet (the2MSLTimer c), connEstabTimer := cancelIfSet (connEstabTimer c),
                  finWait2Timer := cancelIfSet (finWait2Timer c), synRexmitTimer := cancelIfSet (synRexmitTimer c)\<rparr>
        in if tcpAlgorithm c then Inr (put ConnectionClosed c) else Inl NullDereference
      else Inr c)"

section \<open>The transitions\<close>

text \<open>One definition per state: where the event leads; \<open>None\<close> is \<open>break\<close> without a transition.\<close>

definition from_INIT :: "TcpEventCode \<Rightarrow> TcpState option" where
  "from_INIT event = (case event of
     TCP_E_OPEN_PASSIVE \<Rightarrow> Some TCP_S_LISTEN
   | TCP_E_OPEN_ACTIVE \<Rightarrow> Some TCP_S_SYN_SENT
   | TCP_E_DESTROY \<Rightarrow> Some TCP_S_CLOSED
   | _ \<Rightarrow> None)"

definition from_LISTEN :: "TcpEventCode \<Rightarrow> TcpState option" where
  "from_LISTEN event = (case event of
     TCP_E_OPEN_ACTIVE \<Rightarrow> Some TCP_S_SYN_SENT
   | TCP_E_SEND \<Rightarrow> Some TCP_S_SYN_SENT
   | TCP_E_CLOSE \<Rightarrow> Some TCP_S_CLOSED
   | TCP_E_ABORT \<Rightarrow> Some TCP_S_CLOSED
   | TCP_E_DESTROY \<Rightarrow> Some TCP_S_CLOSED
   | TCP_E_RCV_SYN \<Rightarrow> Some TCP_S_SYN_RCVD
   | _ \<Rightarrow> None)"

text \<open>In \<open>SYN_RCVD\<close> two events read \<open>state->active\<close>.\<close>

definition back_to :: "bool option \<Rightarrow> error + TcpState option" where
  "back_to act = (case act of None \<Rightarrow> Inl NullDereference
     | Some True \<Rightarrow> Inr (Some TCP_S_CLOSED) | Some False \<Rightarrow> Inr (Some TCP_S_LISTEN))"

definition from_SYN_RCVD :: "bool option \<Rightarrow> TcpEventCode \<Rightarrow> error + TcpState option" where
  "from_SYN_RCVD act event = (case event of
     TCP_E_CLOSE \<Rightarrow> Inr (Some TCP_S_FIN_WAIT_1)
   | TCP_E_ABORT \<Rightarrow> Inr (Some TCP_S_CLOSED)
   | TCP_E_DESTROY \<Rightarrow> Inr (Some TCP_S_CLOSED)
   | TCP_E_TIMEOUT_CONN_ESTAB \<Rightarrow> back_to act
   | TCP_E_RCV_RST \<Rightarrow> back_to act
   | TCP_E_RCV_ACK \<Rightarrow> Inr (Some TCP_S_ESTABLISHED)
   | TCP_E_RCV_FIN \<Rightarrow> Inr (Some TCP_S_CLOSE_WAIT)
   | TCP_E_RCV_UNEXP_SYN \<Rightarrow> Inr (Some TCP_S_CLOSED)
   | _ \<Rightarrow> Inr None)"

definition from_SYN_SENT :: "TcpEventCode \<Rightarrow> TcpState option" where
  "from_SYN_SENT event =
     (if event \<in> {TCP_E_CLOSE, TCP_E_ABORT, TCP_E_DESTROY, TCP_E_TIMEOUT_CONN_ESTAB, TCP_E_RCV_RST} then Some TCP_S_CLOSED
      else if event = TCP_E_RCV_SYN_ACK then Some TCP_S_ESTABLISHED
      else if event = TCP_E_RCV_SYN then Some TCP_S_SYN_RCVD
      else None)"

definition from_ESTABLISHED :: "TcpEventCode \<Rightarrow> TcpState option" where
  "from_ESTABLISHED event =
     (if event = TCP_E_CLOSE then Some TCP_S_FIN_WAIT_1
      else if event \<in> {TCP_E_ABORT, TCP_E_DESTROY, TCP_E_RCV_RST, TCP_E_RCV_UNEXP_SYN} then Some TCP_S_CLOSED
      else if event = TCP_E_RCV_FIN then Some TCP_S_CLOSE_WAIT
      else None)"

definition from_CLOSE_WAIT :: "TcpEventCode \<Rightarrow> TcpState option" where
  "from_CLOSE_WAIT event =
     (if event = TCP_E_CLOSE then Some TCP_S_LAST_ACK
      else if event \<in> {TCP_E_ABORT, TCP_E_DESTROY, TCP_E_RCV_RST, TCP_E_RCV_UNEXP_SYN} then Some TCP_S_CLOSED
      else None)"

definition from_LAST_ACK :: "TcpEventCode \<Rightarrow> TcpState option" where
  "from_LAST_ACK event =
     (if event \<in> {TCP_E_ABORT, TCP_E_DESTROY, TCP_E_RCV_ACK, TCP_E_RCV_RST, TCP_E_RCV_UNEXP_SYN} then Some TCP_S_CLOSED
      else None)"

definition from_FIN_WAIT_1 :: "TcpEventCode \<Rightarrow> TcpState option" where
  "from_FIN_WAIT_1 event =
     (if event \<in> {TCP_E_ABORT, TCP_E_DESTROY, TCP_E_RCV_RST, TCP_E_RCV_UNEXP_SYN} then Some TCP_S_CLOSED
      else if event = TCP_E_RCV_FIN then Some TCP_S_CLOSING
      else if event = TCP_E_RCV_ACK then Some TCP_S_FIN_WAIT_2
      else if event = TCP_E_RCV_FIN_ACK then Some TCP_S_TIME_WAIT
      else None)"

definition from_FIN_WAIT_2 :: "TcpEventCode \<Rightarrow> TcpState option" where
  "from_FIN_WAIT_2 event =
     (if event \<in> {TCP_E_ABORT, TCP_E_DESTROY, TCP_E_TIMEOUT_FIN_WAIT_2, TCP_E_RCV_RST, TCP_E_RCV_UNEXP_SYN} then Some TCP_S_CLOSED
      else if event = TCP_E_RCV_FIN then Some TCP_S_TIME_WAIT
      else None)"

definition from_CLOSING :: "TcpEventCode \<Rightarrow> TcpState option" where
  "from_CLOSING event =
     (if event \<in> {TCP_E_ABORT, TCP_E_DESTROY, TCP_E_RCV_RST, TCP_E_RCV_UNEXP_SYN} then Some TCP_S_CLOSED
      else if event = TCP_E_RCV_ACK then Some TCP_S_TIME_WAIT
      else None)"

definition from_TIME_WAIT :: "TcpEventCode \<Rightarrow> TcpState option" where
  "from_TIME_WAIT event =
     (if event \<in> {TCP_E_ABORT, TCP_E_TIMEOUT_2MSL, TCP_E_RCV_RST, TCP_E_RCV_UNEXP_SYN, TCP_E_DESTROY} then Some TCP_S_CLOSED
      else None)"

definition transition :: "TcpEventCode \<Rightarrow> TcpConnection \<Rightarrow> error + TcpState option" where
  "transition event c = (case fsm c of
     TCP_S_INIT \<Rightarrow> Inr (from_INIT event)
   | TCP_S_LISTEN \<Rightarrow> Inr (from_LISTEN event)
   | TCP_S_SYN_RCVD \<Rightarrow> from_SYN_RCVD (active c) event
   | TCP_S_SYN_SENT \<Rightarrow> Inr (from_SYN_SENT event)
   | TCP_S_ESTABLISHED \<Rightarrow> Inr (from_ESTABLISHED event)
   | TCP_S_CLOSE_WAIT \<Rightarrow> Inr (from_CLOSE_WAIT event)
   | TCP_S_LAST_ACK \<Rightarrow> Inr (from_LAST_ACK event)
   | TCP_S_FIN_WAIT_1 \<Rightarrow> Inr (from_FIN_WAIT_1 event)
   | TCP_S_FIN_WAIT_2 \<Rightarrow> Inr (from_FIN_WAIT_2 event)
   | TCP_S_CLOSING \<Rightarrow> Inr (from_CLOSING event)
   | TCP_S_TIME_WAIT \<Rightarrow> Inr (from_TIME_WAIT event)
   | TCP_S_CLOSED \<Rightarrow> Inr None)"

text \<open>Returns false when the connection is closed and is to be removed.\<close>

definition performStateTransition :: "TcpEventCode \<Rightarrow> TcpConnection \<Rightarrow> error + bool \<times> TcpConnection" where
  "performStateTransition event c =
     (if fsm c = TCP_S_CLOSED then Inl AssertionFailed
      else if event = TCP_E_IGNORE then Inr (True, c)
      else
        let oldState = fsm c in
        ebind (transition event c) (\<lambda>target.
        let c = (case target of None \<Rightarrow> c | Some s \<Rightarrow> c\<lparr>fsm := s\<rparr>) in
        ebind (if oldState \<noteq> fsm c then stateEntered (fsm c) oldState event c else Inr c) (\<lambda>c.
          Inr (fsm c \<noteq> TCP_S_CLOSED, c))))"

section \<open>The expiry of the timers of the machine\<close>

definition process_TIMEOUT_CONN_ESTAB :: "TcpConnection \<Rightarrow> error + TcpConnection" where
  "process_TIMEOUT_CONN_ESTAB c =
     (if fsm c \<in> {TCP_S_SYN_RCVD, TCP_S_SYN_SENT} then
        case active c of None \<Rightarrow> Inl NullDereference
        | Some act \<Rightarrow> Inr (if act then put (Indication TCP_I_TIMED_OUT) c else c)
      else Inl RuntimeError)"

definition process_TIMEOUT_2MSL :: "TcpConnection \<Rightarrow> error + TcpConnection" where
  "process_TIMEOUT_2MSL c = (if fsm c = TCP_S_TIME_WAIT then Inr c else Inl RuntimeError)"

definition process_TIMEOUT_FIN_WAIT_2 :: "TcpConnection \<Rightarrow> error + TcpConnection" where
  "process_TIMEOUT_FIN_WAIT_2 c = (if fsm c = TCP_S_FIN_WAIT_2 then Inr c else Inl RuntimeError)"

datatype tcp_timer = MSL2 | CONN_ESTAB | FIN_WAIT_2

text \<open>\<open>processTimer\<close> for these timers: the message has left the schedule when it is handled.\<close>

definition processTimer :: "tcp_timer \<Rightarrow> TcpConnection \<Rightarrow> error + bool \<times> TcpConnection" where
  "processTimer msg c = (case msg of
     MSL2 \<Rightarrow> ebind (process_TIMEOUT_2MSL (c\<lparr>the2MSLTimer := Some False\<rparr>)) (performStateTransition TCP_E_TIMEOUT_2MSL)
   | CONN_ESTAB \<Rightarrow> ebind (process_TIMEOUT_CONN_ESTAB (c\<lparr>connEstabTimer := Some False\<rparr>)) (performStateTransition TCP_E_TIMEOUT_CONN_ESTAB)
   | FIN_WAIT_2 \<Rightarrow> ebind (process_TIMEOUT_FIN_WAIT_2 (c\<lparr>finWait2Timer := Some False\<rparr>)) (performStateTransition TCP_E_TIMEOUT_FIN_WAIT_2))"

end
