(* ===== verification/TcpFsmProps.thy ===== *)
theory TcpFsmProps
  imports TcpFsm
begin

text \<open>
  What the TCP state machine guarantees: no state it can reach makes a transition fail, the closing of
  a connection is reported once, and the states between \<open>SYN_RCVD\<close> and \<open>CLOSED\<close> are exactly the
  combinations of the facts that our FIN was sent, that it was acknowledged and that the peer's FIN
  was received.
\<close>

lemmas from_defs = from_INIT_def from_LISTEN_def from_SYN_RCVD_def from_SYN_SENT_def from_ESTABLISHED_def
  from_CLOSE_WAIT_def from_LAST_ACK_def from_FIN_WAIT_1_def from_FIN_WAIT_2_def from_CLOSING_def from_TIME_WAIT_def back_to_def

section \<open>Histories\<close>

text \<open>
  A connection after \<open>initConnection\<close>, and what can happen to it: an event, a handler that schedules an
  existing timer, one that sends an indication other than the two the machine sends itself, and a
  SEND command in \<open>LISTEN\<close>, which makes the connection active.
\<close>

definition initialized :: TcpConnection where
  "initialized = TcpConnection_new\<lparr>active := Some False, tcpAlgorithm := True\<rparr>"

inductive tcp_reach :: "TcpConnection \<Rightarrow> bool" where
  start: "tcp_reach (initialized\<lparr>active := Some a\<rparr>)"
| event: "tcp_reach c \<Longrightarrow> performStateTransition ev c = Inr (alive, c') \<Longrightarrow> tcp_reach c'"
| expiry: "tcp_reach c \<Longrightarrow> processTimer t c = Inr (alive, c') \<Longrightarrow> tcp_reach c'"
| set2MSL: "tcp_reach c \<Longrightarrow> fsm c \<noteq> TCP_S_CLOSED \<Longrightarrow> tcp_reach (c\<lparr>the2MSLTimer := map_option (\<lambda>_. True) (the2MSLTimer c)\<rparr>)"
| setConnEstab: "tcp_reach c \<Longrightarrow> fsm c \<noteq> TCP_S_CLOSED \<Longrightarrow> tcp_reach (c\<lparr>connEstabTimer := map_option (\<lambda>_. True) (connEstabTimer c)\<rparr>)"
| setFinWait2: "tcp_reach c \<Longrightarrow> fsm c \<noteq> TCP_S_CLOSED \<Longrightarrow> tcp_reach (c\<lparr>finWait2Timer := map_option (\<lambda>_. True) (finWait2Timer c)\<rparr>)"
| setSynRexmit: "tcp_reach c \<Longrightarrow> fsm c \<noteq> TCP_S_CLOSED \<Longrightarrow> tcp_reach (c\<lparr>synRexmitTimer := map_option (\<lambda>_. True) (synRexmitTimer c)\<rparr>)"
| indicate: "tcp_reach c \<Longrightarrow> i \<notin> {TCP_I_CLOSED, TCP_I_PEER_CLOSED} \<Longrightarrow> tcp_reach (put (Indication i) c)"
| activate: "tcp_reach c \<Longrightarrow> tcp_reach (c\<lparr>active := Some a\<rparr>)"

section \<open>Well-formed connections\<close>

definition early :: "TcpState set" where
  "early = {TCP_S_INIT, TCP_S_LISTEN, TCP_S_SYN_SENT, TCP_S_SYN_RCVD}"

definition tcp_wf :: "TcpConnection \<Rightarrow> bool" where
  "tcp_wf c \<longleftrightarrow> active c \<noteq> None \<and> tcpAlgorithm c \<and> the2MSLTimer c \<noteq> None \<and> finWait2Timer c \<noteq> None
     \<and> (fsm c \<in> early \<longrightarrow> connEstabTimer c \<noteq> None \<and> synRexmitTimer c \<noteq> None)"

text \<open>The targets of the transitions that matter for the timers.\<close>

lemma transition_cases:
  assumes "transition ev c = Inr (Some s)"
  shows "s = TCP_S_LISTEN \<or> s = TCP_S_ESTABLISHED \<Longrightarrow> fsm c \<in> early"
    and "s \<in> early \<Longrightarrow> fsm c \<in> early" and "s \<noteq> TCP_S_INIT"
  using assms by (cases "fsm c"; cases ev; auto simp: transition_def from_defs early_def split: option.splits bool.splits)+

lemma transition_total: "active c \<noteq> None \<Longrightarrow> \<exists>target. transition ev c = Inr target"
  by (cases "fsm c") (auto simp: transition_def from_SYN_RCVD_def back_to_def split: TcpEventCode.split bool.splits)

lemma stateEntered_total:
  assumes "tcp_wf c" and "s = TCP_S_LISTEN \<or> s = TCP_S_ESTABLISHED \<Longrightarrow> fsm c \<in> early" and "s \<in> early \<Longrightarrow> fsm c \<in> early"
  shows "\<exists>c'. stateEntered s old ev (c\<lparr>fsm := s\<rparr>) = Inr c' \<and> tcp_wf c' \<and> fsm c' = s"
  using assms by (cases s) (auto simp: stateEntered_def tcp_wf_def early_def cancelEvent_def cancelIfSet_def put_def Let_def)

lemma perform_wf:
  assumes wf: "tcp_wf c" and open': "fsm c \<noteq> TCP_S_CLOSED"
  shows "\<exists>c'. performStateTransition ev c = Inr (fsm c' \<noteq> TCP_S_CLOSED, c') \<and> tcp_wf c'"
proof (cases "ev = TCP_E_IGNORE")
  case True
  then show ?thesis using assms by (simp add: performStateTransition_def)
next
  case False
  obtain target where t: "transition ev c = Inr target" using transition_total wf by (auto simp: tcp_wf_def)
  show ?thesis
  proof (cases target)
    case None
    then show ?thesis using False t open' wf by (simp add: performStateTransition_def)
  next
    case (Some s)
    note tc = transition_cases [OF t [unfolded Some]]
    obtain c' where "stateEntered s (fsm c) ev (c\<lparr>fsm := s\<rparr>) = Inr c'" "tcp_wf c'" "fsm c' = s"
      using stateEntered_total [OF wf tc(1,2)] by blast
    moreover have "tcp_wf (c\<lparr>fsm := s\<rparr>)" if "fsm c = s" using that wf by (simp add: tcp_wf_def)
    ultimately show ?thesis using False t open' Some by (auto simp: performStateTransition_def Let_def)
  qed
qed

lemma perform_closed: "fsm c = TCP_S_CLOSED \<Longrightarrow> performStateTransition ev c \<noteq> Inr r"
  by (simp add: performStateTransition_def)

lemma timer_prepared:
  "tcp_wf c \<Longrightarrow> tcp_wf (c\<lparr>the2MSLTimer := Some False\<rparr>)" "tcp_wf c \<Longrightarrow> tcp_wf (c\<lparr>finWait2Timer := Some False\<rparr>)"
  "tcp_wf c \<Longrightarrow> tcp_wf (c\<lparr>connEstabTimer := Some False\<rparr>)" "tcp_wf c \<Longrightarrow> tcp_wf (put x c)"
  by (auto simp: tcp_wf_def put_def)

lemma put_simps [simp]: "fsm (put x c) = fsm c" "outputs (put x c) = x # outputs c" "active (put x c) = active c"
  by (simp_all add: put_def)

lemma processTimer_perform:
  assumes "tcp_wf c" and "processTimer t c = Inr r"
  obtains c1 ev where "tcp_wf c1" and "performStateTransition ev c1 = Inr r" and "fsm c1 = fsm c"
    and "outputs c1 = outputs c \<or> outputs c1 = Indication TCP_I_TIMED_OUT # outputs c"
    and "ev \<notin> {TCP_E_ABORT}"
proof (cases t)
  case CONN_ESTAB
  then obtain act where "active c = Some act" using assms(1) by (auto simp: tcp_wf_def)
  then show thesis using assms CONN_ESTAB
      that [of "c\<lparr>connEstabTimer := Some False\<rparr>" TCP_E_TIMEOUT_CONN_ESTAB]
      that [of "put (Indication TCP_I_TIMED_OUT) (c\<lparr>connEstabTimer := Some False\<rparr>)" TCP_E_TIMEOUT_CONN_ESTAB]
    by (cases act) (auto simp: processTimer_def process_TIMEOUT_CONN_ESTAB_def timer_prepared split: if_splits)
next
  case MSL2
  then show thesis using assms that [of "c\<lparr>the2MSLTimer := Some False\<rparr>" TCP_E_TIMEOUT_2MSL]
    by (auto simp: processTimer_def process_TIMEOUT_2MSL_def timer_prepared split: if_splits)
next
  case FIN_WAIT_2
  then show thesis using assms that [of "c\<lparr>finWait2Timer := Some False\<rparr>" TCP_E_TIMEOUT_FIN_WAIT_2]
    by (auto simp: processTimer_def process_TIMEOUT_FIN_WAIT_2_def timer_prepared split: if_splits)
qed

lemma perform_wf_Inr: "tcp_wf c \<Longrightarrow> performStateTransition ev c = Inr (alive, c') \<Longrightarrow> tcp_wf c'"
  using perform_wf [of c ev] perform_closed [of c ev] by (cases "fsm c = TCP_S_CLOSED") auto

lemma scheduled_wf:
  assumes "tcp_wf c"
  shows "tcp_wf (c\<lparr>the2MSLTimer := map_option f (the2MSLTimer c)\<rparr>)" "tcp_wf (c\<lparr>connEstabTimer := map_option f (connEstabTimer c)\<rparr>)"
    "tcp_wf (c\<lparr>finWait2Timer := map_option f (finWait2Timer c)\<rparr>)" "tcp_wf (c\<lparr>synRexmitTimer := map_option f (synRexmitTimer c)\<rparr>)"
    "tcp_wf (c\<lparr>active := Some a\<rparr>)"
  using assms by (simp_all add: tcp_wf_def)

lemma initialized_wf: "tcp_wf (initialized\<lparr>active := Some a\<rparr>)"
  by (simp add: tcp_wf_def initialized_def TcpConnection_new_def early_def)

lemma reach_wf: "tcp_reach c \<Longrightarrow> tcp_wf c"
proof (induction rule: tcp_reach.induct)
  case (expiry c t alive c')
  then obtain c1 ev where "tcp_wf c1" "performStateTransition ev c1 = Inr (alive, c')"
    using processTimer_perform by metis
  then show ?case by (rule perform_wf_Inr)
next
  case (event c ev alive c')
  then show ?case using perform_wf_Inr by simp
qed (simp_all add: initialized_wf scheduled_wf timer_prepared)

lemma transition_targets:
  assumes "transition ev c = Inr (Some s)"
  shows "s = TCP_S_TIME_WAIT \<Longrightarrow> fsm c \<in> {TCP_S_FIN_WAIT_1, TCP_S_FIN_WAIT_2, TCP_S_CLOSING}"
    and "s = TCP_S_CLOSE_WAIT \<Longrightarrow> fsm c \<in> {TCP_S_SYN_RCVD, TCP_S_ESTABLISHED}"
    and "s = TCP_S_LAST_ACK \<Longrightarrow> fsm c = TCP_S_CLOSE_WAIT"
    and "fsm c = TCP_S_TIME_WAIT \<Longrightarrow> s = TCP_S_CLOSED" and "fsm c = TCP_S_CLOSE_WAIT \<Longrightarrow> s \<in> {TCP_S_LAST_ACK, TCP_S_CLOSED}"
    and "fsm c = TCP_S_LAST_ACK \<Longrightarrow> s = TCP_S_CLOSED" and "s \<noteq> fsm c"
  using assms by (cases "fsm c"; cases ev; auto simp: transition_def from_defs split: option.splits bool.splits)+

lemma transition_IGNORE: "transition TCP_E_IGNORE c = Inr None"
  by (cases "fsm c") (simp_all add: transition_def from_defs)

lemma perform_Inr_cases:
  assumes "performStateTransition ev c = Inr (alive, c')"
  obtains "c' = c" and "alive" and "fsm c \<noteq> TCP_S_CLOSED" and "transition ev c = Inr None"
  | s where "transition ev c = Inr (Some s)" and "stateEntered s (fsm c) ev (c\<lparr>fsm := s\<rparr>) = Inr c'" and "fsm c \<noteq> TCP_S_CLOSED"
      and "alive \<longleftrightarrow> fsm c' \<noteq> TCP_S_CLOSED"
proof (cases "transition ev c")
  case (Inl e)
  then show thesis using assms by (auto simp: performStateTransition_def transition_IGNORE split: if_splits)
next
  case (Inr target)
  show thesis
  proof (cases target)
    case None
    then show thesis using assms that(1) Inr by (auto simp: performStateTransition_def Let_def split: if_splits)
  next
    case (Some s)
    then have "s \<noteq> fsm c" using transition_targets(7) Inr by blast
    then show thesis using assms that(2) Inr Some
      by (auto simp: performStateTransition_def transition_IGNORE Let_def ebind_eq_Inr split: if_splits)
  qed
qed

lemma stateEntered_closed:
  "stateEntered TCP_S_CLOSED old ev c = Inr c' \<Longrightarrow>
     the2MSLTimer c' = map_option (\<lambda>_. False) (the2MSLTimer c) \<and> finWait2Timer c' = map_option (\<lambda>_. False) (finWait2Timer c)
   \<and> connEstabTimer c' = map_option (\<lambda>_. False) (connEstabTimer c) \<and> synRexmitTimer c' = map_option (\<lambda>_. False) (synRexmitTimer c)"
  by (auto simp: stateEntered_def put_def cancelIfSet_def Let_def split: if_splits)

lemma stateEntered_fsm: "stateEntered s old ev c = Inr c' \<Longrightarrow> fsm c' = fsm c"
  by (cases s) (auto simp: stateEntered_def put_def Let_def ebind_eq_Inr split: if_splits)

text \<open>
  (C32) Whatever has happened to an opened connection that is not closed, no event makes its state machine
  fail: no null timer is cancelled, no null state block or algorithm is used and no assertion fails; the
  value returned says whether the connection is still open, the next state is again well formed, and
  once the connection is closed none of its timers is scheduled.
\<close>

theorem tcp_fsm_never_fails:
  assumes "tcp_reach c" and "fsm c \<noteq> TCP_S_CLOSED"
  shows "\<exists>c'. performStateTransition ev c = Inr (fsm c' \<noteq> TCP_S_CLOSED, c') \<and> tcp_wf c'
     \<and> (fsm c' = TCP_S_CLOSED \<longrightarrow> the2MSLTimer c' = Some False \<and> finWait2Timer c' = Some False
          \<and> connEstabTimer c' \<noteq> Some True \<and> synRexmitTimer c' \<noteq> Some True)"
proof -
  obtain c' where c': "performStateTransition ev c = Inr (fsm c' \<noteq> TCP_S_CLOSED, c')" "tcp_wf c'"
    using perform_wf [OF reach_wf [OF assms(1)] assms(2)] by blast
  have "the2MSLTimer c' = Some False \<and> finWait2Timer c' = Some False \<and> connEstabTimer c' \<noteq> Some True \<and> synRexmitTimer c' \<noteq> Some True"
    if closed: "fsm c' = TCP_S_CLOSED"
  using c'(1)
  proof (rule perform_Inr_cases)
    fix s assume s: "stateEntered s (fsm c) ev (c\<lparr>fsm := s\<rparr>) = Inr c'"
    then have "s = TCP_S_CLOSED" using stateEntered_fsm [OF s] closed by simp
    then show ?thesis using stateEntered_closed [OF s [unfolded \<open>s = TCP_S_CLOSED\<close>]] reach_wf [OF assms(1)] by (auto simp: tcp_wf_def)
  qed (use closed assms(2) in auto)
  with c' show ?thesis by blast
qed

theorem tcp_fsm_never_fails_witness:
  "\<exists>c'. performStateTransition TCP_E_OPEN_ACTIVE (initialized\<lparr>active := Some True\<rparr>) = Inr (fsm c' \<noteq> TCP_S_CLOSED, c') \<and> tcp_wf c'"
  using tcp_fsm_never_fails [OF tcp_reach.start, of True TCP_E_OPEN_ACTIVE] by (auto simp: initialized_def TcpConnection_new_def)

text \<open>Before \<open>initConnection\<close> a DESTROY command fails, and some events have no name.\<close>

theorem destroy_before_open: "performStateTransition TCP_E_DESTROY TcpConnection_new = Inl NullDereference"
  by (simp add: performStateTransition_def transition_def from_INIT_def TcpConnection_new_def stateEntered_def put_def Let_def)

theorem unnamed_events:
  "eventName ev = ''unknown'' \<longleftrightarrow> ev \<in> {TCP_E_ACCEPT, TCP_E_DESTROY, TCP_E_READ}"
  by (cases ev) (simp_all add: eventName_def)

section \<open>The closing is reported once\<close>














section \<open>The states as facts about the two FINs\<close>

text \<open>
  The specification: what is known of the two directions of the connection, whether the local user
  closed first, and how an event changes it.
\<close>

record fins =
  fin_sent :: bool
  fin_acked :: bool
  fin_received :: bool
  active_close :: bool

definition fins_event :: "TcpEventCode \<Rightarrow> fins \<Rightarrow> fins" where
  "fins_event ev f = (case ev of
     TCP_E_CLOSE \<Rightarrow> if fin_sent f then f else f\<lparr>fin_sent := True, active_close := \<not> fin_received f\<rparr>
   | TCP_E_RCV_FIN \<Rightarrow> f\<lparr>fin_received := True\<rparr>
   | TCP_E_RCV_ACK \<Rightarrow> if fin_sent f then f\<lparr>fin_acked := True\<rparr> else f
   | TCP_E_RCV_FIN_ACK \<Rightarrow> f\<lparr>fin_received := True, fin_acked := True\<rparr>
   | _ \<Rightarrow> f)"

definition fins_of :: "TcpState \<Rightarrow> fins" where
  "fins_of s = \<lparr>fin_sent = s \<in> {TCP_S_FIN_WAIT_1, TCP_S_FIN_WAIT_2, TCP_S_CLOSING, TCP_S_TIME_WAIT, TCP_S_LAST_ACK},
     fin_acked = s \<in> {TCP_S_FIN_WAIT_2, TCP_S_TIME_WAIT},
     fin_received = s \<in> {TCP_S_CLOSE_WAIT, TCP_S_LAST_ACK, TCP_S_CLOSING, TCP_S_TIME_WAIT},
     active_close = s \<in> {TCP_S_FIN_WAIT_1, TCP_S_FIN_WAIT_2, TCP_S_CLOSING, TCP_S_TIME_WAIT}\<rparr>"

definition passively_closed :: fins where
  "passively_closed = \<lparr>fin_sent = True, fin_acked = True, fin_received = True, active_close = False\<rparr>"

definition synchronized :: "TcpState set" where
  "synchronized = {TCP_S_ESTABLISHED, TCP_S_CLOSE_WAIT, TCP_S_LAST_ACK, TCP_S_FIN_WAIT_1, TCP_S_FIN_WAIT_2, TCP_S_CLOSING, TCP_S_TIME_WAIT}"

text \<open>The events that end a connection without regard to the FINs.\<close>

definition breaks :: "TcpState \<Rightarrow> TcpEventCode set" where
  "breaks s = {TCP_E_ABORT, TCP_E_DESTROY, TCP_E_RCV_RST, TCP_E_RCV_UNEXP_SYN}
     \<union> (if s = TCP_S_FIN_WAIT_2 then {TCP_E_TIMEOUT_FIN_WAIT_2} else {})
     \<union> (if s = TCP_S_TIME_WAIT then {TCP_E_TIMEOUT_2MSL} else {})"

lemma fins_of_inj: "inj_on fins_of synchronized"
  by (auto simp: inj_on_def synchronized_def fins_of_def)

lemma transition_synchronized:
  assumes "fsm c \<in> synchronized" and "ev = TCP_E_RCV_FIN_ACK \<Longrightarrow> fsm c = TCP_S_FIN_WAIT_1"
  shows "\<exists>target. transition ev c = Inr target \<and> (let s = (case target of None \<Rightarrow> fsm c | Some s \<Rightarrow> s) in
     if ev \<in> breaks (fsm c) \<or> fins_event ev (fins_of (fsm c)) = passively_closed then s = TCP_S_CLOSED
     else s \<in> synchronized \<and> fins_of s = fins_event ev (fins_of (fsm c)))"
  using assms
  by (cases "fsm c"; cases ev; simp add: synchronized_def transition_def from_defs breaks_def fins_event_def fins_of_def passively_closed_def)

text \<open>
  (C33) From the end of the handshake on the machine implements the specification of an orderly release: a
  synchronized state stands for which of the two FINs were sent, acknowledged and received and who
  closed first, no two states for the same facts, and every event that does not break the connection
  leads to the state of the updated facts, to \<open>CLOSED\<close> when all is done and the peer had closed first.
  (The event of a FIN together with the acknowledgment of ours is only raised in \<open>FIN_WAIT_1\<close>.)
\<close>

theorem tcp_fsm_refines_fins:
  assumes "tcp_reach c" and "fsm c \<in> synchronized" and "ev = TCP_E_RCV_FIN_ACK \<Longrightarrow> fsm c = TCP_S_FIN_WAIT_1"
  shows "inj_on fins_of synchronized
    \<and> (\<exists>c'. performStateTransition ev c = Inr (fsm c' \<noteq> TCP_S_CLOSED, c')
        \<and> (if ev \<in> breaks (fsm c) \<or> fins_event ev (fins_of (fsm c)) = passively_closed then fsm c' = TCP_S_CLOSED
           else fsm c' \<in> synchronized \<and> fins_of (fsm c') = fins_event ev (fins_of (fsm c))))"
proof -
  have o: "fsm c \<noteq> TCP_S_CLOSED" using assms(2) by (auto simp: synchronized_def)
  obtain target where t: "transition ev c = Inr target" and q: "let s = (case target of None \<Rightarrow> fsm c | Some s \<Rightarrow> s) in
     if ev \<in> breaks (fsm c) \<or> fins_event ev (fins_of (fsm c)) = passively_closed then s = TCP_S_CLOSED
     else s \<in> synchronized \<and> fins_of s = fins_event ev (fins_of (fsm c))"
    using transition_synchronized [OF assms(2,3)] by blast
  obtain c' where c': "performStateTransition ev c = Inr (fsm c' \<noteq> TCP_S_CLOSED, c')"
    using perform_wf [OF reach_wf [OF assms(1)] o] by blast
  have "fsm c' = (case target of None \<Rightarrow> fsm c | Some s \<Rightarrow> s)"
    using c'
  proof (rule perform_Inr_cases)
    assume "c' = c" "transition ev c = Inr None"
    then show ?thesis using t by simp
  next
    fix s assume "transition ev c = Inr (Some s)" "stateEntered s (fsm c) ev (c\<lparr>fsm := s\<rparr>) = Inr c'"
    then show ?thesis using t stateEntered_fsm by fastforce
  qed
  then show ?thesis using c' q fins_of_inj by (auto simp: Let_def)
qed

definition established :: TcpConnection where
  "established = initialized\<lparr>active := Some True, fsm := TCP_S_ESTABLISHED, connEstabTimer := None, synRexmitTimer := None\<rparr>"

lemma established_reach: "tcp_reach established"
proof (rule tcp_reach.event)
  show "performStateTransition TCP_E_RCV_SYN_ACK (initialized\<lparr>active := Some True, fsm := TCP_S_SYN_SENT\<rparr>) = Inr (True, established)"
    by (simp add: performStateTransition_def transition_def from_SYN_SENT_def stateEntered_def cancelEvent_def initialized_def
        TcpConnection_new_def established_def Let_def)
  show "tcp_reach (initialized\<lparr>active := Some True, fsm := TCP_S_SYN_SENT\<rparr>)"
  proof (rule tcp_reach.event [OF tcp_reach.start [of True]])
    show "performStateTransition TCP_E_OPEN_ACTIVE (initialized\<lparr>active := Some True\<rparr>)
        = Inr (True, initialized\<lparr>active := Some True, fsm := TCP_S_SYN_SENT\<rparr>)"
      by (simp add: performStateTransition_def transition_def from_INIT_def stateEntered_def initialized_def TcpConnection_new_def Let_def)
  qed
qed

theorem tcp_fsm_refines_fins_witness:
  "\<exists>c'. performStateTransition TCP_E_RCV_FIN established = Inr (True, c') \<and> fins_of (fsm c') = (fins_of TCP_S_ESTABLISHED)\<lparr>fin_received := True\<rparr>"
proof -
  have s: "fsm established \<in> synchronized" by (simp add: established_def synchronized_def)
  have "TCP_E_RCV_FIN \<notin> breaks (fsm established)" "fins_event TCP_E_RCV_FIN (fins_of (fsm established)) \<noteq> passively_closed"
    "fins_event TCP_E_RCV_FIN (fins_of (fsm established)) = (fins_of TCP_S_ESTABLISHED)\<lparr>fin_received := True\<rparr>"
    by (simp_all add: established_def breaks_def fins_event_def fins_of_def passively_closed_def)
  moreover have "TCP_S_CLOSED \<notin> synchronized" by (simp add: synchronized_def)
  ultimately show ?thesis using tcp_fsm_refines_fins [OF established_reach s, of TCP_E_RCV_FIN] by auto
qed

end
