(* ===== verification/Meters.thy ===== *)
theory Meters
  imports Omnet Display
begin

text \<open>
  The three traffic meters of \<open>networklayer/diffserv\<close> of the INET framework: the simple token bucket, the
  single rate and the two rate three color meter. Times and rates: simulation time is a number of
  units of length \<open>1 / scale\<close> seconds (the resolution configured in OMNeT++, a parameter), rates are
  \<open>double\<close>s and read as real numbers. The 64-bit arithmetic on the buckets is checked for overflow;
  the packet counters are unbounded.
\<close>

section \<open>Packets and colors\<close>

record cPacket =
  bitLength :: int
  dscolor :: "int option"

definition getByteLength :: "cPacket \<Rightarrow> int" where
  "getByteLength p = (bitLength p + 7) div 8"

abbreviation (input) GREEN :: int where "GREEN \<equiv> 0"
abbreviation (input) YELLOW :: int where "YELLOW \<equiv> 1"
abbreviation (input) RED :: int where "RED \<equiv> 2"

definition getColor :: "cPacket \<Rightarrow> int" where
  "getColor p = (case dscolor p of None \<Rightarrow> - 1 | Some c \<Rightarrow> c)"

definition setColor :: "int \<Rightarrow> cPacket \<Rightarrow> cPacket" where
  "setColor color p = p\<lparr>dscolor := Some color\<rparr>"

definition colorToString :: "int \<Rightarrow> string" where
  "colorToString color = (if color = GREEN then ''green'' else if color = YELLOW then ''yellow''
     else if color = RED then ''red'' else format_i color)"

section \<open>Arithmetic\<close>

definition SIMTIME_DBL :: "real \<Rightarrow> simtime \<Rightarrow> real" where
  "SIMTIME_DBL scale t = real_of_int t / scale"

text \<open>\<open>long\<close> arithmetic, the conversion of a \<open>double\<close> to \<open>long\<close>, and of an \<open>int64_t\<close> to \<open>int\<close>.\<close>

definition long :: "int \<Rightarrow> error + int" where
  "long n = (if int64 n then Inr n else Inl SignedOverflow)"

definition to_long :: "real \<Rightarrow> error + int" where
  "to_long x = long (if x < 0 then \<lceil>x\<rceil> else \<lfloor>x\<rfloor>)"

definition to_int :: "int \<Rightarrow> int" where
  "to_int n = (n + 2 ^ 31) mod 2 ^ 32 - 2 ^ 31"

text \<open>Filling a bucket: \<open>if (T + numTokens <= size) T += numTokens; else T = size;\<close>\<close>

definition fill :: "int \<Rightarrow> int \<Rightarrow> int \<Rightarrow> error + int" where
  "fill burst T numTokens = ebind (long (T + numTokens)) (\<lambda>sum. Inr (if sum \<le> burst then sum else burst))"

text \<open>
  Taking tokens for a packet: \<open>allowed && T - size >= 0\<close>, the rest of the tokens when it holds.
\<close>

definition spend :: "bool \<Rightarrow> int \<Rightarrow> int \<Rightarrow> error + int option" where
  "spend allowed T bits =
     (if allowed then ebind (long (T - bits)) (\<lambda>rest. Inr (if rest \<ge> 0 then Some rest else None)) else Inr None)"

section \<open>The token bucket meter\<close>

record TokenBucketMeter =
  CIR :: real
  CBS :: int
  colorAwareMode :: bool
  Tc :: int
  lastUpdateTime :: simtime
  numRcvd :: int
  numRed :: int

definition TokenBucketMeter_initialize :: "int \<Rightarrow> bool \<Rightarrow> real \<Rightarrow> simtime \<Rightarrow> error + TokenBucketMeter" where
  "TokenBucketMeter_initialize cbs aware cir now =
     ebind (long (8 * cbs)) (\<lambda>size.
       Inr \<lparr>CIR = cir, CBS = size, colorAwareMode = aware, Tc = size, lastUpdateTime = now, numRcvd = 0, numRed = 0\<rparr>)"

definition TokenBucketMeter_meterPacket ::
  "real \<Rightarrow> simtime \<Rightarrow> cPacket \<Rightarrow> TokenBucketMeter \<Rightarrow> error + int \<times> cPacket \<times> TokenBucketMeter" where
  "TokenBucketMeter_meterPacket scale currentTime packet m =
     ebind (to_long (SIMTIME_DBL scale (currentTime - lastUpdateTime m) * CIR m)) (\<lambda>numTokens.
     ebind (fill (CBS m) (Tc m) numTokens) (\<lambda>T.
       let m = m\<lparr>lastUpdateTime := currentTime, Tc := T\<rparr>;
           oldColor = (if colorAwareMode m then getColor packet else - 1);
           packetSizeInBits = to_int (bitLength packet)
       in ebind (spend (oldColor \<le> GREEN) (Tc m) packetSizeInBits) (\<lambda>green.
          let (m, newColor) = (case green of Some rest \<Rightarrow> (m\<lparr>Tc := rest\<rparr>, GREEN) | None \<Rightarrow> (m, RED))
          in Inr (newColor, setColor newColor packet, m))))"

text \<open>The handler returns the gate the packet is sent on.\<close>

definition TokenBucketMeter_handleMessage ::
  "real \<Rightarrow> simtime \<Rightarrow> cPacket \<Rightarrow> TokenBucketMeter \<Rightarrow> error + string \<times> cPacket \<times> TokenBucketMeter" where
  "TokenBucketMeter_handleMessage scale now packet m =
     (let m = m\<lparr>numRcvd := numRcvd m + 1\<rparr> in
      ebind (TokenBucketMeter_meterPacket scale now packet m) (\<lambda>(color, packet, m).
        if color = GREEN then Inr (''greenOut'', packet, m)
        else Inr (''redOut'', packet, m\<lparr>numRed := numRed m + 1\<rparr>)))"

definition TokenBucketMeter_refreshDisplay :: "TokenBucketMeter \<Rightarrow> error + string" where
  "TokenBucketMeter_refreshDisplay m = sprintf_buf 50
     ((if numRcvd m > 0 then ''rcvd: '' @ format_i (numRcvd m) @ '' '' else [])
      @ (if numRed m > 0 then ''red:'' @ format_i (numRed m) @ '' '' else []))"

section \<open>The single rate three color meter\<close>

record SingleRateThreeColorMeter =
  s_CIR :: real
  s_CBS :: int
  s_EBS :: int
  s_colorAwareMode :: bool
  s_Tc :: int
  s_Te :: int
  s_lastUpdateTime :: simtime
  s_numRcvd :: int
  s_numYellow :: int
  s_numRed :: int

definition SingleRate_initialize :: "int \<Rightarrow> int \<Rightarrow> bool \<Rightarrow> real \<Rightarrow> simtime \<Rightarrow> error + SingleRateThreeColorMeter" where
  "SingleRate_initialize cbs ebs aware cir now =
     ebind (long (8 * cbs)) (\<lambda>C. ebind (long (8 * ebs)) (\<lambda>E.
       Inr \<lparr>s_CIR = cir, s_CBS = C, s_EBS = E, s_colorAwareMode = aware, s_Tc = C, s_Te = E, s_lastUpdateTime = now,
            s_numRcvd = 0, s_numYellow = 0, s_numRed = 0\<rparr>))"

definition SingleRate_fill :: "int \<Rightarrow> SingleRateThreeColorMeter \<Rightarrow> error + SingleRateThreeColorMeter" where
  "SingleRate_fill numTokens m =
     ebind (long (s_Tc m + numTokens)) (\<lambda>sum.
       if sum \<le> s_CBS m then Inr (m\<lparr>s_Tc := sum\<rparr>)
       else
         ebind (long (sum - s_CBS m)) (\<lambda>excessTokens.
         ebind (fill (s_EBS m) (s_Te m) excessTokens) (\<lambda>T.
           Inr (m\<lparr>s_Tc := s_CBS m, s_Te := T\<rparr>))))"

definition SingleRate_meterPacket ::
  "real \<Rightarrow> simtime \<Rightarrow> cPacket \<Rightarrow> SingleRateThreeColorMeter \<Rightarrow> error + int \<times> cPacket \<times> SingleRateThreeColorMeter" where
  "SingleRate_meterPacket scale currentTime packet m =
     ebind (to_long (SIMTIME_DBL scale (currentTime - s_lastUpdateTime m) * s_CIR m)) (\<lambda>numTokens.
     ebind (SingleRate_fill numTokens (m\<lparr>s_lastUpdateTime := currentTime\<rparr>)) (\<lambda>m.
       let oldColor = (if s_colorAwareMode m then getColor packet else - 1);
           packetSizeInBits = to_int (bitLength packet)
       in ebind (spend (oldColor \<le> GREEN) (s_Tc m) packetSizeInBits) (\<lambda>green.
          ebind (case green of Some rest \<Rightarrow> Inr (m\<lparr>s_Tc := rest\<rparr>, GREEN)
            | None \<Rightarrow> ebind (spend (oldColor \<le> YELLOW) (s_Te m) packetSizeInBits) (\<lambda>yellow.
                Inr (case yellow of Some rest \<Rightarrow> (m\<lparr>s_Te := rest\<rparr>, YELLOW) | None \<Rightarrow> (m, RED)))) (\<lambda>(m, newColor).
          Inr (newColor, setColor newColor packet, m)))))"

definition SingleRate_handleMessage ::
  "real \<Rightarrow> simtime \<Rightarrow> cPacket \<Rightarrow> SingleRateThreeColorMeter \<Rightarrow> error + string \<times> cPacket \<times> SingleRateThreeColorMeter" where
  "SingleRate_handleMessage scale now packet m =
     (let m = m\<lparr>s_numRcvd := s_numRcvd m + 1\<rparr> in
      ebind (SingleRate_meterPacket scale now packet m) (\<lambda>(color, packet, m).
        if color = GREEN then Inr (''greenOut'', packet, m)
        else if color = YELLOW then Inr (''yellowOut'', packet, m\<lparr>s_numYellow := s_numYellow m + 1\<rparr>)
        else Inr (''redOut'', packet, m\<lparr>s_numRed := s_numRed m + 1\<rparr>)))"

definition three_color_display :: "int \<Rightarrow> int \<Rightarrow> int \<Rightarrow> error + string" where
  "three_color_display rcvd yellow red = sprintf_buf 80
     ((if rcvd > 0 then ''rcvd: '' @ format_i rcvd @ '' '' else [])
      @ (if yellow > 0 then ''yellow:'' @ format_i yellow @ '' '' else [])
      @ (if red > 0 then ''red:'' @ format_i red @ '' '' else []))"

definition SingleRate_refreshDisplay :: "SingleRateThreeColorMeter \<Rightarrow> error + string" where
  "SingleRate_refreshDisplay m = three_color_display (s_numRcvd m) (s_numYellow m) (s_numRed m)"

section \<open>The two rate three color meter\<close>

record TwoRateThreeColorMeter =
  t_PIR :: real
  t_PBS :: int
  t_CIR :: real
  t_CBS :: int
  t_colorAwareMode :: bool
  t_Tp :: int
  t_Tc :: int
  t_lastUpdateTime :: simtime
  t_numRcvd :: int
  t_numYellow :: int
  t_numRed :: int

definition TwoRate_initialize ::
  "int \<Rightarrow> int \<Rightarrow> bool \<Rightarrow> real \<Rightarrow> real \<Rightarrow> simtime \<Rightarrow> error + TwoRateThreeColorMeter" where
  "TwoRate_initialize pbs cbs aware pir cir now =
     ebind (long (8 * pbs)) (\<lambda>P. ebind (long (8 * cbs)) (\<lambda>C.
       Inr \<lparr>t_PIR = pir, t_PBS = P, t_CIR = cir, t_CBS = C, t_colorAwareMode = aware, t_Tp = P, t_Tc = C,
            t_lastUpdateTime = now, t_numRcvd = 0, t_numYellow = 0, t_numRed = 0\<rparr>))"

definition TwoRate_decide :: "int \<Rightarrow> int \<Rightarrow> TwoRateThreeColorMeter \<Rightarrow> error + TwoRateThreeColorMeter \<times> int" where
  "TwoRate_decide oldColor packetSizeInBits m =
     ebind (spend (oldColor \<noteq> RED) (t_Tp m) packetSizeInBits) (\<lambda>peak. case peak of None \<Rightarrow> Inr (m, RED)
       | Some restP \<Rightarrow> ebind (spend (oldColor \<noteq> YELLOW) (t_Tc m) packetSizeInBits) (\<lambda>committed.
           Inr (case committed of None \<Rightarrow> (m\<lparr>t_Tp := restP\<rparr>, YELLOW)
             | Some restC \<Rightarrow> (m\<lparr>t_Tp := restP, t_Tc := restC\<rparr>, GREEN))))"

definition TwoRate_meterPacket ::
  "real \<Rightarrow> simtime \<Rightarrow> cPacket \<Rightarrow> TwoRateThreeColorMeter \<Rightarrow> error + int \<times> cPacket \<times> TwoRateThreeColorMeter" where
  "TwoRate_meterPacket scale currentTime packet m =
     (let elapsedTime = SIMTIME_DBL scale (currentTime - t_lastUpdateTime m);
          m = m\<lparr>t_lastUpdateTime := currentTime\<rparr> in
      ebind (to_long (elapsedTime * t_PIR m)) (\<lambda>numTokens.
      ebind (fill (t_PBS m) (t_Tp m) numTokens) (\<lambda>P. let m = m\<lparr>t_Tp := P\<rparr> in
      ebind (to_long (elapsedTime * t_CIR m)) (\<lambda>numTokens.
      ebind (fill (t_CBS m) (t_Tc m) numTokens) (\<lambda>C. let m = m\<lparr>t_Tc := C\<rparr>;
          oldColor = (if t_colorAwareMode m then getColor packet else - 1)
        in ebind (TwoRate_decide oldColor (to_int (8 * getByteLength packet)) m) (\<lambda>(m, newColor).
           Inr (newColor, setColor newColor packet, m)))))))"

definition TwoRate_handleMessage ::
  "real \<Rightarrow> simtime \<Rightarrow> cPacket \<Rightarrow> TwoRateThreeColorMeter \<Rightarrow> error + string \<times> cPacket \<times> TwoRateThreeColorMeter" where
  "TwoRate_handleMessage scale now packet m =
     (let m = m\<lparr>t_numRcvd := t_numRcvd m + 1\<rparr> in
      ebind (TwoRate_meterPacket scale now packet m) (\<lambda>(color, packet, m).
        if color = GREEN then Inr (''greenOut'', packet, m)
        else if color = YELLOW then Inr (''yellowOut'', packet, m\<lparr>t_numYellow := t_numYellow m + 1\<rparr>)
        else Inr (''redOut'', packet, m\<lparr>t_numRed := t_numRed m + 1\<rparr>)))"

definition TwoRate_refreshDisplay :: "TwoRateThreeColorMeter \<Rightarrow> error + string" where
  "TwoRate_refreshDisplay m = three_color_display (t_numRcvd m) (t_numYellow m) (t_numRed m)"

end
