(* ===== verification/MeterSpec.thy ===== *)
theory MeterSpec
  imports Meters
begin

text \<open>
  The guarantee the documentation of the meters gives: in every interval \<open>[t0, t1]\<close> the conforming
  traffic is at most \<open>rate * (t1 - t0) + burst\<close> bits. It is proved once for every meter that keeps a
  bucket, and instantiated for the buckets of the three meters.
\<close>

section \<open>Sequences of packets\<close>

type_synonym arrival = "simtime \<times> cPacket"

text \<open>The colors of a sequence of packets, with their lengths.\<close>

fun metered :: "(simtime \<Rightarrow> cPacket \<Rightarrow> 's \<Rightarrow> error + int \<times> cPacket \<times> 's) \<Rightarrow> arrival list \<Rightarrow> 's \<Rightarrow> error + (int \<times> int) list \<times> 's" where
  "metered meter [] s = Inr ([], s)"
| "metered meter ((t, p) # as) s =
     ebind (meter t p s) (\<lambda>(color, _, s). ebind (metered meter as s) (\<lambda>(cs, s). Inr ((color, bitLength p) # cs, s)))"

definition passed :: "(int \<Rightarrow> bool) \<Rightarrow> (int \<times> int) list \<Rightarrow> int" where
  "passed accepted cs = sum_list (map (\<lambda>(color, bits). if accepted color then bits else 0) cs)"

lemma passed_simps [simp]:
  "passed accepted [] = 0" "passed accepted ((c, b) # cs) = (if accepted c then b else 0) + passed accepted cs"
  by (simp_all add: passed_def)

definition packet_ok :: "cPacket \<Rightarrow> bool" where
  "packet_ok p \<longleftrightarrow> 0 \<le> bitLength p \<and> bitLength p < 2 ^ 31 - 7"

text \<open>Packets that arrive in order, from time \<open>a\<close> to time \<open>b\<close>.\<close>

fun arrive :: "simtime \<Rightarrow> simtime \<Rightarrow> arrival list \<Rightarrow> bool" where
  "arrive a b [] \<longleftrightarrow> a \<le> b"
| "arrive a b ((t, p) # as) \<longleftrightarrow> a \<le> t \<and> packet_ok p \<and> arrive t b as"

lemma arrive_bounds: "arrive a b as \<Longrightarrow> a \<le> b"
  by (induction a b as rule: arrive.induct) auto

lemma arrive_join: "arrive a b as \<Longrightarrow> arrive b c bs \<Longrightarrow> arrive a c (as @ bs)"
proof (induction a b as rule: arrive.induct)
  case (1 a b)
  then show ?case by (cases bs) auto
qed auto

lemma arrive_mono: "arrive a b as \<Longrightarrow> b \<le> c \<Longrightarrow> arrive a c as"
  by (induction a b as rule: arrive.induct) auto

section \<open>Meters with a bucket\<close>

locale bucket_meter =
  fixes meter :: "simtime \<Rightarrow> cPacket \<Rightarrow> 's \<Rightarrow> error + int \<times> cPacket \<times> 's"
    and scale :: real and end_time :: simtime
    and valid :: "'s \<Rightarrow> bool" and tokens :: "'s \<Rightarrow> int" and last :: "'s \<Rightarrow> simtime"
    and burst :: int and rate :: real and accepted :: "int \<Rightarrow> bool"
  assumes params: "valid s \<Longrightarrow> 0 < scale \<and> 0 \<le> rate \<and> 0 \<le> burst"
    and tokens_nonneg: "valid s \<Longrightarrow> 0 \<le> tokens s"
    and meter_returns: "valid s \<Longrightarrow> last s \<le> now \<Longrightarrow> now \<le> end_time \<Longrightarrow> packet_ok p \<Longrightarrow> \<exists>r. meter now p s = Inr r"
    and meter_step: "valid s \<Longrightarrow> last s \<le> now \<Longrightarrow> packet_ok p \<Longrightarrow> meter now p s = Inr (color, p', s') \<Longrightarrow>
       valid s' \<and> last s' = now \<and> tokens s' + (if accepted color then bitLength p else 0) \<le> burst
       \<and> real_of_int (tokens s' + (if accepted color then bitLength p else 0)) \<le> real_of_int (tokens s) + SIMTIME_DBL scale (now - last s) * rate"
begin

lemma metered_returns:
  "valid s \<Longrightarrow> arrive (last s) end_time as \<Longrightarrow> \<exists>cs s'. metered meter as s = Inr (cs, s')"
proof (induction as arbitrary: s)
  case (Cons a as)
  obtain t p where a: "a = (t, p)" by fastforce
  have ok: "last s \<le> t" "packet_ok p" "arrive t end_time as" "t \<le> end_time" using Cons.prems a arrive_bounds by auto
  obtain color p' s' where m: "meter t p s = Inr (color, p', s')" using meter_returns [OF Cons.prems(1) ok(1,4,2)] by auto
  have "valid s'" "last s' = t" using meter_step [OF Cons.prems(1) ok(1,2) m] by simp_all
  then obtain cs s'' where "metered meter as s' = Inr (cs, s'')" using Cons.IH [of s'] ok(3) by auto
  then show ?case using a m by simp
qed simp

lemma metered_valid:
  "valid s \<Longrightarrow> arrive (last s) b as \<Longrightarrow> metered meter as s = Inr (cs, s') \<Longrightarrow>
     valid s' \<and> last s \<le> last s' \<and> last s' \<le> b
   \<and> real_of_int (tokens s' + passed accepted cs) \<le> real_of_int (tokens s) + SIMTIME_DBL scale (last s' - last s) * rate"
proof (induction as arbitrary: s cs)
  case Nil
  then show ?case by (simp add: SIMTIME_DBL_def)
next
  case (Cons a as)
  obtain t p where a: "a = (t, p)" by fastforce
  have ok: "last s \<le> t" "packet_ok p" "arrive t b as" using Cons.prems a by auto
  obtain color p' s1 cs1 where m: "meter t p s = Inr (color, p', s1)" "metered meter as s1 = Inr (cs1, s')"
    "cs = (color, bitLength p) # cs1" using Cons.prems(3) a by (auto simp: ebind_eq_Inr)
  note st = meter_step [OF Cons.prems(1) ok(1,2) m(1)]
  then have IH: "valid s'" "t \<le> last s'" "last s' \<le> b"
    "real_of_int (tokens s' + passed accepted cs1) \<le> real_of_int (tokens s1) + SIMTIME_DBL scale (last s' - t) * rate"
    using Cons.IH [of s1 cs1] ok(3) m(2) by auto
  have "SIMTIME_DBL scale (last s' - last s) * rate = SIMTIME_DBL scale (last s' - t) * rate + SIMTIME_DBL scale (t - last s) * rate"
    by (simp add: SIMTIME_DBL_def diff_divide_distrib ring_distribs)
  then show ?case using st IH ok(1) m(3) by (simp split: if_splits)
qed

text \<open>The traffic that passes in a window is bounded, whatever came before.\<close>

lemma window_bound:
  assumes s: "valid s" and before: "arrive (last s) t0 as" and window: "arrive t0 t1 bs" and m: "metered meter (as @ bs) s = Inr (cs, s')"
  shows "real_of_int (passed accepted (drop (length as) cs)) \<le> SIMTIME_DBL scale (t1 - t0) * rate + burst"
  using s before m
proof (induction as arbitrary: s cs)
  case Nil
  note scale_pos = conjunct1 [OF params [OF \<open>valid s\<close>]] and rate_nonneg = conjunct1 [OF conjunct2 [OF params [OF \<open>valid s\<close>]]]
    and burst_nonneg = conjunct2 [OF conjunct2 [OF params [OF \<open>valid s\<close>]]]
  have t01: "t0 \<le> t1" using arrive_bounds [OF window] .
  have mono: "SIMTIME_DBL scale a * rate \<le> SIMTIME_DBL scale b * rate" if "a \<le> b" for a b
    using that scale_pos rate_nonneg by (simp add: SIMTIME_DBL_def divide_right_mono mult_right_mono)
  show ?case
  proof (cases bs)
    case Nil
    have "0 \<le> SIMTIME_DBL scale (t1 - t0) * rate" using t01 scale_pos rate_nonneg by (simp add: SIMTIME_DBL_def)
    then show ?thesis using Nil \<open>metered meter ([] @ bs) s = Inr (cs, s')\<close> burst_nonneg by simp
  next
    case (Cons b bs')
    obtain t p where b: "b = (t, p)" by fastforce
    have ok: "t0 \<le> t" "packet_ok p" "arrive t t1 bs'" "last s \<le> t0"
      using window Cons b arrive_bounds \<open>arrive (last s) t0 []\<close> by auto
    obtain color p' s1 cs1 where m1: "meter t p s = Inr (color, p', s1)" "metered meter bs' s1 = Inr (cs1, s')"
      "cs = (color, bitLength p) # cs1" using \<open>metered meter ([] @ bs) s = Inr (cs, s')\<close> Cons b by (auto simp: ebind_eq_Inr)
    have lt: "last s \<le> t" using ok(1,4) by simp
    note st = meter_step [OF \<open>valid s\<close> lt ok(2) m1(1)]
    then have v: "valid s'" "last s' \<le> t1"
      "real_of_int (tokens s' + passed accepted cs1) \<le> real_of_int (tokens s1) + SIMTIME_DBL scale (last s' - t) * rate"
      using metered_valid [of s1 t1 bs' cs1 s'] ok(3) m1(2) by auto
    have "SIMTIME_DBL scale (last s' - t) * rate \<le> SIMTIME_DBL scale (t1 - t0) * rate" using mono v(2) ok(1) by simp
    moreover have "real_of_int (tokens s1 + (if accepted color then bitLength p else 0)) \<le> real_of_int burst" using st by simp
    ultimately show ?thesis using v(3) tokens_nonneg [OF v(1)] m1(3) by (simp split: if_splits)
  qed
next
  case (Cons a as)
  obtain t p where a: "a = (t, p)" by fastforce
  have ok: "last s \<le> t" "packet_ok p" "arrive t t0 as" using Cons.prems a by auto
  obtain color p' s1 cs1 where m1: "meter t p s = Inr (color, p', s1)" "metered meter (as @ bs) s1 = Inr (cs1, s')"
    "cs = (color, bitLength p) # cs1" using Cons.prems(3) a by (auto simp: ebind_eq_Inr)
  show ?case using Cons.IH [of s1 cs1] meter_step [OF Cons.prems(1) ok(1,2) m1(1)] ok(3) m1(2,3) by simp
qed

end

section \<open>The buckets of the meters\<close>

lemma to_long_bounds:
  assumes "0 \<le> x" and "to_long x = Inr n"
  shows "0 \<le> n" and "real_of_int n \<le> x"
  using assms by (auto simp: to_long_def long_def split: if_splits)

lemma fill_bounds:
  assumes "fill burst T n = Inr T'"
  shows "T' \<le> burst" and "T' \<le> T + n" and "0 \<le> n \<Longrightarrow> T \<le> burst \<Longrightarrow> T \<le> T'"
  using assms by (auto simp: fill_def long_def ebind_eq_Inr split: if_splits)

lemma spend_Some: "spend allowed T bits = Inr (Some rest) \<Longrightarrow> rest = T - bits \<and> 0 \<le> rest \<and> allowed"
  by (auto simp: spend_def long_def ebind_eq_Inr split: if_splits)

lemma to_int_packet:
  assumes "packet_ok p"
  shows "to_int (bitLength p) = bitLength p" and "to_int (8 * getByteLength p) = 8 * getByteLength p"
    and "bitLength p \<le> 8 * getByteLength p" and "0 \<le> 8 * getByteLength p" and "8 * getByteLength p < 2 ^ 31"
  using assms by (auto simp: to_int_def packet_ok_def getByteLength_def)

text \<open>Nothing overflows while rate times time and bursts stay below \<open>2 ^ 62\<close>.\<close>

lemma to_long_returns:
  assumes "0 \<le> x" and "x < 2 ^ 62"
  obtains n where "to_long x = Inr n" and "0 \<le> n" and "n < 2 ^ 62" and "real_of_int n \<le> x"
proof -
  have n: "0 \<le> \<lfloor>x\<rfloor>" "\<lfloor>x\<rfloor> < 2 ^ 62" using assms by (simp_all add: floor_less_iff)
  then have "int64 \<lfloor>x\<rfloor>" by (simp add: int64_def)
  then show thesis using that [of "\<lfloor>x\<rfloor>"] n assms by (simp add: to_long_def long_def)
qed

lemma fill_returns:
  assumes "0 \<le> T" and "T < 2 ^ 62" and "0 \<le> n" and "n < 2 ^ 62"
  shows "\<exists>T'. fill burst T n = Inr T'"
  using assms by (auto simp: fill_def long_def int64_def)

lemma spend_returns:
  assumes "0 \<le> T" and "T < 2 ^ 62" and "0 \<le> bits" and "bits < 2 ^ 31"
  shows "\<exists>r. spend allowed T bits = Inr r"
  using assms by (auto simp: spend_def long_def int64_def)

subsection \<open>The token bucket meter\<close>

definition tb_valid :: "real \<Rightarrow> simtime \<Rightarrow> real \<Rightarrow> int \<Rightarrow> TokenBucketMeter \<Rightarrow> bool" where
  "tb_valid scale end_time cir burst m \<longleftrightarrow> 0 < scale \<and> 0 \<le> cir \<and> SIMTIME_DBL scale end_time * cir < 2 ^ 62 \<and> burst < 2 ^ 62
     \<and> CIR m = cir \<and> CBS m = burst \<and> 0 \<le> Tc m \<and> Tc m \<le> burst \<and> 0 \<le> lastUpdateTime m"

lemma elapsed_bounds:
  assumes "0 < scale" and "0 \<le> r" and "SIMTIME_DBL scale end_time * r < 2 ^ 62" and "0 \<le> a" and "a \<le> b" and "b \<le> end_time"
  shows "0 \<le> SIMTIME_DBL scale (b - a) * r" and "SIMTIME_DBL scale (b - a) * r < 2 ^ 62"
proof -
  show "0 \<le> SIMTIME_DBL scale (b - a) * r" using assms by (simp add: SIMTIME_DBL_def)
  have "SIMTIME_DBL scale (b - a) * r \<le> SIMTIME_DBL scale end_time * r"
    using assms by (intro mult_right_mono) (auto simp: SIMTIME_DBL_def divide_right_mono)
  then show "SIMTIME_DBL scale (b - a) * r < 2 ^ 62" using assms(3) by simp
qed

lemma tb_returns:
  assumes v: "tb_valid scale end_time cir burst m" and t: "lastUpdateTime m \<le> now" "now \<le> end_time" and p: "packet_ok p"
  shows "\<exists>r. TokenBucketMeter_meterPacket scale now p m = Inr r"
proof -
  have e: "0 \<le> SIMTIME_DBL scale (now - lastUpdateTime m) * CIR m" "SIMTIME_DBL scale (now - lastUpdateTime m) * CIR m < 2 ^ 62"
    using elapsed_bounds [of scale "CIR m" end_time "lastUpdateTime m" now] v t by (simp_all add: tb_valid_def)
  obtain n where n: "to_long (SIMTIME_DBL scale (now - lastUpdateTime m) * CIR m) = Inr n" "0 \<le> n" "n < 2 ^ 62"
    using to_long_returns [OF e] by blast
  obtain T where T: "fill (CBS m) (Tc m) n = Inr T" using fill_returns [of "Tc m" n "CBS m"] v n by (auto simp: tb_valid_def)
  have "0 \<le> T" "T < 2 ^ 62" using fill_bounds [OF T] v n by (auto simp: tb_valid_def)
  then obtain r where "spend ((if colorAwareMode m then getColor p else - 1) \<le> GREEN) T (bitLength p) = Inr r"
    using spend_returns [of T "bitLength p"] p by (force simp: packet_ok_def)
  then show ?thesis using n T to_int_packet [OF p] by (auto simp: TokenBucketMeter_meterPacket_def Let_def split: option.splits)
qed

lemma tb_step:
  assumes v: "tb_valid scale end_time cir burst m" and t: "lastUpdateTime m \<le> now" and p: "packet_ok p"
    and m: "TokenBucketMeter_meterPacket scale now p m = Inr (color, p', m')"
  shows "tb_valid scale end_time cir burst m' \<and> lastUpdateTime m' = now
     \<and> Tc m' + (if color = GREEN then bitLength p else 0) \<le> burst
     \<and> real_of_int (Tc m' + (if color = GREEN then bitLength p else 0)) \<le> real_of_int (Tc m) + SIMTIME_DBL scale (now - lastUpdateTime m) * cir"
proof -
  have nn: "0 \<le> SIMTIME_DBL scale (now - lastUpdateTime m) * CIR m" using v t by (simp add: tb_valid_def SIMTIME_DBL_def)
  obtain n T r where n: "to_long (SIMTIME_DBL scale (now - lastUpdateTime m) * CIR m) = Inr n"
    and T: "fill (CBS m) (Tc m) n = Inr T"
    and r: "spend ((if colorAwareMode m then getColor p else - 1) \<le> GREEN) T (bitLength p) = Inr r"
    and m': "color = (if r = None then RED else GREEN)"
      "m' = m\<lparr>lastUpdateTime := now, Tc := (case r of None \<Rightarrow> T | Some rest \<Rightarrow> rest)\<rparr>"
    using m to_int_packet [OF p] by (auto simp: TokenBucketMeter_meterPacket_def Let_def ebind_eq_Inr split: option.splits)
  note nb = to_long_bounds [OF nn n] and Tb = fill_bounds [OF T]
  have "Tc m \<le> T" using Tb(3) nb v by (simp add: tb_valid_def)
  moreover have "real_of_int T \<le> real_of_int (Tc m) + SIMTIME_DBL scale (now - lastUpdateTime m) * CIR m"
    using nb(2) Tb(2) by linarith
  moreover have "rest = T - bitLength p \<and> 0 \<le> rest" if "r = Some rest" for rest using spend_Some r that by blast
  moreover have "0 \<le> bitLength p" using p by (simp add: packet_ok_def)
  ultimately show ?thesis using Tb(1) v m' t
    by (cases r) (force simp: tb_valid_def)+
qed

interpretation tb: bucket_meter "TokenBucketMeter_meterPacket scale" scale end_time "tb_valid scale end_time cir burst"
    Tc lastUpdateTime burst cir "\<lambda>c. c = GREEN" for scale end_time cir burst
  by unfold_locales (simp add: tb_valid_def, simp add: tb_valid_def, rule tb_returns, assumption+, rule tb_step, assumption+)

text \<open>
  (C39) The token bucket meter keeps its documented promise: whatever packets came before, the green
  packets of every interval \<open>[t0, t1]\<close> have at most \<open>cir * (t1 - t0) + 8 * cbs\<close> bits together, and no
  arithmetic overflows, for bursts and for the product of rate and simulated time below \<open>2 ^ 62\<close>.
\<close>

theorem token_bucket_conforms:
  assumes "TokenBucketMeter_initialize cbs aware cir start = Inr m"
    and "0 < scale" and "0 \<le> cir" and "0 \<le> cbs" and "8 * cbs < 2 ^ 62" and "0 \<le> start"
    and "SIMTIME_DBL scale end_time * cir < 2 ^ 62"
    and "arrive start t0 before" and "arrive t0 t1 window" and "t1 \<le> end_time"
  shows "\<exists>cs m'. metered (TokenBucketMeter_meterPacket scale) (before @ window) m = Inr (cs, m')
     \<and> passed (\<lambda>c. c = GREEN) (drop (length before) cs) \<le> SIMTIME_DBL scale (t1 - t0) * cir + 8 * cbs"
proof -
  have m: "m = \<lparr>CIR = cir, CBS = 8 * cbs, colorAwareMode = aware, Tc = 8 * cbs, lastUpdateTime = start, numRcvd = 0, numRed = 0\<rparr>"
    using assms(1) by (auto simp: TokenBucketMeter_initialize_def long_def split: if_splits)
  have v: "tb_valid scale end_time cir (8 * cbs) m" using assms by (simp add: tb_valid_def m)
  have l: "lastUpdateTime m = start" by (simp add: m)
  have all: "arrive start end_time (before @ window)" using arrive_join [OF assms(8,9)] arrive_mono assms(10) by blast
  obtain cs m' where r: "metered (TokenBucketMeter_meterPacket scale) (before @ window) m = Inr (cs, m')"
    using tb.metered_returns [OF v, of "before @ window"] all l by auto
  then show ?thesis using tb.window_bound [OF v, of t0 before t1 window cs m'] assms(8,9) l by auto
qed

subsection \<open>The single rate meter\<close>

definition sr_valid :: "real \<Rightarrow> simtime \<Rightarrow> real \<Rightarrow> int \<Rightarrow> int \<Rightarrow> SingleRateThreeColorMeter \<Rightarrow> bool" where
  "sr_valid scale end_time cir C E m \<longleftrightarrow> 0 < scale \<and> 0 \<le> cir \<and> SIMTIME_DBL scale end_time * cir < 2 ^ 62 \<and> C < 2 ^ 62 \<and> E < 2 ^ 62
     \<and> s_CIR m = cir \<and> s_CBS m = C \<and> s_EBS m = E \<and> 0 \<le> s_Tc m \<and> s_Tc m \<le> C \<and> 0 \<le> s_Te m \<and> s_Te m \<le> E \<and> 0 \<le> s_lastUpdateTime m"

lemma sr_fill_returns:
  assumes "0 \<le> s_Tc m" "s_Tc m \<le> s_CBS m" "s_CBS m < 2 ^ 62" "0 \<le> s_Te m" "s_Te m < 2 ^ 62" "0 \<le> n" "n < 2 ^ 62"
  shows "\<exists>m'. SingleRate_fill n m = Inr m'"
proof -
  have "long (s_Tc m + n) = Inr (s_Tc m + n)" using assms by (simp add: long_def int64_def)
  moreover have "long (s_Tc m + n - s_CBS m) = Inr (s_Tc m + n - s_CBS m)" if "\<not> s_Tc m + n \<le> s_CBS m"
    using assms that by (simp add: long_def int64_def)
  moreover have "\<exists>T. fill (s_EBS m) (s_Te m) (s_Tc m + n - s_CBS m) = Inr T" if "\<not> s_Tc m + n \<le> s_CBS m"
    using fill_returns [of "s_Te m" "s_Tc m + n - s_CBS m" "s_EBS m"] assms that by simp
  ultimately show ?thesis by (cases "s_Tc m + n \<le> s_CBS m") (auto simp: SingleRate_fill_def)
qed

lemma sr_fill_bounds:
  assumes "SingleRate_fill n m = Inr m'" and "0 \<le> n" and "s_Tc m \<le> s_CBS m" and "s_Te m \<le> s_EBS m"
  shows "m' = m\<lparr>s_Tc := s_Tc m', s_Te := s_Te m'\<rparr>" and "s_Tc m \<le> s_Tc m'" and "s_Tc m' \<le> s_CBS m" and "s_Te m \<le> s_Te m'"
    and "s_Te m' \<le> s_EBS m" and "s_Tc m' \<le> s_Tc m + n" and "s_Tc m' + s_Te m' \<le> s_Tc m + s_Te m + n"
  using assms by (auto simp: SingleRate_fill_def fill_def long_def ebind_eq_Inr split: if_splits)

lemma sr_returns:
  assumes v: "sr_valid scale end_time cir C E m" and t: "s_lastUpdateTime m \<le> now" "now \<le> end_time" and p: "packet_ok p"
  shows "\<exists>r. SingleRate_meterPacket scale now p m = Inr r"
proof -
  have e: "0 \<le> SIMTIME_DBL scale (now - s_lastUpdateTime m) * s_CIR m" "SIMTIME_DBL scale (now - s_lastUpdateTime m) * s_CIR m < 2 ^ 62"
    using elapsed_bounds [of scale "s_CIR m" end_time "s_lastUpdateTime m" now] v t by (simp_all add: sr_valid_def)
  obtain n where n: "to_long (SIMTIME_DBL scale (now - s_lastUpdateTime m) * s_CIR m) = Inr n" "0 \<le> n" "n < 2 ^ 62"
    using to_long_returns [OF e] by blast
  let ?m = "m\<lparr>s_lastUpdateTime := now\<rparr>"
  obtain m1 where f: "SingleRate_fill n ?m = Inr m1" using sr_fill_returns [of ?m n] v n by (auto simp: sr_valid_def)
  have b: "s_Tc m \<le> s_Tc m1" "s_Tc m1 \<le> s_CBS m" "s_Te m \<le> s_Te m1" "s_Te m1 \<le> s_EBS m"
    using sr_fill_bounds [OF f n(2)] v by (simp_all add: sr_valid_def)
  have T: "0 \<le> s_Tc m1" "s_Tc m1 < 2 ^ 62" "0 \<le> s_Te m1" "s_Te m1 < 2 ^ 62" using b v by (auto simp: sr_valid_def)
  have bits: "0 \<le> bitLength p" "bitLength p < 2 ^ 31" using p by (auto simp: packet_ok_def)
  obtain g where g: "spend ((if s_colorAwareMode m1 then getColor p else - 1) \<le> GREEN) (s_Tc m1) (bitLength p) = Inr g"
    using spend_returns [OF T(1,2) bits] by blast
  obtain y where y: "spend ((if s_colorAwareMode m1 then getColor p else - 1) \<le> YELLOW) (s_Te m1) (bitLength p) = Inr y"
    using spend_returns [OF T(3,4) bits] by blast
  show ?thesis using n f g y to_int_packet [OF p]
    by (cases g; cases y) (auto simp: SingleRate_meterPacket_def Let_def)
qed

lemma sr_step:
  assumes v: "sr_valid scale end_time cir C E m" and t: "s_lastUpdateTime m \<le> now" and p: "packet_ok p"
    and m: "SingleRate_meterPacket scale now p m = Inr (color, p', m')"
  shows "sr_valid scale end_time cir C E m' \<and> s_lastUpdateTime m' = now"
    and "s_Tc m' + (if color = GREEN then bitLength p else 0) \<le> C
     \<and> real_of_int (s_Tc m' + (if color = GREEN then bitLength p else 0)) \<le> real_of_int (s_Tc m) + SIMTIME_DBL scale (now - s_lastUpdateTime m) * cir"
    and "s_Tc m' + s_Te m' + (if color \<in> {GREEN, YELLOW} then bitLength p else 0) \<le> C + E
     \<and> real_of_int (s_Tc m' + s_Te m' + (if color \<in> {GREEN, YELLOW} then bitLength p else 0))
         \<le> real_of_int (s_Tc m + s_Te m) + SIMTIME_DBL scale (now - s_lastUpdateTime m) * cir"
proof -
  let ?x = "SIMTIME_DBL scale (now - s_lastUpdateTime m) * s_CIR m"
  have nn: "0 \<le> ?x" using v t by (simp add: sr_valid_def SIMTIME_DBL_def)
  obtain n m1 g where n: "to_long ?x = Inr n" and f: "SingleRate_fill n (m\<lparr>s_lastUpdateTime := now\<rparr>) = Inr m1"
    and g: "spend ((if s_colorAwareMode m1 then getColor p else - 1) \<le> GREEN) (s_Tc m1) (bitLength p) = Inr g"
    and m1: "ebind (case g of Some rest \<Rightarrow> Inr (m1\<lparr>s_Tc := rest\<rparr>, GREEN)
        | None \<Rightarrow> ebind (spend ((if s_colorAwareMode m1 then getColor p else - 1) \<le> YELLOW) (s_Te m1) (bitLength p)) (\<lambda>yellow.
            Inr (case yellow of Some rest \<Rightarrow> (m1\<lparr>s_Te := rest\<rparr>, YELLOW) | None \<Rightarrow> (m1, RED))))
          (\<lambda>(m, newColor). Inr (newColor, setColor newColor p, m)) = Inr (color, p', m')"
    using m by (auto simp: SingleRate_meterPacket_def Let_def ebind_eq_Inr to_int_packet(1) [OF p])
  note nb = to_long_bounds [OF nn n]
  have b: "m1 = m\<lparr>s_lastUpdateTime := now, s_Tc := s_Tc m1, s_Te := s_Te m1\<rparr>" "s_Tc m \<le> s_Tc m1" "s_Tc m1 \<le> C" "s_Te m \<le> s_Te m1"
    "s_Te m1 \<le> E" "s_Tc m1 \<le> s_Tc m + n" "s_Tc m1 + s_Te m1 \<le> s_Tc m + s_Te m + n"
    using sr_fill_bounds [OF f nb(1)] v by (simp_all add: sr_valid_def)
  have r: "real_of_int (s_Tc m1) \<le> real_of_int (s_Tc m) + ?x" "real_of_int (s_Tc m1 + s_Te m1) \<le> real_of_int (s_Tc m + s_Te m) + ?x"
    using nb(2) b(6,7) by linarith+
  have c: "s_CIR m = cir" and bits: "0 \<le> bitLength p" and T: "0 \<le> s_Tc m1" "0 \<le> s_Te m1"
    using v p b by (auto simp: sr_valid_def packet_ok_def)
  have f1: "s_CIR m1 = cir" "s_CBS m1 = C" "s_EBS m1 = E" "s_lastUpdateTime m1 = now" 
    using arg_cong [OF b(1), of s_CIR] arg_cong [OF b(1), of s_CBS] arg_cong [OF b(1), of s_EBS] arg_cong [OF b(1), of s_lastUpdateTime] v
    by (simp_all add: sr_valid_def)
  have v1: "sr_valid scale end_time cir C E m1" using v f1 b T t by (auto simp: sr_valid_def)
  consider (green) rest where "rest = s_Tc m1 - bitLength p" "0 \<le> rest" "m' = m1\<lparr>s_Tc := rest\<rparr>" "color = GREEN"
    | (yellow) rest where "rest = s_Te m1 - bitLength p" "0 \<le> rest" "m' = m1\<lparr>s_Te := rest\<rparr>" "color = YELLOW"
    | (red) "m' = m1" "color = RED"
  proof (cases g)
    case (Some rest)
    then have "rest = s_Tc m1 - bitLength p \<and> 0 \<le> rest" using spend_Some g by blast
    then show thesis using that(1) [of rest] m1 Some by auto
  next
    case None
    then obtain y where y: "spend ((if s_colorAwareMode m1 then getColor p else - 1) \<le> YELLOW) (s_Te m1) (bitLength p) = Inr y"
      "(m', color) = (case y of Some rest \<Rightarrow> (m1\<lparr>s_Te := rest\<rparr>, YELLOW) | None \<Rightarrow> (m1, RED))"
      using m1 by (auto simp: ebind_eq_Inr split: prod.splits)
    then show thesis using that(2,3) spend_Some [of _ "s_Te m1" "bitLength p"] by (cases y) auto
  qed
  then have "sr_valid scale end_time cir C E m' \<and> s_lastUpdateTime m' = now
    \<and> (s_Tc m' + (if color = GREEN then bitLength p else 0) \<le> C
     \<and> real_of_int (s_Tc m' + (if color = GREEN then bitLength p else 0)) \<le> real_of_int (s_Tc m) + ?x)
    \<and> (s_Tc m' + s_Te m' + (if color \<in> {GREEN, YELLOW} then bitLength p else 0) \<le> C + E
     \<and> real_of_int (s_Tc m' + s_Te m' + (if color \<in> {GREEN, YELLOW} then bitLength p else 0)) \<le> real_of_int (s_Tc m + s_Te m) + ?x)"
    using v1 f1 b(3,5) r bits T by cases (auto simp: sr_valid_def)
  then show "sr_valid scale end_time cir C E m' \<and> s_lastUpdateTime m' = now"
    and "s_Tc m' + (if color = GREEN then bitLength p else 0) \<le> C
     \<and> real_of_int (s_Tc m' + (if color = GREEN then bitLength p else 0)) \<le> real_of_int (s_Tc m) + SIMTIME_DBL scale (now - s_lastUpdateTime m) * cir"
    and "s_Tc m' + s_Te m' + (if color \<in> {GREEN, YELLOW} then bitLength p else 0) \<le> C + E
     \<and> real_of_int (s_Tc m' + s_Te m' + (if color \<in> {GREEN, YELLOW} then bitLength p else 0))
         \<le> real_of_int (s_Tc m + s_Te m) + SIMTIME_DBL scale (now - s_lastUpdateTime m) * cir"
    unfolding c by blast+
qed

interpretation sr_green: bucket_meter "SingleRate_meterPacket scale" scale end_time "sr_valid scale end_time cir C E"
    s_Tc s_lastUpdateTime C cir "\<lambda>c. c = GREEN" for scale end_time cir C E
proof unfold_locales
  show "\<exists>r. SingleRate_meterPacket scale now p s = Inr r"
    if "sr_valid scale end_time cir C E s" "s_lastUpdateTime s \<le> now" "now \<le> end_time" "packet_ok p" for s now p
    using sr_returns [OF that] .
  show "sr_valid scale end_time cir C E s' \<and> s_lastUpdateTime s' = now \<and> s_Tc s' + (if color = GREEN then bitLength p else 0) \<le> C
     \<and> real_of_int (s_Tc s' + (if color = GREEN then bitLength p else 0)) \<le> real_of_int (s_Tc s) + SIMTIME_DBL scale (now - s_lastUpdateTime s) * cir"
    if "sr_valid scale end_time cir C E s" "s_lastUpdateTime s \<le> now" "packet_ok p" "SingleRate_meterPacket scale now p s = Inr (color, p', s')"
    for s now p color p' s' using sr_step(1,2) [OF that] by blast
qed (simp_all add: sr_valid_def)

interpretation sr_yellow: bucket_meter "SingleRate_meterPacket scale" scale end_time "sr_valid scale end_time cir C E"
    "\<lambda>m. s_Tc m + s_Te m" s_lastUpdateTime "C + E" cir "\<lambda>c. c \<in> {GREEN, YELLOW}" for scale end_time cir C E
proof unfold_locales
  show "\<exists>r. SingleRate_meterPacket scale now p s = Inr r"
    if "sr_valid scale end_time cir C E s" "s_lastUpdateTime s \<le> now" "now \<le> end_time" "packet_ok p" for s now p
    using sr_returns [OF that] .
  show "sr_valid scale end_time cir C E s' \<and> s_lastUpdateTime s' = now
     \<and> s_Tc s' + s_Te s' + (if color \<in> {GREEN, YELLOW} then bitLength p else 0) \<le> C + E
     \<and> real_of_int (s_Tc s' + s_Te s' + (if color \<in> {GREEN, YELLOW} then bitLength p else 0))
         \<le> real_of_int (s_Tc s + s_Te s) + SIMTIME_DBL scale (now - s_lastUpdateTime s) * cir"
    if "sr_valid scale end_time cir C E s" "s_lastUpdateTime s \<le> now" "packet_ok p" "SingleRate_meterPacket scale now p s = Inr (color, p', s')"
    for s now p color p' s' using sr_step(1,3) [OF that] by blast
qed (auto simp: sr_valid_def)

text \<open>
  (C38) The single rate meter keeps its documented promise: in every interval \<open>[t0, t1]\<close>, whatever came
  before, the green packets have at most \<open>cir * (t1 - t0) + 8 * cbs\<close> bits, and the green and yellow packets
  together at most \<open>cir * (t1 - t0) + 8 * (cbs + ebs)\<close>; no arithmetic overflows within the stated ranges.
\<close>

theorem single_rate_conforms:
  assumes "SingleRate_initialize cbs ebs aware cir start = Inr m"
    and "0 < scale" and "0 \<le> cir" and "0 \<le> cbs" and "8 * cbs < 2 ^ 62" and "0 \<le> ebs" and "8 * ebs < 2 ^ 62" and "0 \<le> start"
    and "SIMTIME_DBL scale end_time * cir < 2 ^ 62"
    and "arrive start t0 before" and "arrive t0 t1 window" and "t1 \<le> end_time"
  shows "\<exists>cs m'. metered (SingleRate_meterPacket scale) (before @ window) m = Inr (cs, m')
     \<and> passed (\<lambda>c. c = GREEN) (drop (length before) cs) \<le> SIMTIME_DBL scale (t1 - t0) * cir + 8 * cbs
     \<and> passed (\<lambda>c. c \<in> {GREEN, YELLOW}) (drop (length before) cs) \<le> SIMTIME_DBL scale (t1 - t0) * cir + 8 * (cbs + ebs)"
proof -
  have m: "m = \<lparr>s_CIR = cir, s_CBS = 8 * cbs, s_EBS = 8 * ebs, s_colorAwareMode = aware, s_Tc = 8 * cbs, s_Te = 8 * ebs,
      s_lastUpdateTime = start, s_numRcvd = 0, s_numYellow = 0, s_numRed = 0\<rparr>"
    using assms(1) by (auto simp: SingleRate_initialize_def long_def split: if_splits)
  have v: "sr_valid scale end_time cir (8 * cbs) (8 * ebs) m" using assms by (simp add: sr_valid_def m)
  have l: "s_lastUpdateTime m = start" by (simp add: m)
  have all: "arrive start end_time (before @ window)" using arrive_join [OF assms(10,11)] arrive_mono assms(12) by blast
  obtain cs m' where r: "metered (SingleRate_meterPacket scale) (before @ window) m = Inr (cs, m')"
    using sr_green.metered_returns [OF v, of "before @ window"] all l by auto
  have "passed (\<lambda>c. c \<in> {GREEN, YELLOW}) (drop (length before) cs) \<le> SIMTIME_DBL scale (t1 - t0) * cir + 8 * (cbs + ebs)"
    using sr_yellow.window_bound [OF v, of t0 before t1 window cs m'] assms(10,11) l r by simp
  moreover have "passed (\<lambda>c. c = GREEN) (drop (length before) cs) \<le> SIMTIME_DBL scale (t1 - t0) * cir + 8 * cbs"
    using sr_green.window_bound [OF v, of t0 before t1 window cs m'] assms(10,11) l r by simp
  ultimately show ?thesis using r by (intro exI [of _ cs] exI [of _ m']) simp
qed

subsection \<open>The two rate meter\<close>

definition tr_valid :: "real \<Rightarrow> simtime \<Rightarrow> real \<Rightarrow> real \<Rightarrow> int \<Rightarrow> int \<Rightarrow> TwoRateThreeColorMeter \<Rightarrow> bool" where
  "tr_valid scale end_time pir cir P C m \<longleftrightarrow> 0 < scale \<and> 0 \<le> pir \<and> 0 \<le> cir
     \<and> SIMTIME_DBL scale end_time * pir < 2 ^ 62 \<and> SIMTIME_DBL scale end_time * cir < 2 ^ 62 \<and> P < 2 ^ 62 \<and> C < 2 ^ 62
     \<and> t_PIR m = pir \<and> t_CIR m = cir \<and> t_PBS m = P \<and> t_CBS m = C \<and> 0 \<le> t_Tp m \<and> t_Tp m \<le> P \<and> 0 \<le> t_Tc m \<and> t_Tc m \<le> C
     \<and> 0 \<le> t_lastUpdateTime m"

lemma TwoRate_decide_cases:
  assumes "TwoRate_decide oldColor bits m = Inr (m', color)"
  obtains (red) "m' = m" and "color = RED"
  | (yellow) "bits \<le> t_Tp m" and "m' = m\<lparr>t_Tp := t_Tp m - bits\<rparr>" and "color = YELLOW"
  | (green) "bits \<le> t_Tp m" and "bits \<le> t_Tc m" and "m' = m\<lparr>t_Tp := t_Tp m - bits, t_Tc := t_Tc m - bits\<rparr>" and "color = GREEN"
  using assms by (auto simp: TwoRate_decide_def ebind_eq_Inr split: option.splits dest!: spend_Some)

lemma tr_returns:
  assumes v: "tr_valid scale end_time pir cir P C m" and t: "t_lastUpdateTime m \<le> now" "now \<le> end_time" and p: "packet_ok p"
  shows "\<exists>r. TwoRate_meterPacket scale now p m = Inr r"
proof -
  let ?e = "SIMTIME_DBL scale (now - t_lastUpdateTime m)"
  have ep: "0 \<le> ?e * t_PIR m" "?e * t_PIR m < 2 ^ 62" and ec: "0 \<le> ?e * t_CIR m" "?e * t_CIR m < 2 ^ 62"
    using elapsed_bounds [of scale "t_PIR m" end_time "t_lastUpdateTime m" now]
      elapsed_bounds [of scale "t_CIR m" end_time "t_lastUpdateTime m" now] v t by (simp_all add: tr_valid_def)
  obtain n where n: "to_long (?e * t_PIR m) = Inr n" "0 \<le> n" "n < 2 ^ 62" using to_long_returns [OF ep] by blast
  obtain k where k: "to_long (?e * t_CIR m) = Inr k" "0 \<le> k" "k < 2 ^ 62" using to_long_returns [OF ec] by blast
  obtain Tp where Tp: "fill (t_PBS m) (t_Tp m) n = Inr Tp" using fill_returns [of "t_Tp m" n "t_PBS m"] v n by (auto simp: tr_valid_def)
  obtain Tc where Tc: "fill (t_CBS m) (t_Tc m) k = Inr Tc" using fill_returns [of "t_Tc m" k "t_CBS m"] v k by (auto simp: tr_valid_def)
  have b: "0 \<le> Tp" "Tp < 2 ^ 62" "0 \<le> Tc" "Tc < 2 ^ 62" using fill_bounds [OF Tp] fill_bounds [OF Tc] v n k by (auto simp: tr_valid_def)
  note bits = to_int_packet(4,5) [OF p]
  let ?old = "if t_colorAwareMode m then getColor p else - 1"
  obtain g where g: "spend (?old \<noteq> RED) Tp (8 * getByteLength p) = Inr g" using spend_returns [OF b(1,2) bits] by blast
  obtain y where y: "spend (?old \<noteq> YELLOW) Tc (8 * getByteLength p) = Inr y" using spend_returns [OF b(3,4) bits] by blast
  show ?thesis using n k Tp Tc g y to_int_packet(2) [OF p]
    by (cases g; cases y) (auto simp: TwoRate_meterPacket_def TwoRate_decide_def Let_def)
qed

lemma tr_step:
  assumes v: "tr_valid scale end_time pir cir P C m" and t: "t_lastUpdateTime m \<le> now" and p: "packet_ok p"
    and m: "TwoRate_meterPacket scale now p m = Inr (color, p', m')"
  shows "tr_valid scale end_time pir cir P C m' \<and> t_lastUpdateTime m' = now"
    and "t_Tc m' + (if color = GREEN then bitLength p else 0) \<le> C
     \<and> real_of_int (t_Tc m' + (if color = GREEN then bitLength p else 0)) \<le> real_of_int (t_Tc m) + SIMTIME_DBL scale (now - t_lastUpdateTime m) * cir"
    and "t_Tp m' + (if color \<in> {GREEN, YELLOW} then bitLength p else 0) \<le> P
     \<and> real_of_int (t_Tp m' + (if color \<in> {GREEN, YELLOW} then bitLength p else 0)) \<le> real_of_int (t_Tp m) + SIMTIME_DBL scale (now - t_lastUpdateTime m) * pir"
proof -
  let ?e = "SIMTIME_DBL scale (now - t_lastUpdateTime m)" and ?b = "8 * getByteLength p"
  let ?old = "if t_colorAwareMode m then getColor p else - 1"
  have nn: "0 \<le> ?e * t_PIR m" "0 \<le> ?e * t_CIR m" using v t by (simp_all add: tr_valid_def SIMTIME_DBL_def)
  obtain n Tp k Tc m1 where n: "to_long (?e * t_PIR m) = Inr n" and Tp: "fill (t_PBS m) (t_Tp m) n = Inr Tp"
    and k: "to_long (?e * t_CIR m) = Inr k" and Tc: "fill (t_CBS m) (t_Tc m) k = Inr Tc"
    and m1: "m1 = m\<lparr>t_lastUpdateTime := now, t_Tp := Tp, t_Tc := Tc\<rparr>"
    and g: "TwoRate_decide ?old ?b m1 = Inr (m', color)"
    using m by (auto simp: TwoRate_meterPacket_def Let_def ebind_eq_Inr to_int_packet(2) [OF p] split: prod.splits)
  note nb = to_long_bounds [OF nn(1) n] and kb = to_long_bounds [OF nn(2) k] and Pb = fill_bounds [OF Tp] and Cb = fill_bounds [OF Tc]
  have b: "0 \<le> Tp" "Tp \<le> P" "0 \<le> Tc" "Tc \<le> C" and r: "real_of_int Tp \<le> real_of_int (t_Tp m) + ?e * pir" "real_of_int Tc \<le> real_of_int (t_Tc m) + ?e * cir"
    using nb kb Pb Cb v by (auto simp: tr_valid_def)
  note bits = to_int_packet(3,4) [OF p]
  have pos: "0 \<le> bitLength p" using p by (simp add: packet_ok_def)
  from g have "(tr_valid scale end_time pir cir P C m' \<and> t_lastUpdateTime m' = now)
    \<and> (t_Tc m' + (if color = GREEN then bitLength p else 0) \<le> C
     \<and> real_of_int (t_Tc m' + (if color = GREEN then bitLength p else 0)) \<le> real_of_int (t_Tc m) + ?e * cir)
    \<and> (t_Tp m' + (if color \<in> {GREEN, YELLOW} then bitLength p else 0) \<le> P
     \<and> real_of_int (t_Tp m' + (if color \<in> {GREEN, YELLOW} then bitLength p else 0)) \<le> real_of_int (t_Tp m) + ?e * pir)"
    using v t b r bits pos by (cases rule: TwoRate_decide_cases) (auto simp: tr_valid_def m1)
  then show "tr_valid scale end_time pir cir P C m' \<and> t_lastUpdateTime m' = now"
    and "t_Tc m' + (if color = GREEN then bitLength p else 0) \<le> C
     \<and> real_of_int (t_Tc m' + (if color = GREEN then bitLength p else 0)) \<le> real_of_int (t_Tc m) + ?e * cir"
    and "t_Tp m' + (if color \<in> {GREEN, YELLOW} then bitLength p else 0) \<le> P
     \<and> real_of_int (t_Tp m' + (if color \<in> {GREEN, YELLOW} then bitLength p else 0)) \<le> real_of_int (t_Tp m) + ?e * pir"
    by blast+
qed

interpretation tr_green: bucket_meter "TwoRate_meterPacket scale" scale end_time "tr_valid scale end_time pir cir P C"
    t_Tc t_lastUpdateTime C cir "\<lambda>c. c = GREEN" for scale end_time pir cir P C
proof unfold_locales
  show "\<exists>r. TwoRate_meterPacket scale now p s = Inr r"
    if "tr_valid scale end_time pir cir P C s" "t_lastUpdateTime s \<le> now" "now \<le> end_time" "packet_ok p" for s now p
    using tr_returns [OF that] .
  show "tr_valid scale end_time pir cir P C s' \<and> t_lastUpdateTime s' = now \<and> t_Tc s' + (if color = GREEN then bitLength p else 0) \<le> C
     \<and> real_of_int (t_Tc s' + (if color = GREEN then bitLength p else 0)) \<le> real_of_int (t_Tc s) + SIMTIME_DBL scale (now - t_lastUpdateTime s) * cir"
    if "tr_valid scale end_time pir cir P C s" "t_lastUpdateTime s \<le> now" "packet_ok p" "TwoRate_meterPacket scale now p s = Inr (color, p', s')"
    for s now p color p' s' using tr_step(1,2) [OF that] by blast
qed (auto simp: tr_valid_def)

interpretation tr_yellow: bucket_meter "TwoRate_meterPacket scale" scale end_time "tr_valid scale end_time pir cir P C"
    t_Tp t_lastUpdateTime P pir "\<lambda>c. c \<in> {GREEN, YELLOW}" for scale end_time pir cir P C
proof unfold_locales
  show "\<exists>r. TwoRate_meterPacket scale now p s = Inr r"
    if "tr_valid scale end_time pir cir P C s" "t_lastUpdateTime s \<le> now" "now \<le> end_time" "packet_ok p" for s now p
    using tr_returns [OF that] .
  show "tr_valid scale end_time pir cir P C s' \<and> t_lastUpdateTime s' = now \<and> t_Tp s' + (if color \<in> {GREEN, YELLOW} then bitLength p else 0) \<le> P
     \<and> real_of_int (t_Tp s' + (if color \<in> {GREEN, YELLOW} then bitLength p else 0)) \<le> real_of_int (t_Tp s) + SIMTIME_DBL scale (now - t_lastUpdateTime s) * pir"
    if "tr_valid scale end_time pir cir P C s" "t_lastUpdateTime s \<le> now" "packet_ok p" "TwoRate_meterPacket scale now p s = Inr (color, p', s')"
    for s now p color p' s' using tr_step(1,3) [OF that] by blast
qed (auto simp: tr_valid_def)

text \<open>
  (C37) The two rate meter keeps its documented promise: in every interval \<open>[t0, t1]\<close>, whatever came before,
  the green packets have at most \<open>cir * (t1 - t0) + 8 * cbs\<close> bits, and the green and yellow packets together
  at most \<open>pir * (t1 - t0) + 8 * pbs\<close>; no arithmetic overflows within the stated ranges.
\<close>

theorem two_rate_conforms:
  assumes "TwoRate_initialize pbs cbs aware pir cir start = Inr m"
    and "0 < scale" and "0 \<le> pir" and "0 \<le> cir" and "0 \<le> pbs" and "8 * pbs < 2 ^ 62" and "0 \<le> cbs" and "8 * cbs < 2 ^ 62" and "0 \<le> start"
    and "SIMTIME_DBL scale end_time * pir < 2 ^ 62" and "SIMTIME_DBL scale end_time * cir < 2 ^ 62"
    and "arrive start t0 before" and "arrive t0 t1 window" and "t1 \<le> end_time"
  shows "\<exists>cs m'. metered (TwoRate_meterPacket scale) (before @ window) m = Inr (cs, m')
     \<and> passed (\<lambda>c. c = GREEN) (drop (length before) cs) \<le> SIMTIME_DBL scale (t1 - t0) * cir + 8 * cbs
     \<and> passed (\<lambda>c. c \<in> {GREEN, YELLOW}) (drop (length before) cs) \<le> SIMTIME_DBL scale (t1 - t0) * pir + 8 * pbs"
proof -
  have m: "m = \<lparr>t_PIR = pir, t_PBS = 8 * pbs, t_CIR = cir, t_CBS = 8 * cbs, t_colorAwareMode = aware, t_Tp = 8 * pbs, t_Tc = 8 * cbs,
      t_lastUpdateTime = start, t_numRcvd = 0, t_numYellow = 0, t_numRed = 0\<rparr>"
    using assms(1) by (auto simp: TwoRate_initialize_def long_def split: if_splits)
  have v: "tr_valid scale end_time pir cir (8 * pbs) (8 * cbs) m" using assms by (simp add: tr_valid_def m)
  have l: "t_lastUpdateTime m = start" by (simp add: m)
  have all: "arrive start end_time (before @ window)" using arrive_join [OF assms(12,13)] arrive_mono assms(14) by blast
  obtain cs m' where r: "metered (TwoRate_meterPacket scale) (before @ window) m = Inr (cs, m')"
    using tr_green.metered_returns [OF v, of "before @ window"] all l by auto
  have "passed (\<lambda>c. c \<in> {GREEN, YELLOW}) (drop (length before) cs) \<le> SIMTIME_DBL scale (t1 - t0) * pir + 8 * pbs"
    using tr_yellow.window_bound [OF v, of t0 before t1 window cs m'] assms(12,13) l r by simp
  moreover have "passed (\<lambda>c. c = GREEN) (drop (length before) cs) \<le> SIMTIME_DBL scale (t1 - t0) * cir + 8 * cbs"
    using tr_green.window_bound [OF v, of t0 before t1 window cs m'] assms(12,13) l r by simp
  ultimately show ?thesis using r by (intro exI [of _ cs] exI [of _ m']) simp
qed

section \<open>Witnesses, lost tokens, displays\<close>

definition small_packet :: cPacket where
  "small_packet = \<lparr>bitLength = 800, dscolor = None\<rparr>"

lemma small_arrivals: "arrive 0 1 [(1, small_packet)]" "arrive 1 2 [(1, small_packet), (2, small_packet)]"
  by (simp_all add: packet_ok_def small_packet_def)

theorem token_bucket_conforms_witness:
  "\<exists>m cs m'. TokenBucketMeter_initialize 150 False 400 0 = Inr m
     \<and> metered (TokenBucketMeter_meterPacket 1) ([(1, small_packet)] @ [(1, small_packet), (2, small_packet)]) m = Inr (cs, m')
     \<and> passed (\<lambda>c. c = GREEN) (drop 1 cs) \<le> 1600"
proof -
  obtain m where m: "TokenBucketMeter_initialize 150 False 400 0 = Inr m" by (simp add: TokenBucketMeter_initialize_def long_def int64_def)
  show ?thesis using token_bucket_conforms [OF m, of 1 10 1 "[(1, small_packet)]" 2 "[(1, small_packet), (2, small_packet)]"] small_arrivals m
    by (auto simp: SIMTIME_DBL_def)
qed

theorem single_rate_conforms_witness:
  "\<exists>m cs m'. SingleRate_initialize 150 100 False 400 0 = Inr m
     \<and> metered (SingleRate_meterPacket 1) ([(1, small_packet)] @ [(1, small_packet), (2, small_packet)]) m = Inr (cs, m')
     \<and> passed (\<lambda>c. c = GREEN) (drop 1 cs) \<le> 1600"
proof -
  obtain m where m: "SingleRate_initialize 150 100 False 400 0 = Inr m" by (simp add: SingleRate_initialize_def long_def int64_def)
  show ?thesis using single_rate_conforms [OF m, of 1 10 1 "[(1, small_packet)]" 2 "[(1, small_packet), (2, small_packet)]"] small_arrivals m
    by (auto simp: SIMTIME_DBL_def)
qed

theorem two_rate_conforms_witness:
  "\<exists>m cs m'. TwoRate_initialize 250 150 False 800 400 0 = Inr m
     \<and> metered (TwoRate_meterPacket 1) ([(1, small_packet)] @ [(1, small_packet), (2, small_packet)]) m = Inr (cs, m')
     \<and> passed (\<lambda>c. c = GREEN) (drop 1 cs) \<le> 1600"
proof -
  obtain m where m: "TwoRate_initialize 250 150 False 800 400 0 = Inr m" by (simp add: TwoRate_initialize_def long_def int64_def)
  show ?thesis using two_rate_conforms [OF m, of 1 10 1 "[(1, small_packet)]" 2 "[(1, small_packet), (2, small_packet)]"] small_arrivals m
    by (auto simp: SIMTIME_DBL_def)
qed

text \<open>
  The fraction of a token earned since the last packet is dropped with every packet: when the packets
  follow each other so closely that \<open>cir\<close> gives less than one token between two of them, an exhausted
  bucket never fills, and all further packets are red however long they go on.
\<close>

lemma close_packet:
  assumes "0 \<le> SIMTIME_DBL scale (t - lastUpdateTime m) * CIR m" and "SIMTIME_DBL scale (t - lastUpdateTime m) * CIR m < 1"
    and "0 \<le> Tc m" and "Tc m \<le> CBS m" and "CBS m < 2 ^ 62" and "Tc m < bitLength p" and "packet_ok p"
  shows "\<exists>p'. TokenBucketMeter_meterPacket scale t p m = Inr (RED, p', m\<lparr>lastUpdateTime := t\<rparr>)"
proof -
  have "\<lfloor>SIMTIME_DBL scale (t - lastUpdateTime m) * CIR m\<rfloor> = 0" using assms(1,2) by (simp add: floor_eq_iff)
  then have n: "to_long (SIMTIME_DBL scale (t - lastUpdateTime m) * CIR m) = Inr 0" using assms(1) by (simp add: to_long_def long_def int64_def)
  have f: "fill (CBS m) (Tc m) 0 = Inr (Tc m)" using assms by (simp add: fill_def long_def int64_def)
  have "int64 (Tc m - bitLength p)" using assms by (simp add: int64_def packet_ok_def)
  then have "spend b (Tc m) (bitLength p) = Inr None" for b using assms(6) by (simp add: spend_def long_def)
  then show ?thesis using n f to_int_packet(1) [OF assms(7)] by (simp add: TokenBucketMeter_meterPacket_def Let_def)
qed

fun close_arrivals :: "real \<Rightarrow> real \<Rightarrow> simtime \<Rightarrow> arrival list \<Rightarrow> bool" where
  "close_arrivals scale cir a [] \<longleftrightarrow> True"
| "close_arrivals scale cir a ((t, p) # as) \<longleftrightarrow> a \<le> t \<and> SIMTIME_DBL scale (t - a) * cir < 1 \<and> packet_ok p \<and> close_arrivals scale cir t as"

theorem exhausted_bucket_starves:
  assumes "0 < scale" and "0 \<le> CIR m" and "0 \<le> Tc m" and "Tc m \<le> CBS m" and "CBS m < 2 ^ 62"
    and "close_arrivals scale (CIR m) (lastUpdateTime m) as" and "\<forall>(t, p)\<in>set as. Tc m < bitLength p"
  shows "\<exists>m'. metered (TokenBucketMeter_meterPacket scale) as m = Inr (map (\<lambda>(t, p). (RED, bitLength p)) as, m')"
  using assms
proof (induction as arbitrary: m)
  case (Cons a as)
  obtain t p where a: "a = (t, p)" by fastforce
  have "0 \<le> SIMTIME_DBL scale (t - lastUpdateTime m) * CIR m" using Cons.prems a by (simp add: SIMTIME_DBL_def)
  then obtain p' where "TokenBucketMeter_meterPacket scale t p m = Inr (RED, p', m\<lparr>lastUpdateTime := t\<rparr>)"
    using close_packet [of scale t m p] Cons.prems a by auto
  moreover obtain m' where "metered (TokenBucketMeter_meterPacket scale) as (m\<lparr>lastUpdateTime := t\<rparr>) = Inr (map (\<lambda>(t, p). (RED, bitLength p)) as, m')"
    using Cons.IH [of "m\<lparr>lastUpdateTime := t\<rparr>"] Cons.prems a by auto
  ultimately show ?case using a by simp
qed simp

text \<open>The display texts fit their buffers of 50 and 80 characters for all counters of 32 bits.\<close>

theorem meter_displays_fit:
  assumes "int32 (numRcvd m)" and "int32 (numRed m)" and "int32 rcvd" and "int32 yellow" and "int32 red"
  shows "\<exists>t. TokenBucketMeter_refreshDisplay m = Inr t" and "\<exists>t. three_color_display rcvd yellow red = Inr t"
  using assms [THEN length_format_int32]
  by (auto simp: TokenBucketMeter_refreshDisplay_def three_color_display_def sprintf_buf_def)

end
