(* ===== verification/Chunk.thy ===== *)
theory Chunk
  imports Omnet "HOL-Library.Word"
begin

text \<open>
  Packet data of the INET framework (\<open>common/packet/chunk\<close>): a chunk represents a sequence of bits as
  bytes, as a mere count, as the fields of a protocol header, as a slice of another chunk or as a
  sequence of chunks. Chunks in packets and buffers are immutable, so they are values here; a change in
  place of an exclusively owned chunk and a change of its copy are the same. Modelled are the plain
  operations, which do not convert a chunk to another type (\<open>predicate\<close> and \<open>converter\<close> are null). Left out are
  tags, the flags for damaged chunks, and two forms that the documentation of \<open>Chunk\<close> rules out: a sequence in a
  sequence and a slice of a sequence, which exists for a moment in \<open>convertChunk\<close> only. Lengths and offsets
  are in bits; \<open>B\<close> values count bytes, and the conversion to them throws when it is not exact.
\<close>

section \<open>Chunks\<close>

type_synonym byte = "8 word"

text \<open>
  \<open>'f\<close> are protocol header objects with their identity. The parameters of \<open>FieldsChunk\<close>: the object, its
  length; of \<open>SliceChunk\<close>: the chunk, offset, length.
\<close>

datatype 'f elem =
    BytesChunk "byte list"
  | ByteCountChunk int byte
  | BitsChunk "bool list"
  | BitCountChunk int bool
  | FieldsChunk 'f int
  | SliceChunk "'f elem" int int

datatype 'f chunk = EmptyChunk | Elem "'f elem" | SequenceChunk "'f elem list"

record Iterator =
  isForward :: bool
  position :: int
  index :: int

definition Iterator_at :: "int \<Rightarrow> Iterator" where
  "Iterator_at pos = \<lparr>isForward = True, position = pos, index = (if pos = 0 then 0 else - 1)\<rparr>"

definition ForwardIterator :: "int \<Rightarrow> Iterator" where
  "ForwardIterator pos = \<lparr>isForward = True, position = pos, index = - 1\<rparr>"

definition BackwardIterator :: "int \<Rightarrow> Iterator" where
  "BackwardIterator pos = \<lparr>isForward = False, position = pos, index = - 1\<rparr>"

definition CHUNK_CHECK_USAGE :: "bool \<Rightarrow> error + 'a \<Rightarrow> error + 'a" where
  "CHUNK_CHECK_USAGE condition k = (if condition then k else Inl RuntimeError)"

text \<open>\<open>B(n)\<close> for a number of bits.\<close>

definition to_B :: "int \<Rightarrow> error + int" where
  "to_B n = (if n mod 8 \<noteq> 0 then Inl RuntimeError else Inr (n div 8))"

text \<open>\<open>std::vector(xs.begin() + i, xs.begin() + j)\<close>\<close>

definition subvector :: "int \<Rightarrow> int \<Rightarrow> 'a list \<Rightarrow> error + 'a list" where
  "subvector i j xs = (if 0 \<le> i \<and> i \<le> j \<and> j \<le> int (length xs) then Inr (take (nat (j - i)) (drop (nat i) xs))
                       else Inl IndexOutOfRange)"

section \<open>Length, peeking\<close>

fun elem_length :: "'f elem \<Rightarrow> int" where
  "elem_length (BytesChunk bytes) = 8 * int (length bytes)"
| "elem_length (ByteCountChunk n data) = 8 * n"
| "elem_length (BitsChunk bits) = int (length bits)"
| "elem_length (BitCountChunk n data) = n"
| "elem_length (FieldsChunk f chunkLength) = chunkLength"
| "elem_length (SliceChunk chunk offset n) = n"

text \<open>The common beginning of the \<open>peekUnchecked\<close> functions; \<open>k\<close> is what follows for a proper part.\<close>

definition peek_part :: "'f elem \<Rightarrow> 'f elem \<Rightarrow> Iterator \<Rightarrow> int \<Rightarrow> error + 'f elem option \<Rightarrow> error + 'f elem option" where
  "peek_part this result iterator len k =
     (let chunkLength = elem_length this in
      CHUNK_CHECK_USAGE (0 \<le> position iterator \<and> position iterator \<le> chunkLength)
        (if len = 0 \<or> (position iterator = chunkLength \<and> len = - 1) then Inr None
         else if position iterator = 0 \<and> (len = - 1 \<or> len = chunkLength) then Inr (Some result)
         else k))"

definition BytesChunk_peekUnchecked :: "byte list \<Rightarrow> Iterator \<Rightarrow> int \<Rightarrow> error + 'f elem option" where
  "BytesChunk_peekUnchecked bytes iterator len =
     peek_part (BytesChunk bytes) (BytesChunk bytes) iterator len
       (ebind (to_B (position iterator)) (\<lambda>i.
        ebind (if len = - 1 then Inr (int (length bytes)) else to_B (position iterator + len)) (\<lambda>j.
        ebind (subvector i j bytes) (\<lambda>bs. Inr (Some (BytesChunk bs))))))"

definition ByteCountChunk_new :: "int \<Rightarrow> error + 'f elem" where
  "ByteCountChunk_new n = ebind (to_B n) (\<lambda>m. CHUNK_CHECK_USAGE (m \<ge> 0) (Inr (ByteCountChunk m 63)))"

definition ByteCountChunk_peekUnchecked :: "int \<Rightarrow> byte \<Rightarrow> Iterator \<Rightarrow> int \<Rightarrow> error + 'f elem option" where
  "ByteCountChunk_peekUnchecked n data iterator len =
     peek_part (ByteCountChunk n data) (ByteCountChunk n data) iterator len
       (ebind (ByteCountChunk_new (if len = - 1 then 8 * n - position iterator else len)) (\<lambda>c. Inr (Some c)))"

definition BitsChunk_peekUnchecked :: "bool list \<Rightarrow> Iterator \<Rightarrow> int \<Rightarrow> error + 'f elem option" where
  "BitsChunk_peekUnchecked bits iterator len =
     peek_part (BitsChunk bits) (BitsChunk bits) iterator len
       (ebind (subvector (position iterator) (if len = - 1 then int (length bits) else position iterator + len) bits)
          (\<lambda>bs. Inr (Some (BitsChunk bs))))"

definition BitCountChunk_peekUnchecked :: "int \<Rightarrow> bool \<Rightarrow> Iterator \<Rightarrow> int \<Rightarrow> error + 'f elem option" where
  "BitCountChunk_peekUnchecked n data iterator len =
     peek_part (BitCountChunk n data) (BitCountChunk n data) iterator len
       (let m = (if len = - 1 then n - position iterator else len)
        in CHUNK_CHECK_USAGE (m \<ge> 0) (Inr (Some (BitCountChunk m False))))"

text \<open>\<open>peekConverted\<close> finds the offset of a part from either end.\<close>

definition converted_offset :: "int \<Rightarrow> Iterator \<Rightarrow> int \<Rightarrow> error + int" where
  "converted_offset chunkLength iterator len =
     CHUNK_CHECK_USAGE (isForward iterator \<or> len \<noteq> - 1)
       (Inr (if isForward iterator then position iterator else chunkLength - position iterator - len))"

definition SliceChunk_convertChunk :: "'f elem \<Rightarrow> int \<Rightarrow> int \<Rightarrow> 'f elem" where
  "SliceChunk_convertChunk chunk offset len =
     SliceChunk chunk offset (if len = - 1 then elem_length chunk - offset else len)"

definition FieldsChunk_peekUnchecked :: "'f \<Rightarrow> int \<Rightarrow> Iterator \<Rightarrow> int \<Rightarrow> error + 'f elem option" where
  "FieldsChunk_peekUnchecked f n iterator len =
     peek_part (FieldsChunk f n) (FieldsChunk f n) iterator len
       (ebind (converted_offset n iterator len) (\<lambda>offset. Inr (Some (SliceChunk_convertChunk (FieldsChunk f n) offset len))))"

fun elem_peekUnchecked :: "'f elem \<Rightarrow> Iterator \<Rightarrow> int \<Rightarrow> error + 'f elem option" where
  "elem_peekUnchecked (BytesChunk bytes) iterator len = BytesChunk_peekUnchecked bytes iterator len"
| "elem_peekUnchecked (ByteCountChunk n data) iterator len = ByteCountChunk_peekUnchecked n data iterator len"
| "elem_peekUnchecked (BitsChunk bits) iterator len = BitsChunk_peekUnchecked bits iterator len"
| "elem_peekUnchecked (BitCountChunk n data) iterator len = BitCountChunk_peekUnchecked n data iterator len"
| "elem_peekUnchecked (FieldsChunk f n) iterator len = FieldsChunk_peekUnchecked f n iterator len"
| "elem_peekUnchecked (SliceChunk chunk offset n) iterator len =
     peek_part (SliceChunk chunk offset n)
       (if offset = 0 \<and> n = elem_length chunk then chunk else SliceChunk chunk offset n) iterator len
       (elem_peekUnchecked chunk (ForwardIterator (position iterator + offset)) (if len = - 1 then n else len))"

text \<open>Without flags a null pointer is not a permitted result of \<open>peek\<close>.\<close>

definition checkPeekResult :: "'a option \<Rightarrow> error + 'a" where
  "checkPeekResult chunk = (case chunk of None \<Rightarrow> Inl RuntimeError | Some c \<Rightarrow> Inr c)"

definition elem_peek :: "'f elem \<Rightarrow> Iterator \<Rightarrow> int \<Rightarrow> error + 'f elem" where
  "elem_peek e iterator len = ebind (elem_peekUnchecked e iterator len) checkPeekResult"

definition elem_simplify :: "'f elem \<Rightarrow> error + 'f elem" where
  "elem_simplify e = elem_peek e (Iterator_at 0) (elem_length e)"

section \<open>Inserting and removing\<close>

fun elem_canInsertAtBack :: "'f elem \<Rightarrow> 'f elem \<Rightarrow> bool" where
  "elem_canInsertAtBack (BytesChunk _) (BytesChunk _) = True"
| "elem_canInsertAtBack (ByteCountChunk _ _) (ByteCountChunk _ _) = True"
| "elem_canInsertAtBack (BitsChunk _) (BitsChunk _) = True"
| "elem_canInsertAtBack (BitCountChunk _ _) (BitCountChunk _ _) = True"
| "elem_canInsertAtBack (SliceChunk c offset n) (SliceChunk c' offset' n') = (c = c' \<and> offset + n = offset')"
| "elem_canInsertAtBack _ _ = False"

fun elem_insertAtBack :: "'f elem \<Rightarrow> 'f elem \<Rightarrow> error + 'f elem" where
  "elem_insertAtBack (BytesChunk bs) (BytesChunk bs') = Inr (BytesChunk (bs @ bs'))"
| "elem_insertAtBack (ByteCountChunk n d) (ByteCountChunk n' d') = Inr (ByteCountChunk (n + n') d)"
| "elem_insertAtBack (BitsChunk bs) (BitsChunk bs') = Inr (BitsChunk (bs @ bs'))"
| "elem_insertAtBack (BitCountChunk n d) (BitCountChunk n' d') = Inr (BitCountChunk (n + n') d)"
| "elem_insertAtBack (SliceChunk c offset n) (SliceChunk c' offset' n') = Inr (SliceChunk c offset (n + n'))"
| "elem_insertAtBack _ _ = Inl RuntimeError"

fun elem_canInsertAtFront :: "'f elem \<Rightarrow> 'f elem \<Rightarrow> bool" where
  "elem_canInsertAtFront (BytesChunk _) (BytesChunk _) = True"
| "elem_canInsertAtFront (ByteCountChunk _ _) (ByteCountChunk _ _) = True"
| "elem_canInsertAtFront (BitsChunk _) (BitsChunk _) = True"
| "elem_canInsertAtFront (BitCountChunk _ _) (BitCountChunk _ _) = True"
| "elem_canInsertAtFront (SliceChunk c offset n) (SliceChunk c' offset' n') = (c = c' \<and> offset = offset' + n')"
| "elem_canInsertAtFront _ _ = False"

fun elem_insertAtFront :: "'f elem \<Rightarrow> 'f elem \<Rightarrow> error + 'f elem" where
  "elem_insertAtFront (BytesChunk bs) (BytesChunk bs') = Inr (BytesChunk (bs' @ bs))"
| "elem_insertAtFront (ByteCountChunk n d) (ByteCountChunk n' d') = Inr (ByteCountChunk (n + n') d)"
| "elem_insertAtFront (BitsChunk bs) (BitsChunk bs') = Inr (BitsChunk (bs' @ bs))"
| "elem_insertAtFront (BitCountChunk n d) (BitCountChunk n' d') = Inr (BitCountChunk (n + n') d)"
| "elem_insertAtFront (SliceChunk c offset n) (SliceChunk c' offset' n') = Inr (SliceChunk c (offset - n') (n + n'))"
| "elem_insertAtFront _ _ = Inl RuntimeError"

fun elem_canRemove :: "'f elem \<Rightarrow> int \<Rightarrow> bool" where
  "elem_canRemove (BytesChunk _) len = (len mod 8 = 0)"
| "elem_canRemove (ByteCountChunk _ _) len = (len mod 8 = 0)"
| "elem_canRemove (BitsChunk _) len = True"
| "elem_canRemove (BitCountChunk _ _) len = True"
| "elem_canRemove (FieldsChunk _ _) len = False"
| "elem_canRemove (SliceChunk _ _ _) len = False"

fun elem_doRemoveAtFront :: "int \<Rightarrow> 'f elem \<Rightarrow> error + 'f elem" where
  "elem_doRemoveAtFront len (BytesChunk bytes) = ebind (to_B len) (\<lambda>i. ebind (subvector i (int (length bytes)) bytes) (\<lambda>bs. Inr (BytesChunk bs)))"
| "elem_doRemoveAtFront len (ByteCountChunk n data) = ebind (to_B len) (\<lambda>m. Inr (ByteCountChunk (n - m) data))"
| "elem_doRemoveAtFront len (BitsChunk bits) = ebind (subvector len (int (length bits)) bits) (\<lambda>bs. Inr (BitsChunk bs))"
| "elem_doRemoveAtFront len (BitCountChunk n data) = Inr (BitCountChunk (n - len) data)"
| "elem_doRemoveAtFront len (SliceChunk chunk offset n) = Inr (SliceChunk chunk (offset + len) (n - len))"
| "elem_doRemoveAtFront len (FieldsChunk f n) = Inl RuntimeError"

fun elem_doRemoveAtBack :: "int \<Rightarrow> 'f elem \<Rightarrow> error + 'f elem" where
  "elem_doRemoveAtBack len (BytesChunk bytes) = ebind (to_B len) (\<lambda>i. ebind (subvector 0 (int (length bytes) - i) bytes) (\<lambda>bs. Inr (BytesChunk bs)))"
| "elem_doRemoveAtBack len (ByteCountChunk n data) = ebind (to_B len) (\<lambda>m. Inr (ByteCountChunk (n - m) data))"
| "elem_doRemoveAtBack len (BitsChunk bits) = ebind (subvector 0 (int (length bits) - len) bits) (\<lambda>bs. Inr (BitsChunk bs))"
| "elem_doRemoveAtBack len (BitCountChunk n data) = Inr (BitCountChunk (n - len) data)"
| "elem_doRemoveAtBack len (SliceChunk chunk offset n) = Inr (SliceChunk chunk offset (n - len))"
| "elem_doRemoveAtBack len (FieldsChunk f n) = Inl RuntimeError"

end
