(* ===== verification/ChunkSeq.thy ===== *)
theory ChunkSeq
  imports Chunk
begin

text \<open>
  Sequences of chunks (\<open>SequenceChunk\<close>), the empty chunk, and the operations of \<open>Chunk\<close> that choose among the
  representations.
\<close>

section \<open>Inserting into a sequence\<close>

definition seq_length :: "'f elem list \<Rightarrow> int" where
  "seq_length chunks = sum_list (map elem_length chunks)"

fun getChunkLength :: "'f chunk \<Rightarrow> int" where
  "getChunkLength EmptyChunk = 0"
| "getChunkLength (Elem e) = elem_length e"
| "getChunkLength (SequenceChunk chunks) = seq_length chunks"

definition doInsertChunkAtBack :: "'f elem \<Rightarrow> 'f elem list \<Rightarrow> error + 'f elem list" where
  "doInsertChunkAtBack chunk chunks =
     CHUNK_CHECK_USAGE (elem_length chunk > 0)
       (if chunks = [] then Inr [chunk]
        else if \<not> elem_canInsertAtBack (last chunks) chunk then Inr (chunks @ [chunk])
        else ebind (elem_insertAtBack (last chunks) chunk) (\<lambda>lastChunk.
             ebind (elem_simplify lastChunk) (\<lambda>lastChunk. Inr (butlast chunks @ [lastChunk]))))"

definition doInsertChunkAtFront :: "'f elem \<Rightarrow> 'f elem list \<Rightarrow> error + 'f elem list" where
  "doInsertChunkAtFront chunk chunks =
     CHUNK_CHECK_USAGE (elem_length chunk > 0)
       (case chunks of [] \<Rightarrow> Inr [chunk]
        | firstChunk # rest \<Rightarrow>
            if \<not> elem_canInsertAtFront firstChunk chunk then Inr (chunk # chunks)
            else ebind (elem_insertAtFront firstChunk chunk) (\<lambda>firstChunk.
                 ebind (elem_simplify firstChunk) (\<lambda>firstChunk. Inr (firstChunk # rest))))"

text \<open>The part of an element of a sequence that lies in a slice of the sequence; \<open>None\<close>: it is out of the slice.\<close>

definition slice_element :: "int \<Rightarrow> int \<Rightarrow> int \<Rightarrow> 'f elem \<Rightarrow> error + 'f elem option" where
  "slice_element sliceChunkBegin sliceChunkEnd chunkBegin elementChunk =
     (let chunkEnd = chunkBegin + elem_length elementChunk;
          part = (\<lambda>pos len. ebind (elem_peek elementChunk (Iterator_at pos) len) (\<lambda>c. Inr (Some c)))
      in if sliceChunkBegin \<le> chunkBegin \<and> chunkEnd \<le> sliceChunkEnd then Inr (Some elementChunk)
         else if chunkBegin < sliceChunkBegin \<and> sliceChunkEnd < chunkEnd
         then part (sliceChunkBegin - chunkBegin) (sliceChunkEnd - sliceChunkBegin)
         else if chunkBegin < sliceChunkBegin \<and> sliceChunkBegin < chunkEnd
         then part (sliceChunkBegin - chunkBegin) (chunkEnd - sliceChunkBegin)
         else if chunkBegin < sliceChunkEnd \<and> sliceChunkEnd < chunkEnd
         then part 0 (sliceChunkEnd - chunkBegin)
         else Inr None)"

fun doInsertSliceChunkAtBack :: "int \<Rightarrow> int \<Rightarrow> int \<Rightarrow> 'f elem list \<Rightarrow> 'f elem list \<Rightarrow> error + 'f elem list" where
  "doInsertSliceChunkAtBack sliceBegin sliceEnd offset [] chunks = Inr chunks"
| "doInsertSliceChunkAtBack sliceBegin sliceEnd offset (elementChunk # rest) chunks =
     ebind (slice_element sliceBegin sliceEnd offset elementChunk) (\<lambda>part.
     ebind (case part of None \<Rightarrow> Inr chunks | Some c \<Rightarrow> doInsertChunkAtBack c chunks) (\<lambda>chunks.
       doInsertSliceChunkAtBack sliceBegin sliceEnd (offset + elem_length elementChunk) rest chunks))"

fun doInsertSequenceChunkAtBack :: "'f elem list \<Rightarrow> 'f elem list \<Rightarrow> error + 'f elem list" where
  "doInsertSequenceChunkAtBack [] chunks = Inr chunks"
| "doInsertSequenceChunkAtBack (elementChunk # rest) chunks =
     ebind (doInsertChunkAtBack elementChunk chunks) (doInsertSequenceChunkAtBack rest)"

fun seq_insertAtBack :: "'f chunk \<Rightarrow> 'f elem list \<Rightarrow> error + 'f elem list" where
  "seq_insertAtBack (Elem e) chunks = doInsertChunkAtBack e chunks"
| "seq_insertAtBack (SequenceChunk es) chunks = doInsertSequenceChunkAtBack es chunks"
| "seq_insertAtBack EmptyChunk chunks = Inl RuntimeError"

fun doInsertSequenceChunkAtFront :: "'f elem list \<Rightarrow> 'f elem list \<Rightarrow> error + 'f elem list" where
  "doInsertSequenceChunkAtFront [] chunks = Inr chunks"
| "doInsertSequenceChunkAtFront (elementChunk # rest) chunks =
     ebind (doInsertSequenceChunkAtFront rest chunks) (doInsertChunkAtFront elementChunk)"

fun seq_insertAtFront :: "'f chunk \<Rightarrow> 'f elem list \<Rightarrow> error + 'f elem list" where
  "seq_insertAtFront (Elem e) chunks = doInsertChunkAtFront e chunks"
| "seq_insertAtFront (SequenceChunk es) chunks = doInsertSequenceChunkAtFront es chunks"
| "seq_insertAtFront EmptyChunk chunks = Inl RuntimeError"

section \<open>Peeking into a sequence\<close>

text \<open>A new sequence made of the slice of \<open>chunks\<close>.\<close>

definition SequenceChunk_convertChunk :: "'f elem list \<Rightarrow> int \<Rightarrow> int \<Rightarrow> error + 'f chunk" where
  "SequenceChunk_convertChunk chunks offset len =
     (let n = (if len = - 1 then seq_length chunks - offset else len)
      in ebind (doInsertSliceChunkAtBack offset (offset + n) 0 chunks []) (\<lambda>es. Inr (SequenceChunk es)))"

text \<open>Step 4 of \<open>peekUnchecked\<close>: a part represented by an element chunk; \<open>None\<close>: there is none.\<close>

fun peek_in_element :: "Iterator \<Rightarrow> int \<Rightarrow> int \<Rightarrow> 'f elem list \<Rightarrow> (error + 'f elem option) option" where
  "peek_in_element iterator len pos [] = None"
| "peek_in_element iterator len pos (chunk # rest) =
     (let chunkLength = elem_length chunk in
      if position iterator = pos \<and> (len = - 1 \<or> len = chunkLength) then Some (Inr (Some chunk))
      else if pos \<le> position iterator \<and> position iterator < pos + chunkLength
              \<and> (len = - 1 \<or> position iterator + len \<le> pos + chunkLength)
      then Some (elem_peekUnchecked chunk \<lparr>isForward = isForward iterator, position = position iterator - pos, index = - 1\<rparr> len)
      else peek_in_element iterator len (pos + chunkLength) rest)"

definition from_side :: "Iterator \<Rightarrow> 'a list \<Rightarrow> 'a list" where
  "from_side iterator xs = (if isForward iterator then xs else rev xs)"

text \<open>Step 3: the element with the index of the iterator, when it is the part asked for.\<close>

definition indexed_element :: "Iterator \<Rightarrow> int \<Rightarrow> 'f elem list \<Rightarrow> error + 'f elem option" where
  "indexed_element iterator len chunks =
     (if index iterator = - 1 \<or> index iterator = int (length chunks) then Inr None
      else if index iterator < 0 \<or> index iterator > int (length chunks) then Inl IndexOutOfRange
      else let chunk = from_side iterator chunks ! nat (index iterator)
           in Inr (if len = - 1 \<or> elem_length chunk = len then Some chunk else None))"

definition SequenceChunk_peekUnchecked :: "'f elem list \<Rightarrow> Iterator \<Rightarrow> int \<Rightarrow> error + 'f chunk option" where
  "SequenceChunk_peekUnchecked chunks iterator len =
     (let chunkLength = seq_length chunks in
      CHUNK_CHECK_USAGE (0 \<le> position iterator \<and> position iterator \<le> chunkLength)
        (if len = 0 \<or> (position iterator = chunkLength \<and> len = - 1) then Inr None
         else if position iterator = 0 \<and> len = chunkLength then Inr (Some (SequenceChunk chunks))
         else ebind (indexed_element iterator len chunks) (\<lambda>found.
           case found of Some chunk \<Rightarrow> Inr (Some (Elem chunk))
           | None \<Rightarrow>
               (case peek_in_element iterator len 0 (from_side iterator chunks) of
                  Some r \<Rightarrow> ebind r (\<lambda>c. Inr (map_option Elem c))
                | None \<Rightarrow> ebind (converted_offset chunkLength iterator len) (\<lambda>offset.
                            ebind (SequenceChunk_convertChunk chunks offset len) (\<lambda>c. Inr (Some c)))))))"

definition EmptyChunk_peekUnchecked :: "Iterator \<Rightarrow> int \<Rightarrow> error + 'f chunk option" where
  "EmptyChunk_peekUnchecked iterator len =
     CHUNK_CHECK_USAGE (position iterator = 0) (CHUNK_CHECK_USAGE (len = 0 \<or> len = - 1) (Inr None))"

fun peekUnchecked :: "'f chunk \<Rightarrow> Iterator \<Rightarrow> int \<Rightarrow> error + 'f chunk option" where
  "peekUnchecked EmptyChunk iterator len = EmptyChunk_peekUnchecked iterator len"
| "peekUnchecked (Elem e) iterator len = ebind (elem_peekUnchecked e iterator len) (\<lambda>c. Inr (map_option Elem c))"
| "peekUnchecked (SequenceChunk chunks) iterator len = SequenceChunk_peekUnchecked chunks iterator len"

definition Chunk_peek :: "'f chunk \<Rightarrow> Iterator \<Rightarrow> int \<Rightarrow> error + 'f chunk" where
  "Chunk_peek chunk iterator len = ebind (peekUnchecked chunk iterator len) checkPeekResult"

definition simplify :: "'f chunk \<Rightarrow> error + 'f chunk" where
  "simplify chunk = Chunk_peek chunk (Iterator_at 0) (getChunkLength chunk)"

section \<open>Iterators\<close>

fun seek_index :: "int \<Rightarrow> int \<Rightarrow> int \<Rightarrow> 'f elem list \<Rightarrow> int option" where
  "seek_index offset p i [] = None"
| "seek_index offset p i (chunk # rest) =
     (let p = p + elem_length chunk in
      if p = offset then Some (i + 1) else if p > offset then Some (- 1) else seek_index offset p (i + 1) rest)"

definition Chunk_seekIterator :: "int \<Rightarrow> Iterator \<Rightarrow> Iterator" where
  "Chunk_seekIterator pos iterator = iterator\<lparr>position := pos, index := (if pos = 0 then 0 else - 1)\<rparr>"

definition SequenceChunk_seekIterator :: "'f elem list \<Rightarrow> int \<Rightarrow> Iterator \<Rightarrow> error + Iterator" where
  "SequenceChunk_seekIterator chunks offset iterator =
     CHUNK_CHECK_USAGE (0 \<le> offset \<and> offset \<le> seq_length chunks)
       (if offset = 0 then Inr (iterator\<lparr>position := offset, index := 0\<rparr>)
        else Inr (case seek_index offset 0 0 (from_side iterator chunks) of
               Some i \<Rightarrow> iterator\<lparr>position := offset, index := i\<rparr>
             | None \<Rightarrow> iterator\<lparr>position := offset\<rparr>))"

fun seekIterator :: "'f chunk \<Rightarrow> int \<Rightarrow> Iterator \<Rightarrow> error + Iterator" where
  "seekIterator (SequenceChunk chunks) offset iterator = SequenceChunk_seekIterator chunks offset iterator"
| "seekIterator _ offset iterator = Inr (Chunk_seekIterator offset iterator)"

definition SequenceChunk_moveIterator :: "'f elem list \<Rightarrow> int \<Rightarrow> Iterator \<Rightarrow> error + Iterator" where
  "SequenceChunk_moveIterator chunks len iterator =
     (let i = index iterator; iterator = iterator\<lparr>position := position iterator + len\<rparr> in
      if i = - 1 \<or> i = int (length chunks) then Inr (iterator\<lparr>index := - 1\<rparr>)
      else if i < 0 \<or> i > int (length chunks) then Inl IndexOutOfRange
      else Inr (iterator\<lparr>index := (if elem_length (from_side iterator chunks ! nat i) = len then i + 1 else - 1)\<rparr>))"

fun moveIterator :: "'f chunk \<Rightarrow> int \<Rightarrow> Iterator \<Rightarrow> error + Iterator" where
  "moveIterator (SequenceChunk chunks) len iterator = SequenceChunk_moveIterator chunks len iterator"
| "moveIterator _ len iterator = Inr (Chunk_seekIterator (position iterator + len) iterator)"

section \<open>Changing a chunk\<close>

fun canInsertAtBack :: "'f chunk \<Rightarrow> 'f chunk \<Rightarrow> bool" where
  "canInsertAtBack (SequenceChunk _) chunk = True"
| "canInsertAtBack (Elem e) (Elem e') = elem_canInsertAtBack e e'"
| "canInsertAtBack _ _ = False"

fun insertAtBack :: "'f chunk \<Rightarrow> 'f chunk \<Rightarrow> error + 'f chunk" where
  "insertAtBack (SequenceChunk chunks) chunk = ebind (seq_insertAtBack chunk chunks) (\<lambda>es. Inr (SequenceChunk es))"
| "insertAtBack (Elem e) (Elem e') = ebind (elem_insertAtBack e e') (\<lambda>e. Inr (Elem e))"
| "insertAtBack _ _ = Inl RuntimeError"

fun canInsertAtFront :: "'f chunk \<Rightarrow> 'f chunk \<Rightarrow> bool" where
  "canInsertAtFront (SequenceChunk _) chunk = True"
| "canInsertAtFront (Elem e) (Elem e') = elem_canInsertAtFront e e'"
| "canInsertAtFront _ _ = False"

fun insertAtFront :: "'f chunk \<Rightarrow> 'f chunk \<Rightarrow> error + 'f chunk" where
  "insertAtFront (SequenceChunk chunks) chunk = ebind (seq_insertAtFront chunk chunks) (\<lambda>es. Inr (SequenceChunk es))"
| "insertAtFront (Elem e) (Elem e') = ebind (elem_insertAtFront e e') (\<lambda>e. Inr (Elem e))"
| "insertAtFront _ _ = Inl RuntimeError"

fun seq_doRemoveAtFront :: "int \<Rightarrow> 'f elem list \<Rightarrow> error + 'f elem list" where
  "seq_doRemoveAtFront len [] = Inr []"
| "seq_doRemoveAtFront len (chunk # rest) =
     (let chunkLength = elem_length chunk in
      if chunkLength \<le> len then (if len - chunkLength = 0 then Inr rest else seq_doRemoveAtFront (len - chunkLength) rest)
      else ebind (elem_peek chunk (Iterator_at len) (chunkLength - len)) (\<lambda>c. Inr (c # rest)))"

text \<open>The sequence is given from its end.\<close>

fun seq_doRemoveAtBack :: "int \<Rightarrow> 'f elem list \<Rightarrow> error + 'f elem list" where
  "seq_doRemoveAtBack len [] = Inr []"
| "seq_doRemoveAtBack len (chunk # rest) =
     (let chunkLength = elem_length chunk in
      if chunkLength \<le> len then (if len - chunkLength = 0 then Inr rest else seq_doRemoveAtBack (len - chunkLength) rest)
      else ebind (elem_peek chunk (Iterator_at 0) (chunkLength - len)) (\<lambda>c. Inr (c # rest)))"

fun canRemoveAtFront :: "'f chunk \<Rightarrow> int \<Rightarrow> bool" where
  "canRemoveAtFront (SequenceChunk _) len = True"
| "canRemoveAtFront (Elem e) len = elem_canRemove e len"
| "canRemoveAtFront EmptyChunk len = False"

definition removeAtFront :: "int \<Rightarrow> 'f chunk \<Rightarrow> error + 'f chunk" where
  "removeAtFront len chunk =
     CHUNK_CHECK_USAGE (0 \<le> len \<and> len \<le> getChunkLength chunk)
       (case chunk of SequenceChunk chunks \<Rightarrow> ebind (seq_doRemoveAtFront len chunks) (\<lambda>es. Inr (SequenceChunk es))
        | Elem e \<Rightarrow> ebind (elem_doRemoveAtFront len e) (\<lambda>e. Inr (Elem e))
        | EmptyChunk \<Rightarrow> Inl RuntimeError)"

definition removeAtBack :: "int \<Rightarrow> 'f chunk \<Rightarrow> error + 'f chunk" where
  "removeAtBack len chunk =
     CHUNK_CHECK_USAGE (0 \<le> len \<and> len \<le> getChunkLength chunk)
       (case chunk of SequenceChunk chunks \<Rightarrow> ebind (seq_doRemoveAtBack len (rev chunks)) (\<lambda>es. Inr (SequenceChunk (rev es)))
        | Elem e \<Rightarrow> ebind (elem_doRemoveAtBack len e) (\<lambda>e. Inr (Elem e))
        | EmptyChunk \<Rightarrow> Inl RuntimeError)"

end
