(* ===== verification/ChunkSpec.thy ===== *)
theory ChunkSpec
  imports ChunkSeq
begin

text \<open>
  The bits a chunk represents, and what the operations do to them: peeking gives a part of the bits,
  inserting appends them. Header objects are serialized by a parameter \<open>ser\<close>. Well-formed
  chunks consist of whole bytes; count chunks have the default data, since a part of a count chunk does not keep
  any other (\<open>count_data_lost\<close>).
\<close>

section \<open>The bits of a chunk\<close>

definition byte_bits :: "byte \<Rightarrow> bool list" where
  "byte_bits w = map (bit w) (rev [0..<8])"

fun elem_bits :: "('f \<Rightarrow> bool list) \<Rightarrow> 'f elem \<Rightarrow> bool list" where
  "elem_bits ser (BytesChunk bytes) = concat (map byte_bits bytes)"
| "elem_bits ser (ByteCountChunk n data) = concat (replicate (nat n) (byte_bits data))"
| "elem_bits ser (BitsChunk bits) = bits"
| "elem_bits ser (BitCountChunk n data) = replicate (nat n) data"
| "elem_bits ser (FieldsChunk f n) = ser f"
| "elem_bits ser (SliceChunk chunk offset n) = take (nat n) (drop (nat offset) (elem_bits ser chunk))"

definition seq_bits :: "('f \<Rightarrow> bool list) \<Rightarrow> 'f elem list \<Rightarrow> bool list" where
  "seq_bits ser es = concat (map (elem_bits ser) es)"

fun chunk_bits :: "('f \<Rightarrow> bool list) \<Rightarrow> 'f chunk \<Rightarrow> bool list" where
  "chunk_bits ser EmptyChunk = []"
| "chunk_bits ser (Elem e) = elem_bits ser e"
| "chunk_bits ser (SequenceChunk es) = seq_bits ser es"

fun is_fields :: "'f elem \<Rightarrow> bool" where
  "is_fields (FieldsChunk _ _) \<longleftrightarrow> True"
| "is_fields _ \<longleftrightarrow> False"

fun wf_elem :: "('f \<Rightarrow> bool list) \<Rightarrow> 'f elem \<Rightarrow> bool" where
  "wf_elem ser (BytesChunk bytes) \<longleftrightarrow> True"
| "wf_elem ser (ByteCountChunk n data) \<longleftrightarrow> 0 \<le> n \<and> data = 63"
| "wf_elem ser (BitsChunk bits) \<longleftrightarrow> 8 dvd int (length bits)"
| "wf_elem ser (BitCountChunk n data) \<longleftrightarrow> 0 \<le> n \<and> 8 dvd n \<and> \<not> data"
| "wf_elem ser (FieldsChunk f n) \<longleftrightarrow> 8 dvd n \<and> int (length (ser f)) = n"
| "wf_elem ser (SliceChunk chunk offset n) \<longleftrightarrow>
     wf_elem ser chunk \<and> is_fields chunk \<and> 0 \<le> offset \<and> 0 \<le> n \<and> 8 dvd offset \<and> 8 dvd n \<and> offset + n \<le> elem_length chunk"

fun wf_chunk :: "('f \<Rightarrow> bool list) \<Rightarrow> 'f chunk \<Rightarrow> bool" where
  "wf_chunk ser EmptyChunk \<longleftrightarrow> True"
| "wf_chunk ser (Elem e) \<longleftrightarrow> wf_elem ser e"
| "wf_chunk ser (SequenceChunk es) \<longleftrightarrow> (\<forall>e\<in>set es. wf_elem ser e \<and> 0 < elem_length e)"

text \<open>The \<open>n\<close> elements of a list from position \<open>i\<close> on.\<close>

definition part :: "int \<Rightarrow> int \<Rightarrow> 'a list \<Rightarrow> 'a list" where
  "part i n xs = take (nat n) (drop (nat i) xs)"

lemma part_whole [simp]: "int (length xs) \<le> n \<Longrightarrow> part 0 n xs = xs"
  by (simp add: part_def)

lemma part_part: "0 \<le> i \<Longrightarrow> 0 \<le> j \<Longrightarrow> 0 \<le> n \<Longrightarrow> i + n \<le> m \<Longrightarrow> part i n (part j m xs) = part (j + i) n xs"
  by (simp add: part_def take_drop add.commute nat_add_distrib)

lemma length_byte_bits [simp]: "length (byte_bits w) = 8"
  by (simp add: byte_bits_def)

lemma length_bytes_bits [simp]: "length (concat (map byte_bits bs)) = 8 * length bs"
  by (induction bs) auto

lemma length_count_bits [simp]: "length (concat (replicate n (byte_bits d))) = 8 * n"
  by (induction n) auto

lemma drop_bytes_bits: "drop (8 * n) (concat (map byte_bits bs)) = concat (map byte_bits (drop n bs))"
proof (induction bs arbitrary: n)
  case (Cons b bs)
  then show ?case by (cases n) auto
qed simp

lemma take_bytes_bits: "take (8 * n) (concat (map byte_bits bs)) = concat (map byte_bits (take n bs))"
proof (induction bs arbitrary: n)
  case (Cons b bs)
  then show ?case by (cases n) auto
qed simp

lemma count_bits_map: "concat (replicate n (byte_bits d)) = concat (map byte_bits (replicate n d))"
  by simp

lemma part_bytes: "0 \<le> i \<Longrightarrow> 0 \<le> n \<Longrightarrow> part (8 * i) (8 * n) (concat (map byte_bits bs)) = concat (map byte_bits (take (nat n) (drop (nat i) bs)))"
  by (simp add: part_def nat_mult_distrib drop_bytes_bits take_bytes_bits)

lemma length_elem_bits: "wf_elem ser e \<Longrightarrow> int (length (elem_bits ser e)) = elem_length e"
proof (induction e)
  case (SliceChunk c off n)
  then have "nat n \<le> length (elem_bits ser c) - nat off" by auto
  then show ?case using SliceChunk by simp
qed auto

lemma wf_elem_nonneg: "wf_elem ser e \<Longrightarrow> 0 \<le> elem_length e"
  using length_elem_bits [of ser e] by simp

lemma wf_elem_dvd: "wf_elem ser e \<Longrightarrow> 8 dvd elem_length e"
  by (cases e) auto

lemma take_elem_bits [simp]: "wf_elem ser e \<Longrightarrow> take (nat (elem_length e)) (elem_bits ser e) = elem_bits ser e"
  by (simp flip: length_elem_bits)

section \<open>Peeking\<close>

lemma peek_part_simps:
  assumes "0 \<le> position it" and "0 < len" and "position it + len \<le> elem_length this"
  shows "peek_part this result it len k = (if position it = 0 \<and> len = elem_length this then Inr (Some result) else k)"
  using assms by (simp add: peek_part_def CHUNK_CHECK_USAGE_def)

lemma to_B_dvd: "8 dvd n \<Longrightarrow> to_B n = Inr (n div 8)"
  by (simp add: to_B_def dvd_eq_mod_eq_0)

definition peeks :: "('f \<Rightarrow> bool list) \<Rightarrow> int \<Rightarrow> int \<Rightarrow> 'f elem \<Rightarrow> error + 'f elem option \<Rightarrow> bool" where
  "peeks ser pos len e r \<longleftrightarrow> (\<exists>e'. r = Inr (Some e') \<and> wf_elem ser e' \<and> elem_length e' = len \<and> elem_bits ser e' = part pos len (elem_bits ser e))"

lemma peeks_whole: "wf_elem ser e \<Longrightarrow> len = elem_length e \<Longrightarrow> peeks ser 0 len e (Inr (Some e))"
  by (simp add: peeks_def length_elem_bits)

lemma elem_peek_fields:
  assumes "wf_elem ser (FieldsChunk f n)" and "isForward it" and "8 dvd position it" and "8 dvd len"
    and "0 \<le> position it" and "0 < len" and "position it + len \<le> n"
  shows "peeks ser (position it) len (FieldsChunk f n) (FieldsChunk_peekUnchecked f n it len)"
proof (cases "position it = 0 \<and> len = n")
  case True
  then show ?thesis using assms peeks_whole [OF assms(1)] by (simp add: FieldsChunk_peekUnchecked_def peek_part_simps)
next
  case False
  then show ?thesis using assms
    by (auto simp: FieldsChunk_peekUnchecked_def peek_part_simps converted_offset_def CHUNK_CHECK_USAGE_def SliceChunk_convertChunk_def
        peeks_def part_def)
qed

lemma elem_peek_bits:
  assumes "wf_elem ser e" and "isForward it" and "8 dvd position it" and "8 dvd len"
    and "0 \<le> position it" and "0 < len" and "position it + len \<le> elem_length e"
  shows "peeks ser (position it) len e (elem_peekUnchecked e it len)"
proof (cases "position it = 0 \<and> len = elem_length e")
  case True
  then show ?thesis
  proof (cases "\<exists>c off n. e = SliceChunk c off n \<and> off = 0 \<and> n = elem_length c")
    case True
    then obtain c where c: "e = SliceChunk c 0 (elem_length c)" by blast
    then have "peeks ser 0 len e (Inr (Some c))" using assms \<open>position it = 0 \<and> len = elem_length e\<close>
      by (auto simp: peeks_def length_elem_bits part_def)
    then show ?thesis using c assms \<open>position it = 0 \<and> len = elem_length e\<close> by (simp add: peek_part_simps)
  next
    case False
    then have "elem_peekUnchecked e it len = Inr (Some e)" using assms \<open>position it = 0 \<and> len = elem_length e\<close>
      by (cases e) (auto simp: peek_part_simps BytesChunk_peekUnchecked_def ByteCountChunk_peekUnchecked_def BitsChunk_peekUnchecked_def
          BitCountChunk_peekUnchecked_def FieldsChunk_peekUnchecked_def)
    then show ?thesis using True peeks_whole [OF assms(1)] by simp
  qed
next
  case False
  obtain i n where in_: "position it = 8 * i" "len = 8 * n" using assms by (auto elim!: dvdE)
  have pos: "0 \<le> i" "0 < n" using in_ assms by auto
  show ?thesis
  proof (cases e)
    case (BytesChunk bytes)
    have b: "i + n \<le> int (length bytes)" using assms in_ BytesChunk by simp
    then have sv: "subvector i (i + n) bytes = Inr (take (nat n) (drop (nat i) bytes))" using pos by (simp add: subvector_def)
    show ?thesis using BytesChunk assms False in_ pos b sv
      by (simp add: BytesChunk_peekUnchecked_def peek_part_simps to_B_dvd peeks_def part_bytes)
  next
    case (ByteCountChunk m data)
    have "part (8 * i) (8 * n) (concat (map byte_bits (replicate (nat m) data))) = concat (map byte_bits (replicate (nat n) data))"
      using pos assms in_ ByteCountChunk by (subst part_bytes) (auto simp: min_def nat_le_iff)
    then show ?thesis using ByteCountChunk assms False in_ pos
      by (simp add: ByteCountChunk_peekUnchecked_def ByteCountChunk_new_def peek_part_simps to_B_dvd peeks_def CHUNK_CHECK_USAGE_def)
  next
    case (BitsChunk bits)
    have "subvector (8 * i) (8 * i + 8 * n) bits = Inr (part (8 * i) (8 * n) bits)" using pos assms in_ BitsChunk by (simp add: subvector_def part_def)
    moreover have "int (length (part (8 * i) (8 * n) bits)) = 8 * n" using pos assms in_ BitsChunk by (simp add: part_def)
    ultimately show ?thesis using BitsChunk assms False in_ pos by (simp add: BitsChunk_peekUnchecked_def peek_part_simps peeks_def)
  next
    case (BitCountChunk m data)
    have "part (8 * i) (8 * n) (replicate (nat m) data) = replicate (nat (8 * n)) data"
      using pos assms in_ BitCountChunk by (simp add: part_def min_def)
    then show ?thesis using BitCountChunk assms False in_ pos
      by (simp add: BitCountChunk_peekUnchecked_def peek_part_simps peeks_def CHUNK_CHECK_USAGE_def)
  next
    case (FieldsChunk f m)
    then show ?thesis using elem_peek_fields [of ser f m it len] assms by simp
  next
    case (SliceChunk c off m)
    then obtain f k where c: "c = FieldsChunk f k" using assms by (cases c) auto
    have "peeks ser (position it + off) len (FieldsChunk f k) (FieldsChunk_peekUnchecked f k (ForwardIterator (position it + off)) len)"
      using elem_peek_fields [of ser f k "ForwardIterator (position it + off)" len] assms SliceChunk c by (simp add: ForwardIterator_def)
    moreover have "part (position it) len (part off m (ser f)) = part (position it + off) len (ser f)"
      using part_part [of "position it" off len m "ser f"] assms SliceChunk c by (simp add: add.commute)
    ultimately show ?thesis using assms SliceChunk c False
      by (simp add: peek_part_simps peeks_def flip: part_def)
  qed
qed

lemma elem_peek_spec:
  assumes "wf_elem ser e" and "8 dvd pos" and "8 dvd len" and "0 \<le> pos" and "0 < len" and "pos + len \<le> elem_length e"
  obtains e' where "elem_peek e (Iterator_at pos) len = Inr e'" and "wf_elem ser e'" and "elem_length e' = len"
    and "elem_bits ser e' = part pos len (elem_bits ser e)"
  using elem_peek_bits [of ser e "Iterator_at pos" len] assms
  by (auto simp: peeks_def elem_peek_def checkPeekResult_def Iterator_at_def)


section \<open>Inserting\<close>

lemma elem_insertAtBack_spec:
  assumes "wf_elem ser e" and "wf_elem ser e'" and "elem_canInsertAtBack e e'"
  obtains r where "elem_insertAtBack e e' = Inr r" and "wf_elem ser r" and "elem_length r = elem_length e + elem_length e'"
    and "elem_bits ser r = elem_bits ser e @ elem_bits ser e'"
proof (cases "\<exists>c off n. e = SliceChunk c off n")
  case True
  then obtain c off n n' where e: "e = SliceChunk c off n" "e' = SliceChunk c (off + n) n'"
    using assms(3) by (cases e') auto
  have "take (nat (n + n')) (drop (nat off) (elem_bits ser c)) = take (nat n) (drop (nat off) (elem_bits ser c)) @ take (nat n') (drop (nat (off + n)) (elem_bits ser c))"
    using assms e take_add [of "nat n" "nat n'" "drop (nat off) (elem_bits ser c)"] by (simp add: nat_add_distrib add.commute [of "nat off"])
  then show ?thesis using that [of "SliceChunk c off (n + n')"] assms e by (auto intro: dvd_add)
next
  case False
  have rep: "replicate (nat (a + b)) x = replicate (nat a) x @ replicate (nat b) x" if "0 \<le> a" "0 \<le> b" for a b :: int and x :: 'c
    using that by (simp add: nat_add_distrib replicate_add)
  show ?thesis using that False assms by (cases e; cases e') (auto simp: rep)
qed

lemma elem_insertAtFront_spec:
  assumes "wf_elem ser e" and "wf_elem ser e'" and "elem_canInsertAtFront e e'"
  obtains r where "elem_insertAtFront e e' = Inr r" and "wf_elem ser r" and "elem_length r = elem_length e + elem_length e'"
    and "elem_bits ser r = elem_bits ser e' @ elem_bits ser e"
proof (cases "\<exists>c off n. e = SliceChunk c off n")
  case True
  then obtain c off n n' where e: "e = SliceChunk c (off + n') n" "e' = SliceChunk c off n'"
    using assms(3) by (cases e') auto
  have "take (nat (n + n')) (drop (nat off) (elem_bits ser c)) = take (nat n') (drop (nat off) (elem_bits ser c)) @ take (nat n) (drop (nat (off + n')) (elem_bits ser c))"
    using assms e take_add [of "nat n'" "nat n" "drop (nat off) (elem_bits ser c)"] by (simp add: nat_add_distrib add.commute [of n] add.commute [of "nat n'"])
  then show ?thesis using that [of "SliceChunk c off (n + n')"] assms e by (auto intro: dvd_add simp: add.commute)
next
  case False
  have rep: "replicate (nat (a + b)) x = replicate (nat b) x @ replicate (nat a) x" if "0 \<le> a" "0 \<le> b" for a b :: int and x :: 'c
    using that by (simp add: nat_add_distrib add.commute flip: replicate_add)
  show ?thesis using that False assms by (cases e; cases e') (auto simp: rep)
qed

lemma elem_simplify_spec:
  assumes "wf_elem ser e" and "0 < elem_length e"
  obtains r where "elem_simplify e = Inr r" and "wf_elem ser r" and "elem_length r = elem_length e" and "elem_bits ser r = elem_bits ser e"
  using elem_peek_spec [OF assms(1) _ wf_elem_dvd [OF assms(1)], of 0] assms
  by (auto simp: elem_simplify_def length_elem_bits)

abbreviation wf_seq :: "('f \<Rightarrow> bool list) \<Rightarrow> 'f elem list \<Rightarrow> bool" where
  "wf_seq ser es \<equiv> wf_chunk ser (SequenceChunk es)"

lemma seq_simps [simp]:
  "seq_bits ser [] = []" "seq_bits ser (e # es) = elem_bits ser e @ seq_bits ser es"
  "seq_bits ser (es @ fs) = seq_bits ser es @ seq_bits ser fs"
  "seq_length [] = 0" "seq_length (e # es) = elem_length e + seq_length es"
  "seq_length (es @ fs) = seq_length es + seq_length fs"
  by (simp_all add: seq_bits_def seq_length_def)

lemma length_seq_bits: "wf_seq ser es \<Longrightarrow> int (length (seq_bits ser es)) = seq_length es"
  by (induction es) (auto simp: length_elem_bits)

lemma length_chunk_bits: "wf_chunk ser c \<Longrightarrow> int (length (chunk_bits ser c)) = getChunkLength c"
  by (cases c) (simp_all add: length_elem_bits length_seq_bits)

lemma seq_length_nonneg: "wf_seq ser es \<Longrightarrow> 0 \<le> seq_length es"
  using length_seq_bits [of ser es] by simp

lemma wf_seq_dvd: "wf_seq ser es \<Longrightarrow> 8 dvd seq_length es"
  by (induction es) (auto simp: wf_elem_dvd)

lemma doInsertChunkAtBack_spec:
  assumes "wf_seq ser es" and "wf_elem ser e" and "0 < elem_length e"
  obtains r where "doInsertChunkAtBack e es = Inr r" and "wf_seq ser r" and "r \<noteq> []" and "seq_bits ser r = seq_bits ser es @ elem_bits ser e"
proof (cases "es \<noteq> [] \<and> elem_canInsertAtBack (last es) e")
  case True
  then have l: "wf_elem ser (last es)" "0 < elem_length (last es)" using assms(1) by auto
  obtain r where r: "elem_insertAtBack (last es) e = Inr r" "wf_elem ser r" "elem_length r = elem_length (last es) + elem_length e"
      "elem_bits ser r = elem_bits ser (last es) @ elem_bits ser e"
    using elem_insertAtBack_spec [OF l(1) assms(2)] True by metis
  obtain q where q: "elem_simplify r = Inr q" "wf_elem ser q" "elem_length q = elem_length r" "elem_bits ser q = elem_bits ser r"
    using elem_simplify_spec [OF r(2)] r(3) l assms(3) by (metis add_pos_pos)
  have "seq_bits ser es = seq_bits ser (butlast es) @ elem_bits ser (last es)"
    using True by (metis append_butlast_last_id seq_simps(1,2,3) append_Nil2)
  moreover have "wf_seq ser (butlast es @ [q])" using assms(1,3) q r(3) l by (auto dest: in_set_butlastD)
  ultimately show ?thesis using that [of "butlast es @ [q]"] True r q assms(3) by (simp add: doInsertChunkAtBack_def CHUNK_CHECK_USAGE_def)
next
  case False
  then show ?thesis using that [of "es @ [e]"] assms by (auto simp: doInsertChunkAtBack_def CHUNK_CHECK_USAGE_def)
qed

lemma doInsertChunkAtFront_spec:
  assumes "wf_seq ser es" and "wf_elem ser e" and "0 < elem_length e"
  obtains r where "doInsertChunkAtFront e es = Inr r" and "wf_seq ser r" and "r \<noteq> []" and "seq_bits ser r = elem_bits ser e @ seq_bits ser es"
proof (cases es)
  case Nil
  then show ?thesis using that [of "[e]"] assms by (simp add: doInsertChunkAtFront_def CHUNK_CHECK_USAGE_def)
next
  case (Cons f fs)
  show ?thesis
  proof (cases "elem_canInsertAtFront f e")
    case True
    have f: "wf_elem ser f" "0 < elem_length f" using assms(1) Cons by auto
    obtain r where r: "elem_insertAtFront f e = Inr r" "wf_elem ser r" "elem_length r = elem_length f + elem_length e"
        "elem_bits ser r = elem_bits ser e @ elem_bits ser f"
      using elem_insertAtFront_spec [OF f(1) assms(2) True] by metis
    obtain q where q: "elem_simplify r = Inr q" "wf_elem ser q" "elem_length q = elem_length r" "elem_bits ser q = elem_bits ser r"
      using elem_simplify_spec [OF r(2)] r(3) f assms(3) by (metis add_pos_pos)
    show ?thesis using that [of "q # fs"] True r q assms f Cons by (simp add: doInsertChunkAtFront_def CHUNK_CHECK_USAGE_def)
  next
    case False
    then show ?thesis using that [of "e # es"] assms Cons by (simp add: doInsertChunkAtFront_def CHUNK_CHECK_USAGE_def)
  qed
qed

lemma doInsertSequenceChunkAtBack_spec:
  assumes "wf_seq ser es" and "wf_seq ser fs"
  obtains r where "doInsertSequenceChunkAtBack fs es = Inr r" and "wf_seq ser r" and "seq_bits ser r = seq_bits ser es @ seq_bits ser fs"
proof -
  have "\<exists>r. doInsertSequenceChunkAtBack fs es = Inr r \<and> wf_seq ser r \<and> seq_bits ser r = seq_bits ser es @ seq_bits ser fs" using assms
  proof (induction fs arbitrary: es)
    case (Cons f fs)
    then obtain r where r: "doInsertChunkAtBack f es = Inr r" "wf_seq ser r" "seq_bits ser r = seq_bits ser es @ elem_bits ser f"
      using doInsertChunkAtBack_spec [of ser es f] by (metis list.set_intros(1) wf_chunk.simps(3))
    then show ?case using Cons.IH [OF r(2)] Cons.prems by auto
  qed simp
  then show ?thesis using that by blast
qed

lemma doInsertSequenceChunkAtFront_spec:
  assumes "wf_seq ser es" and "wf_seq ser fs"
  obtains r where "doInsertSequenceChunkAtFront fs es = Inr r" and "wf_seq ser r" and "seq_bits ser r = seq_bits ser fs @ seq_bits ser es"
proof -
  have "\<exists>r. doInsertSequenceChunkAtFront fs es = Inr r \<and> wf_seq ser r \<and> seq_bits ser r = seq_bits ser fs @ seq_bits ser es" using assms(2)
  proof (induction fs)
    case Nil
    then show ?case using assms(1) by simp
  next
    case (Cons f fs)
    then obtain r where r: "doInsertSequenceChunkAtFront fs es = Inr r" "wf_seq ser r" "seq_bits ser r = seq_bits ser fs @ seq_bits ser es" by auto
    obtain q where "doInsertChunkAtFront f r = Inr q" "wf_seq ser q" "seq_bits ser q = elem_bits ser f @ seq_bits ser r"
      by (rule doInsertChunkAtFront_spec [OF r(2), of f]) (use Cons.prems in auto)
    then show ?case using r by simp
  qed
  then show ?thesis using that by blast
qed

lemma seq_insertAtBack_spec:
  assumes "wf_seq ser es" and "wf_chunk ser c" and "0 < getChunkLength c"
  obtains r where "seq_insertAtBack c es = Inr r" and "wf_seq ser r" and "seq_bits ser r = seq_bits ser es @ chunk_bits ser c"
proof (cases c)
  case (Elem e)
  then show ?thesis using doInsertChunkAtBack_spec [OF assms(1), of e] assms(2,3) that by auto
next
  case (SequenceChunk fs)
  then show ?thesis using doInsertSequenceChunkAtBack_spec [OF assms(1), of fs] assms(2) that by auto
qed (use assms in auto)

lemma seq_insertAtFront_spec:
  assumes "wf_seq ser es" and "wf_chunk ser c" and "0 < getChunkLength c"
  obtains r where "seq_insertAtFront c es = Inr r" and "wf_seq ser r" and "seq_bits ser r = chunk_bits ser c @ seq_bits ser es"
proof (cases c)
  case (Elem e)
  then show ?thesis using doInsertChunkAtFront_spec [OF assms(1), of e] assms(2,3) that by auto
next
  case (SequenceChunk fs)
  then show ?thesis using doInsertSequenceChunkAtFront_spec [OF assms(1), of fs] assms(2) that by auto
qed (use assms in auto)


section \<open>Slices of a sequence\<close>

lemma part_append_left: "0 \<le> i \<Longrightarrow> i + n \<le> int (length xs) \<Longrightarrow> part i n (xs @ ys) = part i n xs"
  by (auto simp: part_def nat_le_iff le_diff_conv)

lemma part_append_right: "int (length xs) \<le> i \<Longrightarrow> part i n (xs @ ys) = part (i - int (length xs)) n ys"
  by (simp add: part_def nat_diff_distrib)

text \<open>What a slice from \<open>b\<close> to \<open>e\<close> has in common with bits that begin at \<open>off\<close>.\<close>

definition overlap :: "int \<Rightarrow> int \<Rightarrow> int \<Rightarrow> 'a list \<Rightarrow> 'a list" where
  "overlap b e off xs = take (nat (e - max b off)) (drop (nat (b - off)) xs)"

lemma overlap_append: "overlap b e off (xs @ ys) = overlap b e off xs @ overlap b e (off + int (length xs)) ys"
proof -
  have "nat (b - off) - length xs = nat (b - (off + int (length xs)))" by simp
  moreover have "nat (e - max b off) - (length xs - nat (b - off)) = nat (e - max b (off + int (length xs)))"
    if "nat (b - off) \<le> length xs" using that by (auto simp: max_def)
  moreover have "nat (e - max b off) = nat (e - max b (off + int (length xs)))" if "\<not> nat (b - off) \<le> length xs"
    using that by (simp add: max_def)
  ultimately show ?thesis by (cases "nat (b - off) \<le> length xs") (simp_all add: overlap_def)
qed

definition opt_bits :: "('f \<Rightarrow> bool list) \<Rightarrow> 'f elem option \<Rightarrow> bool list" where
  "opt_bits ser r = (case r of None \<Rightarrow> [] | Some c \<Rightarrow> elem_bits ser c)"

lemma slice_element_spec:
  assumes wf: "wf_elem ser el" "0 < elem_length el" and be: "b < e" and al: "8 dvd b" "8 dvd e" "8 dvd off"
  obtains r where "slice_element b e off el = Inr r" and "\<forall>c. r = Some c \<longrightarrow> wf_elem ser c \<and> 0 < elem_length c"
    and "opt_bits ser r = overlap b e off (elem_bits ser el)"
proof -
  note goal = that
  let ?L = "elem_length el"
  have L: "8 dvd ?L" "length (elem_bits ser el) = nat ?L" using wf wf_elem_dvd [OF wf(1)] length_elem_bits [OF wf(1)] by auto
  have found: thesis if r: "slice_element b e off el = ebind (elem_peek el (Iterator_at pos) len) (\<lambda>c. Inr (Some c))"
      and p: "8 dvd pos" "8 dvd len" "0 \<le> pos" "0 < len" "pos + len \<le> ?L"
      and o: "part pos len (elem_bits ser el) = overlap b e off (elem_bits ser el)" for pos len
  proof -
    obtain c where "elem_peek el (Iterator_at pos) len = Inr c" "wf_elem ser c" "elem_length c = len" "elem_bits ser c = part pos len (elem_bits ser el)"
      using elem_peek_spec [OF wf(1) p] by blast
    then show thesis using goal [of "Some c"] r o p(4) by (simp add: opt_bits_def)
  qed
  consider "b \<le> off \<and> off + ?L \<le> e" | "off < b \<and> e < off + ?L" | "off < b \<and> b < off + ?L \<and> off + ?L \<le> e"
    | "b \<le> off \<and> off < e \<and> e < off + ?L" | "off + ?L \<le> b \<or> e \<le> off" using be by linarith
  then show thesis
  proof cases
    case 1
    then have "overlap b e off (elem_bits ser el) = elem_bits ser el" using L by (auto simp: overlap_def intro!: nat_mono)
    then show thesis using goal [of "Some el"] 1 wf by (simp add: slice_element_def opt_bits_def)
  next
    case 2
    then show thesis using be al L by (intro found [of "b - off" "e - b"]) (auto simp: slice_element_def part_def overlap_def intro: dvd_diff)
  next
    case 3
    have "nat (?L - (b - off)) \<le> nat (e - b)" using 3 by (auto intro!: nat_mono)
    then have "part (b - off) (?L - (b - off)) (elem_bits ser el) = overlap b e off (elem_bits ser el)" using 3 L by (simp add: part_def overlap_def)
    then show thesis using 3 be al L by (intro found [of "b - off" "off + ?L - b"]) (auto simp: slice_element_def algebra_simps intro: dvd_diff dvd_add)
  next
    case 4
    then show thesis using be al L by (intro found [of 0 "e - off"]) (auto simp: slice_element_def part_def overlap_def intro: dvd_diff)
  next
    case 5
    then have "overlap b e off (elem_bits ser el) = []" using L by (auto simp: overlap_def)
    then show thesis using goal [of None] 5 wf be by (auto simp: slice_element_def opt_bits_def)
  qed
qed

lemma doInsertSliceChunkAtBack_spec:
  assumes "wf_seq ser es" and "wf_seq ser cs" and "b < e" and "8 dvd b" and "8 dvd e" and "8 dvd off"
  shows "\<exists>r. doInsertSliceChunkAtBack b e off es cs = Inr r \<and> wf_seq ser r \<and> seq_bits ser r = seq_bits ser cs @ overlap b e off (seq_bits ser es)"
  using assms
proof (induction es arbitrary: off cs)
  case Nil
  then show ?case by (simp add: overlap_def)
next
  case (Cons el es)
  have el: "wf_elem ser el" "0 < elem_length el" using Cons.prems(1) by auto
  obtain r where r: "slice_element b e off el = Inr r" "\<forall>c. r = Some c \<longrightarrow> wf_elem ser c \<and> 0 < elem_length c"
      "opt_bits ser r = overlap b e off (elem_bits ser el)"
    using slice_element_spec [OF el Cons.prems(3-6)] by blast
  have "\<exists>q. (case r of None \<Rightarrow> Inr cs | Some c \<Rightarrow> doInsertChunkAtBack c cs) = Inr q \<and> wf_seq ser q \<and> seq_bits ser q = seq_bits ser cs @ opt_bits ser r"
  proof (cases r)
    case None
    then show ?thesis using Cons.prems(2) by (simp add: opt_bits_def)
  next
    case (Some c)
    obtain q where "doInsertChunkAtBack c cs = Inr q" "wf_seq ser q" "seq_bits ser q = seq_bits ser cs @ elem_bits ser c"
      by (rule doInsertChunkAtBack_spec [OF Cons.prems(2), of c]) (use r(2) Some in auto)
    then show ?thesis using Some by (simp add: opt_bits_def)
  qed
  then obtain q where q: "(case r of None \<Rightarrow> Inr cs | Some c \<Rightarrow> doInsertChunkAtBack c cs) = Inr q" "wf_seq ser q"
      "seq_bits ser q = seq_bits ser cs @ opt_bits ser r" by blast
  have "8 dvd off + elem_length el" using Cons.prems(6) wf_elem_dvd [OF el(1)] by (rule dvd_add)
  then obtain s where "doInsertSliceChunkAtBack b e (off + elem_length el) es q = Inr s" "wf_seq ser s"
      "seq_bits ser s = seq_bits ser q @ overlap b e (off + elem_length el) (seq_bits ser es)"
    using Cons.IH [of q "off + elem_length el"] Cons.prems q(2) by auto
  then show ?case using r q el by (simp add: overlap_append length_elem_bits)
qed

section \<open>Peeking into any chunk\<close>

lemma peek_in_element_before:
  "wf_seq ser es \<Longrightarrow> position it < pos \<Longrightarrow> peek_in_element it len pos es = None"
  by (induction es arbitrary: pos) (auto simp: Let_def)

lemma peek_in_element_spec:
  assumes "wf_seq ser es" and "isForward it" and "8 dvd position it" and "8 dvd pos" and "8 dvd len" and "0 < len"
    and "pos \<le> position it" and "position it + len \<le> pos + seq_length es" and "peek_in_element it len pos es = Some r"
  shows "\<exists>e. r = Inr (Some e) \<and> wf_elem ser e \<and> elem_length e = len \<and> elem_bits ser e = part (position it - pos) len (seq_bits ser es)"
  using assms
proof (induction es arbitrary: pos)
  case (Cons e es)
  have e: "wf_elem ser e" "0 < elem_length e" using Cons.prems(1) by auto
  note L = length_elem_bits [OF e(1)]
  consider "position it = pos \<and> len = elem_length e"
    | "\<not> (position it = pos \<and> len = elem_length e)" "position it < pos + elem_length e" "position it + len \<le> pos + elem_length e"
    | "position it < pos + elem_length e" "\<not> position it + len \<le> pos + elem_length e" | "pos + elem_length e \<le> position it" by linarith
  then show ?case
  proof cases
    case 1
    then have "part (position it - pos) len (seq_bits ser (e # es)) = elem_bits ser e" using L by (simp add: part_append_left)
    then show ?thesis using 1 Cons.prems e L by (auto simp: Let_def)
  next
    case 2
    let ?it = "\<lparr>isForward = isForward it, position = position it - pos, index = - 1\<rparr>"
    have "peeks ser (position ?it) len e (elem_peekUnchecked e ?it len)"
      by (rule elem_peek_bits) (use e Cons.prems 2 in \<open>auto intro: dvd_diff\<close>)
    moreover have "r = elem_peekUnchecked e ?it len" using 2 Cons.prems by (auto simp: Let_def split: if_splits)
    moreover have "part (position it - pos) len (elem_bits ser e @ seq_bits ser es) = part (position it - pos) len (elem_bits ser e)"
      using 2 Cons.prems L by (intro part_append_left) auto
    ultimately show ?thesis unfolding peeks_def seq_simps by (metis Iterator.select_convs(2))
  next
    case 3
    then show ?thesis using Cons.prems peek_in_element_before [of ser es it "pos + elem_length e" len] by (auto simp: Let_def split: if_splits)
  next
    case 4
    have d: "8 dvd pos + elem_length e" using Cons.prems(4) wf_elem_dvd [OF e(1)] by (rule dvd_add)
    have r: "peek_in_element it len (pos + elem_length e) es = Some r" using 4 e Cons.prems(9) by (simp add: Let_def)
    have "\<exists>x. r = Inr (Some x) \<and> wf_elem ser x \<and> elem_length x = len
        \<and> elem_bits ser x = part (position it - (pos + elem_length e)) len (seq_bits ser es)"
      by (rule Cons.IH [OF _ _ _ d _ _ 4 _ r]) (use Cons.prems in auto)
    moreover have "part (position it - pos) len (elem_bits ser e @ seq_bits ser es) = part (position it - (pos + elem_length e)) len (seq_bits ser es)"
      using 4 L part_append_right [of "elem_bits ser e" "position it - pos" len "seq_bits ser es"] by (simp add: algebra_simps)
    ultimately show ?thesis by simp
  qed
qed simp

text \<open>An iterator whose index, when it has one, is that of the element at its position.\<close>

fun iterator_ok :: "'f chunk \<Rightarrow> Iterator \<Rightarrow> bool" where
  "iterator_ok (SequenceChunk es) it \<longleftrightarrow> isForward it \<and>
     (index it = - 1 \<or> 0 \<le> index it \<and> index it \<le> int (length es) \<and> position it = seq_length (take (nat (index it)) es))"
| "iterator_ok _ it \<longleftrightarrow> isForward it"

lemma iterator_at_ok [simp]: "iterator_ok c (Iterator_at pos)"
  by (cases c) (simp_all add: Iterator_at_def)

lemma iterator_at_pos [simp]: "position (Iterator_at pos) = pos"
  by (simp add: Iterator_at_def)

lemma part_overlap: "0 \<le> i \<Longrightarrow> 0 \<le> n \<Longrightarrow> overlap i (i + n) 0 xs = part i n xs"
  by (simp add: overlap_def part_def)

lemma sequence_peek_spec:
  assumes wf: "wf_seq ser es" and it: "iterator_ok (SequenceChunk es) it" and al: "8 dvd position it" "8 dvd len"
    and b: "0 \<le> position it" "0 < len" "position it + len \<le> seq_length es"
  obtains c where "SequenceChunk_peekUnchecked es it len = Inr (Some c)" and "wf_chunk ser c" and "chunk_bits ser c = part (position it) len (seq_bits ser es)"
proof -
  note L = length_seq_bits [OF wf]
  have fw: "isForward it" and len: "len \<noteq> 0" "len \<noteq> - 1" using it b by auto
  note * = that
  show thesis
  proof (cases "position it = 0 \<and> len = seq_length es")
    case True
    then show thesis using b len wf L by (intro * [of "SequenceChunk es"]) (simp_all add: SequenceChunk_peekUnchecked_def CHUNK_CHECK_USAGE_def)
  next
    case False
    note start = SequenceChunk_peekUnchecked_def CHUNK_CHECK_USAGE_def
    show thesis
    proof (cases "index it = - 1 \<or> index it = int (length es) \<or> elem_length (es ! nat (index it)) \<noteq> len")
      case False': False
      let ?i = "nat (index it)"
      have i: "?i < length es" "0 \<le> index it" "index it < int (length es)" using it False' by auto
      have split: "es = take ?i es @ es ! ?i # drop (Suc ?i) es" using i(1) by (rule id_take_nth_drop)
      have wfi: "wf_elem ser (es ! ?i)" using wf i(1) by simp
      have "wf_seq ser (take ?i es)" using wf by (auto dest: in_set_takeD)
      then have "int (length (seq_bits ser (take ?i es))) = position it" using length_seq_bits it False' by fastforce
      moreover have "seq_bits ser es = seq_bits ser (take ?i es) @ elem_bits ser (es ! ?i) @ seq_bits ser (drop (Suc ?i) es)"
        by (subst split) simp
      ultimately have "part (position it) len (seq_bits ser es) = elem_bits ser (es ! ?i)"
        using length_elem_bits [OF wfi] False' by (simp add: part_append_right part_append_left)
      moreover have "SequenceChunk_peekUnchecked es it len = Inr (Some (Elem (es ! ?i)))"
        using False False' b len i fw by (auto simp: start indexed_element_def from_side_def)
      ultimately show thesis using wfi by (intro * [of "Elem (es ! ?i)"]) simp_all
    next
      case True
      then have ie: "indexed_element it len es = Inr None" using it fw len by (auto simp: indexed_element_def from_side_def)
      show thesis
      proof (cases "peek_in_element it len 0 es")
        case (Some r)
        then obtain e where e: "r = Inr (Some e)" "wf_elem ser e" "elem_bits ser e = part (position it) len (seq_bits ser es)"
          using peek_in_element_spec [OF wf fw al(1) _ al(2) b(2), of 0 r] b by auto
        then show thesis using Some False b len ie fw by (intro * [of "Elem e"]) (auto simp: start from_side_def)
      next
        case None
        have "8 dvd position it + len" using al by (rule dvd_add)
        then obtain q where "doInsertSliceChunkAtBack (position it) (position it + len) 0 es [] = Inr q" "wf_seq ser q"
            "seq_bits ser q = overlap (position it) (position it + len) 0 (seq_bits ser es)"
          using doInsertSliceChunkAtBack_spec [OF wf, of "[]" "position it" "position it + len" 0] al b by auto
        then show thesis using None False b len ie fw
          by (intro * [of "SequenceChunk q"]) (auto simp: start from_side_def converted_offset_def SequenceChunk_convertChunk_def Let_def part_overlap)
      qed
    qed
  qed
qed

lemma chunk_peek_spec:
  assumes "wf_chunk ser c" and "iterator_ok c it" and "8 dvd position it" and "8 dvd len"
    and "0 \<le> position it" and "0 < len" and "position it + len \<le> getChunkLength c"
  obtains d where "Chunk_peek c it len = Inr d" and "wf_chunk ser d" and "chunk_bits ser d = part (position it) len (chunk_bits ser c)"
proof (cases c)
  case (Elem e)
  then show thesis using that elem_peek_bits [of ser e it len] assms by (auto simp: peeks_def Chunk_peek_def checkPeekResult_def)
next
  case (SequenceChunk es)
  obtain d where "SequenceChunk_peekUnchecked es it len = Inr (Some d)" "wf_chunk ser d" "chunk_bits ser d = part (position it) len (seq_bits ser es)"
    by (rule sequence_peek_spec [of ser es it len]) (use assms SequenceChunk in auto)
  then show thesis using that SequenceChunk by (simp add: Chunk_peek_def checkPeekResult_def)
qed (use assms in simp)

lemma simplify_spec:
  assumes "wf_chunk ser c" and "0 < getChunkLength c"
  obtains d where "simplify c = Inr d" and "wf_chunk ser d" and "chunk_bits ser d = chunk_bits ser c"
proof -
  have "8 dvd getChunkLength c" using assms wf_elem_dvd wf_seq_dvd [of ser] by (cases c) auto
  then obtain d where "Chunk_peek c (Iterator_at 0) (getChunkLength c) = Inr d" "wf_chunk ser d" "chunk_bits ser d = part 0 (getChunkLength c) (chunk_bits ser c)"
    using chunk_peek_spec [OF assms(1), of "Iterator_at 0" "getChunkLength c"] assms(2) by auto
  then show thesis using that length_chunk_bits [OF assms(1)] by (simp add: simplify_def)
qed

lemma insertAtBack_spec:
  assumes "wf_chunk ser c" and "wf_chunk ser d" and "0 < getChunkLength d" and "canInsertAtBack c d"
  obtains r where "insertAtBack c d = Inr r" and "wf_chunk ser r" and "chunk_bits ser r = chunk_bits ser c @ chunk_bits ser d"
proof (cases c)
  case (Elem e)
  then obtain e' where e': "d = Elem e'" using assms(4) by (cases d) auto
  obtain r where "elem_insertAtBack e e' = Inr r" "wf_elem ser r" "elem_bits ser r = elem_bits ser e @ elem_bits ser e'"
    by (rule elem_insertAtBack_spec [of ser e e']) (use assms Elem e' in auto)
  then show thesis using that [of "Elem r"] Elem e' by simp
next
  case (SequenceChunk es)
  obtain r where "seq_insertAtBack d es = Inr r" "wf_seq ser r" "seq_bits ser r = seq_bits ser es @ chunk_bits ser d"
    by (rule seq_insertAtBack_spec [of ser es d]) (use assms SequenceChunk in auto)
  then show thesis using that [of "SequenceChunk r"] SequenceChunk by simp
qed (use assms in simp)

lemma insertAtFront_spec:
  assumes "wf_chunk ser c" and "wf_chunk ser d" and "0 < getChunkLength d" and "canInsertAtFront c d"
  obtains r where "insertAtFront c d = Inr r" and "wf_chunk ser r" and "chunk_bits ser r = chunk_bits ser d @ chunk_bits ser c"
proof (cases c)
  case (Elem e)
  then obtain e' where e': "d = Elem e'" using assms(4) by (cases d) auto
  obtain r where "elem_insertAtFront e e' = Inr r" "wf_elem ser r" "elem_bits ser r = elem_bits ser e' @ elem_bits ser e"
    by (rule elem_insertAtFront_spec [of ser e e']) (use assms Elem e' in auto)
  then show thesis using that [of "Elem r"] Elem e' by simp
next
  case (SequenceChunk es)
  obtain r where "seq_insertAtFront d es = Inr r" "wf_seq ser r" "seq_bits ser r = chunk_bits ser d @ seq_bits ser es"
    by (rule seq_insertAtFront_spec [of ser es d]) (use assms SequenceChunk in auto)
  then show thesis using that [of "SequenceChunk r"] SequenceChunk by simp
qed (use assms in simp)

section \<open>Limits\<close>

text \<open>A part of a count chunk loses its data.\<close>

lemma count_data_lost: "elem_peekUnchecked (ByteCountChunk 4 1) (ForwardIterator 8) 16 = Inr (Some (ByteCountChunk 2 63))"
  by (simp add: ByteCountChunk_peekUnchecked_def peek_part_def CHUNK_CHECK_USAGE_def ByteCountChunk_new_def to_B_def ForwardIterator_def)

text \<open>Without a length, a part from inside a slice reaches past the end of the slice.\<close>

lemma slice_peek_past_end: "elem_peekUnchecked (SliceChunk (FieldsChunk f 80) 0 40) (ForwardIterator 16) (- 1) = Inr (Some (SliceChunk (FieldsChunk f 80) 16 40))"
  by (simp add: FieldsChunk_peekUnchecked_def peek_part_def CHUNK_CHECK_USAGE_def converted_offset_def SliceChunk_convertChunk_def ForwardIterator_def)

end
