(* ===== verification/ChunkBuffer.thy ===== *)
theory ChunkBuffer
  imports ChunkSeq
begin

text \<open>
  Buffers for data that arrives out of order (\<open>common/packet/ChunkBuffer\<close> of the INET framework): a vector of
  regions, each an offset with a chunk, that neither overlap nor touch. Iterators are
  indices; the order of the regions makes \<open>std::lower_bound\<close> and \<open>std::upper_bound\<close> the first position behind those
  that satisfy the comparison. A region has no data (null pointer) only between \<open>mergeRegions\<close> and
  \<open>eraseEmptyRegions\<close>; there it is \<open>None\<close>.
\<close>

section \<open>Regions\<close>

record 'f BufRegion =
  r_offset :: int
  r_data :: "'f chunk"

definition getStartOffset :: "'f BufRegion \<Rightarrow> int" where
  "getStartOffset r = r_offset r"

definition getEndOffset :: "'f BufRegion \<Rightarrow> int" where
  "getEndOffset r = r_offset r + getChunkLength (r_data r)"

definition eraseEmptyRegions :: "'f BufRegion option list \<Rightarrow> 'f BufRegion list" where
  "eraseEmptyRegions rs = map the (filter (\<lambda>r. r \<noteq> None) rs)"

text \<open>The loop of \<open>sliceRegions\<close>, which makes room for the new region.\<close>

fun slice_loop :: "'f BufRegion \<Rightarrow> 'f BufRegion list \<Rightarrow> error + 'f BufRegion list" where
  "slice_loop new [] = Inr []"
| "slice_loop new (old # rest) =
     (if getEndOffset new \<le> getStartOffset old \<or> getEndOffset old \<le> getStartOffset new
      then ebind (slice_loop new rest) (\<lambda>rs. Inr (old # rs))
      else if getStartOffset new \<le> getStartOffset old \<and> getEndOffset old \<le> getEndOffset new
      then slice_loop new rest
      else if getStartOffset old < getStartOffset new \<and> getEndOffset new < getEndOffset old
      then ebind (Chunk_peek (r_data old) (Iterator_at 0) (getStartOffset new - getStartOffset old)) (\<lambda>previous.
           ebind (Chunk_peek (r_data old) (Iterator_at (getEndOffset new - getStartOffset old)) (getEndOffset old - getEndOffset new)) (\<lambda>nxt.
             Inr (\<lparr>r_offset = getStartOffset old, r_data = previous\<rparr> # \<lparr>r_offset = getEndOffset new, r_data = nxt\<rparr> # rest)))
      else if getEndOffset old \<le> getEndOffset new
      then ebind (Chunk_peek (r_data old) (Iterator_at 0) (getStartOffset new - getStartOffset old)) (\<lambda>front.
           ebind (slice_loop new rest) (\<lambda>rs. Inr (old\<lparr>r_data := front\<rparr> # rs)))
      else if getStartOffset new \<le> getStartOffset old
      then ebind (Chunk_peek (r_data old) (Iterator_at (getEndOffset new - getStartOffset old)) (getEndOffset old - getEndOffset new)) (\<lambda>tail.
           ebind (slice_loop new rest) (\<lambda>rs. Inr (\<lparr>r_offset = getEndOffset new, r_data = tail\<rparr> # rs)))
      else ebind (slice_loop new rest) (\<lambda>rs. Inr (old # rs)))"

definition sliceRegions :: "'f BufRegion \<Rightarrow> 'f BufRegion list \<Rightarrow> error + 'f BufRegion list" where
  "sliceRegions new regions =
     (if regions = [] then Inr regions
      else let lower = length (takeWhile (\<lambda>r. getStartOffset r < getStartOffset new) regions);
               lower = (if lower \<noteq> 0 then lower - 1 else lower);
               upper = length (takeWhile (\<lambda>r. \<not> getEndOffset new < getEndOffset r) regions);
               upper = (if upper \<noteq> length regions then upper + 1 else upper)
           in ebind (slice_loop new (take (upper - lower) (drop lower regions))) (\<lambda>rs.
                Inr (take lower regions @ rs @ drop (max lower upper) regions)))"

definition mergeRegions :: "'f BufRegion \<Rightarrow> 'f BufRegion \<Rightarrow> error + 'f BufRegion option \<times> 'f BufRegion option" where
  "mergeRegions previous nxt =
     (if getEndOffset previous = getStartOffset nxt
      then if canInsertAtBack (r_data previous) (r_data nxt)
           then ebind (insertAtBack (r_data previous) (r_data nxt)) (\<lambda>newData. ebind (simplify newData) (\<lambda>newData.
                  Inr (Some (previous\<lparr>r_data := newData\<rparr>), None)))
           else if canInsertAtFront (r_data nxt) (r_data previous)
           then ebind (insertAtFront (r_data nxt) (r_data previous)) (\<lambda>newData. ebind (simplify newData) (\<lambda>newData.
                  Inr (None, Some \<lparr>r_offset = r_offset previous, r_data = newData\<rparr>)))
           else ebind (seq_insertAtBack (r_data previous) []) (\<lambda>sequenceChunk.
                ebind (seq_insertAtBack (r_data nxt) sequenceChunk) (\<lambda>sequenceChunk.
                  Inr (Some (previous\<lparr>r_data := SequenceChunk sequenceChunk\<rparr>), None)))
      else Inr (Some previous, Some nxt))"

section \<open>The operations\<close>

text \<open>Inserting a region at index \<open>i\<close>, merging it with its neighbours.\<close>

definition insert_region :: "nat \<Rightarrow> 'f BufRegion \<Rightarrow> 'f BufRegion list \<Rightarrow> error + 'f BufRegion list" where
  "insert_region i new regions =
     ebind (if i \<noteq> 0 then mergeRegions (regions ! (i - 1)) new else Inr (None, Some new)) (\<lambda>(previous, region).
     ebind (if i \<noteq> length regions
            then (case region of
                    Some r \<Rightarrow> ebind (mergeRegions r (regions ! i)) (\<lambda>(r, nxt). Inr [previous, r, nxt])
                  | None \<Rightarrow> (case previous of
                      Some p \<Rightarrow> ebind (mergeRegions p (regions ! i)) (\<lambda>(p, nxt). Inr [p, None, nxt])
                    | None \<Rightarrow> Inl NullDereference))
            else Inr [previous, region]) (\<lambda>changed.
       Inr (take (i - 1) regions @ eraseEmptyRegions changed @ drop (i + 1) regions)))"

definition ChunkBuffer_replace :: "int \<Rightarrow> 'f chunk \<Rightarrow> 'f BufRegion list \<Rightarrow> error + 'f BufRegion list" where
  "ChunkBuffer_replace offset chunk regions =
     CHUNK_CHECK_USAGE (offset \<ge> 0) (CHUNK_CHECK_USAGE (getChunkLength chunk > 0)
       (let new = \<lparr>r_offset = offset, r_data = chunk\<rparr> in
        ebind (sliceRegions new regions) (\<lambda>regions.
          if regions = [] then Inr [new]
          else if getEndOffset (last regions) \<le> offset
          then ebind (mergeRegions (last regions) new) (\<lambda>(previous, region). Inr (butlast regions @ eraseEmptyRegions [previous, region]))
          else if offset + getChunkLength chunk \<le> getStartOffset (hd regions)
          then ebind (mergeRegions new (hd regions)) (\<lambda>(region, nxt). Inr (eraseEmptyRegions [region, nxt] @ tl regions))
          else insert_region (length (takeWhile (\<lambda>r. \<not> getStartOffset new < getStartOffset r) regions)) new regions)))"

text \<open>The first region that is exactly the given one is erased.\<close>

fun erase_exact :: "int \<Rightarrow> int \<Rightarrow> 'f BufRegion list \<Rightarrow> 'f BufRegion list option" where
  "erase_exact offset len [] = None"
| "erase_exact offset len (r # rs) =
     (if r_offset r = offset \<and> getChunkLength (r_data r) = len then Some rs else map_option (\<lambda>rs. r # rs) (erase_exact offset len rs))"

definition ChunkBuffer_clear :: "int \<Rightarrow> int \<Rightarrow> 'f BufRegion list \<Rightarrow> error + 'f BufRegion list" where
  "ChunkBuffer_clear offset len regions =
     CHUNK_CHECK_USAGE (offset \<ge> 0) (CHUNK_CHECK_USAGE (len \<ge> 0)
       (case erase_exact offset len regions of
          Some rs \<Rightarrow> Inr rs
        | None \<Rightarrow> ebind (ByteCountChunk_new len) (\<lambda>data. sliceRegions \<lparr>r_offset = offset, r_data = Elem data\<rparr> regions)))"

definition region_at :: "int \<Rightarrow> 'f BufRegion list \<Rightarrow> error + 'f BufRegion" where
  "region_at i regions = (if 0 \<le> i \<and> i < int (length regions) then Inr (regions ! nat i) else Inl IndexOutOfRange)"

definition getNumRegions :: "'f BufRegion list \<Rightarrow> int" where
  "getNumRegions regions = int (length regions)"

definition getRegionLength :: "int \<Rightarrow> 'f BufRegion list \<Rightarrow> error + int" where
  "getRegionLength i regions = ebind (region_at i regions) (\<lambda>r. Inr (getChunkLength (r_data r)))"

definition getRegionStartOffset :: "int \<Rightarrow> 'f BufRegion list \<Rightarrow> error + int" where
  "getRegionStartOffset i regions = ebind (region_at i regions) (\<lambda>r. Inr (r_offset r))"

definition getRegionEndOffset :: "int \<Rightarrow> 'f BufRegion list \<Rightarrow> error + int" where
  "getRegionEndOffset i regions = ebind (region_at i regions) (\<lambda>r. Inr (getEndOffset r))"

section \<open>Reordering\<close>

text \<open>\<open>ReorderBuffer\<close>: data is taken from the front, in order.\<close>

record 'f ReorderBuffer =
  regions :: "'f BufRegion list"
  expectedOffset :: int

definition getAvailableDataLength :: "'f ReorderBuffer \<Rightarrow> int" where
  "getAvailableDataLength b =
     (if regions b \<noteq> [] \<and> r_offset (hd (regions b)) = expectedOffset b then getChunkLength (r_data (hd (regions b))) else 0)"

definition popAvailableData :: "int \<Rightarrow> 'f ReorderBuffer \<Rightarrow> error + 'f chunk option \<times> 'f ReorderBuffer" where
  "popAvailableData len b =
     (if regions b \<noteq> [] \<and> r_offset (hd (regions b)) = expectedOffset b
      then let data = r_data (hd (regions b)) in
           ebind (if len \<noteq> - 1 then ebind (Chunk_peek data (ForwardIterator 0) len) (\<lambda>data. Inr (data, len))
                  else Inr (data, getChunkLength data)) (\<lambda>(data, dataLength).
           ebind (ChunkBuffer_clear (expectedOffset b) dataLength (regions b)) (\<lambda>rs.
             Inr (Some data, b\<lparr>regions := rs, expectedOffset := expectedOffset b + dataLength\<rparr>)))
      else Inr (None, b))"

section \<open>Reassembling\<close>

text \<open>\<open>ReassemblyBuffer\<close>: complete when one region holds everything from 0 to the expected length.\<close>

record 'f ReassemblyBuffer =
  parts :: "'f BufRegion list"
  expectedLength :: int

definition isComplete :: "'f ReassemblyBuffer \<Rightarrow> bool" where
  "isComplete b \<longleftrightarrow> length (parts b) = 1 \<and> r_offset (hd (parts b)) = 0 \<and> getChunkLength (r_data (hd (parts b))) = expectedLength b"

definition getReassembledData :: "'f ReassemblyBuffer \<Rightarrow> error + 'f chunk" where
  "getReassembledData b = (if \<not> isComplete b then Inl RuntimeError else Inr (r_data (hd (parts b))))"

end
