(* ===== verification/ChunkBufferSpec.thy ===== *)
theory ChunkBufferSpec
  imports ChunkSpec ChunkBuffer
begin

text \<open>
  Correctness of the out-of-order buffer: it is a partial map from offsets to bits. Replacing
  overwrites a stretch of the map, clearing removes one; the regions are the maximal stretches of defined
  offsets, in order.
\<close>

section \<open>The map a buffer represents\<close>

definition region_bit :: "('f \<Rightarrow> bool list) \<Rightarrow> 'f BufRegion \<Rightarrow> int \<Rightarrow> bool option" where
  "region_bit ser r i = (if getStartOffset r \<le> i \<and> i < getEndOffset r then Some (chunk_bits ser (r_data r) ! nat (i - getStartOffset r)) else None)"

fun bit_at :: "('f \<Rightarrow> bool list) \<Rightarrow> 'f BufRegion list \<Rightarrow> int \<Rightarrow> bool option" where
  "bit_at ser [] i = None"
| "bit_at ser (r # rs) i = (case region_bit ser r i of None \<Rightarrow> bit_at ser rs i | Some b \<Rightarrow> Some b)"

definition wf_region :: "('f \<Rightarrow> bool list) \<Rightarrow> 'f BufRegion \<Rightarrow> bool" where
  "wf_region ser r \<longleftrightarrow> 0 \<le> r_offset r \<and> 8 dvd r_offset r \<and> wf_chunk ser (r_data r) \<and> 0 < getChunkLength (r_data r)"

fun regions_ok :: "('f \<Rightarrow> bool list) \<Rightarrow> 'f BufRegion list \<Rightarrow> bool" where
  "regions_ok ser [] \<longleftrightarrow> True"
| "regions_ok ser (r # rs) \<longleftrightarrow> wf_region ser r \<and> (\<forall>s\<in>set rs. getEndOffset r < getStartOffset s) \<and> regions_ok ser rs"

lemma bit_at_append: "bit_at ser (xs @ ys) i = (case bit_at ser xs i of None \<Rightarrow> bit_at ser ys i | Some b \<Rightarrow> Some b)"
  by (induction xs) (auto split: option.splits)

lemma regions_ok_append:
  "regions_ok ser (xs @ ys) \<longleftrightarrow> regions_ok ser xs \<and> regions_ok ser ys \<and> (\<forall>x\<in>set xs. \<forall>y\<in>set ys. getEndOffset x < getStartOffset y)"
  by (induction xs) auto

lemma region_bit_None: "region_bit ser r i = None \<longleftrightarrow> \<not> (getStartOffset r \<le> i \<and> i < getEndOffset r)"
  by (simp add: region_bit_def)

lemma bit_at_None: "bit_at ser rs i = None \<longleftrightarrow> (\<forall>r\<in>set rs. \<not> (getStartOffset r \<le> i \<and> i < getEndOffset r))"
  by (induction rs) (auto simp: region_bit_def split: option.splits if_splits)

lemma wf_region_less: "wf_region ser r \<Longrightarrow> getStartOffset r < getEndOffset r"
  by (simp add: wf_region_def getStartOffset_def getEndOffset_def)

lemma wf_region_dvd: "wf_region ser r \<Longrightarrow> 8 dvd getStartOffset r \<and> 8 dvd getEndOffset r \<and> 0 \<le> getStartOffset r"
  using wf_elem_dvd wf_seq_dvd [of ser] unfolding wf_region_def getStartOffset_def getEndOffset_def
  by (cases "r_data r") (auto intro!: dvd_add)

lemma regions_ok_wf: "regions_ok ser rs \<Longrightarrow> r \<in> set rs \<Longrightarrow> wf_region ser r"
  by (induction rs) auto

lemma nth_part: "0 \<le> i \<Longrightarrow> k < nat n \<Longrightarrow> i + n \<le> int (length xs) \<Longrightarrow> part i n xs ! k = xs ! (nat i + k)"
  by (auto simp: part_def)

text \<open>A part of a region.\<close>

lemma region_part:
  assumes r: "wf_region ser r" and ab: "getStartOffset r \<le> a" "a < b" "b \<le> getEndOffset r" "8 dvd a" "8 dvd b"
    and it: "position it = a - getStartOffset r" "iterator_ok (r_data r) it"
  obtains c where "Chunk_peek (r_data r) it (b - a) = Inr c" and "wf_chunk ser c" and "getChunkLength c = b - a"
    and "chunk_bits ser c = part (a - getStartOffset r) (b - a) (chunk_bits ser (r_data r))"
    and "wf_region ser \<lparr>r_offset = a, r_data = c\<rparr>"
    and "\<And>i. region_bit ser \<lparr>r_offset = a, r_data = c\<rparr> i = (if a \<le> i \<and> i < b then region_bit ser r i else None)"
proof -
  have wf: "wf_chunk ser (r_data r)" using r by (simp add: wf_region_def)
  obtain c where c: "Chunk_peek (r_data r) it (b - a) = Inr c" "wf_chunk ser c" "chunk_bits ser c = part (a - getStartOffset r) (b - a) (chunk_bits ser (r_data r))"
    using chunk_peek_spec [OF wf it(2), of "b - a"] it(1) ab wf_region_dvd [OF r] by (auto simp: getStartOffset_def getEndOffset_def intro: dvd_diff)
  note L = length_chunk_bits [OF wf]
  have len: "getChunkLength c = b - a" using length_chunk_bits [OF c(2)] c(3) ab L
    by (simp add: part_def getStartOffset_def getEndOffset_def)
  have "region_bit ser \<lparr>r_offset = a, r_data = c\<rparr> i = (if a \<le> i \<and> i < b then region_bit ser r i else None)" for i
  proof (cases "a \<le> i \<and> i < b")
    case True
    have "part (a - r_offset r) (b - a) (chunk_bits ser (r_data r)) ! nat (i - a) = chunk_bits ser (r_data r) ! (nat (a - r_offset r) + nat (i - a))"
      using True ab L by (intro nth_part) (auto simp: getStartOffset_def getEndOffset_def)
    moreover have "nat (a - r_offset r) + nat (i - a) = nat (i - r_offset r)" using True ab by (simp add: getStartOffset_def flip: nat_add_distrib)
    ultimately show ?thesis using True ab len c(3) by (simp add: region_bit_def getStartOffset_def getEndOffset_def)
  next
    case False
    then show ?thesis using len by (auto simp: region_bit_def getStartOffset_def getEndOffset_def)
  qed
  moreover have "wf_region ser \<lparr>r_offset = a, r_data = c\<rparr>" using c(2) len ab wf_region_dvd [OF r] by (simp add: wf_region_def)
  ultimately show thesis using that c len by blast
qed

section \<open>Making room\<close>

definition outside :: "'f BufRegion \<Rightarrow> 'f BufRegion \<Rightarrow> bool" where
  "outside new r \<longleftrightarrow> getEndOffset new \<le> getStartOffset r \<or> getEndOffset r \<le> getStartOffset new"

lemma slice_loop_outside: "\<forall>r\<in>set rs. outside new r \<Longrightarrow> slice_loop new rs = Inr rs"
  by (induction rs) (auto simp: outside_def)

lemma slice_loop_skip: "\<forall>r\<in>set pre. outside new r \<Longrightarrow> slice_loop new (pre @ rs) = ebind (slice_loop new rs) (\<lambda>rs. Inr (pre @ rs))"
proof (induction pre)
  case Nil
  then show ?case by (cases "slice_loop new rs") simp_all
next
  case (Cons r pre)
  then show ?case by (cases "slice_loop new rs") (auto simp: outside_def)
qed

lemma slice_loop_rest: "\<forall>r\<in>set post. outside new r \<Longrightarrow> slice_loop new (rs @ post) = ebind (slice_loop new rs) (\<lambda>rs. Inr (rs @ post))"
  by (induction rs) (simp_all add: slice_loop_outside ebind_assoc)

lemma takeWhile_index: "n < length (takeWhile P xs) \<Longrightarrow> P (xs ! n)"
  by (metis nth_mem set_takeWhileD takeWhile_nth)

lemma regions_sorted: "regions_ok ser rs \<Longrightarrow> i < j \<Longrightarrow> j < length rs \<Longrightarrow> getEndOffset (rs ! i) < getStartOffset (rs ! j)"
proof (induction rs arbitrary: i j)
  case (Cons r rs)
  then show ?case by (cases i; cases j) auto
qed simp

lemma sliceRegions_loop:
  assumes ok: "regions_ok ser rs" and new: "getStartOffset new < getEndOffset new"
  shows "sliceRegions new rs = slice_loop new rs"
proof (cases "rs = []")
  case False
  let ?l = "length (takeWhile (\<lambda>r. getStartOffset r < getStartOffset new) rs)"
  let ?u = "length (takeWhile (\<lambda>r. \<not> getEndOffset new < getEndOffset r) rs)"
  define l where "l = (if ?l \<noteq> 0 then ?l - 1 else ?l)"
  define u where "u = (if ?u \<noteq> length rs then ?u + 1 else ?u)"
  have pre: "getEndOffset (rs ! i) < getStartOffset new" if "i < l" for i
  proof -
    have i: "i < ?l - 1" "?l - 1 < ?l" using that by (auto simp: l_def split: if_splits)
    then have "getEndOffset (rs ! i) < getStartOffset (rs ! (?l - 1))"
      by (intro regions_sorted [OF ok]) (auto intro: less_le_trans [OF _ length_takeWhile_le])
    also have "\<dots> < getStartOffset new" using takeWhile_index [OF i(2)] by simp
    finally show ?thesis .
  qed
  have post: "getEndOffset new < getStartOffset (rs ! i)" if "u \<le> i" "i < length rs" for i
  proof -
    have u: "?u < i" "?u < length rs" using that by (auto simp: u_def split: if_splits)
    then have "getEndOffset new < getEndOffset (rs ! ?u)" using nth_length_takeWhile [of "\<lambda>r. \<not> getEndOffset new < getEndOffset r" rs] by simp
    also have "\<dots> < getStartOffset (rs ! i)" using u that by (intro regions_sorted [OF ok])
    finally show ?thesis .
  qed
  have lu: "l \<le> u"
  proof (rule ccontr)
    assume "\<not> l \<le> u"
    then have "u < l" "u < length rs" using length_takeWhile_le [of "\<lambda>r. getStartOffset r < getStartOffset new" rs] by (auto simp: l_def split: if_splits)
    then show False using pre [of u] post [of u] wf_region_less [OF regions_ok_wf [OF ok nth_mem, of u]] new by linarith
  qed
  have out_pre: "\<forall>r\<in>set (take l rs). outside new r"
    using pre by (fastforce simp: in_set_conv_nth outside_def)
  have out_post: "\<forall>r\<in>set (drop u rs). outside new r"
  proof
    fix r assume "r \<in> set (drop u rs)"
    then obtain i where "i < length rs - u" "r = rs ! (u + i)" by (auto simp: in_set_conv_nth)
    then have "u \<le> u + i" "u + i < length rs" by auto
    then have "getEndOffset new < getStartOffset r" using post [of "u + i"] \<open>r = rs ! (u + i)\<close> by blast
    then show "outside new r" by (simp add: outside_def)
  qed
  have "rs = take l rs @ take (u - l) (drop l rs) @ drop u rs" using lu by (metis append_take_drop_id drop_drop le_add_diff_inverse2)
  then have "slice_loop new rs = slice_loop new (take l rs @ take (u - l) (drop l rs) @ drop u rs)" by simp
  also have "\<dots> = ebind (slice_loop new (take (u - l) (drop l rs))) (\<lambda>mid. Inr (take l rs @ mid @ drop u rs))"
    by (simp add: slice_loop_skip [OF out_pre] slice_loop_rest [OF out_post] ebind_assoc)
  finally show ?thesis using False lu
    unfolding sliceRegions_def Let_def l_def [symmetric] u_def [symmetric] by (simp add: max_absorb2)
qed (simp add: sliceRegions_def)

lemma slice_loop_spec:
  assumes ok: "regions_ok ser rs" and new: "getStartOffset new < getEndOffset new" "8 dvd getStartOffset new" "8 dvd getEndOffset new"
  shows "\<exists>rs'. slice_loop new rs = Inr rs' \<and> regions_ok ser rs' \<and> (\<forall>r\<in>set rs'. outside new r)
     \<and> (\<forall>i. bit_at ser rs' i = (if getStartOffset new \<le> i \<and> i < getEndOffset new then None else bit_at ser rs i))
     \<and> (\<forall>r'\<in>set rs'. \<exists>r\<in>set rs. getStartOffset r \<le> getStartOffset r' \<and> getEndOffset r' \<le> getEndOffset r)"
  using ok
proof (induction rs)
  case (Cons r rs)
  have r: "wf_region ser r" and after: "\<forall>s\<in>set rs. getEndOffset r < getStartOffset s" using Cons.prems by auto
  note rl = wf_region_less [OF r] and rd = wf_region_dvd [OF r]
  obtain rs' where IH: "slice_loop new rs = Inr rs'" "regions_ok ser rs'" "\<forall>r\<in>set rs'. outside new r"
      "\<And>i. bit_at ser rs' i = (if getStartOffset new \<le> i \<and> i < getEndOffset new then None else bit_at ser rs i)"
      "\<forall>r'\<in>set rs'. \<exists>r\<in>set rs. getStartOffset r \<le> getStartOffset r' \<and> getEndOffset r' \<le> getEndOffset r"
    using Cons.IH Cons.prems by auto
  have after': "\<forall>s\<in>set rs'. getEndOffset r < getStartOffset s" using IH(5) after by fastforce
  have later: "bit_at ser rs i = None" if "i \<le> getEndOffset r" for i using that after by (fastforce simp: bit_at_None)
  consider "outside new r" | "getStartOffset new \<le> getStartOffset r" "getEndOffset r \<le> getEndOffset new"
    | "getStartOffset r < getStartOffset new" "getEndOffset new < getEndOffset r"
    | "getStartOffset r < getStartOffset new" "getStartOffset new < getEndOffset r" "getEndOffset r \<le> getEndOffset new"
    | "getStartOffset new \<le> getStartOffset r" "getStartOffset r < getEndOffset new" "getEndOffset new < getEndOffset r"
    unfolding outside_def by linarith
  then show ?case
  proof cases
    case 1
    then have "slice_loop new (r # rs) = Inr (r # rs')" using IH(1) by (simp add: outside_def)
    then show ?thesis using 1 IH r after' by (fastforce simp: outside_def region_bit_def split: option.splits)
  next
    case 2
    then have "slice_loop new (r # rs) = Inr rs'" using IH(1) rl by auto
    then show ?thesis using 2 IH by (fastforce simp: region_bit_def split: option.splits)
  next
    case 3
    let ?a = "getStartOffset r" and ?b = "getStartOffset new" and ?c = "getEndOffset new" and ?d = "getEndOffset r"
    obtain p where p: "Chunk_peek (r_data r) (Iterator_at 0) (?b - ?a) = Inr p" "wf_region ser \<lparr>r_offset = ?a, r_data = p\<rparr>" "getChunkLength p = ?b - ?a"
        "\<And>i. region_bit ser \<lparr>r_offset = ?a, r_data = p\<rparr> i = (if ?a \<le> i \<and> i < ?b then region_bit ser r i else None)"
      using region_part [OF r, of ?a ?b "Iterator_at 0"] 3 rd new by auto
    obtain q where q: "Chunk_peek (r_data r) (Iterator_at (?c - ?a)) (?d - ?c) = Inr q" "wf_region ser \<lparr>r_offset = ?c, r_data = q\<rparr>" "getChunkLength q = ?d - ?c"
        "\<And>i. region_bit ser \<lparr>r_offset = ?c, r_data = q\<rparr> i = (if ?c \<le> i \<and> i < ?d then region_bit ser r i else None)"
      using region_part [OF r, of ?c ?d "Iterator_at (?c - ?a)"] 3 rd new by auto
    have s: "slice_loop new (r # rs) = Inr (\<lparr>r_offset = ?a, r_data = p\<rparr> # \<lparr>r_offset = ?c, r_data = q\<rparr> # rs)"
      using 3 p(1) q(1) new(1) by simp
    have e: "getStartOffset \<lparr>r_offset = ?a, r_data = p\<rparr> = ?a" "getEndOffset \<lparr>r_offset = ?a, r_data = p\<rparr> = ?b"
        "getStartOffset \<lparr>r_offset = ?c, r_data = q\<rparr> = ?c" "getEndOffset \<lparr>r_offset = ?c, r_data = q\<rparr> = ?d"
      using p(3) q(3) by (simp_all add: getStartOffset_def getEndOffset_def)
    have "regions_ok ser (\<lparr>r_offset = ?a, r_data = p\<rparr> # \<lparr>r_offset = ?c, r_data = q\<rparr> # rs)"
      using p(2) q(2) e after Cons.prems new 3 by fastforce
    moreover have "\<forall>x\<in>set (\<lparr>r_offset = ?a, r_data = p\<rparr> # \<lparr>r_offset = ?c, r_data = q\<rparr> # rs). outside new x"
      using e after 3 new by (fastforce simp: outside_def)
    moreover have "bit_at ser (\<lparr>r_offset = ?a, r_data = p\<rparr> # \<lparr>r_offset = ?c, r_data = q\<rparr> # rs) i
        = (if ?b \<le> i \<and> i < ?c then None else bit_at ser (r # rs) i)" for i
      using later [of i] 3 new(1) by (auto simp: p(4) q(4) region_bit_None split: option.splits) (auto simp: region_bit_def)
    moreover have "\<forall>x\<in>set (\<lparr>r_offset = ?a, r_data = p\<rparr> # \<lparr>r_offset = ?c, r_data = q\<rparr> # rs). \<exists>y\<in>set (r # rs). getStartOffset y \<le> getStartOffset x \<and> getEndOffset x \<le> getEndOffset y"
      using e 3 new(1) by auto
    ultimately show ?thesis using s by blast
  next
    case 4
    let ?a = "getStartOffset r" and ?b = "getStartOffset new"
    obtain p where p: "Chunk_peek (r_data r) (Iterator_at 0) (?b - ?a) = Inr p" "wf_region ser \<lparr>r_offset = ?a, r_data = p\<rparr>" "getChunkLength p = ?b - ?a"
        "\<And>i. region_bit ser \<lparr>r_offset = ?a, r_data = p\<rparr> i = (if ?a \<le> i \<and> i < ?b then region_bit ser r i else None)"
      using region_part [OF r, of ?a ?b "Iterator_at 0"] 4 rd new by auto
    have s: "slice_loop new (r # rs) = Inr (\<lparr>r_offset = ?a, r_data = p\<rparr> # rs')"
      using 4 p(1) IH(1) new(1) by (cases r) (auto simp: getStartOffset_def)
    have e: "getStartOffset \<lparr>r_offset = ?a, r_data = p\<rparr> = ?a" "getEndOffset \<lparr>r_offset = ?a, r_data = p\<rparr> = ?b"
      using p(3) by (simp_all add: getStartOffset_def getEndOffset_def)
    have "regions_ok ser (\<lparr>r_offset = ?a, r_data = p\<rparr> # rs')" using p(2) e after' IH(2) 4 by fastforce
    moreover have "bit_at ser (\<lparr>r_offset = ?a, r_data = p\<rparr> # rs') i = (if ?b \<le> i \<and> i < getEndOffset new then None else bit_at ser (r # rs) i)" for i
      using later [of i] 4 new(1) by (auto simp: p(4) IH(4) region_bit_None split: option.splits) (auto simp: region_bit_def)
    moreover have "\<forall>x\<in>set (\<lparr>r_offset = ?a, r_data = p\<rparr> # rs'). outside new x" using IH(3) e by (auto simp: outside_def)
    moreover have "\<forall>x\<in>set (\<lparr>r_offset = ?a, r_data = p\<rparr> # rs'). \<exists>y\<in>set (r # rs). getStartOffset y \<le> getStartOffset x \<and> getEndOffset x \<le> getEndOffset y"
      using e 4 IH(5) by auto
    ultimately show ?thesis using s by blast
  next
    case 5
    let ?a = "getStartOffset r" and ?c = "getEndOffset new" and ?d = "getEndOffset r"
    obtain q where q: "Chunk_peek (r_data r) (Iterator_at (?c - ?a)) (?d - ?c) = Inr q" "wf_region ser \<lparr>r_offset = ?c, r_data = q\<rparr>" "getChunkLength q = ?d - ?c"
        "\<And>i. region_bit ser \<lparr>r_offset = ?c, r_data = q\<rparr> i = (if ?c \<le> i \<and> i < ?d then region_bit ser r i else None)"
      using region_part [OF r, of ?c ?d "Iterator_at (?c - ?a)"] 5 rd new by auto
    have s: "slice_loop new (r # rs) = Inr (\<lparr>r_offset = ?c, r_data = q\<rparr> # rs')" using 5 q(1) IH(1) new(1) rl by simp
    have e: "getStartOffset \<lparr>r_offset = ?c, r_data = q\<rparr> = ?c" "getEndOffset \<lparr>r_offset = ?c, r_data = q\<rparr> = ?d"
      using q(3) by (simp_all add: getStartOffset_def getEndOffset_def)
    have "regions_ok ser (\<lparr>r_offset = ?c, r_data = q\<rparr> # rs')" using q(2) e after' IH(2) by fastforce
    moreover have "bit_at ser (\<lparr>r_offset = ?c, r_data = q\<rparr> # rs') i = (if getStartOffset new \<le> i \<and> i < ?c then None else bit_at ser (r # rs) i)" for i
      using later [of i] 5 new(1) by (auto simp: q(4) IH(4) region_bit_None split: option.splits) (auto simp: region_bit_def)
    moreover have "\<forall>x\<in>set (\<lparr>r_offset = ?c, r_data = q\<rparr> # rs'). outside new x" using IH(3) e by (auto simp: outside_def)
    moreover have "\<forall>x\<in>set (\<lparr>r_offset = ?c, r_data = q\<rparr> # rs'). \<exists>y\<in>set (r # rs). getStartOffset y \<le> getStartOffset x \<and> getEndOffset x \<le> getEndOffset y"
      using e 5 IH(5) by auto
    ultimately show ?thesis using s by blast
  qed
qed simp


lemma sliceRegions_spec:
  assumes "regions_ok ser rs" and "getStartOffset new < getEndOffset new" and "8 dvd getStartOffset new" and "8 dvd getEndOffset new"
  obtains rs' where "sliceRegions new rs = Inr rs'" and "regions_ok ser rs'" and "\<forall>r\<in>set rs'. outside new r"
    and "\<And>i. bit_at ser rs' i = (if getStartOffset new \<le> i \<and> i < getEndOffset new then None else bit_at ser rs i)"
  using slice_loop_spec [OF assms] sliceRegions_loop [OF assms(1,2)] by metis

section \<open>Merging\<close>

text \<open>The regions \<open>zs\<close> are the regions \<open>ps\<close> with touching ones merged.\<close>

definition merged :: "('f \<Rightarrow> bool list) \<Rightarrow> 'f BufRegion list \<Rightarrow> 'f BufRegion list \<Rightarrow> bool" where
  "merged ser ps zs \<longleftrightarrow> regions_ok ser zs \<and> zs \<noteq> [] \<and> (\<forall>i. bit_at ser zs i = bit_at ser ps i)
     \<and> (\<forall>z\<in>set zs. getStartOffset (hd ps) \<le> getStartOffset z \<and> getEndOffset z \<le> getEndOffset (last ps))"

text \<open>One region made of two touching ones.\<close>

definition joined :: "('f \<Rightarrow> bool list) \<Rightarrow> 'f BufRegion \<Rightarrow> 'f BufRegion \<Rightarrow> 'f BufRegion \<Rightarrow> bool" where
  "joined ser p n z \<longleftrightarrow> wf_region ser z \<and> getStartOffset z = getStartOffset p \<and> getEndOffset z = getEndOffset n
     \<and> (\<forall>i. region_bit ser z i = bit_at ser [p, n] i)"

lemma joinedI:
  assumes "wf_region ser p" and "wf_region ser n" and "getEndOffset p = getStartOffset n"
    and "wf_chunk ser c" and "chunk_bits ser c = chunk_bits ser (r_data p) @ chunk_bits ser (r_data n)"
  shows "joined ser p n \<lparr>r_offset = r_offset p, r_data = c\<rparr>"
proof -
  let ?p = "getChunkLength (r_data p)" and ?n = "getChunkLength (r_data n)"
  have L: "int (length (chunk_bits ser (r_data p))) = ?p" "int (length (chunk_bits ser (r_data n))) = ?n"
    using assms(1,2) by (simp_all add: wf_region_def length_chunk_bits)
  have len: "getChunkLength c = ?p + ?n" using length_chunk_bits [OF assms(4)] assms(5) L by simp
  have pos: "0 < ?p" "0 < ?n" using assms(1,2) by (simp_all add: wf_region_def)
  have "region_bit ser \<lparr>r_offset = r_offset p, r_data = c\<rparr> i = bit_at ser [p, n] i" for i
  proof (cases "i < r_offset p + ?p")
    case True
    then show ?thesis using assms(3,5) len L pos
      by (auto simp: region_bit_def getStartOffset_def getEndOffset_def nth_append)
  next
    case False
    then have "nat (i - r_offset p) - length (chunk_bits ser (r_data p)) = nat (i - r_offset n)"
      using assms(3) L by (simp add: getStartOffset_def getEndOffset_def)
    then show ?thesis using False assms(3,5) len L pos
      by (auto simp: region_bit_def getStartOffset_def getEndOffset_def nth_append)
  qed
  then show ?thesis using assms len pos
    by (auto simp: joined_def wf_region_def getStartOffset_def getEndOffset_def)
qed

lemma mergeRegions_spec:
  assumes p: "wf_region ser p" and n: "wf_region ser n" and le: "getEndOffset p \<le> getStartOffset n"
  obtains "getEndOffset p < getStartOffset n" and "mergeRegions p n = Inr (Some p, Some n)"
    | z where "getEndOffset p = getStartOffset n" and "joined ser p n z" and "mergeRegions p n = Inr (Some z, None) \<or> mergeRegions p n = Inr (None, Some z)"
proof (cases "getEndOffset p = getStartOffset n")
  case True
  have wf: "wf_chunk ser (r_data p)" "wf_chunk ser (r_data n)" "0 < getChunkLength (r_data p)" "0 < getChunkLength (r_data n)"
    using p n by (simp_all add: wf_region_def)
  note L = length_chunk_bits [OF wf(1)] length_chunk_bits [OF wf(2)]
  note J = joinedI [OF p n True]
  have long: "0 < getChunkLength c" if "wf_chunk ser c" "chunk_bits ser c = chunk_bits ser (r_data p) @ chunk_bits ser (r_data n)" for c
    using length_chunk_bits [OF that(1)] that(2) L wf(3) by simp
  consider "canInsertAtBack (r_data p) (r_data n)" | "\<not> canInsertAtBack (r_data p) (r_data n)" "canInsertAtFront (r_data n) (r_data p)"
    | "\<not> canInsertAtBack (r_data p) (r_data n)" "\<not> canInsertAtFront (r_data n) (r_data p)" by blast
  then show thesis
  proof cases
    case 1
    obtain c where c: "insertAtBack (r_data p) (r_data n) = Inr c" "wf_chunk ser c" "chunk_bits ser c = chunk_bits ser (r_data p) @ chunk_bits ser (r_data n)"
      by (rule insertAtBack_spec [OF wf(1,2,4) 1])
    obtain d where d: "simplify c = Inr d" "wf_chunk ser d" "chunk_bits ser d = chunk_bits ser c"
      by (rule simplify_spec [OF c(2) long [OF c(2,3)]])
    have m: "mergeRegions p n = Inr (Some \<lparr>r_offset = r_offset p, r_data = d\<rparr>, None)" using True 1 c(1) d(1) by (cases p) (simp add: mergeRegions_def)
    show thesis by (rule that(2) [OF True J [OF d(2)] disjI1 [OF m]]) (simp add: d(3) c(3))
  next
    case 2
    obtain c where c: "insertAtFront (r_data n) (r_data p) = Inr c" "wf_chunk ser c" "chunk_bits ser c = chunk_bits ser (r_data p) @ chunk_bits ser (r_data n)"
      by (rule insertAtFront_spec [OF wf(2,1,3) 2(2)])
    obtain d where d: "simplify c = Inr d" "wf_chunk ser d" "chunk_bits ser d = chunk_bits ser c"
      by (rule simplify_spec [OF c(2) long [OF c(2,3)]])
    have m: "mergeRegions p n = Inr (None, Some \<lparr>r_offset = r_offset p, r_data = d\<rparr>)" using True 2 c(1) d(1) by (simp add: mergeRegions_def)
    show thesis by (rule that(2) [OF True J [OF d(2)] disjI2 [OF m]]) (simp add: d(3) c(3))
  next
    case 3
    obtain c where c: "seq_insertAtBack (r_data p) [] = Inr c" "wf_seq ser c" "seq_bits ser c = chunk_bits ser (r_data p)"
      using seq_insertAtBack_spec [of ser "[]", OF _ wf(1,3)] by auto
    obtain d where d: "seq_insertAtBack (r_data n) c = Inr d" "wf_seq ser d" "seq_bits ser d = seq_bits ser c @ chunk_bits ser (r_data n)"
      by (rule seq_insertAtBack_spec [OF c(2) wf(2,4)])
    have m: "mergeRegions p n = Inr (Some \<lparr>r_offset = r_offset p, r_data = SequenceChunk d\<rparr>, None)"
      using True 3 c(1) d(1) by (cases p) (simp add: mergeRegions_def)
    show thesis by (rule that(2) [OF True J [OF d(2)] disjI1 [OF m]]) (simp add: d(3) c(3))
  qed
next
  case False
  then show thesis using that(1) le by (simp add: mergeRegions_def)
qed

lemma erase_simps [simp]:
  "eraseEmptyRegions [] = []" "eraseEmptyRegions (None # rs) = eraseEmptyRegions rs" "eraseEmptyRegions (Some r # rs) = r # eraseEmptyRegions rs"
  by (simp_all add: eraseEmptyRegions_def)

lemma erase_middle [simp]: "eraseEmptyRegions [x, None, y] = eraseEmptyRegions [x, y]"
  by (simp add: eraseEmptyRegions_def)

lemma merge_two:
  assumes p: "wf_region ser p" and n: "wf_region ser n" and le: "getEndOffset p \<le> getStartOffset n"
  obtains x y where "mergeRegions p n = Inr (x, y)" and "merged ser [p, n] (eraseEmptyRegions [x, y])"
proof (cases rule: mergeRegions_spec [OF p n le])
  case 1
  then show thesis using that p n wf_region_less [OF p] wf_region_less [OF n] by (auto simp: merged_def)
next
  case (2 z)
  have "merged ser [p, n] [z]" using 2(2) by (auto simp: merged_def joined_def split: option.splits)
  then show thesis using that 2(3) by auto
qed

lemma merge_three:
  assumes p: "wf_region ser p" and r: "wf_region ser r" and n: "wf_region ser n"
    and le: "getEndOffset p \<le> getStartOffset r" "getEndOffset r \<le> getStartOffset n" and i: "0 < i" "i < length rs" "rs ! (i - 1) = p" "rs ! i = n"
  obtains zs where "insert_region i r rs = Inr (take (i - 1) rs @ zs @ drop (i + 1) rs)" and "merged ser [p, r, n] zs"
proof (cases rule: mergeRegions_spec [OF p r le(1)])
  case 1
  obtain x y where m: "mergeRegions r n = Inr (x, y)" "merged ser [r, n] (eraseEmptyRegions [x, y])"
    by (rule merge_two [OF r n le(2)])
  have "merged ser [p, r, n] (p # eraseEmptyRegions [x, y])"
    using m(2) 1(1) p wf_region_less [OF p] wf_region_less [OF r] wf_region_less [OF n] le(2) by (fastforce simp: merged_def split: option.splits)
  then show thesis using that [of "p # eraseEmptyRegions [x, y]"] 1(2) m(1) i by (simp add: insert_region_def)
next
  case (2 z)
  have z: "wf_region ser z" "getEndOffset z \<le> getStartOffset n" using 2(2) le(2) by (simp_all add: joined_def)
  obtain x y where m: "mergeRegions z n = Inr (x, y)" "merged ser [z, n] (eraseEmptyRegions [x, y])"
    by (rule merge_two [OF z(1) n z(2)])
  have "bit_at ser [z, n] j = bit_at ser [p, r, n] j" for j using 2(2) by (auto simp: joined_def split: option.splits)
  then have "merged ser [p, r, n] (eraseEmptyRegions [x, y])"
    using m(2) 2(2) by (simp add: merged_def joined_def)
  then show thesis using that [of "eraseEmptyRegions [x, y]"] 2(3) m(1) i by (auto simp: insert_region_def)
qed

section \<open>Replacing and clearing\<close>

lemma merged_between:
  assumes m: "merged ser ps zs" and ok: "regions_ok ser xs" "regions_ok ser ys"
    and x: "\<forall>x\<in>set xs. getEndOffset x < getStartOffset (hd ps)" and y: "\<forall>y\<in>set ys. getEndOffset (last ps) < getStartOffset y"
    and p: "getStartOffset (hd ps) \<le> getEndOffset (last ps)"
  shows "regions_ok ser (xs @ zs @ ys)" and "bit_at ser (xs @ zs @ ys) i = bit_at ser (xs @ ps @ ys) i"
  using assms unfolding regions_ok_append merged_def by (force, auto simp: bit_at_append split: option.splits)

text \<open>The bits of a list in which one region lies outside the others.\<close>

lemma bit_at_insert:
  assumes "\<forall>r\<in>set (xs @ ys). outside new r"
  shows "bit_at ser (xs @ new # ys) i = (if getStartOffset new \<le> i \<and> i < getEndOffset new then region_bit ser new i else bit_at ser (xs @ ys) i)"
proof (cases "getStartOffset new \<le> i \<and> i < getEndOffset new")
  case True
  have "bit_at ser xs i = None" unfolding bit_at_None
  proof
    fix r assume "r \<in> set xs"
    then have "outside new r" using assms by simp
    then show "\<not> (getStartOffset r \<le> i \<and> i < getEndOffset r)" using True unfolding outside_def by linarith
  qed
  then show ?thesis using True by (auto simp: bit_at_append region_bit_def split: option.splits)
next
  case False
  then have "region_bit ser new i = None" by (simp add: region_bit_def)
  then show ?thesis using False by (auto simp: bit_at_append split: option.splits)
qed

theorem ChunkBuffer_replace_spec:
  assumes ok: "regions_ok ser rs" and c: "wf_chunk ser c" "0 < getChunkLength c" and off: "0 \<le> off" "8 dvd off"
  obtains rs' where "ChunkBuffer_replace off c rs = Inr rs'" and "regions_ok ser rs'" and "rs' \<noteq> []"
    and "\<And>i. bit_at ser rs' i = (if off \<le> i \<and> i < off + getChunkLength c then Some (chunk_bits ser c ! nat (i - off)) else bit_at ser rs i)"
proof -
  define new where "new = \<lparr>r_offset = off, r_data = c\<rparr>"
  have new: "wf_region ser new" using c off by (simp add: new_def wf_region_def)
  have e: "getStartOffset new = off" "getEndOffset new = off + getChunkLength c" by (simp_all add: new_def getStartOffset_def getEndOffset_def)
  note nl = wf_region_less [OF new]
  obtain qs where q: "sliceRegions new rs = Inr qs" "regions_ok ser qs" "\<forall>r\<in>set qs. outside new r"
      "\<And>i. bit_at ser qs i = (if getStartOffset new \<le> i \<and> i < getEndOffset new then None else bit_at ser rs i)"
    using sliceRegions_spec [OF ok nl] wf_region_dvd [OF new] by blast
  have rb: "region_bit ser new i = Some (chunk_bits ser c ! nat (i - off))" if "off \<le> i \<and> i < off + getChunkLength c" for i
    using that by (simp add: region_bit_def e) (simp add: new_def)
  have bits: "bit_at ser (xs @ new # ys) i = (if off \<le> i \<and> i < off + getChunkLength c then Some (chunk_bits ser c ! nat (i - off)) else bit_at ser rs i)"
    if "qs = xs @ ys" for xs ys i
  proof -
    have "\<forall>r\<in>set (xs @ ys). outside new r" using q(3) that by simp
    from bit_at_insert [OF this, of ser i] show ?thesis using rb q(4) [of i] by (simp add: that e)
  qed
  have start: "ChunkBuffer_replace off c rs = (if qs = [] then Inr [new]
      else if getEndOffset (last qs) \<le> off then ebind (mergeRegions (last qs) new) (\<lambda>(previous, region). Inr (butlast qs @ eraseEmptyRegions [previous, region]))
      else if getEndOffset new \<le> getStartOffset (hd qs) then ebind (mergeRegions new (hd qs)) (\<lambda>(region, nxt). Inr (eraseEmptyRegions [region, nxt] @ tl qs))
      else insert_region (length (takeWhile (\<lambda>r. \<not> getStartOffset new < getStartOffset r) qs)) new qs)"
    using c off q(1) by (simp add: ChunkBuffer_replace_def CHUNK_CHECK_USAGE_def Let_def e(2) flip: new_def)
  consider "qs = []" | "qs \<noteq> []" "getEndOffset (last qs) \<le> off" | "qs \<noteq> []" "\<not> getEndOffset (last qs) \<le> off" "getEndOffset new \<le> getStartOffset (hd qs)"
    | "qs \<noteq> []" "\<not> getEndOffset (last qs) \<le> off" "\<not> getEndOffset new \<le> getStartOffset (hd qs)" by blast
  then show thesis
  proof cases
    case 1
    then show thesis using that [of "[new]"] start new bits [of "[]" "[]"] by simp
  next
    case 2
    have split: "qs = butlast qs @ [last qs]" using 2(1) by simp
    have w: "wf_region ser (last qs)" using regions_ok_wf [OF q(2)] 2(1) by simp
    obtain x y where m: "mergeRegions (last qs) new = Inr (x, y)" "merged ser [last qs, new] (eraseEmptyRegions [x, y])"
      by (rule merge_two [OF w new]) (use 2(2) e in simp)
    have b: "regions_ok ser (butlast qs)" "\<forall>x\<in>set (butlast qs). getEndOffset x < getStartOffset (last qs)"
      using q(2) split by (metis regions_ok_append, metis (no_types, lifting) list.set_intros(1) regions_ok_append)
    have "getStartOffset (last qs) \<le> getEndOffset new" using 2(2) e wf_region_less [OF w] nl by simp
    then have z: "regions_ok ser (butlast qs @ eraseEmptyRegions [x, y])" "\<And>i. bit_at ser (butlast qs @ eraseEmptyRegions [x, y]) i = bit_at ser (butlast qs @ [last qs, new]) i"
      using merged_between [OF m(2) b(1), of "[]"] b(2) by simp_all
    have "butlast qs @ [last qs, new] = qs @ [new]" using split by (metis append_Cons append_Nil append_assoc)
    then have "bit_at ser (butlast qs @ eraseEmptyRegions [x, y]) j = bit_at ser (qs @ [new]) j" for j unfolding z(2) by (rule arg_cong)
    then show thesis using that [OF _ z(1)] start 2 m bits [of qs "[]"] by (simp add: merged_def del: bit_at.simps)
  next
    case 3
    have split: "qs = hd qs # tl qs" using 3(1) by simp
    have w: "wf_region ser (hd qs)" using regions_ok_wf [OF q(2)] 3(1) by simp
    obtain x y where m: "mergeRegions new (hd qs) = Inr (x, y)" "merged ser [new, hd qs] (eraseEmptyRegions [x, y])"
      by (rule merge_two [OF new w 3(3)])
    have b: "regions_ok ser (tl qs)" "\<forall>x\<in>set (tl qs). getEndOffset (hd qs) < getStartOffset x"
      using q(2) split by (metis regions_ok.simps(2))+
    have "getStartOffset new \<le> getEndOffset (hd qs)" using 3(3) wf_region_less [OF w] nl by simp
    then have z: "regions_ok ser (eraseEmptyRegions [x, y] @ tl qs)" "\<And>i. bit_at ser (eraseEmptyRegions [x, y] @ tl qs) i = bit_at ser ([new, hd qs] @ tl qs) i"
      using merged_between [OF m(2) _ b(1), of "[]"] b(2) by simp_all
    have "[new, hd qs] @ tl qs = [] @ new # qs" using split by simp
    then have "bit_at ser (eraseEmptyRegions [x, y] @ tl qs) j = bit_at ser ([] @ new # qs) j" for j unfolding z(2) by (rule arg_cong)
    then show thesis using that [OF _ z(1)] start 3 m bits [of "[]" qs] by (simp add: merged_def del: bit_at.simps)
  next
    case 4
    let ?P = "\<lambda>r. \<not> getStartOffset new < getStartOffset r"
    define i where "i = length (takeWhile ?P qs)"
    have out: "outside new (hd qs)" "outside new (last qs)" using q(3) 4(1) by simp_all
    have hd: "?P (hd qs)" using out(1) 4(3) nl wf_region_less [OF regions_ok_wf [OF q(2) hd_in_set [OF 4(1)]]] unfolding outside_def by linarith
    have last: "\<not> ?P (last qs)" using out(2) 4(2) nl e unfolding outside_def by linarith
    have il: "i < length qs"
    proof (rule ccontr)
      assume "\<not> i < length qs"
      then have "takeWhile ?P qs = qs" unfolding i_def by (metis length_takeWhile_le linorder_not_less order_antisym takeWhile_eq_all_conv takeWhile_eq_take take_all)
      then show False using last last_in_set [OF 4(1)] by (metis takeWhile_eq_all_conv)
    qed
    have i0: "0 < i" using hd 4(1) unfolding i_def by (cases qs) auto
    have at: "\<not> ?P (qs ! i)" using nth_length_takeWhile [of ?P qs] il unfolding i_def by simp
    have before: "?P (qs ! (i - 1))" using takeWhile_index [of "i - 1" ?P qs] i0 unfolding i_def by simp
    have ip: "i - 1 < length qs" using il by simp
    have wp: "wf_region ser (qs ! (i - 1))" "wf_region ser (qs ! i)" using regions_ok_wf [OF q(2)] il ip by simp_all
    have le: "getEndOffset (qs ! (i - 1)) \<le> getStartOffset new" "getEndOffset new \<le> getStartOffset (qs ! i)"
      using bspec [OF q(3) nth_mem [OF ip]] bspec [OF q(3) nth_mem [OF il]] before at wp [THEN wf_region_less] nl unfolding outside_def by linarith+
    obtain zs where z: "insert_region i new qs = Inr (take (i - 1) qs @ zs @ drop (i + 1) qs)" "merged ser [qs ! (i - 1), new, qs ! i] zs"
      by (rule merge_three [OF wp(1) new wp(2) le i0 il]) simp_all
    have split: "qs = take (i - 1) qs @ [qs ! (i - 1), qs ! i] @ drop (i + 1) qs"
      using id_take_nth_drop [OF ip] Cons_nth_drop_Suc [OF il] i0 by simp
    have ok': "regions_ok ser (take (i - 1) qs)" "regions_ok ser (drop (i + 1) qs)"
        "\<forall>x\<in>set (take (i - 1) qs). getEndOffset x < getStartOffset (qs ! (i - 1))" "\<forall>y\<in>set (drop (i + 1) qs). getEndOffset (qs ! i) < getStartOffset y"
      using subst [OF split, of "regions_ok ser", OF q(2)] unfolding regions_ok_append by auto
    have lo: "getStartOffset (qs ! (i - 1)) \<le> getEndOffset (qs ! i)" using le wp [THEN wf_region_less] nl by simp
    have "regions_ok ser (take (i - 1) qs @ zs @ drop (i + 1) qs)"
      and "bit_at ser (take (i - 1) qs @ zs @ drop (i + 1) qs) j = bit_at ser (take (i - 1) qs @ [qs ! (i - 1), new, qs ! i] @ drop (i + 1) qs) j" for j
      using merged_between [OF z(2) ok'(1,2)] ok'(3,4) lo by simp_all
    moreover have "take (i - 1) qs @ [qs ! (i - 1), new, qs ! i] @ drop (i + 1) qs = (take (i - 1) qs @ [qs ! (i - 1)]) @ new # (qs ! i # drop (i + 1) qs)"
      by simp
    moreover have "qs = (take (i - 1) qs @ [qs ! (i - 1)]) @ (qs ! i # drop (i + 1) qs)" using split by simp
    ultimately have r: "regions_ok ser (take (i - 1) qs @ zs @ drop (i + 1) qs)"
        "bit_at ser (take (i - 1) qs @ zs @ drop (i + 1) qs) j = (if off \<le> j \<and> j < off + getChunkLength c then Some (chunk_bits ser c ! nat (j - off)) else bit_at ser rs j)" for j
      using bits by metis+
    have "ChunkBuffer_replace off c rs = insert_region i new qs" using start 4 by (simp add: i_def)
    moreover have "take (i - 1) qs @ zs @ drop (i + 1) qs \<noteq> []" using z(2) by (simp add: merged_def)
    ultimately show thesis using that [OF _ r(1) _ r(2)] z(1) by simp
  qed
qed


lemma erase_exact_spec: "erase_exact off len rs = Some rs' \<Longrightarrow> \<exists>xs r ys. rs = xs @ r # ys \<and> rs' = xs @ ys \<and> getStartOffset r = off \<and> getEndOffset r = off + len"
proof (induction rs arbitrary: rs')
  case (Cons a rs)
  show ?case
  proof (cases "r_offset a = off \<and> getChunkLength (r_data a) = len")
    case True
    then show ?thesis using Cons.prems by (intro exI [of _ "[]"] exI [of _ a] exI [of _ rs]) (simp add: getStartOffset_def getEndOffset_def)
  next
    case False
    then obtain ts where "erase_exact off len rs = Some ts" "rs' = a # ts" using Cons.prems by auto
    then obtain xs r ys where "rs = xs @ r # ys" "ts = xs @ ys" "getStartOffset r = off" "getEndOffset r = off + len" using Cons.IH by blast
    then show ?thesis using \<open>rs' = a # ts\<close> by (intro exI [of _ "a # xs"] exI [of _ r] exI [of _ ys]) simp
  qed
qed simp

theorem ChunkBuffer_clear_spec:
  assumes ok: "regions_ok ser rs" and n: "0 \<le> off" "8 dvd off" "0 < len" "8 dvd len"
  obtains rs' where "ChunkBuffer_clear off len rs = Inr rs'" and "regions_ok ser rs'"
    and "\<And>i. bit_at ser rs' i = (if off \<le> i \<and> i < off + len then None else bit_at ser rs i)"
proof (cases "erase_exact off len rs")
  case None
  define new :: "'a BufRegion" where "new = \<lparr>r_offset = off, r_data = Elem (ByteCountChunk (len div 8) 63)\<rparr>"
  have e: "getStartOffset new = off" "getEndOffset new = off + len" using n by (simp_all add: new_def getStartOffset_def getEndOffset_def)
  have d: "8 dvd off + len" using n by (intro dvd_add)
  obtain rs' where s: "sliceRegions new rs = Inr rs'" "regions_ok ser rs'"
      "\<And>i. bit_at ser rs' i = (if off \<le> i \<and> i < off + len then None else bit_at ser rs i)"
    by (rule sliceRegions_spec [OF ok, of new, unfolded e]) (use n d in auto)
  have "ChunkBuffer_clear off len rs = sliceRegions new rs"
    using None n by (simp add: ChunkBuffer_clear_def CHUNK_CHECK_USAGE_def ByteCountChunk_new_def to_B_dvd new_def pos_imp_zdiv_nonneg_iff)
  then show thesis using that s by simp
next
  case (Some rs')
  then obtain xs r ys where r: "rs = xs @ r # ys" "rs' = xs @ ys" "getStartOffset r = off" "getEndOffset r = off + len"
    using erase_exact_spec by blast
  have ok': "regions_ok ser rs'" using ok r(1,2) by (auto simp: regions_ok_append)
  have "\<forall>s\<in>set (xs @ ys). outside r s"
    using ok r(1) by (auto simp: regions_ok_append outside_def intro: less_imp_le)
  from bit_at_insert [OF this, of ser] have "bit_at ser rs i = (if off \<le> i \<and> i < off + len then region_bit ser r i else bit_at ser rs' i)" for i
    using r by simp
  moreover have "bit_at ser rs' i = None" if "off \<le> i \<and> i < off + len" for i
    using \<open>\<forall>s\<in>set (xs @ ys). outside r s\<close> that r unfolding bit_at_None outside_def by fastforce
  moreover have "ChunkBuffer_clear off len rs = Inr rs'" using Some n by (simp add: ChunkBuffer_clear_def CHUNK_CHECK_USAGE_def)
  ultimately show thesis using that ok' by simp
qed

section \<open>Regions are maximal\<close>

text \<open>A region lies where the map is defined, and the map ends with it.\<close>

lemma region_maximal:
  assumes ok: "regions_ok ser rs" and r: "r \<in> set rs"
  shows "getStartOffset r \<le> i \<Longrightarrow> i < getEndOffset r \<Longrightarrow> bit_at ser rs i \<noteq> None"
    and "bit_at ser rs (getEndOffset r) = None" and "bit_at ser rs (getStartOffset r - 1) = None"
proof -
  show "bit_at ser rs i \<noteq> None" if "getStartOffset r \<le> i" "i < getEndOffset r" using r that by (auto simp: bit_at_None)
  obtain xs ys where rs: "rs = xs @ r # ys" using r by (meson split_list)
  have o: "\<forall>x\<in>set xs. getEndOffset x < getStartOffset r" "\<forall>y\<in>set ys. getEndOffset r < getStartOffset y" and w: "wf_region ser r"
    using ok unfolding rs regions_ok_append by auto
  have "\<forall>x\<in>set rs. wf_region ser x" using regions_ok_wf [OF ok] by blast
  then have l: "\<forall>x\<in>set rs. getStartOffset x < getEndOffset x" using wf_region_less by blast
  show "bit_at ser rs (getEndOffset r) = None" using o l wf_region_less [OF w] unfolding bit_at_None rs by fastforce
  show "bit_at ser rs (getStartOffset r - 1) = None" using o l wf_region_less [OF w] unfolding bit_at_None rs by fastforce
qed

lemma region_content:
  assumes ok: "regions_ok ser rs" and r: "r \<in> set rs" and i: "getStartOffset r \<le> i" "i < getEndOffset r"
  shows "bit_at ser rs i = Some (chunk_bits ser (r_data r) ! nat (i - getStartOffset r))"
proof -
  obtain xs ys where rs: "rs = xs @ r # ys" using r by (meson split_list)
  have "\<forall>s\<in>set (xs @ ys). outside r s" using ok unfolding rs regions_ok_append outside_def by (auto intro: less_imp_le)
  from bit_at_insert [OF this, of ser i] show ?thesis using i by (simp add: rs region_bit_def)
qed

text \<open>The first region begins where the map does.\<close>

lemma first_region:
  assumes "regions_ok ser rs" and "bit_at ser rs i \<noteq> None"
  shows "rs \<noteq> [] \<and> getStartOffset (hd rs) \<le> i"
  using assms
proof (induction rs)
  case (Cons r rs)
  have l: "getStartOffset r < getEndOffset r" "\<forall>s\<in>set rs. getEndOffset r < getStartOffset s"
    using Cons.prems(1) wf_region_less [of ser r] by simp_all
  obtain s where s: "s \<in> set (r # rs)" "getStartOffset s \<le> i" using Cons.prems(2) unfolding bit_at_None by blast
  then have "getStartOffset r \<le> i" using l by force
  then show ?case by simp
qed simp

section \<open>Data of one stream\<close>

text \<open>
  What the users of the buffer rely on: storing the pieces of a stream in any order, repeatedly and overlapping,
  gives exactly the pieces of the stream.
\<close>

locale stream_store =
  fixes ok :: "'s \<Rightarrow> bool" and view :: "'s \<Rightarrow> int \<Rightarrow> bool option" and store :: "int \<Rightarrow> 'c \<Rightarrow> 's \<Rightarrow> error + 's"
    and good :: "'c \<Rightarrow> bool" and bits :: "'c \<Rightarrow> bool list"
  assumes store_ok: "ok s \<Longrightarrow> good c \<Longrightarrow> 0 \<le> off \<Longrightarrow> 8 dvd off \<Longrightarrow> \<exists>s'. store off c s = Inr s' \<and> ok s'
     \<and> (\<forall>i. view s' i = (if off \<le> i \<and> i < off + int (length (bits c)) then Some (bits c ! nat (i - off)) else view s i))"
begin

definition piece :: "(int \<Rightarrow> bool option) \<Rightarrow> int \<Rightarrow> 'c \<Rightarrow> bool" where
  "piece stream off c \<longleftrightarrow> good c \<and> 0 \<le> off \<and> 8 dvd off \<and> (\<forall>j<length (bits c). stream (off + int j) = Some (bits c ! j))"

lemma store_piece:
  assumes "ok s" and "view s \<subseteq>\<^sub>m stream" and "piece stream off c"
  obtains s' where "store off c s = Inr s'" and "ok s'" and "view s' \<subseteq>\<^sub>m stream"
    and "dom (view s') = dom (view s) \<union> {off..<off + int (length (bits c))}"
proof -
  have c: "good c" "0 \<le> off" "8 dvd off" using assms(3) by (auto simp: piece_def)
  obtain s' where s': "store off c s = Inr s'" "ok s'"
      "\<And>i. view s' i = (if off \<le> i \<and> i < off + int (length (bits c)) then Some (bits c ! nat (i - off)) else view s i)"
    using store_ok [OF assms(1) c] by blast
  have "stream i = Some (bits c ! nat (i - off))" if "off \<le> i \<and> i < off + int (length (bits c))" for i
  proof -
    have "nat (i - off) < length (bits c)" "off + int (nat (i - off)) = i" using that by auto
    then show ?thesis using assms(3) by (metis piece_def)
  qed
  then have "view s' \<subseteq>\<^sub>m stream" using assms(2) by (auto simp: map_le_def s'(3) dom_def split: if_splits)
  moreover have "dom (view s') = dom (view s) \<union> {off..<off + int (length (bits c))}" by (auto simp: s'(3) split: if_splits)
  ultimately show thesis using that s' by blast
qed

fun store_all :: "(int \<times> 'c) list \<Rightarrow> 's \<Rightarrow> error + 's" where
  "store_all [] s = Inr s"
| "store_all ((off, c) # ps) s = ebind (store off c s) (store_all ps)"

lemma store_all_pieces:
  assumes "ok s" and "view s \<subseteq>\<^sub>m stream" and "\<forall>(off, c)\<in>set ps. piece stream off c"
  shows "\<exists>s'. store_all ps s = Inr s' \<and> ok s' \<and> view s' \<subseteq>\<^sub>m stream
     \<and> dom (view s') = dom (view s) \<union> (\<Union>(off, c)\<in>set ps. {off..<off + int (length (bits c))})"
  using assms
proof (induction ps arbitrary: s)
  case (Cons p ps)
  obtain off c where p: "p = (off, c)" by fastforce
  obtain t where t: "store off c s = Inr t" "ok t" "view t \<subseteq>\<^sub>m stream" "dom (view t) = dom (view s) \<union> {off..<off + int (length (bits c))}"
    using store_piece [OF Cons.prems(1,2), of off c] Cons.prems(3) p by auto
  then show ?case using Cons.IH [OF t(2,3)] Cons.prems(3) p by auto
qed simp

end

interpretation chunk_store: stream_store "regions_ok ser" "bit_at ser" ChunkBuffer_replace
    "\<lambda>c. wf_chunk ser c \<and> 0 < getChunkLength c" "chunk_bits ser" for ser
proof unfold_locales
  show "\<exists>s'. ChunkBuffer_replace off c s = Inr s' \<and> regions_ok ser s'
      \<and> (\<forall>i. bit_at ser s' i = (if off \<le> i \<and> i < off + int (length (chunk_bits ser c)) then Some (chunk_bits ser c ! nat (i - off)) else bit_at ser s i))"
    if s: "regions_ok ser s" and c: "wf_chunk ser c \<and> 0 < getChunkLength c" and off: "0 \<le> off" "8 dvd off" for s c off
  proof -
    obtain s' where "ChunkBuffer_replace off c s = Inr s'" "regions_ok ser s'"
        "\<And>i. bit_at ser s' i = (if off \<le> i \<and> i < off + getChunkLength c then Some (chunk_bits ser c ! nat (i - off)) else bit_at ser s i)"
      using ChunkBuffer_replace_spec [OF s] c off by blast
    then show ?thesis using length_chunk_bits [of ser c] c by simp
  qed
qed

section \<open>Refinement of a partial map\<close>

definition chunk_map :: "('f \<Rightarrow> bool list) \<Rightarrow> int \<Rightarrow> 'f chunk \<Rightarrow> int \<Rightarrow> bool option" where
  "chunk_map ser off c i = (if off \<le> i \<and> i < off + getChunkLength c then Some (chunk_bits ser c ! nat (i - off)) else None)"

text \<open>(C21) The out-of-order buffer is a partial map from offsets to bits: storing a chunk overwrites its range, clearing
  restricts the map to the rest, and both keep the regions apart; a region is a maximal stretch on which the map is defined.\<close>

theorem chunk_buffer_refines_map:
  assumes "regions_ok ser rs" and "wf_chunk ser c" and "0 < getChunkLength c" and "0 \<le> off" and "8 dvd off"
    and n: "0 < n" "8 dvd n"
  shows "(\<exists>rs'. ChunkBuffer_replace off c rs = Inr rs' \<and> regions_ok ser rs' \<and> bit_at ser rs' = bit_at ser rs ++ chunk_map ser off c)
    \<and> (\<exists>rs'. ChunkBuffer_clear off n rs = Inr rs' \<and> regions_ok ser rs' \<and> bit_at ser rs' = bit_at ser rs |` (- {off..<off + n}))
    \<and> (\<forall>r\<in>set rs. (\<forall>i. getStartOffset r \<le> i \<and> i < getEndOffset r \<longrightarrow> bit_at ser rs i = Some (chunk_bits ser (r_data r) ! nat (i - getStartOffset r)))
         \<and> bit_at ser rs (getStartOffset r - 1) = None \<and> bit_at ser rs (getEndOffset r) = None)"
proof (intro conjI ballI allI impI)
  show "\<exists>rs'. ChunkBuffer_replace off c rs = Inr rs' \<and> regions_ok ser rs' \<and> bit_at ser rs' = bit_at ser rs ++ chunk_map ser off c"
    by (rule ChunkBuffer_replace_spec [OF assms(1-5)]) (auto simp: fun_eq_iff chunk_map_def map_add_def)
  show "\<exists>rs'. ChunkBuffer_clear off n rs = Inr rs' \<and> regions_ok ser rs' \<and> bit_at ser rs' = bit_at ser rs |` (- {off..<off + n})"
    by (rule ChunkBuffer_clear_spec [OF assms(1,4,5) n]) (auto simp: fun_eq_iff restrict_map_def)
qed (use region_content [OF assms(1)] region_maximal [OF assms(1)] in blast)+

theorem chunk_buffer_refines_map_witness:
  "\<exists>rs'. ChunkBuffer_replace 8 (Elem (BytesChunk [7])) [\<lparr>r_offset = 0, r_data = Elem (BytesChunk [1, 2])\<rparr>] = Inr rs'
     \<and> bit_at (\<lambda>_ :: unit. []) rs' 15 = Some True"
  using chunk_buffer_refines_map [of "\<lambda>_ :: unit. []" "[\<lparr>r_offset = 0, r_data = Elem (BytesChunk [1, 2])\<rparr>]" "Elem (BytesChunk [7])" 8 8]
  by (auto simp: wf_region_def chunk_map_def byte_bits_def rev_nth)

end
