(* ===== verification/Packet.thy ===== *)
theory Packet
  imports ChunkSeq
begin

text \<open>
  Packets (\<open>common/packet/Packet\<close>) and chunk queues (\<open>common/packet/ChunkQueue\<close>) of the INET framework. A packet is
  a chunk with an iterator from each end: headers are popped by moving the front iterator, trailers by moving
  the back iterator, and the data part lies between them. A queue is a chunk with one iterator. Peeking
  uses no flags, so an empty result is an error. Conversions to other chunk types, tags and the packet fields of OMNeT++ are left out.
\<close>

section \<open>Packets\<close>

record 'f Packet =
  content :: "'f chunk"
  frontIterator :: Iterator
  backIterator :: Iterator
  totalLength :: int

definition front_begin :: Iterator where
  "front_begin = \<lparr>isForward = True, position = 0, index = 0\<rparr>"

definition back_begin :: Iterator where
  "back_begin = \<lparr>isForward = False, position = 0, index = 0\<rparr>"

definition Packet_new :: "'f Packet" where
  "Packet_new = \<lparr>content = EmptyChunk, frontIterator = front_begin, backIterator = back_begin, totalLength = 0\<rparr>"

definition Packet_with :: "'f chunk \<Rightarrow> 'f Packet" where
  "Packet_with c = \<lparr>content = c, frontIterator = front_begin, backIterator = back_begin, totalLength = getChunkLength c\<rparr>"

definition getDataLength :: "'f Packet \<Rightarrow> int" where
  "getDataLength p = totalLength p - position (frontIterator p) - position (backIterator p)"

definition setFrontOffset :: "int \<Rightarrow> 'f Packet \<Rightarrow> error + 'f Packet" where
  "setFrontOffset offset p =
     CHUNK_CHECK_USAGE (0 \<le> offset \<and> offset \<le> totalLength p - position (backIterator p))
       (ebind (seekIterator (content p) offset (frontIterator p)) (\<lambda>it. Inr (p\<lparr>frontIterator := it\<rparr>)))"

definition setBackOffset :: "int \<Rightarrow> 'f Packet \<Rightarrow> error + 'f Packet" where
  "setBackOffset offset p =
     CHUNK_CHECK_USAGE (position (frontIterator p) \<le> offset)
       (ebind (seekIterator (content p) (totalLength p - offset) (backIterator p)) (\<lambda>it. Inr (p\<lparr>backIterator := it\<rparr>)))"

definition peekAtFront :: "int \<Rightarrow> 'f Packet \<Rightarrow> error + 'f chunk" where
  "peekAtFront len p =
     CHUNK_CHECK_USAGE (- 1 \<le> len \<and> len \<le> getDataLength p)
       (ebind (Chunk_peek (content p) (frontIterator p) len) (\<lambda>chunk.
          if getChunkLength chunk \<le> getDataLength p then Inr chunk
          else Chunk_peek (content p) (frontIterator p) (getDataLength p)))"

definition popAtFront :: "int \<Rightarrow> 'f Packet \<Rightarrow> error + 'f chunk \<times> 'f Packet" where
  "popAtFront len p =
     CHUNK_CHECK_USAGE (- 1 \<le> len \<and> len \<le> getDataLength p)
       (ebind (peekAtFront len p) (\<lambda>chunk.
        ebind (moveIterator (content p) (getChunkLength chunk) (frontIterator p)) (\<lambda>it.
          Inr (chunk, p\<lparr>frontIterator := it\<rparr>))))"

definition peekAtBack :: "int \<Rightarrow> 'f Packet \<Rightarrow> error + 'f chunk" where
  "peekAtBack len p =
     CHUNK_CHECK_USAGE (- 1 \<le> len \<and> len \<le> getDataLength p)
       (ebind (Chunk_peek (content p) (backIterator p) len) (\<lambda>chunk.
          if getChunkLength chunk \<le> getDataLength p then Inr chunk
          else Chunk_peek (content p) (backIterator p) (getDataLength p)))"

definition popAtBack :: "int \<Rightarrow> 'f Packet \<Rightarrow> error + 'f chunk \<times> 'f Packet" where
  "popAtBack len p =
     CHUNK_CHECK_USAGE (- 1 \<le> len \<and> len \<le> getDataLength p)
       (ebind (peekAtBack len p) (\<lambda>chunk.
        ebind (moveIterator (content p) (getChunkLength chunk) (backIterator p)) (\<lambda>it.
          Inr (chunk, p\<lparr>backIterator := it\<rparr>))))"

definition inner_iterator :: "int \<Rightarrow> Iterator" where
  "inner_iterator pos = \<lparr>isForward = True, position = pos, index = - 1\<rparr>"

definition peekDataAt :: "int \<Rightarrow> int \<Rightarrow> 'f Packet \<Rightarrow> error + 'f chunk" where
  "peekDataAt offset len p =
     CHUNK_CHECK_USAGE (0 \<le> offset \<and> offset \<le> getDataLength p)
       (CHUNK_CHECK_USAGE (- 1 \<le> len \<and> offset + len \<le> getDataLength p)
          (Chunk_peek (content p) (inner_iterator (position (frontIterator p) + offset)) len))"

definition peekAt :: "int \<Rightarrow> int \<Rightarrow> 'f Packet \<Rightarrow> error + 'f chunk" where
  "peekAt offset len p =
     CHUNK_CHECK_USAGE (0 \<le> offset \<and> offset \<le> totalLength p)
       (CHUNK_CHECK_USAGE (- 1 \<le> len \<and> offset + len \<le> totalLength p)
          (Chunk_peek (content p) (inner_iterator offset) len))"

text \<open>Both ends: merging a chunk into the content, or making a sequence of both.\<close>

definition join_back :: "'f chunk \<Rightarrow> 'f chunk \<Rightarrow> error + 'f chunk" where
  "join_back c chunk =
     (if canInsertAtBack c chunk then ebind (insertAtBack c chunk) simplify
      else ebind (seq_insertAtBack c []) (\<lambda>es. ebind (seq_insertAtBack chunk es) (\<lambda>es. Inr (SequenceChunk es))))"

definition join_front :: "'f chunk \<Rightarrow> 'f chunk \<Rightarrow> error + 'f chunk" where
  "join_front c chunk =
     (if canInsertAtFront c chunk then ebind (insertAtFront c chunk) simplify
      else ebind (seq_insertAtFront c []) (\<lambda>es. ebind (seq_insertAtFront chunk es) (\<lambda>es. Inr (SequenceChunk es))))"

definition Packet_insertAtBack :: "'f chunk \<Rightarrow> 'f Packet \<Rightarrow> error + 'f Packet" where
  "Packet_insertAtBack chunk p =
     CHUNK_CHECK_USAGE (position (backIterator p) = 0 \<and> (index (backIterator p) = 0 \<or> index (backIterator p) = - 1))
       (if content p = EmptyChunk
        then CHUNK_CHECK_USAGE (getChunkLength chunk > 0) (Inr (p\<lparr>content := chunk, totalLength := getChunkLength chunk\<rparr>))
        else ebind (join_back (content p) chunk) (\<lambda>c.
               Inr (p\<lparr>content := c, totalLength := totalLength p + getChunkLength chunk\<rparr>)))"

definition Packet_insertAtFront :: "'f chunk \<Rightarrow> 'f Packet \<Rightarrow> error + 'f Packet" where
  "Packet_insertAtFront chunk p =
     CHUNK_CHECK_USAGE (position (frontIterator p) = 0 \<and> (index (frontIterator p) = 0 \<or> index (frontIterator p) = - 1))
       (if content p = EmptyChunk
        then CHUNK_CHECK_USAGE (getChunkLength chunk > 0) (Inr (p\<lparr>content := chunk, totalLength := getChunkLength chunk\<rparr>))
        else ebind (join_front (content p) chunk) (\<lambda>c.
               Inr (p\<lparr>content := c, totalLength := totalLength p + getChunkLength chunk\<rparr>)))"

definition eraseAtFront :: "int \<Rightarrow> 'f Packet \<Rightarrow> error + 'f Packet" where
  "eraseAtFront len p =
     CHUNK_CHECK_USAGE (0 \<le> len \<and> len \<le> totalLength p - position (backIterator p))
       (CHUNK_CHECK_USAGE (position (frontIterator p) = 0 \<and> (index (frontIterator p) = 0 \<or> index (frontIterator p) = - 1))
          (ebind (if getChunkLength (content p) = len then Inr EmptyChunk
                  else if canRemoveAtFront (content p) len then removeAtFront len (content p)
                  else Chunk_peek (content p) (Iterator_at len) (getChunkLength (content p) - len)) (\<lambda>c.
             Inr (p\<lparr>content := c, totalLength := totalLength p - len\<rparr>))))"

definition eraseAtBack :: "int \<Rightarrow> 'f Packet \<Rightarrow> error + 'f Packet" where
  "eraseAtBack len p =
     CHUNK_CHECK_USAGE (0 \<le> len \<and> len \<le> totalLength p - position (frontIterator p))
       (CHUNK_CHECK_USAGE (position (backIterator p) = 0 \<and> (index (backIterator p) = 0 \<or> index (backIterator p) = - 1))
          (ebind (if getChunkLength (content p) = len then Inr EmptyChunk
                  else if canRemoveAtFront (content p) len then removeAtBack len (content p)
                  else Chunk_peek (content p) (Iterator_at 0) (getChunkLength (content p) - len)) (\<lambda>c.
             Inr (p\<lparr>content := c, totalLength := totalLength p - len\<rparr>))))"

definition eraseAll :: "'f Packet \<Rightarrow> 'f Packet" where
  "eraseAll p = p\<lparr>content := EmptyChunk, frontIterator := front_begin, backIterator := back_begin, totalLength := 0\<rparr>"

definition trimFront :: "'f Packet \<Rightarrow> error + 'f Packet" where
  "trimFront p = (let len = position (frontIterator p) in ebind (setFrontOffset 0 p) (eraseAtFront len))"

definition trimBack :: "'f Packet \<Rightarrow> error + 'f Packet" where
  "trimBack p = (let len = position (backIterator p) in ebind (setBackOffset (totalLength p) p) (eraseAtBack len))"

definition trim :: "'f Packet \<Rightarrow> error + 'f Packet" where
  "trim p = ebind (trimFront p) trimBack"

definition Packet_removeAtFront :: "int \<Rightarrow> 'f Packet \<Rightarrow> error + 'f chunk \<times> 'f Packet" where
  "Packet_removeAtFront len p =
     CHUNK_CHECK_USAGE (- 1 \<le> len \<and> len \<le> getDataLength p)
       (CHUNK_CHECK_USAGE (position (frontIterator p) = 0)
          (ebind (popAtFront len p) (\<lambda>(chunk, p). ebind (trimFront p) (\<lambda>p. Inr (chunk, p)))))"

definition Packet_removeAtBack :: "int \<Rightarrow> 'f Packet \<Rightarrow> error + 'f chunk \<times> 'f Packet" where
  "Packet_removeAtBack len p =
     CHUNK_CHECK_USAGE (- 1 \<le> len \<and> len \<le> getDataLength p)
       (CHUNK_CHECK_USAGE (position (backIterator p) = 0)
          (ebind (popAtBack len p) (\<lambda>(chunk, p). ebind (trimBack p) (\<lambda>p. Inr (chunk, p)))))"

definition Packet_removeAll :: "'f Packet \<Rightarrow> 'f chunk \<times> 'f Packet" where
  "Packet_removeAll p = (content p, eraseAll p)"

section \<open>Queues\<close>

record 'f ChunkQueue =
  pushedLength :: int
  poppedLength :: int
  q_content :: "'f chunk"
  iterator :: Iterator

definition ChunkQueue_new :: "'f ChunkQueue" where
  "ChunkQueue_new = \<lparr>pushedLength = 0, poppedLength = 0, q_content = EmptyChunk, iterator = front_begin\<rparr>"

definition ChunkQueue_getLength :: "'f ChunkQueue \<Rightarrow> int" where
  "ChunkQueue_getLength q = getChunkLength (q_content q) - position (iterator q)"

definition ChunkQueue_remove :: "int \<Rightarrow> 'f ChunkQueue \<Rightarrow> error + 'f ChunkQueue" where
  "ChunkQueue_remove len q =
     ebind (if getChunkLength (q_content q) = len then Inr EmptyChunk
            else if canRemoveAtFront (q_content q) len then removeAtFront len (q_content q)
            else Chunk_peek (q_content q) (Iterator_at len) (getChunkLength (q_content q) - len)) (\<lambda>c.
     ebind (seekIterator c (position (iterator q) - len) (iterator q)) (\<lambda>it.
       Inr (q\<lparr>q_content := c, iterator := it\<rparr>)))"

definition moveIteratorOrRemove :: "int \<Rightarrow> 'f ChunkQueue \<Rightarrow> error + 'f ChunkQueue" where
  "moveIteratorOrRemove len q =
     ebind (moveIterator (q_content q) len (iterator q)) (\<lambda>it.
       let q = q\<lparr>poppedLength := poppedLength q + len, iterator := it\<rparr> in
       if position it > getChunkLength (q_content q) div 2 then ChunkQueue_remove (position it) q else Inr q)"

definition ChunkQueue_peek :: "int \<Rightarrow> 'f ChunkQueue \<Rightarrow> error + 'f chunk" where
  "ChunkQueue_peek len q =
     CHUNK_CHECK_USAGE (- 1 \<le> len \<and> len \<le> ChunkQueue_getLength q) (Chunk_peek (q_content q) (iterator q) len)"

definition ChunkQueue_peekAt :: "int \<Rightarrow> int \<Rightarrow> 'f ChunkQueue \<Rightarrow> error + 'f chunk" where
  "ChunkQueue_peekAt offset len q =
     CHUNK_CHECK_USAGE (0 \<le> offset \<and> offset \<le> ChunkQueue_getLength q)
       (CHUNK_CHECK_USAGE (- 1 \<le> len \<and> offset + len \<le> ChunkQueue_getLength q)
          (Chunk_peek (q_content q) (inner_iterator (position (iterator q) + offset)) len))"

definition ChunkQueue_pop :: "int \<Rightarrow> 'f ChunkQueue \<Rightarrow> error + 'f chunk \<times> 'f ChunkQueue" where
  "ChunkQueue_pop len q =
     CHUNK_CHECK_USAGE (- 1 \<le> len \<and> len \<le> ChunkQueue_getLength q)
       (ebind (ChunkQueue_peek len q) (\<lambda>chunk.
        ebind (moveIteratorOrRemove (getChunkLength chunk) q) (\<lambda>q. Inr (chunk, q))))"

definition ChunkQueue_clear :: "'f ChunkQueue \<Rightarrow> error + 'f ChunkQueue" where
  "ChunkQueue_clear q =
     ebind (seekIterator (q_content q) 0 (iterator q)) (\<lambda>it.
       Inr (q\<lparr>poppedLength := poppedLength q + ChunkQueue_getLength q, iterator := it, q_content := EmptyChunk\<rparr>))"

definition ChunkQueue_push :: "'f chunk \<Rightarrow> 'f ChunkQueue \<Rightarrow> error + 'f ChunkQueue" where
  "ChunkQueue_push chunk q =
     CHUNK_CHECK_USAGE (getChunkLength chunk > 0)
       (let q = q\<lparr>pushedLength := pushedLength q + getChunkLength chunk\<rparr> in
        if q_content q = EmptyChunk then Inr (q\<lparr>q_content := chunk\<rparr>)
        else if canInsertAtBack (q_content q) chunk
        then ebind (insertAtBack (q_content q) chunk) (\<lambda>c. ebind (simplify c) (\<lambda>c. Inr (q\<lparr>q_content := c\<rparr>)))
        else ebind (seq_insertAtBack (q_content q) []) (\<lambda>es. ebind (seq_insertAtBack chunk es) (\<lambda>es.
             ebind (seekIterator (SequenceChunk es) (position (iterator q)) (iterator q)) (\<lambda>it.
               Inr (q\<lparr>q_content := SequenceChunk es, iterator := it\<rparr>)))))"

end
