(* ===== verification/PacketSpec.thy ===== *)
theory PacketSpec
  imports ChunkSpec Packet
begin

text \<open>
  Correctness of packets and chunk queues: a packet is the bits of its data part, a queue is the bits that
  have not been popped.
\<close>

section \<open>Removing\<close>

lemma drop_part: "0 \<le> k \<Longrightarrow> int (length xs) \<le> k + n \<Longrightarrow> part k n xs = drop (nat k) xs"
  by (auto simp: part_def nat_le_iff)

lemma elem_doRemoveAtFront_spec:
  assumes "wf_elem ser e" and "elem_canRemove e len" and "0 \<le> len" and "len < elem_length e" and "8 dvd len"
  obtains r where "elem_doRemoveAtFront len e = Inr r" and "wf_elem ser r" and "elem_bits ser r = drop (nat len) (elem_bits ser e)"
proof -
  obtain k where k: "len = 8 * k" "0 \<le> k" using assms(3,5) by (auto elim!: dvdE)
  show thesis
  proof (cases e)
    case (BytesChunk bs)
    have "subvector k (int (length bs)) bs = Inr (drop (nat k) bs)" using assms(4) BytesChunk k by (simp add: subvector_def)
    then show thesis using that [of "BytesChunk (drop (nat k) bs)"] BytesChunk k by (simp add: to_B_dvd nat_mult_distrib drop_bytes_bits)
  next
    case (ByteCountChunk n d)
    have "concat (replicate (nat (n - k)) (byte_bits d)) = drop (nat (8 * k)) (concat (replicate (nat n) (byte_bits d)))"
      using k assms(4) ByteCountChunk by (simp add: count_bits_map nat_mult_distrib drop_bytes_bits nat_diff_distrib del: map_replicate)
    then show thesis using that [of "ByteCountChunk (n - k) d"] ByteCountChunk k assms by (simp add: to_B_dvd)
  next
    case (BitsChunk bs)
    have "subvector len (int (length bs)) bs = Inr (drop (nat len) bs)" using assms(3,4) BitsChunk by (simp add: subvector_def)
    moreover have "8 dvd int (length (drop (nat len) bs))" using assms BitsChunk by (simp add: of_nat_diff nat_le_iff)
    ultimately show thesis using that [of "BitsChunk (drop (nat len) bs)"] BitsChunk by simp
  next
    case (BitCountChunk n d)
    then show thesis using that [of "BitCountChunk (n - len) d"] assms by (simp add: nat_diff_distrib)
  qed (use assms(2) in auto)
qed

lemma seq_doRemoveAtFront_spec:
  assumes "wf_seq ser es" and "0 \<le> len" and "len < seq_length es" and "8 dvd len"
  obtains r where "seq_doRemoveAtFront len es = Inr r" and "wf_seq ser r" and "seq_bits ser r = drop (nat len) (seq_bits ser es)"
proof -
  have "\<exists>r. seq_doRemoveAtFront len es = Inr r \<and> wf_seq ser r \<and> seq_bits ser r = drop (nat len) (seq_bits ser es)" using assms
  proof (induction es arbitrary: len)
    case (Cons e es)
    have e: "wf_elem ser e" "0 < elem_length e" using Cons.prems(1) by auto
    note L = length_elem_bits [OF e(1)] and d = wf_elem_dvd [OF e(1)]
    show ?case
    proof (cases "elem_length e \<le> len")
      case True
      have "drop (nat len) (elem_bits ser e @ seq_bits ser es) = drop (nat (len - elem_length e)) (seq_bits ser es)"
        using True arg_cong [OF L, of nat] e(2) by (simp add: nat_diff_distrib)
      moreover have "\<exists>r. seq_doRemoveAtFront (len - elem_length e) es = Inr r \<and> wf_seq ser r \<and> seq_bits ser r = drop (nat (len - elem_length e)) (seq_bits ser es)"
        by (rule Cons.IH) (use Cons.prems True d in auto)
      ultimately show ?thesis using True Cons.prems(1) by (cases "len - elem_length e = 0") auto
    next
      case False
      obtain c where c: "elem_peek e (Iterator_at len) (elem_length e - len) = Inr c" "wf_elem ser c" "elem_length c = elem_length e - len"
          "elem_bits ser c = part len (elem_length e - len) (elem_bits ser e)"
        using elem_peek_spec [OF e(1) Cons.prems(4), of "elem_length e - len"] False Cons.prems d by auto
      have "drop (nat len) (elem_bits ser e @ seq_bits ser es) = elem_bits ser c @ seq_bits ser es"
        using c(4) L False Cons.prems(2) by (simp add: drop_part)
      then show ?thesis using False c Cons.prems(1) by auto
    qed
  qed simp
  then show thesis using that by blast
qed

text \<open>Dropping a front part of a chunk, the way queues and packets do it.\<close>

lemma remove_front_spec:
  assumes c: "wf_chunk ser c" and len: "0 \<le> len" "len < getChunkLength c" "8 dvd len"
  obtains d where "(if canRemoveAtFront c len then removeAtFront len c else Chunk_peek c (Iterator_at len) (getChunkLength c - len)) = Inr d"
    and "wf_chunk ser d" and "chunk_bits ser d = drop (nat len) (chunk_bits ser c)"
proof (cases "canRemoveAtFront c len")
  case True
  show thesis
  proof (cases c)
    case (Elem e)
    obtain r where "elem_doRemoveAtFront len e = Inr r" "wf_elem ser r" "elem_bits ser r = drop (nat len) (elem_bits ser e)"
      by (rule elem_doRemoveAtFront_spec [of ser e len]) (use c len True Elem in auto)
    then show thesis using that [of "Elem r"] True Elem len by (simp add: removeAtFront_def CHUNK_CHECK_USAGE_def)
  next
    case (SequenceChunk es)
    obtain r where "seq_doRemoveAtFront len es = Inr r" "wf_seq ser r" "seq_bits ser r = drop (nat len) (seq_bits ser es)"
      by (rule seq_doRemoveAtFront_spec [of ser es len]) (use c len SequenceChunk in auto)
    then show thesis using that [of "SequenceChunk r"] True SequenceChunk len by (simp add: removeAtFront_def CHUNK_CHECK_USAGE_def)
  qed (use True in auto)
next
  case False
  have "8 dvd getChunkLength c" using c len wf_elem_dvd wf_seq_dvd [of ser] by (cases c) auto
  then obtain d where "Chunk_peek c (Iterator_at len) (getChunkLength c - len) = Inr d" "wf_chunk ser d"
      "chunk_bits ser d = part len (getChunkLength c - len) (chunk_bits ser c)"
    using chunk_peek_spec [OF c, of "Iterator_at len" "getChunkLength c - len"] len by auto
  then show thesis using that False len length_chunk_bits [OF c] by (simp add: drop_part)
qed

section \<open>Iterators\<close>

lemma seek_index_spec:
  assumes "wf_seq ser es" and "p < offset" and "offset \<le> p + seq_length es"
  shows "\<exists>j. seek_index offset p i es = Some j \<and> (j = - 1 \<or> (\<exists>n\<le>length es. j = i + int n \<and> offset = p + seq_length (take n es)))"
  using assms
proof (induction es arbitrary: p i)
  case (Cons e es)
  show ?case
  proof (cases "p + elem_length e < offset")
    case True
    have "\<exists>j. seek_index offset (p + elem_length e) (i + 1) es = Some j
        \<and> (j = - 1 \<or> (\<exists>n\<le>length es. j = i + 1 + int n \<and> offset = p + elem_length e + seq_length (take n es)))"
      by (rule Cons.IH) (use Cons.prems True in auto)
    then obtain j where j: "seek_index offset (p + elem_length e) (i + 1) es = Some j"
        "j = - 1 \<or> (\<exists>n\<le>length es. j = i + 1 + int n \<and> offset = p + elem_length e + seq_length (take n es))" by blast
    from j(2) have "j = - 1 \<or> (\<exists>n\<le>length (e # es). j = i + int n \<and> offset = p + seq_length (take n (e # es)))"
    proof
      assume "\<exists>n\<le>length es. j = i + 1 + int n \<and> offset = p + elem_length e + seq_length (take n es)"
      then obtain n where "n \<le> length es" "j = i + 1 + int n" "offset = p + elem_length e + seq_length (take n es)" by blast
      then show ?thesis by (intro disjI2 exI [of _ "Suc n"]) simp
    qed simp
    then show ?thesis using j(1) True by simp
  next
    case False
    then show ?thesis by (cases "p + elem_length e = offset") (auto simp: Let_def intro!: exI [of _ "Suc 0"])
  qed
qed simp

lemma seekIterator_spec:
  assumes "wf_chunk ser c" and "isForward it" and "0 \<le> pos" and "pos \<le> getChunkLength c"
  obtains it' where "seekIterator c pos it = Inr it'" and "iterator_ok c it'" and "position it' = pos"
proof (cases c)
  case (SequenceChunk es)
  show thesis
  proof (cases "pos = 0")
    case True
    then show thesis using that [of "it\<lparr>position := 0, index := 0\<rparr>"] assms SequenceChunk
      by (simp add: SequenceChunk_seekIterator_def CHUNK_CHECK_USAGE_def)
  next
    case False
    have wf: "wf_seq ser es" using assms(1) SequenceChunk by simp
    obtain j where j: "seek_index pos 0 0 es = Some j" "j = - 1 \<or> (\<exists>n\<le>length es. j = int n \<and> pos = seq_length (take n es))"
      using seek_index_spec [OF wf, of 0 pos 0] assms False SequenceChunk by auto
    then show thesis using that [of "it\<lparr>position := pos, index := j\<rparr>"] assms SequenceChunk False
      by (auto simp: SequenceChunk_seekIterator_def CHUNK_CHECK_USAGE_def from_side_def)
  qed
qed (use that assms in \<open>auto simp: Chunk_seekIterator_def\<close>)

lemma moveIterator_spec:
  assumes "iterator_ok c it"
  obtains it' where "moveIterator c len it = Inr it'" and "iterator_ok c it'" and "position it' = position it + len"
proof (cases c)
  case (SequenceChunk es)
  show thesis
  proof (cases "index it = - 1 \<or> index it = int (length es)")
    case True
    then show thesis using that [of "it\<lparr>position := position it + len, index := - 1\<rparr>"] assms SequenceChunk
      by (auto simp: SequenceChunk_moveIterator_def Let_def)
  next
    case False
    then have i: "0 \<le> index it" "index it < int (length es)" "position it = seq_length (take (nat (index it)) es)" "isForward it"
      using assms SequenceChunk by auto
    let ?j = "if elem_length (es ! nat (index it)) = len then index it + 1 else - 1"
    have "take (nat (index it + 1)) es = take (nat (index it)) es @ [es ! nat (index it)]"
      using i by (simp add: nat_add_distrib take_Suc_conv_app_nth)
    then have "iterator_ok c (it\<lparr>position := position it + len, index := ?j\<rparr>)" using i SequenceChunk by simp
    then show thesis using that [of "it\<lparr>position := position it + len, index := ?j\<rparr>"] i SequenceChunk
      by (simp add: SequenceChunk_moveIterator_def Let_def from_side_def)
  qed
qed (use that assms in \<open>auto simp: Chunk_seekIterator_def\<close>)

section \<open>Queues\<close>

definition queue_ok :: "('f \<Rightarrow> bool list) \<Rightarrow> 'f ChunkQueue \<Rightarrow> bool" where
  "queue_ok ser q \<longleftrightarrow> wf_chunk ser (q_content q) \<and> iterator_ok (q_content q) (iterator q) \<and> isForward (iterator q) \<and> 8 dvd position (iterator q)
     \<and> 0 \<le> position (iterator q) \<and> 2 * position (iterator q) \<le> getChunkLength (q_content q)
     \<and> (if q_content q = EmptyChunk then index (iterator q) = 0 else 0 < getChunkLength (q_content q))"

definition queue_bits :: "('f \<Rightarrow> bool list) \<Rightarrow> 'f ChunkQueue \<Rightarrow> bool list" where
  "queue_bits ser q = drop (nat (position (iterator q))) (chunk_bits ser (q_content q))"

lemma queue_new [simp]: "queue_ok ser ChunkQueue_new" "queue_bits ser ChunkQueue_new = []"
  by (simp_all add: queue_ok_def queue_bits_def ChunkQueue_new_def front_begin_def)

lemma iterator_ok_forward: "iterator_ok c it \<Longrightarrow> isForward it"
  by (cases c) auto

lemma queue_length:
  assumes "queue_ok ser q"
  shows "int (length (queue_bits ser q)) = ChunkQueue_getLength q"
  using assms length_chunk_bits [of ser "q_content q"] by (auto simp: queue_ok_def queue_bits_def ChunkQueue_getLength_def of_nat_diff nat_le_iff)

lemma doInsertChunkAtBack_prefix:
  assumes "doInsertChunkAtBack e es = Inr r"
  shows "length es \<le> length r" and "i < length es \<Longrightarrow> take i r = take i es"
proof -
  have cases: "r = [e] \<and> es = [] \<or> r = es @ [e] \<or> (es \<noteq> [] \<and> (\<exists>l. r = butlast es @ [l]))"
    using assms by (auto simp: doInsertChunkAtBack_def CHUNK_CHECK_USAGE_def ebind_eq_Inr split: if_splits)
  then show "length es \<le> length r" by auto
  show "take i r = take i es" if "i < length es" using cases that by (auto simp: take_butlast)
qed

lemma seq_insertAtBack_prefix:
  assumes "seq_insertAtBack c es = Inr r"
  shows "length es \<le> length r \<and> (\<forall>i<length es. take i r = take i es)"
proof (cases c)
  case (SequenceChunk fs)
  have "doInsertSequenceChunkAtBack fs es = Inr r \<Longrightarrow> length es \<le> length r \<and> (\<forall>i<length es. take i r = take i es)" for fs
  proof (induction fs arbitrary: es)
    case (Cons f fs)
    then obtain s where "doInsertChunkAtBack f es = Inr s" "doInsertSequenceChunkAtBack fs s = Inr r" by (auto simp: ebind_eq_Inr)
    then show ?case using Cons.IH [of s] doInsertChunkAtBack_prefix [of f es s] by (metis le_trans less_le_trans)
  qed auto
  then show ?thesis using assms SequenceChunk by simp
qed (use assms doInsertChunkAtBack_prefix in auto)

lemma push_spec:
  assumes q: "queue_ok ser q" and c: "wf_chunk ser c" "0 < getChunkLength c"
  obtains q' where "ChunkQueue_push c q = Inr q'" and "queue_ok ser q'" and "queue_bits ser q' = queue_bits ser q @ chunk_bits ser c"
proof -
  note goal = that
  let ?old = "q_content q" and ?it = "iterator q"
  have Q: "wf_chunk ser ?old" "iterator_ok ?old ?it" "isForward ?it" "8 dvd position ?it" "0 \<le> position ?it" "2 * position ?it \<le> getChunkLength ?old"
    using q by (simp_all add: queue_ok_def)
  note L = length_chunk_bits [OF Q(1)] length_chunk_bits [OF c(1)]
  have result: thesis
    if "ChunkQueue_push c q = Inr (q\<lparr>pushedLength := n, q_content := d, iterator := it\<rparr>)" "wf_chunk ser d" "chunk_bits ser d = chunk_bits ser ?old @ chunk_bits ser c"
      "iterator_ok d it" "position it = position ?it" for n d it
  proof -
    let ?q = "q\<lparr>pushedLength := n, q_content := d, iterator := it\<rparr>"
    have len: "getChunkLength d = getChunkLength ?old + getChunkLength c" using length_chunk_bits [OF that(2)] that(3) L by simp
    have "queue_ok ser ?q" using that Q len c(2) iterator_ok_forward [OF that(4)] by (auto simp: queue_ok_def)
    moreover have "queue_bits ser ?q = queue_bits ser q @ chunk_bits ser c" using that(3,5) Q(5,6) L(1) by (simp add: queue_bits_def)
    ultimately show thesis by (rule goal [OF that(1)])
  qed
  note push = ChunkQueue_push_def CHUNK_CHECK_USAGE_def
  consider "?old = EmptyChunk" | "?old \<noteq> EmptyChunk" "canInsertAtBack ?old c" | "?old \<noteq> EmptyChunk" "\<not> canInsertAtBack ?old c" by blast
  then show thesis
  proof cases
    case 1
    then have "position ?it = 0" "index ?it = 0" using q Q(5,6) by (simp_all add: queue_ok_def)
    then have "iterator_ok c ?it" using Q(3) by (cases c) simp_all
    then show thesis using 1 c by (intro result [where d = c and it = ?it]) (simp_all add: push)
  next
    case 2
    obtain d where d: "insertAtBack ?old c = Inr d" "wf_chunk ser d" "chunk_bits ser d = chunk_bits ser ?old @ chunk_bits ser c"
      by (rule insertAtBack_spec [OF Q(1) c 2(2)])
    have pos: "0 < getChunkLength d" using length_chunk_bits [OF d(2)] d(3) L c(2) Q(5,6) by simp
    obtain e where e: "simplify d = Inr e" "wf_chunk ser e" "chunk_bits ser e = chunk_bits ser d"
      by (rule simplify_spec [OF d(2) pos])
    have "iterator_ok e ?it"
    proof (cases ?old)
      case (Elem x)
      then obtain y z where "d = Elem y" "e = Elem z" using d(1) e(1) 2(2)
        by (cases c) (auto simp: simplify_def Chunk_peek_def checkPeekResult_def ebind_eq_Inr split: option.splits)
      then show ?thesis using Q(3) by simp
    next
      case (SequenceChunk es)
      obtain fs where fs: "seq_insertAtBack c es = Inr fs" "d = SequenceChunk fs" using d(1) SequenceChunk by (auto simp: ebind_eq_Inr)
      have ed: "e = d" using e(1) pos fs(2)
        by (auto simp: simplify_def Chunk_peek_def SequenceChunk_peekUnchecked_def CHUNK_CHECK_USAGE_def checkPeekResult_def)
      have wf: "wf_seq ser es" using Q(1) SequenceChunk by simp
      have "nat (index ?it) < length es" if "index ?it \<noteq> - 1"
      proof (rule ccontr)
        assume "\<not> nat (index ?it) < length es"
        then have "position ?it = seq_length es" using that Q(2) SequenceChunk by simp
        then show False using q 2(1) Q(5,6) SequenceChunk by (simp add: queue_ok_def)
      qed
      then show ?thesis using Q(2) seq_insertAtBack_prefix [OF fs(1)] SequenceChunk ed fs(2) by auto
    qed (use 2(1) in simp)
    then show thesis using 2 c d e by (intro result [where d = e and it = ?it]) (simp_all add: push)
  next
    case 3
    have pos: "0 < getChunkLength ?old" using q 3(1) by (simp add: queue_ok_def)
    obtain es where es: "seq_insertAtBack ?old [] = Inr es" "wf_seq ser es" "seq_bits ser es = chunk_bits ser ?old"
      using seq_insertAtBack_spec [of ser "[]", OF _ Q(1) pos] by auto
    obtain fs where fs: "seq_insertAtBack c es = Inr fs" "wf_seq ser fs" "seq_bits ser fs = seq_bits ser es @ chunk_bits ser c"
      by (rule seq_insertAtBack_spec [OF es(2) c])
    have "seq_length fs = getChunkLength ?old + getChunkLength c" using length_seq_bits [OF fs(2)] fs(3) es(3) L by simp
    then obtain it where "seekIterator (SequenceChunk fs) (position ?it) ?it = Inr it" "iterator_ok (SequenceChunk fs) it" "position it = position ?it"
      using seekIterator_spec [of ser "SequenceChunk fs" ?it "position ?it"] fs(2) Q(3,5,6) pos c(2) by auto
    then show thesis using 3 c es fs
      by (intro result [where d = "SequenceChunk fs" and it = it]) (simp_all add: push)
  qed
qed

lemma queue_peek_spec:
  assumes q: "queue_ok ser q" and n: "0 < len" "len \<le> ChunkQueue_getLength q" "8 dvd len"
  obtains c where "ChunkQueue_peek len q = Inr c" and "wf_chunk ser c" and "getChunkLength c = len" and "chunk_bits ser c = take (nat len) (queue_bits ser q)"
proof -
  obtain c where c: "Chunk_peek (q_content q) (iterator q) len = Inr c" "wf_chunk ser c"
      "chunk_bits ser c = part (position (iterator q)) len (chunk_bits ser (q_content q))"
    using chunk_peek_spec [of ser "q_content q" "iterator q" len] q n by (auto simp: queue_ok_def ChunkQueue_getLength_def)
  have b: "chunk_bits ser c = take (nat len) (queue_bits ser q)" using c(3) by (simp add: queue_bits_def part_def)
  then have "getChunkLength c = len" using length_chunk_bits [OF c(2)] queue_length [OF q] n by simp
  then show thesis using that c b n by (simp add: ChunkQueue_peek_def CHUNK_CHECK_USAGE_def)
qed

lemma queue_peekAt_spec:
  assumes q: "queue_ok ser q" and n: "0 \<le> off" "8 dvd off" "0 < len" "off + len \<le> ChunkQueue_getLength q" "8 dvd len"
  obtains c where "ChunkQueue_peekAt off len q = Inr c" and "wf_chunk ser c" and "getChunkLength c = len" and "chunk_bits ser c = part off len (queue_bits ser q)"
proof -
  let ?it = "inner_iterator (position (iterator q) + off)"
  have it: "iterator_ok (q_content q) ?it" by (cases "q_content q") (simp_all add: inner_iterator_def)
  have "8 dvd position (iterator q) + off" using q n by (auto simp: queue_ok_def intro: dvd_add)
  then obtain c where c: "Chunk_peek (q_content q) ?it len = Inr c" "wf_chunk ser c"
      "chunk_bits ser c = part (position (iterator q) + off) len (chunk_bits ser (q_content q))"
    using chunk_peek_spec [OF _ it, of ser len] q n by (auto simp: queue_ok_def ChunkQueue_getLength_def inner_iterator_def)
  have b: "chunk_bits ser c = part off len (queue_bits ser q)"
    using c(3) q n by (simp add: queue_bits_def part_def queue_ok_def nat_add_distrib add.commute)
  then have "getChunkLength c = len" using length_chunk_bits [OF c(2)] queue_length [OF q] n
    by (auto simp: part_def)
  then show thesis using that c b n by (simp add: ChunkQueue_peekAt_def CHUNK_CHECK_USAGE_def)
qed

lemma moveIteratorOrRemove_spec:
  assumes q: "queue_ok ser q" and n: "0 < len" "len \<le> ChunkQueue_getLength q" "8 dvd len"
  obtains q' where "moveIteratorOrRemove len q = Inr q'" and "queue_ok ser q'" and "queue_bits ser q' = drop (nat len) (queue_bits ser q)"
proof -
  let ?c = "q_content q"
  have Q: "wf_chunk ser ?c" "iterator_ok ?c (iterator q)" "isForward (iterator q)" "8 dvd position (iterator q)" "0 \<le> position (iterator q)"
    "2 * position (iterator q) \<le> getChunkLength ?c" "?c \<noteq> EmptyChunk" "0 < getChunkLength ?c"
    using q n by (auto simp: queue_ok_def ChunkQueue_getLength_def split: if_splits)
  obtain it where it: "moveIterator ?c len (iterator q) = Inr it" "iterator_ok ?c it" "position it = position (iterator q) + len"
    by (rule moveIterator_spec [OF Q(2)])
  let ?q = "q\<lparr>poppedLength := poppedLength q + len, iterator := it\<rparr>"
  have p: "8 dvd position it" "0 \<le> position it" "position it \<le> getChunkLength ?c"
    using it(3) Q(4,5) n by (auto simp: ChunkQueue_getLength_def intro: dvd_add)
  have bits: "drop (nat len) (queue_bits ser q) = drop (nat (position it)) (chunk_bits ser ?c)"
    using it(3) Q(5) n(1) by (simp add: queue_bits_def nat_add_distrib add.commute)
  show thesis
  proof (cases "position it > getChunkLength ?c div 2")
    case False
    then have "queue_ok ser ?q" using Q it p iterator_ok_forward [OF it(2)] by (auto simp: queue_ok_def)
    then show thesis using that [of ?q] False it(1) bits by (simp add: moveIteratorOrRemove_def queue_bits_def)
  next
    case True
    have m: "moveIteratorOrRemove len q = ChunkQueue_remove (position it) ?q" using True it(1) by (simp add: moveIteratorOrRemove_def)
    show thesis
    proof (cases "position it = getChunkLength ?c")
      case whole: True
      let ?r = "?q\<lparr>q_content := EmptyChunk, iterator := it\<lparr>position := 0, index := 0\<rparr>\<rparr>"
      have "ChunkQueue_remove (position it) ?q = Inr ?r" using whole by (simp add: ChunkQueue_remove_def Chunk_seekIterator_def)
      moreover have "queue_ok ser ?r" using iterator_ok_forward [OF it(2)] by (simp add: queue_ok_def)
      moreover have "queue_bits ser ?r = drop (nat len) (queue_bits ser q)"
        using bits whole length_chunk_bits [OF Q(1)] by (simp add: queue_bits_def)
      ultimately show thesis using that m by simp
    next
      case False
      obtain d where d: "(if canRemoveAtFront ?c (position it) then removeAtFront (position it) ?c
            else Chunk_peek ?c (Iterator_at (position it)) (getChunkLength ?c - position it)) = Inr d"
          "wf_chunk ser d" "chunk_bits ser d = drop (nat (position it)) (chunk_bits ser ?c)"
        by (rule remove_front_spec [OF Q(1) p(2) _ p(1)]) (use p(3) False in simp)
      have len: "0 < getChunkLength d" using length_chunk_bits [OF d(2)] length_chunk_bits [OF Q(1)] d(3) p False by simp
      obtain it' where it': "seekIterator d 0 it = Inr it'" "iterator_ok d it'" "position it' = 0"
        using seekIterator_spec [OF d(2) iterator_ok_forward [OF it(2)], of 0] len by auto
      let ?r = "?q\<lparr>q_content := d, iterator := it'\<rparr>"
      have "ChunkQueue_remove (position it) ?q = Inr ?r" using False d(1) it'(1) by (simp add: ChunkQueue_remove_def split: if_splits)
      moreover have "queue_ok ser ?r" using d(2) it' len iterator_ok_forward [OF it'(2)] by (auto simp: queue_ok_def)
      moreover have "queue_bits ser ?r = drop (nat len) (queue_bits ser q)" using bits d(3) it'(3) by (simp add: queue_bits_def)
      ultimately show thesis using that m by simp
    qed
  qed
qed

lemma pop_spec:
  assumes q: "queue_ok ser q" and n: "0 < len" "len \<le> ChunkQueue_getLength q" "8 dvd len"
  obtains c q' where "ChunkQueue_pop len q = Inr (c, q')" and "wf_chunk ser c" and "chunk_bits ser c = take (nat len) (queue_bits ser q)"
    and "queue_ok ser q'" and "queue_bits ser q' = drop (nat len) (queue_bits ser q)"
proof -
  obtain c where c: "ChunkQueue_peek len q = Inr c" "wf_chunk ser c" "getChunkLength c = len" "chunk_bits ser c = take (nat len) (queue_bits ser q)"
    by (rule queue_peek_spec [OF q n])
  obtain q' where "moveIteratorOrRemove len q = Inr q'" "queue_ok ser q'" "queue_bits ser q' = drop (nat len) (queue_bits ser q)"
    by (rule moveIteratorOrRemove_spec [OF q n])
  then show thesis using that c n by (simp add: ChunkQueue_pop_def CHUNK_CHECK_USAGE_def)
qed

lemma clear_spec:
  assumes q: "queue_ok ser q"
  obtains q' where "ChunkQueue_clear q = Inr q'" and "queue_ok ser q'" and "queue_bits ser q' = []"
proof -
  have Q: "wf_chunk ser (q_content q)" "isForward (iterator q)" using q by (simp_all add: queue_ok_def)
  have "0 \<le> getChunkLength (q_content q)" using length_chunk_bits [OF Q(1)] by simp
  then obtain it where it: "seekIterator (q_content q) 0 (iterator q) = Inr it" "iterator_ok (q_content q) it" "position it = 0"
    using seekIterator_spec [OF Q, of 0] by auto
  have "index it = 0" using it(1) by (cases "q_content q") (auto simp: Chunk_seekIterator_def SequenceChunk_seekIterator_def CHUNK_CHECK_USAGE_def split: if_splits)
  then show thesis using that it iterator_ok_forward [OF it(2)] by (simp add: ChunkQueue_clear_def queue_ok_def queue_bits_def)
qed


section \<open>Packets\<close>

definition packet_ok :: "('f \<Rightarrow> bool list) \<Rightarrow> 'f Packet \<Rightarrow> bool" where
  "packet_ok ser p \<longleftrightarrow> wf_chunk ser (content p) \<and> totalLength p = getChunkLength (content p)
     \<and> iterator_ok (content p) (frontIterator p) \<and> \<not> isForward (backIterator p)
     \<and> 8 dvd position (frontIterator p) \<and> 8 dvd position (backIterator p) \<and> 0 \<le> position (frontIterator p) \<and> 0 \<le> position (backIterator p)
     \<and> position (frontIterator p) + position (backIterator p) \<le> totalLength p \<and> (content p \<noteq> EmptyChunk \<longrightarrow> 0 < totalLength p)"

text \<open>The data part.\<close>

definition data_bits :: "('f \<Rightarrow> bool list) \<Rightarrow> 'f Packet \<Rightarrow> bool list" where
  "data_bits ser p = part (position (frontIterator p)) (getDataLength p) (chunk_bits ser (content p))"

definition at_front :: "'f Packet \<Rightarrow> bool" where
  "at_front p \<longleftrightarrow> position (frontIterator p) = 0 \<and> (index (frontIterator p) = 0 \<or> index (frontIterator p) = - 1)"

definition at_back :: "'f Packet \<Rightarrow> bool" where
  "at_back p \<longleftrightarrow> position (backIterator p) = 0 \<and> (index (backIterator p) = 0 \<or> index (backIterator p) = - 1)"

lemma packet_new [simp]: "packet_ok ser Packet_new" "data_bits ser Packet_new = []" "at_front Packet_new" "at_back Packet_new"
  by (simp_all add: packet_ok_def data_bits_def at_front_def at_back_def Packet_new_def front_begin_def back_begin_def part_def)

lemma packet_with [simp]:
  assumes "wf_chunk ser c" and "0 < getChunkLength c"
  shows "packet_ok ser (Packet_with c)" and "data_bits ser (Packet_with c) = chunk_bits ser c" and "at_front (Packet_with c)" and "at_back (Packet_with c)"
proof -
  have "iterator_ok c front_begin" by (cases c) (simp_all add: front_begin_def)
  then show "packet_ok ser (Packet_with c)" using assms by (simp add: packet_ok_def Packet_with_def front_begin_def back_begin_def)
  show "data_bits ser (Packet_with c) = chunk_bits ser c"
    using length_chunk_bits [OF assms(1)] by (simp add: data_bits_def getDataLength_def Packet_with_def front_begin_def back_begin_def)
qed (simp_all add: at_front_def at_back_def Packet_with_def front_begin_def back_begin_def)

lemma length_data_bits: "packet_ok ser p \<Longrightarrow> int (length (data_bits ser p)) = getDataLength p"
  using length_chunk_bits [of ser "content p"] by (auto simp: packet_ok_def data_bits_def getDataLength_def part_def)

lemma peekDataAt_spec:
  assumes p: "packet_ok ser p" and n: "0 \<le> off" "8 dvd off" "0 < len" "8 dvd len" "off + len \<le> getDataLength p"
  obtains c where "peekDataAt off len p = Inr c" and "wf_chunk ser c" and "getChunkLength c = len" and "chunk_bits ser c = part off len (data_bits ser p)"
proof -
  let ?pos = "position (frontIterator p)"
  have it: "iterator_ok (content p) (inner_iterator (?pos + off))" by (cases "content p") (simp_all add: inner_iterator_def)
  have "8 dvd ?pos + off" using p n by (auto simp: packet_ok_def intro: dvd_add)
  then obtain c where c: "Chunk_peek (content p) (inner_iterator (?pos + off)) len = Inr c" "wf_chunk ser c"
      "chunk_bits ser c = part (?pos + off) len (chunk_bits ser (content p))"
    using chunk_peek_spec [OF _ it, of ser len] p n by (auto simp: packet_ok_def getDataLength_def inner_iterator_def)
  have b: "chunk_bits ser c = part off len (data_bits ser p)"
    using c(3) p n part_part [of off ?pos len "getDataLength p" "chunk_bits ser (content p)"] by (simp add: data_bits_def packet_ok_def)
  have "getChunkLength c = len" using length_chunk_bits [OF c(2)] b length_data_bits [OF p] n by (auto simp: part_def)
  then show thesis using that c b n by (simp add: peekDataAt_def CHUNK_CHECK_USAGE_def)
qed

lemma popAtFront_spec:
  assumes p: "packet_ok ser p" and n: "0 < len" "8 dvd len" "len \<le> getDataLength p"
  obtains c p' where "popAtFront len p = Inr (c, p')" and "wf_chunk ser c" and "chunk_bits ser c = take (nat len) (data_bits ser p)"
    and "packet_ok ser p'" and "data_bits ser p' = drop (nat len) (data_bits ser p)"
proof -
  let ?pos = "position (frontIterator p)"
  obtain c where c: "Chunk_peek (content p) (frontIterator p) len = Inr c" "wf_chunk ser c" "chunk_bits ser c = part ?pos len (chunk_bits ser (content p))"
    using chunk_peek_spec [of ser "content p" "frontIterator p" len] p n by (auto simp: packet_ok_def getDataLength_def)
  have b: "chunk_bits ser c = take (nat len) (data_bits ser p)"
    using c(3) part_part [of 0 ?pos len "getDataLength p" "chunk_bits ser (content p)"] p n by (simp add: data_bits_def packet_ok_def) (simp add: part_def)
  then have len: "getChunkLength c = len" using length_chunk_bits [OF c(2)] length_data_bits [OF p] n by simp
  obtain it where it: "moveIterator (content p) len (frontIterator p) = Inr it" "iterator_ok (content p) it" "position it = ?pos + len"
    using moveIterator_spec [of "content p" "frontIterator p" len] p by (auto simp: packet_ok_def)
  let ?p = "p\<lparr>frontIterator := it\<rparr>"
  have "packet_ok ser ?p" using p it n by (auto simp: packet_ok_def getDataLength_def intro: dvd_add)
  moreover have "data_bits ser ?p = drop (nat len) (data_bits ser p)"
    using it(3) p n by (simp add: data_bits_def getDataLength_def part_def drop_take nat_add_distrib nat_diff_distrib packet_ok_def add.commute) (simp add: algebra_simps)
  ultimately show thesis using that c b len it(1) n by (simp add: popAtFront_def peekAtFront_def CHUNK_CHECK_USAGE_def)
qed

lemma join_back_spec:
  assumes "wf_chunk ser c" and "0 < getChunkLength c" and "wf_chunk ser d" and "0 < getChunkLength d"
  obtains e where "join_back c d = Inr e" and "wf_chunk ser e" and "chunk_bits ser e = chunk_bits ser c @ chunk_bits ser d"
proof (cases "canInsertAtBack c d")
  case True
  obtain e where e: "insertAtBack c d = Inr e" "wf_chunk ser e" "chunk_bits ser e = chunk_bits ser c @ chunk_bits ser d"
    by (rule insertAtBack_spec [OF assms(1,3,4) True])
  have "0 < getChunkLength e" using length_chunk_bits [OF e(2)] e(3) length_chunk_bits [OF assms(1)] assms(2) by simp
  then obtain g where "simplify e = Inr g" "wf_chunk ser g" "chunk_bits ser g = chunk_bits ser e" by (rule simplify_spec [OF e(2)])
  then show thesis using that e True by (simp add: join_back_def)
next
  case False
  obtain es where es: "seq_insertAtBack c [] = Inr es" "wf_seq ser es" "seq_bits ser es = chunk_bits ser c"
    using seq_insertAtBack_spec [of ser "[]", OF _ assms(1,2)] by auto
  obtain fs where "seq_insertAtBack d es = Inr fs" "wf_seq ser fs" "seq_bits ser fs = seq_bits ser es @ chunk_bits ser d"
    by (rule seq_insertAtBack_spec [OF es(2) assms(3,4)])
  then show thesis using that [of "SequenceChunk fs"] es False by (simp add: join_back_def)
qed

lemma join_front_spec:
  assumes "wf_chunk ser c" and "0 < getChunkLength c" and "wf_chunk ser d" and "0 < getChunkLength d"
  obtains e where "join_front c d = Inr e" and "wf_chunk ser e" and "chunk_bits ser e = chunk_bits ser d @ chunk_bits ser c"
proof (cases "canInsertAtFront c d")
  case True
  obtain e where e: "insertAtFront c d = Inr e" "wf_chunk ser e" "chunk_bits ser e = chunk_bits ser d @ chunk_bits ser c"
    by (rule insertAtFront_spec [OF assms(1,3,4) True])
  have "0 < getChunkLength e" using length_chunk_bits [OF e(2)] e(3) length_chunk_bits [OF assms(1)] assms(2) by simp
  then obtain g where "simplify e = Inr g" "wf_chunk ser g" "chunk_bits ser g = chunk_bits ser e" by (rule simplify_spec [OF e(2)])
  then show thesis using that e True by (simp add: join_front_def)
next
  case False
  obtain es where es: "seq_insertAtFront c [] = Inr es" "wf_seq ser es" "seq_bits ser es = chunk_bits ser c"
    using seq_insertAtFront_spec [of ser "[]", OF _ assms(1,2)] by auto
  obtain fs where "seq_insertAtFront d es = Inr fs" "wf_seq ser fs" "seq_bits ser fs = chunk_bits ser d @ seq_bits ser es"
    by (rule seq_insertAtFront_spec [OF es(2) assms(3,4)])
  then show thesis using that [of "SequenceChunk fs"] es False by (simp add: join_front_def)
qed

lemma start_iterator_ok:
  "isForward it \<Longrightarrow> position it = 0 \<Longrightarrow> index it = 0 \<or> index it = - 1 \<Longrightarrow> iterator_ok c it"
  by (cases c) auto

lemma part_append_over: "int (length xs) \<le> n \<Longrightarrow> part 0 n (xs @ ys) = xs @ part 0 (n - int (length xs)) ys"
  by (simp add: part_def nat_diff_distrib)

lemma packet_insertAtFront_spec:
  assumes p: "packet_ok ser p" and c: "wf_chunk ser c" "0 < getChunkLength c" and f: "at_front p"
  obtains p' where "Packet_insertAtFront c p = Inr p'" and "packet_ok ser p'" and "at_front p'" and "data_bits ser p' = chunk_bits ser c @ data_bits ser p"
    and "backIterator p' = backIterator p"
proof -
  note goal = that
  note L = length_chunk_bits [OF c(1)]
  have result: thesis if e: "Packet_insertAtFront c p = Inr (p\<lparr>content := e, totalLength := getChunkLength e\<rparr>)" "wf_chunk ser e"
      "chunk_bits ser e = chunk_bits ser c @ chunk_bits ser (content p)" for e
  proof -
    let ?p = "p\<lparr>content := e, totalLength := getChunkLength e\<rparr>"
    have P: "wf_chunk ser (content p)" "totalLength p = getChunkLength (content p)" "position (frontIterator p) = 0"
      using p f by (simp_all add: packet_ok_def at_front_def)
    have len: "getChunkLength e = getChunkLength c + totalLength p" using length_chunk_bits [OF e(2)] e(3) L length_chunk_bits [OF P(1)] P(2) by simp
    have "packet_ok ser ?p" using p f e(2) c(2) len start_iterator_ok [of "frontIterator p" e]
      by (auto simp: packet_ok_def at_front_def dest: iterator_ok_forward)
    moreover have "data_bits ser ?p = chunk_bits ser c @ data_bits ser p"
    proof -
      have "part 0 (getDataLength ?p) (chunk_bits ser c @ chunk_bits ser (content p))
          = chunk_bits ser c @ part 0 (getDataLength ?p - getChunkLength c) (chunk_bits ser (content p))"
        using p len c(2) L by (subst part_append_over) (auto simp: getDataLength_def packet_ok_def P(3))
      then show ?thesis using e(3) len P by (simp add: data_bits_def getDataLength_def)
    qed
    moreover have "at_front ?p" using f by (simp add: at_front_def)
    ultimately show thesis by (intro goal [OF e(1)]) simp_all
  qed
  show thesis
  proof (cases "content p = EmptyChunk")
    case True
    then show thesis using f c by (intro result [of c]) (simp_all add: Packet_insertAtFront_def CHUNK_CHECK_USAGE_def at_front_def)
  next
    case False
    have P: "wf_chunk ser (content p)" "0 < getChunkLength (content p)" using p False by (auto simp: packet_ok_def)
    obtain e where e: "join_front (content p) c = Inr e" "wf_chunk ser e" "chunk_bits ser e = chunk_bits ser c @ chunk_bits ser (content p)"
      by (rule join_front_spec [OF P c])
    have "getChunkLength e = totalLength p + getChunkLength c"
      using length_chunk_bits [OF e(2)] e(3) L length_chunk_bits [OF P(1)] p by (simp add: packet_ok_def)
    then show thesis using f e False by (intro result [of e]) (simp_all add: Packet_insertAtFront_def CHUNK_CHECK_USAGE_def at_front_def)
  qed
qed

lemma packet_insertAtBack_spec:
  assumes p: "packet_ok ser p" and c: "wf_chunk ser c" "0 < getChunkLength c" and f: "at_front p" and b: "at_back p"
  obtains p' where "Packet_insertAtBack c p = Inr p'" and "packet_ok ser p'" and "at_front p'" and "at_back p'"
    and "data_bits ser p' = data_bits ser p @ chunk_bits ser c"
proof -
  note goal = that
  note L = length_chunk_bits [OF c(1)]
  have result: thesis if e: "Packet_insertAtBack c p = Inr (p\<lparr>content := e, totalLength := getChunkLength e\<rparr>)" "wf_chunk ser e"
      "chunk_bits ser e = chunk_bits ser (content p) @ chunk_bits ser c" for e
  proof -
    let ?p = "p\<lparr>content := e, totalLength := getChunkLength e\<rparr>"
    have P: "wf_chunk ser (content p)" "totalLength p = getChunkLength (content p)" "position (frontIterator p) = 0" "position (backIterator p) = 0"
      using p f b by (simp_all add: packet_ok_def at_front_def at_back_def)
    note LP = length_chunk_bits [OF P(1)] length_chunk_bits [OF e(2)]
    have len: "getChunkLength e = getChunkLength c + totalLength p" using LP e(3) L P(2) by simp
    have "packet_ok ser ?p" using p f e(2) c(2) len P start_iterator_ok [of "frontIterator p" e]
      by (auto simp: packet_ok_def at_front_def dest: iterator_ok_forward)
    moreover have "data_bits ser ?p = data_bits ser p @ chunk_bits ser c"
      using e(3) P LP by (simp add: data_bits_def getDataLength_def)
    moreover have "at_front ?p" "at_back ?p" using f b by (simp_all add: at_front_def at_back_def)
    ultimately show thesis by (intro goal [OF e(1)]) simp_all
  qed
  show thesis
  proof (cases "content p = EmptyChunk")
    case True
    then show thesis using b c by (intro result [of c]) (simp_all add: Packet_insertAtBack_def CHUNK_CHECK_USAGE_def at_back_def)
  next
    case False
    have P: "wf_chunk ser (content p)" "0 < getChunkLength (content p)" using p False by (auto simp: packet_ok_def)
    obtain e where e: "join_back (content p) c = Inr e" "wf_chunk ser e" "chunk_bits ser e = chunk_bits ser (content p) @ chunk_bits ser c"
      by (rule join_back_spec [OF P c])
    have "getChunkLength e = totalLength p + getChunkLength c"
      using length_chunk_bits [OF e(2)] e(3) L length_chunk_bits [OF P(1)] p by (simp add: packet_ok_def)
    then show thesis using b e False by (intro result [of e]) (simp_all add: Packet_insertAtBack_def CHUNK_CHECK_USAGE_def at_back_def)
  qed
qed

section \<open>Headers\<close>

text \<open>(C22) A header put in front of a packet is popped off again, and what is left has the same data: every part of it
  can be looked at. A trailer of the packet stays where it is.\<close>

theorem packet_header_roundtrip:
  assumes p: "packet_ok ser p" and h: "wf_chunk ser h" "0 < getChunkLength h" and f: "at_front p"
  shows "\<exists>q c r. Packet_insertAtFront h p = Inr q \<and> popAtFront (getChunkLength h) q = Inr (c, r) \<and> chunk_bits ser c = chunk_bits ser h
     \<and> packet_ok ser r \<and> data_bits ser r = data_bits ser p
     \<and> (\<forall>off n. 0 \<le> off \<and> 8 dvd off \<and> 0 < n \<and> 8 dvd n \<and> off + n \<le> getDataLength p \<longrightarrow>
          (\<exists>d. peekDataAt off n r = Inr d \<and> chunk_bits ser d = part off n (data_bits ser p)))"
proof -
  obtain q where q: "Packet_insertAtFront h p = Inr q" "packet_ok ser q" "data_bits ser q = chunk_bits ser h @ data_bits ser p"
    by (rule packet_insertAtFront_spec [OF p h f])
  note L = length_chunk_bits [OF h(1)]
  have d: "8 dvd getChunkLength h" using wf_elem_dvd wf_seq_dvd [of ser] h(1) by (cases h) auto
  have "getChunkLength h \<le> getDataLength q" using length_data_bits [OF q(2)] q(3) L by simp
  then obtain c r where r: "popAtFront (getChunkLength h) q = Inr (c, r)" "chunk_bits ser c = take (nat (getChunkLength h)) (data_bits ser q)"
      "packet_ok ser r" "data_bits ser r = drop (nat (getChunkLength h)) (data_bits ser q)"
    using popAtFront_spec [OF q(2) h(2) d] by blast
  have n: "nat (getChunkLength h) = length (chunk_bits ser h)" using L by simp
  have data: "data_bits ser r = data_bits ser p" "chunk_bits ser c = chunk_bits ser h" using r(2,4) q(3) n by simp_all
  then have "getDataLength r = getDataLength p" using length_data_bits [OF p] length_data_bits [OF r(3)] by simp
  then show ?thesis using q(1) r(1,3) data peekDataAt_spec [OF r(3)] by metis
qed

theorem packet_header_roundtrip_witness:
  "\<exists>q c r. Packet_insertAtFront (Elem (FieldsChunk () 16)) (Packet_with (Elem (BytesChunk [1, 2, 3]))) = Inr q \<and> popAtFront 16 q = Inr (c, r)
     \<and> chunk_bits (\<lambda>_. replicate 16 True) c = replicate 16 True"
  using packet_header_roundtrip [of "\<lambda>_ :: unit. replicate 16 True" "Packet_with (Elem (BytesChunk [1, 2, 3]))" "Elem (FieldsChunk () 16)"]
  by auto

section \<open>Limits\<close>

text \<open>Bytes popped from the back of a single chunk of bytes come from its front.\<close>

lemma pop_at_back_returns_front: "\<exists>p. popAtBack 8 (Packet_with (Elem (BytesChunk [1, 2, 3])) :: unit Packet) = Inr (Elem (BytesChunk [1]), p)"
proof -
  have "popAtBack 8 (Packet_with (Elem (BytesChunk [1, 2, 3])) :: unit Packet)
    = Inr (Elem (BytesChunk [1]), (Packet_with (Elem (BytesChunk [1, 2, 3])) :: unit Packet)\<lparr>backIterator := \<lparr>isForward = False, position = 8, index = - 1\<rparr>\<rparr>)"
    by code_simp
  then show ?thesis by blast
qed

end
