(* ===== verification/TcpQueues.thy ===== *)
theory TcpQueues
  imports Packet ChunkBuffer SackQueue
begin

text \<open>
  The queues of a TCP connection (\<open>transportlayer/tcp/TcpSendQueue\<close>, \<open>TcpReceiveQueue\<close> of the INET framework). The
  sender keeps the bytes that are not acknowledged in a chunk queue and cuts segments out of it; the receiver
  collects segments in a reorder buffer and hands the bytes out in order. Sequence numbers are 32-bit words,
  offsets in the buffers do not wrap around. \<open>debug\<close> says whether the code was compiled without \<open>NDEBUG\<close>.
\<close>

section \<open>The send queue\<close>

record 'f TcpSendQueue =
  s_begin :: uint32
  s_end :: uint32
  dataBuffer :: "'f ChunkQueue"

definition TcpSendQueue_new :: "'f TcpSendQueue" where
  "TcpSendQueue_new = \<lparr>s_begin = 0, s_end = 0, dataBuffer = ChunkQueue_new\<rparr>"

definition TcpSendQueue_init :: "uint32 \<Rightarrow> 'f TcpSendQueue \<Rightarrow> error + 'f TcpSendQueue" where
  "TcpSendQueue_init startSeq q =
     ebind (ChunkQueue_clear (dataBuffer q)) (\<lambda>buf. Inr (q\<lparr>s_begin := startSeq, s_end := startSeq, dataBuffer := buf\<rparr>))"

definition enqueueAppData :: "'f Packet \<Rightarrow> 'f TcpSendQueue \<Rightarrow> error + 'f TcpSendQueue" where
  "enqueueAppData msg q =
     ebind (peekDataAt 0 (getDataLength msg) msg) (\<lambda>data.
     ebind (ChunkQueue_push data (dataBuffer q)) (\<lambda>buf.
       let q = q\<lparr>dataBuffer := buf, s_end := s_end q + word_of_int ((getDataLength msg + 7) div 8)\<rparr> in
       if seqLess (s_end q) (s_begin q) then Inl RuntimeError else Inr q))"

definition getBytesAvailable :: "uint32 \<Rightarrow> 'f TcpSendQueue \<Rightarrow> nat" where
  "getBytesAvailable fromSeq q = (if seqLess fromSeq (s_end q) then unat (s_end q - fromSeq) else 0)"

definition createSegmentWithBytes :: "uint32 \<Rightarrow> nat \<Rightarrow> 'f TcpSendQueue \<Rightarrow> error + 'f Packet" where
  "createSegmentWithBytes fromSeq numBytes q =
     ASSERT (seqLE (s_begin q) fromSeq \<and> seqLE (fromSeq + of_nat numBytes) (s_end q))
       (ebind (ChunkQueue_peekAt (8 * uint (fromSeq - s_begin q)) (8 * int numBytes) (dataBuffer q)) (\<lambda>payload.
          Packet_insertAtBack payload Packet_new))"

definition TcpSendQueue_discardUpTo :: "uint32 \<Rightarrow> 'f TcpSendQueue \<Rightarrow> error + 'f TcpSendQueue" where
  "TcpSendQueue_discardUpTo seqNum q =
     ASSERT (seqLE (s_begin q) seqNum \<and> seqLE seqNum (s_end q))
       (if seqNum \<noteq> s_begin q
        then ebind (ChunkQueue_pop (8 * uint (seqNum - s_begin q)) (dataBuffer q)) (\<lambda>(_, buf).
               Inr (q\<lparr>dataBuffer := buf, s_begin := seqNum\<rparr>))
        else Inr q)"

section \<open>The receive queue\<close>

record 'f TcpReceiveQueue =
  rcv_nxt :: uint32
  reorderBuffer :: "'f ReorderBuffer"

text \<open>The argument is in bits.\<close>

definition offsetToSeq :: "int \<Rightarrow> error + uint32" where
  "offsetToSeq offs = ebind (to_B offs) (\<lambda>n. Inr (word_of_int n))"

text \<open>The result is in bytes.\<close>

definition seqToOffset :: "uint32 \<Rightarrow> 'f TcpReceiveQueue \<Rightarrow> error + int" where
  "seqToOffset seq q =
     ebind (to_B (expectedOffset (reorderBuffer q))) (\<lambda>expOffs.
       let expSeq = word_of_int expOffs
       in Inr (if seqGE seq expSeq then expOffs + uint (seq - expSeq) else expOffs - uint (expSeq - seq)))"

definition TcpReceiveQueue_new :: "'f TcpReceiveQueue" where
  "TcpReceiveQueue_new = \<lparr>rcv_nxt = - 1, reorderBuffer = \<lparr>regions = [], expectedOffset = - 1\<rparr>\<rparr>"

definition TcpReceiveQueue_init :: "uint32 \<Rightarrow> 'f TcpReceiveQueue \<Rightarrow> 'f TcpReceiveQueue" where
  "TcpReceiveQueue_init startSeq q =
     q\<lparr>rcv_nxt := startSeq, reorderBuffer := (reorderBuffer q)\<lparr>regions := [], expectedOffset := 8 * uint startSeq\<rparr>\<rparr>"

text \<open>The check of debug builds that the new segment \<open>[nb, ne)\<close> is near the buffered data.\<close>

definition acceptable_range :: "uint32 \<Rightarrow> uint32 \<Rightarrow> 'f TcpReceiveQueue \<Rightarrow> error + bool" where
  "acceptable_range nb ne q =
     (let rs = regions (reorderBuffer q) in
      if rs = [] then Inr True
      else ebind (ebind (getRegionStartOffset 0 rs) offsetToSeq) (\<lambda>ob.
           ebind (ebind (getRegionEndOffset (getNumRegions rs - 1) rs) offsetToSeq) (\<lambda>oe.
             let minb = seqMin ob nb; maxe = seqMax oe ne
             in Inr (\<not> (seqGE minb oe \<or> seqGE minb ne \<or> seqGE ob maxe \<or> seqGE nb maxe)))))"

definition insertBytesFromSegment ::
  "bool \<Rightarrow> 'f Packet \<Rightarrow> int \<Rightarrow> uint32 \<Rightarrow> 'f TcpReceiveQueue \<Rightarrow> error + uint32 \<times> 'f TcpReceiveQueue" where
  "insertBytesFromSegment debug packet tcpHeaderLength sequenceNo q =
     ebind (to_B (getDataLength packet - 8 * tcpHeaderLength)) (\<lambda>tcpPayloadLength.
     ebind (offsetToSeq (expectedOffset (reorderBuffer q))) (\<lambda>buffSeq.
     ebind (if debug then acceptable_range sequenceNo (sequenceNo + word_of_int tcpPayloadLength) q else Inr True) (\<lambda>ok.
       if \<not> ok then Inl RuntimeError
       else let (offs, seq, tcpPayloadLength) =
                  (if seqLess sequenceNo buffSeq
                   then (buffSeq - sequenceNo, buffSeq, tcpPayloadLength - uint (buffSeq - sequenceNo))
                   else (0, sequenceNo, tcpPayloadLength))
            in ebind (peekDataAt (8 * (tcpHeaderLength + uint offs)) (8 * tcpPayloadLength) packet) (\<lambda>payload.
               ebind (seqToOffset seq q) (\<lambda>pos.
               ebind (ChunkBuffer_replace (8 * pos) payload (regions (reorderBuffer q))) (\<lambda>rs.
                 let q = q\<lparr>reorderBuffer := (reorderBuffer q)\<lparr>regions := rs\<rparr>\<rparr> in
                 ebind (getRegionStartOffset 0 rs) (\<lambda>start. ebind (offsetToSeq start) (\<lambda>startSeq.
                 ebind (getRegionLength 0 rs) (\<lambda>len.
                 ebind (if seqGE (rcv_nxt q) startSeq then offsetToSeq (start + len) else Inr (rcv_nxt q)) (\<lambda>nxt.
                   Inr (nxt, q\<lparr>rcv_nxt := nxt\<rparr>)))))))))))"

definition extractBytesUpTo :: "uint32 \<Rightarrow> 'f TcpReceiveQueue \<Rightarrow> error + 'f Packet option \<times> 'f TcpReceiveQueue" where
  "extractBytesUpTo seq q =
     ASSERT (seqLE seq (rcv_nxt q))
       (if regions (reorderBuffer q) = [] then Inr (None, q)
        else ebind (seqToOffset seq q) (\<lambda>seqOffs.
             ebind (to_B (expectedOffset (reorderBuffer q))) (\<lambda>expected.
             let maxLength = seqOffs - expected in
             if maxLength \<le> 0 then Inr (None, q)
             else ebind (popAvailableData (8 * maxLength) (reorderBuffer q)) (\<lambda>(chunk, buf).
                  let q = q\<lparr>reorderBuffer := buf\<rparr> in
                  ebind (seqToOffset seq q) (\<lambda>limit.
                  ASSERT (expectedOffset buf \<le> 8 * limit)
                    (case chunk of None \<Rightarrow> Inr (None, q)
                     | Some c \<Rightarrow> ebind (Packet_insertAtBack c Packet_new) (\<lambda>msg. Inr (Some msg, q))))))))"

fun add_lengths :: "'f BufRegion list \<Rightarrow> uint32 \<Rightarrow> error + uint32" where
  "add_lengths [] bytes = Inr bytes"
| "add_lengths (r # rs) bytes = ebind (to_B (getChunkLength (r_data r))) (\<lambda>n. add_lengths rs (bytes + word_of_int n))"

definition getAmountOfBufferedBytes :: "'f TcpReceiveQueue \<Rightarrow> error + uint32" where
  "getAmountOfBufferedBytes q = add_lengths (regions (reorderBuffer q)) 0"

definition getAmountOfFreeBytes :: "uint32 \<Rightarrow> 'f TcpReceiveQueue \<Rightarrow> error + uint32" where
  "getAmountOfFreeBytes maxRcvBuffer q =
     ebind (getAmountOfBufferedBytes q) (\<lambda>used. Inr (if maxRcvBuffer > used then maxRcvBuffer - used else 0))"

definition TcpReceiveQueue_getQueueLength :: "'f TcpReceiveQueue \<Rightarrow> uint32" where
  "TcpReceiveQueue_getQueueLength q = word_of_int (getNumRegions (regions (reorderBuffer q)))"

fun find_LE :: "int \<Rightarrow> uint32 \<Rightarrow> 'f BufRegion list \<Rightarrow> error + uint32" where
  "find_LE fs fromSeqNum [] = Inr fromSeqNum"
| "find_LE fs fromSeqNum (r # rs) =
     (if getStartOffset r \<le> fs \<and> fs < getEndOffset r then offsetToSeq (getStartOffset r) else find_LE fs fromSeqNum rs)"

definition getLE :: "uint32 \<Rightarrow> 'f TcpReceiveQueue \<Rightarrow> error + uint32" where
  "getLE fromSeqNum q = ebind (seqToOffset fromSeqNum q) (\<lambda>fs. find_LE (8 * fs) fromSeqNum (regions (reorderBuffer q)))"

fun find_RE :: "int \<Rightarrow> uint32 \<Rightarrow> 'f BufRegion list \<Rightarrow> error + uint32" where
  "find_RE fs toSeqNum [] = Inr toSeqNum"
| "find_RE fs toSeqNum (r # rs) =
     (if getStartOffset r < fs \<and> fs \<le> getEndOffset r then offsetToSeq (getEndOffset r) else find_RE fs toSeqNum rs)"

definition getRE :: "uint32 \<Rightarrow> 'f TcpReceiveQueue \<Rightarrow> error + uint32" where
  "getRE toSeqNum q = ebind (seqToOffset toSeqNum q) (\<lambda>fs. find_RE (8 * fs) toSeqNum (regions (reorderBuffer q)))"

definition getFirstSeqNo :: "'f TcpReceiveQueue \<Rightarrow> error + uint32" where
  "getFirstSeqNo q =
     (let rs = regions (reorderBuffer q) in
      if getNumRegions rs = 0 then Inr (rcv_nxt q)
      else ebind (ebind (getRegionStartOffset 0 rs) offsetToSeq) (\<lambda>start. Inr (seqMin start (rcv_nxt q))))"

end
