(* ===== verification/TcpStream.thy ===== *)
theory TcpStream
  imports ChunkBufferSpec PacketSpec TcpQueues "HOL-Library.Sublist"
begin

text \<open>
  Correctness of the TCP queues: whatever the network does with the segments cut out of the send queue (loss,
  repetition, any order), the receive queue hands out a prefix of the stream that was put into the send queue.
  Positions in the stream are integers, which do not wrap around; position \<open>s\<close> has the sequence number
  \<open>word_of_int s\<close>.
\<close>

section \<open>Sequence numbers and positions\<close>

lemma uint_diff_int: "a \<le> b \<Longrightarrow> b - a < 2 ^ 32 \<Longrightarrow> uint (word_of_int b - word_of_int a :: uint32) = b - a"
  using uint_word_of_int [of "b - a", where 'a = 32] by simp

lemma off_int: "a \<le> b \<Longrightarrow> b - a < 2 ^ 32 \<Longrightarrow> off (word_of_int a) (word_of_int b) = nat (b - a)"
  by (simp add: off_def uint_diff_int flip: nat_uint_eq)

lemma off_int_neg:
  assumes "b < a" and "a - b \<le> 2 ^ 31"
  shows "2 ^ 31 \<le> off (word_of_int a) (word_of_int b)"
proof -
  have "word_of_int b = (word_of_int (b + 2 ^ 32) :: uint32)" by (simp add: word_of_int_eq_iff take_bit_eq_mod)
  moreover have "off (word_of_int a) (word_of_int (b + 2 ^ 32)) = nat (b + 2 ^ 32 - a)" using assms by (intro off_int) simp_all
  ultimately have "off (word_of_int a) (word_of_int b) = nat (b + 2 ^ 32 - a)" by (simp only:)
  then show ?thesis using assms by simp
qed

lemma seqLE_int: "\<bar>a - b\<bar> < 2 ^ 31 \<Longrightarrow> seqLE (word_of_int a) (word_of_int b) \<longleftrightarrow> a \<le> b"
  using off_int [of a b] off_int_neg [of b a] by (cases "a \<le> b") (auto simp: seqLE_off)

lemma seqGE_int: "\<bar>a - b\<bar> < 2 ^ 31 \<Longrightarrow> seqGE (word_of_int a) (word_of_int b) \<longleftrightarrow> b \<le> a"
  using off_int [of b a] off_int_neg [of a b] by (cases "b \<le> a") (auto simp: seqGE_off)

lemma seqLess_int: "\<bar>a - b\<bar> < 2 ^ 31 \<Longrightarrow> seqLess (word_of_int a) (word_of_int b) \<longleftrightarrow> a < b"
  using off_int [of a b] off_int_neg [of b a] by (cases "a \<le> b") (auto simp: seqLess_off)

lemma seqMin_int: "\<bar>a - b\<bar> < 2 ^ 31 \<Longrightarrow> seqMin (word_of_int a) (word_of_int b) = word_of_int (min a b)"
  using seqLE_int [of a b] by (auto simp: seqMin_def seqLE_def)

lemma seqMax_int: "\<bar>a - b\<bar> < 2 ^ 31 \<Longrightarrow> seqMax (word_of_int a) (word_of_int b) = word_of_int (max a b)"
  using seqGE_int [of a b] by (auto simp: seqMax_def seqGE_def)

lemmas seq_int = seqLE_int seqGE_int seqLess_int seqMin_int seqMax_int

lemma offsetToSeq_dvd: "8 dvd i \<Longrightarrow> offsetToSeq i = Inr (word_of_int (i div 8))"
  by (simp add: offsetToSeq_def to_B_dvd)

lemma seqToOffset_int:
  assumes "8 dvd expectedOffset (reorderBuffer q)" and "\<bar>s - expectedOffset (reorderBuffer q) div 8\<bar> < 2 ^ 31"
  shows "seqToOffset (word_of_int s) q = Inr s"
  using assms seqGE_int [OF assms(2)] uint_diff_int [of s "expectedOffset (reorderBuffer q) div 8"] uint_diff_int [of "expectedOffset (reorderBuffer q) div 8" s]
  by (simp add: seqToOffset_def to_B_dvd Let_def)

section \<open>The receive queue\<close>

text \<open>The data that can be taken out is the maximal stretch of the buffer at the expected offset.\<close>

lemma available_unique:
  assumes ok: "regions_ok ser (regions b)" and above: "\<forall>r\<in>set (regions b). expectedOffset b \<le> getStartOffset r" and n: "0 \<le> n"
    and all: "\<And>i. expectedOffset b \<le> i \<Longrightarrow> i < expectedOffset b + n \<Longrightarrow> bit_at ser (regions b) i \<noteq> None"
    and stop: "bit_at ser (regions b) (expectedOffset b + n) = None"
  shows "getAvailableDataLength b = n"
proof (cases "regions b \<noteq> [] \<and> r_offset (hd (regions b)) = expectedOffset b")
  case True
  let ?r = "hd (regions b)"
  have r: "?r \<in> set (regions b)" "getStartOffset ?r = expectedOffset b" using True by (simp_all add: getStartOffset_def)
  have len: "getEndOffset ?r = expectedOffset b + getChunkLength (r_data ?r)" using True by (simp add: getEndOffset_def)
  note m = region_maximal [OF ok r(1)]
  have "\<not> n < getChunkLength (r_data ?r)" using m(1) [of "expectedOffset b + n"] stop n r(2) len by auto
  moreover have "\<not> getChunkLength (r_data ?r) < n" using m(2) all [of "getEndOffset ?r"] len wf_region_less [OF regions_ok_wf [OF ok r(1)]] r(2) by auto
  ultimately show ?thesis using True by (simp add: getAvailableDataLength_def)
next
  case False
  have "\<not> 0 < n"
  proof
    assume "0 < n"
    then have "regions b \<noteq> [] \<and> getStartOffset (hd (regions b)) \<le> expectedOffset b" by (intro first_region [OF ok] all) simp_all
    then show False using False above hd_in_set [of "regions b"] by (fastforce simp: getStartOffset_def)
  qed
  then show ?thesis using False n by (auto simp: getAvailableDataLength_def)
qed

lemma available_view:
  assumes ok: "regions_ok ser (regions b)" and above: "\<forall>r\<in>set (regions b). expectedOffset b \<le> getStartOffset r"
  shows "0 \<le> getAvailableDataLength b"
    and "expectedOffset b \<le> i \<Longrightarrow> i < expectedOffset b + getAvailableDataLength b \<Longrightarrow> bit_at ser (regions b) i \<noteq> None"
    and "bit_at ser (regions b) (expectedOffset b + getAvailableDataLength b) = None"
proof -
  have "0 \<le> getAvailableDataLength b \<and> (\<forall>i. expectedOffset b \<le> i \<and> i < expectedOffset b + getAvailableDataLength b \<longrightarrow> bit_at ser (regions b) i \<noteq> None)
     \<and> bit_at ser (regions b) (expectedOffset b + getAvailableDataLength b) = None"
  proof (cases "regions b \<noteq> [] \<and> r_offset (hd (regions b)) = expectedOffset b")
    case True
    let ?r = "hd (regions b)"
    have r: "?r \<in> set (regions b)" "getStartOffset ?r = expectedOffset b" using True by (simp_all add: getStartOffset_def)
    have len: "getEndOffset ?r = expectedOffset b + getAvailableDataLength b" using True by (simp add: getEndOffset_def getAvailableDataLength_def)
    note m = region_maximal [OF ok r(1)]
    show ?thesis using m(1,2) len r(2) wf_region_less [OF regions_ok_wf [OF ok r(1)]] by auto
  next
    case False
    then have a: "getAvailableDataLength b = 0" by (auto simp: getAvailableDataLength_def)
    have "bit_at ser (regions b) (expectedOffset b) = None"
    proof (rule ccontr)
      assume "bit_at ser (regions b) (expectedOffset b) \<noteq> None"
      then have "regions b \<noteq> [] \<and> getStartOffset (hd (regions b)) \<le> expectedOffset b" by (rule first_region [OF ok])
      then show False using False above hd_in_set [of "regions b"] by (fastforce simp: getStartOffset_def)
    qed
    then show ?thesis using a by auto
  qed
  then show "0 \<le> getAvailableDataLength b"
    and "expectedOffset b \<le> i \<Longrightarrow> i < expectedOffset b + getAvailableDataLength b \<Longrightarrow> bit_at ser (regions b) i \<noteq> None"
    and "bit_at ser (regions b) (expectedOffset b + getAvailableDataLength b) = None" by blast+
qed

text \<open>
  The buffered data lies in a window behind the expected offset; \<open>rcv_nxt\<close> is the first byte that is missing.
\<close>

definition window :: int where
  "window = 2 ^ 30"

abbreviation buffered :: "('f \<Rightarrow> bool list) \<Rightarrow> 'f TcpReceiveQueue \<Rightarrow> int \<Rightarrow> bool option" where
  "buffered ser q \<equiv> bit_at ser (regions (reorderBuffer q))"

definition rcv_expected :: "'f TcpReceiveQueue \<Rightarrow> int" where
  "rcv_expected q = expectedOffset (reorderBuffer q) div 8"

definition rcv_missing :: "'f TcpReceiveQueue \<Rightarrow> int" where
  "rcv_missing q = rcv_expected q + getAvailableDataLength (reorderBuffer q) div 8"

definition receive_ok :: "('f \<Rightarrow> bool list) \<Rightarrow> 'f TcpReceiveQueue \<Rightarrow> bool" where
  "receive_ok ser q \<longleftrightarrow> regions_ok ser (regions (reorderBuffer q)) \<and> 0 \<le> expectedOffset (reorderBuffer q) \<and> 8 dvd expectedOffset (reorderBuffer q)
     \<and> (\<forall>r\<in>set (regions (reorderBuffer q)). expectedOffset (reorderBuffer q) \<le> getStartOffset r
          \<and> getEndOffset r \<le> expectedOffset (reorderBuffer q) + 8 * window)
     \<and> rcv_nxt q = word_of_int (rcv_missing q)"

lemma regions_within:
  assumes "regions_ok ser rs"
  shows "(\<forall>r\<in>set rs. lo \<le> getStartOffset r \<and> getEndOffset r \<le> hi) \<longleftrightarrow> (\<forall>i. bit_at ser rs i \<noteq> None \<longrightarrow> lo \<le> i \<and> i < hi)"
proof (intro iffI ballI allI impI)
  fix i assume "\<forall>r\<in>set rs. lo \<le> getStartOffset r \<and> getEndOffset r \<le> hi" and "bit_at ser rs i \<noteq> None"
  then show "lo \<le> i \<and> i < hi" unfolding bit_at_None by fastforce
next
  fix r assume all: "\<forall>i. bit_at ser rs i \<noteq> None \<longrightarrow> lo \<le> i \<and> i < hi" and r: "r \<in> set rs"
  have "getStartOffset r < getEndOffset r" using wf_region_less [OF regions_ok_wf [OF assms r]] .
  then show "lo \<le> getStartOffset r \<and> getEndOffset r \<le> hi"
    using all [rule_format, OF region_maximal(1) [OF assms r], of "getStartOffset r"]
      all [rule_format, OF region_maximal(1) [OF assms r], of "getEndOffset r - 1"] by simp
qed

lemma receive_okD:
  assumes "receive_ok ser q"
  shows "regions_ok ser (regions (reorderBuffer q))" and "expectedOffset (reorderBuffer q) = 8 * rcv_expected q" and "0 \<le> rcv_expected q"
    and "\<forall>r\<in>set (regions (reorderBuffer q)). expectedOffset (reorderBuffer q) \<le> getStartOffset r"
    and "buffered ser q i \<noteq> None \<Longrightarrow> 8 * rcv_expected q \<le> i \<and> i < 8 * rcv_expected q + 8 * window"
    and "rcv_nxt q = word_of_int (rcv_missing q)"
  using assms regions_within [of ser "regions (reorderBuffer q)" "expectedOffset (reorderBuffer q)" "expectedOffset (reorderBuffer q) + 8 * window"]
  by (auto simp: receive_ok_def rcv_expected_def)

lemma receive_okI:
  assumes "regions_ok ser (regions (reorderBuffer q))" and "expectedOffset (reorderBuffer q) = 8 * e" and "0 \<le> e"
    and "\<And>i. buffered ser q i \<noteq> None \<Longrightarrow> 8 * e \<le> i \<and> i < 8 * e + 8 * window" and "rcv_nxt q = word_of_int (rcv_missing q)"
  shows "receive_ok ser q" and "rcv_expected q = e"
  using assms regions_within [OF assms(1), of "8 * e" "8 * e + 8 * window"] by (auto simp: receive_ok_def rcv_expected_def)

lemma missing_range:
  assumes q: "receive_ok ser q"
  shows "rcv_expected q \<le> rcv_missing q" and "rcv_missing q \<le> rcv_expected q + window" and "8 dvd getAvailableDataLength (reorderBuffer q)"
    and "8 * rcv_expected q \<le> i \<Longrightarrow> i < 8 * rcv_missing q \<Longrightarrow> buffered ser q i \<noteq> None" and "buffered ser q (8 * rcv_missing q) = None"
proof -
  let ?b = "reorderBuffer q" and ?n = "getAvailableDataLength (reorderBuffer q)"
  note Q = receive_okD [OF q] and a = available_view [OF receive_okD(1,4) [OF q]]
  show d: "8 dvd ?n"
  proof (cases "regions ?b \<noteq> [] \<and> r_offset (hd (regions ?b)) = expectedOffset ?b")
    case True
    then have "wf_region ser (hd (regions ?b))" using regions_ok_wf [OF Q(1) hd_in_set] by blast
    then have "8 dvd getEndOffset (hd (regions ?b)) - getStartOffset (hd (regions ?b))" using wf_region_dvd [of ser] by (intro dvd_diff) blast+
    then show ?thesis using True by (simp add: getAvailableDataLength_def getStartOffset_def getEndOffset_def)
  qed (auto simp: getAvailableDataLength_def)
  then have m: "8 * rcv_missing q = 8 * rcv_expected q + ?n" by (simp add: rcv_missing_def)
  show "rcv_expected q \<le> rcv_missing q" using a(1) by (simp add: rcv_missing_def pos_imp_zdiv_nonneg_iff)
  show "8 * rcv_expected q \<le> i \<Longrightarrow> i < 8 * rcv_missing q \<Longrightarrow> buffered ser q i \<noteq> None" using a(2) [of i] Q(2) m by simp
  show "buffered ser q (8 * rcv_missing q) = None" using a(3) Q(2) m by simp
  show "rcv_missing q \<le> rcv_expected q + window"
  proof (cases "?n = 0")
    case False
    then show ?thesis using a(2) [of "8 * rcv_missing q - 1"] a(1) Q(5) [of "8 * rcv_missing q - 1"] m Q(2) by auto
  qed (simp add: rcv_missing_def window_def)
qed

lemma missing_unique:
  assumes ok: "regions_ok ser (regions (reorderBuffer q))" and e: "expectedOffset (reorderBuffer q) = 8 * e"
    and within: "\<And>i. buffered ser q i \<noteq> None \<Longrightarrow> 8 * e \<le> i" and m: "e \<le> m"
    and all: "\<And>i. 8 * e \<le> i \<Longrightarrow> i < 8 * m \<Longrightarrow> buffered ser q i \<noteq> None" and stop: "buffered ser q (8 * m) = None"
  shows "rcv_missing q = m"
proof -
  have "\<forall>r\<in>set (regions (reorderBuffer q)). expectedOffset (reorderBuffer q) \<le> getStartOffset r"
    using within region_maximal(1) [OF ok] wf_region_less [OF regions_ok_wf [OF ok]] e by force
  then have "getAvailableDataLength (reorderBuffer q) = 8 * (m - e)"
    by (rule available_unique [OF ok]) (use all stop e m in auto)
  then show ?thesis using e by (simp add: rcv_missing_def rcv_expected_def)
qed

text \<open>The check of debug builds passes for every segment that reaches into the window.\<close>

lemma acceptable_range_int:
  assumes q: "receive_ok ser q" and s: "rcv_expected q - window < s" "s < t" "rcv_expected q < t" "t \<le> rcv_expected q + window"
  shows "acceptable_range (word_of_int s) (word_of_int t) q = Inr True"
proof (cases "regions (reorderBuffer q) = []")
  case False
  let ?rs = "regions (reorderBuffer q)"
  define ob oe where "ob = getStartOffset (hd ?rs) div 8" and "oe = getEndOffset (last ?rs) div 8"
  note Q = receive_okD [OF q]
  have wf: "wf_region ser (hd ?rs)" "wf_region ser (last ?rs)" using False by (auto intro!: regions_ok_wf [OF Q(1)])
  note d = wf_region_dvd [OF wf(1)] wf_region_dvd [OF wf(2)] and l = wf_region_less [OF wf(1)] wf_region_less [OF wf(2)]
  have b: "buffered ser q (getStartOffset (hd ?rs)) \<noteq> None" "buffered ser q (getEndOffset (last ?rs) - 1) \<noteq> None"
    using region_maximal(1) [OF Q(1) hd_in_set [OF False]] region_maximal(1) [OF Q(1) last_in_set [OF False]] l by simp_all
  have "getStartOffset (hd ?rs) \<le> getStartOffset (last ?rs)"
  proof (cases ?rs)
    case (Cons r rs)
    then have "rs \<noteq> [] \<Longrightarrow> getEndOffset r < getStartOffset (last rs)" using Q(1) last_in_set [of rs] by auto
    then show ?thesis using l(1) Cons by (cases "rs = []") auto
  qed (use False in simp)
  moreover have e: "getStartOffset (hd ?rs) = 8 * ob" "getEndOffset (last ?rs) = 8 * oe" using d by (simp_all add: ob_def oe_def)
  ultimately have o: "ob < oe" using l by simp
  have r: "rcv_expected q \<le> ob" "oe \<le> rcv_expected q + window" using Q(5) [OF b(1)] Q(5) [OF b(2)] e by simp_all
  have start: "ebind (getRegionStartOffset 0 ?rs) offsetToSeq = Inr (word_of_int ob)"
    using False d by (simp add: getRegionStartOffset_def region_at_def hd_conv_nth offsetToSeq_dvd ob_def getStartOffset_def)
  have "nat (int (length ?rs) - 1) = length ?rs - 1" by simp
  then have stop: "ebind (getRegionEndOffset (getNumRegions ?rs - 1) ?rs) offsetToSeq = Inr (word_of_int oe)"
    using False d by (simp add: getRegionEndOffset_def getNumRegions_def region_at_def last_conv_nth offsetToSeq_dvd oe_def Suc_le_eq)
  have "seqMin (word_of_int ob) (word_of_int s) = word_of_int (min ob s)" "seqMax (word_of_int oe) (word_of_int t) = word_of_int (max oe t)"
    using r s o by (auto simp: window_def intro!: seqMin_int seqMax_int)
  moreover have "\<not> seqGE (word_of_int (min ob s)) (word_of_int oe)" "\<not> seqGE (word_of_int (min ob s)) (word_of_int t)"
      "\<not> seqGE (word_of_int ob) (word_of_int (max oe t))" "\<not> seqGE (word_of_int s) (word_of_int (max oe t))"
    using r s o by (subst seqGE_int; auto simp: window_def)+
  ultimately show ?thesis using False start stop by (simp add: acceptable_range_def Let_def wi_hom_add)
qed (simp add: acceptable_range_def)

text \<open>After trimming, the segment occupies \<open>[max s (rcv_expected q), t)\<close>; what follows is the update of \<open>rcv_nxt\<close>.\<close>

definition advance :: "'f TcpReceiveQueue \<Rightarrow> 'f BufRegion list \<Rightarrow> error + uint32 \<times> 'f TcpReceiveQueue" where
  "advance q rs = (let q = q\<lparr>reorderBuffer := (reorderBuffer q)\<lparr>regions := rs\<rparr>\<rparr> in
     ebind (getRegionStartOffset 0 rs) (\<lambda>start. ebind (offsetToSeq start) (\<lambda>startSeq. ebind (getRegionLength 0 rs) (\<lambda>len.
     ebind (if seqGE (rcv_nxt q) startSeq then offsetToSeq (start + len) else Inr (rcv_nxt q)) (\<lambda>nxt. Inr (nxt, q\<lparr>rcv_nxt := nxt\<rparr>))))))"

lemma insertBytes_start:
  assumes q: "receive_ok ser q" and s: "rcv_expected q - window < s" "s < t" "rcv_expected q < t" "t \<le> rcv_expected q + window"
    and p: "getDataLength p = 8 * (h + (t - s))" and m: "m = max s (rcv_expected q)"
  shows "insertBytesFromSegment debug p h (word_of_int s) q
    = ebind (peekDataAt (8 * (h + (m - s))) (8 * (t - m)) p) (\<lambda>c. ebind (ChunkBuffer_replace (8 * m) c (regions (reorderBuffer q))) (advance q))"
proof -
  let ?e = "rcv_expected q"
  note Q = receive_okD [OF q]
  have e: "expectedOffset (reorderBuffer q) = 8 * ?e" by (rule Q(2))
  have range: "(if debug then acceptable_range (word_of_int s) (word_of_int s + word_of_int (t - s)) q else Inr True) = Inr True"
    using acceptable_range_int [OF q s] by simp
  have trim: "(if seqLess (word_of_int s) (word_of_int ?e) then (word_of_int ?e - word_of_int s, word_of_int ?e, t - s - uint (word_of_int ?e - word_of_int s :: uint32))
      else (0, word_of_int s, t - s)) = (word_of_int ?e - word_of_int (min s ?e) :: uint32, word_of_int m, t - m)"
    using s m seqLess_int [of s ?e] uint_diff_int [of s ?e] by (auto simp: window_def)
  have offs: "uint (word_of_int ?e - word_of_int (min s ?e) :: uint32) = m - s"
    using s m uint_diff_int [of "min s ?e" ?e] by (auto simp: window_def)
  have pos: "seqToOffset (word_of_int m) q = Inr m" using s m e by (intro seqToOffset_int) (auto simp: window_def)
  have len: "to_B (getDataLength p - 8 * h) = Inr (t - s)" using p by (simp add: to_B_dvd)
  have buf: "offsetToSeq (expectedOffset (reorderBuffer q)) = Inr (word_of_int ?e)" using e by (simp add: offsetToSeq_dvd)
  show ?thesis
    unfolding insertBytesFromSegment_def len buf ebind.simps range Let_def trim prod.case offs pos advance_def by simp
qed

lemma advance_spec:
  assumes q: "receive_ok ser q" and rs: "regions_ok ser rs" "rs \<noteq> []"
    and grow: "\<And>i. buffered ser q i \<noteq> None \<Longrightarrow> bit_at ser rs i \<noteq> None"
    and within: "\<And>i. bit_at ser rs i \<noteq> None \<Longrightarrow> 8 * rcv_expected q \<le> i \<and> i < 8 * rcv_expected q + 8 * window"
  obtains q' where "advance q rs = Inr (rcv_nxt q', q')" and "receive_ok ser q'" and "rcv_expected q' = rcv_expected q" and "regions (reorderBuffer q') = rs"
proof -
  let ?e = "rcv_expected q"
  define S T where "S = getStartOffset (hd rs) div 8" and "T = getEndOffset (hd rs) div 8"
  note Q = receive_okD [OF q] and M = missing_range [OF q]
  have r: "wf_region ser (hd rs)" by (rule regions_ok_wf [OF rs(1) hd_in_set [OF rs(2)]])
  have ST: "getStartOffset (hd rs) = 8 * S" "getEndOffset (hd rs) = 8 * T" using wf_region_dvd [OF r] by (simp_all add: S_def T_def)
  note m = region_maximal [OF rs(1) hd_in_set [OF rs(2)], unfolded ST]
  have st: "S < T" using wf_region_less [OF r] ST by simp
  have es: "?e \<le> S" "S < ?e + window" using within [OF m(1) [of "8 * S"]] st by simp_all
  have nxt: "seqGE (rcv_nxt q) (word_of_int S) \<longleftrightarrow> S \<le> rcv_missing q"
    unfolding Q(6) using M(1,2) es by (intro seqGE_int) (auto simp: window_def)
  have first: "S = ?e" if "bit_at ser rs (8 * ?e) \<noteq> None" using first_region [OF rs(1) that] es ST by simp
  have start: "offsetToSeq (getStartOffset (hd rs)) = Inr (word_of_int S)" "offsetToSeq (getEndOffset (hd rs)) = Inr (word_of_int T)"
    using ST by (simp_all add: offsetToSeq_dvd)
  define n where "n = (if S \<le> rcv_missing q then T else rcv_missing q)"
  define q' where "q' = q\<lparr>reorderBuffer := (reorderBuffer q)\<lparr>regions := rs\<rparr>, rcv_nxt := word_of_int n\<rparr>"
  have view: "regions (reorderBuffer q') = rs" "expectedOffset (reorderBuffer q') = 8 * ?e" "rcv_nxt q' = word_of_int n"
    using Q(2) by (simp_all add: q'_def)
  have "advance q rs = Inr (rcv_nxt q', q')"
    using rs(2) nxt start Q(6) view(3)
    by (auto simp: advance_def Let_def getRegionStartOffset_def getRegionLength_def region_at_def hd_conv_nth getStartOffset_def getEndOffset_def n_def q'_def)
  moreover have "rcv_missing q' = n"
  proof (cases "S \<le> rcv_missing q")
    case True
    have "S = ?e"
    proof (cases "?e = rcv_missing q")
      case False
      then show ?thesis using M(1) by (intro first grow M(4)) auto
    qed (use True es in simp)
    then show ?thesis using True rs(1) view(1,2) m(1,2) st within by (intro missing_unique [of ser q' ?e]) (auto simp: n_def)
  next
    case False
    have "?e = rcv_missing q"
    proof (rule ccontr)
      assume "?e \<noteq> rcv_missing q"
      then have "S = ?e" using M(1) by (intro first grow M(4)) auto
      then show False using False M(1) by simp
    qed
    moreover have "bit_at ser rs (8 * ?e) = None" using first False calculation by (cases "bit_at ser rs (8 * ?e)") auto
    ultimately show ?thesis using False rs(1) view(1,2) within by (intro missing_unique [of ser q' ?e]) (auto simp: n_def)
  qed
  moreover have "receive_ok ser q'" "rcv_expected q' = ?e"
    using receive_okI [of ser q' ?e] rs(1) view Q(3) within \<open>rcv_missing q' = n\<close> by simp_all
  ultimately show thesis using that view(1) by blast
qed

text \<open>A segment adds its bytes, up to those handed out already, to the buffer.\<close>

lemma insertBytes_spec:
  assumes q: "receive_ok ser q" and s: "rcv_expected q - window < s" "s < t" "rcv_expected q < t" "t \<le> rcv_expected q + window"
    and p: "packet_ok ser p" "getDataLength p = 8 * (h + (t - s))" "0 \<le> h"
  obtains q' where "insertBytesFromSegment debug p h (word_of_int s) q = Inr (rcv_nxt q', q')" and "receive_ok ser q'" and "rcv_expected q' = rcv_expected q"
    and "\<And>i. buffered ser q' i = (if 8 * max s (rcv_expected q) \<le> i \<and> i < 8 * t then Some (data_bits ser p ! nat (i + 8 * h - 8 * s)) else buffered ser q i)"
proof -
  define m where "m = max s (rcv_expected q)"
  note Q = receive_okD [OF q]
  have m: "s \<le> m" "m < t" "rcv_expected q \<le> m" using s by (auto simp: m_def)
  obtain c where c: "peekDataAt (8 * (h + (m - s))) (8 * (t - m)) p = Inr c" "wf_chunk ser c" "getChunkLength c = 8 * (t - m)"
      "chunk_bits ser c = part (8 * (h + (m - s))) (8 * (t - m)) (data_bits ser p)"
    by (rule peekDataAt_spec [OF p(1), of "8 * (h + (m - s))" "8 * (t - m)"]) (use p m in auto)
  obtain rs where rs: "ChunkBuffer_replace (8 * m) c (regions (reorderBuffer q)) = Inr rs" "regions_ok ser rs" "rs \<noteq> []"
      "\<And>i. bit_at ser rs i = (if 8 * m \<le> i \<and> i < 8 * m + getChunkLength c then Some (chunk_bits ser c ! nat (i - 8 * m)) else buffered ser q i)"
    by (rule ChunkBuffer_replace_spec [OF Q(1) c(2), of "8 * m"]) (use c(3) m Q(3) in auto)
  have bits: "chunk_bits ser c ! nat (i - 8 * m) = data_bits ser p ! nat (i + 8 * h - 8 * s)" if i: "8 * m \<le> i" "i < 8 * t" for i
  proof -
    have "nat (8 * (h + (m - s))) + nat (i - 8 * m) = nat (i + 8 * h - 8 * s)" using i m p(3) by (subst nat_add_distrib [symmetric]) auto
    moreover have "nat (i - 8 * m) < nat (8 * (t - m))" using i by auto
    ultimately show ?thesis using nth_part [of "8 * (h + (m - s))" "nat (i - 8 * m)" "8 * (t - m)" "data_bits ser p"] c(4) m p length_data_bits [OF p(1)]
      by (simp add: algebra_simps)
  qed
  have view: "bit_at ser rs i = (if 8 * m \<le> i \<and> i < 8 * t then Some (data_bits ser p ! nat (i + 8 * h - 8 * s)) else buffered ser q i)" for i
    using rs(4) [of i] c(3) bits [of i] m by auto
  obtain q' where q': "advance q rs = Inr (rcv_nxt q', q')" "receive_ok ser q'" "rcv_expected q' = rcv_expected q" "regions (reorderBuffer q') = rs"
    by (rule advance_spec [OF q rs(2,3)]) (use view Q(5) m s in \<open>auto split: if_splits\<close>)
  have "insertBytesFromSegment debug p h (word_of_int s) q = Inr (rcv_nxt q', q')"
    using insertBytes_start [OF q s p(2) m_def] c(1) rs(1) q'(1) by simp
  then show thesis using that q'(2-4) view unfolding m_def by simp
qed

text \<open>Reading up to a position takes exactly the bytes before it out of the buffer.\<close>

lemma extractBytes_none:
  assumes q: "receive_ok ser q"
  shows "extractBytesUpTo (word_of_int (rcv_expected q)) q = Inr (None, q)"
proof -
  note Q = receive_okD [OF q]
  have "seqToOffset (word_of_int (rcv_expected q)) q = Inr (rcv_expected q)" using Q(2) by (intro seqToOffset_int) auto
  moreover have "seqLE (word_of_int (rcv_expected q)) (rcv_nxt q)"
    unfolding Q(6) using missing_range(1,2) [OF q] by (intro seqLE_int [THEN iffD2]) (auto simp: window_def)
  ultimately show ?thesis using Q(2) by (simp add: extractBytesUpTo_def to_B_dvd)
qed

lemma extractBytes_spec:
  assumes q: "receive_ok ser q" and k: "rcv_expected q < k" "k \<le> rcv_missing q"
  obtains msg q' where "extractBytesUpTo (word_of_int k) q = Inr (Some msg, q')" and "packet_ok ser msg" and "getDataLength msg = 8 * (k - rcv_expected q)"
    and "\<And>i. 8 * rcv_expected q \<le> i \<Longrightarrow> i < 8 * k \<Longrightarrow> buffered ser q i = Some (data_bits ser msg ! nat (i - 8 * rcv_expected q))"
    and "receive_ok ser q'" and "rcv_expected q' = k" and "rcv_missing q' = rcv_missing q"
    and "\<And>i. buffered ser q' i = (if i < 8 * k then None else buffered ser q i)"
proof -
  let ?b = "reorderBuffer q" and ?e = "rcv_expected q" and ?r = "hd (regions (reorderBuffer q))"
  note Q = receive_okD [OF q] and M = missing_range [OF q]
  have pos: "seqToOffset (word_of_int k) q = Inr k" using Q(2) k M(2) by (intro seqToOffset_int) (auto simp: window_def)
  have le: "seqLE (word_of_int k) (rcv_nxt q)"
    unfolding Q(6) using k M(2) by (intro seqLE_int [THEN iffD2]) (auto simp: window_def)
  have avail: "getAvailableDataLength ?b = 8 * (rcv_missing q - ?e)" using M(3) by (simp add: rcv_missing_def)
  then have hd: "regions ?b \<noteq> []" "r_offset ?r = 8 * ?e" "getChunkLength (r_data ?r) = 8 * (rcv_missing q - ?e)"
    using k Q(2) by (auto simp: getAvailableDataLength_def split: if_splits)
  have r: "wf_region ser ?r" by (rule regions_ok_wf [OF Q(1) hd_in_set [OF hd(1)]])
  have "iterator_ok (r_data ?r) (ForwardIterator 0)" by (cases "r_data ?r") (simp_all add: ForwardIterator_def)
  then obtain c where c: "Chunk_peek (r_data ?r) (ForwardIterator 0) (8 * (k - ?e)) = Inr c" "wf_chunk ser c"
      "chunk_bits ser c = part 0 (8 * (k - ?e)) (chunk_bits ser (r_data ?r))"
    using chunk_peek_spec [of ser "r_data ?r" "ForwardIterator 0" "8 * (k - ?e)"] r k hd(3) by (auto simp: wf_region_def ForwardIterator_def)
  have lc: "getChunkLength c = 8 * (k - ?e)"
    using length_chunk_bits [OF c(2)] c(3) length_chunk_bits [of ser "r_data ?r"] r k hd(3) by (auto simp: wf_region_def part_def)
  obtain rs where rs: "ChunkBuffer_clear (8 * ?e) (8 * (k - ?e)) (regions ?b) = Inr rs" "regions_ok ser rs"
      "\<And>i. bit_at ser rs i = (if 8 * ?e \<le> i \<and> i < 8 * ?e + 8 * (k - ?e) then None else buffered ser q i)"
    by (rule ChunkBuffer_clear_spec [OF Q(1), of "8 * ?e" "8 * (k - ?e)"]) (use k Q(3) in auto)
  have view: "bit_at ser rs i = (if i < 8 * k then None else buffered ser q i)" for i
    using rs(3) [of i] Q(5) [of i] by (cases "buffered ser q i") (auto split: if_splits)
  define q' where "q' = q\<lparr>reorderBuffer := ?b\<lparr>regions := rs, expectedOffset := 8 * k\<rparr>\<rparr>"
  have q': "regions (reorderBuffer q') = rs" "expectedOffset (reorderBuffer q') = 8 * k" "rcv_nxt q' = rcv_nxt q" by (simp_all add: q'_def)
  have within: "8 * k \<le> i \<and> i < 8 * k + 8 * window" if "bit_at ser rs i \<noteq> None" for i
    using that view [of i] Q(5) [of i] k by (auto split: if_splits)
  have miss: "rcv_missing q' = rcv_missing q"
    using rs(2) q' within k M(4,5) view by (intro missing_unique [of ser q' k]) auto
  have ok: "receive_ok ser q'" "rcv_expected q' = k"
    using receive_okI [of ser q' k] rs(2) q' within miss Q(3,6) k by simp_all
  have pop: "popAvailableData (8 * (k - ?e)) ?b = Inr (Some c, ?b\<lparr>regions := rs, expectedOffset := 8 * k\<rparr>)"
    using hd(1,2) Q(2) c(1) rs(1) k by (simp add: popAvailableData_def)
  have pos': "seqToOffset (word_of_int k) q' = Inr k" using q'(2) by (intro seqToOffset_int) auto
  obtain msg where msg: "Packet_insertAtBack c Packet_new = Inr msg" "packet_ok ser msg" "data_bits ser msg = chunk_bits ser c"
    using packet_insertAtBack_spec [of ser Packet_new c] c(2) lc k by auto
  have "extractBytesUpTo (word_of_int k) q = Inr (Some msg, q')"
    using le hd(1) pos Q(2) k pop pos' msg(1) by (simp add: extractBytesUpTo_def to_B_dvd Let_def flip: q'_def)
  moreover have "buffered ser q i = Some (data_bits ser msg ! nat (i - 8 * ?e))" if i: "8 * ?e \<le> i" "i < 8 * k" for i
  proof -
    have "getEndOffset ?r = 8 * rcv_missing q" "getStartOffset ?r = 8 * ?e" using hd(2,3) by (simp_all add: getEndOffset_def getStartOffset_def)
    then have "buffered ser q i = Some (chunk_bits ser (r_data ?r) ! nat (i - 8 * ?e))"
      using region_content [OF Q(1) hd_in_set [OF hd(1)], of i] i k by simp
    moreover have "nat (i - 8 * ?e) < nat (8 * (k - ?e))" using i by auto
    ultimately show ?thesis using msg(3) c(3) by (simp add: part_def)
  qed
  moreover have "getDataLength msg = 8 * (k - ?e)" using length_data_bits [OF msg(2)] msg(3) length_chunk_bits [OF c(2)] lc by simp
  ultimately show thesis using that msg(2) ok miss view q'(1) by simp
qed

section \<open>The send queue\<close>

text \<open>The queue holds the bytes from position \<open>a\<close> up to \<open>e\<close>.\<close>

definition send_ok :: "('f \<Rightarrow> bool list) \<Rightarrow> int \<Rightarrow> int \<Rightarrow> 'f TcpSendQueue \<Rightarrow> bool" where
  "send_ok ser a e q \<longleftrightarrow> queue_ok ser (dataBuffer q) \<and> s_begin q = word_of_int a \<and> s_end q = word_of_int e \<and> a \<le> e \<and> e - a < 2 ^ 31
     \<and> int (length (queue_bits ser (dataBuffer q))) = 8 * (e - a)"

abbreviation unsent :: "('f \<Rightarrow> bool list) \<Rightarrow> 'f TcpSendQueue \<Rightarrow> bool list" where
  "unsent ser q \<equiv> queue_bits ser (dataBuffer q)"

lemma enqueueAppData_spec:
  assumes q: "send_ok ser a e q" and p: "packet_ok ser p" "getDataLength p = 8 * n" "0 < n" "e + n - a < 2 ^ 31"
  obtains q' where "enqueueAppData p q = Inr q'" and "send_ok ser a (e + n) q'" and "unsent ser q' = unsent ser q @ data_bits ser p"
proof -
  obtain c where c: "peekDataAt 0 (getDataLength p) p = Inr c" "wf_chunk ser c" "getChunkLength c = 8 * n" "chunk_bits ser c = part 0 (8 * n) (data_bits ser p)"
    using peekDataAt_spec [OF p(1), of 0 "8 * n"] p by auto
  obtain b where b: "ChunkQueue_push c (dataBuffer q) = Inr b" "queue_ok ser b" "queue_bits ser b = unsent ser q @ chunk_bits ser c"
    using push_spec [of ser "dataBuffer q" c] q c p(3) by (auto simp: send_ok_def)
  have bits: "chunk_bits ser c = data_bits ser p" using c(4) length_data_bits [OF p(1)] p(2) by simp
  have le: "\<not> seqLess (word_of_int (e + n)) (word_of_int a)" using q p(3,4) by (subst seqLess_int) (auto simp: send_ok_def)
  have "(8 * n + 7) div 8 = n" by simp
  then have "enqueueAppData p q = Inr (q\<lparr>dataBuffer := b, s_end := word_of_int (e + n)\<rparr>)"
    using c(1) b(1) le q p(2) by (simp add: enqueueAppData_def Let_def send_ok_def)
  moreover have "send_ok ser a (e + n) (q\<lparr>dataBuffer := b, s_end := word_of_int (e + n)\<rparr>)"
    using q b p(2-4) bits length_data_bits [OF p(1)] by (simp add: send_ok_def)
  ultimately show thesis using that b(3) bits by simp
qed

lemma createSegment_spec:
  assumes q: "send_ok ser a e q" and s: "a \<le> s" "s < t" "t \<le> e"
  obtains p where "createSegmentWithBytes (word_of_int s) (nat (t - s)) q = Inr p" and "packet_ok ser p" and "at_front p"
    and "data_bits ser p = part (8 * (s - a)) (8 * (t - s)) (unsent ser q)"
proof -
  have Q: "queue_ok ser (dataBuffer q)" "ChunkQueue_getLength (dataBuffer q) = 8 * (e - a)"
    using q queue_length [of ser "dataBuffer q"] by (auto simp: send_ok_def)
  obtain c where c: "ChunkQueue_peekAt (8 * (s - a)) (8 * (t - s)) (dataBuffer q) = Inr c" "wf_chunk ser c"
      "chunk_bits ser c = part (8 * (s - a)) (8 * (t - s)) (unsent ser q)"
    by (rule queue_peekAt_spec [OF Q(1), of "8 * (s - a)" "8 * (t - s)"]) (use Q(2) s in auto)
  have lc: "0 < getChunkLength c" using length_chunk_bits [OF c(2)] c(3) Q queue_length [OF Q(1)] s by (auto simp: part_def)
  obtain p where p: "Packet_insertAtBack c Packet_new = Inr p" "packet_ok ser p" "at_front p" "data_bits ser p = chunk_bits ser c"
    using packet_insertAtBack_spec [of ser Packet_new c] c(2) lc by auto
  have "word_of_int s + of_nat (nat (t - s)) = (word_of_int t :: uint32)" using s by simp
  moreover have "seqLE (word_of_int a) (word_of_int s)" "seqLE (word_of_int t) (word_of_int e)" using q s by (auto simp: send_ok_def seqLE_int)
  moreover have "uint (word_of_int s - word_of_int a :: uint32) = s - a" using q s by (intro uint_diff_int) (auto simp: send_ok_def)
  ultimately have "createSegmentWithBytes (word_of_int s) (nat (t - s)) q = Inr p"
    using q s c(1) p(1) by (simp add: createSegmentWithBytes_def send_ok_def)
  then show thesis using that p(2-4) c(3) by simp
qed

lemma send_discard_spec:
  assumes q: "send_ok ser a e q" and k: "a \<le> k" "k \<le> e"
  obtains q' where "TcpSendQueue_discardUpTo (word_of_int k) q = Inr q'" and "send_ok ser k e q'" and "unsent ser q' = drop (nat (8 * (k - a))) (unsent ser q)"
proof (cases "k = a")
  case True
  then show thesis using that [of q] q by (auto simp: TcpSendQueue_discardUpTo_def send_ok_def seqLE_int)
next
  case False
  have Q: "queue_ok ser (dataBuffer q)" "ChunkQueue_getLength (dataBuffer q) = 8 * (e - a)"
    using q queue_length [of ser "dataBuffer q"] by (auto simp: send_ok_def)
  obtain c b where b: "ChunkQueue_pop (8 * (k - a)) (dataBuffer q) = Inr (c, b)" "queue_ok ser b" "queue_bits ser b = drop (nat (8 * (k - a))) (unsent ser q)"
    by (rule pop_spec [OF Q(1), of "8 * (k - a)"]) (use Q(2) k False in auto)
  have u: "uint (word_of_int k - word_of_int a :: uint32) = k - a" using q k by (intro uint_diff_int) (auto simp: send_ok_def)
  then have "(word_of_int k :: uint32) \<noteq> word_of_int a" using False by auto
  then have "TcpSendQueue_discardUpTo (word_of_int k) q = Inr (q\<lparr>dataBuffer := b, s_begin := word_of_int k\<rparr>)"
    using q k b(1) u by (simp add: TcpSendQueue_discardUpTo_def send_ok_def seqLE_int)
  moreover have "send_ok ser k e (q\<lparr>dataBuffer := b, s_begin := word_of_int k\<rparr>)" using q k b by (auto simp: send_ok_def)
  ultimately show thesis using that b(3) by simp
qed

section \<open>A connection\<close>

text \<open>
  A sender and a receiver with a network that loses, repeats and reorders segments: a segment stays in the network
  for ever and may be delivered at any time, or never. The positions in the events are integers; the operations
  of the queues get their sequence numbers. \<open>sent\<close> and \<open>delivered\<close> record what the applications wrote and read.
\<close>

datatype 'f event =
    AppSend "'f Packet"          \<comment> \<open>the application writes\<close>
  | Transmit int int 'f int      \<comment> \<open>the bytes from one position up to another are sent, behind a header of the given bytes\<close>
  | Deliver nat                  \<comment> \<open>a segment arrives\<close>
  | ReadUpTo int                 \<comment> \<open>the receiving application reads the bytes before the position\<close>
  | Acknowledge int              \<comment> \<open>an acknowledgment arrives at the sender\<close>

record 'f connection =
  snd_queue :: "'f TcpSendQueue"
  rcv_queue :: "'f TcpReceiveQueue"
  segments :: "(int \<times> int \<times> int \<times> 'f Packet) list"
  sent :: "bool list"
  delivered :: "bool list"
  origin :: int                  \<comment> \<open>the position of the first byte\<close>
  acked :: int                   \<comment> \<open>the position up to which the sender has seen acknowledgments\<close>

definition connect :: "uint32 \<Rightarrow> error + 'f connection" where
  "connect startSeq =
     ebind (TcpSendQueue_init startSeq TcpSendQueue_new) (\<lambda>q.
       Inr \<lparr>snd_queue = q, rcv_queue = TcpReceiveQueue_init startSeq TcpReceiveQueue_new, segments = [], sent = [], delivered = [], origin = uint startSeq, acked = uint startSeq\<rparr>)"

fun event_step :: "bool \<Rightarrow> ('f \<Rightarrow> bool list) \<Rightarrow> 'f event \<Rightarrow> 'f connection \<Rightarrow> error + 'f connection" where
  "event_step debug ser (AppSend msg) c =
     ebind (enqueueAppData msg (snd_queue c)) (\<lambda>q. Inr (c\<lparr>snd_queue := q, sent := sent c @ data_bits ser msg\<rparr>))"
| "event_step debug ser (Transmit s t hdr h) c =
     ebind (createSegmentWithBytes (word_of_int s) (nat (t - s)) (snd_queue c)) (\<lambda>p.
     ebind (Packet_insertAtFront (Elem (FieldsChunk hdr (8 * h))) p) (\<lambda>p. Inr (c\<lparr>segments := segments c @ [(s, t, h, p)]\<rparr>)))"
| "event_step debug ser (Deliver i) c =
     (case segments c ! i of (s, t, h, p) \<Rightarrow>
        ebind (insertBytesFromSegment debug p h (word_of_int s) (rcv_queue c)) (\<lambda>(_, q). Inr (c\<lparr>rcv_queue := q\<rparr>)))"
| "event_step debug ser (ReadUpTo k) c =
     ebind (extractBytesUpTo (word_of_int k) (rcv_queue c)) (\<lambda>(msg, q).
       Inr (c\<lparr>rcv_queue := q, delivered := delivered c @ (case msg of None \<Rightarrow> [] | Some m \<Rightarrow> data_bits ser m)\<rparr>))"
| "event_step debug ser (Acknowledge k) c =
     ebind (TcpSendQueue_discardUpTo (word_of_int k) (snd_queue c)) (\<lambda>q. Inr (c\<lparr>snd_queue := q, acked := k\<rparr>))"

definition sent_end :: "'f connection \<Rightarrow> int" where
  "sent_end c = origin c + int (length (sent c)) div 8"

text \<open>
  What the users of the queues and the network guarantee: at most $2^{31}$ bytes are unacknowledged, only bytes in the
  send queue are transmitted, no segment is older or newer than $2^{30}$ bytes when it arrives and it has at least one
  byte that was not read, and acknowledgments do not pass what was received.
\<close>

fun allowed :: "('f \<Rightarrow> bool list) \<Rightarrow> 'f connection \<Rightarrow> 'f event \<Rightarrow> bool" where
  "allowed ser c (AppSend msg) \<longleftrightarrow> packet_ok ser msg \<and> 0 < getDataLength msg \<and> sent_end c + getDataLength msg div 8 - acked c < 2 ^ 31"
| "allowed ser c (Transmit s t hdr h) \<longleftrightarrow> acked c \<le> s \<and> s < t \<and> t \<le> sent_end c \<and> 0 < h \<and> int (length (ser hdr)) = 8 * h"
| "allowed ser c (Deliver i) \<longleftrightarrow> i < length (segments c) \<and> (case segments c ! i of (s, t, h, p) \<Rightarrow>
     rcv_expected (rcv_queue c) - window < s \<and> rcv_expected (rcv_queue c) < t \<and> t \<le> rcv_expected (rcv_queue c) + window)"
| "allowed ser c (ReadUpTo k) \<longleftrightarrow> rcv_expected (rcv_queue c) \<le> k \<and> k \<le> rcv_missing (rcv_queue c)"
| "allowed ser c (Acknowledge k) \<longleftrightarrow> acked c \<le> k \<and> k \<le> rcv_missing (rcv_queue c)"

fun run_events :: "bool \<Rightarrow> ('f \<Rightarrow> bool list) \<Rightarrow> 'f event list \<Rightarrow> 'f connection \<Rightarrow> error + 'f connection" where
  "run_events debug ser [] c = Inr c"
| "run_events debug ser (e # es) c = ebind (event_step debug ser e c) (run_events debug ser es)"

fun all_allowed :: "bool \<Rightarrow> ('f \<Rightarrow> bool list) \<Rightarrow> 'f event list \<Rightarrow> 'f connection \<Rightarrow> bool" where
  "all_allowed debug ser [] c \<longleftrightarrow> True"
| "all_allowed debug ser (e # es) c \<longleftrightarrow> allowed ser c e \<and> (case event_step debug ser e c of Inl _ \<Rightarrow> True | Inr d \<Rightarrow> all_allowed debug ser es d)"

subsection \<open>The invariant\<close>

definition stream :: "'f connection \<Rightarrow> int \<Rightarrow> bool option" where
  "stream c i = (if 8 * origin c \<le> i \<and> i < 8 * sent_end c then Some (sent c ! nat (i - 8 * origin c)) else None)"

definition segment_ok :: "('f \<Rightarrow> bool list) \<Rightarrow> 'f connection \<Rightarrow> int \<times> int \<times> int \<times> 'f Packet \<Rightarrow> bool" where
  "segment_ok ser c = (\<lambda>(s, t, h, p). s < t \<and> 0 \<le> h \<and> packet_ok ser p \<and> getDataLength p = 8 * (h + (t - s))
     \<and> (\<forall>i. 8 * s \<le> i \<and> i < 8 * t \<longrightarrow> stream c i = Some (data_bits ser p ! nat (i + 8 * h - 8 * s))))"

definition connection_ok :: "('f \<Rightarrow> bool list) \<Rightarrow> 'f connection \<Rightarrow> bool" where
  "connection_ok ser c \<longleftrightarrow>
     send_ok ser (acked c) (sent_end c) (snd_queue c) \<and> 0 \<le> origin c \<and> origin c \<le> acked c \<and> acked c \<le> rcv_missing (rcv_queue c)
     \<and> 8 dvd int (length (sent c)) \<and> unsent ser (snd_queue c) = drop (nat (8 * (acked c - origin c))) (sent c)
     \<and> receive_ok ser (rcv_queue c) \<and> origin c \<le> rcv_expected (rcv_queue c) \<and> rcv_expected (rcv_queue c) \<le> sent_end c
     \<and> buffered ser (rcv_queue c) \<subseteq>\<^sub>m stream c \<and> (\<forall>g\<in>set (segments c). segment_ok ser c g)
     \<and> delivered c = take (nat (8 * (rcv_expected (rcv_queue c) - origin c))) (sent c)"

lemma connection_okD:
  assumes "connection_ok ser c"
  shows "send_ok ser (acked c) (sent_end c) (snd_queue c)" and "0 \<le> origin c" and "origin c \<le> acked c" and "acked c \<le> rcv_missing (rcv_queue c)"
    and "int (length (sent c)) = 8 * (sent_end c - origin c)" and "unsent ser (snd_queue c) = drop (nat (8 * (acked c - origin c))) (sent c)"
    and "receive_ok ser (rcv_queue c)" and "origin c \<le> rcv_expected (rcv_queue c)" and "rcv_expected (rcv_queue c) \<le> sent_end c"
    and "buffered ser (rcv_queue c) \<subseteq>\<^sub>m stream c" and "\<And>g. g \<in> set (segments c) \<Longrightarrow> segment_ok ser c g"
    and "delivered c = take (nat (8 * (rcv_expected (rcv_queue c) - origin c))) (sent c)"
  using assms by (simp_all add: connection_ok_def sent_end_def)

lemma connect_ok:
  obtains c where "connect startSeq = Inr c" and "connection_ok ser c" and "origin c = uint startSeq" and "sent c = []"
proof -
  obtain b where b: "ChunkQueue_clear ChunkQueue_new = Inr b" "queue_ok ser b" "queue_bits ser b = []"
    using clear_spec [of ser ChunkQueue_new] by auto
  define r :: "'a TcpReceiveQueue" where "r = TcpReceiveQueue_init startSeq TcpReceiveQueue_new"
  have r: "regions (reorderBuffer r) = []" "expectedOffset (reorderBuffer r) = 8 * uint startSeq" "rcv_nxt r = startSeq"
    by (simp_all add: r_def TcpReceiveQueue_init_def)
  then have m: "rcv_missing r = uint startSeq" by (simp add: rcv_missing_def rcv_expected_def getAvailableDataLength_def)
  have ok: "receive_ok ser r" "rcv_expected r = uint startSeq"
    using receive_okI [of ser r "uint startSeq"] m r by simp_all
  show thesis
    by (rule that) (use b m r(1) ok in \<open>auto simp: connect_def TcpSendQueue_init_def TcpSendQueue_new_def connection_ok_def send_ok_def sent_end_def map_le_def dom_def simp flip: r_def\<close>)
qed

lemma missing_sent:
  assumes c: "connection_ok ser c"
  shows "rcv_missing (rcv_queue c) \<le> sent_end c"
proof (cases "rcv_expected (rcv_queue c) = rcv_missing (rcv_queue c)")
  case False
  note C = connection_okD [OF c] and M = missing_range [OF connection_okD(7) [OF c]]
  have "buffered ser (rcv_queue c) (8 * rcv_missing (rcv_queue c) - 1) \<noteq> None" using False M(1) by (intro M(4)) auto
  then have "stream c (8 * rcv_missing (rcv_queue c) - 1) \<noteq> None" using C(10) by (auto simp: map_le_def dom_def)
  then show ?thesis by (auto simp: stream_def split: if_splits)
qed (use connection_okD(9) [OF c] in simp)

lemma enough_data: "wf_chunk ser c \<Longrightarrow> 8 dvd getChunkLength c"
  using wf_elem_dvd wf_seq_dvd [of ser] by (cases c) auto

lemma dataLength_dvd: "packet_ok ser p \<Longrightarrow> 8 dvd getDataLength p"
  by (auto simp: packet_ok_def getDataLength_def intro!: dvd_diff enough_data)

lemma app_send_ok:
  assumes c: "connection_ok ser c" and a: "allowed ser c (AppSend msg)"
  obtains d where "event_step debug ser (AppSend msg) c = Inr d" and "connection_ok ser d"
proof -
  note C = connection_okD [OF c]
  define n where "n = getDataLength msg div 8"
  have p: "packet_ok ser msg" "getDataLength msg = 8 * n" "0 < n" "sent_end c + n - acked c < 2 ^ 31"
    using a dataLength_dvd [of ser msg] by (auto simp: n_def pos_imp_zdiv_pos_iff)
  obtain q where q: "enqueueAppData msg (snd_queue c) = Inr q" "send_ok ser (acked c) (sent_end c + n) q"
      "unsent ser q = unsent ser (snd_queue c) @ data_bits ser msg"
    by (rule enqueueAppData_spec [OF C(1) p])
  let ?d = "c\<lparr>snd_queue := q, sent := sent c @ data_bits ser msg\<rparr>"
  have len: "int (length (data_bits ser msg)) = 8 * n" using length_data_bits [OF p(1)] p(2) by simp
  then have e: "sent_end ?d = sent_end c + n" using C(5) by (simp add: sent_end_def)
  have st: "stream ?d i = stream c i" if "stream c i \<noteq> None" for i
    using that C(5) p(3) e by (auto simp: stream_def nth_append split: if_splits)
  have "segment_ok ser ?d g" if "g \<in> set (segments c)" for g
    using C(11) [OF that] st by (fastforce simp: segment_ok_def)
  moreover have "buffered ser (rcv_queue c) \<subseteq>\<^sub>m stream ?d" using C(10) st by (fastforce simp: map_le_def dom_def)
  moreover have "nat (8 * (acked c - origin c)) \<le> length (sent c)" "nat (8 * (rcv_expected (rcv_queue c) - origin c)) \<le> length (sent c)"
    using C(1,5,9) by (auto simp: send_ok_def)
  ultimately have "connection_ok ser ?d"
    using q(2,3) C e len p(3) unfolding connection_ok_def by (simp add: dvd_add)
  then show thesis using that q(1) by simp
qed

lemma transmit_ok:
  assumes c: "connection_ok ser c" and a: "allowed ser c (Transmit s t hdr h)"
  obtains p where "event_step debug ser (Transmit s t hdr h) c = Inr (c\<lparr>segments := segments c @ [(s, t, h, p)]\<rparr>)"
    and "connection_ok ser (c\<lparr>segments := segments c @ [(s, t, h, p)]\<rparr>)"
proof -
  note C = connection_okD [OF c]
  have h: "wf_chunk ser (Elem (FieldsChunk hdr (8 * h)))" "0 < getChunkLength (Elem (FieldsChunk hdr (8 * h)))" using a by simp_all
  obtain p where p: "createSegmentWithBytes (word_of_int s) (nat (t - s)) (snd_queue c) = Inr p" "packet_ok ser p" "at_front p"
      "data_bits ser p = part (8 * (s - acked c)) (8 * (t - s)) (unsent ser (snd_queue c))"
    by (rule createSegment_spec [OF C(1), of s t]) (use a in auto)
  obtain r where r: "Packet_insertAtFront (Elem (FieldsChunk hdr (8 * h))) p = Inr r" "packet_ok ser r" "data_bits ser r = ser hdr @ data_bits ser p"
    using packet_insertAtFront_spec [OF p(2) h p(3)] by auto
  let ?d = "c\<lparr>segments := segments c @ [(s, t, h, r)]\<rparr>"
  have le: "origin c \<le> acked c" "acked c \<le> s" "s < t" "t \<le> sent_end c" "0 < h" "int (length (ser hdr)) = 8 * h" using a C(3) by auto
  have data: "data_bits ser p = part (8 * (s - origin c)) (8 * (t - s)) (sent c)"
    using le by (simp add: p(4) C(6) part_def nat_add_distrib [symmetric])
  then have len: "int (length (data_bits ser p)) = 8 * (t - s)" using C(5) le by (auto simp: part_def)
  have "stream c i = Some (data_bits ser r ! nat (i + 8 * h - 8 * s))" if i: "8 * s \<le> i" "i < 8 * t" for i
  proof -
    have "nat (i + 8 * h - 8 * s) = length (ser hdr) + nat (i - 8 * s)" using le i by auto
    then have "data_bits ser r ! nat (i + 8 * h - 8 * s) = data_bits ser p ! nat (i - 8 * s)" by (simp add: r(3))
    also have "\<dots> = sent c ! (nat (8 * (s - origin c)) + nat (i - 8 * s))" unfolding data using i le C(5) by (intro nth_part) auto
    also have "nat (8 * (s - origin c)) + nat (i - 8 * s) = nat (i - 8 * origin c)" using i le by auto
    finally show ?thesis using i le by (simp add: stream_def)
  qed
  moreover have "stream ?d = stream c" by (simp add: stream_def sent_end_def fun_eq_iff)
  moreover have "getDataLength r = 8 * (h + (t - s))" using length_data_bits [OF r(2)] r(3) len le by simp
  ultimately have "segment_ok ser ?d (s, t, h, r)" using le r(2) by (simp add: segment_ok_def)
  then have "connection_ok ser ?d"
    using c \<open>stream ?d = stream c\<close> by (simp add: connection_ok_def segment_ok_def sent_end_def)
  then show thesis using that p(1) r(1) by simp
qed

lemma deliver_ok:
  assumes c: "connection_ok ser c" and a: "allowed ser c (Deliver i)" and g: "segments c ! i = (s, t, h, p)"
  obtains q where "event_step debug ser (Deliver i) c = Inr (c\<lparr>rcv_queue := q\<rparr>)" and "connection_ok ser (c\<lparr>rcv_queue := q\<rparr>)"
    and "rcv_expected q = rcv_expected (rcv_queue c)"
    and "\<And>j. buffered ser q j \<noteq> None \<longleftrightarrow> buffered ser (rcv_queue c) j \<noteq> None \<or> 8 * max s (rcv_expected (rcv_queue c)) \<le> j \<and> j < 8 * t"
proof -
  note C = connection_okD [OF c]
  let ?r = "rcv_queue c"
  have i: "(s, t, h, p) \<in> set (segments c)" using a g nth_mem [of i "segments c"] by simp
  have seg: "s < t" "0 \<le> h" "packet_ok ser p" "getDataLength p = 8 * (h + (t - s))"
      "\<And>j. 8 * s \<le> j \<Longrightarrow> j < 8 * t \<Longrightarrow> stream c j = Some (data_bits ser p ! nat (j + 8 * h - 8 * s))"
    using C(11) [OF i] by (simp_all add: segment_ok_def)
  obtain q where q: "insertBytesFromSegment debug p h (word_of_int s) ?r = Inr (rcv_nxt q, q)" "receive_ok ser q" "rcv_expected q = rcv_expected ?r"
      "\<And>j. buffered ser q j = (if 8 * max s (rcv_expected ?r) \<le> j \<and> j < 8 * t then Some (data_bits ser p ! nat (j + 8 * h - 8 * s)) else buffered ser ?r j)"
    by (rule insertBytes_spec [OF C(7), of s t p h debug]) (use a g seg in auto)
  let ?d = "c\<lparr>rcv_queue := q\<rparr>"
  have "stream ?d = stream c" by (simp add: stream_def sent_end_def fun_eq_iff)
  moreover have "buffered ser q \<subseteq>\<^sub>m stream c" using C(10) seg(5) by (auto simp: map_le_def dom_def q(4) split: if_splits)
  moreover have "rcv_missing ?r \<le> rcv_missing q"
  proof (rule ccontr)
    assume less: "\<not> rcv_missing ?r \<le> rcv_missing q"
    have "buffered ser ?r (8 * rcv_missing q) \<noteq> None"
      using less missing_range(1) [OF q(2)] q(3) by (intro missing_range(4) [OF C(7)]) auto
    then show False using missing_range(5) [OF q(2)] q(4) [of "8 * rcv_missing q"] by (auto split: if_splits)
  qed
  ultimately have "connection_ok ser ?d" using c q(2,3) C(4) by (simp add: connection_ok_def segment_ok_def sent_end_def)
  moreover have "event_step debug ser (Deliver i) c = Inr ?d" using g q(1) by simp
  moreover have "buffered ser q j \<noteq> None \<longleftrightarrow> buffered ser ?r j \<noteq> None \<or> 8 * max s (rcv_expected ?r) \<le> j \<and> j < 8 * t" for j
    by (simp only: q(4)) auto
  ultimately show thesis using that q(3) by blast
qed

lemma read_ok:
  assumes c: "connection_ok ser c" and a: "allowed ser c (ReadUpTo k)"
  obtains q ds where "event_step debug ser (ReadUpTo k) c = Inr (c\<lparr>rcv_queue := q, delivered := ds\<rparr>)"
    and "connection_ok ser (c\<lparr>rcv_queue := q, delivered := ds\<rparr>)" and "rcv_expected q = k"
proof (cases "rcv_expected (rcv_queue c) = k")
  case True
  then show thesis using that [where q = "rcv_queue c" and ds = "delivered c"] c extractBytes_none [OF connection_okD(7) [OF c]] by simp
next
  case False
  note C = connection_okD [OF c]
  let ?r = "rcv_queue c" and ?e = "rcv_expected (rcv_queue c)"
  have k: "?e < k" "k \<le> rcv_missing ?r" "k \<le> sent_end c" using a False missing_sent [OF c] by auto
  obtain m q where m: "extractBytesUpTo (word_of_int k) ?r = Inr (Some m, q)" "packet_ok ser m" "getDataLength m = 8 * (k - ?e)"
      "\<And>i. 8 * ?e \<le> i \<Longrightarrow> i < 8 * k \<Longrightarrow> buffered ser ?r i = Some (data_bits ser m ! nat (i - 8 * ?e))"
      "receive_ok ser q" "rcv_expected q = k" "rcv_missing q = rcv_missing ?r" "\<And>i. buffered ser q i = (if i < 8 * k then None else buffered ser ?r i)"
    using extractBytes_spec [OF C(7) k(1,2)] by blast
  let ?n = "nat (8 * (?e - origin c))" and ?l = "nat (8 * (k - ?e))"
  have len: "length (data_bits ser m) = ?l" using length_data_bits [OF m(2)] m(3) by simp
  have "data_bits ser m = take ?l (drop ?n (sent c))"
  proof (rule nth_equalityI)
    show "length (data_bits ser m) = length (take ?l (drop ?n (sent c)))" using len C(5,8) k by auto
    fix j assume j: "j < length (data_bits ser m)"
    then have j': "8 * ?e + int j < 8 * k" using len by auto
    then have b: "buffered ser ?r (8 * ?e + int j) = Some (data_bits ser m ! j)" using m(4) [of "8 * ?e + int j"] by simp
    then have "stream c (8 * ?e + int j) = Some (data_bits ser m ! j)" using C(10) by (force simp: map_le_def)
    moreover have "nat (8 * ?e + int j - 8 * origin c) = ?n + j" using C(8) by auto
    ultimately show "data_bits ser m ! j = take ?l (drop ?n (sent c)) ! j" using j j' len C(5,8) k by (auto simp: stream_def split: if_splits)
  qed
  moreover have "nat (8 * (k - origin c)) = ?n + ?l" using C(8) k by auto
  ultimately have ds: "delivered c @ data_bits ser m = take (nat (8 * (k - origin c))) (sent c)" by (simp add: C(12) take_add)
  let ?d = "c\<lparr>rcv_queue := q, delivered := delivered c @ data_bits ser m\<rparr>"
  have "stream ?d = stream c" by (simp add: stream_def sent_end_def fun_eq_iff)
  moreover have "buffered ser q \<subseteq>\<^sub>m stream c" using C(10) by (auto simp: map_le_def dom_def m(8) split: if_splits)
  ultimately have "connection_ok ser ?d" using c m(5-7) ds k C(8) by (simp add: connection_ok_def segment_ok_def sent_end_def)
  moreover have "event_step debug ser (ReadUpTo k) c = Inr ?d" using m(1) by simp
  ultimately show thesis using that m(6) by blast
qed

lemma acknowledge_ok:
  assumes c: "connection_ok ser c" and a: "allowed ser c (Acknowledge k)"
  obtains d where "event_step debug ser (Acknowledge k) c = Inr d" and "connection_ok ser d"
proof -
  note C = connection_okD [OF c]
  have k: "acked c \<le> k" "k \<le> rcv_missing (rcv_queue c)" "k \<le> sent_end c" using a missing_sent [OF c] by auto
  obtain q where q: "TcpSendQueue_discardUpTo (word_of_int k) (snd_queue c) = Inr q" "send_ok ser k (sent_end c) q"
      "unsent ser q = drop (nat (8 * (k - acked c))) (unsent ser (snd_queue c))"
    by (rule send_discard_spec [OF C(1) k(1,3)])
  let ?d = "c\<lparr>snd_queue := q, acked := k\<rparr>"
  have "stream ?d = stream c" by (simp add: stream_def sent_end_def fun_eq_iff)
  moreover have "unsent ser q = drop (nat (8 * (k - origin c))) (sent c)"
    using k C(3) by (simp add: q(3) C(6) nat_add_distrib [symmetric])
  ultimately have "connection_ok ser ?d" using c q(2) k C(3) by (simp add: connection_ok_def segment_ok_def sent_end_def)
  then show thesis using that q(1) by simp
qed

lemma event_step_ok:
  assumes "connection_ok ser c" and "allowed ser c ev"
  obtains d where "event_step debug ser ev c = Inr d" and "connection_ok ser d"
proof (cases ev)
  case (Deliver i)
  obtain s t h p where "segments c ! i = (s, t, h, p)" by (cases "segments c ! i") auto
  then show thesis using deliver_ok [OF assms(1)] assms(2) that unfolding Deliver by metis
qed (use assms that in \<open>metis app_send_ok transmit_ok read_ok acknowledge_ok\<close>)+

lemma run_events_ok: "connection_ok ser c \<Longrightarrow> all_allowed debug ser es c \<Longrightarrow> \<exists>d. run_events debug ser es c = Inr d \<and> connection_ok ser d"
proof (induction es arbitrary: c)
  case (Cons e es)
  obtain d where "event_step debug ser e c = Inr d" "connection_ok ser d"
    by (rule event_step_ok [of ser c e debug]) (use Cons.prems in auto)
  then show ?case using Cons by simp
qed simp

lemma event_step_origin: "event_step debug ser ev c = Inr d \<Longrightarrow> origin d = origin c"
  by (cases ev) (auto simp: ebind_eq_Inr split: prod.splits)

lemma run_events_origin: "run_events debug ser es c = Inr d \<Longrightarrow> origin d = origin c"
  by (induction es arbitrary: c) (auto simp: ebind_eq_Inr dest: event_step_origin)

section \<open>An example\<close>

text \<open>Two segments, delivered in the wrong order and one of them twice, with sequence numbers that wrap around.\<close>

definition blank_header :: "unit \<Rightarrow> bool list" where
  "blank_header = (\<lambda>_. replicate 160 False)"

definition example_start :: "unit connection" where
  "example_start = (case connect 4294967294 of Inr c \<Rightarrow> c)"

definition example_events :: "unit event list" where
  "example_events = [AppSend (Packet_with (Elem (BytesChunk [1, 2, 3]))), Transmit 4294967294 4294967295 () 20, Transmit 4294967295 4294967297 () 20,
     Deliver 1, Deliver 0, ReadUpTo 4294967296, Acknowledge 4294967296, Deliver 1, ReadUpTo 4294967297]"

text \<open>The first segment is lost.\<close>

definition example_loss :: "unit event list" where
  "example_loss = [AppSend (Packet_with (Elem (BytesChunk [1, 2, 3]))), Transmit 4294967294 4294967295 () 20, Transmit 4294967295 4294967296 () 20, Deliver 1]"

lemma example_start: "connect 4294967294 = Inr example_start"
  by code_simp

lemma example_events_allowed: "all_allowed True blank_header example_events example_start"
  by code_simp

lemma example_loss_allowed: "all_allowed True blank_header example_loss example_start"
  by code_simp

definition example_lost :: "unit connection" where
  "example_lost = (case run_events True blank_header example_loss example_start of Inr d \<Rightarrow> d)"

lemma example_lost: "run_events True blank_header example_loss example_start = Inr example_lost"
  by code_simp

lemma example_lost_state: "rcv_missing (rcv_queue example_lost) < sent_end example_lost \<and> sent_end example_lost \<le> rcv_expected (rcv_queue example_lost) + window"
  by code_simp

section \<open>Delivery\<close>

text \<open>(C19) Whatever the network does with the segments, the two queues never fail, and the receiving application
  has read a prefix of what the sending application wrote, up to the expected offset; the acknowledgment number
  \<open>rcv_nxt\<close> is that of the first byte that is missing. Sequence numbers may wrap around any number of times.\<close>

theorem tcp_stream_delivery:
  "\<exists>c. connect startSeq = Inr c \<and> (all_allowed debug ser es c \<longrightarrow>
     (\<exists>d. run_events debug ser es c = Inr d \<and> prefix (delivered d) (sent d)
        \<and> int (length (delivered d)) = 8 * (rcv_expected (rcv_queue d) - uint startSeq)
        \<and> rcv_nxt (rcv_queue d) = word_of_int (rcv_missing (rcv_queue d))
        \<and> rcv_missing (rcv_queue d) \<le> uint startSeq + int (length (sent d)) div 8))"
proof -
  obtain c where c: "connect startSeq = Inr c" "connection_ok ser c" "origin c = uint startSeq" by (rule connect_ok)
  moreover have "\<exists>d. run_events debug ser es c = Inr d \<and> prefix (delivered d) (sent d)
        \<and> int (length (delivered d)) = 8 * (rcv_expected (rcv_queue d) - uint startSeq)
        \<and> rcv_nxt (rcv_queue d) = word_of_int (rcv_missing (rcv_queue d))
        \<and> rcv_missing (rcv_queue d) \<le> uint startSeq + int (length (sent d)) div 8"
    if al: "all_allowed debug ser es c"
  proof -
    obtain d where d: "run_events debug ser es c = Inr d" "connection_ok ser d" using run_events_ok [OF c(2) al] by blast
    note D = connection_okD [OF d(2)]
    have o: "origin d = uint startSeq" using run_events_origin [OF d(1)] c(3) by simp
    have "int (length (delivered d)) = 8 * (rcv_expected (rcv_queue d) - uint startSeq)" using D(5,8,9) o by (auto simp: D(12))
    moreover have "prefix (delivered d) (sent d)" by (simp add: D(12) take_is_prefix)
    ultimately show ?thesis using d(1) missing_sent [OF d(2)] receive_okD(6) [OF D(7)] o by (auto simp: sent_end_def)
  qed
  ultimately show ?thesis by blast
qed

theorem tcp_stream_delivery_witness:
  "\<exists>d. run_events True blank_header example_events example_start = Inr d \<and> prefix (delivered d) (sent d)
     \<and> int (length (delivered d)) = 8 * (rcv_expected (rcv_queue d) - uint (4294967294 :: uint32))"
  using tcp_stream_delivery [of 4294967294 True blank_header example_events] example_start example_events_allowed by auto

text \<open>(C20) Whatever was lost, sending the bytes from the first missing one on and delivering that segment is enough:
  the application can then read everything that was written.\<close>

theorem tcp_stream_recovers:
  assumes "connect startSeq = Inr c" and "all_allowed debug ser es c" and "run_events debug ser es c = Inr d"
    and "rcv_missing (rcv_queue d) < sent_end d" and "sent_end d \<le> rcv_expected (rcv_queue d) + window"
    and "0 < h" and "int (length (ser hdr)) = 8 * h"
    and "rest = [Transmit (rcv_missing (rcv_queue d)) (sent_end d) hdr h, Deliver (length (segments d)), ReadUpTo (sent_end d)]"
  shows "all_allowed debug ser rest d \<and> (\<exists>e. run_events debug ser rest d = Inr e \<and> delivered e = sent e \<and> sent e = sent d)"
proof -
  obtain c' where "connect startSeq = Inr c'" "connection_ok ser c'" by (rule connect_ok)
  then have d: "connection_ok ser d" using run_events_ok [of ser c debug es] assms(1-3) by auto
  let ?m = "rcv_missing (rcv_queue d)" and ?t = "sent_end d" and ?e = "rcv_expected (rcv_queue d)"
  note D = connection_okD [OF d] and M = missing_range [OF connection_okD(7) [OF d]]
  have a1: "allowed ser d (Transmit ?m ?t hdr h)" using assms(4,6,7) D(4) by simp
  obtain p where p: "event_step debug ser (Transmit ?m ?t hdr h) d = Inr (d\<lparr>segments := segments d @ [(?m, ?t, h, p)]\<rparr>)"
      "connection_ok ser (d\<lparr>segments := segments d @ [(?m, ?t, h, p)]\<rparr>)"
    by (rule transmit_ok [OF d a1])
  define f where "f = d\<lparr>segments := segments d @ [(?m, ?t, h, p)]\<rparr>"
  have f: "connection_ok ser f" "segments f ! length (segments d) = (?m, ?t, h, p)" "rcv_queue f = rcv_queue d" "sent_end f = ?t" "sent f = sent d"
    using p(2) by (simp_all add: f_def sent_end_def)
  have a2: "allowed ser f (Deliver (length (segments d)))" using assms(4,5) M(1) by (simp add: f_def window_def)
  obtain q where q: "event_step debug ser (Deliver (length (segments d))) f = Inr (f\<lparr>rcv_queue := q\<rparr>)" "connection_ok ser (f\<lparr>rcv_queue := q\<rparr>)"
      "rcv_expected q = ?e" "\<And>j. buffered ser q j \<noteq> None \<longleftrightarrow> buffered ser (rcv_queue d) j \<noteq> None \<or> 8 * max ?m ?e \<le> j \<and> j < 8 * ?t"
    using deliver_ok [OF f(1) a2 f(2)] f(3) by metis
  define g where "g = f\<lparr>rcv_queue := q\<rparr>"
  have g: "rcv_queue g = q" "sent_end g = ?t" "sent g = sent d" using f by (simp_all add: g_def sent_end_def)
  have gok: "connection_ok ser g" using q(2) by (simp add: g_def)
  have ok: "receive_ok ser q" using connection_okD(7) [OF gok] g(1) by simp
  have miss: "rcv_missing q = ?t"
  proof (rule antisym)
    show "rcv_missing q \<le> ?t" using missing_sent [OF gok] g by simp
    show "?t \<le> rcv_missing q"
    proof (rule ccontr)
      assume less: "\<not> ?t \<le> rcv_missing q"
      have "buffered ser q (8 * rcv_missing q) \<noteq> None"
        unfolding q(4) using less M(4) [of "8 * rcv_missing q"] missing_range(1) [OF ok] q(3) M(1) by (cases "?m \<le> rcv_missing q") auto
      then show False using missing_range(5) [OF ok] by simp
    qed
  qed
  have a3: "allowed ser g (ReadUpTo ?t)" using miss g(1) missing_range(1) [OF ok] by simp
  obtain r ds where r: "event_step debug ser (ReadUpTo ?t) g = Inr (g\<lparr>rcv_queue := r, delivered := ds\<rparr>)"
      "connection_ok ser (g\<lparr>rcv_queue := r, delivered := ds\<rparr>)" "rcv_expected r = ?t"
    by (rule read_ok [OF gok a3])
  have "delivered (g\<lparr>rcv_queue := r, delivered := ds\<rparr>) = take (nat (8 * (?t - origin g))) (sent g)" using connection_okD(12) [OF r(2)] r(3) by simp
  moreover have "int (length (sent g)) = 8 * (?t - origin g)" using connection_okD(5) [OF gok] g(2) by simp
  ultimately have "ds = sent g" by simp
  then show ?thesis
    using a1 a2 a3 p(1) q(1) r(1) g(3) unfolding assms(8) f_def [symmetric] g_def [symmetric] by simp
qed

theorem tcp_stream_recovers_witness:
  "\<exists>d e. run_events True blank_header [Transmit (rcv_missing (rcv_queue example_lost)) (sent_end example_lost) () 20,
       Deliver (length (segments example_lost)), ReadUpTo (sent_end example_lost)] example_lost = Inr e \<and> delivered e = sent example_lost"
  using tcp_stream_recovers [OF example_start example_loss_allowed example_lost, of 20 "()"] example_lost_state
  by (auto simp: blank_header_def)

end
