(* ===== verification/Ipv4Frag.thy ===== *)
theory Ipv4Frag
  imports PacketSpec ChunkBufferSpec SackQueue Ipv4Addr
begin

text \<open>
  Fragmentation and reassembly of IPv4 datagrams (\<open>networklayer/ipv4/Ipv4FragBuf\<close> and \<open>fragmentAndSend\<close> of
  \<open>networklayer/ipv4/Ipv4.cc\<close> in the INET framework). Packets begin with an IPv4 header object; a header that would have
  to be deserialized first is an error here. Header checksums, tags, names of packets and log output are left
  out (\<open>crcMode\<close> is not \<open>CRC_COMPUTED\<close>). Lengths and offsets of headers are in bytes.
\<close>

section \<open>Headers\<close>

text \<open>\<open>h_other\<close> stands for the fields that are only copied.\<close>

record 'o Ipv4Header =
  headerLength :: int
  srcAddress :: Ipv4Address
  destAddress :: Ipv4Address
  timeToLive :: int
  identification :: int
  moreFragments :: bool
  dontFragment :: bool
  fragmentOffset :: int
  totalLengthField :: int
  h_other :: 'o

datatype ('o, 'f) ip_object = Ipv4Object "'o Ipv4Header" | OtherObject 'f

type_synonym ('o, 'f) ip_packet = "('o, 'f) ip_object Packet"

definition header_chunk :: "'o Ipv4Header \<Rightarrow> int \<Rightarrow> ('o, 'f) ip_object chunk" where
  "header_chunk h n = Elem (FieldsChunk (Ipv4Object h) n)"

text \<open>\<open>peekAtFront<Ipv4Header>()\<close>: the header with the length of its chunk.\<close>

definition peekIpv4Header :: "('o, 'f) ip_packet \<Rightarrow> error + 'o Ipv4Header \<times> int" where
  "peekIpv4Header p =
     ebind (peekAtFront (- 1) p) (\<lambda>c. case c of Elem (FieldsChunk (Ipv4Object h) n) \<Rightarrow> Inr (h, n) | _ \<Rightarrow> Inl RuntimeError)"

definition getByteLength :: "'f Packet \<Rightarrow> int" where
  "getByteLength p = (getDataLength p + 7) div 8"

section \<open>Fragmentation\<close>

datatype ('o, 'f) frag_result =
    SendUnchanged "('o, 'f) ip_packet"
  | SendFragments "('o, 'f) ip_packet list"
  | TimeExceeded "('o, 'f) ip_packet"
  | FragmentationNeeded "('o, 'f) ip_packet"

definition make_fragment :: "'o Ipv4Header \<Rightarrow> int \<Rightarrow> int \<Rightarrow> int \<Rightarrow> bool \<Rightarrow> ('o, 'f) ip_packet \<Rightarrow> error + ('o, 'f) ip_packet" where
  "make_fragment ipv4Header n offset thisFragmentLength lastFragment p =
     (let fraghdr = ipv4Header in
      ebind (peekDataAt (8 * (headerLength ipv4Header + offset)) (8 * thisFragmentLength) p) (\<lambda>fragData.
      ASSERT (getChunkLength fragData = 8 * thisFragmentLength)
        (ebind (Packet_insertAtBack fragData Packet_new) (\<lambda>fragment.
           let fraghdr = (if \<not> lastFragment then fraghdr\<lparr>moreFragments := True\<rparr> else fraghdr);
               fraghdr = fraghdr\<lparr>fragmentOffset := fragmentOffset ipv4Header + offset\<rparr>;
               fraghdr = fraghdr\<lparr>totalLengthField := headerLength ipv4Header + thisFragmentLength\<rparr>
           in ebind (Packet_insertAtFront (header_chunk fraghdr n) fragment) (\<lambda>fragment.
              ASSERT (getByteLength fragment = headerLength ipv4Header + thisFragmentLength) (Inr fragment))))))"

text \<open>The loop; the caller has checked that \<open>fragmentLength\<close> is positive.\<close>

function fragment_loop :: "'o Ipv4Header \<Rightarrow> int \<Rightarrow> int \<Rightarrow> int \<Rightarrow> ('o, 'f) ip_packet \<Rightarrow> int \<Rightarrow> error + ('o, 'f) ip_packet list" where
  "fragment_loop ipv4Header n payloadLength fragmentLength p offset =
     (if offset < payloadLength \<and> 0 < fragmentLength
      then let lastFragment = (offset + fragmentLength \<ge> payloadLength);
               thisFragmentLength = (if lastFragment then payloadLength - offset else fragmentLength)
           in ebind (make_fragment ipv4Header n offset thisFragmentLength lastFragment p) (\<lambda>fragment.
              ebind (fragment_loop ipv4Header n payloadLength fragmentLength p (offset + thisFragmentLength)) (\<lambda>fs.
                Inr (fragment # fs)))
      else Inr [])"
  by pat_completeness auto
termination by (relation "measure (\<lambda>(h, n, payloadLength, fragmentLength, p, offset). nat (payloadLength - offset))") (auto simp: Let_def)

declare fragment_loop.simps [simp del]

text \<open>Division of C rounds towards zero.\<close>

definition payload_limit :: "int \<Rightarrow> int \<Rightarrow> int" where
  "payload_limit mtu n = (if n \<le> mtu then (mtu - n) div 8 else - ((n - mtu) div 8)) * 8"

definition fragmentAndSend :: "int \<Rightarrow> ('o, 'f) ip_packet \<Rightarrow> error + ('o, 'f) frag_result" where
  "fragmentAndSend mtu p =
     ebind (peekIpv4Header p) (\<lambda>(ipv4Header, n).
       if timeToLive ipv4Header \<le> 0 then Inr (TimeExceeded p)
       else if mtu = 0 \<or> getByteLength p \<le> mtu then Inr (SendUnchanged p)
       else if dontFragment ipv4Header then Inr (FragmentationNeeded p)
       else ebind (to_B (getDataLength p)) (\<lambda>dataLength.
            let payloadLength = dataLength - headerLength ipv4Header;
                fragmentLength = payload_limit mtu (headerLength ipv4Header)
            in if fragmentLength \<le> 0 then Inl RuntimeError
               else ebind (fragment_loop ipv4Header n payloadLength fragmentLength p 0) (\<lambda>fs. Inr (SendFragments fs))))"

section \<open>The reassembly buffers\<close>

datatype FragKey = FragKey (key_id: "16 word") (key_src: Ipv4Address) (key_dest: Ipv4Address)

text \<open>\<open>Key::operator<\<close>\<close>

instantiation FragKey :: linorder
begin

definition less_FragKey :: "FragKey \<Rightarrow> FragKey \<Rightarrow> bool" where
  "less_FragKey a b = (if key_id a \<noteq> key_id b then key_id a < key_id b
     else if key_src a \<noteq> key_src b then key_src a < key_src b else key_dest a < key_dest b)"

definition less_eq_FragKey :: "FragKey \<Rightarrow> FragKey \<Rightarrow> bool" where
  "less_eq_FragKey a b \<longleftrightarrow> a = b \<or> a < b"

instance
  by standard (auto simp: less_FragKey_def less_eq_FragKey_def FragKey.expand split: if_splits)

end

record ('o, 'f) DatagramBuffer =
  db_buf :: "('o, 'f) ip_object ReassemblyBuffer"
  db_packet :: "('o, 'f) ip_packet option"
  db_lastupdate :: simtime

definition DatagramBuffer_new :: "('o, 'f) DatagramBuffer" where
  "DatagramBuffer_new = \<lparr>db_buf = \<lparr>parts = [], expectedLength = - 1\<rparr>, db_packet = None, db_lastupdate = 0\<rparr>"

text \<open>\<open>std::map\<close>: the entries in the order of their keys.\<close>

type_synonym ('o, 'f) frag_buffers = "(FragKey \<times> ('o, 'f) DatagramBuffer) list"

fun bufs_put :: "'k :: linorder \<Rightarrow> 'v \<Rightarrow> ('k \<times> 'v) list \<Rightarrow> ('k \<times> 'v) list" where
  "bufs_put k v [] = [(k, v)]"
| "bufs_put k v ((k', v') # bs) = (if k < k' then (k, v) # (k', v') # bs else if k = k' then (k, v) # bs else (k', v') # bufs_put k v bs)"

definition bufs_erase :: "'k \<Rightarrow> ('k \<times> 'v) list \<Rightarrow> ('k \<times> 'v) list" where
  "bufs_erase k bs = filter (\<lambda>(k', v). k' \<noteq> k) bs"

definition frag_key :: "'o Ipv4Header \<Rightarrow> FragKey" where
  "frag_key h = FragKey (word_of_int (identification h)) (srcAddress h) (destAddress h)"

text \<open>The complete datagram, made of the packet kept and the data of the buffer.\<close>

definition reassembled :: "('o, 'f) ip_packet \<Rightarrow> ('o, 'f) ip_object ReassemblyBuffer \<Rightarrow> error + ('o, 'f) ip_packet" where
  "reassembled pk b =
     ebind (peekIpv4Header pk) (\<lambda>(hdr, n).
     ebind (getReassembledData b) (\<lambda>payload.
     ebind (to_B (8 * headerLength hdr + getChunkLength payload)) (\<lambda>total.
       let hdr = hdr\<lparr>totalLengthField := total, fragmentOffset := 0, moreFragments := False\<rparr>
       in ebind (Packet_insertAtFront (header_chunk hdr n) (snd (Packet_removeAll pk))) (Packet_insertAtBack payload))))"

definition addFragment :: "('o, 'f) ip_packet \<Rightarrow> simtime \<Rightarrow> ('o, 'f) frag_buffers \<Rightarrow> error + ('o, 'f) ip_packet option \<times> ('o, 'f) frag_buffers" where
  "addFragment p now bufs =
     ebind (peekIpv4Header p) (\<lambda>(ipv4Header, n).
       let key = frag_key ipv4Header;
           curBuf = (case map_of bufs key of None \<Rightarrow> DatagramBuffer_new | Some b \<Rightarrow> b)
       in ASSERT (totalLengthField ipv4Header > headerLength ipv4Header)
            (let bytes = totalLengthField ipv4Header - headerLength ipv4Header in
             ebind (peekDataAt (8 * headerLength ipv4Header) (8 * bytes) p) (\<lambda>data.
             ebind (ChunkBuffer_replace (8 * fragmentOffset ipv4Header) data (parts (db_buf curBuf))) (\<lambda>rs.
               let b = (db_buf curBuf)\<lparr>parts := rs\<rparr>;
                   b = (if \<not> moreFragments ipv4Header then b\<lparr>expectedLength := 8 * (fragmentOffset ipv4Header + bytes)\<rparr> else b);
                   pk = (if fragmentOffset ipv4Header = 0 then p else case db_packet curBuf of None \<Rightarrow> p | Some pk \<Rightarrow> pk)
               in if isComplete b
                  then ebind (reassembled pk b) (\<lambda>pk. Inr (Some pk, bufs_erase key bufs))
                  else Inr (None, bufs_put key \<lparr>db_buf = b, db_packet = Some pk, db_lastupdate = now\<rparr> bufs)))))"

text \<open>The result: the packets an ICMP error is sent for, in order, and the remaining buffers.\<close>

fun purgeStaleFragments :: "simtime \<Rightarrow> ('o, 'f) frag_buffers \<Rightarrow> ('o, 'f) ip_packet list \<times> ('o, 'f) frag_buffers" where
  "purgeStaleFragments lastupdate [] = ([], [])"
| "purgeStaleFragments lastupdate ((k, buf) # bs) =
     (let (errors, rest) = purgeStaleFragments lastupdate bs
      in if db_lastupdate buf < lastupdate
         then (case db_packet buf of None \<Rightarrow> errors | Some pk \<Rightarrow> pk # errors, rest)
         else (errors, (k, buf) # rest))"

definition flush :: "('o, 'f) frag_buffers \<Rightarrow> ('o, 'f) frag_buffers" where
  "flush bufs = []"

section \<open>Local delivery\<close>

record ('o, 'f) Ipv4 =
  fragbuf :: "('o, 'f) frag_buffers"
  lastCheckTime :: simtime

text \<open>
  The first part of \<open>reassembleAndDeliver\<close>: the packet to hand to the upper layer, if there is one, and the packets ICMP
  errors are sent for. \<open>tenSeconds\<close> is 10 s and \<open>fragmentTimeoutTime\<close> the parameter, both in simulation time.
\<close>

definition reassemble ::
  "simtime \<Rightarrow> simtime \<Rightarrow> simtime \<Rightarrow> ('o, 'f) ip_packet \<Rightarrow> ('o, 'f) Ipv4 \<Rightarrow> error + ('o, 'f) ip_packet option \<times> ('o, 'f) ip_packet list \<times> ('o, 'f) Ipv4" where
  "reassemble tenSeconds fragmentTimeoutTime now p st =
     ebind (peekIpv4Header p) (\<lambda>(ipv4Header, n).
       if fragmentOffset ipv4Header \<noteq> 0 \<or> moreFragments ipv4Header
       then let (errors, st) =
                  (if now \<ge> lastCheckTime st + tenSeconds
                   then let (errors, bufs) = purgeStaleFragments (now - fragmentTimeoutTime) (fragbuf st)
                        in (errors, st\<lparr>lastCheckTime := now, fragbuf := bufs\<rparr>)
                   else ([], st))
            in ebind (addFragment p now (fragbuf st)) (\<lambda>(pk, bufs). Inr (pk, errors, st\<lparr>fragbuf := bufs\<rparr>))
       else Inr (Some p, [], st))"

end
