(* ===== verification/Ipv4FragSpec.thy ===== *)
theory Ipv4FragSpec
  imports Ipv4Frag
begin

text \<open>
  Reassembly is the inverse of fragmentation: fragments of any number of datagrams, in any order, with repetitions
  and overlaps, give back the datagrams they were cut from. The buffers refine a map from datagrams to the sets of
  bytes that have arrived.
\<close>

section \<open>Sorted entries\<close>

abbreviation keys_sorted :: "('k :: linorder \<times> 'v) list \<Rightarrow> bool" where
  "keys_sorted bs \<equiv> sorted_wrt (<) (map fst bs)"

lemma keys_put: "set (map fst (bufs_put k v bs)) = insert k (set (map fst bs))"
proof (induction bs)
  case (Cons b bs)
  then show ?case by (cases b) (simp add: insert_commute)
qed simp

lemma keys_sorted_put: "keys_sorted bs \<Longrightarrow> keys_sorted (bufs_put k v bs)"
proof (induction bs)
  case (Cons b bs)
  obtain k' v' where b: "b = (k', v')" by fastforce
  have "k' < x" if "k' < k" "x \<in> set (map fst (bufs_put k v bs))" for x
    using that Cons.prems b by (auto simp: keys_put simp del: set_map)
  then show ?case using Cons b by (auto simp del: set_map)
qed simp

lemma map_of_put: "keys_sorted bs \<Longrightarrow> map_of (bufs_put k v bs) = (map_of bs)(k \<mapsto> v)"
proof (induction bs)
  case (Cons b bs)
  then show ?case by (cases b) (auto simp: fun_eq_iff)
qed auto

lemma map_of_erase: "map_of (bufs_erase k bs) = (map_of bs)(k := None)"
  by (induction bs) (auto simp: bufs_erase_def fun_eq_iff)

lemma keys_sorted_erase: "keys_sorted bs \<Longrightarrow> keys_sorted (bufs_erase k bs)"
  by (induction bs) (auto simp: bufs_erase_def)

section \<open>Headers at the front\<close>

definition starts_with :: "'o Ipv4Header \<Rightarrow> int \<Rightarrow> ('o, 'f) ip_packet \<Rightarrow> bool" where
  "starts_with h n p \<longleftrightarrow> content p = header_chunk h n \<or> (\<exists>es. content p = SequenceChunk (FieldsChunk (Ipv4Object h) n # es))"

lemma peek_starts:
  assumes p: "packet_ok ser p" "at_front p" "starts_with h n p" and n: "0 < n" "n \<le> getDataLength p"
  shows "peekIpv4Header p = Inr (h, n)"
proof -
  have it: "position (frontIterator p) = 0" "index (frontIterator p) = 0 \<or> index (frontIterator p) = - 1" using p(2) by (auto simp: at_front_def)
  have fw: "isForward (frontIterator p)" using p(1) iterator_ok_forward by (auto simp: packet_ok_def)
  have "0 \<le> seq_length es" if "content p = SequenceChunk (FieldsChunk (Ipv4Object h) n # es)" for es
    using p(1) that seq_length_nonneg [of ser es] by (simp add: packet_ok_def)
  then have "Chunk_peek (content p) (frontIterator p) (- 1) = Inr (header_chunk h n)"
    using p(3) it fw n(1) unfolding starts_with_def
    by (auto simp: header_chunk_def Chunk_peek_def checkPeekResult_def FieldsChunk_peekUnchecked_def peek_part_def CHUNK_CHECK_USAGE_def
      SequenceChunk_peekUnchecked_def indexed_element_def from_side_def seq_length_def)
  then show ?thesis
    using n by (simp add: peekIpv4Header_def peekAtFront_def CHUNK_CHECK_USAGE_def header_chunk_def)
qed

lemma no_fields_at_front: "\<not> elem_canInsertAtFront e (FieldsChunk f n)"
  by (cases e) simp_all

lemma no_fields_at_back: "\<not> elem_canInsertAtBack (FieldsChunk f n) e"
  by simp

lemma insertAtFront_starts:
  assumes "Packet_insertAtFront (header_chunk h n) p = Inr q" and "wf_chunk ser (content p)" and "0 < n"
  shows "starts_with h n q"
proof (cases "content p")
  case (Elem e)
  then show ?thesis using assms(1)
    by (auto simp: Packet_insertAtFront_def CHUNK_CHECK_USAGE_def header_chunk_def join_front_def no_fields_at_front doInsertChunkAtFront_def
      starts_with_def ebind_eq_Inr split: if_splits)
next
  case (SequenceChunk es)
  have "simplify (SequenceChunk (FieldsChunk (Ipv4Object h) n # es)) = Inr (SequenceChunk (FieldsChunk (Ipv4Object h) n # es))"
  proof -
    have "0 \<le> seq_length es" using assms(2) SequenceChunk seq_length_nonneg [of ser es] by simp
    then show ?thesis using assms(3)
      by (auto simp: simplify_def Chunk_peek_def SequenceChunk_peekUnchecked_def CHUNK_CHECK_USAGE_def Iterator_at_def checkPeekResult_def seq_length_def)
  qed
  moreover have "seq_insertAtFront (header_chunk h n) es = Inr (FieldsChunk (Ipv4Object h) n # es)"
    using assms(3) by (auto simp: header_chunk_def doInsertChunkAtFront_def CHUNK_CHECK_USAGE_def no_fields_at_front split: list.split)
  ultimately show ?thesis using assms(1) SequenceChunk
    by (auto simp: Packet_insertAtFront_def CHUNK_CHECK_USAGE_def join_front_def starts_with_def header_chunk_def split: if_splits)
qed (use assms in \<open>auto simp: Packet_insertAtFront_def CHUNK_CHECK_USAGE_def starts_with_def header_chunk_def split: if_splits\<close>)

section \<open>Fragments of a datagram\<close>

text \<open>A datagram is its header \<open>h0\<close> and its payload \<open>P\<close> in bits. Headers of fragments differ in three fields.\<close>

definition same_datagram :: "'o Ipv4Header \<Rightarrow> 'o Ipv4Header \<Rightarrow> bool" where
  "same_datagram h h0 \<longleftrightarrow> h = h0\<lparr>moreFragments := moreFragments h, fragmentOffset := fragmentOffset h, totalLengthField := totalLengthField h\<rparr>"

definition frag_bytes :: "'o Ipv4Header \<Rightarrow> int" where
  "frag_bytes h = totalLengthField h - headerLength h"

definition payload_length :: "bool list \<Rightarrow> int" where
  "payload_length P = int (length P) div 8"

definition piece_header :: "'o Ipv4Header \<Rightarrow> bool list \<Rightarrow> 'o Ipv4Header \<Rightarrow> bool" where
  "piece_header h0 P h \<longleftrightarrow> same_datagram h h0 \<and> 0 \<le> fragmentOffset h \<and> 0 < frag_bytes h
     \<and> fragmentOffset h + frag_bytes h \<le> payload_length P \<and> (moreFragments h \<longleftrightarrow> fragmentOffset h + frag_bytes h < payload_length P)"

definition fragment_of ::
  "(('o, 'f) ip_object \<Rightarrow> bool list) \<Rightarrow> 'o Ipv4Header \<Rightarrow> bool list \<Rightarrow> 'o Ipv4Header \<Rightarrow> ('o, 'f) ip_packet \<Rightarrow> bool" where
  "fragment_of ser h0 P h p \<longleftrightarrow> packet_ok ser p \<and> peekIpv4Header p = Inr (h, 8 * headerLength h0) \<and> piece_header h0 P h
     \<and> 8 * totalLengthField h \<le> getDataLength p
     \<and> part (8 * headerLength h) (8 * frag_bytes h) (data_bits ser p) = part (8 * fragmentOffset h) (8 * frag_bytes h) P"

definition datagram_ok :: "(('o, 'f) ip_object \<Rightarrow> bool list) \<Rightarrow> 'o Ipv4Header \<Rightarrow> bool list \<Rightarrow> bool" where
  "datagram_ok ser h0 P \<longleftrightarrow> 0 < headerLength h0 \<and> 8 dvd length P \<and> P \<noteq> []
     \<and> (\<forall>h. same_datagram h h0 \<longrightarrow> int (length (ser (Ipv4Object h))) = 8 * headerLength h0)"

lemma same_datagramE:
  assumes "same_datagram h h0"
  obtains m f t where "h = h0\<lparr>moreFragments := m, fragmentOffset := f, totalLengthField := t\<rparr>"
  using assms unfolding same_datagram_def by blast

lemma same_datagramD:
  assumes "same_datagram h h0"
  shows "headerLength h = headerLength h0" and "frag_key h = frag_key h0" and "timeToLive h = timeToLive h0"
    and "dontFragment h = dontFragment h0" and "h_other h = h_other h0"
  by (rule same_datagramE [OF assms], simp add: frag_key_def)+

lemma same_datagram_update [simp]:
  assumes "same_datagram h h0"
  shows "same_datagram (h\<lparr>moreFragments := m\<rparr>) h0" and "same_datagram (h\<lparr>fragmentOffset := f\<rparr>) h0" and "same_datagram (h\<lparr>totalLengthField := t\<rparr>) h0"
  by (rule same_datagramE [OF assms], simp add: same_datagram_def)+

lemma header_chunk_ok:
  fixes ser :: "('o, 'f) ip_object \<Rightarrow> bool list"
  assumes "datagram_ok ser h0 P" and "same_datagram h h0"
  shows "wf_chunk ser (header_chunk h (8 * headerLength h0))" and "getChunkLength (header_chunk h (8 * headerLength h0) :: ('o, 'f) ip_object chunk) = 8 * headerLength h0"
    and "chunk_bits ser (header_chunk h (8 * headerLength h0)) = ser (Ipv4Object h)" and "int (length (ser (Ipv4Object h))) = 8 * headerLength h0"
  using assms by (simp_all add: header_chunk_def datagram_ok_def)

text \<open>One round of the loop cuts the bytes \<open>[offset, offset + n)\<close> out of a fragment.\<close>

lemma make_fragment_spec:
  assumes d: "datagram_ok ser h0 P" and p: "fragment_of ser h0 P h p" "8 * totalLengthField h = getDataLength p"
    and n: "0 \<le> ofs" "0 < n" "ofs + n \<le> frag_bytes h" "final \<longleftrightarrow> ofs + n = frag_bytes h"
  obtains g f where "make_fragment h (8 * headerLength h0) ofs n final p = Inr f" and "fragment_of ser h0 P g f"
    and "8 * totalLengthField g = getDataLength f" and "fragmentOffset g = fragmentOffset h + ofs" and "frag_bytes g = n"
proof -
  have F: "packet_ok ser p" "same_datagram h h0" "0 \<le> fragmentOffset h" "fragmentOffset h + frag_bytes h \<le> payload_length P"
      "moreFragments h \<longleftrightarrow> fragmentOffset h + frag_bytes h < payload_length P"
      "part (8 * headerLength h) (8 * frag_bytes h) (data_bits ser p) = part (8 * fragmentOffset h) (8 * frag_bytes h) P"
    using p(1) by (auto simp: fragment_of_def piece_header_def)
  note hl = same_datagramD(1) [OF F(2)]
  have pos: "0 < headerLength h0" using d by (simp add: datagram_ok_def)
  obtain c where c: "peekDataAt (8 * (headerLength h + ofs)) (8 * n) p = Inr c" "wf_chunk ser c" "getChunkLength c = 8 * n"
      "chunk_bits ser c = part (8 * (headerLength h + ofs)) (8 * n) (data_bits ser p)"
    by (rule peekDataAt_spec [OF F(1), of "8 * (headerLength h + ofs)" "8 * n"]) (use n p(2) hl pos in \<open>auto simp: frag_bytes_def\<close>)
  have "part (8 * ofs) (8 * n) (part (8 * headerLength h) (8 * frag_bytes h) (data_bits ser p)) = chunk_bits ser c"
    using n hl pos by (subst part_part) (auto simp: c(4) algebra_simps)
  then have bits: "chunk_bits ser c = part (8 * (fragmentOffset h + ofs)) (8 * n) P"
    unfolding F(6) using n F(3) by (subst (asm) part_part) (auto simp: algebra_simps)
  obtain q where q: "Packet_insertAtBack c Packet_new = Inr q" "packet_ok ser q" "at_front q" "data_bits ser q = chunk_bits ser c"
    using packet_insertAtBack_spec [of ser Packet_new c] c(2,3) n(2) by auto
  define g where "g = (if \<not> final then h\<lparr>moreFragments := True\<rparr> else h)\<lparr>fragmentOffset := fragmentOffset h + ofs, totalLengthField := headerLength h + n\<rparr>"
  have g: "same_datagram g h0" "fragmentOffset g = fragmentOffset h + ofs" "totalLengthField g = headerLength h + n"
      "moreFragments g \<longleftrightarrow> \<not> final \<or> moreFragments h" "headerLength g = headerLength h0"
    using F(2) hl by (auto simp: g_def)
  have gb: "frag_bytes g = n" using g(3,5) hl by (simp add: frag_bytes_def)
  note H = header_chunk_ok [OF d g(1)]
  obtain f where f: "Packet_insertAtFront (header_chunk g (8 * headerLength h0)) q = Inr f" "packet_ok ser f" "at_front f"
      "data_bits ser f = ser (Ipv4Object g) @ data_bits ser q"
    by (rule packet_insertAtFront_spec [OF q(2) H(1) _ q(3)]) (use H(2,3) pos in auto)
  have len: "getDataLength f = 8 * (headerLength h0 + n)"
    using length_data_bits [OF f(2)] f(4) q(4) length_chunk_bits [OF c(2)] c(3) H(4) by simp
  have gl: "getByteLength f = headerLength h0 + n" using len by (simp add: getByteLength_def)
  have mk: "make_fragment h (8 * headerLength h0) ofs n final p = Inr f"
    using c(1,3) q(1) f(1) gl hl by (cases final) (simp_all add: make_fragment_def Let_def g_def)
  have st: "starts_with g (8 * headerLength h0) f"
    using insertAtFront_starts [OF f(1), where ser = ser] q(2) pos by (simp add: packet_ok_def)
  then have "peekIpv4Header f = Inr (g, 8 * headerLength h0)" using f(2,3) pos len n(2) by (intro peek_starts) auto
  moreover have "piece_header h0 P g" using F n g gb by (auto simp: piece_header_def)
  moreover have "part (8 * headerLength g) (8 * n) (data_bits ser f) = part (8 * fragmentOffset g) (8 * n) P"
  proof -
    have "int (length (chunk_bits ser c)) = 8 * n" using length_chunk_bits [OF c(2)] c(3) by simp
    then have "part (8 * headerLength g) (8 * n) (data_bits ser f) = chunk_bits ser c"
      using f(4) q(4) H(4) g(5) by (simp add: part_append_right)
    then show ?thesis using bits g(2) by simp
  qed
  ultimately have "fragment_of ser h0 P g f" using f(2) len g hl gb by (simp add: fragment_of_def)
  then show thesis using that mk len g hl gb by simp
qed

definition frag_range :: "'o Ipv4Header \<Rightarrow> int set" where
  "frag_range h = {fragmentOffset h..<fragmentOffset h + frag_bytes h}"

text \<open>Fragments with their headers that cover the bytes \<open>I\<close> of the payload once.\<close>

definition fragments_of ::
  "(('o, 'f) ip_object \<Rightarrow> bool list) \<Rightarrow> 'o Ipv4Header \<Rightarrow> bool list \<Rightarrow> ('o Ipv4Header \<times> ('o, 'f) ip_packet) list \<Rightarrow> int set \<Rightarrow> bool" where
  "fragments_of ser h0 P fs I \<longleftrightarrow> (\<forall>(g, f)\<in>set fs. fragment_of ser h0 P g f \<and> 8 * totalLengthField g = getDataLength f)
     \<and> (\<Union>(g, f)\<in>set fs. frag_range g) = I \<and> finite I \<and> sum_list (map (\<lambda>(g, f). frag_bytes g) fs) = int (card I)"

lemma fragment_loop_spec:
  assumes d: "datagram_ok ser h0 P" and p: "fragment_of ser h0 P h p" "8 * totalLengthField h = getDataLength p" and l: "0 < l"
  shows "0 \<le> ofs \<Longrightarrow> ofs \<le> frag_bytes h \<Longrightarrow> \<exists>fs. fragment_loop h (8 * headerLength h0) (frag_bytes h) l p ofs = Inr (map snd fs)
     \<and> fragments_of ser h0 P fs {fragmentOffset h + ofs..<fragmentOffset h + frag_bytes h}
     \<and> (\<forall>(g, f)\<in>set fs. frag_bytes g \<le> l \<and> (8 dvd l \<longrightarrow> 8 dvd fragmentOffset h + ofs \<longrightarrow> 8 dvd fragmentOffset g))"
proof (induction "nat (frag_bytes h - ofs)" arbitrary: ofs rule: less_induct)
  case less
  show ?case
  proof (cases "ofs < frag_bytes h")
    case False
    then have "fragment_loop h (8 * headerLength h0) (frag_bytes h) l p ofs = Inr (map snd [])" by (simp add: fragment_loop.simps)
    then show ?thesis using False by (intro exI [of _ "[]"]) (simp add: fragments_of_def)
  next
    case True
    define n where "n = (if ofs + l \<ge> frag_bytes h then frag_bytes h - ofs else l)"
    have n: "0 < n" "ofs + n \<le> frag_bytes h" "n \<le> l" "(ofs + l \<ge> frag_bytes h) \<longleftrightarrow> ofs + n = frag_bytes h" "ofs + n = frag_bytes h \<or> n = l"
      using True l by (auto simp: n_def)
    obtain g f where g: "make_fragment h (8 * headerLength h0) ofs n (ofs + l \<ge> frag_bytes h) p = Inr f" "fragment_of ser h0 P g f"
        "8 * totalLengthField g = getDataLength f" "fragmentOffset g = fragmentOffset h + ofs" "frag_bytes g = n"
      by (rule make_fragment_spec [OF d p less.prems(1) n(1,2,4)])
    obtain fs where fs: "fragment_loop h (8 * headerLength h0) (frag_bytes h) l p (ofs + n) = Inr (map snd fs)"
        "fragments_of ser h0 P fs {fragmentOffset h + (ofs + n)..<fragmentOffset h + frag_bytes h}"
        "\<forall>(g, f)\<in>set fs. frag_bytes g \<le> l \<and> (8 dvd l \<longrightarrow> 8 dvd fragmentOffset h + (ofs + n) \<longrightarrow> 8 dvd fragmentOffset g)"
      using less.hyps [of "ofs + n"] n(1,2) less.prems by auto
    have "fragment_loop h (8 * headerLength h0) (frag_bytes h) l p ofs = Inr (map snd ((g, f) # fs))"
      using True l g(1) fs(1) by (subst fragment_loop.simps) (simp add: Let_def flip: n_def)
    moreover have I: "{fragmentOffset h + ofs..<fragmentOffset h + frag_bytes h}
        = frag_range g \<union> {fragmentOffset h + (ofs + n)..<fragmentOffset h + frag_bytes h}"
      using n(1,2) g(4,5) by (auto simp: frag_range_def)
    moreover have "fragments_of ser h0 P ((g, f) # fs) {fragmentOffset h + ofs..<fragmentOffset h + frag_bytes h}"
    proof -
      have "(\<Union>(g, f)\<in>set ((g, f) # fs). frag_range g) = {fragmentOffset h + ofs..<fragmentOffset h + frag_bytes h}"
        unfolding I using fs(2) by (simp add: fragments_of_def)
      moreover have "sum_list (map (\<lambda>(g, f). frag_bytes g) ((g, f) # fs)) = int (card {fragmentOffset h + ofs..<fragmentOffset h + frag_bytes h})"
        using fs(2) n(1,2) g(5) by (simp add: fragments_of_def)
      ultimately show ?thesis using fs(2) g(2,3) unfolding fragments_of_def by simp
    qed
    moreover have "8 dvd fragmentOffset g'" if "(g', f') \<in> set fs" "8 dvd l" "8 dvd fragmentOffset h + ofs" for g' f'
    proof (cases "ofs + n = frag_bytes h")
      case True
      then have "\<Union> ((\<lambda>(g, f). frag_range g) ` set fs) = {}" using fs(2) by (simp add: fragments_of_def)
      then have "frag_range g' = {}" using that(1) by auto
      moreover have "0 < frag_bytes g'" using fs(2) that(1) by (auto simp: fragments_of_def fragment_of_def piece_header_def)
      ultimately show ?thesis by (simp add: frag_range_def)
    next
      case False
      then have "8 dvd fragmentOffset h + (ofs + n)" using n(5) that(2,3) by (metis add.assoc dvd_add)
      then show ?thesis using fs(3) that(1,2) by auto
    qed
    ultimately show ?thesis using fs(3) g(4,5) n(3) by (intro exI [of _ "(g, f) # fs"]) auto
  qed
qed

section \<open>The buffer of a datagram\<close>

definition payload_map :: "bool list \<Rightarrow> int \<Rightarrow> bool option" where
  "payload_map P i = (if 0 \<le> i \<and> i < 8 * payload_length P then Some (P ! nat i) else None)"

text \<open>The bytes that have arrived.\<close>

definition received :: "(('o, 'f) ip_object \<Rightarrow> bool list) \<Rightarrow> ('o, 'f) ip_object BufRegion list \<Rightarrow> int set" where
  "received ser rs = {i. bit_at ser rs (8 * i) \<noteq> None}"

definition parts_ok :: "(('o, 'f) ip_object \<Rightarrow> bool list) \<Rightarrow> bool list \<Rightarrow> ('o, 'f) ip_object BufRegion list \<Rightarrow> bool" where
  "parts_ok ser P rs \<longleftrightarrow> regions_ok ser rs \<and> bit_at ser rs \<subseteq>\<^sub>m payload_map P \<and> (\<forall>j. bit_at ser rs j \<noteq> None \<longleftrightarrow> j div 8 \<in> received ser rs)"

definition expected_for :: "bool list \<Rightarrow> int set \<Rightarrow> int" where
  "expected_for P R = (if payload_length P - 1 \<in> R then 8 * payload_length P else - 1)"

definition buffer_ok ::
  "(('o, 'f) ip_object \<Rightarrow> bool list) \<Rightarrow> 'o Ipv4Header \<Rightarrow> bool list \<Rightarrow> ('o, 'f) DatagramBuffer \<Rightarrow> bool" where
  "buffer_ok ser h0 P b \<longleftrightarrow> parts_ok ser P (parts (db_buf b)) \<and> expectedLength (db_buf b) = expected_for P (received ser (parts (db_buf b)))
     \<and> (\<forall>pk. db_packet b = Some pk \<longrightarrow> (\<exists>h. fragment_of ser h0 P h pk))"

lemma buffer_ok_new: "buffer_ok ser h0 P DatagramBuffer_new" "received ser (parts (db_buf DatagramBuffer_new)) = {}"
  by (simp_all add: buffer_ok_def DatagramBuffer_new_def parts_ok_def received_def expected_for_def map_le_def dom_def)

lemma received_within:
  assumes "parts_ok ser P rs"
  shows "received ser rs \<subseteq> {0..<payload_length P}"
proof
  fix i assume "i \<in> received ser rs"
  then obtain b where "bit_at ser rs (8 * i) = Some b" by (auto simp: received_def)
  then have "payload_map P (8 * i) = Some b" using assms by (force simp: parts_ok_def map_le_def)
  then show "i \<in> {0..<payload_length P}" by (auto simp: payload_map_def split: if_splits)
qed

text \<open>Storing the data of a fragment.\<close>

lemma store_fragment:
  assumes b: "parts_ok ser P rs" and h: "piece_header h0 P h"
    and c: "wf_chunk ser c" "getChunkLength c = 8 * frag_bytes h" "chunk_bits ser c = part (8 * fragmentOffset h) (8 * frag_bytes h) P"
  obtains rs' where "ChunkBuffer_replace (8 * fragmentOffset h) c rs = Inr rs'" and "parts_ok ser P rs'"
    and "received ser rs' = received ser rs \<union> frag_range h"
proof -
  have H: "0 \<le> fragmentOffset h" "0 < frag_bytes h" "fragmentOffset h + frag_bytes h \<le> payload_length P" using h by (auto simp: piece_header_def)
  have B: "regions_ok ser rs" "bit_at ser rs \<subseteq>\<^sub>m payload_map P" "\<And>j. bit_at ser rs j \<noteq> None \<longleftrightarrow> j div 8 \<in> received ser rs"
    using b by (auto simp: parts_ok_def)
  have len: "int (length (chunk_bits ser c)) = 8 * frag_bytes h" using length_chunk_bits [OF c(1)] c(2) by simp
  have "payload_map P (8 * fragmentOffset h + int j) = Some (chunk_bits ser c ! j)" if j: "j < length (chunk_bits ser c)" for j
  proof -
    have "int j < 8 * frag_bytes h" using j len by linarith
    moreover have "8 * payload_length P \<le> int (length P)" by (simp add: payload_length_def)
    ultimately have "chunk_bits ser c ! j = P ! (nat (8 * fragmentOffset h) + j)" using H unfolding c(3) by (intro nth_part) auto
    moreover have "nat (8 * fragmentOffset h + int j) = nat (8 * fragmentOffset h) + j" using H(1) by (simp add: nat_add_distrib)
    ultimately show ?thesis using H \<open>int j < 8 * frag_bytes h\<close> by (simp add: payload_map_def)
  qed
  then have piece: "chunk_store.piece ser (payload_map P) (8 * fragmentOffset h) c"
    using c(1,2) H by (auto simp: chunk_store.piece_def)
  obtain rs' where rs': "ChunkBuffer_replace (8 * fragmentOffset h) c rs = Inr rs'" "regions_ok ser rs'" "bit_at ser rs' \<subseteq>\<^sub>m payload_map P"
      "dom (bit_at ser rs') = dom (bit_at ser rs) \<union> {8 * fragmentOffset h..<8 * fragmentOffset h + int (length (chunk_bits ser c))}"
    by (rule chunk_store.store_piece [OF B(1,2) piece])
  have dom: "bit_at ser rs' j \<noteq> None \<longleftrightarrow> j div 8 \<in> received ser rs \<or> j div 8 \<in> frag_range h" for j
  proof -
    have "bit_at ser rs' j \<noteq> None \<longleftrightarrow> j \<in> dom (bit_at ser rs')" by auto
    also have "\<dots> \<longleftrightarrow> j div 8 \<in> received ser rs \<or> (8 * fragmentOffset h \<le> j \<and> j < 8 * fragmentOffset h + 8 * frag_bytes h)"
      unfolding rs'(4) len Un_iff B(3) [of j, symmetric] by (auto simp: dom_def)
    also have "(8 * fragmentOffset h \<le> j \<and> j < 8 * fragmentOffset h + 8 * frag_bytes h) \<longleftrightarrow> j div 8 \<in> frag_range h" by (auto simp: frag_range_def)
    finally show ?thesis .
  qed
  then have r: "received ser rs' = received ser rs \<union> frag_range h" unfolding received_def [of ser rs'] dom by auto
  have "bit_at ser rs' j \<noteq> None \<longleftrightarrow> j div 8 \<in> received ser rs'" for j unfolding dom r by blast
  then have "parts_ok ser P rs'" using rs'(2,3) by (simp add: parts_ok_def)
  then show thesis using that rs'(1) r by blast
qed

text \<open>The test for completeness is exact.\<close>

lemma isComplete_iff:
  assumes b: "parts_ok ser P (parts b)" and e: "expectedLength b = expected_for P (received ser (parts b))" and ne: "received ser (parts b) \<noteq> {}"
  shows "isComplete b \<longleftrightarrow> received ser (parts b) = {0..<payload_length P}"
    and "isComplete b \<Longrightarrow> chunk_bits ser (r_data (hd (parts b))) = take (nat (8 * payload_length P)) P"
    and "isComplete b \<Longrightarrow> wf_chunk ser (r_data (hd (parts b))) \<and> getChunkLength (r_data (hd (parts b))) = 8 * payload_length P"
proof -
  let ?rs = "parts b" and ?L = "payload_length P"
  have B: "regions_ok ser ?rs" "bit_at ser ?rs \<subseteq>\<^sub>m payload_map P" "\<And>j. bit_at ser ?rs j \<noteq> None \<longleftrightarrow> j div 8 \<in> received ser ?rs"
    using b by (auto simp: parts_ok_def)
  note W = received_within [OF b]
  have L: "0 < ?L" using ne W by force
  have one: "isComplete b \<Longrightarrow> \<exists>r. ?rs = [r] \<and> getStartOffset r = 0 \<and> getEndOffset r = 8 * ?L \<and> wf_region ser r"
  proof -
    assume c: "isComplete b"
    then obtain r where r: "?rs = [r]" by (auto simp: isComplete_def length_Suc_conv)
    have w: "wf_region ser r" using B(1) r by simp
    then show ?thesis using c r e wf_region_less [OF w] L
      by (auto simp: isComplete_def getStartOffset_def getEndOffset_def expected_for_def split: if_splits)
  qed
  show "isComplete b \<longleftrightarrow> received ser ?rs = {0..<?L}"
  proof
    assume "isComplete b"
    then obtain r where r: "?rs = [r]" "getStartOffset r = 0" "getEndOffset r = 8 * ?L" using one by blast
    have "i \<in> received ser ?rs" if "0 \<le> i" "i < ?L" for i
      using region_maximal(1) [OF B(1), of r "8 * i"] r that by (simp add: received_def)
    then show "received ser ?rs = {0..<?L}" using W by auto
  next
    assume full: "received ser ?rs = {0..<?L}"
    have def: "bit_at ser ?rs j \<noteq> None \<longleftrightarrow> 0 \<le> j \<and> j < 8 * ?L" for j unfolding B(3) full by auto
    have ne': "?rs \<noteq> [] \<and> getStartOffset (hd ?rs) \<le> 0" using first_region [OF B(1), of 0] def L by simp
    then obtain r rs where rs: "?rs = r # rs" by (cases ?rs) auto
    have w: "wf_region ser r" using B(1) rs by simp
    have s: "getStartOffset r = 0" using ne' rs wf_region_dvd [OF w] by simp
    have "bit_at ser ?rs (getEndOffset r) = None" "bit_at ser ?rs (getEndOffset r - 1) \<noteq> None"
      using region_maximal [OF B(1), of r] wf_region_less [OF w] rs by simp_all
    then have e': "getEndOffset r = 8 * ?L" using def [of "getEndOffset r"] def [of "getEndOffset r - 1"] wf_region_less [OF w] s by auto
    have "rs = []"
    proof (rule ccontr)
      assume "rs \<noteq> []"
      then obtain t where t: "t \<in> set rs" by (cases rs) auto
      then have "wf_region ser t" "getEndOffset r < getStartOffset t" using B(1) rs regions_ok_wf by auto
      then show False using region_maximal(1) [OF B(1), of t "getStartOffset t"] t rs def [of "getStartOffset t"] wf_region_less e' by auto
    qed
    then show "isComplete b" using rs s e' e full L by (simp add: isComplete_def getStartOffset_def getEndOffset_def expected_for_def)
  qed
  assume "isComplete b"
  then obtain r where r: "?rs = [r]" "getStartOffset r = 0" "getEndOffset r = 8 * ?L" "wf_region ser r" using one by blast
  then have len: "wf_chunk ser (r_data r)" "getChunkLength (r_data r) = 8 * ?L" by (auto simp: wf_region_def getStartOffset_def getEndOffset_def)
  then show "wf_chunk ser (r_data (hd ?rs)) \<and> getChunkLength (r_data (hd ?rs)) = 8 * ?L" using r(1) by simp
  have "int (length (chunk_bits ser (r_data r))) = 8 * ?L" using length_chunk_bits len by metis
  moreover have "payload_map P (int j) = Some (chunk_bits ser (r_data r) ! j)" if "int j < 8 * ?L" for j
    using region_content [OF B(1), of r "int j"] r that B(2) by (force simp: map_le_def)
  moreover have "8 * ?L \<le> int (length P)" by (simp add: payload_length_def)
  ultimately show "chunk_bits ser (r_data (hd ?rs)) = take (nat (8 * ?L)) P"
    using r(1) by (intro nth_equalityI) (auto simp: payload_map_def split: if_splits)
qed

section \<open>The reassembled datagram\<close>

definition whole_header :: "'o Ipv4Header \<Rightarrow> bool list \<Rightarrow> 'o Ipv4Header" where
  "whole_header h0 P = h0\<lparr>moreFragments := False, fragmentOffset := 0, totalLengthField := headerLength h0 + payload_length P\<rparr>"

definition is_datagram ::
  "(('o, 'f) ip_object \<Rightarrow> bool list) \<Rightarrow> 'o Ipv4Header \<Rightarrow> bool list \<Rightarrow> ('o, 'f) ip_packet \<Rightarrow> bool" where
  "is_datagram ser h0 P p \<longleftrightarrow> packet_ok ser p \<and> peekIpv4Header p = Inr (whole_header h0 P, 8 * headerLength h0)
     \<and> data_bits ser p = ser (Ipv4Object (whole_header h0 P)) @ P"

lemma doInsertChunkAtBack_fields:
  assumes "doInsertChunkAtBack e es = Inr r" and "es \<noteq> []" and "hd es = FieldsChunk f n"
  shows "r \<noteq> [] \<and> hd r = FieldsChunk f n"
proof -
  have "r = es @ [e] \<or> (elem_canInsertAtBack (last es) e \<and> (\<exists>l. r = butlast es @ [l]))"
    using assms(1,2) by (auto simp: doInsertChunkAtBack_def CHUNK_CHECK_USAGE_def ebind_eq_Inr split: if_splits)
  then show ?thesis
  proof
    assume r: "elem_canInsertAtBack (last es) e \<and> (\<exists>l. r = butlast es @ [l])"
    then have "butlast es \<noteq> []" using assms(2,3) by (cases es) auto
    then show ?thesis using r assms(2,3) by (cases es) auto
  qed (use assms(2,3) in auto)
qed

lemma seq_insertAtBack_fields:
  assumes "seq_insertAtBack c es = Inr r" and "es \<noteq> []" and "hd es = FieldsChunk f n"
  shows "r \<noteq> [] \<and> hd r = FieldsChunk f n"
proof (cases c)
  case (SequenceChunk fs)
  have "doInsertSequenceChunkAtBack fs es = Inr r \<Longrightarrow> es \<noteq> [] \<Longrightarrow> hd es = FieldsChunk f n \<Longrightarrow> r \<noteq> [] \<and> hd r = FieldsChunk f n" for fs
  proof (induction fs arbitrary: es)
    case (Cons e fs)
    then obtain s where s: "doInsertChunkAtBack e es = Inr s" "doInsertSequenceChunkAtBack fs s = Inr r" by (auto simp: ebind_eq_Inr)
    then show ?case using Cons.IH [OF s(2)] doInsertChunkAtBack_fields [OF s(1) Cons.prems(2,3)] by blast
  qed simp
  then show ?thesis using assms SequenceChunk by simp
qed (use assms(1) doInsertChunkAtBack_fields [OF _ assms(2,3), of _ r] in auto)

lemma insertAtBack_starts:
  assumes "Packet_insertAtBack c p = Inr q" and "content p = header_chunk h n"
  shows "starts_with h n q"
proof -
  let ?e = "FieldsChunk (Ipv4Object h) n"
  have "\<not> canInsertAtBack (Elem ?e) c" by (cases c) simp_all
  then obtain es r where r: "seq_insertAtBack (Elem ?e) [] = Inr es" "seq_insertAtBack c es = Inr r" "content q = SequenceChunk r"
    using assms by (auto simp: Packet_insertAtBack_def CHUNK_CHECK_USAGE_def header_chunk_def join_back_def ebind_eq_Inr split: if_splits)
  then have "es = [?e]" by (auto simp: doInsertChunkAtBack_def CHUNK_CHECK_USAGE_def split: if_splits)
  then have "r \<noteq> [] \<and> hd r = ?e" using seq_insertAtBack_fields [OF r(2)] by simp
  then show ?thesis using r(3) by (cases r) (auto simp: starts_with_def)
qed

lemma reassembled_spec:
  assumes d: "datagram_ok ser h0 P" and pk: "fragment_of ser h0 P h pk" and c: "isComplete b"
    and b: "parts_ok ser P (parts b)" "expectedLength b = expected_for P (received ser (parts b))" "received ser (parts b) \<noteq> {}"
  obtains p where "reassembled pk b = Inr p" and "is_datagram ser h0 P p"
proof -
  let ?r = "r_data (hd (parts b))" and ?h = "whole_header h0 P"
  have D: "0 < headerLength h0" "8 dvd length P" using d by (auto simp: datagram_ok_def)
  have L: "8 * payload_length P = int (length P)" using D(2) by (auto simp: payload_length_def)
  have H: "peekIpv4Header pk = Inr (h, 8 * headerLength h0)" "same_datagram h h0"
    using pk by (auto simp: fragment_of_def piece_header_def)
  have r: "wf_chunk ser ?r" "getChunkLength ?r = 8 * payload_length P" "chunk_bits ser ?r = P"
    using isComplete_iff(2,3) [OF b c] L by auto
  have pos: "0 < payload_length P" using isComplete_iff(1) [OF b] c b(3) by auto
  have h: "h\<lparr>totalLengthField := headerLength h0 + payload_length P, fragmentOffset := 0, moreFragments := False\<rparr> = ?h"
    by (rule same_datagramE [OF H(2)]) (simp add: whole_header_def)
  have sh: "same_datagram ?h h0" by (simp add: same_datagram_def whole_header_def)
  note HC = header_chunk_ok [OF d sh]
  have bn: "backIterator Packet_new = back_begin" by (simp add: Packet_new_def)
  obtain q where q: "Packet_insertAtFront (header_chunk ?h (8 * headerLength h0)) Packet_new = Inr q" "packet_ok ser q" "at_front q"
      "data_bits ser q = ser (Ipv4Object ?h)" "backIterator q = back_begin"
    by (rule packet_insertAtFront_spec [OF packet_new(1) HC(1) _ packet_new(3)]) (use HC(2,3) D packet_new(2) [of ser] bn in auto)
  have cq: "content q = header_chunk ?h (8 * headerLength h0)"
    using q(1) by (auto simp: Packet_insertAtFront_def CHUNK_CHECK_USAGE_def Packet_new_def split: if_splits)
  have bq: "at_back q" using q(5) by (simp add: at_back_def back_begin_def)
  obtain p where p: "Packet_insertAtBack ?r q = Inr p" "packet_ok ser p" "at_front p" "data_bits ser p = data_bits ser q @ chunk_bits ser ?r"
    by (rule packet_insertAtBack_spec [OF q(2) r(1) _ q(3) bq]) (use r(2) pos in auto)
  have "snd (Packet_removeAll pk) = Packet_new" by (simp add: Packet_removeAll_def eraseAll_def Packet_new_def)
  moreover have "8 * headerLength h + getChunkLength ?r = 8 * (headerLength h0 + payload_length P)" using r(2) same_datagramD(1) [OF H(2)] by simp
  ultimately have "reassembled pk b = Inr p"
    using H(1) c q(1) p(1) h by (simp add: reassembled_def getReassembledData_def to_B_dvd)
  moreover have "getDataLength p = 8 * headerLength h0 + 8 * payload_length P"
    using length_data_bits [OF p(2)] p(4) q(4) r(3) L HC(4) by simp
  then have "peekIpv4Header p = Inr (?h, 8 * headerLength h0)"
    using insertAtBack_starts [OF p(1) cq] p(2,3) D(1) pos by (intro peek_starts) auto
  ultimately show thesis using that p(2,4) q(4) r(3) by (simp add: is_datagram_def)
qed

section \<open>All buffers\<close>

text \<open>\<open>datagram k\<close> is the datagram that the fragments with key \<open>k\<close> were cut from.\<close>

definition bufs_ok ::
  "(('o, 'f) ip_object \<Rightarrow> bool list) \<Rightarrow> (FragKey \<Rightarrow> 'o Ipv4Header \<times> bool list) \<Rightarrow> ('o, 'f) frag_buffers \<Rightarrow> bool" where
  "bufs_ok ser datagram bufs \<longleftrightarrow> keys_sorted bufs \<and> (\<forall>k b. map_of bufs k = Some b \<longrightarrow> received ser (parts (db_buf b)) \<noteq> {} \<and> (case datagram k of (h0, P) \<Rightarrow> buffer_ok ser h0 P b))"

text \<open>The abstraction: for each datagram the bytes that have arrived.\<close>

definition arrived :: "(('o, 'f) ip_object \<Rightarrow> bool list) \<Rightarrow> ('o, 'f) frag_buffers \<Rightarrow> FragKey \<Rightarrow> int set" where
  "arrived ser bufs k = (case map_of bufs k of None \<Rightarrow> {} | Some b \<Rightarrow> received ser (parts (db_buf b)))"

text \<open>The specification of a step: the set grows, and a full set is handed out and forgotten.\<close>

definition arrive :: "FragKey \<Rightarrow> int set \<Rightarrow> int \<Rightarrow> (FragKey \<Rightarrow> int set) \<Rightarrow> bool \<times> (FragKey \<Rightarrow> int set)" where
  "arrive k r len a = (if a k \<union> r = {0..<len} then (True, a(k := {})) else (False, a(k := a k \<union> r)))"

lemma addFragment_spec:
  assumes ok: "bufs_ok ser datagram bufs" and k: "datagram k = (h0, P)" "frag_key h0 = k" "datagram_ok ser h0 P"
    and p: "fragment_of ser h0 P h p"
  obtains out bufs' where "addFragment p now bufs = Inr (out, bufs')" and "bufs_ok ser datagram bufs'"
    and "arrive k (frag_range h) (payload_length P) (arrived ser bufs) = (out \<noteq> None, arrived ser bufs')"
    and "\<And>pk. out = Some pk \<Longrightarrow> is_datagram ser h0 P pk"
proof -
  have F: "packet_ok ser p" "peekIpv4Header p = Inr (h, 8 * headerLength h0)" "piece_header h0 P h" "8 * totalLengthField h \<le> getDataLength p"
      "part (8 * headerLength h) (8 * frag_bytes h) (data_bits ser p) = part (8 * fragmentOffset h) (8 * frag_bytes h) P"
    using p by (auto simp: fragment_of_def)
  have H: "same_datagram h h0" "0 \<le> fragmentOffset h" "0 < frag_bytes h" "fragmentOffset h + frag_bytes h \<le> payload_length P"
      "moreFragments h \<longleftrightarrow> fragmentOffset h + frag_bytes h < payload_length P" using F(3) by (auto simp: piece_header_def)
  note S = same_datagramD [OF H(1)]
  have hl: "0 < headerLength h" using k(3) S(1) by (simp add: datagram_ok_def)
  define cur where "cur = (case map_of bufs k of None \<Rightarrow> DatagramBuffer_new | Some b \<Rightarrow> b)"
  have cur: "buffer_ok ser h0 P cur" "received ser (parts (db_buf cur)) = arrived ser bufs k"
    using ok k(1) by (cases "map_of bufs k"; force simp: cur_def bufs_ok_def arrived_def buffer_ok_new)+
  have key: "frag_key h = k" using S(2) k(2) by simp
  obtain c where c: "peekDataAt (8 * headerLength h) (8 * frag_bytes h) p = Inr c" "wf_chunk ser c" "getChunkLength c = 8 * frag_bytes h"
      "chunk_bits ser c = part (8 * fragmentOffset h) (8 * frag_bytes h) P"
    using peekDataAt_spec [OF F(1), of "8 * headerLength h" "8 * frag_bytes h"] F(4,5) H(3) hl by (auto simp: frag_bytes_def)
  obtain rs where rs: "ChunkBuffer_replace (8 * fragmentOffset h) c (parts (db_buf cur)) = Inr rs" "parts_ok ser P rs"
      "received ser rs = arrived ser bufs k \<union> frag_range h"
    using store_fragment [of ser P "parts (db_buf cur)" h0 h c] cur F(3) c by (auto simp: buffer_ok_def)
  define b where "b = (if \<not> moreFragments h then (db_buf cur)\<lparr>parts := rs, expectedLength := 8 * (fragmentOffset h + frag_bytes h)\<rparr> else (db_buf cur)\<lparr>parts := rs\<rparr>)"
  define pk where "pk = (if fragmentOffset h = 0 then p else case db_packet cur of None \<Rightarrow> p | Some pk \<Rightarrow> pk)"
  have pb: "parts b = rs" by (simp add: b_def)
  have e: "expectedLength b = expected_for P (received ser rs)"
    using cur H by (auto simp: b_def expected_for_def buffer_ok_def rs(3) frag_range_def)
  have fp: "\<exists>h. fragment_of ser h0 P h pk" using p cur(1) by (auto simp: pk_def buffer_ok_def split: option.splits)
  have ne: "received ser (parts b) \<noteq> {}" using rs(3) H(3) pb by (auto simp: frag_range_def)
  note C = isComplete_iff(1) [of ser P b, unfolded pb, OF rs(2) e] 
  have full: "isComplete b \<longleftrightarrow> arrived ser bufs k \<union> frag_range h = {0..<payload_length P}" using C ne rs(3) pb by simp
  have add: "addFragment p now bufs = (if isComplete b then ebind (reassembled pk b) (\<lambda>pk. Inr (Some pk, bufs_erase k bufs))
      else Inr (None, bufs_put k \<lparr>db_buf = b, db_packet = Some pk, db_lastupdate = now\<rparr> bufs))"
    using F(2) H(3) c(1) rs(1) by (simp add: addFragment_def Let_def key frag_bytes_def b_def pk_def flip: cur_def)
  show thesis
  proof (cases "isComplete b")
    case True
    obtain h' where h': "fragment_of ser h0 P h' pk" using fp by blast
    obtain q where q: "reassembled pk b = Inr q" "is_datagram ser h0 P q"
      by (rule reassembled_spec [OF k(3) h' True]) (use rs(2) e ne pb in simp_all)
    have "bufs_ok ser datagram (bufs_erase k bufs)" using ok keys_sorted_erase [of bufs k] by (auto simp: bufs_ok_def map_of_erase)
    moreover have "arrived ser (bufs_erase k bufs) = (arrived ser bufs)(k := {})" by (auto simp: arrived_def map_of_erase fun_eq_iff)
    ultimately show thesis using that [of "Some q" "bufs_erase k bufs"] add True q full by (simp add: arrive_def)
  next
    case False
    let ?b = "\<lparr>db_buf = b, db_packet = Some pk, db_lastupdate = now\<rparr>"
    have s: "keys_sorted bufs" using ok by (simp add: bufs_ok_def)
    have "buffer_ok ser h0 P ?b" using rs(2) e fp pb by (simp add: buffer_ok_def)
    then have "bufs_ok ser datagram (bufs_put k ?b bufs)"
      using ok k(1) keys_sorted_put [OF s] ne pb by (auto simp: bufs_ok_def map_of_put [OF s])
    moreover have "arrived ser (bufs_put k ?b bufs) = (arrived ser bufs)(k := arrived ser bufs k \<union> frag_range h)"
      using rs(3) pb by (auto simp: arrived_def map_of_put [OF s] fun_eq_iff)
    ultimately show thesis using that [of None "bufs_put k ?b bufs"] add False full by (simp add: arrive_def)
  qed
qed

end
