(* ===== verification/Ipv4FragProps.thy ===== *)
theory Ipv4FragProps
  imports Ipv4FragSpec
begin

text \<open>
  Whole executions of fragmentation and reassembly: streams of fragments of many datagrams, and the round trip from a
  datagram to its fragments and back.
\<close>

section \<open>Streams of fragments\<close>

fun addFragments :: "(('o, 'f) ip_packet \<times> simtime) list \<Rightarrow> ('o, 'f) frag_buffers \<Rightarrow> error + ('o, 'f) ip_packet option list \<times> ('o, 'f) frag_buffers" where
  "addFragments [] bufs = Inr ([], bufs)"
| "addFragments ((p, now) # ps) bufs =
     ebind (addFragment p now bufs) (\<lambda>(out, bufs). ebind (addFragments ps bufs) (\<lambda>(outs, bufs). Inr (out # outs, bufs)))"

fun arrivals :: "(FragKey \<times> int set \<times> int) list \<Rightarrow> (FragKey \<Rightarrow> int set) \<Rightarrow> bool list \<times> (FragKey \<Rightarrow> int set)" where
  "arrivals [] a = ([], a)"
| "arrivals ((k, r, len) # es) a = (case arrive k r len a of (c, a) \<Rightarrow> case arrivals es a of (cs, a) \<Rightarrow> (c # cs, a))"

definition frag_header :: "('o, 'f) ip_packet \<Rightarrow> 'o Ipv4Header" where
  "frag_header p = (case peekIpv4Header p of Inr (h, n) \<Rightarrow> h | Inl e \<Rightarrow> undefined)"

abbreviation packet_key :: "('o, 'f) ip_packet \<Rightarrow> FragKey" where
  "packet_key p \<equiv> frag_key (frag_header p)"

lemma frag_header_of: "fragment_of ser h0 P h p \<Longrightarrow> frag_header p = h"
  by (simp add: fragment_of_def frag_header_def)

text \<open>Every packet is a fragment of the datagram that belongs to its key.\<close>

definition genuine ::
  "(('o, 'f) ip_object \<Rightarrow> bool list) \<Rightarrow> (FragKey \<Rightarrow> 'o Ipv4Header \<times> bool list) \<Rightarrow> ('o, 'f) ip_packet \<Rightarrow> bool" where
  "genuine ser datagram p \<longleftrightarrow> (case datagram (packet_key p) of (h0, P) \<Rightarrow>
     datagram_ok ser h0 P \<and> frag_key h0 = packet_key p \<and> fragment_of ser h0 P (frag_header p) p)"

definition arrival :: "(FragKey \<Rightarrow> 'o Ipv4Header \<times> bool list) \<Rightarrow> ('o, 'f) ip_packet \<Rightarrow> FragKey \<times> int set \<times> int" where
  "arrival datagram p = (packet_key p, frag_range (frag_header p), payload_length (snd (datagram (packet_key p))))"

definition restores :: "(('o, 'f) ip_object \<Rightarrow> bool list) \<Rightarrow> (FragKey \<Rightarrow> 'o Ipv4Header \<times> bool list) \<Rightarrow> ('o, 'f) ip_packet \<Rightarrow> ('o, 'f) ip_packet option \<Rightarrow> bool" where
  "restores ser datagram p out \<longleftrightarrow> (\<forall>pk. out = Some pk \<longrightarrow> (case datagram (packet_key p) of (h0, P) \<Rightarrow> is_datagram ser h0 P pk))"

lemma addFragment_genuine:
  assumes "bufs_ok ser datagram bufs" and "genuine ser datagram p"
  obtains out bufs' where "addFragment p now bufs = Inr (out, bufs')" and "bufs_ok ser datagram bufs'"
    and "(case arrival datagram p of (k, r, len) \<Rightarrow> arrive k r len (arrived ser bufs)) = (out \<noteq> None, arrived ser bufs')" and "restores ser datagram p out"
proof -
  obtain h0 P where d: "datagram (packet_key p) = (h0, P)" by fastforce
  then have g: "datagram_ok ser h0 P" "frag_key h0 = packet_key p" "fragment_of ser h0 P (frag_header p) p"
    using assms(2) by (auto simp: genuine_def)
  obtain out bufs' where o: "addFragment p now bufs = Inr (out, bufs')" "bufs_ok ser datagram bufs'"
      "arrive (packet_key p) (frag_range (frag_header p)) (payload_length P) (arrived ser bufs) = (out \<noteq> None, arrived ser bufs')"
      "\<And>pk. out = Some pk \<Longrightarrow> is_datagram ser h0 P pk"
    by (rule addFragment_spec [OF assms(1) d g(2,1,3), where now = now]) blast
  then show thesis using that d by (simp add: arrival_def restores_def)
qed

lemma addFragments_spec:
  assumes "bufs_ok ser datagram bufs" and "\<forall>(p, now)\<in>set ps. genuine ser datagram p"
  shows "\<exists>outs bufs'. addFragments ps bufs = Inr (outs, bufs') \<and> bufs_ok ser datagram bufs'
     \<and> arrivals (map (\<lambda>(p, now). arrival datagram p) ps) (arrived ser bufs) = (map (\<lambda>out. out \<noteq> None) outs, arrived ser bufs')
     \<and> list_all2 (\<lambda>(p, now) out. restores ser datagram p out) ps outs"
  using assms
proof (induction ps arbitrary: bufs)
  case (Cons x ps)
  obtain p now where x: "x = (p, now)" by fastforce
  then have g: "genuine ser datagram p" using Cons.prems(2) by simp
  obtain out bufs1 where o: "addFragment p now bufs = Inr (out, bufs1)" "bufs_ok ser datagram bufs1"
      "(case arrival datagram p of (k, r, len) \<Rightarrow> arrive k r len (arrived ser bufs)) = (out \<noteq> None, arrived ser bufs1)" "restores ser datagram p out"
    by (rule addFragment_genuine [OF Cons.prems(1) g])
  obtain outs bufs' where i: "addFragments ps bufs1 = Inr (outs, bufs')" "bufs_ok ser datagram bufs'"
      "arrivals (map (\<lambda>(p, now). arrival datagram p) ps) (arrived ser bufs1) = (map (\<lambda>out. out \<noteq> None) outs, arrived ser bufs')"
      "list_all2 (\<lambda>(p, now) out. restores ser datagram p out) ps outs"
    using Cons.IH [OF o(2)] Cons.prems(2) by auto
  obtain k r len where a: "arrival datagram p = (k, r, len)" by (cases "arrival datagram p") auto
  have "addFragments (x # ps) bufs = Inr (out # outs, bufs')" using o(1) i(1) x by simp
  moreover have "arrivals (map (\<lambda>(p, now). arrival datagram p) (x # ps)) (arrived ser bufs) = (map (\<lambda>out. out \<noteq> None) (out # outs), arrived ser bufs')"
    using o(3) i(3) a x by simp
  moreover have "list_all2 (\<lambda>(p, now) out. restores ser datagram p out) (x # ps) (out # outs)" using o(4) i(4) x by simp
  ultimately show ?case using i(2) by blast
qed simp

section \<open>Purging\<close>

lemma purge_filter:
  "snd (purgeStaleFragments t bufs) = filter (\<lambda>(k, b). t \<le> db_lastupdate b) bufs"
  "fst (purgeStaleFragments t bufs) = List.map_filter (\<lambda>(k, b). if db_lastupdate b < t then db_packet b else None) bufs"
  by (induction t bufs rule: purgeStaleFragments.induct) (auto simp: Let_def map_filter_simps not_le split: prod.splits option.splits)

lemma filter_sorted:
  "keys_sorted bs \<Longrightarrow> keys_sorted (filter Q bs) \<and> (map_of (filter Q bs) k = Some b \<longrightarrow> map_of bs k = Some b)"
proof (induction bs)
  case (Cons x bs)
  have "map_of bs (fst x) = None" using Cons.prems by (cases x) (auto simp: map_of_eq_None_iff)
  then show ?case using Cons by (cases x) auto
qed simp

lemma filter_bufs_ok:
  assumes "bufs_ok ser datagram bufs"
  shows "bufs_ok ser datagram (filter Q bufs)"
proof -
  have s: "keys_sorted bufs" using assms by (simp only: bufs_ok_def)
  have f: "map_of bufs k = Some b" if "map_of (filter Q bufs) k = Some b" for k b
    using filter_sorted [OF s, of Q k b] that by (rule conjunct2 [THEN mp])
  show ?thesis
    unfolding bufs_ok_def
    by (intro conjI [OF filter_sorted [OF s, THEN conjunct1]] allI impI,
        rule assms [unfolded bufs_ok_def, THEN conjunct2, THEN spec, THEN spec, THEN mp], rule f)
qed

lemma purge_ok: "bufs_ok ser datagram bufs \<Longrightarrow> bufs_ok ser datagram (snd (purgeStaleFragments t bufs))"
  unfolding purge_filter by (rule filter_bufs_ok)

text \<open>Local delivery of genuine packets never fails and keeps the buffers intact.\<close>

lemma reassemble_ok:
  assumes ok: "bufs_ok ser datagram (fragbuf st)" and g: "genuine ser datagram p"
  obtains out errors st' where "reassemble tenSeconds timeout now p st = Inr (out, errors, st')" and "bufs_ok ser datagram (fragbuf st')"
    and "out = Some p \<or> restores ser datagram p out"
proof -
  obtain h n where h: "peekIpv4Header p = Inr (h, n)" using g by (auto simp: genuine_def fragment_of_def split: prod.splits)
  show thesis
  proof (cases "fragmentOffset h \<noteq> 0 \<or> moreFragments h")
    case False
    then show thesis using that h ok by (simp add: reassemble_def)
  next
    case True
    define st1 where "st1 = (if lastCheckTime st + tenSeconds \<le> now
      then st\<lparr>lastCheckTime := now, fragbuf := snd (purgeStaleFragments (now - timeout) (fragbuf st))\<rparr> else st)"
    have ok1: "bufs_ok ser datagram (fragbuf st1)" using ok purge_ok [OF ok] by (simp add: st1_def)
    obtain out bufs where o: "addFragment p now (fragbuf st1) = Inr (out, bufs)" "bufs_ok ser datagram bufs" "restores ser datagram p out"
      by (rule addFragment_genuine [OF ok1 g])
    have "\<exists>errors. reassemble tenSeconds timeout now p st = Inr (out, errors, st1\<lparr>fragbuf := bufs\<rparr>)"
      using True h o(1) by (auto simp: reassemble_def st1_def split: prod.splits)
    then show thesis using that o(2,3) by fastforce
  qed
qed

section \<open>All fragments of one datagram\<close>

lemma arrivals_complete:
  assumes "finite (a k)" and "a k \<union> \<Union> (set rs) = {0..<len}" and "int (card (a k)) + sum_list (map (\<lambda>r. int (card r)) rs) = len"
    and "\<forall>r\<in>set rs. finite r \<and> r \<noteq> {}" and "rs \<noteq> []" and "0 \<le> len"
  shows "arrivals (map (\<lambda>r. (k, r, len)) rs) a = (replicate (length rs - 1) False @ [True], a(k := {}))"
  using assms
proof (induction rs arbitrary: a)
  case (Cons r rs)
  show ?case
  proof (cases "rs = []")
    case True
    then show ?thesis using Cons.prems by (simp add: arrive_def fun_eq_iff)
  next
    case False
    have le: "int (card (\<Union> (set rs))) \<le> sum_list (map (\<lambda>r. int (card r)) rs)" if "\<forall>r\<in>set rs. finite r" for rs :: "int set list"
      using that
    proof (induction rs)
      case (Cons r rs)
      have "card (r \<union> \<Union> (set rs)) \<le> card r + card (\<Union> (set rs))" by (rule card_Un_le)
      then show ?case using Cons by simp
    qed simp
    have pos: "0 < sum_list (map (\<lambda>r. int (card r)) rs)"
    proof -
      obtain s ss where s: "rs = s # ss" using False by (cases rs) auto
      have "0 \<le> sum_list (map (\<lambda>r. int (card r)) ss)" by (rule sum_list_nonneg) auto
      moreover have "0 < card s" using Cons.prems(4) s by (simp add: card_gt_0_iff)
      ultimately show ?thesis using s by simp
    qed
    have fin: "finite (a k \<union> r)" "\<forall>s\<in>set rs. finite s" using Cons.prems(1,4) by auto
    have un: "card (a k \<union> r) \<le> card (a k) + card r" by (rule card_Un_le)
    have "card ((a k \<union> r) \<union> \<Union> (set rs)) \<le> card (a k \<union> r) + card (\<Union> (set rs))" by (rule card_Un_le)
    moreover have "int (card ((a k \<union> r) \<union> \<Union> (set rs))) = len"
    proof -
      have "(a k \<union> r) \<union> \<Union> (set rs) = {0..<len}" using Cons.prems(2) by auto
      then show ?thesis using Cons.prems(6) by simp
    qed
    ultimately have eq: "int (card (a k \<union> r)) + sum_list (map (\<lambda>r. int (card r)) rs) = len"
      using le [OF fin(2)] un Cons.prems(3) by simp
    have "a k \<union> r \<noteq> {0..<len}"
    proof
      assume "a k \<union> r = {0..<len}"
      then have "int (card (a k \<union> r)) = len" using Cons.prems(6) by simp
      then show False using eq pos by simp
    qed
    moreover define b where "b = a(k := a k \<union> r)"
    ultimately have "arrive k r len a = (False, b)" by (simp add: arrive_def)
    moreover have "arrivals (map (\<lambda>r. (k, r, len)) rs) b = (replicate (length rs - 1) False @ [True], b(k := {}))"
      by (rule Cons.IH) (use fin Cons.prems(2,4,6) eq False in \<open>auto simp: b_def Un_assoc\<close>)
    moreover have "b(k := {}) = a(k := {})" by (simp add: b_def)
    ultimately show ?thesis using False by (cases rs) (simp_all add: fun_eq_iff)
  qed
qed simp

lemma nothing_arrived: "bufs_ok ser datagram bufs \<Longrightarrow> arrived ser bufs = (\<lambda>_. {}) \<Longrightarrow> bufs = []"
proof (rule ccontr)
  assume ok: "bufs_ok ser datagram bufs" and e: "arrived ser bufs = (\<lambda>_. {})" and "bufs \<noteq> []"
  then obtain k b rest where "bufs = (k, b) # rest" by (cases bufs) auto
  then have "map_of bufs k = Some b" by simp
  then have "arrived ser bufs k \<noteq> {}" using ok by (auto simp: bufs_ok_def arrived_def)
  then show False using e by simp
qed

lemma is_datagramD:
  assumes d: "datagram_ok ser h0 P" and p: "is_datagram ser h0 P p"
  shows "fragment_of ser h0 P (whole_header h0 P) p" and "getDataLength p = 8 * (headerLength h0 + payload_length P)" and "0 < payload_length P"
proof -
  have D: "0 < headerLength h0" "8 dvd length P" "P \<noteq> []" using d by (auto simp: datagram_ok_def)
  have L: "8 * payload_length P = int (length P)" using D(2) by (auto simp: payload_length_def)
  then show pos: "0 < payload_length P" using D(3) by (metis length_greater_0_conv of_nat_0_less_iff zero_less_mult_pos zero_less_numeral)
  have s: "same_datagram (whole_header h0 P) h0" by (simp add: same_datagram_def whole_header_def)
  have len: "int (length (ser (Ipv4Object (whole_header h0 P)))) = 8 * headerLength h0" by (rule header_chunk_ok(4) [OF d s])
  show l: "getDataLength p = 8 * (headerLength h0 + payload_length P)"
    using length_data_bits [of ser p] p len L by (simp add: is_datagram_def)
  have "part (8 * headerLength h0) (8 * payload_length P) (data_bits ser p) = P"
    using p len L by (simp add: is_datagram_def part_append_right)
  then show "fragment_of ser h0 P (whole_header h0 P) p"
    using p s l pos L by (simp add: is_datagram_def fragment_of_def piece_header_def) (simp add: whole_header_def frag_bytes_def)
qed

text \<open>What arrives of the fragments of a datagram, whatever their order.\<close>

lemma arrivals_of_fragments:
  assumes f: "fragments_of ser h0 P gfs {0..<payload_length P}" and pos: "0 < payload_length P"
    and k: "frag_key h0 = k" and ps: "mset qs = mset (map snd gfs)"
  shows "arrivals (map (arrival (\<lambda>_. (h0, P))) qs) (\<lambda>_. {}) = (replicate (length qs - 1) False @ [True], \<lambda>_. {})"
proof -
  have F: "\<And>g f. (g, f) \<in> set gfs \<Longrightarrow> fragment_of ser h0 P g f" using f by (auto simp: fragments_of_def)
  have hd: "frag_header f = g \<and> packet_key f = k \<and> 0 < frag_bytes g" if "(g, f) \<in> set gfs" for g f
    using frag_header_of [OF F [OF that]] F [OF that] same_datagramD(2) k by (auto simp: fragment_of_def piece_header_def)
  have set_qs: "set qs = snd ` set gfs" using mset_eq_setD [OF ps] by simp
  have hq: "packet_key f = k \<and> 0 < frag_bytes (frag_header f)" if "f \<in> set qs" for f
    using that hd unfolding set_qs by fastforce
  let ?rs = "map (\<lambda>f. frag_range (frag_header f)) qs"
  have m: "map (arrival (\<lambda>_. (h0, P))) qs = map (\<lambda>r. (k, r, payload_length P)) ?rs"
    using hq by (simp add: arrival_def)
  have "\<Union> (set ?rs) = {0..<payload_length P}"
  proof -
    have "\<Union> (set ?rs) = (\<Union>(g, f)\<in>set gfs. frag_range g)" using hd by (fastforce simp: set_qs)
    then show ?thesis using f by (simp add: fragments_of_def)
  qed
  moreover have "sum_list (map (\<lambda>r. int (card r)) ?rs) = payload_length P"
  proof -
    have "map (\<lambda>r. int (card r)) ?rs = map (\<lambda>f. frag_bytes (frag_header f)) qs" using hq by (simp add: frag_range_def less_imp_le)
    then have "sum_list (map (\<lambda>r. int (card r)) ?rs) = sum_list (map (\<lambda>f. frag_bytes (frag_header f)) qs)" by (rule arg_cong)
    moreover have "map (\<lambda>f. frag_bytes (frag_header f)) (map snd gfs) = map (\<lambda>(g, f). frag_bytes g) gfs" using hd by auto
    then have "mset (map (\<lambda>f. frag_bytes (frag_header f)) qs) = mset (map (\<lambda>(g, f). frag_bytes g) gfs)" using ps by (metis mset_map)
    then have "sum_list (map (\<lambda>f. frag_bytes (frag_header f)) qs) = sum_list (map (\<lambda>(g, f). frag_bytes g) gfs)" by (metis sum_mset_sum_list)
    moreover have "sum_list (map (\<lambda>(g, f). frag_bytes g) gfs) = payload_length P" using f pos by (simp add: fragments_of_def)
    ultimately show ?thesis by (simp only:)
  qed
  moreover have "\<forall>r\<in>set ?rs. finite r \<and> r \<noteq> {}" using hq by (auto simp: frag_range_def)
  moreover have "?rs \<noteq> []" using calculation(1) pos by auto
  ultimately have "arrivals (map (\<lambda>r. (k, r, payload_length P)) ?rs) (\<lambda>_. {}) = (replicate (length ?rs - 1) False @ [True], (\<lambda>_. {})(k := {}))"
    using pos by (intro arrivals_complete) simp_all
  then show ?thesis unfolding m by (simp add: fun_upd_idem)
qed

lemma no_output: "map (\<lambda>out. out \<noteq> None) outs = replicate n False \<Longrightarrow> outs = replicate n None"
  by (induction n arbitrary: outs) auto

lemma last_output:
  assumes "map (\<lambda>out. out \<noteq> None) outs = replicate n False @ [True]"
  obtains pk where "outs = replicate n None @ [Some pk]"
proof -
  obtain xs x where o: "outs = xs @ [x]" using assms by (cases outs rule: rev_cases) auto
  then have "xs = replicate n None" "x \<noteq> None" using assms no_output [of xs n] by simp_all
  then show thesis using that o by auto
qed

lemma fragmentAndSend_spec:
  assumes d: "datagram_ok ser h0 P" and p: "fragment_of ser h0 P h p" "8 * totalLengthField h = getDataLength p"
    and mtu: "headerLength h0 + 8 \<le> mtu" "mtu < totalLengthField h" and ttl: "0 < timeToLive h0" and df: "\<not> dontFragment h0"
  obtains fs where "fragmentAndSend mtu p = Inr (SendFragments (map snd fs))" and "fragments_of ser h0 P fs (frag_range h)"
    and "\<And>g f. (g, f) \<in> set fs \<Longrightarrow> getByteLength f \<le> mtu \<and> (8 dvd fragmentOffset h \<longrightarrow> 8 dvd fragmentOffset g)"
proof -
  have H: "peekIpv4Header p = Inr (h, 8 * headerLength h0)" "same_datagram h h0" "0 < frag_bytes h" using p(1) by (auto simp: fragment_of_def piece_header_def)
  note S = same_datagramD [OF H(2)]
  have hl: "0 < headerLength h0" using d by (simp add: datagram_ok_def)
  define l where "l = payload_limit mtu (headerLength h)"
  have l: "0 < l" "l \<le> mtu - headerLength h0" "8 dvd l" using mtu(1) S(1) by (simp_all add: l_def payload_limit_def pos_imp_zdiv_pos_iff)
  obtain fs where fs: "fragment_loop h (8 * headerLength h0) (frag_bytes h) l p 0 = Inr (map snd fs)" "fragments_of ser h0 P fs (frag_range h)"
      "\<forall>(g, f)\<in>set fs. frag_bytes g \<le> l \<and> (8 dvd l \<longrightarrow> 8 dvd fragmentOffset h \<longrightarrow> 8 dvd fragmentOffset g)"
    using fragment_loop_spec [OF d p l(1), of 0] H(3) by (auto simp: frag_range_def)
  have bl: "getByteLength p = totalLengthField h" using p(2) by (simp add: getByteLength_def)
  have lh: "payload_limit mtu (headerLength h0) = l" by (simp add: l_def S(1))
  have "to_B (getDataLength p) = Inr (totalLengthField h)" using p(2) by (simp add: to_B_dvd flip: p(2))
  then have "fragmentAndSend mtu p = Inr (SendFragments (map snd fs))"
    using H(1) ttl df mtu hl bl S fs(1) l(1) lh by (simp add: fragmentAndSend_def Let_def frag_bytes_def)
  moreover have "getByteLength f \<le> mtu \<and> (8 dvd fragmentOffset h \<longrightarrow> 8 dvd fragmentOffset g)" if "(g, f) \<in> set fs" for g f
  proof -
    have F: "fragment_of ser h0 P g f" "8 * totalLengthField g = getDataLength f" using fs(2) that by (auto simp: fragments_of_def)
    then have "headerLength g = headerLength h0" using same_datagramD(1) by (auto simp: fragment_of_def piece_header_def)
    moreover have "getByteLength f = totalLengthField g" using F(2) by (simp add: getByteLength_def)
    ultimately show ?thesis using fs(3) that l by (auto simp: frag_bytes_def)
  qed
  ultimately show thesis using that fs(2) by blast
qed

section \<open>An example\<close>

text \<open>A datagram of 20 bytes of payload on a link that carries 32 bytes.\<close>

definition blank_ser :: "(unit, unit) ip_object \<Rightarrow> bool list" where
  "blank_ser x = (case x of Ipv4Object h \<Rightarrow> replicate (nat (8 * headerLength h)) False | OtherObject y \<Rightarrow> [])"

definition example_header :: "unit Ipv4Header" where
  "example_header = \<lparr>headerLength = 20, srcAddress = 1, destAddress = 2, timeToLive = 9, identification = 7, moreFragments = False,
     dontFragment = False, fragmentOffset = 0, totalLengthField = 40, h_other = ()\<rparr>"

definition example_payload :: "bool list" where
  "example_payload = chunk_bits blank_ser (Elem (BytesChunk (replicate 20 5)))"

definition example_datagram :: "(unit, unit) ip_packet" where
  "example_datagram = Packet_with (SequenceChunk [FieldsChunk (Ipv4Object example_header) 160, BytesChunk (replicate 20 5)])"

definition example_fragments :: "(unit, unit) ip_packet list" where
  "example_fragments = (case fragmentAndSend 32 example_datagram of Inr (SendFragments fs) \<Rightarrow> fs | _ \<Rightarrow> [])"

lemma example_ok: "datagram_ok blank_ser example_header example_payload"
proof -
  have "length example_payload = 160" by (simp add: example_payload_def)
  then show ?thesis using same_datagramD(1) [of _ example_header]
    by (auto simp: datagram_ok_def blank_ser_def) (simp_all add: example_header_def)
qed

lemma example_is_datagram: "is_datagram blank_ser example_header example_payload example_datagram"
  by code_simp

lemma example_pieces:
  "\<forall>p\<in>set example_fragments. frag_key example_header = packet_key p \<and> fragment_of blank_ser example_header example_payload (frag_header p) p"
  by code_simp

lemma example_genuine: "\<forall>p\<in>set example_fragments. genuine blank_ser (\<lambda>_. (example_header, example_payload)) p"
  using example_ok example_pieces by (simp add: genuine_def)

section \<open>The results\<close>

text \<open>(C15) A datagram that is too long for the link is cut into fragments that fit, and the fragments, arriving in any order and
  at any times, are put together to the datagram when the last of them arrives: the same header and the same payload, and
  nothing stays in the buffers.\<close>

theorem ipv4_fragmentation_roundtrip:
  assumes "datagram_ok ser h0 P" and "is_datagram ser h0 P p" and "headerLength h0 + 8 \<le> mtu" and "mtu < headerLength h0 + payload_length P"
    and "0 < timeToLive h0" and "\<not> dontFragment h0"
  shows "\<exists>fs. fragmentAndSend mtu p = Inr (SendFragments fs) \<and> (\<forall>f\<in>set fs. getByteLength f \<le> mtu)
     \<and> (\<forall>ps. mset (map fst ps) = mset fs \<longrightarrow> (\<exists>pk. addFragments ps [] = Inr (replicate (length fs - 1) None @ [Some pk], [])
          \<and> packet_ok ser pk \<and> data_bits ser pk = data_bits ser p \<and> peekIpv4Header pk = peekIpv4Header p))"
proof -
  let ?h = "whole_header h0 P" and ?k = "frag_key h0" and ?d = "\<lambda>_. (h0, P)"
  note D = is_datagramD [OF assms(1,2)]
  have h: "totalLengthField ?h = headerLength h0 + payload_length P" "frag_range ?h = {0..<payload_length P}"
    by (simp_all add: whole_header_def frag_range_def frag_bytes_def)
  obtain fs where fs: "fragmentAndSend mtu p = Inr (SendFragments (map snd fs))" "fragments_of ser h0 P fs {0..<payload_length P}"
      "\<And>g f. (g, f) \<in> set fs \<Longrightarrow> getByteLength f \<le> mtu \<and> (8 dvd fragmentOffset ?h \<longrightarrow> 8 dvd fragmentOffset g)"
    using fragmentAndSend_spec [OF assms(1) D(1) _ assms(3) _ assms(5,6)] D(2) assms(4) h by metis
  have "\<exists>pk. addFragments ps [] = Inr (replicate (length (map snd fs) - 1) None @ [Some pk], [])
      \<and> packet_ok ser pk \<and> data_bits ser pk = data_bits ser p \<and> peekIpv4Header pk = peekIpv4Header p"
    if ps: "mset (map fst ps) = mset (map snd fs)" for ps
  proof -
    have "genuine ser ?d f" if f: "f \<in> set (map fst ps)" for f
    proof -
      obtain g where "(g, f) \<in> set fs" using f mset_eq_setD [OF ps] by auto
      then have fr: "fragment_of ser h0 P g f" using fs(2) by (auto simp: fragments_of_def)
      then have "frag_header f = g" "frag_key g = frag_key h0"
        using frag_header_of [OF fr] same_datagramD(2) [of g h0] by (simp_all add: fragment_of_def piece_header_def)
      then show ?thesis using assms(1) fr by (simp add: genuine_def)
    qed
    then have gs: "\<forall>(p, now)\<in>set ps. genuine ser ?d p" by force
    have ne: "bufs_ok ser ?d []" by (simp add: bufs_ok_def)
    obtain outs bufs where o: "addFragments ps [] = Inr (outs, bufs)" "bufs_ok ser ?d bufs"
        "arrivals (map (\<lambda>(p, now). arrival ?d p) ps) (arrived ser []) = (map (\<lambda>out. out \<noteq> None) outs, arrived ser bufs)"
        "list_all2 (\<lambda>(p, now) out. restores ser ?d p out) ps outs"
      using addFragments_spec [OF ne gs] by blast
    have a0: "arrived ser [] = (\<lambda>_. {})" and m: "map (\<lambda>(p, now). arrival ?d p) ps = map (arrival ?d) (map fst ps)"
      by (auto simp: arrived_def fun_eq_iff)
    have a: "map (\<lambda>out. out \<noteq> None) outs = replicate (length (map fst ps) - 1) False @ [True]" "arrived ser bufs = (\<lambda>_. {})"
      using o(3) unfolding a0 m arrivals_of_fragments [OF fs(2) D(3) refl ps] by simp_all
    obtain pk where pk: "outs = replicate (length (map fst ps) - 1) None @ [Some pk]" by (rule last_output [OF a(1)])
    have "length (map fst ps) = length (map snd fs)" using ps by (metis size_mset)
    moreover have "bufs = []" using nothing_arrived [OF o(2) a(2)] by simp
    moreover have "is_datagram ser h0 P pk"
    proof -
      have "list_all2 (\<lambda>x out. \<forall>pk. out = Some pk \<longrightarrow> is_datagram ser h0 P pk) ps outs"
        by (rule list_all2_mono [OF o(4)]) (auto simp: restores_def)
      then show ?thesis unfolding pk list_all2_append2 by (auto simp: list_all2_Cons2)
    qed
    ultimately show ?thesis using o(1) pk assms(2) by (auto simp: is_datagram_def)
  qed
  then show ?thesis using fs(1,3) by (intro exI [of _ "map snd fs"]) auto
qed

theorem ipv4_fragmentation_roundtrip_witness:
  "\<exists>fs pk. fragmentAndSend 32 example_datagram = Inr (SendFragments fs)
     \<and> addFragments (map (\<lambda>f. (f, 0)) (rev fs)) [] = Inr (replicate (length fs - 1) None @ [Some pk], [])
     \<and> data_bits blank_ser pk = data_bits blank_ser example_datagram"
proof -
  have "headerLength example_header + 8 \<le> 32" "32 < headerLength example_header + payload_length example_payload"
      "0 < timeToLive example_header" "\<not> dontFragment example_header"
    by (simp_all add: example_header_def example_payload_def payload_length_def)
  from ipv4_fragmentation_roundtrip [OF example_ok example_is_datagram this]
  obtain fs where fs: "fragmentAndSend 32 example_datagram = Inr (SendFragments fs)"
      "\<And>ps :: ((unit, unit) ip_packet \<times> simtime) list. mset (map fst ps) = mset fs \<Longrightarrow> \<exists>pk. addFragments ps [] = Inr (replicate (length fs - 1) None @ [Some pk], [])
          \<and> packet_ok blank_ser pk \<and> data_bits blank_ser pk = data_bits blank_ser example_datagram \<and> peekIpv4Header pk = peekIpv4Header example_datagram"
    by blast
  then show ?thesis using fs(2) [of "map (\<lambda>f. (f, 0)) (rev fs)"] by (auto simp: comp_def)
qed

text \<open>(C39) Reassembly refines the map from datagrams to sets of arrived bytes: with fragments of any number of datagrams,
  interleaved, repeated and overlapping, it never fails, it hands out a datagram exactly when its last missing byte arrives,
  and what it hands out is that datagram.\<close>

theorem ipv4_reassembly_refines:
  assumes "\<forall>(p, now)\<in>set ps. genuine ser datagram p"
  shows "\<exists>outs bufs. addFragments ps [] = Inr (outs, bufs)
     \<and> arrivals (map (\<lambda>(p, now). arrival datagram p) ps) (\<lambda>_. {}) = (map (\<lambda>out. out \<noteq> None) outs, arrived ser bufs)
     \<and> list_all2 (\<lambda>(p, now) out. restores ser datagram p out) ps outs"
proof -
  have "arrived ser [] = (\<lambda>_. {})" by (simp add: arrived_def fun_eq_iff)
  moreover have "bufs_ok ser datagram []" by (simp add: bufs_ok_def)
  ultimately show ?thesis using addFragments_spec [of ser datagram "[]" ps] assms by auto
qed

definition example_arrivals :: "((unit, unit) ip_packet \<times> simtime) list" where
  "example_arrivals = map (\<lambda>f. (f, 3)) (rev example_fragments @ example_fragments)"

theorem ipv4_reassembly_refines_witness:
  "\<exists>outs bufs. addFragments example_arrivals [] = Inr (outs, bufs)
     \<and> list_all2 (\<lambda>(p, now) out. restores blank_ser (\<lambda>_. (example_header, example_payload)) p out) example_arrivals outs"
proof -
  have "\<forall>(p, now)\<in>set example_arrivals. genuine blank_ser (\<lambda>_. (example_header, example_payload)) p"
    using example_genuine by (auto simp: example_arrivals_def)
  from ipv4_reassembly_refines [OF this] show ?thesis by blast
qed

end
