(* ===== verification/Checksum.thy ===== *)
theory Checksum
  imports SeqNum
begin

text \<open>
  The Internet checksum (\<open>common/checksum/TcpIpChecksum\<close> in the INET framework): the one's complement sum of
  16-bit words, computed in 32 bits with carries folded in, in its two implementations. They compute the same
  number, which is characterised by its residue modulo 65535, so that the checks of the protocols accept exactly the
  data the sum was computed for, up to a multiple of 65535.
\<close>

unbundle bit_operations_syntax

section \<open>The code\<close>

type_synonym uint8 = "8 word"
type_synonym uint16 = "16 word"

text \<open>\<open>(sum & 0xFFFF) + (sum >> 16)\<close>\<close>

definition fold_carry :: "uint32 \<Rightarrow> uint32" where
  "fold_carry s = (s AND 0xFFFF) + drop_bit 16 s"

lemma unat_drop_16: "unat (drop_bit 16 s) = unat (s :: uint32) div 65536"
  by (simp add: drop_bit_eq_div unat_div)

lemma unat_fold_carry: "unat (fold_carry s) = unat s mod 65536 + unat s div 65536"
proof -
  have "s AND 0xFFFF = take_bit 16 s" by (simp add: take_bit_eq_mask mask_eq_exp_minus_1)
  then have m: "unat (s AND 0xFFFF) = unat s mod 65536" by (simp add: take_bit_eq_mod unat_mod)
  have "unat s < 2 ^ 32" using unsigned_less [of s] by simp
  then have "unat s mod 65536 + unat s div 65536 < 2 ^ 32" by simp
  then show ?thesis unfolding fold_carry_def using m unat_drop_16 by (simp add: unat_word_ariths(1))
qed

text \<open>In the loop the sum is folded when its top bit is set.\<close>

definition add16 :: "uint32 \<Rightarrow> uint32 \<Rightarrow> uint32" where
  "add16 s x = (let s = s + x in if s AND 0x80000000 \<noteq> 0 then fold_carry s else s)"

text \<open>\<open>while (sum >> 16)\<close>\<close>

function fold_all :: "uint32 \<Rightarrow> uint32" where
  "fold_all s = (if drop_bit 16 s \<noteq> 0 then fold_all (fold_carry s) else s)"
  by pat_completeness auto

lemma drop_bit_16: "drop_bit 16 s \<noteq> (0 :: uint32) \<longleftrightarrow> 65536 \<le> unat s"
proof -
  have "drop_bit 16 s = 0 \<longleftrightarrow> unat (drop_bit 16 s) = 0" by (simp add: unat_eq_0)
  then show ?thesis unfolding unat_drop_16 by (auto simp: div_eq_0_iff)
qed

termination fold_all
proof (relation "measure unat")
  fix s :: uint32
  assume "drop_bit 16 s \<noteq> 0"
  then have ge: "65536 \<le> unat s" by (simp only: drop_bit_16)
  have "unat s = 65536 * (unat s div 65536) + unat s mod 65536" by simp
  moreover have "1 \<le> unat s div 65536" using ge by (simp add: Suc_le_eq div_greater_zero_iff)
  ultimately have "unat s mod 65536 + unat s div 65536 < unat s" by linarith
  then show "(fold_carry s, s) \<in> measure unat" by (simp add: unat_fold_carry)
qed simp

declare fold_all.simps [simp del]

text \<open>\<open>_checksum(const void *addr, unsigned int count)\<close> on the \<open>count\<close> bytes behind the pointer\<close>

fun sum_pairs :: "uint8 list \<Rightarrow> uint32 \<Rightarrow> uint32" where
  "sum_pairs (a # b # addr) s = sum_pairs addr (add16 s (push_bit 8 (ucast a) OR ucast b))"
| "sum_pairs [a] s = s + push_bit 8 (ucast a)"
| "sum_pairs [] s = s"

definition checksum_array :: "uint8 list \<Rightarrow> uint16" where
  "checksum_array addr = ucast (fold_all (sum_pairs addr 0))"

text \<open>\<open>_checksum(const std::vector<uint8_t>& vec)\<close>\<close>

fun sum_bytes :: "nat \<Rightarrow> uint8 list \<Rightarrow> uint32 \<Rightarrow> uint32" where
  "sum_bytes i [] s = s"
| "sum_bytes i (x # vec) s = sum_bytes (i + 1) vec (add16 s (if odd i then ucast x else push_bit 8 (ucast x)))"

definition checksum_vector :: "uint8 list \<Rightarrow> uint16" where
  "checksum_vector vec = ucast (fold_all (sum_bytes 0 vec 0))"

definition checksum :: "uint8 list \<Rightarrow> uint16" where
  "checksum vec = NOT (checksum_vector vec)"

definition checksum_of_array :: "uint8 list \<Rightarrow> uint16" where
  "checksum_of_array addr = NOT (checksum_array addr)"

section \<open>One's complement sums\<close>

text \<open>The sum of the 16-bit words in network order; an odd byte at the end is padded with zeros.\<close>

fun sum16 :: "uint8 list \<Rightarrow> nat" where
  "sum16 (a # b # bs) = 256 * unat a + unat b + sum16 bs"
| "sum16 [a] = 256 * unat a"
| "sum16 [] = 0"

text \<open>Its representative from 1 to 65535, and 0 for 0 only.\<close>

definition ones :: "nat \<Rightarrow> nat" where
  "ones n = (if n = 0 then 0 else Suc ((n - 1) mod 65535))"

lemma ones_le: "ones n \<le> 65535"
proof -
  have "(n - 1) mod 65535 < 65535" by simp
  then show ?thesis unfolding ones_def by (cases "n = 0") (simp_all only: if_True if_False, simp_all)
qed

lemma ones_cong: "ones n mod 65535 = n mod 65535"
  unfolding ones_def by (cases n) (simp_all add: mod_Suc_eq)

lemma ones_eq_0 [simp]: "ones n = 0 \<longleftrightarrow> n = 0"
  by (simp add: ones_def)

lemma onesI:
  assumes "r \<le> 65535" and "r mod 65535 = n mod 65535" and "r = 0 \<longleftrightarrow> n = 0"
  shows "r = ones n"
proof (cases "n = 0")
  case False
  then obtain r' n' where r: "r = Suc r'" "n = Suc n'" using assms(3) by (metis not0_implies_Suc)
  then have "r' mod 65535 = n' mod 65535" using assms(2) by (simp add: mod_Suc split: if_splits)
  then show ?thesis using r assms(1) by (simp add: ones_def)
qed (use assms in simp)

section \<open>The implementations\<close>

lemma fold_step_cong: "(x mod 65536 + x div 65536) mod 65535 = x mod (65535 :: nat)"
proof -
  have "65536 * (x div 65536) + x mod 65536 = x" by simp
  then have "x = (x mod 65536 + x div 65536) + 65535 * (x div 65536)" by linarith
  then have "x mod 65535 = ((x mod 65536 + x div 65536) + 65535 * (x div 65536)) mod 65535" by (rule arg_cong)
  then show ?thesis by (simp only: mod_mult_self2)
qed

lemma fold_step_0: "x mod 65536 + x div 65536 = 0 \<longleftrightarrow> x = (0 :: nat)"
  by (metis add_is_0 div_0 mod_0 mod_div_trivial mod_eq_self_iff_div_eq_0)

lemma fold_all_ones: "unat (fold_all s) = ones (unat s)"
proof (induction s rule: fold_all.induct)
  case (1 s)
  show ?case
  proof (cases "drop_bit 16 s = 0")
    case True
    then have "unat s \<le> 65535" using drop_bit_16 [of s] by simp
    then have "unat s = ones (unat s)" by (intro onesI) simp_all
    then show ?thesis using True by (simp add: fold_all.simps)
  next
    case False
    then have "fold_all s = fold_all (fold_carry s)" by (subst fold_all.simps) simp
    then have e: "unat (fold_all s) = ones (unat (fold_carry s))" using 1 [OF False] by simp
    also have "\<dots> = ones (unat s)"
    proof (rule onesI)
      show "ones (unat (fold_carry s)) mod 65535 = unat s mod 65535" by (simp add: ones_cong unat_fold_carry fold_step_cong)
      show "ones (unat (fold_carry s)) = 0 \<longleftrightarrow> unat s = 0"
        by (simp only: ones_eq_0 unat_fold_carry fold_step_0)
    qed (rule ones_le)
    finally show ?thesis .
  qed
qed

text \<open>Neither loop overflows: the sum stays below the top bit.\<close>

definition sums_to :: "uint32 \<Rightarrow> nat \<Rightarrow> bool" where
  "sums_to s n \<longleftrightarrow> unat s < 2 ^ 31 \<and> unat s mod 65535 = n mod 65535 \<and> (s = 0 \<longleftrightarrow> n = 0)"

lemma top_bit: "(s :: uint32) AND 0x80000000 \<noteq> 0 \<longleftrightarrow> 2 ^ 31 \<le> unat s"
proof -
  have "(0x80000000 :: uint32) = 2 ^ 31" by simp
  then have "s AND 0x80000000 \<noteq> 0 \<longleftrightarrow> bit s 31" by (simp only: and_exp_eq_0_iff_not_bit) simp
  also have "\<dots> \<longleftrightarrow> bit (unat s) 31" by (simp add: bit_unsigned_iff)
  also have "\<dots> \<longleftrightarrow> odd (unat s div 2 ^ 31)" by (rule bit_iff_odd)
  also have "\<dots> \<longleftrightarrow> 2 ^ 31 \<le> unat s"
  proof -
    have "unat s div 2 ^ 31 < 2" using unsigned_less [of s, where ?'a = nat] by (simp add: less_mult_imp_div_less)
    then have "odd (unat s div 2 ^ 31) \<longleftrightarrow> 0 < unat s div 2 ^ 31" by (cases "unat s div 2 ^ 31") auto
    then show ?thesis by (simp only: div_greater_zero_iff) simp
  qed
  finally show ?thesis .
qed

lemma add16_sums:
  assumes "sums_to s n" and "unat x \<le> 65535"
  shows "sums_to (add16 s x) (n + unat x)"
proof -
  have s: "unat s < 2 ^ 31" "unat s mod 65535 = n mod 65535" "unat s = 0 \<longleftrightarrow> n = 0"
    using assms(1) by (auto simp: sums_to_def unat_eq_0)
  have u: "unat (s + x) = unat s + unat x" using s(1) assms(2) by (simp add: unat_word_ariths(1))
  have c: "(unat s + unat x) mod 65535 = (n + unat x) mod 65535" using s(2) by (rule mod_add_cong) (rule refl)
  have z: "unat s + unat x = 0 \<longleftrightarrow> n + unat x = 0" using s(3) by simp
  show ?thesis
  proof (cases "2 ^ 31 \<le> unat (s + x)")
    case True
    then have a: "add16 s x = fold_carry (s + x)" by (simp add: add16_def top_bit)
    have "(unat s + unat x) div 65536 < 65536" using s(1) assms(2) by (simp add: less_mult_imp_div_less)
    then have "unat (fold_carry (s + x)) < 2 ^ 31" by (simp add: unat_fold_carry u)
    then show ?thesis unfolding a sums_to_def
      using c z by (simp only: unat_fold_carry u fold_step_cong unat_eq_0 [symmetric] fold_step_0)
  next
    case False
    then have "add16 s x = s + x" by (simp add: add16_def top_bit)
    then show ?thesis using c z False by (simp add: sums_to_def u flip: unat_eq_0)
  qed
qed

lemma fold_all_sums:
  assumes "sums_to s n" and "unat x \<le> 65535"
  shows "unat (fold_all (s + x)) = ones (n + unat x)"
proof -
  have s: "unat s < 2 ^ 31" "unat s mod 65535 = n mod 65535" "unat s = 0 \<longleftrightarrow> n = 0"
    using assms(1) by (auto simp: sums_to_def unat_eq_0)
  have u: "unat (s + x) = unat s + unat x" using s(1) assms(2) by (simp add: unat_word_ariths(1))
  show ?thesis unfolding fold_all_ones u
  proof (rule onesI [OF ones_le])
    show "ones (unat s + unat x) mod 65535 = (n + unat x) mod 65535"
      unfolding ones_cong using s(2) by (rule mod_add_cong) (rule refl)
    show "ones (unat s + unat x) = 0 \<longleftrightarrow> n + unat x = 0" using s(3) by simp
  qed
qed

lemma unat_byte_le: "unat (a :: uint8) \<le> 255"
  using unsigned_less [of a, where ?'a = nat] by simp

lemma unat_high_byte: "unat (push_bit 8 (ucast (a :: uint8)) :: uint32) = 256 * unat a"
proof -
  have "unat a * 256 < 2 ^ 32" using unat_byte_le [of a] by simp
  then show ?thesis by (simp add: push_bit_eq_mult unat_word_ariths(2) unsigned_ucast_eq take_bit_eq_mod unat_byte_le mult.commute order_le_less_trans [OF unat_byte_le])
qed

lemma unat_low_byte: "unat (ucast (b :: uint8) :: uint32) = unat b"
  by (simp add: unsigned_ucast_eq take_bit_eq_mod order_le_less_trans [OF unat_byte_le])

lemma unat_byte_pair: "unat (push_bit 8 (ucast (a :: uint8)) OR ucast (b :: uint8) :: uint32) = 256 * unat a + unat b"
proof -
  have "push_bit 8 (ucast a) OR ucast b = (push_bit 8 (ucast a) + ucast b :: uint32)"
    by (rule disjunctive_add [symmetric]) (auto simp: bit_simps dest: bit_imp_le_length)
  moreover have "256 * unat a + unat b < 2 ^ 32" using unat_byte_le [of a] unat_byte_le [of b] by simp
  ultimately show ?thesis by (simp add: unat_word_ariths(1) unat_high_byte unat_low_byte)
qed

lemma sums_to_0: "sums_to 0 0"
  by (simp add: sums_to_def)

lemma sum_pairs_ones: "sums_to s n \<Longrightarrow> unat (fold_all (sum_pairs bs s)) = ones (n + sum16 bs)"
proof (induction bs s arbitrary: n rule: sum_pairs.induct)
  case (1 a b addr s)
  have "unat (push_bit 8 (ucast a) OR ucast b :: uint32) \<le> 65535"
    unfolding unat_byte_pair using unat_byte_le [of a] unat_byte_le [of b] by linarith
  from 1(1) [OF add16_sums [OF 1(2) this]] show ?case by (simp add: unat_byte_pair add.assoc)
next
  case (2 a s)
  have "unat (push_bit 8 (ucast a) :: uint32) \<le> 65535" unfolding unat_high_byte using unat_byte_le [of a] by linarith
  from fold_all_sums [OF 2 this] show ?case by (simp add: unat_high_byte)
next
  case (3 s)
  have "unat (0 :: uint32) \<le> 65535" by simp
  from fold_all_sums [OF 3 this] show ?case by simp
qed

lemma sum_bytes_ones: "sums_to s n \<Longrightarrow> even i \<Longrightarrow> unat (fold_all (sum_bytes i bs s)) = ones (n + sum16 bs)"
proof (induction bs arbitrary: i s n rule: sum16.induct)
  case (1 a b bs)
  have le: "unat (push_bit 8 (ucast a) :: uint32) \<le> 65535" "unat (ucast b :: uint32) \<le> 65535"
    unfolding unat_high_byte unat_low_byte using unat_byte_le [of a] unat_byte_le [of b] by linarith+
  have "even (i + 2)" using 1(3) by simp
  from 1(1) [OF add16_sums [OF add16_sums [OF 1(2) le(1)] le(2)] this] show ?case
    using 1(3) by (simp add: unat_high_byte unat_low_byte add.assoc)
next
  case (2 a)
  have "unat (push_bit 8 (ucast a) :: uint32) \<le> 65535" unfolding unat_high_byte using unat_byte_le [of a] by linarith
  note s = add16_sums [OF 2(1) this]
  have "unat (0 :: uint32) \<le> 65535" by simp
  from fold_all_sums [OF s this] show ?case using 2(2) by (simp add: unat_high_byte)
next
  case 3
  have "unat (0 :: uint32) \<le> 65535" by simp
  from fold_all_sums [OF 3(1) this] show ?case by simp
qed

lemma unat_ucast16: "unat x \<le> 65535 \<Longrightarrow> unat (ucast (x :: uint32) :: uint16) = unat x"
  by (simp add: unsigned_ucast_eq take_bit_eq_mod)

lemma unat_checksum_array: "unat (checksum_array bs) = ones (sum16 bs)"
  using sum_pairs_ones [OF sums_to_0, of bs] ones_le unfolding checksum_array_def by (simp add: unat_ucast16)

lemma unat_checksum_vector: "unat (checksum_vector bs) = ones (sum16 bs)"
  using sum_bytes_ones [OF sums_to_0, of 0 bs] ones_le unfolding checksum_vector_def by (simp add: unat_ucast16)

lemma unat_checksum: "unat (checksum bs) = 65535 - ones (sum16 bs)"
proof -
  have "NOT w = - 1 - w" for w :: uint16 by (simp add: not_eq_complement)
  then have "unat (NOT w) = 65535 - unat w" for w :: uint16
    by (simp add: unat_sub word_order.extremum unsigned_minus_1_eq_mask mask_eq_exp_minus_1)
  then show ?thesis by (simp add: checksum_def unat_checksum_vector)
qed

section \<open>What the checksum detects\<close>

definition high_byte :: "uint16 \<Rightarrow> uint8" where
  "high_byte w = ucast (drop_bit 8 w)"

definition low_byte :: "uint16 \<Rightarrow> uint8" where
  "low_byte w = ucast w"

lemma unat_bytes: "256 * unat (high_byte w) + unat (low_byte w) = unat w"
proof -
  have "unat w div 256 < 256" using unsigned_less [of w, where ?'a = nat] by (simp add: less_mult_imp_div_less)
  then have "unat (high_byte w) = unat w div 256"
    by (simp add: high_byte_def unsigned_ucast_eq take_bit_eq_mod drop_bit_eq_div unat_div)
  moreover have "unat (low_byte w) = unat w mod 256" by (simp add: low_byte_def unsigned_ucast_eq take_bit_eq_mod)
  ultimately show ?thesis by simp
qed

lemma sum16_append: "even (length pre) \<Longrightarrow> sum16 (pre @ bs) = sum16 pre + sum16 bs"
  by (induction pre rule: sum16.induct) auto

lemma sum16_word:
  "even (length pre) \<Longrightarrow> sum16 (pre @ [high_byte w, low_byte w] @ post) = sum16 (pre @ [0, 0] @ post) + unat w"
  using unat_bytes [of w] by (simp add: sum16_append)

lemma checksum_eq_0: "checksum bs = 0 \<longleftrightarrow> sum16 bs \<noteq> 0 \<and> sum16 bs mod 65535 = 0"
proof -
  have "checksum bs = 0 \<longleftrightarrow> ones (sum16 bs) = 65535"
    using ones_le [of "sum16 bs"] unat_checksum [of bs] by (metis diff_diff_cancel diff_zero unat_eq_0 diff_self_eq_0)
  also have "\<dots> \<longleftrightarrow> sum16 bs \<noteq> 0 \<and> sum16 bs mod 65535 = 0"
  proof
    assume "ones (sum16 bs) = 65535"
    then show "sum16 bs \<noteq> 0 \<and> sum16 bs mod 65535 = 0" using ones_cong [of "sum16 bs"] ones_eq_0 [of "sum16 bs"] by auto
  next
    assume "sum16 bs \<noteq> 0 \<and> sum16 bs mod 65535 = 0"
    then show "ones (sum16 bs) = 65535" by (intro onesI [symmetric]) auto
  qed
  finally show ?thesis .
qed

text \<open>The two representations of zero.\<close>

definition same_ones :: "uint16 \<Rightarrow> uint16 \<Rightarrow> bool" where
  "same_ones v w \<longleftrightarrow> v = w \<or> {v, w} = {0, 0xFFFF}"

lemma mod_65535_le: "v \<le> 65535 \<Longrightarrow> v mod 65535 = (if v = 65535 then 0 else v :: nat)"
  by simp

lemma mod_65535_eq:
  assumes "v \<le> 65535" and "w \<le> (65535 :: nat)"
  shows "v mod 65535 = w mod 65535 \<longleftrightarrow> v = w \<or> {v, w} = {0, 65535}"
  unfolding mod_65535_le [OF assms(1)] mod_65535_le [OF assms(2)] by (auto simp: doubleton_eq_iff)

lemma complement_mod:
  assumes "k \<le> (m :: nat)"
  shows "(k + w) mod m = 0 \<longleftrightarrow> w mod m = (m - k) mod m"
proof
  assume "(k + w) mod m = 0"
  then have "((m - k) + (k + w)) mod m = (m - k) mod m" by (metis add.right_neutral mod_add_right_eq)
  moreover have "(m - k) + (k + w) = m + w" using assms by simp
  ultimately show "w mod m = (m - k) mod m" by simp
next
  assume "w mod m = (m - k) mod m"
  then have "(k + w) mod m = (k + (m - k)) mod m" by (metis mod_add_right_eq)
  then show "(k + w) mod m = 0" using assms by simp
qed

lemma same_ones_iff: "same_ones v w \<longleftrightarrow> unat v mod 65535 = unat w mod 65535"
proof -
  have b: "unat v \<le> 65535" "unat w \<le> 65535"
    using unsigned_less [of v, where ?'a = nat] unsigned_less [of w, where ?'a = nat] by simp_all
  have u: "unat (0xFFFF :: uint16) = 65535" "unat (0 :: uint16) = 0" by simp_all
  have e: "y = z \<longleftrightarrow> unat y = unat z" for y z :: uint16 by (rule word_unat_eq_iff)
  have z: "x = 0 \<longleftrightarrow> unat x = 0" and f: "x = 0xFFFF \<longleftrightarrow> unat x = 65535" for x :: uint16
    using e [of x 0] e [of x "0xFFFF"] unfolding u .
  show ?thesis
    unfolding mod_65535_eq [OF b] same_ones_def doubleton_eq_iff e [of v w] z [of v] z [of w] f [of v] f [of w] ..
qed

lemma checksum_of_word:
  assumes "even (length pre)" and "sum16 (pre @ [0, 0] @ post) \<noteq> 0"
  shows "checksum (pre @ [high_byte w, low_byte w] @ post) = 0 \<longleftrightarrow> same_ones w (checksum (pre @ [0, 0] @ post))"
proof -
  define n where "n = sum16 (pre @ [0, 0] @ post)"
  have c: "unat (checksum (pre @ [0, 0] @ post)) = 65535 - ones n" by (simp add: unat_checksum n_def)
  have "checksum (pre @ [high_byte w, low_byte w] @ post) = 0 \<longleftrightarrow> (n + unat w) mod 65535 = 0"
    using assms(2) unfolding checksum_eq_0 sum16_word [OF assms(1)] n_def by simp
  also have "\<dots> \<longleftrightarrow> (ones n + unat w) mod 65535 = 0" by (metis ones_cong mod_add_left_eq)
  also have "\<dots> \<longleftrightarrow> unat w mod 65535 = (65535 - ones n) mod 65535" by (rule complement_mod [OF ones_le])
  finally show ?thesis unfolding same_ones_iff c .
qed

section \<open>Properties\<close>

text \<open>(C38) The two implementations of the checksum agree, and compute the complement of the one's complement sum of the
  16-bit words in network order, an odd last byte padded with zeros; no 32-bit addition overflows on the way.\<close>

theorem checksum_equivalent:
  "checksum_array bs = checksum_vector bs \<and> checksum_of_array bs = checksum bs \<and> unat (checksum bs) = 65535 - ones (sum16 bs)"
proof -
  have "checksum_array bs = checksum_vector bs"
    by (rule word_unat_eq_iff [THEN iffD2]) (simp add: unat_checksum_array unat_checksum_vector)
  then show ?thesis by (simp add: checksum_of_array_def checksum_def unat_checksum [unfolded checksum_def])
qed

text \<open>(C29) A checksum computed with its own field set to zero and then stored in the field is accepted by the receiver, who
  sums everything and expects 0; and data with a changed 16-bit word is rejected, unless the change is between the two
  representations of zero.\<close>

theorem checksum_detects:
  assumes "even (length pre)" and "sum16 (pre @ [0, 0] @ post) \<noteq> 0" and "c = checksum (pre @ [0, 0] @ post)"
  shows "checksum (pre @ [high_byte c, low_byte c] @ post) = 0
     \<and> (\<forall>v w. checksum (pre @ [high_byte v, low_byte v] @ post) = 0 \<longrightarrow>
          (checksum (pre @ [high_byte w, low_byte w] @ post) = 0 \<longleftrightarrow> same_ones v w))"
  unfolding assms(3) checksum_of_word [OF assms(1,2)] by (auto simp: same_ones_iff)

theorem checksum_detects_witness:
  "checksum ([0x45, 0x00, 0x01] @ [0xF0] @ [high_byte 0xBA0E, low_byte 0xBA0E] @ [0xFF]) = 0
   \<and> checksum ([0x45, 0x00, 0x01] @ [0xF0] @ [high_byte 0xBA1E, low_byte 0xBA1E] @ [0xFF]) \<noteq> 0"
proof -
  have c: "checksum ([0x45, 0x00, 0x01, 0xF0] @ [0, 0] @ [0xFF]) = 0xBA0E"
    by (simp add: checksum_def checksum_vector_def add16_def fold_all.simps fold_carry_def)
  have d: "checksum ([0x45, 0x00, 0x01, 0xF0] @ [high_byte 0xBA0E, low_byte 0xBA0E] @ [0xFF]) = 0"
      "\<And>v w. checksum ([0x45, 0x00, 0x01, 0xF0] @ [high_byte v, low_byte v] @ [0xFF]) = 0 \<Longrightarrow>
        checksum ([0x45, 0x00, 0x01, 0xF0] @ [high_byte w, low_byte w] @ [0xFF]) = 0 \<longleftrightarrow> same_ones v w"
    using checksum_detects [of "[0x45, 0x00, 0x01, 0xF0]" "[0xFF]" "0xBA0E"] c by simp_all
  have "\<not> same_ones 0xBA0E 0xBA1E" by (simp add: same_ones_def doubleton_eq_iff)
  then show ?thesis using d(1) d(2) [OF d(1), of "0xBA1E"] by simp
qed

end
