(* ===== verification/MemoryStream.thy ===== *)
theory MemoryStream
  imports Checksum ChunkSpec MacAddr SackQueue
begin

text \<open>
  The bit streams protocol headers are serialized to and deserialized from (\<open>common/MemoryOutputStream.h\<close>,
  \<open>common/MemoryInputStream.h\<close> in the INET framework). A stream is a vector of bytes with a length in bits, the first bit
  in the most significant bit of the first byte; the functions for bytes and integers need a position on a byte boundary
  (\<open>assert\<close>), those for bits do not. Reading past the end does not fail, it sets a flag. \<open>vector::at\<close> throws; an
  unchecked access outside the vector is an error, too.
\<close>

type_synonym Ipv6Address = "uint32 \<times> uint32 \<times> uint32 \<times> uint32"

definition at_index :: "'a list \<Rightarrow> nat \<Rightarrow> error + 'a" where
  "at_index xs i = (if i < length xs then Inr (xs ! i) else Inl IndexOutOfRange)"

text \<open>\<open>byte & (1 << (7 - bitIndex))\<close>\<close>

definition test_bit :: "uint8 \<Rightarrow> nat \<Rightarrow> bool" where
  "test_bit byte bitIndex \<longleftrightarrow> byte AND push_bit (7 - bitIndex) 1 \<noteq> 0"

text \<open>The loop of \<open>copyData\<close> on bits, common to both streams: \<open>n\<close> bits from \<open>i\<close>.\<close>

fun copy_bits :: "uint8 list \<Rightarrow> nat \<Rightarrow> nat \<Rightarrow> error + bool list" where
  "copy_bits vec i 0 = Inr []"
| "copy_bits vec i (Suc n) =
     ebind (at_index vec (i div 8)) (\<lambda>byte. ebind (copy_bits vec (i + 1) n) (\<lambda>bs. Inr (test_bit byte (i mod 8) # bs)))"

section \<open>Output\<close>

record MemoryOutputStream =
  out_data :: "uint8 list"
  out_length :: nat

type_synonym writer = "MemoryOutputStream \<Rightarrow> error + MemoryOutputStream"

definition MemoryOutputStream_new :: MemoryOutputStream where
  "MemoryOutputStream_new = \<lparr>out_data = [], out_length = 0\<rparr>"

definition out_copyBits :: "int \<Rightarrow> int \<Rightarrow> MemoryOutputStream \<Rightarrow> error + bool list" where
  "out_copyBits offset len s =
     (let e = (if len = - 1 then int (out_length s) else offset + len)
      in copy_bits (out_data s) (nat offset) (nat (e - offset)))"

definition out_copyBytes :: "uint8 list \<Rightarrow> int \<Rightarrow> int \<Rightarrow> MemoryOutputStream \<Rightarrow> error + uint8 list" where
  "out_copyBytes result offset len s =
     (let e = (if len = - 1 then int (length (out_data s)) else offset + len)
      in ebind (subvector offset e (out_data s)) (\<lambda>part. Inr (part @ result)))"

definition writeBit :: "bool \<Rightarrow> writer" where
  "writeBit value s =
     (let i = out_length s; byteIndex = i div 8; bitIndex = i mod 8;
          data = (if bitIndex = 0 then out_data s @ [0] else out_data s)
      in if value
         then ebind (at_index data byteIndex) (\<lambda>byte.
              Inr (s\<lparr>out_data := data[byteIndex := byte OR push_bit (7 - bitIndex) 1], out_length := i + 1\<rparr>))
         else Inr (s\<lparr>out_data := data, out_length := i + 1\<rparr>))"

fun writeBitRepeatedly :: "bool \<Rightarrow> nat \<Rightarrow> writer" where
  "writeBitRepeatedly value 0 s = Inr s"
| "writeBitRepeatedly value (Suc n) s = ebind (writeBit value s) (writeBitRepeatedly value n)"

text \<open>The loop over \<open>bits.at(i)\<close>, \<open>n\<close> bits from \<open>i\<close>.\<close>

fun write_bits :: "bool list \<Rightarrow> nat \<Rightarrow> nat \<Rightarrow> writer" where
  "write_bits bits i 0 s = Inr s"
| "write_bits bits i (Suc n) s = ebind (at_index bits i) (\<lambda>v. ebind (writeBit v s) (write_bits bits (i + 1) n))"

definition writeBits :: "bool list \<Rightarrow> int \<Rightarrow> int \<Rightarrow> writer" where
  "writeBits bits offset len =
     (let e = (if len = - 1 then int (length bits) else offset + len) in write_bits bits (nat offset) (nat (e - offset)))"

definition writeByte :: "uint8 \<Rightarrow> writer" where
  "writeByte value s = ASSERT (out_length s mod 8 = 0) (Inr (s\<lparr>out_data := out_data s @ [value], out_length := out_length s + 8\<rparr>))"

fun writeByteRepeatedly :: "uint8 \<Rightarrow> nat \<Rightarrow> writer" where
  "writeByteRepeatedly value 0 s = Inr s"
| "writeByteRepeatedly value (Suc n) s = ebind (writeByte value s) (writeByteRepeatedly value n)"

definition writeBytes :: "uint8 list \<Rightarrow> int \<Rightarrow> int \<Rightarrow> writer" where
  "writeBytes bytes offset len s =
     ASSERT (out_length s mod 8 = 0)
       (let e = (if len = - 1 then int (length bytes) else offset + len)
        in ebind (subvector offset e bytes) (\<lambda>part.
           Inr (s\<lparr>out_data := out_data s @ part, out_length := out_length s + 8 * nat (e - offset)\<rparr>)))"

definition writeBuffer :: "uint8 list \<Rightarrow> int \<Rightarrow> writer" where
  "writeBuffer buffer len s =
     ASSERT (out_length s mod 8 = 0)
       (ebind (subvector 0 len buffer) (\<lambda>part.
          Inr (s\<lparr>out_data := out_data s @ part, out_length := out_length s + 8 * nat len\<rparr>)))"

definition writeUint2 :: "uint8 \<Rightarrow> writer" where
  "writeUint2 value s = ebind (writeBit (value AND 0x2 \<noteq> 0) s) (writeBit (value AND 0x1 \<noteq> 0))"

definition writeUint4 :: "uint8 \<Rightarrow> writer" where
  "writeUint4 value s =
     ebind (writeBit (value AND 0x8 \<noteq> 0) s) (\<lambda>s.
     ebind (writeBit (value AND 0x4 \<noteq> 0) s) (\<lambda>s.
     ebind (writeBit (value AND 0x2 \<noteq> 0) s) (writeBit (value AND 0x1 \<noteq> 0))))"

definition writeUint8 :: "uint8 \<Rightarrow> writer" where
  "writeUint8 = writeByte"

text \<open>One \<open>writeByte(static_cast<uint8_t>(value >> shift))\<close> after the other.\<close>

fun write_shifted :: "nat list \<Rightarrow> 'a :: len word \<Rightarrow> writer" where
  "write_shifted [] value s = Inr s"
| "write_shifted (shift # shifts) value s = ebind (writeByte (ucast (drop_bit shift value)) s) (write_shifted shifts value)"

definition writeUint16Be :: "uint16 \<Rightarrow> writer" where
  "writeUint16Be = write_shifted [8, 0]"

definition writeUint16Le :: "uint16 \<Rightarrow> writer" where
  "writeUint16Le = write_shifted [0, 8]"

definition writeUint32Be :: "uint32 \<Rightarrow> writer" where
  "writeUint32Be = write_shifted [24, 16, 8, 0]"

definition writeUint32Le :: "uint32 \<Rightarrow> writer" where
  "writeUint32Le = write_shifted [0, 8, 16, 24]"

definition writeUint64Be :: "uint64 \<Rightarrow> writer" where
  "writeUint64Be = write_shifted [56, 48, 40, 32, 24, 16, 8, 0]"

definition writeUint64Le :: "uint64 \<Rightarrow> writer" where
  "writeUint64Le = write_shifted [0, 8, 16, 24, 32, 40, 48, 56]"

fun write_mac :: "nat list \<Rightarrow> MacAddress \<Rightarrow> writer" where
  "write_mac [] address s = Inr s"
| "write_mac (i # is) address s = ebind (getAddressByte i address) (\<lambda>b. ebind (writeByte b s) (write_mac is address))"

definition writeMacAddress :: "MacAddress \<Rightarrow> writer" where
  "writeMacAddress = write_mac [0..<MAC_ADDRESS_SIZE]"

definition writeIpv4Address :: "Ipv4Address \<Rightarrow> writer" where
  "writeIpv4Address address = writeUint32Be address"

fun writeIpv6Address :: "Ipv6Address \<Rightarrow> writer" where
  "writeIpv6Address (d0, d1, d2, d3) s =
     ebind (writeUint32Be d0 s) (\<lambda>s. ebind (writeUint32Be d1 s) (\<lambda>s. ebind (writeUint32Be d2 s) (writeUint32Be d3)))"

section \<open>Input\<close>

record MemoryInputStream =
  in_data :: "uint8 list"
  in_length :: nat
  position :: nat
  isReadBeyondEnd :: bool

type_synonym 'v reader = "MemoryInputStream \<Rightarrow> error + 'v \<times> MemoryInputStream"

definition MemoryInputStream_new :: "uint8 list \<Rightarrow> int \<Rightarrow> int \<Rightarrow> error + MemoryInputStream" where
  "MemoryInputStream_new data len pos =
     (let l = (if len = - 1 then 8 * int (length data) else len)
      in ASSERT (0 \<le> l) (ASSERT (0 \<le> pos \<and> pos \<le> l)
           (Inr \<lparr>in_data = data, in_length = nat l, position = nat pos, isReadBeyondEnd = False\<rparr>)))"

definition getRemainingLength :: "MemoryInputStream \<Rightarrow> nat" where
  "getRemainingLength s = in_length s - position s"

definition in_copyBits :: "int \<Rightarrow> int \<Rightarrow> MemoryInputStream \<Rightarrow> error + bool list" where
  "in_copyBits offset len s =
     (let e = (if len = - 1 then int (in_length s) else offset + len)
      in copy_bits (in_data s) (nat offset) (nat (e - offset)))"

definition seek :: "int \<Rightarrow> MemoryInputStream \<Rightarrow> error + MemoryInputStream" where
  "seek pos s = ASSERT (0 \<le> pos \<and> pos \<le> int (in_length s)) (Inr (s\<lparr>position := nat pos\<rparr>))"

definition readBit :: "bool reader" where
  "readBit s =
     (if position s = in_length s then Inr (False, s\<lparr>isReadBeyondEnd := True\<rparr>)
      else let i = position s in
           ebind (at_index (in_data s) (i div 8)) (\<lambda>byte. Inr (test_bit byte (i mod 8), s\<lparr>position := i + 1\<rparr>)))"

fun readBitRepeatedly :: "bool \<Rightarrow> nat \<Rightarrow> bool reader" where
  "readBitRepeatedly value 0 s = Inr (True, s)"
| "readBitRepeatedly value (Suc n) s =
     ebind (readBit s) (\<lambda>(v, s). ebind (readBitRepeatedly value n s) (\<lambda>(success, s). Inr ((value = v) \<and> success, s)))"

text \<open>The bits read; their number is the result of the C++ function.\<close>

fun readBits :: "nat \<Rightarrow> bool list reader" where
  "readBits 0 s = Inr ([], s)"
| "readBits (Suc len) s =
     (if isReadBeyondEnd s then Inr ([], s)
      else ebind (readBit s) (\<lambda>(v, s). ebind (readBits len s) (\<lambda>(vs, s). Inr (v # vs, s))))"

definition readByte :: "uint8 reader" where
  "readByte s =
     ASSERT (position s mod 8 = 0)
       (if position s + 8 > in_length s then Inr (0, s\<lparr>isReadBeyondEnd := True, position := in_length s\<rparr>)
        else ebind (at_index (in_data s) (position s div 8)) (\<lambda>byte. Inr (byte, s\<lparr>position := position s + 8\<rparr>)))"

fun readByteRepeatedly :: "uint8 \<Rightarrow> nat \<Rightarrow> bool reader" where
  "readByteRepeatedly value 0 s = Inr (True, s)"
| "readByteRepeatedly value (Suc n) s =
     ebind (readByte s) (\<lambda>(v, s). ebind (readByteRepeatedly value n s) (\<lambda>(success, s). Inr ((value = v) \<and> success, s)))"

text \<open>Both variants, into a vector and into a buffer; \<open>length\<close> is cut to the bytes that are left.\<close>

definition readBytes :: "nat \<Rightarrow> uint8 list reader" where
  "readBytes len s =
     ASSERT (position s mod 8 = 0)
       (ebind (if position s + 8 * len > in_length s
               then ebind (to_B (int (in_length s) - int (position s))) (\<lambda>n. Inr (nat n, s\<lparr>isReadBeyondEnd := True\<rparr>))
               else Inr (len, s)) (\<lambda>(len, s).
        ebind (subvector (int (position s div 8)) (int (position s div 8 + len)) (in_data s)) (\<lambda>part.
          Inr (part, s\<lparr>position := position s + 8 * len\<rparr>))))"

definition readUint2 :: "uint8 reader" where
  "readUint2 s =
     ebind (readBit s) (\<lambda>(b1, s). ebind (readBit s) (\<lambda>(b0, s).
       let value = 0; value = (if b1 then value OR 0x2 else value); value = (if b0 then value OR 0x1 else value) in Inr (value, s)))"

definition readUint4 :: "uint8 reader" where
  "readUint4 s =
     ebind (readBit s) (\<lambda>(b3, s). ebind (readBit s) (\<lambda>(b2, s). ebind (readBit s) (\<lambda>(b1, s). ebind (readBit s) (\<lambda>(b0, s).
       let value = 0; value = (if b3 then value OR 0x8 else value); value = (if b2 then value OR 0x4 else value);
           value = (if b1 then value OR 0x2 else value); value = (if b0 then value OR 0x1 else value) in Inr (value, s)))))"

definition readUint8 :: "uint8 reader" where
  "readUint8 = readByte"

text \<open>One \<open>value |= (static_cast<..>(readByte()) << shift)\<close> after the other.\<close>

fun read_shifted :: "nat list \<Rightarrow> 'a :: len word \<Rightarrow> 'a word reader" where
  "read_shifted [] value s = Inr (value, s)"
| "read_shifted (shift # shifts) value s =
     ebind (readByte s) (\<lambda>(b, s). read_shifted shifts (value OR push_bit shift (ucast b)) s)"

definition readUint16Be :: "uint16 reader" where
  "readUint16Be = read_shifted [8, 0] 0"

definition readUint16Le :: "uint16 reader" where
  "readUint16Le = read_shifted [0, 8] 0"

definition readUint32Be :: "uint32 reader" where
  "readUint32Be = read_shifted [24, 16, 8, 0] 0"

definition readUint32Le :: "uint32 reader" where
  "readUint32Le = read_shifted [0, 8, 16, 24] 0"

definition readUint64Be :: "uint64 reader" where
  "readUint64Be = read_shifted [56, 48, 40, 32, 24, 16, 8, 0] 0"

definition readUint64Le :: "uint64 reader" where
  "readUint64Le = read_shifted [0, 8, 16, 24, 32, 40, 48, 56] 0"

fun read_mac :: "nat list \<Rightarrow> MacAddress \<Rightarrow> MacAddress reader" where
  "read_mac [] address s = Inr (address, s)"
| "read_mac (i # is) address s =
     ebind (readByte s) (\<lambda>(b, s). ebind (setAddressByte i b address) (\<lambda>address. read_mac is address s))"

definition readMacAddress :: "MacAddress reader" where
  "readMacAddress = read_mac [0..<MAC_ADDRESS_SIZE] 0"

definition readIpv4Address :: "Ipv4Address reader" where
  "readIpv4Address = readUint32Be"

definition readIpv6Address :: "Ipv6Address reader" where
  "readIpv6Address s =
     ebind (readUint32Be s) (\<lambda>(d0, s). ebind (readUint32Be s) (\<lambda>(d1, s). ebind (readUint32Be s) (\<lambda>(d2, s).
     ebind (readUint32Be s) (\<lambda>(d3, s). Inr ((d0, d1, d2, d3), s)))))"

end
