(* ===== verification/MemoryStreamSpec.thy ===== *)
theory MemoryStreamSpec
  imports MemoryStream
begin

text \<open>
  The streams as lists of bits. Every pair of a write and a read function satisfies the laws of the locale
  \<open>stream_field\<close>: writing appends the bits of the value, reading takes them off again, and reading past the end sets the
  flag. From these laws follows that a message written field by field is read back.
\<close>

section \<open>Bits of a vector\<close>

definition vec_bits :: "uint8 list \<Rightarrow> bool list" where
  "vec_bits vec = concat (map byte_bits vec)"

lemma vec_bits_simps [simp]:
  "vec_bits [] = []" "vec_bits (b # vec) = byte_bits b @ vec_bits vec" "vec_bits (v @ w) = vec_bits v @ vec_bits w"
  by (simp_all add: vec_bits_def)

lemma length_vec_bits [simp]: "length (vec_bits vec) = 8 * length vec"
  by (simp add: vec_bits_def)

lemma byte_bits_nth: "i < 8 \<Longrightarrow> byte_bits b ! i = bit b (7 - i)"
  by (simp add: byte_bits_def rev_nth)

lemma byte_bits_0: "byte_bits 0 = replicate 8 False"
  by (rule nth_equalityI) (simp_all add: byte_bits_nth)

lemma test_bit_iff: "i < 8 \<Longrightarrow> test_bit b i = bit b (7 - i)"
proof -
  have "push_bit (7 - i) 1 = (2 ^ (7 - i) :: uint8)" by (simp add: push_bit_eq_mult)
  then show ?thesis unfolding test_bit_def by (simp only: and_exp_eq_0_iff_not_bit) simp
qed

lemma vec_bits_nth: "i < 8 * length vec \<Longrightarrow> vec_bits vec ! i = test_bit (vec ! (i div 8)) (i mod 8)"
proof (induction vec arbitrary: i)
  case (Cons b vec)
  show ?case
  proof (cases "i < 8")
    case True
    then show ?thesis by (simp add: nth_append test_bit_iff byte_bits_nth)
  next
    case False
    then have "i div 8 = Suc ((i - 8) div 8)" "i mod 8 = (i - 8) mod 8" by (simp_all add: div_if mod_if)
    then show ?thesis using False Cons by (simp add: nth_append)
  qed
qed simp

lemma set_bit_nth: "j < 8 \<Longrightarrow> test_bit (b OR push_bit (7 - j) 1) i = (test_bit b i \<or> i = j)" if "i < 8"
  using that by (auto simp: test_bit_iff bit_simps)

lemmas set_power_nth = set_bit_nth [unfolded push_bit_of_1]

lemma vec_bits_update:
  assumes "k < length vec" and "j < 8"
  shows "vec_bits (vec[k := vec ! k OR push_bit (7 - j) 1]) = (vec_bits vec)[8 * k + j := True]"
proof (rule nth_equalityI)
  fix i
  assume "i < length (vec_bits (vec[k := vec ! k OR push_bit (7 - j) 1]))"
  then have i: "i < 8 * length vec" by simp
  have e: "i = 8 * k + j \<longleftrightarrow> i div 8 = k \<and> i mod 8 = j" using assms(2) by auto
  have "i div 8 < length vec" using i by (simp add: less_mult_imp_div_less mult.commute)
  then show "vec_bits (vec[k := vec ! k OR push_bit (7 - j) 1]) ! i = (vec_bits vec)[8 * k + j := True] ! i"
    using i assms e by (auto simp: vec_bits_nth nth_list_update set_power_nth)
qed simp

section \<open>Output\<close>

text \<open>The stream has these bits; the rest of the last byte is zero.\<close>

definition holds :: "MemoryOutputStream \<Rightarrow> bool list \<Rightarrow> bool" where
  "holds s bs \<longleftrightarrow> out_length s = length bs \<and> (\<exists>pad<8. vec_bits (out_data s) = bs @ replicate pad False)"

lemma holds_new: "holds MemoryOutputStream_new []"
  by (simp add: holds_def MemoryOutputStream_new_def)

lemma holds_aligned:
  assumes "holds s bs" and "8 dvd length bs"
  shows "vec_bits (out_data s) = bs"
proof -
  from assms(1) obtain pad where p: "pad < 8" "vec_bits (out_data s) = bs @ replicate pad False" by (auto simp: holds_def)
  then have "8 * length (out_data s) = length bs + pad" by (metis length_append length_replicate length_vec_bits)
  then have "8 dvd pad" using assms(2) by (metis dvd_add_right_iff dvd_triv_left)
  then have "pad = 0" using p(1) by auto
  then show ?thesis using p(2) by simp
qed

lemma writeBit_ok:
  assumes "holds s bs"
  shows "\<exists>s'. writeBit v s = Inr s' \<and> holds s' (bs @ [v])"
proof -
  define vec where "vec = (if length bs mod 8 = 0 then out_data s @ [0] else out_data s)"
  obtain pad where p: "pad < 8" "vec_bits vec = bs @ replicate (Suc pad) False"
  proof (cases "length bs mod 8 = 0")
    case True
    then have "vec_bits vec = bs @ replicate (Suc 7) False"
      using holds_aligned [OF assms] by (simp add: vec_def byte_bits_0 mod_eq_0_iff_dvd)
    then show thesis using that [of 7] by simp
  next
    case False
    obtain pad where p: "pad < 8" "vec_bits (out_data s) = bs @ replicate pad False" using assms by (auto simp: holds_def)
    have "pad \<noteq> 0"
    proof
      assume "pad = 0"
      then have "8 * length (out_data s) = length bs" using p(2) by (metis append_Nil2 length_vec_bits replicate_0)
      then show False using False by (metis mod_mult_self1_is_0)
    qed
    then obtain pad' where "pad = Suc pad'" by (cases pad) auto
    then show thesis using that [of pad'] p False by (simp add: vec_def)
  qed
  have len: "8 * length vec = length bs + Suc pad" using arg_cong [OF p(2), of length] by simp
  then have k: "length bs div 8 < length vec" by linarith
  have j: "length bs mod 8 < 8" by simp
  have u: "vec_bits (vec[length bs div 8 := vec ! (length bs div 8) OR push_bit (7 - length bs mod 8) 1]) = bs @ [True] @ replicate pad False"
    unfolding vec_bits_update [OF k j] p(2) by (simp add: list_update_append)
  have l: "out_length s = length bs" using assms by (simp add: holds_def)
  show ?thesis
  proof (cases v)
    case True
    then show ?thesis using k u p(1) l by (auto simp: writeBit_def Let_def at_index_def holds_def simp flip: vec_def)
  next
    case False
    then show ?thesis using p l by (auto simp: writeBit_def Let_def holds_def simp flip: vec_def)
  qed
qed

lemma writeByte_ok:
  assumes "holds s bs" and "8 dvd length bs"
  shows "\<exists>s'. writeByte v s = Inr s' \<and> holds s' (bs @ byte_bits v)"
  using holds_aligned [OF assms] assms by (auto simp: writeByte_def holds_def)

lemma write_shifted_ok:
  assumes "holds s bs" and "8 dvd length bs"
  shows "\<exists>s'. write_shifted shifts v s = Inr s' \<and> holds s' (bs @ vec_bits (map (\<lambda>k. ucast (drop_bit k v)) shifts))"
  using assms
proof (induction shifts arbitrary: s bs)
  case (Cons k shifts)
  obtain s1 where s1: "writeByte (ucast (drop_bit k v)) s = Inr s1" "holds s1 (bs @ byte_bits (ucast (drop_bit k v)))"
    using writeByte_ok [OF Cons.prems] by blast
  then show ?case using Cons.IH [OF s1(2)] Cons.prems(2) by simp
qed simp

section \<open>Input\<close>

definition in_ok :: "MemoryInputStream \<Rightarrow> bool" where
  "in_ok s \<longleftrightarrow> in_length s \<le> 8 * length (in_data s) \<and> position s \<le> in_length s"

text \<open>The bits not yet read.\<close>

definition in_rest :: "MemoryInputStream \<Rightarrow> bool list" where
  "in_rest s = drop (position s) (take (in_length s) (vec_bits (in_data s)))"

lemma length_in_rest: "in_ok s \<Longrightarrow> length (in_rest s) = in_length s - position s"
  by (simp add: in_ok_def in_rest_def)

lemma in_rest_advance:
  assumes "in_ok s" and "in_rest s = v @ bs"
  shows "in_ok (s\<lparr>position := position s + length v\<rparr>)" and "in_rest (s\<lparr>position := position s + length v\<rparr>) = bs"
proof -
  have "length v + length bs = in_length s - position s" using length_in_rest [OF assms(1)] assms(2) by simp
  then show "in_ok (s\<lparr>position := position s + length v\<rparr>)" using assms(1) by (auto simp: in_ok_def)
  have "drop (length v) (in_rest s) = bs" by (simp add: assms(2))
  then show "in_rest (s\<lparr>position := position s + length v\<rparr>) = bs" by (simp add: in_rest_def add.commute)
qed

lemma readBit_ok:
  assumes "in_ok s" and "in_rest s = v # bs"
  shows "readBit s = Inr (v, s\<lparr>position := position s + 1\<rparr>)"
proof -
  have lt: "position s < in_length s" using length_in_rest [OF assms(1)] assms(2) by simp
  then have i: "position s < 8 * length (in_data s)" using assms(1) by (simp add: in_ok_def)
  have "v = in_rest s ! 0" by (simp add: assms(2))
  also have "\<dots> = vec_bits (in_data s) ! position s" using lt i by (simp add: in_rest_def)
  finally have v: "test_bit (in_data s ! (position s div 8)) (position s mod 8) = v" using vec_bits_nth [OF i] by simp
  have "position s div 8 < length (in_data s)" using i by (simp add: less_mult_imp_div_less mult.commute)
  then show ?thesis using lt v by (simp add: readBit_def Let_def at_index_def)
qed

lemma readBit_end: "in_rest s = [] \<Longrightarrow> in_ok s \<Longrightarrow> readBit s = Inr (False, s\<lparr>isReadBeyondEnd := True\<rparr>)"
  using length_in_rest [of s] by (simp add: readBit_def in_ok_def)

lemma byte_bits_inject [simp]: "byte_bits a = byte_bits b \<longleftrightarrow> a = b"
proof
  assume e: "byte_bits a = byte_bits b"
  show "a = b"
  proof (rule bit_word_eqI)
    fix i
    assume "i < LENGTH(8)"
    then show "bit a i = bit b i" using arg_cong [OF e, of "\<lambda>l. l ! (7 - i)"] by (simp add: byte_bits_nth)
  qed
qed simp

lemma readByte_ok:
  assumes "in_ok s" and "in_rest s = byte_bits b @ bs" and "8 dvd position s"
  shows "readByte s = Inr (b, s\<lparr>position := position s + 8\<rparr>)"
proof -
  obtain k where k: "position s = 8 * k" using assms(3) by (rule dvdE)
  have le: "8 * k + 8 \<le> in_length s" using length_in_rest [OF assms(1)] assms(2) k by simp
  then have kl: "k < length (in_data s)" using assms(1) by (simp add: in_ok_def)
  have "take 8 (in_rest s) = take 8 (drop (8 * k) (vec_bits (in_data s)))"
    using le by (simp add: in_rest_def k take_drop min_def add.commute)
  also have "drop (8 * k) (vec_bits (in_data s)) = vec_bits (drop k (in_data s))" by (simp add: vec_bits_def drop_bytes_bits)
  also have "drop k (in_data s) = in_data s ! k # drop (Suc k) (in_data s)" using kl by (simp add: Cons_nth_drop_Suc)
  finally have "byte_bits b = byte_bits (in_data s ! k)" using assms(2) by simp
  then show ?thesis using le kl by (simp add: readByte_def k at_index_def ASSERT_def)
qed

lemma readByte_end:
  "in_ok s \<Longrightarrow> 8 dvd position s \<Longrightarrow> length (in_rest s) < 8 \<Longrightarrow> readByte s = Inr (0, s\<lparr>position := in_length s, isReadBeyondEnd := True\<rparr>)"
  using length_in_rest [of s] by (auto simp: readByte_def in_ok_def ASSERT_def)

section \<open>The contract of a field\<close>

text \<open>\<open>trunc\<close> is the value the field can hold, \<open>valid\<close> restricts the values written.\<close>

locale stream_field =
  fixes align :: nat and width :: nat and valid :: "'v \<Rightarrow> bool" and put :: "'v \<Rightarrow> writer" and get :: "'v reader"
    and bits :: "'v \<Rightarrow> bool list" and trunc :: "'v \<Rightarrow> 'v"
  assumes width: "valid v \<Longrightarrow> length (bits v) = width"
    and write_ok: "holds s bs \<Longrightarrow> align dvd length bs \<Longrightarrow> valid v \<Longrightarrow> \<exists>s'. put v s = Inr s' \<and> holds s' (bs @ bits v)"
    and read_ok: "in_ok t \<Longrightarrow> align dvd position t \<Longrightarrow> valid v \<Longrightarrow> in_rest t = bits v @ bs \<Longrightarrow>
      get t = Inr (trunc v, t\<lparr>position := position t + width\<rparr>)"
    and read_some: "in_ok t \<Longrightarrow> align dvd position t \<Longrightarrow> width \<le> length (in_rest t) \<Longrightarrow>
      \<exists>v. get t = Inr (v, t\<lparr>position := position t + width\<rparr>)"
    and read_end: "in_ok t \<Longrightarrow> align dvd position t \<Longrightarrow> align dvd in_length t \<Longrightarrow> length (in_rest t) < width \<Longrightarrow>
      \<exists>v. get t = Inr (v, t\<lparr>position := in_length t, isReadBeyondEnd := True\<rparr>)"
begin

text \<open>Reading a field that starts where it was written, whatever has been written behind it.\<close>

lemma write_read:
  assumes "holds s bs" and "align dvd length bs" and "valid v"
  obtains s' where "put v s = Inr s'" and "holds s' (bs @ bits v)"
    and "\<And>t more. in_ok t \<Longrightarrow> position t = length bs \<Longrightarrow> in_rest t = bits v @ more \<Longrightarrow>
      get t = Inr (trunc v, t\<lparr>position := position t + width\<rparr>) \<and> in_ok (t\<lparr>position := position t + width\<rparr>)
      \<and> in_rest (t\<lparr>position := position t + width\<rparr>) = more"
proof -
  from write_ok [OF assms] obtain s' where s': "put v s = Inr s'" "holds s' (bs @ bits v)" by blast
  show thesis
  proof (rule that [OF s'])
    fix t more
    assume t: "in_ok t" "position t = length bs" "in_rest t = bits v @ more"
    then have "align dvd position t" using assms(2) by simp
    from read_ok [OF t(1) this assms(3) t(3)] in_rest_advance [OF t(1,3)]
    show "get t = Inr (trunc v, t\<lparr>position := position t + width\<rparr>) \<and> in_ok (t\<lparr>position := position t + width\<rparr>)
      \<and> in_rest (t\<lparr>position := position t + width\<rparr>) = more"
      by (simp add: width [OF assms(3)])
  qed
qed

end

section \<open>Bits\<close>

interpretation bit_field: stream_field 1 1 "\<lambda>_. True" writeBit readBit "\<lambda>v. [v]" "\<lambda>v. v"
proof
  fix t :: MemoryInputStream and v bs
  assume "in_ok t" "in_rest t = [v] @ bs"
  then show "readBit t = Inr (v, t\<lparr>position := position t + 1\<rparr>)" using readBit_ok by simp
next
  fix t :: MemoryInputStream
  assume t: "in_ok t" "1 \<le> length (in_rest t)"
  then obtain v bs where "in_rest t = v # bs" by (cases "in_rest t") auto
  then show "\<exists>v. readBit t = Inr (v, t\<lparr>position := position t + 1\<rparr>)" using readBit_ok [OF t(1)] by blast
next
  fix t :: MemoryInputStream
  assume t: "in_ok t" "length (in_rest t) < 1"
  then have "position t = in_length t" using length_in_rest [of t] by (simp add: in_ok_def)
  then have "t\<lparr>position := in_length t, isReadBeyondEnd := True\<rparr> = t\<lparr>isReadBeyondEnd := True\<rparr>" by simp
  then show "\<exists>v. readBit t = Inr (v, t\<lparr>position := in_length t, isReadBeyondEnd := True\<rparr>)"
    using readBit_end [OF _ t(1)] t(2) by auto
qed (use writeBit_ok in auto)

text \<open>Sequences of bits, written and read one by one.\<close>

fun put_bits :: "bool list \<Rightarrow> writer" where
  "put_bits [] s = Inr s"
| "put_bits (v # vs) s = ebind (writeBit v s) (put_bits vs)"

fun get_bits :: "nat \<Rightarrow> bool list reader" where
  "get_bits 0 t = Inr ([], t)"
| "get_bits (Suc n) t = ebind (readBit t) (\<lambda>(v, t). ebind (get_bits n t) (\<lambda>(vs, t). Inr (v # vs, t)))"

lemma put_bits_ok: "holds s bs \<Longrightarrow> \<exists>s'. put_bits vs s = Inr s' \<and> holds s' (bs @ vs)"
proof (induction vs arbitrary: s bs)
  case (Cons v vs)
  obtain s1 where s1: "writeBit v s = Inr s1" "holds s1 (bs @ [v])" using writeBit_ok [OF Cons.prems] by blast
  then show ?case using Cons.IH [OF s1(2)] by simp
qed simp

lemma get_bits_ok:
  "in_ok t \<Longrightarrow> in_rest t = vs @ bs \<Longrightarrow> get_bits (length vs) t = Inr (vs, t\<lparr>position := position t + length vs\<rparr>)"
proof (induction vs arbitrary: t)
  case (Cons v vs)
  have r: "in_rest t = [v] @ (vs @ bs)" using Cons.prems(2) by simp
  note a = in_rest_advance [OF Cons.prems(1) r]
  show ?case using readBit_ok [OF Cons.prems(1)] Cons.IH [OF a] Cons.prems(2) by simp
qed simp

lemma get_bits_end:
  "in_ok t \<Longrightarrow> length (in_rest t) < n \<Longrightarrow> \<exists>vs. length vs = n \<and> get_bits n t = Inr (vs, t\<lparr>position := in_length t, isReadBeyondEnd := True\<rparr>)"
proof (induction n arbitrary: t)
  case (Suc n)
  show ?case
  proof (cases "in_rest t")
    case Nil
    have e: "position t = in_length t" using Nil length_in_rest [OF Suc.prems(1)] Suc.prems(1) by (simp add: in_ok_def)
    define t1 where "t1 = t\<lparr>isReadBeyondEnd := True\<rparr>"
    have t1: "in_ok t1" "in_rest t1 = []" using Suc.prems(1) Nil by (simp_all add: t1_def in_ok_def in_rest_def)
    have "\<exists>vs. length vs = n \<and> get_bits n t1 = Inr (vs, t1)"
    proof (cases n)
      case 0
      then show ?thesis by simp
    next
      case (Suc m)
      then obtain vs where "length vs = n" "get_bits n t1 = Inr (vs, t1\<lparr>position := in_length t1, isReadBeyondEnd := True\<rparr>)"
        using Suc.IH [OF t1(1)] t1(2) by auto
      moreover have "t1\<lparr>position := in_length t1, isReadBeyondEnd := True\<rparr> = t1" using e by (simp add: t1_def)
      ultimately show ?thesis by auto
    qed
    then obtain vs where "length vs = n" "get_bits n t1 = Inr (vs, t1)" by blast
    moreover have "t\<lparr>position := in_length t, isReadBeyondEnd := True\<rparr> = t1" using e by (simp add: t1_def)
    ultimately show ?thesis using readBit_end [OF Nil Suc.prems(1)] by (simp add: t1_def)
  next
    case (Cons v bs)
    have r: "in_rest t = [v] @ bs" using Cons by simp
    note a = in_rest_advance [OF Suc.prems(1) r]
    have "\<exists>vs. length vs = n \<and> get_bits n (t\<lparr>position := position t + 1\<rparr>)
        = Inr (vs, t\<lparr>position := in_length t, isReadBeyondEnd := True\<rparr>)"
      using Suc.IH [OF a(1)] a(2) Suc.prems(2) Cons by simp
    then obtain vs where "length vs = n" "get_bits n (t\<lparr>position := position t + 1\<rparr>) = Inr (vs, t\<lparr>position := in_length t, isReadBeyondEnd := True\<rparr>)" by blast
    then show ?thesis using readBit_ok [OF Suc.prems(1) Cons] by simp
  qed
qed simp

section \<open>Bytes\<close>

fun bytes_write :: "uint8 list \<Rightarrow> writer" where
  "bytes_write [] s = Inr s"
| "bytes_write (b # bs) s = ebind (writeByte b s) (bytes_write bs)"

fun bytes_read :: "nat \<Rightarrow> uint8 list reader" where
  "bytes_read 0 t = Inr ([], t)"
| "bytes_read (Suc n) t = ebind (readByte t) (\<lambda>(b, t). ebind (bytes_read n t) (\<lambda>(bs, t). Inr (b # bs, t)))"

lemma bytes_write_ok:
  "holds s bs \<Longrightarrow> 8 dvd length bs \<Longrightarrow> \<exists>s'. bytes_write vec s = Inr s' \<and> holds s' (bs @ vec_bits vec)"
proof (induction vec arbitrary: s bs)
  case (Cons b vec)
  obtain s1 where s1: "writeByte b s = Inr s1" "holds s1 (bs @ byte_bits b)" using writeByte_ok [OF Cons.prems] by blast
  then show ?case using Cons.IH [OF s1(2)] Cons.prems(2) by simp
qed simp

lemma bytes_read_ok:
  "in_ok t \<Longrightarrow> 8 dvd position t \<Longrightarrow> in_rest t = vec_bits vec @ bs \<Longrightarrow>
     bytes_read (length vec) t = Inr (vec, t\<lparr>position := position t + 8 * length vec\<rparr>)"
proof (induction vec arbitrary: t)
  case (Cons b vec)
  have r: "in_rest t = byte_bits b @ (vec_bits vec @ bs)" using Cons.prems(3) by simp
  note a = in_rest_advance [OF Cons.prems(1) r, simplified]
  show ?case using readByte_ok [OF Cons.prems(1) r Cons.prems(2)] Cons.IH [OF a(1) _ a(2)] Cons.prems(2) by (simp add: add.assoc)
qed simp

lemma bytes_read_end:
  "in_ok t \<Longrightarrow> 8 dvd position t \<Longrightarrow> 8 dvd in_length t \<Longrightarrow> length (in_rest t) < 8 * n \<Longrightarrow>
     \<exists>vec. length vec = n \<and> bytes_read n t = Inr (vec, t\<lparr>position := in_length t, isReadBeyondEnd := True\<rparr>)"
proof (induction n arbitrary: t)
  case (Suc n)
  show ?case
  proof (cases "length (in_rest t) < 8")
    case True
    define t1 where "t1 = t\<lparr>position := in_length t, isReadBeyondEnd := True\<rparr>"
    have t1: "in_ok t1" "in_rest t1 = []" "8 dvd position t1" "8 dvd in_length t1"
      using Suc.prems(1,3) by (simp_all add: t1_def in_ok_def in_rest_def)
    have "\<exists>vec. length vec = n \<and> bytes_read n t1 = Inr (vec, t1)"
    proof (cases n)
      case 0
      then show ?thesis by simp
    next
      case (Suc m)
      then obtain vec where "length vec = n" "bytes_read n t1 = Inr (vec, t1\<lparr>position := in_length t1, isReadBeyondEnd := True\<rparr>)"
        using Suc.IH [OF t1(1,3,4)] t1(2) by auto
      then show ?thesis by (auto simp: t1_def)
    qed
    then show ?thesis using readByte_end [OF Suc.prems(1,2) True] by (auto simp flip: t1_def)
  next
    case False
    have le: "position t + 8 \<le> in_length t" using False length_in_rest [OF Suc.prems(1)] by simp
    define b where "b = in_data t ! (position t div 8)"
    obtain k where k: "position t = 8 * k" using Suc.prems(2) by (rule dvdE)
    have kl: "k < length (in_data t)" using le k Suc.prems(1) by (simp add: in_ok_def)
    have read: "readByte t = Inr (b, t\<lparr>position := position t + 8\<rparr>)"
      using le kl by (simp add: readByte_def k b_def at_index_def ASSERT_def)
    have "in_ok (t\<lparr>position := position t + 8\<rparr>)" using Suc.prems(1) le by (simp add: in_ok_def)
    moreover from this have "length (in_rest (t\<lparr>position := position t + 8\<rparr>)) < 8 * n"
      using Suc.prems(4) length_in_rest [OF Suc.prems(1)] False by (simp add: length_in_rest)
    ultimately obtain vec where "length vec = n" "bytes_read n (t\<lparr>position := position t + 8\<rparr>)
        = Inr (vec, t\<lparr>position := in_length t, isReadBeyondEnd := True\<rparr>)"
      using Suc.IH [of "t\<lparr>position := position t + 8\<rparr>"] Suc.prems(2,3) by auto
    then show ?thesis using read by (auto intro!: exI [of _ "b # vec"])
  qed
qed simp

lemma vec_bits_inject: "vec_bits v = vec_bits w \<longleftrightarrow> v = w"
proof
  show "v = w" if "vec_bits v = vec_bits w"
    using that
  proof (induction v arbitrary: w)
    case Nil
    then show ?case by (cases w) (use length_byte_bits in \<open>auto simp: byte_bits_def\<close>)
  next
    case (Cons b v)
    then obtain c w' where w: "w = c # w'" by (cases w) (auto simp: byte_bits_def)
    then show ?case using Cons by (simp add: append_eq_append_conv)
  qed
qed simp

lemma in_rest_take:
  assumes "in_ok t" and "position t = 8 * k" and "position t + 8 * n \<le> in_length t"
  shows "take (8 * n) (in_rest t) = vec_bits (take n (drop k (in_data t)))"
proof -
  have "take (8 * n) (in_rest t) = take (8 * n) (drop (8 * k) (vec_bits (in_data t)))"
    using assms(2,3) by (simp add: in_rest_def take_drop min_def add.commute)
  then show ?thesis by (simp add: vec_bits_def drop_bytes_bits take_bytes_bits)
qed

lemma in_rest_bytes:
  assumes "in_ok t" and "8 dvd position t" and "8 * n \<le> length (in_rest t)"
  obtains vec bs where "length vec = n" and "in_rest t = vec_bits vec @ bs"
proof -
  obtain k where k: "position t = 8 * k" using assms(2) by (rule dvdE)
  have le: "position t + 8 * n \<le> in_length t" using assms(1,3) length_in_rest [OF assms(1)] by (auto simp: in_ok_def)
  then have "k + n \<le> length (in_data t)" using assms(1) k by (simp add: in_ok_def)
  then show thesis using that [of "take n (drop k (in_data t))" "drop (8 * n) (in_rest t)"] in_rest_take [OF assms(1) k le]
    by (metis append_take_drop_id length_drop length_take le_diff_conv2 add_leD1 min.absorb2 add.commute)
qed

locale byte_field =
  fixes n :: nat and valid :: "'v \<Rightarrow> bool" and put :: "'v \<Rightarrow> writer" and get :: "'v reader"
    and bytes_of :: "'v \<Rightarrow> uint8 list" and value_of :: "uint8 list \<Rightarrow> 'v" and trunc :: "'v \<Rightarrow> 'v"
  assumes len: "valid v \<Longrightarrow> length (bytes_of v) = n"
    and put_bytes: "valid v \<Longrightarrow> bytes_write (bytes_of v) s = Inr s' \<Longrightarrow> put v s = Inr s'"
    and get_bytes: "bytes_read n t = Inr (vec, t') \<Longrightarrow> length vec = n \<Longrightarrow> get t = Inr (value_of vec, t')"
    and val_eq: "valid v \<Longrightarrow> value_of (bytes_of v) = trunc v"
begin

lemma field_laws:
  shows "holds s bs \<Longrightarrow> 8 dvd length bs \<Longrightarrow> valid v \<Longrightarrow> \<exists>s'. put v s = Inr s' \<and> holds s' (bs @ vec_bits (bytes_of v))"
    and "in_ok t \<Longrightarrow> 8 dvd position t \<Longrightarrow> valid v \<Longrightarrow> in_rest t = vec_bits (bytes_of v) @ bs \<Longrightarrow>
      get t = Inr (trunc v, t\<lparr>position := position t + 8 * n\<rparr>)"
    and "in_ok t \<Longrightarrow> 8 dvd position t \<Longrightarrow> 8 * n \<le> length (in_rest t) \<Longrightarrow> \<exists>v. get t = Inr (v, t\<lparr>position := position t + 8 * n\<rparr>)"
    and "in_ok t \<Longrightarrow> 8 dvd position t \<Longrightarrow> 8 dvd in_length t \<Longrightarrow> length (in_rest t) < 8 * n \<Longrightarrow>
      \<exists>v. get t = Inr (v, t\<lparr>position := in_length t, isReadBeyondEnd := True\<rparr>)"
proof -
  assume "holds s bs" "8 dvd length bs" "valid v"
  then show "\<exists>s'. put v s = Inr s' \<and> holds s' (bs @ vec_bits (bytes_of v))"
    using bytes_write_ok [of s bs "bytes_of v"] put_bytes by blast
next
  assume t: "in_ok t" "8 dvd position t" and v: "valid v" and r: "in_rest t = vec_bits (bytes_of v) @ bs"
  then show "get t = Inr (trunc v, t\<lparr>position := position t + 8 * n\<rparr>)"
    using get_bytes [OF bytes_read_ok [OF t r, unfolded len [OF v]] len [OF v]] val_eq [OF v] by simp
next
  assume t: "in_ok t" "8 dvd position t" and "8 * n \<le> length (in_rest t)"
  then obtain vec bs where vec: "length vec = n" "in_rest t = vec_bits vec @ bs" by (rule in_rest_bytes)
  show "\<exists>v. get t = Inr (v, t\<lparr>position := position t + 8 * n\<rparr>)"
    using get_bytes [OF bytes_read_ok [OF t vec(2), unfolded vec(1)] vec(1)] by blast
next
  assume "in_ok t" "8 dvd position t" "8 dvd in_length t" "length (in_rest t) < 8 * n"
  then show "\<exists>v. get t = Inr (v, t\<lparr>position := in_length t, isReadBeyondEnd := True\<rparr>)"
    using bytes_read_end [of t n] get_bytes by blast
qed

end

sublocale byte_field \<subseteq> stream_field 8 "8 * n" valid put get "\<lambda>v. vec_bits (bytes_of v)" trunc
  by standard (use len field_laws in auto)

section \<open>Integers\<close>

abbreviation shifted :: "nat list \<Rightarrow> 'a :: len word \<Rightarrow> uint8 list" where
  "shifted ks v \<equiv> map (\<lambda>k. ucast (drop_bit k v)) ks"

fun join :: "nat list \<Rightarrow> uint8 list \<Rightarrow> 'a :: len word \<Rightarrow> 'a word" where
  "join (k # ks) (b # vec) acc = join ks vec (acc OR push_bit k (ucast b))"
| "join _ _ acc = acc"

lemma write_shifted_bytes: "write_shifted ks v s = bytes_write (shifted ks v) s"
proof (induction ks arbitrary: s)
  case (Cons k ks)
  then have "write_shifted ks v = bytes_write (shifted ks v)" by (simp add: fun_eq_iff)
  then show ?case by simp
qed simp

lemma read_shifted_bytes: "bytes_read (length ks) t = Inr (vec, t') \<Longrightarrow> read_shifted ks acc t = Inr (join ks vec acc, t')"
  by (induction ks arbitrary: t vec acc) (auto simp: ebind_eq_Inr)

lemma bit_join:
  fixes v acc :: "'a :: len word"
  assumes "i < LENGTH('a)"
  shows "bit (join ks (shifted ks v) acc) i \<longleftrightarrow> bit acc i \<or> (\<exists>k\<in>set ks. k \<le> i \<and> i < k + 8 \<and> bit v i)"
proof (induction ks arbitrary: acc)
  case (Cons k ks)
  have "bit (acc OR push_bit k (ucast (ucast (drop_bit k v) :: uint8))) i \<longleftrightarrow> bit acc i \<or> (k \<le> i \<and> i < k + 8 \<and> bit v i)"
    using assms by (auto simp: bit_simps)
  then show ?case using Cons by auto
qed simp

definition covers :: "nat list \<Rightarrow> nat \<Rightarrow> bool" where
  "covers ks n \<longleftrightarrow> (\<forall>j<(n + 7) div 8. 8 * j \<in> set ks)"

lemma join_shifted:
  fixes v :: "'a :: len word"
  assumes "covers ks LENGTH('a)"
  shows "join ks (shifted ks v) 0 = v"
proof (rule bit_word_eqI)
  fix i
  assume i: "i < LENGTH('a)"
  then have "i div 8 \<in> set [0..<(LENGTH('a) + 7) div 8]" by simp
  then have "8 * (i div 8) \<in> set ks" using assms by (auto simp: covers_def)
  moreover have "8 * (i div 8) \<le> i \<and> i < 8 * (i div 8) + 8" by simp
  ultimately have "\<exists>k\<in>set ks. k \<le> i \<and> i < k + 8" by (rule bexI [rotated])
  then show "bit (join ks (shifted ks v) 0 :: 'a word) i = bit v i" by (subst bit_join [OF i]) auto
qed

lemma shifted_field:
  assumes "covers ks LENGTH('a)"
  shows "byte_field (length ks) (\<lambda>_. True) (write_shifted ks) (read_shifted ks 0) (shifted ks) (\<lambda>vec. join ks vec 0) (\<lambda>v :: 'a :: len word. v)"
  by standard (use join_shifted [OF assms] in \<open>simp_all add: write_shifted_bytes read_shifted_bytes\<close>)

interpretation u8: byte_field 1 "\<lambda>_. True" writeUint8 readUint8 "\<lambda>v. [v]" hd "\<lambda>v. v"
  by standard (auto simp: writeUint8_def readUint8_def ebind_eq_Inr)

lemma all_less_numeral: "(\<forall>j<numeral k. P j) \<longleftrightarrow> P (pred_numeral k) \<and> (\<forall>j<pred_numeral k. P j)"
  by (simp add: numeral_eq_Suc All_less_Suc)

lemma covers_16: "covers [8, 0] 16" "covers [0, 8] 16"
  by (simp_all add: covers_def all_less_numeral)

lemma covers_32: "covers [24, 16, 8, 0] 32" "covers [0, 8, 16, 24] 32"
  by (simp_all add: covers_def all_less_numeral)

lemma covers_64: "covers [56, 48, 40, 32, 24, 16, 8, 0] 64" "covers [0, 8, 16, 24, 32, 40, 48, 56] 64"
  by (simp_all add: covers_def all_less_numeral)

interpretation u16be: byte_field 2 "\<lambda>_. True" writeUint16Be readUint16Be "shifted [8, 0]" "\<lambda>vec. join [8, 0] vec 0" "\<lambda>v. v"
  using shifted_field [where ks = "[8, 0]" and ?'a = 16] covers_16 unfolding writeUint16Be_def readUint16Be_def by (simp add: numeral_eq_Suc)

interpretation u16le: byte_field 2 "\<lambda>_. True" writeUint16Le readUint16Le "shifted [0, 8]" "\<lambda>vec. join [0, 8] vec 0" "\<lambda>v. v"
  using shifted_field [where ks = "[0, 8]" and ?'a = 16] covers_16 unfolding writeUint16Le_def readUint16Le_def by (simp add: numeral_eq_Suc)

interpretation u32be: byte_field 4 "\<lambda>_. True" writeUint32Be readUint32Be "shifted [24, 16, 8, 0]" "\<lambda>vec. join [24, 16, 8, 0] vec 0" "\<lambda>v. v"
  using shifted_field [where ks = "[24, 16, 8, 0]" and ?'a = 32] covers_32 unfolding writeUint32Be_def readUint32Be_def by (simp add: numeral_eq_Suc)

interpretation u32le: byte_field 4 "\<lambda>_. True" writeUint32Le readUint32Le "shifted [0, 8, 16, 24]" "\<lambda>vec. join [0, 8, 16, 24] vec 0" "\<lambda>v. v"
  using shifted_field [where ks = "[0, 8, 16, 24]" and ?'a = 32] covers_32 unfolding writeUint32Le_def readUint32Le_def by (simp add: numeral_eq_Suc)

interpretation u64be: byte_field 8 "\<lambda>_. True" writeUint64Be readUint64Be "shifted [56, 48, 40, 32, 24, 16, 8, 0]" "\<lambda>vec. join [56, 48, 40, 32, 24, 16, 8, 0] vec 0" "\<lambda>v. v"
  using shifted_field [where ks = "[56, 48, 40, 32, 24, 16, 8, 0]" and ?'a = 64] covers_64 unfolding writeUint64Be_def readUint64Be_def by (simp add: numeral_eq_Suc)

interpretation u64le: byte_field 8 "\<lambda>_. True" writeUint64Le readUint64Le "shifted [0, 8, 16, 24, 32, 40, 48, 56]" "\<lambda>vec. join [0, 8, 16, 24, 32, 40, 48, 56] vec 0" "\<lambda>v. v"
  using shifted_field [where ks = "[0, 8, 16, 24, 32, 40, 48, 56]" and ?'a = 64] covers_64 unfolding writeUint64Le_def readUint64Le_def by (simp add: numeral_eq_Suc)

section \<open>Addresses and sequences of bytes\<close>

interpretation ipv4_field: byte_field 4 "\<lambda>_. True" writeIpv4Address readIpv4Address "shifted [24, 16, 8, 0]" "\<lambda>vec. join [24, 16, 8, 0] vec 0" "\<lambda>v. v"
  by standard (use u32be.len u32be.put_bytes u32be.get_bytes u32be.val_eq in \<open>simp_all add: writeIpv4Address_def readIpv4Address_def\<close>)

lemma bytes_write_append: "bytes_write (v @ w) = (\<lambda>s. ebind (bytes_write v s) (bytes_write w))"
proof (induction v)
  case (Cons b v)
  then show ?case by (intro ext) (simp add: ebind_assoc)
qed simp

lemma bytes_read_append:
  "bytes_read (m + n) t = Inr (vec, t') \<Longrightarrow> \<exists>v w t1. vec = v @ w \<and> length v = m \<and> bytes_read m t = Inr (v, t1) \<and> bytes_read n t1 = Inr (w, t')"
proof (induction m arbitrary: t vec)
  case (Suc m)
  then obtain b t2 vec' where s: "readByte t = Inr (b, t2)" "bytes_read (m + n) t2 = Inr (vec', t')" "vec = b # vec'"
    by (auto simp: ebind_eq_Inr)
  from Suc.IH [OF s(2)] obtain v w t1 where "vec' = v @ w" "length v = m" "bytes_read m t2 = Inr (v, t1)" "bytes_read n t1 = Inr (w, t')"
    by blast
  then show ?case using s by (intro exI [of _ "b # v"] exI [of _ w] exI [of _ t1]) auto
qed simp

fun ipv6_bytes :: "Ipv6Address \<Rightarrow> uint8 list" where
  "ipv6_bytes (d0, d1, d2, d3) = concat (map (shifted [24, 16, 8, 0]) [d0, d1, d2, d3])"

definition ipv6_value :: "uint8 list \<Rightarrow> Ipv6Address" where
  "ipv6_value vec = (let d = (\<lambda>i. join [24, 16, 8, 0] (take 4 (drop (4 * i) vec)) 0) in (d 0, d 1, d 2, d 3))"

interpretation ipv6_field: byte_field 16 "\<lambda>_. True" writeIpv6Address readIpv6Address ipv6_bytes ipv6_value "\<lambda>v. v"
proof
  fix v :: Ipv6Address and s s'
  obtain d0 d1 d2 d3 where v: "v = (d0, d1, d2, d3)" by (cases v) auto
  have w: "writeUint32Be d = bytes_write (shifted [24, 16, 8, 0] d)" for d
    by (rule ext) (simp only: writeUint32Be_def write_shifted_bytes)
  show "length (ipv6_bytes v) = 16" by (simp add: v)
  assume "bytes_write (ipv6_bytes v) s = Inr s'"
  then have "bytes_write (shifted [24, 16, 8, 0] d0 @ shifted [24, 16, 8, 0] d1 @ shifted [24, 16, 8, 0] d2 @ shifted [24, 16, 8, 0] d3) s = Inr s'"
    by (simp add: v)
  then show "writeIpv6Address v s = Inr s'" unfolding v writeIpv6Address.simps w
    by (simp only: bytes_write_append)
next
  fix t t' and vec
  assume r: "bytes_read 16 t = Inr (vec, t')"
  have "bytes_read (4 + 12) t = Inr (vec, t')" using r by simp
  from bytes_read_append [OF this] obtain v0 w0 t1 where 1: "vec = v0 @ w0" "length v0 = 4" "bytes_read 4 t = Inr (v0, t1)" "bytes_read 12 t1 = Inr (w0, t')"
    by blast
  have "bytes_read (4 + 8) t1 = Inr (w0, t')" using 1(4) by simp
  from bytes_read_append [OF this] obtain v1 w1 t2 where 2: "w0 = v1 @ w1" "length v1 = 4" "bytes_read 4 t1 = Inr (v1, t2)" "bytes_read 8 t2 = Inr (w1, t')"
    by blast
  have "bytes_read (4 + 4) t2 = Inr (w1, t')" using 2(4) by simp
  from bytes_read_append [OF this] obtain v2 v3 t3 where 3: "w1 = v2 @ v3" "length v2 = 4" "bytes_read 4 t2 = Inr (v2, t3)" "bytes_read 4 t3 = Inr (v3, t')"
    by blast
  note vec = 1(1) [unfolded 2(1) 3(1)] 1(2) 2(2) 3(2) and b = 1(3) 2(3) 3(3,4)
  assume "length vec = 16"
  then have "length v3 = 4" using vec by simp
  note g = u32be.get_bytes [OF b(1) vec(2)] u32be.get_bytes [OF b(2) vec(3)] u32be.get_bytes [OF b(3) vec(4)] u32be.get_bytes [OF b(4) this]
  show "readIpv6Address t = Inr (ipv6_value vec, t')"
    using vec \<open>length v3 = 4\<close> by (simp add: readIpv6Address_def g ipv6_value_def)
next
  fix v :: Ipv6Address
  show "ipv6_value (ipv6_bytes v) = v"
    using u32be.val_eq by (cases v) (simp add: ipv6_value_def)
qed

text \<open>Only the lower 48 bits of a MAC address are written.\<close>

definition mac_bytes :: "MacAddress \<Rightarrow> uint8 list" where
  "mac_bytes a = (case getAddressBytes a of Inr bs \<Rightarrow> bs | Inl _ \<Rightarrow> [])"

definition mac_value :: "uint8 list \<Rightarrow> MacAddress" where
  "mac_value vec = (case put_bytes [0..<6] vec 0 of Inr a \<Rightarrow> a | Inl _ \<Rightarrow> 0)"

lemma getAddressBytes_ok: "\<exists>bs. getAddressBytes a = Inr bs \<and> length bs = 6"
proof -
  have "\<exists>bs. get_bytes is a = Inr bs \<and> length bs = length is" if "set is \<subseteq> {..<6}" for "is"
    using that
  proof (induction "is")
    case (Cons i "is")
    obtain b where "getAddressByte i a = Inr b" using getAddressByte_ok [of i a] Cons.prems by auto
    then show ?case using Cons by auto
  qed simp
  moreover have "set [0..<6 :: nat] \<subseteq> {..<6}" by auto
  ultimately have "\<exists>bs. get_bytes [0..<6] a = Inr bs \<and> length bs = length [0..<6 :: nat]" by blast
  then show ?thesis by (simp add: getAddressBytes_def)
qed

lemma write_mac_bytes: "get_bytes is a = Inr bs \<Longrightarrow> bytes_write bs s = Inr s' \<Longrightarrow> write_mac is a s = Inr s'"
  by (induction "is" arbitrary: bs s) (auto simp: ebind_eq_Inr)

lemma read_mac_bytes:
  "bytes_read (length is) t = Inr (vec, t') \<Longrightarrow> put_bytes is vec a = Inr a' \<Longrightarrow> read_mac is a t = Inr (a', t')"
  by (induction "is" arbitrary: t vec a) (auto simp: ebind_eq_Inr)

lemma mac_value_bytes: "mac_value (mac_bytes a) = a AND MAC_ADDRESS_MASK"
proof -
  obtain bs where bs: "getAddressBytes a = Inr bs" "length bs = 6" using getAddressBytes_ok by blast
  obtain a' where a': "put_bytes [0..<6] bs 0 = Inr a'" "\<forall>k<6. \<forall>i<8. bit a' ((5 - k) * 8 + i) \<longleftrightarrow> bit (bs ! k) i" "a' AND MAC_ADDRESS_MASK = a'"
    using bit_put_bytes [OF bs(2)] by blast
  have e: "bit a ((5 - k) * 8 + i) \<longleftrightarrow> bit (bs ! k) i" if "k < 6" "i < 8" for k i
    using bs(1) that unfolding getAddressBytes_nth by blast
  have m: "MAC_ADDRESS_MASK = mask 48" by (simp add: MAC_ADDRESS_MASK_def mask_eq_exp_minus_1)
  have "a' = a AND MAC_ADDRESS_MASK"
  proof (rule bit_word_eqI)
    fix i
    assume "i < LENGTH(64)"
    show "bit a' i = bit (a AND MAC_ADDRESS_MASK) i"
    proof (cases "i < 48")
      case True
      have k: "5 - i div 8 < 6" "i mod 8 < 8" "(5 - (5 - i div 8)) * 8 + i mod 8 = i" using True by auto
      from a'(2) k have "bit a' i = bit a i" using e [OF k(1,2)] by (metis k(3))
      then show ?thesis using True unfolding m by (simp add: bit_simps)
    next
      case False
      then have "\<not> bit (a' AND mask 48) i" by (simp add: bit_simps)
      then have "\<not> bit a' i" using a'(3) unfolding m by simp
      then show ?thesis using False unfolding m by (simp add: bit_simps)
    qed
  qed
  then show ?thesis using bs a'(1) by (simp add: mac_value_def mac_bytes_def)
qed

interpretation mac_field: byte_field 6 "\<lambda>_. True" writeMacAddress readMacAddress mac_bytes mac_value "\<lambda>a. a AND MAC_ADDRESS_MASK"
proof
  fix a s s'
  obtain bs where bs: "getAddressBytes a = Inr bs" "length bs = 6" using getAddressBytes_ok by blast
  then show "length (mac_bytes a) = 6" by (simp add: mac_bytes_def)
  assume "bytes_write (mac_bytes a) s = Inr s'"
  then show "writeMacAddress a s = Inr s'"
    using bs write_mac_bytes unfolding writeMacAddress_def getAddressBytes_def by (simp add: mac_bytes_def getAddressBytes_def)
next
  fix t t' and vec :: "uint8 list"
  assume r: "bytes_read 6 t = Inr (vec, t')" and l: "length vec = 6"
  obtain a where "put_bytes [0..<6] vec 0 = Inr a" using bit_put_bytes [OF l] by blast
  then show "readMacAddress t = Inr (mac_value vec, t')"
    using r read_mac_bytes [of "[0..<6]"] by (simp add: readMacAddress_def mac_value_def)
qed (rule mac_value_bytes)

text \<open>A block of \<open>n\<close> bytes.\<close>

lemma holds_data:
  assumes "holds s bs" and "8 dvd length bs"
  shows "holds (s\<lparr>out_data := out_data s @ vec, out_length := out_length s + 8 * length vec\<rparr>) (bs @ vec_bits vec)"
  using holds_aligned [OF assms] assms by (auto simp: holds_def)

lemma writeBuffer_ok:
  assumes "holds s bs" and "8 dvd length bs"
  shows "\<exists>s'. writeBuffer vec (int (length vec)) s = Inr s' \<and> holds s' (bs @ vec_bits vec)"
  using holds_data [OF assms, of vec] assms by (auto simp: writeBuffer_def subvector_def holds_def ASSERT_def)

lemma writeBytes_ok:
  assumes "holds s bs" and "8 dvd length bs"
  shows "\<exists>s'. writeBytes vec 0 (- 1) s = Inr s' \<and> holds s' (bs @ vec_bits vec)"
  using holds_data [OF assms, of vec] assms by (auto simp: writeBytes_def subvector_def holds_def ASSERT_def)

lemma readBytes_ok:
  assumes t: "in_ok t" "8 dvd position t" and r: "in_rest t = vec_bits v @ bs"
  shows "readBytes (length v) t = Inr (v, t\<lparr>position := position t + 8 * length v\<rparr>)"
proof -
  obtain k where k: "position t = 8 * k" using t(2) by (rule dvdE)
  have le: "position t + 8 * length v \<le> in_length t" using length_in_rest [OF t(1)] r t(1) by (auto simp: in_ok_def)
  then have kl: "k + length v \<le> length (in_data t)" using t(1) k by (simp add: in_ok_def)
  have "take (8 * length v) (in_rest t) = vec_bits v" using r by simp
  then have "take (length v) (drop k (in_data t)) = v" using in_rest_take [OF t(1) k le] by (simp add: vec_bits_inject)
  then show ?thesis using le kl by (simp add: readBytes_def k subvector_def ASSERT_def nat_diff_distrib)
qed

interpretation bytes_field: stream_field 8 "8 * n" "\<lambda>vec. length vec = n" "\<lambda>vec. writeBuffer vec (int n)" "readBytes n" vec_bits "\<lambda>vec. vec" for n
proof
  fix t v bs
  assume "in_ok t" "8 dvd position t" "length v = n" "in_rest t = vec_bits v @ bs"
  then show "readBytes n t = Inr (v, t\<lparr>position := position t + 8 * n\<rparr>)" using readBytes_ok by blast
next
  fix t
  assume t: "in_ok t" "8 dvd position t" and "8 * n \<le> length (in_rest t)"
  then obtain vec bs where "length vec = n" "in_rest t = vec_bits vec @ bs" by (rule in_rest_bytes)
  then show "\<exists>v. readBytes n t = Inr (v, t\<lparr>position := position t + 8 * n\<rparr>)" using readBytes_ok [OF t] by blast
next
  fix t
  assume t: "in_ok t" "8 dvd position t" "8 dvd in_length t" and l: "length (in_rest t) < 8 * n"
  obtain k where k: "position t = 8 * k" using t(2) by (rule dvdE)
  obtain m where m: "in_length t = 8 * m" using t(3) by (rule dvdE)
  have le: "k \<le> m" "m \<le> length (in_data t)" using t(1) k m by (simp_all add: in_ok_def)
  have gt: "m < k + n" using l length_in_rest [OF t(1)] k m by simp
  have b: "to_B (8 * int m - 8 * int k) = Inr (int m - int k)"
  proof -
    have "8 * int m - 8 * int k = 8 * (int m - int k)" by simp
    then show ?thesis by (simp only: to_B_def) simp
  qed
  have e: "8 * k + 8 * nat (int m - int k) = 8 * m" using le by simp
  show "\<exists>v. readBytes n t = Inr (v, t\<lparr>position := in_length t, isReadBeyondEnd := True\<rparr>)"
    using gt le by (simp add: readBytes_def k m b subvector_def ASSERT_def e nat_diff_distrib)
qed (use writeBuffer_ok in auto)

section \<open>Small integers\<close>

lemma bit_mask_simps:
  "(v AND 0x1 \<noteq> 0) = bit v 0" "(v AND 0x2 \<noteq> 0) = bit v 1" "(v AND 0x4 \<noteq> 0) = bit v 2" "(v AND 0x8 \<noteq> 0) = bit v 3" for v :: uint8
  using and_exp_eq_0_iff_not_bit [of v 0] and_exp_eq_0_iff_not_bit [of v 1] and_exp_eq_0_iff_not_bit [of v 2] and_exp_eq_0_iff_not_bit [of v 3]
  by simp_all

definition low_bits :: "nat \<Rightarrow> uint8 \<Rightarrow> bool list" where
  "low_bits n v = map (bit v) (rev [0..<n])"

fun bits_value :: "bool list \<Rightarrow> uint8" where
  "bits_value [] = 0"
| "bits_value (b # bs) = (if b then bits_value bs OR 2 ^ length bs else bits_value bs)"

lemma bits_value_low: "bits_value (low_bits n v) = take_bit n v"
proof (induction n)
  case (Suc n)
  have "low_bits (Suc n) v = bit v n # low_bits n v" by (simp add: low_bits_def)
  moreover have "length (low_bits n v) = n" by (simp add: low_bits_def)
  moreover have "take_bit (Suc n) v = (if bit v n then take_bit n v OR 2 ^ n else take_bit n v)"
    by (rule bit_word_eqI) (auto simp: bit_simps less_Suc_eq)
  ultimately show ?case using Suc by simp
qed (simp add: low_bits_def)

lemma low_bits_2: "low_bits 2 v = [bit v 1, bit v 0]"
  by (simp add: low_bits_def numeral_eq_Suc)

lemma low_bits_4: "low_bits 4 v = [bit v 3, bit v 2, bit v 1, bit v 0]"
  by (simp add: low_bits_def numeral_eq_Suc)

lemma put_bits_Nil: "put_bits [] = Inr"
  by (rule ext) simp

lemma ebind_Inr_right: "ebind m Inr = m"
  by (cases m) simp_all

lemma put_bits_Cons: "put_bits (v # vs) = (\<lambda>s. ebind (writeBit v s) (put_bits vs))"
  by (rule ext) simp

lemma writeUint2_bits: "writeUint2 v = put_bits (low_bits 2 v)"
  unfolding writeUint2_def low_bits_2 bit_mask_simps by (rule ext) (simp add: put_bits_Cons put_bits_Nil ebind_Inr_right)

lemma writeUint4_bits: "writeUint4 v = put_bits (low_bits 4 v)"
  unfolding writeUint4_def low_bits_4 bit_mask_simps by (rule ext) (simp add: put_bits_Cons put_bits_Nil ebind_Inr_right)

lemma get_bits_Suc_iff:
  "get_bits (Suc n) t = Inr (vs, t') \<longleftrightarrow> (\<exists>b t1 bs. readBit t = Inr (b, t1) \<and> get_bits n t1 = Inr (bs, t') \<and> vs = b # bs)"
  by (auto simp: ebind_eq_Inr)

lemma readUint2_bits:
  assumes "get_bits 2 t = Inr (vs, t')"
  shows "readUint2 t = Inr (bits_value vs, t')"
proof -
  obtain b1 t1 b0 where "readBit t = Inr (b1, t1)" "readBit t1 = Inr (b0, t')" "vs = [b1, b0]"
    using assms unfolding numeral_2_eq_2 get_bits_Suc_iff by auto
  then show ?thesis by (cases b1; cases b0) (simp_all add: readUint2_def Let_def)
qed

lemma readUint4_bits:
  assumes "get_bits 4 t = Inr (vs, t')"
  shows "readUint4 t = Inr (bits_value vs, t')"
proof -
  have "4 = Suc (Suc (Suc (Suc 0)))" by simp
  then obtain b3 t1 b2 t2 b1 t3 b0 where "readBit t = Inr (b3, t1)" "readBit t1 = Inr (b2, t2)" "readBit t2 = Inr (b1, t3)"
      "readBit t3 = Inr (b0, t')" "vs = [b3, b2, b1, b0]"
    using assms unfolding get_bits_Suc_iff by (simp only: get_bits_Suc_iff get_bits.simps(1)) auto
  then show ?thesis by (cases b3; cases b2; cases b1; cases b0) (simp_all add: readUint4_def Let_def)
qed

locale bits_field =
  fixes n :: nat and put :: "uint8 \<Rightarrow> writer" and get :: "uint8 reader"
  assumes put_eq: "put v = put_bits (low_bits n v)"
    and get_eq: "get_bits n t = Inr (vs, t') \<Longrightarrow> length vs = n \<Longrightarrow> get t = Inr (bits_value vs, t')"
begin

lemma small_laws:
  shows "holds s bs \<Longrightarrow> \<exists>s'. put v s = Inr s' \<and> holds s' (bs @ low_bits n v)"
    and "in_ok t \<Longrightarrow> in_rest t = low_bits n v @ bs \<Longrightarrow> get t = Inr (take_bit n v, t\<lparr>position := position t + n\<rparr>)"
    and "in_ok t \<Longrightarrow> n \<le> length (in_rest t) \<Longrightarrow> \<exists>v. get t = Inr (v, t\<lparr>position := position t + n\<rparr>)"
    and "in_ok t \<Longrightarrow> length (in_rest t) < n \<Longrightarrow> \<exists>v. get t = Inr (v, t\<lparr>position := in_length t, isReadBeyondEnd := True\<rparr>)"
proof -
  assume "holds s bs"
  then show "\<exists>s'. put v s = Inr s' \<and> holds s' (bs @ low_bits n v)" unfolding put_eq by (rule put_bits_ok)
next
  have l: "length (low_bits n v) = n" by (simp add: low_bits_def)
  assume "in_ok t" "in_rest t = low_bits n v @ bs"
  then show "get t = Inr (take_bit n v, t\<lparr>position := position t + n\<rparr>)"
    using get_eq [OF get_bits_ok [of t "low_bits n v", unfolded l] l] by (simp add: bits_value_low)
next
  assume t: "in_ok t" "n \<le> length (in_rest t)"
  have "in_rest t = take n (in_rest t) @ drop n (in_rest t)" by simp
  moreover have l: "length (take n (in_rest t)) = n" using t(2) by simp
  ultimately have "get_bits n t = Inr (take n (in_rest t), t\<lparr>position := position t + n\<rparr>)"
    using get_bits_ok [OF t(1), of "take n (in_rest t)" "drop n (in_rest t)"] by (simp only: l)
  from get_eq [OF this l] show "\<exists>v. get t = Inr (v, t\<lparr>position := position t + n\<rparr>)" by blast
next
  assume "in_ok t" "length (in_rest t) < n"
  then show "\<exists>v. get t = Inr (v, t\<lparr>position := in_length t, isReadBeyondEnd := True\<rparr>)"
    using get_bits_end get_eq by blast
qed

end

sublocale bits_field \<subseteq> stream_field 1 n "\<lambda>_. True" put get "low_bits n" "take_bit n"
  by standard (use small_laws in \<open>auto simp: low_bits_def\<close>)

interpretation u2: bits_field 2 writeUint2 readUint2
  by standard (simp_all add: writeUint2_bits readUint2_bits)

interpretation u4: bits_field 4 writeUint4 readUint4
  by standard (simp_all add: writeUint4_bits readUint4_bits)

end
