(* ===== verification/MemoryStreamProps.thy ===== *)
theory MemoryStreamProps
  imports MemoryStreamSpec
begin

text \<open>
  Messages as sequences of fields of all the types the streams support. Every field satisfies the contract
  \<open>stream_field\<close>, so a message is read back as it was written, up to the bits a field cannot hold, and a message that
  was cut off is recognised.
\<close>

section \<open>Fields\<close>

datatype kind =
    Bit | Uint2 | Uint4 | Uint8 | Uint16Be | Uint16Le | Uint32Be | Uint32Le | Uint64Be | Uint64Le
  | Mac | Ip4 | Ip6 | Bytes nat

datatype field =
    FBit bool | FUint2 uint8 | FUint4 uint8 | FUint8 uint8 | FUint16Be uint16 | FUint16Le uint16 | FUint32Be uint32
  | FUint32Le uint32 | FUint64Be uint64 | FUint64Le uint64 | FMac MacAddress | FIp4 Ipv4Address | FIp6 Ipv6Address
  | FBytes "uint8 list"

fun write_field :: "field \<Rightarrow> writer" where
  "write_field (FBit v) = writeBit v"
| "write_field (FUint2 v) = writeUint2 v"
| "write_field (FUint4 v) = writeUint4 v"
| "write_field (FUint8 v) = writeUint8 v"
| "write_field (FUint16Be v) = writeUint16Be v"
| "write_field (FUint16Le v) = writeUint16Le v"
| "write_field (FUint32Be v) = writeUint32Be v"
| "write_field (FUint32Le v) = writeUint32Le v"
| "write_field (FUint64Be v) = writeUint64Be v"
| "write_field (FUint64Le v) = writeUint64Le v"
| "write_field (FMac v) = writeMacAddress v"
| "write_field (FIp4 v) = writeIpv4Address v"
| "write_field (FIp6 v) = writeIpv6Address v"
| "write_field (FBytes v) = writeBuffer v (int (length v))"

definition wrap :: "('v \<Rightarrow> field) \<Rightarrow> 'v reader \<Rightarrow> field reader" where
  "wrap C rd t = ebind (rd t) (\<lambda>(v, t). Inr (C v, t))"

fun read_field :: "kind \<Rightarrow> field reader" where
  "read_field Bit = wrap FBit readBit"
| "read_field Uint2 = wrap FUint2 readUint2"
| "read_field Uint4 = wrap FUint4 readUint4"
| "read_field Uint8 = wrap FUint8 readUint8"
| "read_field Uint16Be = wrap FUint16Be readUint16Be"
| "read_field Uint16Le = wrap FUint16Le readUint16Le"
| "read_field Uint32Be = wrap FUint32Be readUint32Be"
| "read_field Uint32Le = wrap FUint32Le readUint32Le"
| "read_field Uint64Be = wrap FUint64Be readUint64Be"
| "read_field Uint64Le = wrap FUint64Le readUint64Le"
| "read_field Mac = wrap FMac readMacAddress"
| "read_field Ip4 = wrap FIp4 readIpv4Address"
| "read_field Ip6 = wrap FIp6 readIpv6Address"
| "read_field (Bytes n) = wrap FBytes (readBytes n)"

fun kind_of :: "field \<Rightarrow> kind" where
  "kind_of (FBit v) = Bit" | "kind_of (FUint2 v) = Uint2" | "kind_of (FUint4 v) = Uint4" | "kind_of (FUint8 v) = Uint8"
| "kind_of (FUint16Be v) = Uint16Be" | "kind_of (FUint16Le v) = Uint16Le" | "kind_of (FUint32Be v) = Uint32Be"
| "kind_of (FUint32Le v) = Uint32Le" | "kind_of (FUint64Be v) = Uint64Be" | "kind_of (FUint64Le v) = Uint64Le"
| "kind_of (FMac v) = Mac" | "kind_of (FIp4 v) = Ip4" | "kind_of (FIp6 v) = Ip6" | "kind_of (FBytes v) = Bytes (length v)"

fun field_bits :: "field \<Rightarrow> bool list" where
  "field_bits (FBit v) = [v]" | "field_bits (FUint2 v) = low_bits 2 v" | "field_bits (FUint4 v) = low_bits 4 v"
| "field_bits (FUint8 v) = vec_bits [v]" | "field_bits (FUint16Be v) = vec_bits (shifted [8, 0] v)"
| "field_bits (FUint16Le v) = vec_bits (shifted [0, 8] v)" | "field_bits (FUint32Be v) = vec_bits (shifted [24, 16, 8, 0] v)"
| "field_bits (FUint32Le v) = vec_bits (shifted [0, 8, 16, 24] v)"
| "field_bits (FUint64Be v) = vec_bits (shifted [56, 48, 40, 32, 24, 16, 8, 0] v)"
| "field_bits (FUint64Le v) = vec_bits (shifted [0, 8, 16, 24, 32, 40, 48, 56] v)"
| "field_bits (FMac v) = vec_bits (mac_bytes v)" | "field_bits (FIp4 v) = vec_bits (shifted [24, 16, 8, 0] v)"
| "field_bits (FIp6 v) = vec_bits (ipv6_bytes v)" | "field_bits (FBytes v) = vec_bits v"

text \<open>What a field can hold of its value.\<close>

fun canon :: "field \<Rightarrow> field" where
  "canon (FUint2 v) = FUint2 (take_bit 2 v)"
| "canon (FUint4 v) = FUint4 (take_bit 4 v)"
| "canon (FMac v) = FMac (v AND MAC_ADDRESS_MASK)"
| "canon f = f"

fun width_of :: "kind \<Rightarrow> nat" where
  "width_of Bit = 1" | "width_of Uint2 = 2" | "width_of Uint4 = 4" | "width_of Uint8 = 8 * 1"
| "width_of Uint16Be = 8 * 2" | "width_of Uint16Le = 8 * 2" | "width_of Uint32Be = 8 * 4" | "width_of Uint32Le = 8 * 4"
| "width_of Uint64Be = 8 * 8" | "width_of Uint64Le = 8 * 8" | "width_of Mac = 8 * 6" | "width_of Ip4 = 8 * 4"
| "width_of Ip6 = 8 * 16" | "width_of (Bytes n) = 8 * n"

definition align_of :: "kind \<Rightarrow> nat" where
  "align_of k = (if k \<in> {Bit, Uint2, Uint4} then 1 else 8)"

text \<open>A stream contract carries over to the fields of its kind.\<close>

lemma wrapped:
  assumes "stream_field a w V put get bits tr"
    and "\<And>f. kind_of f = k \<Longrightarrow> \<exists>v. f = C v \<and> V v"
    and "\<And>v s. V v \<Longrightarrow> write_field (C v) s = put v s" and "\<And>v. V v \<Longrightarrow> field_bits (C v) = bits v" and "\<And>v. V v \<Longrightarrow> canon (C v) = C (tr v)"
    and "read_field k = wrap C get" and "align_of k = a" and "width_of k = w"
  shows "stream_field (align_of k) (width_of k) (\<lambda>f. kind_of f = k) write_field (read_field k) field_bits canon"
  unfolding assms(6,7,8)
proof
  fix f
  assume "kind_of f = k"
  then obtain v where v: "f = C v" "V v" using assms(2) by blast
  show "length (field_bits f) = w" using stream_field.width [OF assms(1) v(2)] assms(4) v by simp
  fix s bs
  assume "holds s bs" "a dvd length bs"
  from stream_field.write_ok [OF assms(1) this v(2)] show "\<exists>s'. write_field f s = Inr s' \<and> holds s' (bs @ field_bits f)"
    using assms(3,4) v by simp
next
  fix t f bs
  assume t: "in_ok t" "a dvd position t" and "kind_of f = k" and r: "in_rest t = field_bits f @ bs"
  then obtain v where v: "f = C v" "V v" using assms(2) by blast
  then have "in_rest t = bits v @ bs" using r assms(4) by simp
  from stream_field.read_ok [OF assms(1) t v(2) this] show "wrap C get t = Inr (canon f, t\<lparr>position := position t + w\<rparr>)"
    using assms(5) v by (simp add: wrap_def)
next
  fix t
  assume "in_ok t" "a dvd position t" "w \<le> length (in_rest t)"
  from stream_field.read_some [OF assms(1) this] show "\<exists>f. wrap C get t = Inr (f, t\<lparr>position := position t + w\<rparr>)"
    by (auto simp: wrap_def)
next
  fix t
  assume "in_ok t" "a dvd position t" "a dvd in_length t" "length (in_rest t) < w"
  from stream_field.read_end [OF assms(1) this]
  show "\<exists>f. wrap C get t = Inr (f, t\<lparr>position := in_length t, isReadBeyondEnd := True\<rparr>)" by (auto simp: wrap_def)
qed

lemma kind_of_eq:
  "kind_of f = Bit \<Longrightarrow> \<exists>v. f = FBit v" "kind_of f = Uint2 \<Longrightarrow> \<exists>v. f = FUint2 v" "kind_of f = Uint4 \<Longrightarrow> \<exists>v. f = FUint4 v"
  "kind_of f = Uint8 \<Longrightarrow> \<exists>v. f = FUint8 v" "kind_of f = Uint16Be \<Longrightarrow> \<exists>v. f = FUint16Be v"
  "kind_of f = Uint16Le \<Longrightarrow> \<exists>v. f = FUint16Le v" "kind_of f = Uint32Be \<Longrightarrow> \<exists>v. f = FUint32Be v"
  "kind_of f = Uint32Le \<Longrightarrow> \<exists>v. f = FUint32Le v" "kind_of f = Uint64Be \<Longrightarrow> \<exists>v. f = FUint64Be v"
  "kind_of f = Uint64Le \<Longrightarrow> \<exists>v. f = FUint64Le v" "kind_of f = Mac \<Longrightarrow> \<exists>v. f = FMac v" "kind_of f = Ip4 \<Longrightarrow> \<exists>v. f = FIp4 v"
  "kind_of f = Ip6 \<Longrightarrow> \<exists>v. f = FIp6 v" "kind_of f = Bytes n \<Longrightarrow> \<exists>v. f = FBytes v \<and> length v = n"
  by (cases f, simp_all del: split_paired_Ex)+

lemma field_contract: "stream_field (align_of k) (width_of k) (\<lambda>f. kind_of f = k) write_field (read_field k) field_bits canon"
proof (cases k)
  case Bit
  show ?thesis unfolding Bit by (rule wrapped [OF bit_field.stream_field_axioms]) (simp_all add: kind_of_eq align_of_def del: split_paired_Ex)
next
  case Uint2
  show ?thesis unfolding Uint2 by (rule wrapped [OF u2.stream_field_axioms]) (simp_all add: kind_of_eq align_of_def del: split_paired_Ex)
next
  case Uint4
  show ?thesis unfolding Uint4 by (rule wrapped [OF u4.stream_field_axioms]) (simp_all add: kind_of_eq align_of_def del: split_paired_Ex)
next
  case Uint8
  show ?thesis unfolding Uint8 by (rule wrapped [OF u8.stream_field_axioms]) (simp_all add: kind_of_eq align_of_def del: split_paired_Ex)
next
  case Uint16Be
  show ?thesis unfolding Uint16Be by (rule wrapped [OF u16be.stream_field_axioms]) (simp_all add: kind_of_eq align_of_def del: split_paired_Ex)
next
  case Uint16Le
  show ?thesis unfolding Uint16Le by (rule wrapped [OF u16le.stream_field_axioms]) (simp_all add: kind_of_eq align_of_def del: split_paired_Ex)
next
  case Uint32Be
  show ?thesis unfolding Uint32Be by (rule wrapped [OF u32be.stream_field_axioms]) (simp_all add: kind_of_eq align_of_def del: split_paired_Ex)
next
  case Uint32Le
  show ?thesis unfolding Uint32Le by (rule wrapped [OF u32le.stream_field_axioms]) (simp_all add: kind_of_eq align_of_def del: split_paired_Ex)
next
  case Uint64Be
  show ?thesis unfolding Uint64Be by (rule wrapped [OF u64be.stream_field_axioms]) (simp_all add: kind_of_eq align_of_def del: split_paired_Ex)
next
  case Uint64Le
  show ?thesis unfolding Uint64Le by (rule wrapped [OF u64le.stream_field_axioms]) (simp_all add: kind_of_eq align_of_def del: split_paired_Ex)
next
  case Mac
  show ?thesis unfolding Mac by (rule wrapped [OF mac_field.stream_field_axioms]) (simp_all add: kind_of_eq align_of_def del: split_paired_Ex)
next
  case Ip4
  show ?thesis unfolding Ip4 by (rule wrapped [OF ipv4_field.stream_field_axioms]) (simp_all add: kind_of_eq align_of_def del: split_paired_Ex)
next
  case Ip6
  show ?thesis unfolding Ip6 by (rule wrapped [OF ipv6_field.stream_field_axioms]) (simp_all add: kind_of_eq align_of_def del: split_paired_Ex)
next
  case (Bytes n)
  show ?thesis unfolding Bytes by (rule wrapped [OF bytes_field.stream_field_axioms]) (simp_all add: kind_of_eq align_of_def del: split_paired_Ex)
qed

interpretation any_field: stream_field "align_of k" "width_of k" "\<lambda>f. kind_of f = k" write_field "read_field k" field_bits canon for k
  by (rule field_contract)

section \<open>Messages\<close>

fun write_all :: "field list \<Rightarrow> writer" where
  "write_all [] s = Inr s"
| "write_all (f # fs) s = ebind (write_field f s) (write_all fs)"

fun read_all :: "kind list \<Rightarrow> field list reader" where
  "read_all [] t = Inr ([], t)"
| "read_all (k # ks) t = ebind (read_field k t) (\<lambda>(f, t). ebind (read_all ks t) (\<lambda>(fs, t). Inr (f # fs, t)))"

text \<open>Bytes begin on byte boundaries.\<close>

fun aligned :: "nat \<Rightarrow> kind list \<Rightarrow> bool" where
  "aligned p [] = True"
| "aligned p (k # ks) = (align_of k dvd p \<and> aligned (p + width_of k) ks)"

abbreviation message_bits :: "field list \<Rightarrow> bool list" where
  "message_bits fs \<equiv> concat (map field_bits fs)"

abbreviation message_width :: "kind list \<Rightarrow> nat" where
  "message_width ks \<equiv> sum_list (map width_of ks)"

lemma write_all_ok:
  "holds s bs \<Longrightarrow> aligned (length bs) (map kind_of fs) \<Longrightarrow> \<exists>s'. write_all fs s = Inr s' \<and> holds s' (bs @ message_bits fs)"
proof (induction fs arbitrary: s bs)
  case (Cons f fs)
  have a: "align_of (kind_of f) dvd length bs" "aligned (length bs + width_of (kind_of f)) (map kind_of fs)" using Cons.prems(2) by simp_all
  obtain s1 where s1: "write_field f s = Inr s1" "holds s1 (bs @ field_bits f)"
    using any_field.write_ok [OF Cons.prems(1) a(1) refl] by blast
  have "aligned (length (bs @ field_bits f)) (map kind_of fs)" using a(2) any_field.width [OF refl, of f] by simp
  from Cons.IH [OF s1(2) this] show ?case using s1(1) by simp
qed simp

lemma read_all_ok:
  "in_ok t \<Longrightarrow> aligned (position t) (map kind_of fs) \<Longrightarrow> in_rest t = message_bits fs @ bs \<Longrightarrow>
     read_all (map kind_of fs) t = Inr (map canon fs, t\<lparr>position := position t + length (message_bits fs)\<rparr>)"
proof (induction fs arbitrary: t)
  case (Cons f fs)
  have a: "align_of (kind_of f) dvd position t" "aligned (position t + width_of (kind_of f)) (map kind_of fs)" using Cons.prems(2) by simp_all
  have w: "length (field_bits f) = width_of (kind_of f)" by (rule any_field.width [OF refl])
  have r: "in_rest t = field_bits f @ (message_bits fs @ bs)" using Cons.prems(3) by simp
  note i = in_rest_advance [OF Cons.prems(1) r, unfolded w]
  have "read_all (map kind_of fs) (t\<lparr>position := position t + width_of (kind_of f)\<rparr>)
      = Inr (map canon fs, t\<lparr>position := position t + width_of (kind_of f) + length (message_bits fs)\<rparr>)"
    using Cons.IH [OF i(1) _ i(2)] a(2) by simp
  then show ?case using any_field.read_ok [OF Cons.prems(1) a(1) refl r] by (simp add: w add.assoc)
qed simp

lemma align_8: "8 dvd n \<Longrightarrow> align_of k dvd n"
  by (simp add: align_of_def)

lemma aligned_8: "8 dvd p \<Longrightarrow> \<forall>k\<in>set ks. align_of k = 8 \<Longrightarrow> aligned p ks"
proof (induction ks arbitrary: p)
  case (Cons k ks)
  have "8 dvd width_of k" using Cons.prems(2) by (cases k) (auto simp: align_of_def)
  then show ?case using Cons by simp
qed simp

text \<open>Reading never fails; a message that does not fit what is left sets the flag and uses up the stream.\<close>

lemma read_past:
  "in_ok t \<Longrightarrow> 8 dvd in_length t \<Longrightarrow> position t = in_length t \<Longrightarrow> \<exists>fs t'. read_all ks t = Inr (fs, t')
     \<and> in_ok t' \<and> position t' = in_length t \<and> in_length t' = in_length t \<and> (isReadBeyondEnd t \<or> 0 < message_width ks \<longrightarrow> isReadBeyondEnd t')"
proof (induction ks arbitrary: t)
  case (Cons k ks)
  have a: "align_of k dvd position t" "align_of k dvd in_length t" using Cons.prems(2,3) by (simp_all add: align_8)
  have r: "length (in_rest t) = 0" using length_in_rest [OF Cons.prems(1)] Cons.prems(3) by simp
  obtain f t1 where t1: "read_field k t = Inr (f, t1)" "in_ok t1" "position t1 = in_length t" "in_length t1 = in_length t"
      "isReadBeyondEnd t \<or> 0 < width_of k \<longrightarrow> isReadBeyondEnd t1"
  proof (cases "width_of k = 0")
    case True
    then obtain f where "read_field k t = Inr (f, t\<lparr>position := position t + width_of k\<rparr>)"
      using any_field.read_some [OF Cons.prems(1) a(1)] by auto
    then show thesis using that [of f t] True Cons.prems by simp
  next
    case False
    then have "length (in_rest t) < width_of k" using r by simp
    then obtain f where "read_field k t = Inr (f, t\<lparr>position := in_length t, isReadBeyondEnd := True\<rparr>)"
      using any_field.read_end [OF Cons.prems(1) a] by blast
    then show thesis using that [of f "t\<lparr>position := in_length t, isReadBeyondEnd := True\<rparr>"] Cons.prems by (simp add: in_ok_def)
  qed
  from Cons.IH [OF t1(2)] t1 Cons.prems(2) obtain fs t' where t': "read_all ks t1 = Inr (fs, t')" "in_ok t'" "position t' = in_length t"
      "in_length t' = in_length t" "isReadBeyondEnd t1 \<or> 0 < message_width ks \<longrightarrow> isReadBeyondEnd t'"
    by auto
  then show ?case using t1(1,5) by (intro exI [of _ "f # fs"] exI [of _ t']) auto
qed simp

lemma read_truncated:
  "in_ok t \<Longrightarrow> 8 dvd in_length t \<Longrightarrow> aligned (position t) ks \<Longrightarrow> length (in_rest t) < message_width ks \<Longrightarrow>
     \<exists>fs t'. read_all ks t = Inr (fs, t') \<and> position t' = in_length t \<and> isReadBeyondEnd t'"
proof (induction ks arbitrary: t)
  case (Cons k ks)
  have a: "align_of k dvd position t" "align_of k dvd in_length t" using Cons.prems(2,3) by (simp_all add: align_8)
  show ?case
  proof (cases "width_of k \<le> length (in_rest t)")
    case True
    define t1 where "t1 = t\<lparr>position := position t + width_of k\<rparr>"
    obtain f where f: "read_field k t = Inr (f, t1)"
      using any_field.read_some [OF Cons.prems(1) a(1) True] by (auto simp: t1_def)
    have ok: "in_ok t1" using True length_in_rest [OF Cons.prems(1)] Cons.prems(1) by (auto simp: t1_def in_ok_def)
    have "length (in_rest t1) < message_width ks"
      using Cons.prems(4) length_in_rest [OF Cons.prems(1)] length_in_rest [OF ok] True by (simp add: t1_def)
    moreover have "aligned (position t1) ks" "8 dvd in_length t1" using Cons.prems(2,3) by (simp_all add: t1_def)
    ultimately obtain fs t' where "read_all ks t1 = Inr (fs, t')" "position t' = in_length t1" "isReadBeyondEnd t'"
      using Cons.IH [OF ok] by blast
    then show ?thesis using f by (simp add: t1_def)
  next
    case False
    define t1 where "t1 = t\<lparr>position := in_length t, isReadBeyondEnd := True\<rparr>"
    obtain f where f: "read_field k t = Inr (f, t1)"
      using any_field.read_end [OF Cons.prems(1) a] False by (auto simp: t1_def)
    have ok: "in_ok t1" using Cons.prems(1) by (simp add: t1_def in_ok_def)
    have d: "8 dvd in_length t1" "position t1 = in_length t1" using Cons.prems(2) by (simp_all add: t1_def)
    show ?thesis using read_past [OF ok d, of ks] f by (auto simp: t1_def)
  qed
qed simp

section \<open>Properties\<close>

text \<open>(C13) Whatever fields are written one after the other, bits, integers of all widths in both byte orders, addresses and
  blocks of bytes, as long as those made of bytes start on a byte boundary: a stream over the bytes written gives the
  same fields back, each reduced to the bits it can hold, reads to the end exactly and raises no flag.\<close>

theorem memory_stream_roundtrip:
  assumes "aligned 0 (map kind_of fs)"
  shows "\<exists>s t t'. write_all fs MemoryOutputStream_new = Inr s \<and> MemoryInputStream_new (out_data s) (int (out_length s)) 0 = Inr t
     \<and> read_all (map kind_of fs) t = Inr (map canon fs, t') \<and> position t' = out_length s \<and> \<not> isReadBeyondEnd t'"
proof -
  obtain s where s: "write_all fs MemoryOutputStream_new = Inr s" "holds s (message_bits fs)"
    using write_all_ok [OF holds_new] assms by auto
  define t where "t = \<lparr>in_data = out_data s, in_length = out_length s, position = 0, isReadBeyondEnd = False\<rparr>"
  obtain pad where p: "out_length s = length (message_bits fs)" "vec_bits (out_data s) = message_bits fs @ replicate pad False"
    using s(2) by (auto simp: holds_def)
  have "8 * length (out_data s) = length (message_bits fs) + pad" using arg_cong [OF p(2), of length] by simp
  then have "in_ok t" by (simp add: in_ok_def t_def p(1))
  moreover have "in_rest t = message_bits fs @ []" by (simp add: in_rest_def t_def p)
  ultimately have "read_all (map kind_of fs) t = Inr (map canon fs, t\<lparr>position := position t + length (message_bits fs)\<rparr>)"
    using assms by (intro read_all_ok) (simp_all add: t_def)
  moreover have "MemoryInputStream_new (out_data s) (int (out_length s)) 0 = Inr t"
    by (simp add: MemoryInputStream_new_def t_def ASSERT_def)
  moreover define t' where "t' = t\<lparr>position := position t + length (message_bits fs)\<rparr>"
  moreover have "position t' = out_length s" "\<not> isReadBeyondEnd t'" by (simp_all add: t'_def t_def p(1))
  ultimately show ?thesis using s(1) by blast
qed

definition example_message :: "field list" where
  "example_message = [FUint4 0x45, FBit True, FBit False, FUint2 1, FUint16Be 0x1234, FMac 0x0A0B0C0D0E0F, FBytes [1, 2], FUint64Le 7]"

theorem memory_stream_roundtrip_witness:
  "\<exists>s t t'. write_all example_message MemoryOutputStream_new = Inr s
     \<and> MemoryInputStream_new (out_data s) (int (out_length s)) 0 = Inr t
     \<and> read_all (map kind_of example_message) t = Inr (FUint4 5 # map canon (tl example_message), t')"
proof -
  have "aligned 0 (map kind_of example_message)" by (simp add: example_message_def align_of_def)
  from memory_stream_roundtrip [OF this]
  obtain s t t' where "write_all example_message MemoryOutputStream_new = Inr s"
      "MemoryInputStream_new (out_data s) (int (out_length s)) 0 = Inr t"
      "read_all (map kind_of example_message) t = Inr (map canon example_message, t')"
    by blast
  moreover have "map canon example_message = FUint4 5 # map canon (tl example_message)" by (simp add: example_message_def)
  ultimately show ?thesis by auto
qed

text \<open>(C36) Reading a message from a stream of bytes that is too short for it does not fail: every read returns, the position
  ends at the end of the stream and the flag \<open>isReadBeyondEnd\<close> is set.\<close>

theorem memory_stream_truncated:
  assumes "MemoryInputStream_new vec (- 1) 0 = Inr t" and "aligned 0 ks" and "8 * length vec < message_width ks"
  shows "\<exists>fs t'. read_all ks t = Inr (fs, t') \<and> position t' = 8 * length vec \<and> isReadBeyondEnd t'"
proof -
  have t: "t = \<lparr>in_data = vec, in_length = 8 * length vec, position = 0, isReadBeyondEnd = False\<rparr>"
    using assms(1) by (simp add: MemoryInputStream_new_def ASSERT_def nat_mult_distrib)
  have ok: "in_ok t" by (simp add: in_ok_def t)
  then have "length (in_rest t) < message_width ks" using assms(3) length_in_rest [OF ok] by (simp add: t)
  from read_truncated [OF ok _ _ this] assms(2) show ?thesis by (auto simp: t)
qed

theorem memory_stream_truncated_witness:
  "\<exists>t fs t'. MemoryInputStream_new [0x12, 0x34] (- 1) 0 = Inr t \<and> read_all [Uint16Be, Bit] t = Inr (fs, t') \<and> isReadBeyondEnd t'"
proof -
  obtain t where t: "MemoryInputStream_new [0x12, 0x34] (- 1) 0 = Inr t" by (simp add: MemoryInputStream_new_def ASSERT_def)
  have "aligned 0 [Uint16Be, Bit]" "8 * length [0x12, 0x34 :: uint8] < message_width [Uint16Be, Bit]" by (simp_all add: align_of_def)
  from memory_stream_truncated [OF t this] t show ?thesis by blast
qed

end
