(* ===== verification/Spec2Isabelle.thy ===== *)
theory Spec2Isabelle
  imports AirportProperties MessageClass BarKitchen TicToc ProducerConsumerL RunwayHandshake
    SackSpec MacTable SctpCombined TcpFsmProps MeterSpec TcpStream Ipv4FragProps MemoryStreamProps
begin

text \<open>
  A verification library for the control tower simulation and the programs beside it.

  The repository holds a simulation of an airport with a control tower, written for the OMNeT++
  simulation library, the exercise programs of its authors, the airport program of another group, and
  the INET framework of network protocols. Modelled is the code that computes: module handlers
  and the data structures and state machines of protocols. OMNeT++ is not part of the
  repository; what modules compute with its results is the parameter \<open>omnet\<close> of theory \<open>Omnet\<close> (queue
  container, random numbers, conversion of times), under the documented laws collected in
  the locales \<open>cQueue\<close> and \<open>omnetpp\<close> and instantiated by \<open>list_omnet\<close>; calls without a result are
  logged effects.

  \<^bold>\<open>Shared theories.\<close> \<open>Prelude\<close>: error-passing composition \<open>ebind\<close>, lists and multisets. \<open>Omnet\<close>: messages,
  the pending events, the library parameter, the \<open>error\<close> type. \<open>Network\<close>: runs of a network of modules
  and the rule for their invariants (locale \<open>network_invariant\<close>). \<open>Decimal\<close>, \<open>Display\<close>: number output,
  fixed-size text buffers. \<open>SeqNum\<close>: 32-bit sequence numbers with wrap-around.

  \<^bold>\<open>The control tower\<close> (\<open>AirTrafficControl/src\<close>). \<open>Airport\<close> has the state of \<open>Airspace\<close>,
  \<open>ParkingArea\<close> and \<open>ControlTower\<close>, \<open>AirportModules\<close> one definition per member function. The tower calls
  its clients back: \<open>RunwayUse\<close> states that contract as the locale \<open>runway_client\<close>, of which the airspace
  and the parking area are two instances. \<open>AirportInvariant\<close> and \<open>AirportSystem\<close> prove the
  invariant of all reachable states; \<open>AirportSpec\<close> an abstract airport of one runway and two waiting
  lines that the simulator refines; \<open>AirportHistory\<close> and \<open>AirportFairness\<close> what holds of whole
  simulations (orders, statistics, utilization, the merged waiting line). \<open>AirportProperties\<close> states the
  results for every library implementation, with witnesses on a run of two airplanes. \<open>MessageClass\<close> is
  the generated class of the \<open>Airplane\<close> message (packing, reflection).

  \<^bold>\<open>Exercises\<close> (\<open>Esercizi\<close>). \<open>BarKitchen\<close> (five versions), \<open>TicToc\<close> (three), \<open>ProducerConsumer\<close>,
  \<open>ProducerConsumerL\<close>: every handler, the networks, and the invariants of their runs.

  \<^bold>\<open>The airport without a tower\<close> (\<open>Other Projects/ControlTowrMaEl\<close>): \<open>RunwayHandshake\<close> models sky, runway,
  parking and take-off, which pass the runway on by messages, and proves exclusive and work-conserving use.

  \<^bold>\<open>INET\<close> (\<open>Workspace/inet/src/inet\<close>). \<open>SackQueue\<close>, \<open>SackSpec\<close>: the TCP retransmission queue refines a
  list of flags per byte. \<open>TcpFsm\<close>, \<open>TcpFsmProps\<close>: the state machine of a TCP connection, its entry actions
  and timers; it refines the specification of an orderly release. \<open>SctpGap\<close>, \<open>SctpSpec\<close>, \<open>SctpLists\<close>,
  \<open>SctpCombined\<close>: the gap lists of an SCTP receiver represent sets of sequence numbers. \<open>Ipv4Addr\<close>,
  \<open>MacAddr\<close>: addresses, their text and arithmetic. \<open>MacTable\<close>: the address table of a switch refines a map
  with aging. \<open>Meters\<close>, \<open>MeterSpec\<close>: the traffic meters conform to rate and burst; the locale
  \<open>bucket_meter\<close> has the argument once, with an instance for each bucket of each meter.

  \<^bold>\<open>Packet data\<close> (\<open>common/packet\<close>, \<open>common/Memory*Stream.h\<close>). \<open>Chunk\<close>, \<open>ChunkSeq\<close>: the chunks a packet consists of
  and their operations; \<open>ChunkSpec\<close> gives them their meaning as lists of bits, where the serializer of header objects is
  the parameter \<open>ser\<close>. \<open>Packet\<close>, \<open>PacketSpec\<close>: packets and chunk queues with their offsets. \<open>ChunkBuffer\<close>: the
  buffers for data out of order, which refine partial maps from positions to bits (\<open>ChunkBufferSpec\<close>); the locale
  \<open>stream_store\<close> states what their clients rely on, the interpretation \<open>chunk_store\<close> provides it. \<open>MemoryStream\<close>: the
  bit streams behind serialization; the locale \<open>stream_field\<close> of \<open>MemoryStreamSpec\<close> is the contract between a write
  and a read function, interpreted for each of them, and \<open>MemoryStreamProps\<close> draws the conclusions for whole messages.
  \<open>Checksum\<close>: the Internet checksum.

  \<^bold>\<open>Clients of packet data.\<close> \<open>TcpQueues\<close>, \<open>TcpStream\<close>: the queues of a TCP sender and receiver. Segments between them
  are lost, repeated, reordered and cut by the network of an event system; the model relates the sequence numbers, which
  wrap around, to positions in the stream, for windows of up to a gigabyte, and shows that the application reads a prefix
  of what was written and that retransmission completes it. \<open>Ipv4Frag\<close>, \<open>Ipv4FragSpec\<close>, \<open>Ipv4FragProps\<close>: fragmentation of
  IPv4 datagrams and the reassembly buffers, a map ordered by the key of a datagram (an instance of \<open>linorder\<close>), which
  refine a map from datagrams to the sets of bytes that arrived.

  \<^bold>\<open>Idealisations.\<close> A \<open>double\<close> is a real number. Simulation times, identities and statistics counters are
  unbounded integers; words have their width wherever they wrap around (sequence numbers, addresses), and
  signed 64-bit arithmetic whose overflow matters is checked and gives an error. Messages pending for the same
  time are delivered in any order, in \<open>RunwayHandshake\<close> in the order of their scheduling, as the
  simulation kernel documents. Objects that C++ shares are kept in an explicit heap
  where aliasing matters (\<open>MacTable\<close>). Recursion is structural or has a measure, no fuel is used; a C++ exception,
  a failed assertion, a null pointer or an access out of bounds is a value of type \<open>error\<close>. Log output
  is left out, apart from the one statement in \<open>ProducerConsumerL\<close> that changes state. Lengths of packets and streams are
  unbounded; tags and the flags of damaged chunks are left out.

  \<^bold>\<open>Not modelled.\<close> The copies of the program under \<open>Backups\<close> and \<open>Consegna\<close>; the Python, NED and
  configuration files, except for connections and parameters that the models use; generated classes
  other than \<open>Airplane_m\<close>; the rest of INET, in particular command and segment processing of TCP,
  the SCTP association, routing and forwarding, and the serializers of header objects.
\<close>

end
